(* ===== verification/Prelude.thy ===== *)
theory Prelude
  imports "HOL-Library.Word"
begin

text \<open>
  Shared vocabulary of the development: byte strings, Go slices, the fixed-width integers of
  \<^verbatim>\<open>encoding/binary\<close> in both byte orders, the blocking reader and the buffered writer that the
  protocol code runs on, and the interfaces that several components share: a datagram codec
  (\<open>dgram_codec\<close>), a framed codec on a byte stream (\<open>stream_codec\<close>) and the
  list facts about them.

  A Go \<^verbatim>\<open>string\<close> that travels on the wire is its list of bytes.  A Go \<^verbatim>\<open>error\<close> is a value of an
  error datatype of the component; \<open>(T, error)\<close> results are sums with the error on the left.
\<close>

unbundle bit_operations_syntax

named_theorems codec_simps \<open>equations that evaluate encoders and decoders on symbolic packets\<close>

section \<open>Bytes, widths and slices\<close>

type_synonym byte = "8 word"
type_synonym bytes = "byte list"
type_synonym u8 = "8 word"
type_synonym u16 = "16 word"
type_synonym u32 = "32 word"
type_synonym u64 = "64 word"

text \<open>The Go slice expression \<^verbatim>\<open>b[i:j]\<close> for \<open>i \<le> j \<le> length b\<close>.\<close>

definition slice :: "nat \<Rightarrow> nat \<Rightarrow> 'a list \<Rightarrow> 'a list" where
  "slice i j b = drop i (take j b)"

lemma length_slice [simp]: "j \<le> length b \<Longrightarrow> length (slice i j b) = j - i"
  by (simp add: slice_def)

lemma slice_append1 [codec_simps]: "j \<le> length xs \<Longrightarrow> slice i j (xs @ ys) = slice i j xs"
  by (simp add: slice_def)

lemma slice_append2 [codec_simps]:
  "length xs \<le> i \<Longrightarrow> slice i j (xs @ ys) = slice (i - length xs) (j - length xs) ys"
  by (cases "j \<le> length xs") (auto simp: slice_def take_append min_def)

lemma slice_all [codec_simps]: "length xs \<le> j \<Longrightarrow> slice 0 j xs = xs"
  by (simp add: slice_def)

lemma slice_Cons [codec_simps]:
  "slice (numeral i) j (x # xs) = slice (numeral i - 1) (j - 1) xs"
  "slice (Suc n) j (x # xs) = slice n (j - 1) xs"
  by (cases j; simp add: slice_def drop_Cons' take_Cons')+

lemma slice_0_Cons [codec_simps]:
  "slice 0 (numeral j) (x # xs) = x # slice 0 (numeral j - 1) xs"
  "slice 0 (Suc n) (x # xs) = x # slice 0 n xs"
  "slice 0 1 (x # xs) = [x]"
  by (simp_all add: slice_def take_Cons')

lemma slice_1_Cons [codec_simps]: "slice 1 j (x # xs) = slice 0 (j - 1) xs"
  using slice_Cons(2)[of 0] by simp

lemma slice_to_0 [codec_simps]: "slice i 0 xs = []"
  by (simp add: slice_def)

lemma slice_join: "i \<le> j \<Longrightarrow> j \<le> k \<Longrightarrow> slice i j b @ slice j k b = slice i k b"
  unfolding slice_def
  by (smt (verit, best) append_take_drop_id drop_take le_add_diff_inverse take_add drop_drop
      add.commute diff_add_assoc2 take_drop)

lemma slice_join_more:
  "i \<le> j \<Longrightarrow> j \<le> k \<Longrightarrow> slice i j b @ slice j k b @ r = slice i k b @ r"
  by (metis append_assoc slice_join)

lemma slice_nth: "i < length b \<Longrightarrow> [b ! i] = slice i (Suc i) b"
  by (simp add: slice_def take_Suc_conv_app_nth)

lemma slice_nth2: "Suc i < length b \<Longrightarrow> [b ! i, b ! Suc i] = slice i (Suc (Suc i)) b"
  using slice_nth[of i b] slice_nth[of "Suc i" b] slice_join[of i "Suc i" "Suc (Suc i)" b]
  by (metis Suc_lessD append_Cons append_Nil le_SucI order_refl)

lemma slice_to_end: "slice i (length b) b = drop i b"
  by (simp add: slice_def)

lemma slice_from_0: "slice 0 j b = take j b"
  by (simp add: slice_def)

lemma slice_drop_join: "i \<le> j \<Longrightarrow> slice i j b @ drop j b = drop i b"
  by (metis append_take_drop_id drop_append drop_take length_take min_def slice_def
      drop_all le_cases append_Nil2 take_all diff_is_0_eq' take_0 drop_0)

text \<open>
  Field-by-field reassembly: rewriting with these puts the fields a decoder has cut out of a packet
  together again.
\<close>

lemma slice_glue_nth:
  "Suc i = j \<Longrightarrow> j \<le> k \<Longrightarrow> i < length b \<Longrightarrow> b ! i # slice j k b = slice i k b"
  "Suc i = j \<Longrightarrow> j \<le> k \<Longrightarrow> i < length b \<Longrightarrow> b ! i # slice j k b @ r = slice i k b @ r"
  "Suc i = j \<Longrightarrow> i < length b \<Longrightarrow> b ! i # drop j b = drop i b"
  using slice_nth[of i b] slice_join[of i j k b] slice_join_more[of i j k b r]
    Cons_nth_drop_Suc[of i b]
  by (auto simp flip: append_Cons) (metis append_Cons append_Nil append_assoc)+

lemmas slice_glue = slice_join slice_join_more slice_drop_join slice_glue_nth

text \<open>A chain of guards that passes, and one that ends with an error.\<close>

lemma guard_None: "(if P then Some x else y) = None \<longleftrightarrow> \<not> P \<and> y = None"
  by simp

lemma guard_Inr:
  "(if P then Inl e else y) = Inr x \<longleftrightarrow> \<not> P \<and> y = Inr x"
  "(if P then y else Inl e) = Inr x \<longleftrightarrow> P \<and> y = Inr x"
  by simp_all

lemma case_sum_Inr:
  "(case s of Inl e \<Rightarrow> Inl e | Inr a \<Rightarrow> f a) = Inr x \<longleftrightarrow> (\<exists>a. s = Inr a \<and> f a = Inr x)"
  by (cases s) auto

lemmas result_simps = guard_None guard_Inr case_sum_Inr

section \<open>Little- and big-endian integers\<close>

text \<open>
  \<^verbatim>\<open>binary.LittleEndian.PutUint32\<close> and its kin write \<open>n\<close> bytes, the least significant first;
  \<^verbatim>\<open>Uint32\<close> reads \<^verbatim>\<open>uint32(b[0]) | uint32(b[1])<<8 | \<dots>\<close>.  Big endian is the reverse.
\<close>

primrec put_le :: "nat \<Rightarrow> 'a::len word \<Rightarrow> bytes" where
  "put_le 0 w = []"
| "put_le (Suc n) w = ucast w # put_le n (drop_bit 8 w)"

primrec get_le :: "bytes \<Rightarrow> 'a::len word" where
  "get_le [] = 0"
| "get_le (b # bs) = ucast b OR push_bit 8 (get_le bs)"

definition put_be :: "nat \<Rightarrow> 'a::len word \<Rightarrow> bytes" where
  "put_be n w = rev (put_le n w)"

definition get_be :: "bytes \<Rightarrow> 'a::len word" where
  "get_be bs = get_le (rev bs)"

lemma put_le_numeral:
  "put_le (numeral k) w = ucast w # put_le (pred_numeral k) (drop_bit 8 w)"
  by (simp add: numeral_eq_Suc)

lemma length_put_le [simp]: "length (put_le n w) = n"
  by (induction n arbitrary: w) auto

lemma length_put_be [simp]: "length (put_be n w) = n"
  by (simp add: put_be_def)

lemma get_put_le_take: "get_le (put_le n w) = take_bit (8 * n) w"
proof (induction n arbitrary: w)
  case 0
  then show ?case by simp
next
  case (Suc n)
  show ?case
    by (simp add: Suc.IH) (rule bit_word_eqI, auto simp: bit_simps)
qed

lemma get_put_le: "LENGTH('a::len) \<le> 8 * n \<Longrightarrow> get_le (put_le n (w :: 'a word)) = w"
  unfolding get_put_le_take by (rule bit_word_eqI) (auto simp: bit_simps)

lemma bit_get_le_bound: "8 * length bs \<le> k \<Longrightarrow> \<not> bit (get_le bs :: 'a::len word) k"
proof (induction bs arbitrary: k)
  case Nil
  then show ?case by simp
next
  case (Cons b bs)
  then have "\<not> bit (get_le bs :: 'a word) (k - 8)" by simp
  with Cons.prems show ?case by (auto simp: bit_simps dest: bit_imp_le_length)
qed

lemma put_get_le:
  "8 * length bs \<le> LENGTH('a::len) \<Longrightarrow> put_le (length bs) (get_le bs :: 'a word) = bs"
proof (induction bs)
  case Nil
  then show ?case by simp
next
  case (Cons b bs)
  have "ucast (ucast b OR push_bit 8 (get_le bs) :: 'a word) = b"
    using Cons.prems by (intro bit_word_eqI) (auto simp: bit_simps dest: bit_imp_le_length)
  moreover have "drop_bit 8 (ucast b OR push_bit 8 (get_le bs) :: 'a word) = get_le bs"
    using Cons.prems bit_get_le_bound[of bs, where ?'a = 'a]
    by (intro bit_word_eqI) (auto simp: bit_simps not_le dest: bit_imp_le_length)
  ultimately show ?case using Cons by simp
qed

lemma get_put_be: "LENGTH('a::len) \<le> 8 * n \<Longrightarrow> get_be (put_be n (w :: 'a word)) = w"
  by (simp add: get_be_def put_be_def get_put_le)

lemma put_get_be:
  "8 * length bs \<le> LENGTH('a::len) \<Longrightarrow> put_be (length bs) (get_be bs :: 'a word) = bs"
  using put_get_le[of "rev bs", where ?'a = 'a] by (simp add: get_be_def put_be_def)

lemma put_get_le_n:
  "length bs = n \<Longrightarrow> 8 * n \<le> LENGTH('a::len) \<Longrightarrow> put_le n (get_le bs :: 'a word) = bs"
  using put_get_le by blast

lemma put_get_be_n:
  "length bs = n \<Longrightarrow> 8 * n \<le> LENGTH('a::len) \<Longrightarrow> put_be n (get_be bs :: 'a word) = bs"
  using put_get_be by blast

lemmas endian_simps = get_put_le get_put_be put_get_le_n put_get_be_n

text \<open>A length stored in a 16-bit or 32-bit field is read back when it fits.\<close>

lemma unat_bounds:
  "unat (b :: u8) \<le> 255" "unat (c :: u16) \<le> 65535" "unat (d :: u32) \<le> 4294967295"
  using unsigned_less[of b, where ?'a = nat] unsigned_less[of c, where ?'a = nat]
    unsigned_less[of d, where ?'a = nat] by simp_all

lemma word_eq_unat: "v = w \<longleftrightarrow> unat v = unat w"
  by (auto intro: unsigned_word_eqI)

lemma unat_ucast_up [simp]:
  "LENGTH('a::len) \<le> LENGTH('b::len) \<Longrightarrow> unat (ucast (w :: 'a word) :: 'b word) = unat w"
proof -
  assume "LENGTH('a) \<le> LENGTH('b)"
  then have "unat w < 2 ^ LENGTH('b)"
    using unsigned_less[of w, where ?'a = nat] by (meson less_le_trans one_le_numeral power_increasing)
  then show ?thesis by (simp add: unsigned_ucast_eq take_bit_nat_eq_self)
qed

lemma unat_of_nat_u16 [simp]: "n < 65536 \<Longrightarrow> unat (word_of_nat n :: u16) = n"
  by (simp add: unsigned_of_nat take_bit_nat_eq_self)

lemma unat_of_nat_u32 [simp]: "n < 4294967296 \<Longrightarrow> unat (word_of_nat n :: u32) = n"
  by (simp add: unsigned_of_nat take_bit_nat_eq_self)

lemma unat_of_nat_u8 [simp]: "n < 256 \<Longrightarrow> unat (word_of_nat n :: u8) = n"
  by (simp add: unsigned_of_nat take_bit_nat_eq_self)

end
