(* ===== verification/Wire_IO.thy ===== *)
theory Wire_IO
  imports Prelude
begin

text \<open>
  The two ends of a byte stream as the protocol code sees them.  A reader is the bytes that are
  still to arrive and the error the connection reports once they are used up; a writer is the
  bytes the connection has taken and how many more it takes before writes start to fail.
  \<^verbatim>\<open>io.ReadFull\<close> turns an early end of file into \<^verbatim>\<open>ErrUnexpectedEOF\<close> and passes every other error
  on.  The interfaces \<open>dgram_codec\<close> and \<open>stream_codec\<close> state what a packet format and a framed
  stream format promise; every wire format of the program is an interpretation of one of them.
\<close>

datatype io_error = EOF | UnexpectedEOF | NetTimeout | NetClosed

record reader =
  r_data :: bytes
  r_end :: io_error

record writer =
  w_out :: bytes
  w_room :: "nat option"

definition read_full :: "nat \<Rightarrow> reader \<Rightarrow> io_error + bytes \<times> reader" where
  "read_full n r =
     (if n \<le> length (r_data r)
      then Inr (take n (r_data r), r\<lparr>r_data := drop n (r_data r)\<rparr>)
      else Inl (if r_end r = EOF \<and> r_data r \<noteq> [] then UnexpectedEOF else r_end r))"

definition bw_write :: "writer \<Rightarrow> bytes \<Rightarrow> io_error + writer" where
  "bw_write w p =
     (case w_room w of
        None \<Rightarrow> Inr (w\<lparr>w_out := w_out w @ p\<rparr>)
      | Some k \<Rightarrow> if length p \<le> k
                  then Inr (w\<lparr>w_out := w_out w @ p, w_room := Some (k - length p)\<rparr>)
                  else Inl NetClosed)"

definition bw_flush :: "writer \<Rightarrow> io_error + writer" where
  "bw_flush w = Inr w"

text \<open>What a writer with room for \<open>p\<close> becomes after taking it.\<close>

definition wr_room_for :: "nat \<Rightarrow> writer \<Rightarrow> bool" where
  "wr_room_for n w \<longleftrightarrow> (case w_room w of None \<Rightarrow> True | Some k \<Rightarrow> n \<le> k)"

definition wr_append :: "writer \<Rightarrow> bytes \<Rightarrow> writer" where
  "wr_append w p = w\<lparr>w_out := w_out w @ p, w_room := map_option (\<lambda>k. k - length p) (w_room w)\<rparr>"

lemma bw_write_ok [simp]: "wr_room_for (length p) w \<Longrightarrow> bw_write w p = Inr (wr_append w p)"
  by (cases w) (auto simp: bw_write_def wr_room_for_def wr_append_def split: option.splits)

lemma bw_write_full: "\<not> wr_room_for (length p) w \<Longrightarrow> bw_write w p = Inl NetClosed"
  by (auto simp: bw_write_def wr_room_for_def split: option.splits)

lemma wr_append_append [simp]: "wr_append (wr_append w p) q = wr_append w (p @ q)"
  by (cases w) (auto simp: wr_append_def option.map_comp comp_def intro!: option.map_cong)

lemma wr_append_Nil [simp]: "wr_append w [] = w"
  by (cases w) (auto simp: wr_append_def option.map_id[unfolded id_def])

lemma w_out_append [simp]: "w_out (wr_append w p) = w_out w @ p"
  by (simp add: wr_append_def)

lemma wr_room_append [simp]:
  "wr_room_for n (wr_append w p) \<longleftrightarrow> (w_room w = None \<or> n \<le> the (w_room w) - length p)"
  by (auto simp: wr_room_for_def wr_append_def split: option.splits)

lemma wr_room_add:
  "wr_room_for (m + n) w \<Longrightarrow> wr_room_for m w"
  "wr_room_for (length p + n) w \<Longrightarrow> wr_room_for n (wr_append w p)"
  by (auto simp: wr_room_for_def wr_append_def split: option.splits)

lemma read_full_append [simp]:
  "length p = n \<Longrightarrow> read_full n (r\<lparr>r_data := p @ rest\<rparr>) = Inr (p, r\<lparr>r_data := rest\<rparr>)"
  by (simp add: read_full_def)

lemma read_full_0 [simp]: "read_full 0 r = Inr ([], r)"
  by (simp add: read_full_def)

lemma read_full_if [simp]: "(if 0 < n then read_full n r else Inr ([], r)) = read_full n r"
  by simp

lemma read_full_InrD:
  "read_full n r = Inr (p, r') \<Longrightarrow>
     length p = n \<and> r_data r = p @ r_data r' \<and> r_end r' = r_end r \<and> r' = r\<lparr>r_data := r_data r'\<rparr>"
  by (cases r) (auto simp: read_full_def split: if_splits)

lemma read_full_short: "length (r_data r) < n \<Longrightarrow> \<exists>e. read_full n r = Inl e"
  by (auto simp: read_full_def)

section \<open>The interface of a packet format\<close>

text \<open>
  \<open>wf\<close> holds of the values the encoder accepts.  The two laws say that decoding undoes encoding
  and that a packet the decoder accepts is the encoding of what it returned: the format is
  canonical, so no two packets mean the same value.
\<close>

locale dgram_codec =
  fixes enc :: "'a \<Rightarrow> bytes"
    and dec :: "bytes \<Rightarrow> 'e + 'a"
    and wf :: "'a \<Rightarrow> bool"
  assumes dec_enc: "wf x \<Longrightarrow> dec (enc x) = Inr x"
    and enc_dec: "dec p = Inr x \<Longrightarrow> wf x \<and> enc x = p"
begin

lemma dec_iff: "dec p = Inr x \<longleftrightarrow> wf x \<and> enc x = p"
  using dec_enc enc_dec by blast

lemma enc_inj: "wf x \<Longrightarrow> wf y \<Longrightarrow> enc x = enc y \<Longrightarrow> x = y"
  by (metis dec_enc sum.inject(2))

lemma dec_inj: "dec p = Inr x \<Longrightarrow> dec q = Inr x \<Longrightarrow> p = q"
  using enc_dec by blast

lemma dec_rejects: "(\<forall>x. wf x \<longrightarrow> enc x \<noteq> p) \<Longrightarrow> \<exists>e. dec p = Inl e"
  by (cases "dec p") (auto simp: dec_iff)

end

section \<open>The interface of a framed byte stream\<close>

text \<open>
  \<open>rd\<close> takes one message off a reader.  It returns what \<open>enc\<close> wrote, leaves the rest of the stream
  untouched, and takes nothing but encodings.
\<close>

fun read_many :: "(reader \<Rightarrow> 'e + 'a \<times> reader) \<Rightarrow> nat \<Rightarrow> reader \<Rightarrow> 'e + 'a list \<times> reader" where
  "read_many rd 0 r = Inr ([], r)"
| "read_many rd (Suc n) r =
     (case rd r of Inl e \<Rightarrow> Inl e
      | Inr (x, r') \<Rightarrow>
          (case read_many rd n r' of Inl e \<Rightarrow> Inl e | Inr (xs, r'') \<Rightarrow> Inr (x # xs, r'')))"

locale stream_codec =
  fixes enc :: "'a \<Rightarrow> bytes"
    and rd :: "reader \<Rightarrow> 'e + 'a \<times> reader"
    and wf :: "'a \<Rightarrow> bool"
  assumes rd_enc: "wf x \<Longrightarrow> rd (r\<lparr>r_data := enc x @ rest\<rparr>) = Inr (x, r\<lparr>r_data := rest\<rparr>)"
    and rd_sound: "rd r = Inr (x, r') \<Longrightarrow>
      wf x \<and> r_data r = enc x @ r_data r' \<and> r' = r\<lparr>r_data := r_data r'\<rparr>"
begin

lemma rd_many:
  "list_all wf xs \<Longrightarrow>
     read_many rd (length xs) (r\<lparr>r_data := concat (map enc xs) @ rest\<rparr>) =
       Inr (xs, r\<lparr>r_data := rest\<rparr>)"
  by (induction xs) (auto simp: rd_enc)

lemma rd_many_sound:
  "read_many rd n r = Inr (xs, r') \<Longrightarrow>
     list_all wf xs \<and> length xs = n \<and> r_data r = concat (map enc xs) @ r_data r'"
proof (induction n arbitrary: r xs r')
  case 0
  then show ?case by simp
next
  case (Suc n)
  from Suc.prems obtain x r1 ys where 1: "rd r = Inr (x, r1)"
    and 2: "read_many rd n r1 = Inr (ys, r')" and "xs = x # ys"
    by (auto split: sum.splits)
  then show ?case using Suc.IH[OF 2] rd_sound[OF 1] by auto
qed

lemma rd_prefix_free:
  "wf x \<Longrightarrow> wf y \<Longrightarrow> enc x @ p = enc y @ q \<Longrightarrow> x = y \<and> p = q"
proof -
  assume wf: "wf x" "wf y" and eq: "enc x @ p = enc y @ q"
  define r where "r = \<lparr>r_data = [], r_end = EOF\<rparr>"
  have "Inr (x, r\<lparr>r_data := p\<rparr>) = Inr (y, r\<lparr>r_data := q\<rparr>)"
    using rd_enc[OF wf(1), where r = r and rest = p]
      rd_enc[OF wf(2), where r = r and rest = q] eq by simp
  then show "x = y \<and> p = q" by (simp add: r_def)
qed

end

end
