(* ===== verification/ProtocolV1.thy ===== *)
theory ProtocolV1
  imports Wire_IO
begin

text \<open>
  The legacy wire protocol: \<^verbatim>\<open>engine/internal/protocol/protocol.go\<close> (the TCP handshake and frame
  stream) and \<^verbatim>\<open>udp.go\<close> (one datagram per hello or audio packet).  Integers keep their widths and
  are big endian.  Every error return of the code is a constructor of \<open>proto_error\<close>.
\<close>

section \<open>Data\<close>

record handshake =
  hs_version :: u8
  hs_flags :: u8
  hs_sample_rate :: u32
  hs_channels :: u8
  hs_format :: u8
  hs_frame_samples :: u16
  hs_name :: bytes

record frame =
  fr_type :: u8
  fr_seq :: u64
  fr_capture_frame :: u64
  fr_payload :: bytes

datatype proto_error =
    UnsupportedVersion u8
  | UnsupportedHandshakeFlags u8
  | UnsupportedAudioFormat u8
  | SampleRateOutOfRange u32
  | ChannelsOutOfRange u8
  | FrameSamplesOutOfRange u16
  | NameTooLong nat
  | PayloadOverflowsInt
  | PayloadExceedsMaximum u64
  | InvalidMagic
  | UnsupportedFrameType u8
  | PayloadTooLarge nat
  | InvalidPayloadLength nat nat
  | PayloadEmpty
  | DatagramTooLarge nat
  | HeaderTruncated nat
  | UnsupportedDatagramType u8
  | HelloTruncated nat
  | AudioTruncated nat
  | NameLengthMismatch nat nat
  | PayloadLengthMismatch nat nat
  | IO io_error

abbreviation (input) Version1 :: u8 where "Version1 \<equiv> 1"
abbreviation (input) FormatS16LE :: u8 where "FormatS16LE \<equiv> 1"
abbreviation (input) SupportedFlags :: u8 where "SupportedFlags \<equiv> 0"
abbreviation (input) FrameTypeAudio :: u8 where "FrameTypeAudio \<equiv> 1"
abbreviation (input) MaxNameLen :: nat where "MaxNameLen \<equiv> 255"
abbreviation (input) MaxPayloadBytes :: nat where "MaxPayloadBytes \<equiv> 262144"

definition magic_v1 :: bytes where "magic_v1 = [82, 65, 85, 49]"

section \<open>Validation\<close>

text \<open>
  \<^verbatim>\<open>ExpectedPayloadBytes\<close> multiplies in \<^verbatim>\<open>uint64\<close>; \<^verbatim>\<open>maxInt\<close> is \<^verbatim>\<open>math.MaxInt64\<close> on the program's 64-bit
  targets.
\<close>

definition expected_payload_bytes :: "handshake \<Rightarrow> proto_error + nat" where
  "expected_payload_bytes h =
     (let samples = (ucast (hs_frame_samples h) :: u64) * ucast (hs_channels h);
          maxInt = (9223372036854775807 :: u64);
          byte_count = samples * 2
      in if samples > maxInt div 2 then Inl PayloadOverflowsInt
         else if byte_count > word_of_nat MaxPayloadBytes then Inl (PayloadExceedsMaximum byte_count)
         else Inr (unat byte_count))"

definition validate_handshake :: "handshake \<Rightarrow> proto_error option" where
  "validate_handshake h =
     (if hs_version h \<noteq> Version1 then Some (UnsupportedVersion (hs_version h))
      else if hs_flags h AND NOT SupportedFlags \<noteq> 0
        then Some (UnsupportedHandshakeFlags (hs_flags h AND NOT SupportedFlags))
      else if hs_format h \<noteq> FormatS16LE then Some (UnsupportedAudioFormat (hs_format h))
      else if hs_sample_rate h < 8000 \<or> hs_sample_rate h > 192000
        then Some (SampleRateOutOfRange (hs_sample_rate h))
      else if hs_channels h < 1 \<or> hs_channels h > 8 then Some (ChannelsOutOfRange (hs_channels h))
      else if hs_frame_samples h < 1 \<or> hs_frame_samples h > 4096
        then Some (FrameSamplesOutOfRange (hs_frame_samples h))
      else if length (hs_name h) > MaxNameLen then Some (NameTooLong (length (hs_name h)))
      else (case expected_payload_bytes h of Inl e \<Rightarrow> Some e | Inr _ \<Rightarrow> None))"

section \<open>The TCP stream\<close>

definition encode_handshake :: "handshake \<Rightarrow> bytes" where
  "encode_handshake h =
     magic_v1 @ [hs_version h, hs_flags h] @ put_be 4 (hs_sample_rate h) @
     [hs_channels h, hs_format h] @ put_be 2 (hs_frame_samples h) @
     put_be 2 (word_of_nat (length (hs_name h)) :: u16)"

definition default_version :: "handshake \<Rightarrow> handshake" where
  "default_version h = (if hs_version h = 0 then h\<lparr>hs_version := Version1\<rparr> else h)"

definition write_handshake :: "writer \<Rightarrow> handshake \<Rightarrow> proto_error + writer" where
  "write_handshake w h0 =
     (let h = default_version h0 in
      case validate_handshake h of
        Some e \<Rightarrow> Inl e
      | None \<Rightarrow>
          (case bw_write w (encode_handshake h) of Inl e \<Rightarrow> Inl (IO e)
           | Inr w1 \<Rightarrow> (case bw_write w1 (hs_name h) of Inl e \<Rightarrow> Inl (IO e)
             | Inr w2 \<Rightarrow> (case bw_flush w2 of Inl e \<Rightarrow> Inl (IO e) | Inr w3 \<Rightarrow> Inr w3))))"

definition read_handshake :: "reader \<Rightarrow> proto_error + handshake \<times> reader" where
  "read_handshake r =
     (case read_full 16 r of Inl e \<Rightarrow> Inl (IO e)
      | Inr (header, r1) \<Rightarrow>
          if slice 0 4 header \<noteq> magic_v1 then Inl InvalidMagic
          else let nameLen = (get_be (slice 14 16 header) :: u16) in
            if nameLen > word_of_nat MaxNameLen then Inl (NameTooLong (unat nameLen))
            else (case (if 0 < unat nameLen then read_full (unat nameLen) r1 else Inr ([], r1)) of
                Inl e \<Rightarrow> Inl (IO e)
              | Inr (name, r2) \<Rightarrow>
                  let h = \<lparr>hs_version = header ! 4, hs_flags = header ! 5,
                           hs_sample_rate = get_be (slice 6 10 header),
                           hs_channels = header ! 10, hs_format = header ! 11,
                           hs_frame_samples = get_be (slice 12 14 header), hs_name = name\<rparr>
                  in (case validate_handshake h of Some e \<Rightarrow> Inl e | None \<Rightarrow> Inr (h, r2))))"

definition encode_frame_header :: "frame \<Rightarrow> bytes" where
  "encode_frame_header f =
     [fr_type f] @ put_be 8 (fr_seq f) @ put_be 8 (fr_capture_frame f) @
     put_be 4 (word_of_nat (length (fr_payload f)) :: u32)"

definition default_type :: "frame \<Rightarrow> frame" where
  "default_type f = (if fr_type f = 0 then f\<lparr>fr_type := FrameTypeAudio\<rparr> else f)"

definition write_frame :: "writer \<Rightarrow> handshake \<Rightarrow> frame \<Rightarrow> proto_error + writer" where
  "write_frame w h f0 =
     (case expected_payload_bytes h of Inl e \<Rightarrow> Inl e
      | Inr expected \<Rightarrow>
          let f = default_type f0 in
          if fr_type f \<noteq> FrameTypeAudio then Inl (UnsupportedFrameType (fr_type f))
          else if length (fr_payload f) \<noteq> expected
            then Inl (InvalidPayloadLength (length (fr_payload f)) expected)
          else (case bw_write w (encode_frame_header f) of Inl e \<Rightarrow> Inl (IO e)
           | Inr w1 \<Rightarrow> (case bw_write w1 (fr_payload f) of Inl e \<Rightarrow> Inl (IO e)
             | Inr w2 \<Rightarrow> (case bw_flush w2 of Inl e \<Rightarrow> Inl (IO e) | Inr w3 \<Rightarrow> Inr w3))))"

text \<open>
  \<^verbatim>\<open>ReadFrame\<close> reuses the caller's payload buffer, growing it when its capacity is too small; only
  the bytes it returns are modelled.
\<close>

definition read_frame :: "handshake \<Rightarrow> reader \<Rightarrow> proto_error + frame \<times> reader" where
  "read_frame h r =
     (case expected_payload_bytes h of Inl e \<Rightarrow> Inl e
      | Inr expected \<Rightarrow>
          (case read_full 21 r of Inl e \<Rightarrow> Inl (IO e)
           | Inr (header, r1) \<Rightarrow>
               if header ! 0 \<noteq> FrameTypeAudio then Inl (UnsupportedFrameType (header ! 0))
               else let payloadLen = (get_be (slice 17 21 header) :: u32) in
                 if payloadLen > word_of_nat MaxPayloadBytes
                   then Inl (PayloadTooLarge (unat payloadLen))
                 else if unat payloadLen \<noteq> expected
                   then Inl (InvalidPayloadLength (unat payloadLen) expected)
                 else (case read_full (unat payloadLen) r1 of Inl e \<Rightarrow> Inl (IO e)
                   | Inr (payload, r2) \<Rightarrow>
                       Inr (\<lparr>fr_type = header ! 0, fr_seq = get_be (slice 1 9 header),
                             fr_capture_frame = get_be (slice 9 17 header),
                             fr_payload = payload\<rparr>, r2))))"


section \<open>What validation establishes\<close>

lemma expected_payload_eq:
  "expected_payload_bytes h =
     (let n = 2 * (unat (hs_frame_samples h) * unat (hs_channels h)) in
      if n \<le> MaxPayloadBytes then Inr n else Inl (PayloadExceedsMaximum (word_of_nat n)))"
proof -
  let ?s = "unat (hs_frame_samples h) * unat (hs_channels h)"
  let ?w = "(ucast (hs_frame_samples h) :: u64) * ucast (hs_channels h)"
  have "?s \<le> 65535 * 255"
    by (intro mult_le_mono unat_bounds)
  then have s: "unat ?w = ?s" and b: "unat (?w * 2) = 2 * ?s"
    by (simp_all add: unat_word_ariths)
  have "\<not> ?w > 9223372036854775807 div 2"
    using s \<open>?s \<le> 65535 * 255\<close> by (simp add: word_less_nat_alt)
  moreover have "?w * 2 > word_of_nat MaxPayloadBytes \<longleftrightarrow> MaxPayloadBytes < 2 * ?s"
    using b by (simp add: word_less_nat_alt)
  moreover have "?w * 2 = word_of_nat (2 * ?s)"
    by (simp flip: b)
  ultimately show ?thesis
    unfolding expected_payload_bytes_def Let_def using b
    by (auto simp: mult.commute[of _ "2 :: u64"])
qed

lemma validate_None:
  "validate_handshake h = None \<longleftrightarrow>
     hs_version h = 1 \<and> hs_flags h = 0 \<and> hs_format h = 1 \<and>
     8000 \<le> unat (hs_sample_rate h) \<and> unat (hs_sample_rate h) \<le> 192000 \<and>
     1 \<le> unat (hs_channels h) \<and> unat (hs_channels h) \<le> 8 \<and>
     1 \<le> unat (hs_frame_samples h) \<and> unat (hs_frame_samples h) \<le> 4096 \<and>
     length (hs_name h) \<le> MaxNameLen"
proof -
  have "unat (hs_frame_samples h) * unat (hs_channels h) \<le> 4096 * 8"
    if "unat (hs_frame_samples h) \<le> 4096" "unat (hs_channels h) \<le> 8"
    using that by (rule mult_le_mono)
  then show ?thesis
    unfolding validate_handshake_def expected_payload_eq Let_def
    by (auto simp: word_less_nat_alt not_less split: if_splits)
qed

lemma valid_expected:
  assumes "validate_handshake h = None"
  shows "expected_payload_bytes h = Inr (2 * (unat (hs_frame_samples h) * unat (hs_channels h)))"
    and "2 \<le> 2 * (unat (hs_frame_samples h) * unat (hs_channels h))"
    and "2 * (unat (hs_frame_samples h) * unat (hs_channels h)) \<le> 65536"
proof -
  have 1: "unat (hs_frame_samples h) * unat (hs_channels h) \<le> 4096 * 8"
    using assms by (intro mult_le_mono) (simp_all add: validate_None)
  have 2: "1 * 1 \<le> unat (hs_frame_samples h) * unat (hs_channels h)"
    using assms by (intro mult_le_mono) (simp_all add: validate_None)
  from 1 2 show "expected_payload_bytes h = Inr (2 * (unat (hs_frame_samples h) * unat (hs_channels h)))"
    "2 \<le> 2 * (unat (hs_frame_samples h) * unat (hs_channels h))"
    "2 * (unat (hs_frame_samples h) * unat (hs_channels h)) \<le> 65536"
    by (simp_all add: expected_payload_eq)
qed

section \<open>The TCP stream is a framed codec\<close>

lemma length_encode_handshake [simp]: "length (encode_handshake h) = 16"
  by (simp add: encode_handshake_def magic_v1_def)

lemma encode_handshake_fields [codec_simps]:
  "slice 0 4 (encode_handshake h) = magic_v1"
  "encode_handshake h ! 4 = hs_version h" "encode_handshake h ! 5 = hs_flags h"
  "get_be (slice 6 10 (encode_handshake h)) = hs_sample_rate h"
  "encode_handshake h ! 10 = hs_channels h" "encode_handshake h ! 11 = hs_format h"
  "get_be (slice 12 14 (encode_handshake h)) = hs_frame_samples h"
  "get_be (slice 14 16 (encode_handshake h)) = (word_of_nat (length (hs_name h)) :: u16)"
  by (simp_all add: encode_handshake_def magic_v1_def codec_simps nth_append get_put_be)

lemma handshake_eta [simp]:
  "\<lparr>hs_version = hs_version h, hs_flags = hs_flags h, hs_sample_rate = hs_sample_rate h,
    hs_channels = hs_channels h, hs_format = hs_format h, hs_frame_samples = hs_frame_samples h,
    hs_name = hs_name h\<rparr> = h"
  by simp

lemma read_handshake_enc:
  assumes "validate_handshake h = None"
  shows "read_handshake (r\<lparr>r_data := (encode_handshake h @ hs_name h) @ rest\<rparr>) =
    Inr (h, r\<lparr>r_data := rest\<rparr>)"
proof -
  have len: "length (hs_name h) \<le> 255" using assms by (simp add: validate_None)
  then have "\<not> (word_of_nat (length (hs_name h)) :: u16) > word_of_nat MaxNameLen"
    by (simp add: word_less_nat_alt)
  then show ?thesis
    using assms len
    by (cases h; cases "hs_name h = []") (simp_all add: read_handshake_def codec_simps Let_def)
qed

lemma header_split:
  assumes "length b = 16"
  shows "slice 0 4 b @ b ! 4 # b ! 5 # slice 6 10 b @ b ! 10 # b ! 11 # slice 12 14 b @
    slice 14 16 b = b"
proof -
  have "b ! 4 # b ! 5 # x = slice 4 6 b @ x" "b ! 10 # b ! 11 # x = slice 10 12 b @ x" for x
    using assms slice_nth2[of 4 b] slice_nth2[of 10 b] by simp_all
  then show ?thesis
    using assms by (simp only: slice_join slice_join_more) (simp add: slice_join slice_join_more slice_from_0)
qed

lemma read_handshake_sound:
  assumes "read_handshake r = Inr (h, r')"
  shows "validate_handshake h = None \<and> r_data r = (encode_handshake h @ hs_name h) @ r_data r' \<and>
    r' = r\<lparr>r_data := r_data r'\<rparr>"
proof -
  from assms obtain hd r1 nm where 1: "read_full 16 r = Inr (hd, r1)"
    and m: "slice 0 4 hd = magic_v1"
    and n: "(if 0 < unat (get_be (slice 14 16 hd) :: u16)
             then read_full (unat (get_be (slice 14 16 hd) :: u16)) r1 else Inr ([], r1)) = Inr (nm, r')"
    and h: "h = \<lparr>hs_version = hd ! 4, hs_flags = hd ! 5, hs_sample_rate = get_be (slice 6 10 hd),
      hs_channels = hd ! 10, hs_format = hd ! 11, hs_frame_samples = get_be (slice 12 14 hd),
      hs_name = nm\<rparr>"
    and v: "validate_handshake h = None"
    by (auto simp: read_handshake_def Let_def split: sum.splits if_splits option.splits)
  from 1 have len: "length hd = 16" and r: "r_data r = hd @ r_data r1" and r1: "r1 = r\<lparr>r_data := r_data r1\<rparr>"
    by (auto dest: read_full_InrD)
  from n have nm: "length nm = unat (get_be (slice 14 16 hd) :: u16)"
    "r_data r1 = nm @ r_data r'" "r' = r1\<lparr>r_data := r_data r'\<rparr>"
    by (auto split: if_splits dest: read_full_InrD)
  have "encode_handshake h = hd"
    using len nm(1) m header_split[OF len] by (simp add: encode_handshake_def h endian_simps)
  moreover have "hs_name h = nm" by (simp add: h)
  moreover have "r' = r\<lparr>r_data := r_data r'\<rparr>"
    using r1 nm(3) by (cases r; cases r1; cases r') simp
  ultimately show ?thesis using v r nm(2) by simp
qed

interpretation hs_stream:
  stream_codec "\<lambda>h. encode_handshake h @ hs_name h" read_handshake "\<lambda>h. validate_handshake h = None"
  by unfold_locales (simp_all only: read_handshake_enc, auto dest: read_handshake_sound)

section \<open>Frames on the stream\<close>

definition frame_wf :: "handshake \<Rightarrow> frame \<Rightarrow> bool" where
  "frame_wf h f \<longleftrightarrow> fr_type f = FrameTypeAudio \<and> expected_payload_bytes h = Inr (length (fr_payload f))"

lemma length_encode_frame_header [simp]: "length (encode_frame_header f) = 21"
  by (simp add: encode_frame_header_def)

lemma encode_frame_header_fields [codec_simps]:
  "encode_frame_header f ! 0 = fr_type f"
  "get_be (slice (Suc 0) 9 (encode_frame_header f)) = fr_seq f"
  "get_be (slice 9 17 (encode_frame_header f)) = fr_capture_frame f"
  "get_be (slice 17 21 (encode_frame_header f)) = (word_of_nat (length (fr_payload f)) :: u32)"
  by (simp_all add: encode_frame_header_def codec_simps get_put_be)

lemma expected_le_max: "expected_payload_bytes h = Inr n \<Longrightarrow> n \<le> MaxPayloadBytes"
  by (auto simp: expected_payload_eq Let_def split: if_splits)

lemma read_frame_enc:
  assumes "frame_wf h f"
  shows "read_frame h (r\<lparr>r_data := (encode_frame_header f @ fr_payload f) @ rest\<rparr>) =
    Inr (f, r\<lparr>r_data := rest\<rparr>)"
proof -
  have "length (fr_payload f) \<le> MaxPayloadBytes"
    using assms expected_le_max by (auto simp: frame_wf_def)
  then show ?thesis
    using assms
    by (cases f) (simp add: read_frame_def frame_wf_def codec_simps word_less_nat_alt Let_def)
qed

lemma frame_header_split:
  assumes "length b = 21"
  shows "b ! 0 # slice (Suc 0) 9 b @ slice 9 17 b @ slice 17 21 b = b"
proof -
  have "b ! 0 # x = slice 0 (Suc 0) b @ x" for x
    using assms slice_nth[of 0 b] by simp
  then show ?thesis
    using assms by (simp only: slice_join slice_join_more) (simp add: slice_join slice_join_more slice_from_0)
qed

lemma read_frame_sound:
  assumes "read_frame h r = Inr (f, r')"
  shows "frame_wf h f \<and> r_data r = (encode_frame_header f @ fr_payload f) @ r_data r' \<and>
    r' = r\<lparr>r_data := r_data r'\<rparr>"
proof -
  from assms obtain hd r1 pl where 1: "read_full 21 r = Inr (hd, r1)"
    and t: "hd ! 0 = FrameTypeAudio"
    and n: "expected_payload_bytes h = Inr (unat (get_be (slice 17 21 hd) :: u32))"
    and p: "read_full (unat (get_be (slice 17 21 hd) :: u32)) r1 = Inr (pl, r')"
    and f: "f = \<lparr>fr_type = hd ! 0, fr_seq = get_be (slice 1 9 hd),
      fr_capture_frame = get_be (slice 9 17 hd), fr_payload = pl\<rparr>"
    by (auto simp: read_frame_def Let_def split: sum.splits if_splits)
  note 1 = read_full_InrD[OF 1] and p = read_full_InrD[OF p]
  have "encode_frame_header f = hd"
    using 1 p frame_header_split[of hd] by (simp add: encode_frame_header_def f endian_simps)
  moreover have "fr_payload f = pl" by (simp add: f)
  moreover have "frame_wf h f" using t n p by (simp add: frame_wf_def f)
  moreover have "r' = r\<lparr>r_data := r_data r'\<rparr>"
    using 1 p by (cases r; cases r1; cases r') simp
  ultimately show ?thesis using 1 p by simp
qed

interpretation fr_stream:
  stream_codec "\<lambda>f. encode_frame_header f @ fr_payload f" "read_frame h" "frame_wf h" for h
  by unfold_locales (simp_all only: read_frame_enc, auto dest: read_frame_sound)

text \<open>What the writers put on the wire, and that they refuse exactly what the readers refuse.\<close>

lemma write_handshake_ok:
  assumes "validate_handshake (default_version h) = None"
    and "wr_room_for (16 + length (hs_name h)) w"
  shows "write_handshake w h =
    Inr (wr_append w (encode_handshake (default_version h) @ hs_name (default_version h)))"
proof -
  have n: "hs_name (default_version h) = hs_name h" by (simp add: default_version_def)
  have "wr_room_for (length (hs_name h)) (wr_append w (encode_handshake (default_version h)))"
    using assms(2) by (intro wr_room_add(2)) simp
  moreover have "wr_room_for 16 w" using assms(2) by (rule wr_room_add(1))
  ultimately show ?thesis
    using assms(1) by (simp add: write_handshake_def bw_flush_def Let_def n del: wr_room_append)
qed

lemma write_frame_ok:
  assumes "frame_wf h (default_type f)" and "wr_room_for (21 + length (fr_payload f)) w"
  shows "write_frame w h f =
    Inr (wr_append w (encode_frame_header (default_type f) @ fr_payload (default_type f)))"
proof -
  have n: "fr_payload (default_type f) = fr_payload f" by (simp add: default_type_def)
  have "wr_room_for (length (fr_payload f)) (wr_append w (encode_frame_header (default_type f)))"
    using assms(2) by (intro wr_room_add(2)) simp
  moreover have "wr_room_for 21 w" using assms(2) by (rule wr_room_add(1))
  ultimately show ?thesis using assms(1)
    by (simp add: write_frame_def frame_wf_def bw_flush_def Let_def n del: wr_room_append)
qed

section \<open>UDP datagrams\<close>

abbreviation (input) DatagramTypeHello :: u8 where "DatagramTypeHello \<equiv> 1"
abbreviation (input) DatagramTypeAudio :: u8 where "DatagramTypeAudio \<equiv> 2"
abbreviation (input) MaxUDPDatagramBytes :: nat where "MaxUDPDatagramBytes \<equiv> 1500"
abbreviation (input) MaxUDPAudioPayloadBytes :: nat where "MaxUDPAudioPayloadBytes \<equiv> 960"

definition udp_magic :: bytes where "udp_magic = [82, 65, 85, 85]"

text \<open>\<^verbatim>\<open>UDPDatagram\<close>: one of the two bodies is set, and \<^verbatim>\<open>Type\<close> says which.\<close>

datatype udp_datagram = UDPHello handshake | UDPAudio frame

definition append_udp_envelope :: "bytes \<Rightarrow> u8 \<Rightarrow> u8 \<Rightarrow> bytes" where
  "append_udp_envelope dst version typ = dst @ udp_magic @ [version, typ]"

definition append_udp_hello :: "bytes \<Rightarrow> handshake \<Rightarrow> proto_error + bytes" where
  "append_udp_hello dst h0 =
     (let h = default_version h0 in
      case validate_handshake h of
        Some e \<Rightarrow> Inl e
      | None \<Rightarrow>
          let packetLen = 6 + 1 + 4 + 1 + 1 + 2 + 2 + length (hs_name h) in
          if packetLen > MaxUDPDatagramBytes then Inl (DatagramTooLarge packetLen)
          else Inr (append_udp_envelope dst (hs_version h) DatagramTypeHello @ [hs_flags h] @
                 put_be 4 (hs_sample_rate h) @ [hs_channels h, hs_format h] @
                 put_be 2 (hs_frame_samples h) @
                 put_be 2 (word_of_nat (length (hs_name h)) :: u16) @ hs_name h))"

definition append_udp_audio :: "bytes \<Rightarrow> frame \<Rightarrow> proto_error + bytes" where
  "append_udp_audio dst f0 =
     (let f = default_type f0 in
      if fr_type f \<noteq> FrameTypeAudio then Inl (UnsupportedFrameType (fr_type f))
      else if length (fr_payload f) = 0 then Inl PayloadEmpty
      else if length (fr_payload f) > MaxUDPAudioPayloadBytes
        then Inl (PayloadTooLarge (length (fr_payload f)))
      else let packetLen = 6 + 8 + 8 + 2 + length (fr_payload f) in
        if packetLen > MaxUDPDatagramBytes then Inl (DatagramTooLarge packetLen)
        else Inr (append_udp_envelope dst Version1 DatagramTypeAudio @ put_be 8 (fr_seq f) @
               put_be 8 (fr_capture_frame f) @
               put_be 2 (word_of_nat (length (fr_payload f)) :: u16) @ fr_payload f))"

definition decode_udp_hello :: "u8 \<Rightarrow> bytes \<Rightarrow> proto_error + handshake" where
  "decode_udp_hello version body =
     (if length body < 11 then Inl (HelloTruncated (length body))
      else let nameLen = (get_be (slice 9 11 body) :: u16) in
        if nameLen > word_of_nat MaxNameLen then Inl (NameTooLong (unat nameLen))
        else if length (drop 11 body) \<noteq> unat nameLen
          then Inl (NameLengthMismatch (length (drop 11 body)) (unat nameLen))
        else let h = \<lparr>hs_version = version, hs_flags = body ! 0,
                      hs_sample_rate = get_be (slice 1 5 body), hs_channels = body ! 5,
                      hs_format = body ! 6, hs_frame_samples = get_be (slice 7 9 body),
                      hs_name = drop 11 body\<rparr>
          in (case validate_handshake h of Some e \<Rightarrow> Inl e | None \<Rightarrow> Inr h))"

definition decode_udp_audio :: "bytes \<Rightarrow> proto_error + frame" where
  "decode_udp_audio body =
     (if length body < 18 then Inl (AudioTruncated (length body))
      else let payloadLen = (get_be (slice 16 18 body) :: u16); payload = drop 18 body in
        if payloadLen = 0 then Inl PayloadEmpty
        else if payloadLen > word_of_nat MaxUDPAudioPayloadBytes
          then Inl (PayloadTooLarge (unat payloadLen))
        else if length payload \<noteq> unat payloadLen
          then Inl (PayloadLengthMismatch (length payload) (unat payloadLen))
        else Inr \<lparr>fr_type = FrameTypeAudio, fr_seq = get_be (slice 0 8 body),
                  fr_capture_frame = get_be (slice 8 16 body), fr_payload = payload\<rparr>)"

definition decode_udp_datagram :: "bytes \<Rightarrow> proto_error + udp_datagram" where
  "decode_udp_datagram packet =
     (if length packet > MaxUDPDatagramBytes then Inl (DatagramTooLarge (length packet))
      else if length packet < 6 then Inl (HeaderTruncated (length packet))
      else if take 4 packet \<noteq> udp_magic then Inl InvalidMagic
      else let version = packet ! 4; typ = packet ! 5 in
        if version \<noteq> Version1 then Inl (UnsupportedVersion version)
        else if typ = DatagramTypeHello then
          (case decode_udp_hello version (drop 6 packet) of Inl e \<Rightarrow> Inl e | Inr h \<Rightarrow> Inr (UDPHello h))
        else if typ = DatagramTypeAudio then
          (case decode_udp_audio (drop 6 packet) of Inl e \<Rightarrow> Inl e | Inr f \<Rightarrow> Inr (UDPAudio f))
        else Inl (UnsupportedDatagramType typ))"

subsection \<open>The datagram format is a canonical codec\<close>

definition append_udp :: "bytes \<Rightarrow> udp_datagram \<Rightarrow> proto_error + bytes" where
  "append_udp dst d =
     (case d of UDPHello h \<Rightarrow> append_udp_hello dst h | UDPAudio f \<Rightarrow> append_udp_audio dst f)"

definition udp_packet :: "udp_datagram \<Rightarrow> bytes" where
  "udp_packet d = (case append_udp [] d of Inl e \<Rightarrow> [] | Inr p \<Rightarrow> p)"

definition udp_wf :: "udp_datagram \<Rightarrow> bool" where
  "udp_wf d \<longleftrightarrow>
     (case d of
        UDPHello h \<Rightarrow> validate_handshake h = None
      | UDPAudio f \<Rightarrow> fr_type f = FrameTypeAudio \<and> 0 < length (fr_payload f) \<and>
          length (fr_payload f) \<le> MaxUDPAudioPayloadBytes)"

lemma append_udp_hello_valid:
  assumes "validate_handshake h = None"
  shows "append_udp_hello dst h = Inr (dst @ udp_magic @ [1, 1] @ hs_flags h #
    put_be 4 (hs_sample_rate h) @ hs_channels h # hs_format h # put_be 2 (hs_frame_samples h) @
    put_be 2 (word_of_nat (length (hs_name h)) :: u16) @ hs_name h)"
proof -
  have "hs_version h = 1" "length (hs_name h) \<le> 255" using assms by (simp_all add: validate_None)
  with assms show ?thesis
    by (simp add: append_udp_hello_def append_udp_envelope_def default_version_def Let_def)
qed

lemma append_udp_audio_valid:
  assumes "udp_wf (UDPAudio f)"
  shows "append_udp_audio dst f = Inr (dst @ udp_magic @ [1, 2] @ put_be 8 (fr_seq f) @
    put_be 8 (fr_capture_frame f) @ put_be 2 (word_of_nat (length (fr_payload f)) :: u16) @
    fr_payload f)"
  using assms
  by (auto simp: append_udp_audio_def append_udp_envelope_def default_type_def udp_wf_def Let_def)

lemma decode_udp_hello_enc:
  assumes "validate_handshake h = None"
  shows "decode_udp_hello 1 (hs_flags h # put_be 4 (hs_sample_rate h) @ hs_channels h #
    hs_format h # put_be 2 (hs_frame_samples h) @
    put_be 2 (word_of_nat (length (hs_name h)) :: u16) @ hs_name h) = Inr h"
proof -
  have 1: "length (hs_name h) \<le> 255" "hs_version h = 1" using assms by (simp_all add: validate_None)
  then have "\<not> (word_of_nat (length (hs_name h)) :: u16) > word_of_nat MaxNameLen"
    by (simp add: word_less_nat_alt)
  then show ?thesis using 1 assms
    by (cases h) (simp add: decode_udp_hello_def codec_simps nth_append get_put_be Let_def)
qed

lemma decode_udp_audio_enc:
  assumes "udp_wf (UDPAudio f)"
  shows "decode_udp_audio (put_be 8 (fr_seq f) @ put_be 8 (fr_capture_frame f) @
    put_be 2 (word_of_nat (length (fr_payload f)) :: u16) @ fr_payload f) = Inr f"
proof -
  let ?n = "word_of_nat (length (fr_payload f)) :: u16"
  have 1: "length (fr_payload f) \<le> 960" "fr_type f = 1" "fr_payload f \<noteq> []"
    using assms by (simp_all add: udp_wf_def)
  then have n: "unat ?n = length (fr_payload f)" by simp
  with 1 have "?n \<noteq> 0" by (metis length_0_conv unsigned_0)
  moreover have "\<not> ?n > word_of_nat MaxUDPAudioPayloadBytes"
    using 1 by (simp add: word_less_nat_alt)
  ultimately show ?thesis using 1
    by (cases f) (simp add: decode_udp_audio_def codec_simps get_put_be Let_def)
qed

lemma decode_udp_datagram_enc: "udp_wf d \<Longrightarrow> decode_udp_datagram (udp_packet d) = Inr d"
proof (cases d)
  case (UDPHello h)
  moreover assume "udp_wf d"
  ultimately have v: "validate_handshake h = None" by (simp add: udp_wf_def)
  then have "length (hs_name h) \<le> 255" by (simp add: validate_None)
  with v UDPHello show ?thesis
    by (simp add: udp_packet_def append_udp_def append_udp_hello_valid decode_udp_datagram_def
        udp_magic_def decode_udp_hello_enc Let_def)
next
  case (UDPAudio f)
  moreover assume "udp_wf d"
  ultimately have "udp_wf (UDPAudio f)" "length (fr_payload f) \<le> 960" by (simp_all add: udp_wf_def)
  with UDPAudio show ?thesis
    by (simp add: udp_packet_def append_udp_def append_udp_audio_valid decode_udp_datagram_def
        udp_magic_def decode_udp_audio_enc Let_def)
qed

lemma decode_udp_hello_sound:
  assumes "decode_udp_hello 1 body = Inr h"
  shows "validate_handshake h = None"
    and "hs_flags h # put_be 4 (hs_sample_rate h) @ hs_channels h # hs_format h #
      put_be 2 (hs_frame_samples h) @ put_be 2 (word_of_nat (length (hs_name h)) :: u16) @
      hs_name h = body"
proof -
  from assms have len: "11 \<le> length body"
    and n: "length body - 11 = unat (get_be (slice 9 11 body) :: u16)"
    and h: "h = \<lparr>hs_version = 1, hs_flags = body ! 0, hs_sample_rate = get_be (slice 1 5 body),
      hs_channels = body ! 5, hs_format = body ! 6, hs_frame_samples = get_be (slice 7 9 body),
      hs_name = drop 11 body\<rparr>"
    and v: "validate_handshake h = None"
    by (auto simp: decode_udp_hello_def Let_def split: if_splits option.splits)
  have "body \<noteq> []" using len by auto
  have "put_be 2 (word_of_nat (length body - 11) :: u16) = slice 9 11 body"
    using len by (simp add: n endian_simps)
  then show "hs_flags h # put_be 4 (hs_sample_rate h) @ hs_channels h # hs_format h #
      put_be 2 (hs_frame_samples h) @ put_be 2 (word_of_nat (length (hs_name h)) :: u16) @
      hs_name h = body"
    using len \<open>body \<noteq> []\<close> by (simp add: h endian_simps slice_glue)
  show "validate_handshake h = None" by (fact v)
qed

lemma decode_udp_audio_sound:
  assumes "decode_udp_audio body = Inr f"
  shows "udp_wf (UDPAudio f)"
    and "put_be 8 (fr_seq f) @ put_be 8 (fr_capture_frame f) @
      put_be 2 (word_of_nat (length (fr_payload f)) :: u16) @ fr_payload f = body"
proof -
  from assms have len: "18 \<le> length body"
    and n: "length body - 18 = unat (get_be (slice 16 18 body) :: u16)"
    and b: "(get_be (slice 16 18 body) :: u16) \<noteq> 0" "(get_be (slice 16 18 body) :: u16) \<le> 960"
    and f: "f = \<lparr>fr_type = 1, fr_seq = get_be (slice 0 8 body),
      fr_capture_frame = get_be (slice 8 16 body), fr_payload = drop 18 body\<rparr>"
    by (auto simp: decode_udp_audio_def Let_def split: if_splits)
  have "put_be 2 (word_of_nat (length body - 18) :: u16) = slice 16 18 body"
    using len by (simp add: n endian_simps)
  then show "put_be 8 (fr_seq f) @ put_be 8 (fr_capture_frame f) @
      put_be 2 (word_of_nat (length (fr_payload f)) :: u16) @ fr_payload f = body"
    using len by (simp add: f endian_simps slice_glue)
  have "unat (get_be (slice 16 18 body) :: u16) \<noteq> 0" using b(1) by (simp add: unat_eq_0)
  moreover have "unat (get_be (slice 16 18 body) :: u16) \<le> 960"
    using b(2) by (simp add: word_le_nat_alt)
  ultimately show "udp_wf (UDPAudio f)" using n by (simp add: udp_wf_def f)
qed

lemma packet_head:
  assumes "6 \<le> length p"
  shows "take 4 p @ p ! 4 # p ! 5 # drop 6 p = p"
  using assms by (simp add: slice_glue)

lemma decode_udp_datagram_sound:
  assumes "decode_udp_datagram p = Inr d"
  shows "udp_wf d \<and> udp_packet d = p"
proof -
  from assms have len: "6 \<le> length p" and m: "take 4 p = udp_magic" and v: "p ! 4 = 1"
    by (auto simp: decode_udp_datagram_def Let_def split: if_splits)
  have p: "udp_magic @ 1 # p ! 5 # drop 6 p = p" using packet_head[OF len] m v by simp
  from assms consider h where "d = UDPHello h" "p ! 5 = 1" "decode_udp_hello 1 (drop 6 p) = Inr h"
    | f where "d = UDPAudio f" "p ! 5 = 2" "decode_udp_audio (drop 6 p) = Inr f"
    by (auto simp: decode_udp_datagram_def Let_def v split: if_splits sum.splits)
  then show ?thesis
  proof cases
    case 1
    note s = decode_udp_hello_sound[OF 1(3)]
    show ?thesis using p 1 s by (simp add: udp_packet_def append_udp_def udp_wf_def append_udp_hello_valid)
  next
    case 2
    note s = decode_udp_audio_sound[OF 2(3)]
    show ?thesis using p 2 s by (simp add: udp_packet_def append_udp_def append_udp_audio_valid)
  qed
qed

interpretation udp: dgram_codec udp_packet decode_udp_datagram udp_wf
  by unfold_locales (simp_all add: decode_udp_datagram_enc decode_udp_datagram_sound)

section \<open>Properties\<close>

fun write_frames :: "writer \<Rightarrow> handshake \<Rightarrow> frame list \<Rightarrow> proto_error + writer" where
  "write_frames w h [] = Inr w"
| "write_frames w h (f # fs) =
     (case write_frame w h f of Inl e \<Rightarrow> Inl e | Inr w1 \<Rightarrow> write_frames w1 h fs)"

lemma write_frames_ok:
  "w_room w = None \<Longrightarrow> list_all (frame_wf h) fs \<Longrightarrow>
     write_frames w h fs =
       Inr (wr_append w (concat (map (\<lambda>f. encode_frame_header f @ fr_payload f) fs)))"
proof (induction fs arbitrary: w)
  case Nil
  then show ?case by simp
next
  case (Cons f fs)
  have d: "default_type f = f" using Cons.prems by (simp add: frame_wf_def default_type_def)
  have "wr_room_for n w" for n using Cons.prems by (simp add: wr_room_for_def)
  then have "write_frame w h f = Inr (wr_append w (encode_frame_header f @ fr_payload f))"
    using write_frame_ok[of h f w] Cons.prems by (simp add: d)
  moreover have "w_room (wr_append w p) = None" for p using Cons.prems by (simp add: wr_append_def)
  ultimately show ?case using Cons by simp
qed

text \<open>
  C17. A valid handshake and any list of audio frames of its size, written with
  \<^verbatim>\<open>WriteHandshake\<close> and \<^verbatim>\<open>WriteFrame\<close> onto a connection, are exactly what \<^verbatim>\<open>ReadHandshake\<close> and
  repeated \<^verbatim>\<open>ReadFrame\<close> take off it, and whatever follows on the connection is left untouched.
\<close>

theorem tcp_stream_roundtrip:
  assumes "validate_handshake h = None" "list_all (frame_wf h) fs" "w_room w = None"
  shows "\<exists>w1 w2 sent. write_handshake w h = Inr w1 \<and> write_frames w1 h fs = Inr w2 \<and>
    w_out w2 = w_out w @ sent \<and>
    (\<forall>r rest. \<exists>r1. read_handshake (r\<lparr>r_data := sent @ rest\<rparr>) = Inr (h, r1) \<and>
       read_many (read_frame h) (length fs) r1 = Inr (fs, r\<lparr>r_data := rest\<rparr>))"
proof -
  have d: "default_version h = h" using assms(1) by (simp add: default_version_def validate_None)
  let ?hs = "encode_handshake h @ hs_name h"
  let ?fr = "concat (map (\<lambda>f. encode_frame_header f @ fr_payload f) fs)"
  have "wr_room_for n w" for n using assms(3) by (simp add: wr_room_for_def)
  then have 1: "write_handshake w h = Inr (wr_append w ?hs)"
    using write_handshake_ok[of h w] assms(1) by (simp add: d)
  have "w_room (wr_append w ?hs) = None" using assms(3) by (simp add: wr_append_def)
  then have 2: "write_frames (wr_append w ?hs) h fs = Inr (wr_append w (?hs @ ?fr))"
    using assms(2) by (simp add: write_frames_ok)
  have "read_handshake (r\<lparr>r_data := (?hs @ ?fr) @ rest\<rparr>) = Inr (h, r\<lparr>r_data := ?fr @ rest\<rparr>)" for r rest
    using hs_stream.rd_enc[OF assms(1), where r = r and rest = "?fr @ rest"] by simp
  moreover have "read_many (read_frame h) (length fs) (r\<lparr>r_data := ?fr @ rest\<rparr>) = Inr (fs, r\<lparr>r_data := rest\<rparr>)"
    for r rest using fr_stream.rd_many[OF assms(2), where r = r and rest = rest] by simp
  ultimately show ?thesis using 1 2 by (intro exI[of _ "?hs @ ?fr"] exI conjI allI) auto
qed

definition demo_handshake :: handshake where
  "demo_handshake = \<lparr>hs_version = 1, hs_flags = 0, hs_sample_rate = 48000, hs_channels = 1,
     hs_format = 1, hs_frame_samples = 2, hs_name = [65, 66]\<rparr>"

definition demo_frame :: frame where
  "demo_frame = \<lparr>fr_type = 1, fr_seq = 7, fr_capture_frame = 14, fr_payload = [1, 2, 3, 4]\<rparr>"

theorem tcp_stream_roundtrip_witness:
  "\<exists>w1 w2 sent. write_handshake \<lparr>w_out = [], w_room = None\<rparr> demo_handshake = Inr w1 \<and>
    write_frames w1 demo_handshake [demo_frame, demo_frame] = Inr w2 \<and>
    w_out w2 = w_out \<lparr>w_out = [], w_room = None\<rparr> @ sent \<and>
    (\<forall>r rest. \<exists>r1. read_handshake (r\<lparr>r_data := sent @ rest\<rparr>) = Inr (demo_handshake, r1) \<and>
       read_many (read_frame demo_handshake) (length [demo_frame, demo_frame]) r1 =
         Inr ([demo_frame, demo_frame], r\<lparr>r_data := rest\<rparr>))"
proof (rule tcp_stream_roundtrip)
  show "validate_handshake demo_handshake = None" by (simp add: validate_None demo_handshake_def)
  show "list_all (frame_wf demo_handshake) [demo_frame, demo_frame]"
    by (simp add: frame_wf_def expected_payload_eq demo_handshake_def demo_frame_def)
qed simp

text \<open>
  The UDP format is canonical: \<^verbatim>\<open>DecodeUDPDatagram\<close> accepts a packet as a hello or audio
  datagram exactly when that datagram is well formed and the encoder produces this very packet for
  it.  Truncated, padded, oversized or otherwise altered packets are all rejected.
\<close>

theorem udp_canonical:
  "decode_udp_datagram p = Inr d \<longleftrightarrow> udp_wf d \<and> append_udp [] d = Inr p"
proof -
  have "append_udp [] d = Inr p \<longleftrightarrow> udp_packet d = p" if "udp_wf d"
    using that by (cases d)
      (auto simp: append_udp_def udp_packet_def udp_wf_def append_udp_hello_valid append_udp_audio_valid)
  then show ?thesis using udp.dec_iff[of p d] by blast
qed

end
