(* ===== verification/MediaV2.thy ===== *)
theory MediaV2
  imports Wire_IO
begin

text \<open>
  The v2 media datagram: \<^verbatim>\<open>engine/internal/protocol/v2/packet.go\<close>.  The capture timestamp is a
  \<^verbatim>\<open>uint64\<close> that travels in 40 bits.
\<close>

abbreviation (input) Version :: u8 where "Version \<equiv> 1"
abbreviation (input) TypeAudio :: u8 where "TypeAudio \<equiv> 1"
abbreviation (input) MaxDatagramPayload :: nat where "MaxDatagramPayload \<equiv> 1152"
abbreviation (input) FlagFECEligible :: u8 where "FlagFECEligible \<equiv> 1"
abbreviation (input) FlagDTXSilence :: u8 where "FlagDTXSilence \<equiv> 2"

definition magic_v2 :: bytes where "magic_v2 = [82, 65, 85, 50]"

record media =
  m_stream_id :: u8
  m_format_gen :: u16
  m_flags :: u8
  m_seq :: u32
  m_capture_ts_us :: u64
  m_payload :: bytes

datatype media_error =
    MediaEmpty
  | MediaTooLarge nat
  | MediaTruncated
  | MediaMagicMismatch
  | MediaVersion u8
  | MediaType u8
  | MediaLengthMismatch nat nat

definition append_u40 :: "bytes \<Rightarrow> u64 \<Rightarrow> bytes" where
  "append_u40 dst v =
     dst @ [ucast (drop_bit 32 v), ucast (drop_bit 24 v), ucast (drop_bit 16 v),
            ucast (drop_bit 8 v), ucast v]"

definition read_u40 :: "bytes \<Rightarrow> u64" where
  "read_u40 b = push_bit 32 (ucast (b ! 0)) OR push_bit 24 (ucast (b ! 1)) OR
     push_bit 16 (ucast (b ! 2)) OR push_bit 8 (ucast (b ! 3)) OR ucast (b ! 4)"

text \<open>On an error the code returns \<^verbatim>\<open>dst\<close> unchanged beside it; the error alone is modelled.\<close>

definition append_media :: "bytes \<Rightarrow> media \<Rightarrow> media_error + bytes" where
  "append_media dst m =
     (let n = length (m_payload m) in
      if n = 0 then Inl MediaEmpty
      else if n > MaxDatagramPayload then Inl (MediaTooLarge n)
      else Inr (append_u40 (dst @ magic_v2 @ [Version, TypeAudio, m_stream_id m] @
                  put_be 2 (m_format_gen m) @ [m_flags m] @ put_be 4 (m_seq m))
                  (m_capture_ts_us m) @ put_be 2 (word_of_nat n :: u16) @ m_payload m))"

definition decode_media :: "bytes \<Rightarrow> media_error + media" where
  "decode_media packet =
     (if length packet < 21 then Inl MediaTruncated
      else if packet ! 0 \<noteq> 82 \<or> packet ! 1 \<noteq> 65 \<or> packet ! 2 \<noteq> 85 \<or> packet ! 3 \<noteq> 50
        then Inl MediaMagicMismatch
      else if packet ! 4 \<noteq> Version then Inl (MediaVersion (packet ! 4))
      else if packet ! 5 \<noteq> TypeAudio then Inl (MediaType (packet ! 5))
      else let payloadLen = unat (get_be (slice 19 21 packet) :: u16) in
        if payloadLen = 0 then Inl MediaEmpty
        else if length packet \<noteq> 21 + payloadLen
          then Inl (MediaLengthMismatch (length packet) (21 + payloadLen))
        else Inr \<lparr>m_stream_id = packet ! 6, m_format_gen = get_be (slice 7 9 packet),
                  m_flags = packet ! 9, m_seq = get_be (slice 10 14 packet),
                  m_capture_ts_us = read_u40 (slice 14 19 packet),
                  m_payload = drop 21 packet\<rparr>)"

section \<open>The 40-bit timestamp\<close>

lemma length_append_u40 [simp]: "length (append_u40 dst v) = length dst + 5"
  by (simp add: append_u40_def)

lemma append_u40_be: "append_u40 [] v = put_be 5 v"
  by (simp add: append_u40_def put_be_def put_le_numeral)

lemma read_u40_be:
  assumes "length b = 5"
  shows "read_u40 b = get_be b"
proof -
  have "b = [b ! 0, b ! 1, b ! 2, b ! 3, b ! 4]"
    using assms by (intro nth_equalityI) (auto simp: less_Suc_eq numeral_eq_Suc)
  moreover have "read_u40 b = get_be [b ! 0, b ! 1, b ! 2, b ! 3, b ! 4]"
    by (simp add: read_u40_def get_be_def push_bit_or or.assoc or.commute or.left_commute)
  ultimately show ?thesis by metis
qed

lemma read_append_u40: "read_u40 (append_u40 [] v) = take_bit 40 v"
  by (simp add: read_u40_be) (simp add: append_u40_be get_be_def put_be_def get_put_le_take)

lemma append_read_u40: "length b = 5 \<Longrightarrow> append_u40 [] (read_u40 b) = b"
  by (simp add: read_u40_be append_u40_be put_get_be_n)

lemma read_u40_bound: "length b = 5 \<Longrightarrow> take_bit 40 (read_u40 b) = read_u40 b"
  by (metis append_read_u40 read_append_u40)

lemma append_u40_Nil: "append_u40 dst v = dst @ append_u40 [] v"
  by (simp add: append_u40_def)

section \<open>The packet format\<close>

text \<open>
  \<open>media_layout\<close> is the packet without the encoder's size check: the decoder accepts every payload
  length the 16-bit field can hold, the encoder only those within \<^verbatim>\<open>MaxDatagramPayload\<close>.
\<close>

definition media_layout :: "media \<Rightarrow> bytes" where
  "media_layout m = magic_v2 @ [1, 1, m_stream_id m] @ put_be 2 (m_format_gen m) @
     m_flags m # put_be 4 (m_seq m) @ append_u40 [] (m_capture_ts_us m) @
     put_be 2 (word_of_nat (length (m_payload m)) :: u16) @ m_payload m"

definition media_wf :: "media \<Rightarrow> bool" where
  "media_wf m \<longleftrightarrow> 0 < length (m_payload m) \<and> length (m_payload m) < 65536 \<and>
     take_bit 40 (m_capture_ts_us m) = m_capture_ts_us m"

lemma append_media_eq:
  "append_media dst m =
     (if m_payload m = [] then Inl MediaEmpty
      else if length (m_payload m) > MaxDatagramPayload then Inl (MediaTooLarge (length (m_payload m)))
      else Inr (dst @ media_layout m))"
  by (simp add: append_media_def media_layout_def append_u40_Nil[of "_ @ _"] Let_def)

lemma media_layout_fields [codec_simps]:
  "media_layout m ! 0 = 82" "media_layout m ! Suc 0 = 65" "media_layout m ! 2 = 85"
  "media_layout m ! 3 = 50" "media_layout m ! 4 = 1" "media_layout m ! 5 = 1"
  "media_layout m ! 6 = m_stream_id m" "slice 7 9 (media_layout m) = put_be 2 (m_format_gen m)"
  "media_layout m ! 9 = m_flags m" "slice 10 14 (media_layout m) = put_be 4 (m_seq m)"
  "slice 14 19 (media_layout m) = append_u40 [] (m_capture_ts_us m)"
  "slice 19 21 (media_layout m) = put_be 2 (word_of_nat (length (m_payload m)) :: u16)"
  "drop 21 (media_layout m) = m_payload m"
  "length (media_layout m) = 21 + length (m_payload m)"
  by (simp_all add: media_layout_def magic_v2_def codec_simps nth_append)

text \<open>Decoding any laid-out packet gives the message back, with the timestamp reduced to 40 bits.\<close>

lemma decode_media_layout:
  assumes "m_payload m \<noteq> []" "length (m_payload m) < 65536"
  shows "decode_media (media_layout m) =
    Inr (m\<lparr>m_capture_ts_us := take_bit 40 (m_capture_ts_us m)\<rparr>)"
  using assms
  by (cases m) (simp add: decode_media_def codec_simps get_put_be read_append_u40 Let_def)

lemma decode_media_sound:
  assumes "decode_media p = Inr m"
  shows "media_wf m \<and> media_layout m = p"
proof -
  from assms have len: "21 \<le> length p"
    and n: "length p - 21 = unat (get_be (slice 19 21 p) :: u16)"
    and pos: "unat (get_be (slice 19 21 p) :: u16) \<noteq> 0"
    and head: "p ! 0 = 82" "p ! Suc 0 = 65" "p ! 2 = 85" "p ! 3 = 50" "p ! 4 = 1" "p ! 5 = 1"
    and m: "m = \<lparr>m_stream_id = p ! 6, m_format_gen = get_be (slice 7 9 p), m_flags = p ! 9,
      m_seq = get_be (slice 10 14 p), m_capture_ts_us = read_u40 (slice 14 19 p),
      m_payload = drop 21 p\<rparr>"
    by (auto simp: decode_media_def Let_def split: if_splits)
  from len have "p \<noteq> []" by auto
  have hd: "magic_v2 @ 1 # 1 # x = p ! 0 # p ! Suc 0 # p ! 2 # p ! 3 # p ! 4 # p ! 5 # x" for x
    by (simp add: head magic_v2_def)
  have "put_be 2 (word_of_nat (length p - 21) :: u16) = slice 19 21 p"
    using len by (simp add: n endian_simps)
  then have "media_layout m = p"
    using len \<open>p \<noteq> []\<close>
    by (simp add: media_layout_def m endian_simps append_read_u40 hd slice_glue)
  moreover have "media_wf m"
    using len n pos unat_bounds(2)[of "get_be (slice 19 21 p)"]
    by (simp add: media_wf_def m read_u40_bound)
  ultimately show ?thesis by blast
qed

interpretation media: dgram_codec media_layout decode_media media_wf
proof unfold_locales
  fix m assume "media_wf m"
  then show "decode_media (media_layout m) = Inr m"
    by (cases m) (simp add: media_wf_def decode_media_layout)
qed (auto dest: decode_media_sound)

section \<open>Properties\<close>

text \<open>
  \<^verbatim>\<open>AppendMedia\<close> followed by \<^verbatim>\<open>DecodeMedia\<close> gives every field back, the capture timestamp
  modulo \<open>2 ^ 40\<close>; it refuses exactly the empty payloads and those over \<^verbatim>\<open>MaxDatagramPayload\<close>; and
  a packet that decodes is the layout of what was decoded.
\<close>

theorem media_roundtrip:
  "(case append_media [] m of
      Inl e \<Rightarrow> m_payload m = [] \<or> length (m_payload m) > 1152
    | Inr p \<Rightarrow> length p = 21 + length (m_payload m) \<and> length p \<le> 1173 \<and>
        decode_media p = Inr (m\<lparr>m_capture_ts_us := take_bit 40 (m_capture_ts_us m)\<rparr>)) \<and>
   (decode_media q = Inr n \<longleftrightarrow> media_wf n \<and> media_layout n = q)"
  using media.dec_iff[of q n] decode_media_layout[of m]
  by (auto simp: append_media_eq codec_simps)

end
