(* ===== verification/ControlV2.thy ===== *)
theory ControlV2
  imports Wire_IO
begin

text \<open>
  The v2 control channel: \<^verbatim>\<open>engine/internal/protocol/v2/control.go\<close>.  Message payloads are little
  endian; \<^verbatim>\<open>WriteMessage\<close> and \<^verbatim>\<open>ReadMessage\<close> frame them on the control stream.  A Go array \<^verbatim>\<open>[n]byte\<close>
  is a byte list of that length; the length is part of the well-formedness predicates.
\<close>

section \<open>Message types and constants\<close>

abbreviation (input) MsgHello :: u16 where "MsgHello \<equiv> 0x0001"
abbreviation (input) MsgHelloOK :: u16 where "MsgHelloOK \<equiv> 0x0002"
abbreviation (input) MsgPairBegin :: u16 where "MsgPairBegin \<equiv> 0x0010"
abbreviation (input) MsgPairChallenge :: u16 where "MsgPairChallenge \<equiv> 0x0011"
abbreviation (input) MsgPairConfirm :: u16 where "MsgPairConfirm \<equiv> 0x0012"
abbreviation (input) MsgPairResult :: u16 where "MsgPairResult \<equiv> 0x0013"
abbreviation (input) MsgStreamStart :: u16 where "MsgStreamStart \<equiv> 0x0020"
abbreviation (input) MsgStreamAck :: u16 where "MsgStreamAck \<equiv> 0x0021"
abbreviation (input) MsgStreamStop :: u16 where "MsgStreamStop \<equiv> 0x0022"
abbreviation (input) MsgFormatUpdate :: u16 where "MsgFormatUpdate \<equiv> 0x0030"
abbreviation (input) MsgFormatAck :: u16 where "MsgFormatAck \<equiv> 0x0031"
abbreviation (input) MsgStats :: u16 where "MsgStats \<equiv> 0x0040"
abbreviation (input) MsgVolume :: u16 where "MsgVolume \<equiv> 0x0050"
abbreviation (input) MsgPing :: u16 where "MsgPing \<equiv> 0x0060"
abbreviation (input) MsgPong :: u16 where "MsgPong \<equiv> 0x0061"
abbreviation (input) MsgResume :: u16 where "MsgResume \<equiv> 0x0070"
abbreviation (input) MsgResumeOK :: u16 where "MsgResumeOK \<equiv> 0x0071"
abbreviation (input) MsgQualityMode :: u16 where "MsgQualityMode \<equiv> 0x0080"
abbreviation (input) MsgSetSource :: u16 where "MsgSetSource \<equiv> 0x0081"
abbreviation (input) MsgSetSourceAck :: u16 where "MsgSetSourceAck \<equiv> 0x0082"
abbreviation (input) MsgReceiverState :: u16 where "MsgReceiverState \<equiv> 0x0083"

abbreviation (input) CodecPCMS16LE :: u8 where "CodecPCMS16LE \<equiv> 0"
abbreviation (input) CodecOpus :: u8 where "CodecOpus \<equiv> 1"
abbreviation (input) OpusAppAudio :: u8 where "OpusAppAudio \<equiv> 0"
abbreviation (input) OpusAppVoIP :: u8 where "OpusAppVoIP \<equiv> 1"
abbreviation (input) OpusAppLowDelay :: u8 where "OpusAppLowDelay \<equiv> 2"
abbreviation (input) capsSize :: nat where "capsSize \<equiv> 15"
abbreviation (input) MaxControlPayload :: nat where "MaxControlPayload \<equiv> 4096"

abbreviation (input) QualityModeAuto :: u8 where "QualityModeAuto \<equiv> 0"
abbreviation (input) QualityModeLowestLatency :: u8 where "QualityModeLowestLatency \<equiv> 1"
abbreviation (input) QualityModeLossless :: u8 where "QualityModeLossless \<equiv> 2"
abbreviation (input) QualityModeRobust :: u8 where "QualityModeRobust \<equiv> 3"
abbreviation (input) QualityModeAdvanced :: u8 where "QualityModeAdvanced \<equiv> 4"

abbreviation (input) SetSourceDefault :: u8 where "SetSourceDefault \<equiv> 0"
abbreviation (input) SetSourceDevice :: u8 where "SetSourceDevice \<equiv> 1"
abbreviation (input) SetSourceTestTone :: u8 where "SetSourceTestTone \<equiv> 2"
abbreviation (input) SetSourcePerApp :: u8 where "SetSourcePerApp \<equiv> 3"

abbreviation (input) ReceiverStateConnecting :: u8 where "ReceiverStateConnecting \<equiv> 0"
abbreviation (input) ReceiverStatePairing :: u8 where "ReceiverStatePairing \<equiv> 1"
abbreviation (input) ReceiverStateBuffering :: u8 where "ReceiverStateBuffering \<equiv> 2"
abbreviation (input) ReceiverStatePlaying :: u8 where "ReceiverStatePlaying \<equiv> 3"
abbreviation (input) ReceiverStateInterrupted :: u8 where "ReceiverStateInterrupted \<equiv> 4"
abbreviation (input) ReceiverStateReconnecting :: u8 where "ReceiverStateReconnecting \<equiv> 5"
abbreviation (input) ReceiverStateStopped :: u8 where "ReceiverStateStopped \<equiv> 6"

section \<open>Data\<close>

record caps =
  c_codec :: u8
  c_sample_rate :: u32
  c_channels :: u8
  c_frame_ms :: u8
  c_opus_bitrate :: u32
  c_fec :: u8
  c_dtx :: u8
  c_complexity :: u8
  c_app_id :: u8

record hello =
  h_proto_version :: u16
  h_min_proto :: u16
  h_device_name :: bytes
  h_device_id :: bytes
  h_caps :: caps

record hello_ok =
  ho_profile :: caps
  ho_resume_token :: bytes

record stream_ack =
  sa_active :: caps
  sa_format_gen :: u32

record format_update =
  fu_format_gen :: u32
  fu_caps :: caps

record format_ack =
  fa_format_gen :: u32
  fa_applied :: u8

text \<open>\<^verbatim>\<open>DriftPpm\<close> is an \<^verbatim>\<open>int32\<close>: the same 32 bits, read with \<open>sint\<close>.\<close>

record stats =
  st_loss_pct :: u16
  st_late_pct :: u16
  st_jitter_us :: u32
  st_rtt_us :: u32
  st_buf_depth_ms :: u16
  st_underruns :: u32
  st_drift_ppm :: u32

record set_source =
  ss_kind :: u8
  ss_name :: bytes

record set_source_ack =
  sk_ok :: u8
  sk_detail :: bytes

record message =
  msg_type :: u16
  msg_flags :: u16
  msg_request_id :: u32
  msg_payload :: bytes

datatype ctl_error =
    CtlTruncated string
  | CtlLengthMismatch string
  | CtlOutOfRange string nat
  | CtlPayloadTooLarge nat
  | CtlIO io_error

datatype caps_error =
    CapsSampleRate u32
  | CapsChannels u8
  | CapsFrameMs u8
  | CapsCodec u8
  | CapsBitrate u32

section \<open>Capabilities\<close>

definition caps_append :: "bytes \<Rightarrow> caps \<Rightarrow> bytes" where
  "caps_append dst c =
     dst @ [c_codec c] @ put_le 4 (c_sample_rate c) @ [c_channels c, c_frame_ms c] @
     put_le 4 (c_opus_bitrate c) @ [c_fec c, c_dtx c, c_complexity c, c_app_id c]"

definition decode_caps :: "bytes \<Rightarrow> ctl_error + caps" where
  "decode_caps b =
     (if length b < capsSize then Inl (CtlTruncated ''caps'')
      else Inr \<lparr>c_codec = b ! 0, c_sample_rate = get_le (slice 1 5 b), c_channels = b ! 5,
                c_frame_ms = b ! 6, c_opus_bitrate = get_le (slice 7 11 b), c_fec = b ! 11,
                c_dtx = b ! 12, c_complexity = b ! (12 + 1), c_app_id = b ! 14\<rparr>)"

definition caps_validate :: "caps \<Rightarrow> caps_error option" where
  "caps_validate c =
     (if c_sample_rate c < 8000 \<or> c_sample_rate c > 192000 then Some (CapsSampleRate (c_sample_rate c))
      else if c_channels c < 1 \<or> c_channels c > 8 then Some (CapsChannels (c_channels c))
      else if c_frame_ms c \<notin> {2, 5, 10, 20} then Some (CapsFrameMs (c_frame_ms c))
      else if c_codec c \<notin> {CodecPCMS16LE, CodecOpus} then Some (CapsCodec (c_codec c))
      else if c_opus_bitrate c \<noteq> 0 \<and> (c_opus_bitrate c < 6000 \<or> c_opus_bitrate c > 510000)
        then Some (CapsBitrate (c_opus_bitrate c))
      else None)"

definition codec_name :: "caps \<Rightarrow> string" where
  "codec_name c = (if c_codec c = CodecOpus then ''opus'' else ''pcm'')"

section \<open>Payload encoders and decoders\<close>

abbreviation (input) helloFixedLen :: nat where "helloFixedLen \<equiv> 2 + 2 + 2 + 16 + capsSize"

definition append_hello :: "bytes \<Rightarrow> hello \<Rightarrow> bytes" where
  "append_hello dst h =
     caps_append (dst @ put_le 2 (h_proto_version h) @ put_le 2 (h_min_proto h) @
       put_le 2 (word_of_nat (length (h_device_name h)) :: u16) @ h_device_id h) (h_caps h) @
     h_device_name h"

definition decode_hello :: "bytes \<Rightarrow> ctl_error + hello" where
  "decode_hello b =
     (if length b < helloFixedLen then Inl (CtlTruncated ''hello'')
      else let nameLen = unat (get_le (slice 4 6 b) :: u16) in
        if length b \<noteq> helloFixedLen + nameLen then Inl (CtlLengthMismatch ''hello'')
        else (case decode_caps (slice 22 (22 + capsSize) b) of
            Inl e \<Rightarrow> Inl e
          | Inr c \<Rightarrow> Inr \<lparr>h_proto_version = get_le (slice 0 2 b), h_min_proto = get_le (slice 2 4 b),
                           h_device_name = drop helloFixedLen b, h_device_id = slice 6 22 b,
                           h_caps = c\<rparr>))"

definition append_hello_ok :: "bytes \<Rightarrow> hello_ok \<Rightarrow> bytes" where
  "append_hello_ok dst h = caps_append dst (ho_profile h) @ ho_resume_token h"

definition decode_hello_ok :: "bytes \<Rightarrow> ctl_error + hello_ok" where
  "decode_hello_ok b =
     (if length b \<noteq> capsSize + 32 then Inl (CtlLengthMismatch ''hello-ok'')
      else (case decode_caps (take capsSize b) of
          Inl e \<Rightarrow> Inl e
        | Inr c \<Rightarrow> Inr \<lparr>ho_profile = c, ho_resume_token = drop capsSize b\<rparr>))"

definition append_stream_ack :: "bytes \<Rightarrow> stream_ack \<Rightarrow> bytes" where
  "append_stream_ack dst s = caps_append dst (sa_active s) @ put_le 4 (sa_format_gen s)"

definition decode_stream_ack :: "bytes \<Rightarrow> ctl_error + stream_ack" where
  "decode_stream_ack b =
     (if length b \<noteq> capsSize + 4 then Inl (CtlLengthMismatch ''stream-ack'')
      else (case decode_caps (take capsSize b) of
          Inl e \<Rightarrow> Inl e
        | Inr c \<Rightarrow> Inr \<lparr>sa_active = c, sa_format_gen = get_le (drop capsSize b)\<rparr>))"

definition append_format_update :: "bytes \<Rightarrow> format_update \<Rightarrow> bytes" where
  "append_format_update dst f = caps_append (dst @ put_le 4 (fu_format_gen f)) (fu_caps f)"

definition decode_format_update :: "bytes \<Rightarrow> ctl_error + format_update" where
  "decode_format_update b =
     (if length b \<noteq> capsSize + 4 then Inl (CtlLengthMismatch ''format-update'')
      else (case decode_caps (drop 4 b) of
          Inl e \<Rightarrow> Inl e
        | Inr c \<Rightarrow> Inr \<lparr>fu_format_gen = get_le (take 4 b), fu_caps = c\<rparr>))"

definition append_format_ack :: "bytes \<Rightarrow> format_ack \<Rightarrow> bytes" where
  "append_format_ack dst f = dst @ put_le 4 (fa_format_gen f) @ [fa_applied f]"

definition decode_format_ack :: "bytes \<Rightarrow> ctl_error + format_ack" where
  "decode_format_ack b =
     (if length b \<noteq> 5 then Inl (CtlLengthMismatch ''format-ack'')
      else Inr \<lparr>fa_format_gen = get_le (slice 0 4 b), fa_applied = b ! 4\<rparr>)"

definition append_stats :: "bytes \<Rightarrow> stats \<Rightarrow> bytes" where
  "append_stats dst s =
     dst @ put_le 2 (st_loss_pct s) @ put_le 2 (st_late_pct s) @ put_le 4 (st_jitter_us s) @
     put_le 4 (st_rtt_us s) @ put_le 2 (st_buf_depth_ms s) @ put_le 4 (st_underruns s) @
     put_le 4 (st_drift_ppm s)"

definition decode_stats :: "bytes \<Rightarrow> ctl_error + stats" where
  "decode_stats b =
     (if length b \<noteq> 2 + 2 + 4 + 4 + 2 + 4 + 4 then Inl (CtlLengthMismatch ''stats'')
      else Inr \<lparr>st_loss_pct = get_le (slice 0 2 b), st_late_pct = get_le (slice 2 4 b),
                st_jitter_us = get_le (slice 4 8 b), st_rtt_us = get_le (slice 8 12 b),
                st_buf_depth_ms = get_le (slice 12 14 b), st_underruns = get_le (slice 14 18 b),
                st_drift_ppm = get_le (slice 18 22 b)\<rparr>)"

definition name_payload_len :: "bytes \<Rightarrow> string \<Rightarrow> ctl_error + nat" where
  "name_payload_len b what =
     (if length b < 3 then Inl (CtlTruncated what)
      else Inr (unat (get_le (slice 1 3 b) :: u16)))"

text \<open>The one-byte payloads \<^verbatim>\<open>QualityMode\<close> and \<^verbatim>\<open>ReceiverState\<close> are their byte.\<close>

definition append_quality_mode :: "bytes \<Rightarrow> u8 \<Rightarrow> bytes" where
  "append_quality_mode dst q = dst @ [q]"

definition decode_quality_mode :: "bytes \<Rightarrow> ctl_error + u8" where
  "decode_quality_mode b =
     (if length b \<noteq> 1 then Inl (CtlLengthMismatch ''quality-mode'')
      else if b ! 0 > QualityModeAdvanced then Inl (CtlOutOfRange ''quality-mode'' (unat (b ! 0)))
      else Inr (b ! 0))"

definition append_set_source :: "bytes \<Rightarrow> set_source \<Rightarrow> bytes" where
  "append_set_source dst s =
     dst @ [ss_kind s] @ put_le 2 (word_of_nat (length (ss_name s)) :: u16) @ ss_name s"

definition decode_set_source :: "bytes \<Rightarrow> ctl_error + set_source" where
  "decode_set_source b =
     (case name_payload_len b ''set-source'' of
        Inl e \<Rightarrow> Inl e
      | Inr nameLen \<Rightarrow>
          if length b \<noteq> 3 + nameLen then Inl (CtlLengthMismatch ''set-source'')
          else if b ! 0 > SetSourcePerApp then Inl (CtlOutOfRange ''set-source'' (unat (b ! 0)))
          else Inr \<lparr>ss_kind = b ! 0, ss_name = drop 3 b\<rparr>)"

definition append_set_source_ack :: "bytes \<Rightarrow> set_source_ack \<Rightarrow> bytes" where
  "append_set_source_ack dst a =
     dst @ [sk_ok a] @ put_le 2 (word_of_nat (length (sk_detail a)) :: u16) @ sk_detail a"

definition decode_set_source_ack :: "bytes \<Rightarrow> ctl_error + set_source_ack" where
  "decode_set_source_ack b =
     (case name_payload_len b ''set-source-ack'' of
        Inl e \<Rightarrow> Inl e
      | Inr detailLen \<Rightarrow>
          if length b \<noteq> 3 + detailLen then Inl (CtlLengthMismatch ''set-source-ack'')
          else Inr \<lparr>sk_ok = b ! 0, sk_detail = drop 3 b\<rparr>)"

definition append_receiver_state :: "bytes \<Rightarrow> u8 \<Rightarrow> bytes" where
  "append_receiver_state dst r = dst @ [r]"

definition decode_receiver_state :: "bytes \<Rightarrow> ctl_error + u8" where
  "decode_receiver_state b =
     (if length b \<noteq> 1 then Inl (CtlLengthMismatch ''receiver-state'')
      else if b ! 0 > ReceiverStateStopped then Inl (CtlOutOfRange ''receiver-state'' (unat (b ! 0)))
      else Inr (b ! 0))"

section \<open>Framing\<close>

definition message_header :: "message \<Rightarrow> bytes" where
  "message_header m =
     put_le 2 (msg_type m) @ put_le 2 (msg_flags m) @ put_le 4 (msg_request_id m) @
     put_le 4 (word_of_nat (length (msg_payload m)) :: u32)"

definition write_message :: "writer \<Rightarrow> message \<Rightarrow> ctl_error + writer" where
  "write_message w m =
     (if length (msg_payload m) > MaxControlPayload
      then Inl (CtlPayloadTooLarge (length (msg_payload m)))
      else (case bw_write w (message_header m) of Inl e \<Rightarrow> Inl (CtlIO e)
        | Inr w1 \<Rightarrow>
            (case (if length (msg_payload m) > 0 then bw_write w1 (msg_payload m) else Inr w1) of
                Inl e \<Rightarrow> Inl (CtlIO e)
              | Inr w2 \<Rightarrow> (case bw_flush w2 of Inl e \<Rightarrow> Inl (CtlIO e) | Inr w3 \<Rightarrow> Inr w3))))"

definition read_message :: "reader \<Rightarrow> ctl_error + message \<times> reader" where
  "read_message r =
     (case read_full 12 r of Inl e \<Rightarrow> Inl (CtlIO e)
      | Inr (header, r1) \<Rightarrow>
          let n = unat (get_le (slice 8 12 header) :: u32) in
          if n > MaxControlPayload then Inl (CtlPayloadTooLarge n)
          else let m = \<lparr>msg_type = get_le (slice 0 2 header), msg_flags = get_le (slice 2 4 header),
                        msg_request_id = get_le (slice 4 8 header), msg_payload = []\<rparr>
          in if n > 0 then
               (case read_full n r1 of Inl e \<Rightarrow> Inl (CtlIO e)
                | Inr (payload, r2) \<Rightarrow> Inr (m\<lparr>msg_payload := payload\<rparr>, r2))
             else Inr (m, r1))"

section \<open>Capabilities: round trip and validation\<close>

lemma length_caps_append [simp]: "length (caps_append dst c) = length dst + 15"
  by (simp add: caps_append_def)

lemma caps_append_Nil: "caps_append dst c = dst @ caps_append [] c"
  by (simp add: caps_append_def)

lemma decode_caps_enc: "decode_caps (caps_append [] c @ rest) = Inr c"
  by (cases c) (simp add: decode_caps_def caps_append_def codec_simps nth_append get_put_le)

lemma decode_caps_enc' [simp]: "decode_caps (caps_append [] c) = Inr c"
  using decode_caps_enc[of c "[]"] by simp

lemma decode_caps_sound:
  assumes "decode_caps b = Inr c"
  shows "15 \<le> length b" "caps_append [] c = take 15 b"
proof -
  from assms show len: "15 \<le> length b" by (auto simp: decode_caps_def split: if_splits)
  then have ne: "b \<noteq> []" by auto
  from assms len have c: "c = \<lparr>c_codec = b ! 0, c_sample_rate = get_le (slice 1 5 b),
    c_channels = b ! 5, c_frame_ms = b ! 6, c_opus_bitrate = get_le (slice 7 11 b), c_fec = b ! 11,
    c_dtx = b ! 12, c_complexity = b ! 13, c_app_id = b ! 14\<rparr>"
    by (simp add: decode_caps_def)
  have "[b ! 14] = slice 14 15 b" using len slice_nth[of 14 b] by simp
  then show "caps_append [] c = take 15 b"
    using len ne by (simp add: caps_append_def c endian_simps slice_glue slice_from_0)
qed

lemma decode_caps_exact: "length b = 15 \<Longrightarrow> decode_caps b = Inr c \<longleftrightarrow> caps_append [] c = b"
  using decode_caps_sound[of b c] by (auto dest: sym)

lemma decode_caps_total: "15 \<le> length b \<Longrightarrow> \<exists>c. decode_caps b = Inr c"
  by (simp add: decode_caps_def)

lemma caps_validate_None:
  "caps_validate c = None \<longleftrightarrow>
     8000 \<le> unat (c_sample_rate c) \<and> unat (c_sample_rate c) \<le> 192000 \<and>
     0 < unat (c_channels c) \<and> unat (c_channels c) \<le> 8 \<and>
     unat (c_frame_ms c) \<in> {2, 5, 10, 20} \<and> unat (c_codec c) \<in> {0, 1} \<and>
     (unat (c_opus_bitrate c) = 0 \<or>
      6000 \<le> unat (c_opus_bitrate c) \<and> unat (c_opus_bitrate c) \<le> 510000)"
  by (simp add: caps_validate_def result_simps word_less_nat_alt not_less word_eq_unat)

section \<open>Every payload is a canonical packet format\<close>

text \<open>
  Fixed-size payloads accept every value of their record; those with a variable tail need it to fit
  a 16-bit length; array fields need their length.
\<close>

definition hello_wf :: "hello \<Rightarrow> bool" where
  "hello_wf h \<longleftrightarrow> length (h_device_name h) < 65536 \<and> length (h_device_id h) = 16"

definition hello_ok_wf :: "hello_ok \<Rightarrow> bool" where
  "hello_ok_wf h \<longleftrightarrow> length (ho_resume_token h) = 32"

definition set_source_wf :: "set_source \<Rightarrow> bool" where
  "set_source_wf s \<longleftrightarrow> ss_kind s \<le> SetSourcePerApp \<and> length (ss_name s) < 65536"

definition set_source_ack_wf :: "set_source_ack \<Rightarrow> bool" where
  "set_source_ack_wf a \<longleftrightarrow> length (sk_detail a) < 65536"

lemma caps_exact:
  "decode_caps b = Inr c \<Longrightarrow> length b = 15 \<Longrightarrow> caps_append [] c = b"
  by (simp add: decode_caps_exact)

lemma decode_hello_enc:
  assumes "hello_wf h"
  shows "decode_hello (append_hello [] h) = Inr h"
  using assms caps_append_Nil[of "_ @ h_device_id h" "h_caps h"]
  by (cases h) (simp add: hello_wf_def decode_hello_def append_hello_def caps_append_Nil[of "_ @ _"]
      codec_simps get_put_le Let_def)

lemma decode_hello_sound:
  assumes "decode_hello b = Inr h"
  shows "hello_wf h \<and> append_hello [] h = b"
proof -
  from assms obtain c where len: "37 \<le> length b"
    and n: "length b - 37 = unat (get_le (slice 4 6 b) :: u16)"
    and c: "decode_caps (slice 22 37 b) = Inr c"
    and h: "h = \<lparr>h_proto_version = get_le (slice 0 2 b), h_min_proto = get_le (slice 2 4 b),
      h_device_name = drop 37 b, h_device_id = slice 6 22 b, h_caps = c\<rparr>"
    by (auto simp: decode_hello_def Let_def result_simps)
  have "caps_append [] c = slice 22 37 b" using c len by (simp add: caps_exact)
  moreover have "put_le 2 (word_of_nat (length b - 37) :: u16) = slice 4 6 b"
    using len by (simp add: n endian_simps)
  ultimately have "append_hello [] h = b"
    using len by (simp add: append_hello_def caps_append_Nil[of "slice 0 22 b"] h endian_simps slice_glue slice_all)
  moreover have "hello_wf h"
    using len n unat_bounds(2)[of "get_le (slice 4 6 b)"] by (simp add: hello_wf_def h)
  ultimately show ?thesis by blast
qed

interpretation hello: dgram_codec "append_hello []" decode_hello hello_wf
  by unfold_locales (simp_all add: decode_hello_enc decode_hello_sound)

lemma decode_hello_ok_sound:
  assumes "decode_hello_ok b = Inr h"
  shows "hello_ok_wf h \<and> append_hello_ok [] h = b"
proof -
  from assms obtain c where len: "length b = 47" and c: "decode_caps (take 15 b) = Inr c"
    and h: "h = \<lparr>ho_profile = c, ho_resume_token = drop 15 b\<rparr>"
    by (auto simp: decode_hello_ok_def result_simps)
  have "caps_append [] c = take 15 b" using c len by (simp add: caps_exact)
  then show ?thesis using len by (simp add: append_hello_ok_def hello_ok_wf_def h)
qed

interpretation hello_ok: dgram_codec "append_hello_ok []" decode_hello_ok hello_ok_wf
proof unfold_locales
  fix h assume "hello_ok_wf h"
  then show "decode_hello_ok (append_hello_ok [] h) = Inr h"
    by (cases h) (simp add: decode_hello_ok_def append_hello_ok_def hello_ok_wf_def)
qed (auto dest: decode_hello_ok_sound)

lemma decode_stream_ack_sound:
  assumes "decode_stream_ack b = Inr s"
  shows "append_stream_ack [] s = b"
proof -
  from assms obtain c where len: "length b = 19" and c: "decode_caps (take 15 b) = Inr c"
    and s: "s = \<lparr>sa_active = c, sa_format_gen = get_le (drop 15 b)\<rparr>"
    by (auto simp: decode_stream_ack_def result_simps)
  have "caps_append [] c = take 15 b" using c len by (simp add: caps_exact)
  then show ?thesis using len by (simp add: append_stream_ack_def s endian_simps)
qed

interpretation stream_ack: dgram_codec "append_stream_ack []" decode_stream_ack "\<lambda>_. True"
proof unfold_locales
  fix s
  show "decode_stream_ack (append_stream_ack [] s) = Inr s"
    by (cases s) (simp add: decode_stream_ack_def append_stream_ack_def get_put_le)
qed (auto dest: decode_stream_ack_sound)

lemma decode_format_update_sound:
  assumes "decode_format_update b = Inr f"
  shows "append_format_update [] f = b"
proof -
  from assms obtain c where len: "length b = 19" and c: "decode_caps (drop 4 b) = Inr c"
    and f: "f = \<lparr>fu_format_gen = get_le (take 4 b), fu_caps = c\<rparr>"
    by (auto simp: decode_format_update_def result_simps)
  have "caps_append [] c = drop 4 b" using c len by (simp add: caps_exact)
  then show ?thesis
    using len by (simp add: append_format_update_def caps_append_Nil[of "take 4 b"] f endian_simps)
qed

interpretation format_update: dgram_codec "append_format_update []" decode_format_update "\<lambda>_. True"
proof unfold_locales
  fix f
  show "decode_format_update (append_format_update [] f) = Inr f"
    by (cases f) (simp add: decode_format_update_def append_format_update_def
        caps_append_Nil[of "put_le _ _"] get_put_le)
qed (auto dest: decode_format_update_sound)

interpretation format_ack: dgram_codec "append_format_ack []" decode_format_ack "\<lambda>_. True"
proof unfold_locales
  fix f
  show "decode_format_ack (append_format_ack [] f) = Inr f"
    by (cases f) (simp add: decode_format_ack_def append_format_ack_def codec_simps get_put_le nth_append)
next
  fix p x assume d: "decode_format_ack p = Inr x"
  then have len: "length p = 5" by (auto simp: decode_format_ack_def split: if_splits)
  then have "[p ! 4] = slice 4 5 p" using slice_nth[of 4 p] by simp
  then show "True \<and> append_format_ack [] x = p"
    using d len by (auto simp: decode_format_ack_def append_format_ack_def endian_simps slice_glue slice_all)
qed

interpretation stats: dgram_codec "append_stats []" decode_stats "\<lambda>_. True"
proof unfold_locales
  fix s
  show "decode_stats (append_stats [] s) = Inr s"
    by (cases s) (simp add: decode_stats_def append_stats_def codec_simps get_put_le)
next
  fix p x assume "decode_stats p = Inr x"
  then show "True \<and> append_stats [] x = p"
    by (auto simp: decode_stats_def append_stats_def result_simps endian_simps slice_glue slice_all)
qed

interpretation quality_mode: dgram_codec "append_quality_mode []" decode_quality_mode "\<lambda>q. q \<le> 4"
  by unfold_locales
    (auto simp: append_quality_mode_def decode_quality_mode_def length_Suc_conv split: if_splits)

interpretation receiver_state:
  dgram_codec "append_receiver_state []" decode_receiver_state "\<lambda>r. r \<le> 6"
  by unfold_locales
    (auto simp: append_receiver_state_def decode_receiver_state_def length_Suc_conv split: if_splits)

lemma set_source_glue:
  assumes "3 \<le> length b" "length b = 3 + unat (get_le (slice 1 3 b) :: u16)"
  shows "b ! 0 # put_le 2 (word_of_nat (length b - 3) :: u16) @ drop 3 b = b"
    and "length b - 3 < 65536"
proof -
  have "length b - 3 = unat (get_le (slice 1 3 b) :: u16)" using assms(2) by simp
  then have "put_le 2 (word_of_nat (length b - 3) :: u16) = slice 1 3 b"
    using assms(1) by (simp add: endian_simps)
  moreover have "b \<noteq> []" using assms(1) by auto
  ultimately show "b ! 0 # put_le 2 (word_of_nat (length b - 3) :: u16) @ drop 3 b = b"
    using assms(1) by (simp add: slice_glue slice_all)
  show "length b - 3 < 65536"
    using assms(2) unat_bounds(2)[of "get_le (slice 1 3 b)"] by simp
qed

interpretation set_source: dgram_codec "append_set_source []" decode_set_source set_source_wf
proof unfold_locales
  fix s assume "set_source_wf s"
  then show "decode_set_source (append_set_source [] s) = Inr s"
    by (cases s) (simp add: set_source_wf_def decode_set_source_def append_set_source_def
        name_payload_len_def codec_simps get_put_le not_less)
next
  fix p x assume d: "decode_set_source p = Inr x"
  then have len: "3 \<le> length p" "length p = 3 + unat (get_le (slice 1 3 p) :: u16)"
    and x: "x = \<lparr>ss_kind = p ! 0, ss_name = drop 3 p\<rparr>" and k: "p ! 0 \<le> 3"
    by (auto simp: decode_set_source_def name_payload_len_def split: if_splits)
  show "set_source_wf x \<and> append_set_source [] x = p"
    using set_source_glue[OF len] k by (simp add: set_source_wf_def append_set_source_def x)
qed

interpretation set_source_ack:
  dgram_codec "append_set_source_ack []" decode_set_source_ack set_source_ack_wf
proof unfold_locales
  fix s assume "set_source_ack_wf s"
  then show "decode_set_source_ack (append_set_source_ack [] s) = Inr s"
    by (cases s) (simp add: set_source_ack_wf_def decode_set_source_ack_def append_set_source_ack_def
        name_payload_len_def codec_simps get_put_le)
next
  fix p x assume d: "decode_set_source_ack p = Inr x"
  then have len: "3 \<le> length p" "length p = 3 + unat (get_le (slice 1 3 p) :: u16)"
    and x: "x = \<lparr>sk_ok = p ! 0, sk_detail = drop 3 p\<rparr>"
    by (auto simp: decode_set_source_ack_def name_payload_len_def split: if_splits)
  show "set_source_ack_wf x \<and> append_set_source_ack [] x = p"
    using set_source_glue[OF len] by (simp add: set_source_ack_wf_def append_set_source_ack_def x)
qed

section \<open>Control messages on the stream\<close>

definition message_wf :: "message \<Rightarrow> bool" where
  "message_wf m \<longleftrightarrow> length (msg_payload m) \<le> MaxControlPayload"

lemma length_message_header [simp]: "length (message_header m) = 12"
  by (simp add: message_header_def)

lemma message_header_fields [codec_simps]:
  "get_le (slice 0 2 (message_header m)) = msg_type m"
  "get_le (slice 2 4 (message_header m)) = msg_flags m"
  "get_le (slice 4 8 (message_header m)) = msg_request_id m"
  "get_le (slice 8 12 (message_header m)) = (word_of_nat (length (msg_payload m)) :: u32)"
  by (simp_all add: message_header_def codec_simps get_put_le)

lemma read_message_enc:
  assumes "message_wf m"
  shows "read_message (r\<lparr>r_data := (message_header m @ msg_payload m) @ rest\<rparr>) =
    Inr (m, r\<lparr>r_data := rest\<rparr>)"
  using assms
  by (cases m; cases "msg_payload m = []")
    (simp_all add: message_wf_def read_message_def codec_simps Let_def)

lemma read_message_sound:
  assumes "read_message r = Inr (m, r')"
  shows "message_wf m \<and> r_data r = (message_header m @ msg_payload m) @ r_data r' \<and>
    r' = r\<lparr>r_data := r_data r'\<rparr>"
proof -
  from assms obtain hd r1 p where 1: "read_full 12 r = Inr (hd, r1)"
    and n: "unat (get_le (slice 8 12 hd) :: u32) \<le> 4096"
    and 2: "read_full (unat (get_le (slice 8 12 hd) :: u32)) r1 = Inr (p, r')"
    and m: "m = \<lparr>msg_type = get_le (slice 0 2 hd), msg_flags = get_le (slice 2 4 hd),
      msg_request_id = get_le (slice 4 8 hd), msg_payload = p\<rparr>"
    by (auto simp: read_message_def Let_def split: if_splits sum.splits)
  from 1 have len: "length hd = 12" and r: "r_data r = hd @ r_data r1" "r1 = r\<lparr>r_data := r_data r1\<rparr>"
    by (auto dest: read_full_InrD)
  from 2 have p: "length p = unat (get_le (slice 8 12 hd) :: u32)" "r_data r1 = p @ r_data r'"
    "r' = r1\<lparr>r_data := r_data r'\<rparr>"
    by (auto dest: read_full_InrD)
  have "message_header m = hd"
    using len p(1) by (simp add: message_header_def m endian_simps slice_glue slice_all)
  moreover have "r' = r\<lparr>r_data := r_data r'\<rparr>"
    using r(2) p(3) by (cases r; cases r1; cases r') simp
  ultimately show ?thesis using n p r(1) by (simp add: message_wf_def m)
qed

interpretation msg_stream:
  stream_codec "\<lambda>m. message_header m @ msg_payload m" read_message message_wf
  by unfold_locales (simp_all only: read_message_enc, auto dest: read_message_sound)

lemma write_message_ok:
  assumes "message_wf m" "wr_room_for (12 + length (msg_payload m)) w"
  shows "write_message w m = Inr (wr_append w (message_header m @ msg_payload m))"
proof -
  have "wr_room_for (length (msg_payload m)) (wr_append w (message_header m))"
    using assms(2) by (intro wr_room_add(2)) simp
  moreover have "wr_room_for 12 w" using assms(2) by (rule wr_room_add(1))
  ultimately show ?thesis using assms(1)
    by (cases "msg_payload m = []")
      (simp_all add: write_message_def message_wf_def bw_flush_def del: wr_room_append)
qed

section \<open>Properties\<close>


fun write_messages :: "writer \<Rightarrow> message list \<Rightarrow> ctl_error + writer" where
  "write_messages w [] = Inr w"
| "write_messages w (m # ms) = (case write_message w m of Inl e \<Rightarrow> Inl e | Inr w1 \<Rightarrow> write_messages w1 ms)"

lemma write_messages_ok:
  "w_room w = None \<Longrightarrow> list_all message_wf ms \<Longrightarrow>
     write_messages w ms = Inr (wr_append w (concat (map (\<lambda>m. message_header m @ msg_payload m) ms)))"
proof (induction ms arbitrary: w)
  case Nil
  then show ?case by simp
next
  case (Cons m ms)
  have "wr_room_for n w" for n using Cons.prems by (simp add: wr_room_for_def)
  then have "write_message w m = Inr (wr_append w (message_header m @ msg_payload m))"
    using write_message_ok[of m w] Cons.prems by simp
  moreover have "w_room (wr_append w p) = None" for p using Cons.prems by (simp add: wr_append_def)
  ultimately show ?case using Cons by simp
qed

text \<open>
  The control stream delivers messages intact and in order: any list of messages within the
  payload limit, written one after the other, is what the reader takes off the stream, with the
  rest of the stream untouched; and no byte string reads as two different lists.
\<close>

theorem control_stream_roundtrip:
  assumes "list_all message_wf ms" "w_room w = None"
  shows "\<exists>w' sent. write_messages w ms = Inr w' \<and> w_out w' = w_out w @ sent \<and>
    (\<forall>r rest. read_many read_message (length ms) (r\<lparr>r_data := sent @ rest\<rparr>) =
       Inr (ms, r\<lparr>r_data := rest\<rparr>))"
  using write_messages_ok[OF assms(2,1)] msg_stream.rd_many[OF assms(1)]
  by (intro exI[of _ "concat (map (\<lambda>m. message_header m @ msg_payload m) ms)"] exI conjI) auto

theorem control_stream_roundtrip_witness:
  "\<exists>w' sent. write_messages \<lparr>w_out = [], w_room = None\<rparr>
      [\<lparr>msg_type = MsgPing, msg_flags = 0, msg_request_id = 1, msg_payload = [1, 2]\<rparr>,
       \<lparr>msg_type = MsgStreamStop, msg_flags = 0, msg_request_id = 2, msg_payload = []\<rparr>] = Inr w' \<and>
    w_out w' = [] @ sent \<and>
    (\<forall>r rest. read_many read_message (length
      [\<lparr>msg_type = MsgPing, msg_flags = 0, msg_request_id = 1, msg_payload = [1, 2]\<rparr>,
       \<lparr>msg_type = MsgStreamStop, msg_flags = 0, msg_request_id = 2, msg_payload = []\<rparr>])
      (r\<lparr>r_data := sent @ rest\<rparr>) =
       Inr ([\<lparr>msg_type = MsgPing, msg_flags = 0, msg_request_id = 1, msg_payload = [1, 2]\<rparr>,
       \<lparr>msg_type = MsgStreamStop, msg_flags = 0, msg_request_id = 2, msg_payload = []\<rparr>], r\<lparr>r_data := rest\<rparr>))"
  using control_stream_roundtrip[of
    "[\<lparr>msg_type = MsgPing, msg_flags = 0, msg_request_id = 1, msg_payload = [1, 2]\<rparr>,
      \<lparr>msg_type = MsgStreamStop, msg_flags = 0, msg_request_id = 2, msg_payload = []\<rparr>]"
    "\<lparr>w_out = [], w_room = None\<rparr>"]
  by (simp add: message_wf_def del: length_Cons)

end
