(* ===== verification/Circular.thy ===== *)
theory Circular
  imports Prelude "HOL-Library.Sublist"
begin

text \<open>
  The circular byte buffer that \<^verbatim>\<open>audio.Ring\<close> and \<^verbatim>\<open>mixer.JitterBuffer\<close> both implement: Go's
  \<^verbatim>\<open>copy\<close> into a slice, the queue a buffer holds (\<open>circ_contents\<close>), and the interface
  \<open>pcm_fifo\<close>: a bounded queue that keeps the newest bytes, hands them out in order and counts
  every byte it gives up.
\<close>

section \<open>Copying into a slice\<close>

text \<open>\<^verbatim>\<open>copy(dst[off:], src)\<close>: the new \<^verbatim>\<open>dst\<close>, and how much was copied.\<close>

definition copy_at :: "nat \<Rightarrow> 'a list \<Rightarrow> 'a list \<Rightarrow> 'a list" where
  "copy_at off dst src = take off dst @ take (length dst - off) src @ drop (off + length src) dst"

definition copied_at :: "nat \<Rightarrow> 'a list \<Rightarrow> 'a list \<Rightarrow> nat" where
  "copied_at off dst src = min (length dst - off) (length src)"

lemma length_copy_at [simp]: "off \<le> length dst \<Longrightarrow> length (copy_at off dst src) = length dst"
  by (simp add: copy_at_def)

lemma copy_at_nth:
  "j < length dst \<Longrightarrow> off \<le> length dst \<Longrightarrow>
     copy_at off dst src ! j =
       (if off \<le> j \<and> j < off + length src then src ! (j - off) else dst ! j)"
  by (auto simp: copy_at_def nth_append)

lemma copy_at_0_full: "length src \<le> length dst \<Longrightarrow> copy_at 0 dst src = src @ drop (length src) dst"
  by (simp add: copy_at_def)

section \<open>The queue in a circular buffer\<close>

definition circ_contents :: "'a list \<Rightarrow> nat \<Rightarrow> nat \<Rightarrow> 'a list" where
  "circ_contents buf rd used = map (\<lambda>i. buf ! ((rd + i) mod length buf)) [0..<used]"

definition circ_write :: "'a list \<Rightarrow> nat \<Rightarrow> nat \<Rightarrow> 'a list \<Rightarrow> 'a list" where
  "circ_write buf rd used p =
     (let w = (rd + used) mod length buf; copied = copied_at w buf p; buf1 = copy_at w buf p
      in if copied < length p then copy_at 0 buf1 (drop copied p) else buf1)"

definition circ_take :: "'a list \<Rightarrow> nat \<Rightarrow> nat \<Rightarrow> 'a list" where
  "circ_take buf rd n =
     (let first = min n (length buf - rd) in slice rd (rd + first) buf @ take (n - first) buf)"

lemma length_circ_contents [simp]: "length (circ_contents buf rd used) = used"
  by (simp add: circ_contents_def)

lemma circ_contents_0 [simp]: "circ_contents buf rd 0 = []"
  by (simp add: circ_contents_def)

lemma circ_contents_nth: "i < used \<Longrightarrow> circ_contents buf rd used ! i = buf ! ((rd + i) mod length buf)"
  by (simp add: circ_contents_def)

lemma circ_contents_drop:
  "d \<le> used \<Longrightarrow>
     circ_contents buf ((rd + d) mod length buf) (used - d) = drop d (circ_contents buf rd used)"
  by (rule nth_equalityI) (simp_all add: circ_contents_nth mod_add_left_eq add.assoc)

lemma circ_contents_take: "n \<le> used \<Longrightarrow> circ_contents buf rd n = take n (circ_contents buf rd used)"
  by (rule nth_equalityI) (simp_all add: circ_contents_nth)

lemma length_circ_write [simp]: "buf \<noteq> [] \<Longrightarrow> length (circ_write buf rd used p) = length buf"
  by (simp add: circ_write_def Let_def)

lemma wrap_index: "(a :: nat) < L \<Longrightarrow> i \<le> L \<Longrightarrow> (a + i) mod L = (if a + i < L then a + i else a + i - L)"
  by (simp add: mod_if)

lemma circ_write_nth:
  assumes "j < length buf" "w = (rd + used) mod length buf" "length p \<le> length buf"
  shows "circ_write buf rd used p ! j =
    (if w \<le> j \<and> j - w < length p then p ! (j - w)
     else if j < w \<and> j + length buf - w < length p then p ! (j + length buf - w)
     else buf ! j)"
proof -
  have w: "w < length buf" using assms(1,2) by (cases buf) auto
  show ?thesis
    unfolding circ_write_def Let_def copied_at_def assms(2)[symmetric]
    using w assms(1,3) by (auto simp: copy_at_nth min_def not_less algebra_simps)
qed

text \<open>Writing appends to the queue when there is room.\<close>

lemma circ_contents_write:
  assumes "rd < length buf" "used + length p \<le> length buf"
  shows "circ_contents (circ_write buf rd used p) rd (used + length p) = circ_contents buf rd used @ p"
proof (rule nth_equalityI)
  have ne: "buf \<noteq> []" using assms by auto
  fix i assume "i < length (circ_contents (circ_write buf rd used p) rd (used + length p))"
  then have i: "i < used + length p" by simp
  let ?L = "length buf" and ?j = "(rd + i) mod length buf" and ?w = "(rd + used) mod length buf"
  have j: "?j = (if rd + i < ?L then rd + i else rd + i - ?L)" "?j < ?L"
    and w: "?w = (if rd + used < ?L then rd + used else rd + used - ?L)"
    using assms i wrap_index[of rd ?L i] wrap_index[of rd ?L used] by (auto simp: ne)
  have "circ_write buf rd used p ! ?j = (if i < used then buf ! ?j else p ! (i - used))"
    using assms i j circ_write_nth[where rd = rd and used = used and p = p, OF j(2) refl]
    unfolding w by (auto split: if_splits)
  then show "circ_contents (circ_write buf rd used p) rd (used + length p) ! i =
      (circ_contents buf rd used @ p) ! i"
    using i by (simp add: circ_contents_nth nth_append ne)
qed simp

text \<open>Taking hands out the front of the queue.\<close>

lemma circ_take_contents:
  assumes "rd < length buf" "n \<le> length buf"
  shows "circ_take buf rd n = circ_contents buf rd n"
proof (rule nth_equalityI)
  show "length (circ_take buf rd n) = length (circ_contents buf rd n)"
    using assms by (auto simp: circ_take_def Let_def min_def)
  fix i assume "i < length (circ_take buf rd n)"
  then have i: "i < n" using assms by (auto simp: circ_take_def Let_def min_def split: if_splits)
  have j: "(i + rd) mod length buf = (if i + rd < length buf then i + rd else i + rd - length buf)"
    using assms i wrap_index[of rd "length buf" i] by (simp add: add.commute)
  show "circ_take buf rd n ! i = circ_contents buf rd n ! i"
    using assms i by (auto simp: circ_take_def Let_def circ_contents_nth j nth_append slice_def min_def add.commute)
qed

text \<open>Copying the front of the queue out in two pieces, as both buffers do.\<close>

lemma copy_twice:
  assumes "length src = f" "f \<le> k" "k \<le> length dst" "length src2 = k - f"
  shows "copied_at 0 dst src = f"
    and "(if f < k then copy_at f (copy_at 0 dst src) src2 else copy_at 0 dst src) =
      src @ src2 @ drop k dst"
  using assms by (auto simp: copied_at_def copy_at_def)

lemma circ_copy_out:
  assumes "rd < length buf" "k \<le> length buf" "k \<le> length dst"
  defines "src \<equiv> slice rd (rd + min k (length buf - rd)) buf"
  defines "c \<equiv> copied_at 0 dst src"
  shows "(if c < k then copy_at c (copy_at 0 dst src) (take (k - c) buf) else copy_at 0 dst src) =
    circ_contents buf rd k @ drop k dst"
proof -
  let ?f = "min k (length buf - rd)"
  have 1: "length src = ?f" "?f \<le> k" "length (take (k - ?f) buf) = k - ?f"
    using assms(1,2) by (auto simp: src_def min_def)
  have c: "c = ?f" unfolding c_def by (rule copy_twice(1)[OF 1(1,2) assms(3) 1(3)])
  have "circ_contents buf rd k = src @ take (k - ?f) buf"
    using circ_take_contents[OF assms(1,2)] by (simp add: circ_take_def src_def Let_def)
  then show ?thesis
    unfolding c using copy_twice(2)[OF 1(1,2) assms(3) 1(3)] by simp
qed

section \<open>The interface of a bounded queue\<close>

text \<open>
  \<open>s\<close> is the state, \<open>abs\<close> the queued bytes, \<open>lost\<close> the bytes counted as given up.  A push keeps
  exactly the newest \<open>cap\<close> bytes of the queue and the new data; a pop hands out a prefix.
\<close>

definition newest :: "nat \<Rightarrow> 'a list \<Rightarrow> 'a list" where
  "newest n xs = drop (length xs - n) xs"

lemma length_newest [simp]: "length (newest n xs) = min n (length xs)"
  by (simp add: newest_def)

lemma newest_all: "length xs \<le> n \<Longrightarrow> newest n xs = xs"
  by (simp add: newest_def)

lemma suffix_newest: "suffix (newest n xs) xs"
  by (simp add: newest_def suffix_drop)

lemma newest_newest: "newest n (newest n xs @ ys) = newest n (xs @ ys)"
  by (cases "n \<le> length xs") (auto simp: newest_def add.commute)

lemma newest_append_left: "length ys \<ge> n \<Longrightarrow> newest n (xs @ ys) = newest n ys"
  by (simp add: newest_def)

lemma newest_split: "d = length xs + length ys - n \<Longrightarrow> d \<le> length xs \<Longrightarrow>
  newest n (xs @ ys) = drop d xs @ ys"
  by (simp add: newest_def)

datatype 'a fifo_op = Push "'a list" | Pop nat

fun fifo_run :: "('a list \<Rightarrow> 's \<Rightarrow> 's) \<Rightarrow> (nat \<Rightarrow> 's \<Rightarrow> 'a list \<times> 's) \<Rightarrow> 'a fifo_op list \<Rightarrow> 's \<Rightarrow> 'a list \<times> 's"
where
  "fifo_run push pop [] s = ([], s)"
| "fifo_run push pop (Push p # ops) s = fifo_run push pop ops (push p s)"
| "fifo_run push pop (Pop n # ops) s =
     (let (out, s') = pop n s; (outs, s'') = fifo_run push pop ops s' in (out @ outs, s''))"

fun fifo_in :: "'a fifo_op list \<Rightarrow> 'a list" where
  "fifo_in [] = []"
| "fifo_in (Push p # ops) = p @ fifo_in ops"
| "fifo_in (Pop n # ops) = fifo_in ops"

fun fifo_ok :: "('a list \<Rightarrow> bool) \<Rightarrow> 'a fifo_op list \<Rightarrow> bool" where
  "fifo_ok ok [] \<longleftrightarrow> True"
| "fifo_ok ok (Push p # ops) \<longleftrightarrow> ok p \<and> fifo_ok ok ops"
| "fifo_ok ok (Pop n # ops) \<longleftrightarrow> fifo_ok ok ops"

locale pcm_fifo =
  fixes abs :: "'s \<Rightarrow> 'a list"
    and inv :: "'s \<Rightarrow> bool"
    and cap :: "'s \<Rightarrow> nat"
    and ok :: "'s \<Rightarrow> 'a list \<Rightarrow> bool"
    and push :: "'a list \<Rightarrow> 's \<Rightarrow> 's"
    and pop :: "nat \<Rightarrow> 's \<Rightarrow> 'a list \<times> 's"
    and lost :: "'s \<Rightarrow> u64"
  assumes inv_cap: "inv s \<Longrightarrow> length (abs s) \<le> cap s"
    and push_inv: "inv s \<Longrightarrow> ok s p \<Longrightarrow> inv (push p s) \<and> cap (push p s) = cap s \<and> ok (push p s) = ok s"
    and push_abs: "inv s \<Longrightarrow> ok s p \<Longrightarrow> abs (push p s) = newest (cap s) (abs s @ p)"
    and push_lost: "inv s \<Longrightarrow> ok s p \<Longrightarrow>
      lost (push p s) = lost s + word_of_nat (length (abs s @ p) - length (abs (push p s)))"
    and pop_inv: "inv s \<Longrightarrow> pop n s = (out, s') \<Longrightarrow>
      inv s' \<and> cap s' = cap s \<and> ok s' = ok s \<and> lost s' = lost s"
    and pop_abs: "inv s \<Longrightarrow> pop n s = (out, s') \<Longrightarrow> abs s = out @ abs s'"
begin

lemma push_step:
  assumes "inv s" "fifo_ok (ok s) (Push p # ops)"
  shows "ok s p" "inv (push p s)" "fifo_ok (ok (push p s)) ops" "cap (push p s) = cap s"
proof -
  show "ok s p" using assms(2) by simp
  with assms(1) have p: "inv (push p s) \<and> cap (push p s) = cap s \<and> ok (push p s) = ok s"
    by (rule push_inv)
  then show "inv (push p s)" "cap (push p s) = cap s" by blast+
  from p assms(2) show "fifo_ok (ok (push p s)) ops" by simp
qed

lemma pop_step:
  assumes "inv s" "fifo_ok (ok s) (Pop n # ops)" "fifo_run push pop (Pop n # ops) s = (out, s')"
  obtains o1 s1 o2 where "pop n s = (o1, s1)" "fifo_run push pop ops s1 = (o2, s')" "out = o1 @ o2"
    "inv s1" "fifo_ok (ok s1) ops" "cap s1 = cap s" "lost s1 = lost s" "abs s = o1 @ abs s1"
proof -
  from assms(3) obtain o1 s1 o2 where 1: "pop n s = (o1, s1)" and 2: "fifo_run push pop ops s1 = (o2, s')"
    and 3: "out = o1 @ o2"
    by (auto simp: Let_def split: prod.splits)
  from pop_inv[OF assms(1) 1] have i: "inv s1" "cap s1 = cap s" "lost s1 = lost s" "ok s1 = ok s"
    by blast+
  have "fifo_ok (ok s1) ops" using assms(2) i(4) by simp
  with 1 2 3 i pop_abs[OF assms(1) 1] show thesis by (intro that) auto
qed

lemma run_inv:
  "inv s \<Longrightarrow> fifo_ok (ok s) ops \<Longrightarrow> fifo_run push pop ops s = (out, s') \<Longrightarrow> inv s' \<and> cap s' = cap s"
proof (induction ops arbitrary: s out)
  case Nil
  then show ?case by simp
next
  case (Cons a ops)
  show ?case
  proof (cases a)
    case (Push p)
    note st = push_step[OF Cons.prems(1) Cons.prems(2)[unfolded Push]]
    show ?thesis using Cons.IH[OF st(2,3), of out] Cons.prems(3) st(4) Push by simp
  next
    case (Pop n)
    from Cons.prems Pop obtain o1 s1 o2 where "fifo_run push pop ops s1 = (o2, s')" "inv s1" "fifo_ok (ok s1) ops"
      "cap s1 = cap s"
      by (elim pop_step[of s n ops out s']) auto
    then show ?thesis using Cons.IH[of s1 o2] by simp
  qed
qed

text \<open>The output followed by what is still queued is the input with some bytes left out, in order.\<close>

lemma run_order:
  "inv s \<Longrightarrow> fifo_ok (ok s) ops \<Longrightarrow> fifo_run push pop ops s = (out, s') \<Longrightarrow>
     subseq (out @ abs s') (abs s @ fifo_in ops)"
proof (induction ops arbitrary: s out)
  case Nil
  then show ?case by simp
next
  case (Cons a ops)
  show ?case
  proof (cases a)
    case (Push p)
    note st = push_step[OF Cons.prems(1) Cons.prems(2)[unfolded Push]]
    have "subseq (out @ abs s') (abs (push p s) @ fifo_in ops)"
      using Cons.IH[OF st(2,3), of out] Cons.prems(3) Push by simp
    moreover have "subseq (abs (push p s)) (abs s @ p)"
      unfolding push_abs[OF Cons.prems(1) st(1)] by (rule suffix_imp_subseq[OF suffix_newest])
    then have "subseq (abs (push p s) @ fifo_in ops) ((abs s @ p) @ fifo_in ops)"
      by (rule list_emb_append_mono) simp
    ultimately have "subseq (out @ abs s') ((abs s @ p) @ fifo_in ops)"
      by (rule subseq_order.order_trans)
    then show ?thesis by (simp add: Push)
  next
    case (Pop n)
    from Cons.prems Pop obtain o1 s1 o2 where "fifo_run push pop ops s1 = (o2, s')" "inv s1" "fifo_ok (ok s1) ops"
      and o: "out = o1 @ o2" "abs s = o1 @ abs s1"
      by (elim pop_step[of s n ops out s']) auto
    then have "subseq (o2 @ abs s') (abs s1 @ fifo_in ops)" using Cons.IH[of s1 o2] by simp
    then show ?thesis by (simp add: o Pop subseq_append')
  qed
qed

text \<open>Every byte is handed out, still queued, or counted as lost.\<close>

lemma run_conservation:
  "inv s \<Longrightarrow> fifo_ok (ok s) ops \<Longrightarrow> fifo_run push pop ops s = (out, s') \<Longrightarrow>
     lost s' + word_of_nat (length out + length (abs s')) =
       lost s + word_of_nat (length (abs s) + length (fifo_in ops))"
proof (induction ops arbitrary: s out)
  case Nil
  then show ?case by simp
next
  case (Cons a ops)
  show ?case
  proof (cases a)
    case (Push p)
    note st = push_step[OF Cons.prems(1) Cons.prems(2)[unfolded Push]]
    have "lost s' + word_of_nat (length out + length (abs s')) =
        lost (push p s) + word_of_nat (length (abs (push p s)) + length (fifo_in ops))"
      using Cons.IH[OF st(2,3), of out] Cons.prems(3) Push by simp
    moreover have "length (abs (push p s)) \<le> length (abs s @ p)"
      unfolding push_abs[OF Cons.prems(1) st(1)] by simp
    ultimately show ?thesis
      unfolding push_lost[OF Cons.prems(1) st(1)] by (simp add: of_nat_diff Push)
  next
    case (Pop n)
    from Cons.prems Pop obtain o1 s1 o2 where "fifo_run push pop ops s1 = (o2, s')" "inv s1" "fifo_ok (ok s1) ops"
      and o: "out = o1 @ o2" "abs s = o1 @ abs s1" "lost s1 = lost s"
      by (elim pop_step[of s n ops out s']) auto
    then have "lost s' + word_of_nat (length o2 + length (abs s')) =
      lost s + word_of_nat (length (abs s1) + length (fifo_in ops))"
      using Cons.IH[of s1 o2] by simp
    then show ?thesis by (simp add: o Pop algebra_simps)
  qed
qed

end

end
