(* ===== verification/GoInt.thy ===== *)
theory GoInt
  imports Prelude "HOL-Library.Signed_Division"
begin

text \<open>
  Go's \<^verbatim>\<open>int\<close> on the program's 64-bit targets: two's-complement wrap-around written out, division
  and remainder truncating towards zero (\<open>sdiv\<close>, \<open>smod\<close>), and the decimal text of a number as
  \<^verbatim>\<open>fmt\<close> prints it and \<^verbatim>\<open>strconv\<close> reads it.
\<close>

definition wrap64 :: "int \<Rightarrow> int" where
  "wrap64 x = signed_take_bit 63 x"

lemma wrap64_id: "- (2 ^ 63) \<le> x \<Longrightarrow> x < 2 ^ 63 \<Longrightarrow> wrap64 x = x"
  by (simp add: wrap64_def signed_take_bit_int_eq_self)

lemma wrap64_range: "- (2 ^ 63) \<le> wrap64 x" "wrap64 x < 2 ^ 63"
  using signed_take_bit_int_greater_eq_minus_exp[of 63 x] signed_take_bit_int_less_exp[of 63 x]
  by (simp_all add: wrap64_def)

lemma smod_pos [simp]: "0 \<le> a \<Longrightarrow> 0 < b \<Longrightarrow> a smod b = a mod (b :: int)"
  by (simp add: signed_modulo_int_def sgn_if)

lemma sdiv_pos [simp]: "0 \<le> a \<Longrightarrow> 0 < b \<Longrightarrow> a sdiv b = a div (b :: int)"
  by (simp add: signed_divide_int_def sgn_if)

section \<open>Decimal text\<close>

fun show_nat :: "nat \<Rightarrow> string" where
  "show_nat n = (if n < 10 then [char_of (48 + n)] else show_nat (n div 10) @ [char_of (48 + n mod 10)])"

declare show_nat.simps [simp del]

definition is_digit :: "char \<Rightarrow> bool" where
  "is_digit c \<longleftrightarrow> 48 \<le> (of_char c :: nat) \<and> (of_char c :: nat) \<le> 57"

definition digits_val :: "nat \<Rightarrow> string \<Rightarrow> nat" where
  "digits_val = foldl (\<lambda>v c. 10 * v + (of_char c - 48))"

definition read_nat :: "string \<Rightarrow> nat option" where
  "read_nat s = (if s \<noteq> [] \<and> list_all is_digit s then Some (digits_val 0 s) else None)"

lemma digits_val_append [simp]: "digits_val v (s @ t) = digits_val (digits_val v s) t"
  by (simp add: digits_val_def)

lemma of_char_digit: "k < 10 \<Longrightarrow> of_char (char_of (48 + k) :: char) = 48 + (k :: nat)"
  by simp

lemma show_nat_ne: "show_nat n \<noteq> []"
  by (subst show_nat.simps) simp

lemma is_digit_char: "k < 10 \<Longrightarrow> is_digit (char_of (48 + k :: nat))"
  by (simp add: is_digit_def)

lemma is_digit_show: "list_all is_digit (show_nat n)"
proof (induction n rule: show_nat.induct)
  case (1 n)
  then show ?case
    by (subst show_nat.simps) (simp add: is_digit_char)
qed

lemma digits_val_show: "digits_val 0 (show_nat n) = n"
proof (induction n rule: show_nat.induct)
  case (1 n)
  show ?case
  proof (cases "n < 10")
    case True
    then show ?thesis by (subst show_nat.simps) (simp add: digits_val_def)
  next
    case False
    then show ?thesis using 1 by (subst show_nat.simps) (simp, simp add: digits_val_def)
  qed
qed

lemma read_show_nat: "read_nat (show_nat n) = Some n"
  by (simp add: read_nat_def is_digit_show show_nat_ne digits_val_show)

section \<open>Text and bytes\<close>

definition str_of_bytes :: "bytes \<Rightarrow> string" where
  "str_of_bytes b = map (\<lambda>x. char_of (unat x)) b"

definition bytes_of_str :: "string \<Rightarrow> bytes" where
  "bytes_of_str s = map (\<lambda>c. word_of_nat (of_char c)) s"

lemma bytes_of_str_of_bytes [simp]: "bytes_of_str (str_of_bytes b) = b"
proof -
  have "unat x mod 256 = unat x" for x :: byte using unat_bounds(1)[of x] by simp
  then show ?thesis by (simp add: bytes_of_str_def str_of_bytes_def comp_def map_idI)
qed

lemma str_of_bytes_of_str [simp]: "str_of_bytes (bytes_of_str s) = s"
proof -
  have "(of_char c :: nat) < 256" for c by simp
  then show ?thesis
    by (simp add: bytes_of_str_def str_of_bytes_def comp_def map_idI)
qed

end
