(* ===== verification/AudioRing.thy ===== *)
theory AudioRing
  imports Circular GoInt
begin

text \<open>
  The hand-off ring between an audio callback and its consumer: \<^verbatim>\<open>engine/internal/audio/ring.go\<close>.
  A flag \<open>contended\<close> says whether \<^verbatim>\<open>TryLock\<close> finds the mutex taken.  \<^verbatim>\<open>dropped\<close> is an
  \<^verbatim>\<open>atomic.Uint64\<close>.
\<close>

record ring =
  rg_buf :: bytes
  rg_quantum :: nat
  rg_read :: nat
  rg_used :: nat
  rg_dropped :: u64

definition new_ring :: "int \<Rightarrow> int \<Rightarrow> ring" where
  "new_ring sizeBytes0 quantum0 =
     (let quantum = (if quantum0 \<le> 0 then 1 else quantum0);
          size1 = (if sizeBytes0 < quantum then quantum else sizeBytes0);
          size2 = size1 - size1 smod quantum;
          size3 = (if size2 = 0 then quantum else size2)
      in \<lparr>rg_buf = replicate (nat size3) 0, rg_quantum = nat quantum, rg_read = 0, rg_used = 0,
          rg_dropped = 0\<rparr>)"

definition aligned_len :: "ring \<Rightarrow> nat \<Rightarrow> nat" where
  "aligned_len r n = n - n mod rg_quantum r"

definition align_up :: "nat \<Rightarrow> nat \<Rightarrow> nat" where
  "align_up n quantum =
     (if n \<le> 0 then 0
      else let rem = n mod quantum in if rem = 0 then n else n + quantum - rem)"

definition ring_drop :: "nat \<Rightarrow> ring \<Rightarrow> ring" where
  "ring_drop n r = r\<lparr>rg_dropped := rg_dropped r + word_of_nat n\<rparr>"

text \<open>\<^verbatim>\<open>writeLocked\<close> makes room by dropping the oldest bytes and then copies in at most two pieces.\<close>

definition ring_make_room :: "nat \<Rightarrow> ring \<Rightarrow> ring" where
  "ring_make_room len r =
     (let space = length (rg_buf r) - rg_used r in
      if len > space
      then let drop1 = align_up (len - space) (rg_quantum r);
               drop2 = (if drop1 > rg_used r then rg_used r else drop1)
           in ring_drop drop2
                (r\<lparr>rg_read := (rg_read r + drop2) mod length (rg_buf r), rg_used := rg_used r - drop2\<rparr>)
      else r)"

definition ring_put :: "bytes \<Rightarrow> ring \<Rightarrow> ring" where
  "ring_put p r =
     (let write = (rg_read r + rg_used r) mod length (rg_buf r);
          copied = copied_at write (rg_buf r) p;
          buf1 = copy_at write (rg_buf r) p;
          buf2 = (if copied < length p then copy_at 0 buf1 (drop copied p) else buf1)
      in r\<lparr>rg_buf := buf2, rg_used := rg_used r + length p\<rparr>)"

definition ring_write_locked :: "bytes \<Rightarrow> ring \<Rightarrow> nat \<times> ring" where
  "ring_write_locked p0 r0 =
     (let n = aligned_len r0 (length p0) in
      if n = 0 then (0, ring_drop (length p0) r0)
      else
        let (p1, r1) = (if n \<noteq> length p0 then (take n p0, ring_drop (length p0 - n) r0) else (p0, r0));
            (p, r2) = (if length p1 > length (rg_buf r1)
                       then let drp = length p1 - length (rg_buf r1) in (drop drp p1, ring_drop drp r1)
                       else (p1, r1))
        in (length p, ring_put p (ring_make_room (length p) r2)))"

definition ring_read_locked :: "bytes \<Rightarrow> ring \<Rightarrow> nat \<times> bytes \<times> ring" where
  "ring_read_locked dst r =
     (let n0 = aligned_len r (length dst);
          n1 = (if n0 > rg_used r then rg_used r else n0);
          n = aligned_len r n1
      in if n = 0 then (0, dst, r)
         else let first = min n (length (rg_buf r) - rg_read r);
                  src = slice (rg_read r) (rg_read r + first) (rg_buf r);
                  copied = copied_at 0 dst src;
                  dst1 = copy_at 0 dst src;
                  dst2 = (if copied < n then copy_at copied dst1 (take (n - copied) (rg_buf r)) else dst1)
         in (n, dst2, r\<lparr>rg_read := (rg_read r + n) mod length (rg_buf r), rg_used := rg_used r - n\<rparr>))"

definition ring_try_write :: "bool \<Rightarrow> bytes \<Rightarrow> ring \<Rightarrow> nat \<times> ring" where
  "ring_try_write contended p r =
     (if length p = 0 then (0, r)
      else if contended then (0, ring_drop (aligned_len r (length p)) r)
      else ring_write_locked p r)"

definition ring_read :: "bytes \<Rightarrow> ring \<Rightarrow> nat \<times> bytes \<times> ring" where
  "ring_read dst r = (if length dst = 0 then (0, dst, r) else ring_read_locked dst r)"

definition ring_try_read :: "bool \<Rightarrow> bytes \<Rightarrow> ring \<Rightarrow> nat \<times> bytes \<times> ring" where
  "ring_try_read contended dst r =
     (if length dst = 0 then (0, dst, r)
      else if contended then (0, dst, r)
      else ring_read_locked dst r)"

definition ring_available :: "ring \<Rightarrow> nat" where
  "ring_available r = rg_used r"

section \<open>The ring is a bounded queue\<close>

definition ring_inv :: "ring \<Rightarrow> bool" where
  "ring_inv r \<longleftrightarrow> 0 < rg_quantum r \<and> rg_buf r \<noteq> [] \<and> rg_quantum r dvd length (rg_buf r) \<and>
     rg_quantum r dvd rg_used r \<and> rg_used r \<le> length (rg_buf r) \<and> rg_read r < length (rg_buf r)"

definition ring_abs :: "ring \<Rightarrow> bytes" where
  "ring_abs r = circ_contents (rg_buf r) (rg_read r) (rg_used r)"

definition ring_ok :: "ring \<Rightarrow> bytes \<Rightarrow> bool" where
  "ring_ok r p \<longleftrightarrow> rg_quantum r dvd length p"

lemma new_ring_inv:
  assumes "0 \<le> sz" 
  shows "ring_inv (new_ring sz q)" "ring_abs (new_ring sz q) = []"
proof -
  let ?q = "if q \<le> 0 then 1 else q"
  let ?s = "if sz < ?q then ?q else sz"
  have q: "0 < ?q" and s: "?q \<le> ?s" by auto
  have m: "?s smod ?q = ?s mod ?q" using q s by simp
  have d: "?q dvd ?s - ?s mod ?q" by (simp add: minus_mod_eq_div_mult)
  have "?s mod ?q < ?q" using q by simp
  with s have pos: "0 < ?s - ?s mod ?q" by linarith
  have "nat ?q dvd nat (?s - ?s mod ?q)" using d q by (simp add: nat_dvd_iff)
  with q pos m show "ring_inv (new_ring sz q)"
    by (simp add: ring_inv_def new_ring_def Let_def split del: if_split)
  show "ring_abs (new_ring sz q) = []" by (simp add: ring_abs_def new_ring_def Let_def)
qed

lemma aligned_len_id: "rg_quantum r dvd n \<Longrightarrow> aligned_len r n = n"
  by (simp add: aligned_len_def)

lemma aligned_len_dvd: "rg_quantum r dvd aligned_len r n"
  by (simp add: aligned_len_def minus_mod_eq_div_mult)

lemma aligned_len_le: "aligned_len r n \<le> n"
  by (simp add: aligned_len_def)

lemma align_up_id: "q dvd n \<Longrightarrow> align_up n q = n"
  by (simp add: align_up_def)

lemma ring_put_eq:
  "ring_put p r = r\<lparr>rg_buf := circ_write (rg_buf r) (rg_read r) (rg_used r) p,
     rg_used := rg_used r + length p\<rparr>"
  by (simp add: ring_put_def circ_write_def Let_def)

lemma ring_drop_simps [simp]:
  "rg_buf (ring_drop n r) = rg_buf r" "rg_quantum (ring_drop n r) = rg_quantum r"
  "rg_read (ring_drop n r) = rg_read r" "rg_used (ring_drop n r) = rg_used r"
  "rg_dropped (ring_drop n r) = rg_dropped r + word_of_nat n"
  "ring_inv (ring_drop n r) = ring_inv r" "ring_abs (ring_drop n r) = ring_abs r"
  by (simp_all add: ring_drop_def ring_inv_def ring_abs_def)

lemma ring_drop_0 [simp]: "ring_drop 0 r = r"
  by (simp add: ring_drop_def)

text \<open>Making room for aligned data gives up exactly the oldest bytes that do not fit.\<close>

lemma ring_make_room:
  assumes inv: "ring_inv r" and len: "rg_quantum r dvd len" "len \<le> length (rg_buf r)"
  defines "d \<equiv> rg_used r + len - length (rg_buf r)"
  shows "ring_make_room len r =
      ring_drop d (r\<lparr>rg_read := (rg_read r + d) mod length (rg_buf r), rg_used := rg_used r - d\<rparr>)"
    and "rg_quantum r dvd d" "d \<le> rg_used r"
proof -
  let ?L = "length (rg_buf r)" and ?q = "rg_quantum r"
  have q: "?q dvd ?L" "?q dvd rg_used r" "rg_used r \<le> ?L" "rg_read r < ?L"
    using inv by (auto simp: ring_inv_def)
  have d: "len - (?L - rg_used r) = d" using q by (simp add: d_def)
  show "?q dvd d" unfolding d_def using q len by (intro dvd_diff_nat dvd_add)
  then have al: "align_up d ?q = d" by (rule align_up_id)
  show "d \<le> rg_used r" using len by (simp add: d_def)
  then show "ring_make_room len r =
      ring_drop d (r\<lparr>rg_read := (rg_read r + d) mod ?L, rg_used := rg_used r - d\<rparr>)"
    using q d al by (cases "d = 0") (auto simp: ring_make_room_def Let_def ring_drop_def)
qed

lemma ring_fill:
  assumes inv: "ring_inv r" and len: "rg_quantum r dvd length p" "length p \<le> length (rg_buf r)"
  defines "r' \<equiv> ring_put p (ring_make_room (length p) r)"
  shows "ring_inv r'" "rg_quantum r' = rg_quantum r" "length (rg_buf r') = length (rg_buf r)"
    and "ring_abs r' = newest (length (rg_buf r)) (ring_abs r @ p)"
    and "rg_dropped r' = rg_dropped r + word_of_nat (rg_used r + length p - length (rg_buf r))"
proof -
  let ?L = "length (rg_buf r)" and ?q = "rg_quantum r"
  define d where "d = rg_used r + length p - ?L"
  define rd where "rd = (rg_read r + d) mod ?L"
  note room = ring_make_room[OF inv len, folded d_def]
  have q: "?q dvd ?L" "?q dvd rg_used r" "rg_used r \<le> ?L" "rg_read r < ?L" "0 < ?q" "rg_buf r \<noteq> []"
    using inv by (auto simp: ring_inv_def)
  then have rd: "rd < ?L" by (simp add: rd_def)
  have fit: "rg_used r - d + length p \<le> ?L" using q len by (simp add: d_def)
  have r': "r' = \<lparr>rg_buf = circ_write (rg_buf r) rd (rg_used r - d) p, rg_quantum = ?q, rg_read = rd,
     rg_used = rg_used r - d + length p, rg_dropped = rg_dropped r + word_of_nat d\<rparr>"
    by (simp add: r'_def room(1) ring_put_eq ring_drop_def rd_def)
  show "rg_quantum r' = ?q" "length (rg_buf r') = ?L" using q by (simp_all add: r')
  have "?q dvd rg_used r - d + length p" using q room len by (intro dvd_add dvd_diff_nat)
  then show "ring_inv r'" using q rd fit by (simp add: ring_inv_def r' flip: length_0_conv)
  show "rg_dropped r' = rg_dropped r + word_of_nat (rg_used r + length p - ?L)"
    by (simp add: r' d_def)
  have "ring_abs r' = drop d (ring_abs r) @ p"
    using circ_contents_write[OF rd fit] room(3)
    by (simp add: r' ring_abs_def rd_def circ_contents_drop)
  also have "\<dots> = newest ?L (ring_abs r @ p)"
    using room(3) by (subst newest_split[of d]) (simp_all add: d_def ring_abs_def)
  finally show "ring_abs r' = newest ?L (ring_abs r @ p)" .
qed

text \<open>An aligned write keeps the newest bytes and counts what it pushes out.\<close>

lemma ring_write_aligned:
  assumes inv: "ring_inv r" and ok: "ring_ok r p" and ne: "p \<noteq> []"
  defines "r' \<equiv> snd (ring_write_locked p r)"
  shows "ring_inv r'" "rg_quantum r' = rg_quantum r" "length (rg_buf r') = length (rg_buf r)"
    and "ring_abs r' = newest (length (rg_buf r)) (ring_abs r @ p)"
    and "rg_dropped r' = rg_dropped r + word_of_nat (rg_used r + length p - length (rg_buf r))"
proof -
  let ?L = "length (rg_buf r)"
  have q: "rg_quantum r dvd length p" "rg_quantum r dvd ?L" "rg_used r \<le> ?L"
    using inv ok by (auto simp: ring_inv_def ring_ok_def)
  define k where "k = length p - ?L"
  have r': "r' = ring_put (drop k p) (ring_make_room (length (drop k p)) (ring_drop k r))"
    using ne aligned_len_id[OF q(1)]
    by (cases "?L < length p") (simp_all add: r'_def ring_write_locked_def k_def Let_def ring_drop_def)
  have pre: "ring_inv (ring_drop k r)" "rg_quantum (ring_drop k r) dvd length (drop k p)"
    "length (drop k p) \<le> length (rg_buf (ring_drop k r))"
    using q inv by (auto simp: k_def)
  note fill = ring_fill[OF pre, folded r']
  show "ring_inv r'" "rg_quantum r' = rg_quantum r" "length (rg_buf r') = ?L"
    using fill by simp_all
  have "newest ?L (ring_abs r @ drop k p) = newest ?L (ring_abs r @ p)"
    by (cases "?L \<le> length p") (simp_all add: k_def newest_def)
  then show "ring_abs r' = newest ?L (ring_abs r @ p)" using fill by simp
  have k: "k + (rg_used r + length (drop k p) - ?L) = rg_used r + length p - ?L"
    using q by (auto simp: k_def)
  have "rg_dropped r' = rg_dropped r + word_of_nat (k + (rg_used r + length (drop k p) - ?L))"
    using fill(5) by (simp only: ring_drop_simps of_nat_add add.assoc)
  then show "rg_dropped r' = rg_dropped r + word_of_nat (rg_used r + length p - ?L)"
    unfolding k .
qed

text \<open>An unaligned tail is cut off and counted; the aligned part is written as above.\<close>

lemma ring_write_unaligned:
  assumes "rg_quantum r \<le> length p" "0 < rg_quantum r"
  shows "ring_write_locked p r =
    ring_write_locked (take (aligned_len r (length p)) p)
      (ring_drop (length p - aligned_len r (length p)) r)"
proof -
  let ?n = "aligned_len r (length p)"
  have "?n \<noteq> 0"
  proof
    assume "?n = 0"
    then have "length p \<le> length p mod rg_quantum r" by (simp add: aligned_len_def)
    then show False using assms by (metis leD le_less_trans mod_less_divisor)
  qed
  moreover have "aligned_len (ring_drop k r) ?n = ?n" for k
    using aligned_len_dvd[of r "length p"] by (intro aligned_len_id) simp
  moreover have "ring_drop 0 r = r" by (simp add: ring_drop_def)
  moreover have "length (take ?n p) = ?n" using aligned_len_le[of r "length p"] by simp
  ultimately show ?thesis
    by (cases "?n = length p") (simp_all add: ring_write_locked_def Let_def)
qed

lemma ring_read_uncontended:
  assumes inv: "ring_inv r" and len: "length dst = n"
  defines "k \<equiv> min (aligned_len r n) (rg_used r)"
  shows "ring_read_locked dst r =
    (k, take k (ring_abs r) @ drop k dst,
     r\<lparr>rg_read := (rg_read r + k) mod length (rg_buf r), rg_used := rg_used r - k\<rparr>)"
    and "rg_quantum r dvd k" "k \<le> rg_used r" "k \<le> n"
proof -
  have q: "rg_quantum r dvd rg_used r" "rg_used r \<le> length (rg_buf r)"
    "rg_read r < length (rg_buf r)"
    using inv by (auto simp: ring_inv_def)
  show kq: "rg_quantum r dvd k" using q aligned_len_dvd[of r n] by (auto simp: k_def min_def)
  show ku: "k \<le> rg_used r" by (simp add: k_def)
  show kn: "k \<le> n" using aligned_len_le[of r n] by (simp add: k_def)
  have k: "aligned_len r (if aligned_len r n > rg_used r then rg_used r else aligned_len r n) = k"
    using aligned_len_id[OF kq] by (auto simp: k_def min_def)
  have kb: "k \<le> length (rg_buf r)" using ku q by simp
  note out = circ_copy_out[OF q(3) kb kn[folded len]]
  have "circ_contents (rg_buf r) (rg_read r) k = take k (ring_abs r)"
    using ku by (simp add: ring_abs_def circ_contents_take)
  then show "ring_read_locked dst r =
    (k, take k (ring_abs r) @ drop k dst,
     r\<lparr>rg_read := (rg_read r + k) mod length (rg_buf r), rg_used := rg_used r - k\<rparr>)"
    using q(3) unfolding ring_read_locked_def Let_def len k out
    by (cases "k = 0") simp_all
qed

definition ring_pop :: "nat \<Rightarrow> ring \<Rightarrow> bytes \<times> ring" where
  "ring_pop n r = (let (k, dst, r') = ring_read (replicate n 0) r in (take k dst, r'))"

definition ring_push :: "bytes \<Rightarrow> ring \<Rightarrow> ring" where
  "ring_push p r = snd (ring_try_write False p r)"

lemma ring_pop_eq:
  assumes "ring_inv r"
  obtains k where "ring_pop n r = (take k (ring_abs r),
    r\<lparr>rg_read := (rg_read r + k) mod length (rg_buf r), rg_used := rg_used r - k\<rparr>)"
    "rg_quantum r dvd k" "k \<le> rg_used r"
proof (cases "n = 0")
  case True
  have "rg_read r mod length (rg_buf r) = rg_read r" using assms by (simp add: ring_inv_def)
  with True show thesis by (intro that[of 0]) (simp_all add: ring_pop_def ring_read_def)
next
  case False
  note rd = ring_read_uncontended[OF assms length_replicate[of n 0]]
  define k where "k = min (aligned_len r n) (rg_used r)"
  have "length (ring_abs r) = rg_used r" by (simp add: ring_abs_def)
  then have "ring_pop n r = (take k (ring_abs r),
    r\<lparr>rg_read := (rg_read r + k) mod length (rg_buf r), rg_used := rg_used r - k\<rparr>)"
    using False rd(1) unfolding k_def by (simp add: ring_pop_def ring_read_def)
  with rd(2,3) show thesis by (intro that[of k]) (simp_all add: k_def)
qed

interpretation ring_fifo: pcm_fifo ring_abs ring_inv "\<lambda>r. length (rg_buf r)" ring_ok ring_push ring_pop
  rg_dropped
proof unfold_locales
  fix r :: ring assume "ring_inv r"
  then show "length (ring_abs r) \<le> length (rg_buf r)" by (simp add: ring_inv_def ring_abs_def)
next
  fix r p assume 1: "ring_inv r" "ring_ok r p"
  have c: "p = [] \<Longrightarrow> ring_push p r = r" "p \<noteq> [] \<Longrightarrow> ring_push p r = snd (ring_write_locked p r)"
    by (simp_all add: ring_push_def ring_try_write_def)
  have le: "length (ring_abs r) = rg_used r" "rg_used r \<le> length (rg_buf r)"
    using 1 by (simp_all add: ring_abs_def ring_inv_def)
  show "ring_inv (ring_push p r) \<and> length (rg_buf (ring_push p r)) = length (rg_buf r) \<and>
      ring_ok (ring_push p r) = ring_ok r"
    using 1 c ring_write_aligned[OF 1] by (cases "p = []") (simp_all add: ring_ok_def fun_eq_iff)
  show a: "ring_abs (ring_push p r) = newest (length (rg_buf r)) (ring_abs r @ p)"
    using 1 c ring_write_aligned[OF 1] le by (cases "p = []") (simp_all add: newest_all)
  show "rg_dropped (ring_push p r) =
      rg_dropped r + word_of_nat (length (ring_abs r @ p) - length (ring_abs (ring_push p r)))"
    unfolding a using c ring_write_aligned[OF 1] le by (cases "p = []") (simp_all add: min_def)
next
  fix r n out r' assume 1: "ring_inv r" "ring_pop n r = (out, r')"
  obtain k where k: "ring_pop n r = (take k (ring_abs r),
    r\<lparr>rg_read := (rg_read r + k) mod length (rg_buf r), rg_used := rg_used r - k\<rparr>)"
    "rg_quantum r dvd k" "k \<le> rg_used r"
    using ring_pop_eq[OF 1(1)] .
  have r': "out = take k (ring_abs r)"
    "r' = r\<lparr>rg_read := (rg_read r + k) mod length (rg_buf r), rg_used := rg_used r - k\<rparr>"
    using 1(2) k(1) by simp_all
  show "ring_inv r' \<and> length (rg_buf r') = length (rg_buf r) \<and> ring_ok r' = ring_ok r \<and>
      rg_dropped r' = rg_dropped r"
    using 1 k by (auto simp: r' ring_inv_def ring_ok_def fun_eq_iff dvd_diff_nat)
  have "ring_abs r' = drop k (ring_abs r)"
    using k(3) by (simp add: r' ring_abs_def circ_contents_drop)
  then show "ring_abs r = out @ ring_abs r'" by (simp add: r')
qed

section \<open>Properties\<close>

lemma ring_read_splits:
  assumes "ring_inv r"
  shows "\<exists>n dst1 r1. ring_read dst r = (n, dst1, r1) \<and> ring_inv r1 \<and> rg_quantum r1 = rg_quantum r \<and>
    take n dst1 @ ring_abs r1 = ring_abs r \<and> n = min (aligned_len r (length dst)) (rg_used r) \<and>
    dst1 = take n (ring_abs r) @ drop n dst \<and> ring_abs r1 = drop n (ring_abs r)"
proof (cases "dst = []")
  case True
  then show ?thesis using assms by (simp add: ring_read_def aligned_len_def)
next
  case False
  define k where "k = min (aligned_len r (length dst)) (rg_used r)"
  let ?r = "r\<lparr>rg_read := (rg_read r + k) mod length (rg_buf r), rg_used := rg_used r - k\<rparr>"
  note u = ring_read_uncontended[OF assms refl, of dst, folded k_def]
  have len: "rg_read r < length (rg_buf r)" "rg_used r \<le> length (rg_buf r)" "rg_buf r \<noteq> []" using assms by (auto simp: ring_inv_def)
  have inv: "ring_inv ?r" using assms u(2,3) by (auto simp: ring_inv_def intro!: dvd_diff_nat)
  have kl: "k \<le> length (ring_abs r)" using u(3) len by (simp add: ring_abs_def)
  have a: "ring_abs ?r = drop k (ring_abs r)" using u(3) len by (simp add: ring_abs_def circ_contents_drop)
  then have "take k (take k (ring_abs r) @ drop k dst) @ ring_abs ?r = ring_abs r" using kl by simp
  then show ?thesis using u(1) inv False a by (simp add: ring_read_def flip: k_def)
qed

lemma ring_try_write_keeps:
  assumes "ring_inv r" "ring_ok r p"
  shows "ring_inv (snd (ring_try_write c p r))" "rg_quantum (snd (ring_try_write c p r)) = rg_quantum r"
  using assms ring_write_aligned(1,2)[OF assms] by (auto simp: ring_try_write_def)


definition demo_ops :: "byte fifo_op list" where
  "demo_ops = [Push [1, 2, 3, 4], Pop 2, Push [5, 6, 7, 8]]"


text \<open>
  A write of whole frames leaves exactly the newest bytes that fit in the ring, and counts what
  it pushed out; a write that finds the lock taken changes nothing but the counter; a read hands
  out the oldest bytes.
\<close>

theorem ring_write_read:
  assumes "ring_inv r" "ring_ok r p"
  shows "ring_abs (snd (ring_try_write False p r)) = newest (length (rg_buf r)) (ring_abs r @ p) \<and>
    snd (ring_try_write True p r) = r\<lparr>rg_dropped := rg_dropped r + word_of_nat (length p)\<rparr> \<and>
    (\<exists>k. fst (snd (ring_read dst r)) = take k (ring_abs r) @ drop k dst \<and>
      ring_abs (snd (snd (ring_read dst r))) = drop k (ring_abs r) \<and> k \<le> length dst)"
proof (intro conjI)
  show "ring_abs (snd (ring_try_write False p r)) = newest (length (rg_buf r)) (ring_abs r @ p)"
    using ring_fifo.push_abs[OF assms] by (simp add: ring_push_def)
  show "snd (ring_try_write True p r) = r\<lparr>rg_dropped := rg_dropped r + word_of_nat (length p)\<rparr>"
    using assms(2) by (cases "p = []") (simp_all add: ring_try_write_def ring_drop_def ring_ok_def aligned_len_id)
  show "\<exists>k. fst (snd (ring_read dst r)) = take k (ring_abs r) @ drop k dst \<and>
      ring_abs (snd (snd (ring_read dst r))) = drop k (ring_abs r) \<and> k \<le> length dst"
  proof (cases "dst = []")
    case True
    then show ?thesis by (intro exI[of _ 0]) (simp add: ring_read_def)
  next
    case False
    note rd = ring_read_uncontended[OF assms(1) refl, of dst]
    show ?thesis
      using False rd by (intro exI[of _ "min (aligned_len r (length dst)) (rg_used r)"])
        (simp add: ring_read_def ring_abs_def circ_contents_drop)
  qed
qed

theorem ring_write_read_witness:
  "ring_abs (snd (ring_try_write False [1, 2, 3, 4] (new_ring 4 2))) = [1, 2, 3, 4]"
proof -
  have "ring_ok (new_ring 4 2) [1, 2, 3, 4]" by (simp add: ring_ok_def new_ring_def)
  moreover have "length (rg_buf (new_ring 4 2)) = 4" by (simp add: new_ring_def)
  ultimately show ?thesis
    using ring_write_read[of "new_ring 4 2" "[1, 2, 3, 4]"] by (simp add: new_ring_inv newest_all)
qed

end
