(* ===== verification/AudioFormat.thy ===== *)
theory AudioFormat
  imports GoInt
begin

text \<open>The interleaved PCM format: \<^verbatim>\<open>engine/internal/audio/format.go\<close>.\<close>

record format =
  f_rate :: int
  f_channels :: int
  f_frame_samples :: int

datatype format_error =
    RateNotPositive int
  | ChannelsNotPositive int
  | FrameMillisNotPositive int
  | NotWholeFrameSamples int int
  | FrameSamplesNotPositive int

abbreviation (input) DefaultSampleRate :: int where "DefaultSampleRate \<equiv> 48000"
abbreviation (input) DefaultChannels :: int where "DefaultChannels \<equiv> 2"
abbreviation (input) DefaultFrameSamples :: int where "DefaultFrameSamples \<equiv> 480"
abbreviation (input) BytesPerSampleS16 :: int where "BytesPerSampleS16 \<equiv> 2"

definition default_format :: format where
  "default_format = \<lparr>f_rate = DefaultSampleRate, f_channels = DefaultChannels,
     f_frame_samples = DefaultFrameSamples\<rparr>"

text \<open>\<^verbatim>\<open>audio.Format{}\<close>, which the constructors replace by the default.\<close>

definition zero_format :: format where
  "zero_format = \<lparr>f_rate = 0, f_channels = 0, f_frame_samples = 0\<rparr>"

definition new_format :: "int \<Rightarrow> int \<Rightarrow> int \<Rightarrow> format_error + format" where
  "new_format rate channels frameMillis =
     (if rate \<le> 0 then Inl (RateNotPositive rate)
      else if channels \<le> 0 then Inl (ChannelsNotPositive channels)
      else if frameMillis \<le> 0 then Inl (FrameMillisNotPositive frameMillis)
      else let samplesNumerator = wrap64 (rate * frameMillis) in
        if samplesNumerator smod 1000 \<noteq> 0 then Inl (NotWholeFrameSamples rate frameMillis)
        else Inr \<lparr>f_rate = rate, f_channels = channels, f_frame_samples = samplesNumerator sdiv 1000\<rparr>)"

definition validate_format :: "format \<Rightarrow> format_error option" where
  "validate_format f =
     (if f_rate f \<le> 0 then Some (RateNotPositive (f_rate f))
      else if f_channels f \<le> 0 then Some (ChannelsNotPositive (f_channels f))
      else if f_frame_samples f \<le> 0 then Some (FrameSamplesNotPositive (f_frame_samples f))
      else None)"

definition bytes_per_frame :: "format \<Rightarrow> int" where
  "bytes_per_frame f = wrap64 (f_channels f * BytesPerSampleS16)"

definition packet_bytes :: "format \<Rightarrow> int" where
  "packet_bytes f = wrap64 (f_frame_samples f * bytes_per_frame f)"

definition show_int :: "int \<Rightarrow> string" where
  "show_int i = (if i < 0 then ''-'' @ show_nat (nat (- i)) else show_nat (nat i))"

definition format_string :: "format \<Rightarrow> string" where
  "format_string f = show_int (f_rate f) @ '' Hz S16LE '' @ show_int (f_channels f) @ ''ch '' @
     show_int (f_frame_samples f) @ ''-frame packets''"

lemma validate_format_None:
  "validate_format f = None \<longleftrightarrow> 0 < f_rate f \<and> 0 < f_channels f \<and> 0 < f_frame_samples f"
  by (simp add: validate_format_def not_le)

lemma bytes_per_frame_eq:
  "0 \<le> f_channels f \<Longrightarrow> f_channels f < 2 ^ 62 \<Longrightarrow> bytes_per_frame f = 2 * f_channels f"
  by (simp add: bytes_per_frame_def wrap64_id)

text \<open>
  Within the range where \<^verbatim>\<open>rate * frameMillis\<close> does not wrap, an accepted format is valid and its
  frame lasts exactly the requested number of milliseconds.
\<close>

lemma new_format_ok:
  assumes "new_format rate ch ms = Inr f" "rate * ms < 2 ^ 63"
  shows "validate_format f = None" "f_rate f = rate" "f_channels f = ch"
    "f_frame_samples f * 1000 = rate * ms"
proof -
  from assms(1) have pos: "0 < rate" "0 < ch" "0 < ms"
    by (auto simp: new_format_def Let_def split: if_splits)
  then have p: "0 < rate * ms" by simp
  then have w: "wrap64 (rate * ms) = rate * ms" using assms(2) by (intro wrap64_id) simp_all
  from assms(1) pos p have d: "(rate * ms) mod 1000 = 0" 
    and f: "f = \<lparr>f_rate = rate, f_channels = ch, f_frame_samples = rate * ms div 1000\<rparr>"
    by (auto simp: new_format_def Let_def w split: if_splits)
  from d have m: "rate * ms div 1000 * 1000 = rate * ms" by auto
  with p have "0 < rate * ms div 1000" by (metis not_less zero_less_mult_iff mult_nonpos_nonneg zero_le_numeral)
  with f m pos show "validate_format f = None" "f_rate f = rate" "f_channels f = ch"
    "f_frame_samples f * 1000 = rate * ms"
    by (simp_all add: validate_format_None)
qed

end
