(* ===== verification/JitterBuffer.thy ===== *)
theory JitterBuffer
  imports Circular AudioFormat
begin

text \<open>
  The per-stream playout queue: \<^verbatim>\<open>engine/internal/mixer/jitterbuffer.go\<close>.  It plays nothing until it
  holds its target, keeps the newest frames when it overflows, and re-primes on an underrun.  A flag
  \<open>contended\<close> says whether \<^verbatim>\<open>TryLock\<close> finds the mutex taken.  The discard and underrun counters
  are \<^verbatim>\<open>atomic.Uint64\<close>.
\<close>

record jitter_options =
  jo_format :: format
  jo_target_frames :: int
  jo_high_watermark_frames :: int

record jitter_buffer =
  jb_format :: format
  jb_bytes_per_frame :: nat
  jb_buf :: bytes
  jb_read_pos :: nat
  jb_used :: nat
  jb_target_frames :: nat
  jb_high_frames :: nat
  jb_primed :: bool
  jb_discarded_frames :: u64
  jb_underrun_frames :: u64
  jb_queue_frames :: nat

datatype jitter_error =
    JitterFormat format_error
  | WatermarksNotPositive
  | TargetExceedsHigh int int
  | MakeSlicePanic

definition millis_to_frames :: "int \<Rightarrow> int \<Rightarrow> int" where
  "millis_to_frames rate millis =
     (let frames = wrap64 (rate * millis) sdiv 1000 in if frames < 1 then 1 else frames)"

text \<open>\<^verbatim>\<open>make([]byte, n)\<close> panics on a negative length.\<close>

definition new_jitter_buffer :: "jitter_options \<Rightarrow> jitter_error + jitter_buffer" where
  "new_jitter_buffer opts =
     (let format = (if jo_format opts = zero_format then default_format else jo_format opts) in
      case validate_format format of
        Some e \<Rightarrow> Inl (JitterFormat e)
      | None \<Rightarrow>
          let target = (if jo_target_frames opts \<le> 0 then millis_to_frames (f_rate format) 60
                        else jo_target_frames opts);
              high = (if jo_high_watermark_frames opts \<le> 0 then millis_to_frames (f_rate format) 80
                      else jo_high_watermark_frames opts)
          in if target \<le> 0 \<or> high \<le> 0 then Inl WatermarksNotPositive
             else if target > high then Inl (TargetExceedsHigh target high)
             else let bpf = bytes_per_frame format; len = wrap64 (high * bpf) in
               if len < 0 then Inl MakeSlicePanic
               else Inr \<lparr>jb_format = format, jb_bytes_per_frame = nat bpf,
                         jb_buf = replicate (nat len) 0, jb_read_pos = 0, jb_used = 0,
                         jb_target_frames = nat target, jb_high_frames = nat high,
                         jb_primed = False, jb_discarded_frames = 0, jb_underrun_frames = 0,
                         jb_queue_frames = 0\<rparr>)"

definition jb_store_queue_frames :: "jitter_buffer \<Rightarrow> jitter_buffer" where
  "jb_store_queue_frames b = b\<lparr>jb_queue_frames := jb_used b div jb_bytes_per_frame b\<rparr>"

definition jb_drop_oldest :: "nat \<Rightarrow> jitter_buffer \<Rightarrow> jitter_buffer" where
  "jb_drop_oldest frames0 b =
     (if frames0 = 0 \<or> jb_used b = 0 then b
      else let usedFrames = jb_used b div jb_bytes_per_frame b;
               frames = (if frames0 > usedFrames then usedFrames else frames0);
               dropBytes = frames * jb_bytes_per_frame b
           in b\<lparr>jb_read_pos := (jb_read_pos b + dropBytes) mod length (jb_buf b),
                jb_used := jb_used b - dropBytes,
                jb_discarded_frames := jb_discarded_frames b + word_of_nat frames\<rparr>)"

definition jb_write_locked :: "bytes \<Rightarrow> jitter_buffer \<Rightarrow> jitter_buffer" where
  "jb_write_locked pcm b =
     (let write = (jb_read_pos b + jb_used b) mod length (jb_buf b);
          copied = copied_at write (jb_buf b) pcm;
          buf1 = copy_at write (jb_buf b) pcm;
          buf2 = (if copied < length pcm then copy_at 0 buf1 (drop copied pcm) else buf1)
      in b\<lparr>jb_buf := buf2, jb_used := jb_used b + length pcm\<rparr>)"

definition jb_read_locked :: "bytes \<Rightarrow> jitter_buffer \<Rightarrow> nat \<times> bytes \<times> jitter_buffer" where
  "jb_read_locked dst b =
     (let n0 = min (length dst) (jb_used b); n = n0 - n0 mod jb_bytes_per_frame b in
      if n = 0 then (0, dst, b)
      else let first = min n (length (jb_buf b) - jb_read_pos b);
               src = slice (jb_read_pos b) (jb_read_pos b + first) (jb_buf b);
               copied = copied_at 0 dst src;
               dst1 = copy_at 0 dst src;
               dst2 = (if copied < n then copy_at copied dst1 (take (n - copied) (jb_buf b)) else dst1)
           in (n, dst2, b\<lparr>jb_read_pos := (jb_read_pos b + n) mod length (jb_buf b),
                          jb_used := jb_used b - n\<rparr>))"

definition jb_prime :: "jitter_buffer \<Rightarrow> jitter_buffer" where
  "jb_prime b =
     (if \<not> jb_primed b \<and> jb_used b div jb_bytes_per_frame b \<ge> jb_target_frames b
      then b\<lparr>jb_primed := True\<rparr> else b)"

text \<open>\<^verbatim>\<open>Write\<close>: the number of frames taken and the new state.\<close>

definition jb_write :: "bytes \<Rightarrow> jitter_buffer \<Rightarrow> nat \<times> jitter_buffer" where
  "jb_write pcm0 b0 =
     (let bpf = jb_bytes_per_frame b0; frames0 = length pcm0 div bpf in
      if frames0 = 0 then (0, b0)
      else
        let (pcm1, frames, b1) =
              (if frames0 > jb_high_frames b0
               then let dropFrames = frames0 - jb_high_frames b0
                    in (drop (dropFrames * bpf) pcm0, jb_high_frames b0,
                        b0\<lparr>jb_discarded_frames := jb_discarded_frames b0 + word_of_nat dropFrames\<rparr>)
               else (pcm0, frames0, b0));
            pcm = take (frames * bpf) pcm1;
            excessFrames = jb_used b1 div bpf + frames - jb_high_frames b1;
            b2 = (if excessFrames > 0 then jb_drop_oldest excessFrames b1 else b1)
        in (frames, jb_store_queue_frames (jb_prime (jb_write_locked pcm b2))))"

text \<open>\<^verbatim>\<open>Read\<close>: the number of frames handed out, the destination and the new state.\<close>

definition jb_underrun :: "nat \<Rightarrow> jitter_buffer \<Rightarrow> jitter_buffer" where
  "jb_underrun frames b = b\<lparr>jb_underrun_frames := jb_underrun_frames b + word_of_nat frames\<rparr>"

definition clear_prefix :: "nat \<Rightarrow> bytes \<Rightarrow> bytes" where
  "clear_prefix n dst = replicate n 0 @ drop n dst"

definition jb_read :: "bool \<Rightarrow> bytes \<Rightarrow> int \<Rightarrow> jitter_buffer \<Rightarrow> nat \<times> bytes \<times> jitter_buffer" where
  "jb_read contended dst frameCount b =
     (if frameCount \<le> 0 \<or> length dst = 0 then (0, dst, b)
      else
        let maxFrames = length dst div jb_bytes_per_frame b;
            frames = (if nat frameCount > maxFrames then maxFrames else nat frameCount)
        in if frames = 0 then (0, dst, b)
           else
             let wantBytes = frames * jb_bytes_per_frame b;
                 queuedFrames = jb_used b div jb_bytes_per_frame b
             in if contended then (0, clear_prefix wantBytes dst, jb_underrun frames b)
                else if \<not> jb_primed b \<and> queuedFrames < jb_target_frames b
                  then (0, clear_prefix wantBytes dst, jb_underrun frames b)
                else if queuedFrames < frames
                  then (0, clear_prefix wantBytes dst, jb_underrun frames (b\<lparr>jb_primed := False\<rparr>))
                else
                  let (n, out, b1) = jb_read_locked (take wantBytes dst) (b\<lparr>jb_primed := True\<rparr>)
                  in (n div jb_bytes_per_frame b, out @ drop wantBytes dst, jb_store_queue_frames b1))"

section \<open>Statistics\<close>

record audio_stats =
  as_queue_size :: int
  as_max_queue_size :: int
  as_discarded :: u64
  as_underrun :: u64
  as_playout_latency_ns :: int

definition frames_duration :: "int \<Rightarrow> int \<Rightarrow> int" where
  "frames_duration frames rate =
     (if rate \<le> 0 \<or> frames \<le> 0 then 0 else wrap64 (frames * 1000000000) sdiv rate)"

definition jb_stats :: "jitter_buffer \<Rightarrow> audio_stats" where
  "jb_stats b =
     \<lparr>as_queue_size = int (jb_queue_frames b), as_max_queue_size = int (jb_high_frames b),
      as_discarded = jb_discarded_frames b, as_underrun = jb_underrun_frames b,
      as_playout_latency_ns = frames_duration (int (jb_queue_frames b)) (f_rate (jb_format b))\<rparr>"

section \<open>The jitter buffer is a bounded queue\<close>

definition jb_inv :: "jitter_buffer \<Rightarrow> bool" where
  "jb_inv b \<longleftrightarrow> 0 < jb_bytes_per_frame b \<and> 0 < jb_target_frames b \<and>
     jb_target_frames b \<le> jb_high_frames b \<and>
     length (jb_buf b) = jb_high_frames b * jb_bytes_per_frame b \<and>
     jb_read_pos b < length (jb_buf b) \<and> jb_used b \<le> length (jb_buf b) \<and>
     jb_bytes_per_frame b dvd jb_used b \<and>
     jb_queue_frames b = jb_used b div jb_bytes_per_frame b"

definition jb_abs :: "jitter_buffer \<Rightarrow> bytes" where
  "jb_abs b = circ_contents (jb_buf b) (jb_read_pos b) (jb_used b)"

definition jb_ok :: "jitter_buffer \<Rightarrow> bytes \<Rightarrow> bool" where
  "jb_ok b p \<longleftrightarrow> jb_bytes_per_frame b dvd length p"

definition jb_lost :: "jitter_buffer \<Rightarrow> u64" where
  "jb_lost b = jb_discarded_frames b * word_of_nat (jb_bytes_per_frame b)"

lemma length_jb_abs [simp]: "length (jb_abs b) = jb_used b"
  by (simp add: jb_abs_def)

lemma millis_to_frames_pos: "1 \<le> millis_to_frames rate ms"
  by (simp add: millis_to_frames_def Let_def)

text \<open>
  A new buffer is empty, unprimed, and its watermarks satisfy the invariant, as long as its size
  fits Go's \<^verbatim>\<open>int\<close>.
\<close>

lemma new_jitter_buffer_ok:
  assumes new: "new_jitter_buffer opts = Inr b"
    and small: "f_channels (jb_format b) < 2 ^ 20" "jb_high_frames b < 2 ^ 32"
  shows "jb_inv b" "jb_abs b = []" "\<not> jb_primed b" "jb_discarded_frames b = 0" "jb_underrun_frames b = 0"
proof -
  define f where "f = (if jo_format opts = zero_format then default_format else jo_format opts)"
  define target where "target = (if jo_target_frames opts \<le> 0 then millis_to_frames (f_rate f) 60
    else jo_target_frames opts)"
  define high where "high = (if jo_high_watermark_frames opts \<le> 0 then millis_to_frames (f_rate f) 80
    else jo_high_watermark_frames opts)"
  from new[unfolded new_jitter_buffer_def Let_def, folded f_def, folded target_def high_def]
  have v: "validate_format f = None" and t: "0 < target" "target \<le> high"
    and b: "b = \<lparr>jb_format = f, jb_bytes_per_frame = nat (bytes_per_frame f),
       jb_buf = replicate (nat (wrap64 (high * bytes_per_frame f))) 0, jb_read_pos = 0,
       jb_used = 0, jb_target_frames = nat target, jb_high_frames = nat high,
       jb_primed = False, jb_discarded_frames = 0, jb_underrun_frames = 0, jb_queue_frames = 0\<rparr>"
    by (auto split: option.splits if_splits)
  have hi: "high < 2 ^ 32" "0 < high" using small(2) t by (simp_all add: b)
  have c: "0 < f_channels f" "f_channels f < 2 ^ 20"
    using v small(1) by (simp_all add: validate_format_None b)
  then have bp: "bytes_per_frame f = 2 * f_channels f" by (simp add: bytes_per_frame_eq)
  have "high * (2 * f_channels f) \<le> 2 ^ 32 * (2 * 2 ^ 20)"
    using hi c by (intro mult_mono) simp_all
  then have "wrap64 (high * bytes_per_frame f) = high * bytes_per_frame f"
    using mult_pos_pos[OF hi(2) c(1)] bp by (intro wrap64_id) simp_all
  then show "jb_inv b" "jb_abs b = []" "\<not> jb_primed b" "jb_discarded_frames b = 0" "jb_underrun_frames b = 0"
    using t hi c bp by (simp_all add: b jb_inv_def jb_abs_def nat_mult_distrib)
qed

subsection \<open>Writing\<close>

lemma jb_write_locked_eq:
  "jb_write_locked p b = b\<lparr>jb_buf := circ_write (jb_buf b) (jb_read_pos b) (jb_used b) p,
     jb_used := jb_used b + length p\<rparr>"
  by (simp add: jb_write_locked_def circ_write_def Let_def)

lemma jb_drop_oldest_eq:
  assumes "jb_inv b" "d \<le> jb_used b div jb_bytes_per_frame b"
  shows "jb_drop_oldest d b = b\<lparr>
    jb_read_pos := (jb_read_pos b + d * jb_bytes_per_frame b) mod length (jb_buf b),
    jb_used := jb_used b - d * jb_bytes_per_frame b,
    jb_discarded_frames := jb_discarded_frames b + word_of_nat d\<rparr>"
  using assms by (cases "d = 0") (auto simp: jb_drop_oldest_def jb_inv_def Let_def)

text \<open>\<open>d\<close> frames leave, whole frames \<open>p\<close> that then fit enter.\<close>

lemma jb_fill:
  assumes inv: "jb_inv b" and p: "jb_bytes_per_frame b dvd length p" "length p \<le> length (jb_buf b)"
  defines "d \<equiv> jb_used b div jb_bytes_per_frame b + length p div jb_bytes_per_frame b - jb_high_frames b"
  defines "b' \<equiv> jb_store_queue_frames (jb_prime (jb_write_locked p
    (if d > 0 then jb_drop_oldest d b else b)))"
  shows "jb_inv b'" "jb_bytes_per_frame b' = jb_bytes_per_frame b" "length (jb_buf b') = length (jb_buf b)"
    "jb_abs b' = newest (length (jb_buf b)) (jb_abs b @ p)"
    "jb_discarded_frames b' = jb_discarded_frames b + word_of_nat d"
    "jb_underrun_frames b' = jb_underrun_frames b" "jb_high_frames b' = jb_high_frames b"
    "jb_used b + length p - length (jb_buf b) = d * jb_bytes_per_frame b"
proof -
  let ?q = "jb_bytes_per_frame b" and ?L = "length (jb_buf b)"
  have i: "0 < ?q" "?L = jb_high_frames b * ?q" "jb_read_pos b < ?L" "jb_used b \<le> ?L" "?q dvd jb_used b"
    using inv by (auto simp: jb_inv_def)
  obtain u where u: "jb_used b = u * ?q" using i(5) by (metis dvd_div_mult_self)
  obtain n where n: "length p = n * ?q" using p(1) by (metis dvd_div_mult_self)
  have le: "u \<le> jb_high_frames b" "n \<le> jb_high_frames b" using i p u n by simp_all
  have d: "d = u + n - jb_high_frames b" using i(1) by (simp add: d_def u n)
  then have du: "d \<le> u" using le by simp
  show D: "jb_used b + length p - ?L = d * ?q"
    by (simp add: u n i(2) d flip: add_mult_distrib diff_mult_distrib)
  define rd where "rd = (jb_read_pos b + d * ?q) mod ?L"
  have "(if d > 0 then jb_drop_oldest d b else b) =
    b\<lparr>jb_read_pos := rd, jb_used := jb_used b - d * ?q,
      jb_discarded_frames := jb_discarded_frames b + word_of_nat d\<rparr>"
    using jb_drop_oldest_eq[OF inv, of d] du i by (cases "d = 0") (simp_all add: u rd_def)
  then have b': "b' = jb_store_queue_frames (jb_prime (b\<lparr>jb_read_pos := rd,
     jb_discarded_frames := jb_discarded_frames b + word_of_nat d,
     jb_buf := circ_write (jb_buf b) rd (jb_used b - d * ?q) p,
     jb_used := jb_used b - d * ?q + length p\<rparr>))"
    by (simp add: b'_def jb_write_locked_eq)
  have rd: "rd < ?L" unfolding rd_def using i(3) by (intro mod_less_divisor) linarith
  have dl: "d * ?q \<le> jb_used b" using du by (simp add: u)
  have fit: "jb_used b - d * ?q + length p \<le> ?L" using D dl p(2) by linarith
  have f: "jb_bytes_per_frame b' = ?q" "jb_used b' = jb_used b - d * ?q + length p"
    "jb_buf b' = circ_write (jb_buf b) rd (jb_used b - d * ?q) p" "jb_read_pos b' = rd"
    "jb_high_frames b' = jb_high_frames b" "jb_target_frames b' = jb_target_frames b"
    "jb_queue_frames b' = jb_used b' div ?q"
    "jb_discarded_frames b' = jb_discarded_frames b + word_of_nat d"
    "jb_underrun_frames b' = jb_underrun_frames b"
    by (simp_all add: b' jb_store_queue_frames_def jb_prime_def)
  then show "jb_bytes_per_frame b' = ?q" "jb_underrun_frames b' = jb_underrun_frames b"
    "jb_discarded_frames b' = jb_discarded_frames b + word_of_nat d" "jb_high_frames b' = jb_high_frames b"
    by simp_all
  have ne: "jb_buf b \<noteq> []" using rd by auto
  then show L: "length (jb_buf b') = ?L" by (simp add: f)
  have "?q dvd jb_used b'" unfolding f(2) using i(5) p(1) by (intro dvd_add dvd_diff_nat) simp_all
  then show "jb_inv b'" using inv rd fit L by (simp add: jb_inv_def f)
  have "jb_abs b' = drop (d * ?q) (jb_abs b) @ p"
    using circ_contents_write[OF rd fit] dl by (simp add: jb_abs_def f rd_def circ_contents_drop)
  also have "\<dots> = newest ?L (jb_abs b @ p)" using D dl by (subst newest_split[of "d * ?q"]) simp_all
  finally show "jb_abs b' = newest ?L (jb_abs b @ p)" .
qed

lemma jb_write_aligned:
  assumes inv: "jb_inv b" and ok: "jb_ok b p"
  defines "b' \<equiv> snd (jb_write p b)"
  shows "jb_inv b'" "jb_bytes_per_frame b' = jb_bytes_per_frame b" "length (jb_buf b') = length (jb_buf b)"
    "jb_abs b' = newest (length (jb_buf b)) (jb_abs b @ p)"
    "jb_lost b' = jb_lost b + word_of_nat (jb_used b + length p - length (jb_buf b))"
    "jb_underrun_frames b' = jb_underrun_frames b"
proof -
  let ?q = "jb_bytes_per_frame b" and ?L = "length (jb_buf b)"
  have i: "0 < ?q" "?L = jb_high_frames b * ?q" "jb_used b \<le> ?L"
    using inv by (auto simp: jb_inv_def)
  obtain n where n: "length p = n * ?q" using ok unfolding jb_ok_def by (metis dvd_div_mult_self)
  define k where "k = n - jb_high_frames b"
  define b1 where "b1 = b\<lparr>jb_discarded_frames := jb_discarded_frames b + word_of_nat k\<rparr>"
  define p1 where "p1 = drop (k * ?q) p"
  have inv1: "jb_inv b1" using inv by (simp add: b1_def jb_inv_def)
  have p1: "length p1 = (n - k) * ?q" by (simp add: p1_def n diff_mult_distrib)
  then have dv: "jb_bytes_per_frame b1 dvd length p1" by (simp add: b1_def)
  have "n - k \<le> jb_high_frames b" unfolding k_def by arith
  then have le: "length p1 \<le> length (jb_buf b1)" unfolding p1 using i(2) by (simp add: b1_def)
  note fill = jb_fill[OF inv1 dv le]
  have q1: "length p1 div ?q = n - k" using i(1) by (simp add: p1)
  have kq: "k * ?q = length p - ?L" by (simp add: k_def n i(2) diff_mult_distrib)
  have drop_eq: "newest ?L (jb_abs b @ p1) = newest ?L (jb_abs b @ p)"
  proof (cases "?L \<le> length p")
    case True
    then show ?thesis by (simp add: p1_def kq newest_append_left) (simp add: newest_def)
  qed (simp add: p1_def kq)
  consider "n = 0" | "0 < n" by auto
  then have "jb_inv b' \<and> jb_bytes_per_frame b' = ?q \<and> length (jb_buf b') = ?L \<and>
      jb_abs b' = newest ?L (jb_abs b @ p) \<and> jb_underrun_frames b' = jb_underrun_frames b \<and>
      jb_lost b' = jb_lost b + word_of_nat (jb_used b + length p - ?L)"
  proof cases
    case 1
    then have "b' = b" "p = []" using n by (simp_all add: b'_def jb_write_def Let_def)
    then show ?thesis
      using inv i by (simp add: newest_all)
  next
    case 2
    have "snd (jb_write p b) = jb_store_queue_frames (jb_prime (jb_write_locked p1
      (let d = jb_used b1 div jb_bytes_per_frame b1 + length p1 div jb_bytes_per_frame b1 - jb_high_frames b1
       in if d > 0 then jb_drop_oldest d b1 else b1)))"
      using 2 i(1) q1 p1 n
      by (cases "jb_high_frames b < n") (simp_all add: jb_write_def Let_def b1_def p1_def k_def)
    note b' = this[unfolded Let_def, folded b'_def]
    note F = fill[folded b']
    have "k * ?q + (jb_used b + length p1 - ?L) = jb_used b + length p - ?L"
    proof (cases "jb_high_frames b < n")
      case True
      then have "?L \<le> n * ?q" "k * ?q = n * ?q - ?L" "(n - k) * ?q = ?L"
        by (simp_all add: i(2) k_def diff_mult_distrib)
      then show ?thesis using i(3) unfolding p1 n by linarith
    qed (simp add: p1 n k_def)
    moreover define D where "D = jb_used b1 div jb_bytes_per_frame b1 +
      length p1 div jb_bytes_per_frame b1 - jb_high_frames b1"
    note F(5,8)[folded D_def]
    then have D: "jb_discarded_frames b' = jb_discarded_frames b + word_of_nat k + word_of_nat D"
      "jb_used b + length p1 - ?L = D * ?q" by (simp_all add: b1_def)
    have "jb_lost b' = jb_lost b + word_of_nat (k * ?q + (jb_used b + length p1 - ?L))"
      using F(2) D by (simp add: jb_lost_def b1_def distrib_left distrib_right)
    ultimately show ?thesis
      using F drop_eq by (simp add: b1_def jb_abs_def)
  qed
  then show "jb_inv b'" "jb_bytes_per_frame b' = ?q" "length (jb_buf b') = ?L"
    "jb_abs b' = newest ?L (jb_abs b @ p)" "jb_underrun_frames b' = jb_underrun_frames b"
    "jb_lost b' = jb_lost b + word_of_nat (jb_used b + length p - ?L)"
    by blast+
qed

subsection \<open>Reading\<close>

definition jb_ready :: "nat \<Rightarrow> jitter_buffer \<Rightarrow> bool" where
  "jb_ready frames b \<longleftrightarrow>
     (jb_primed b \<or> jb_target_frames b \<le> jb_used b div jb_bytes_per_frame b) \<and>
     frames \<le> jb_used b div jb_bytes_per_frame b"

lemma jb_read_locked_eq:
  assumes inv: "jb_inv b" and n: "length dst = k" "jb_bytes_per_frame b dvd k" "k \<le> jb_used b"
  shows "jb_read_locked dst b =
    (k, take k (jb_abs b),
     b\<lparr>jb_read_pos := (jb_read_pos b + k) mod length (jb_buf b), jb_used := jb_used b - k\<rparr>)"
proof -
  have i: "jb_read_pos b < length (jb_buf b)" "k \<le> length (jb_buf b)"
    using inv n(3) by (auto simp: jb_inv_def)
  have m: "min k (jb_used b) - min k (jb_used b) mod jb_bytes_per_frame b = k"
    using n(2,3) by (simp add: min_def)
  note out = circ_copy_out[OF i n(1)[symmetric, THEN eq_refl]]
  have "circ_contents (jb_buf b) (jb_read_pos b) k = take k (jb_abs b)"
    using n(3) by (simp add: jb_abs_def circ_contents_take)
  then show ?thesis
    using i unfolding jb_read_locked_def Let_def n(1) m out
    by (insert n(1), cases "k = 0") simp_all
qed

text \<open>A read the buffer is ready for hands out the oldest frames and consumes exactly those.\<close>

lemma jb_read_ready:
  assumes inv: "jb_inv b" and f: "frames = min (nat fc) (length dst div jb_bytes_per_frame b)" "0 < frames"
    and rdy: "jb_ready frames b"
  defines "k \<equiv> frames * jb_bytes_per_frame b"
  defines "b' \<equiv> b\<lparr>jb_primed := True, jb_read_pos := (jb_read_pos b + k) mod length (jb_buf b),
     jb_used := jb_used b - k, jb_queue_frames := (jb_used b - k) div jb_bytes_per_frame b\<rparr>"
  shows "jb_read False dst fc b = (frames, take k (jb_abs b) @ drop k dst, b')"
    and "jb_inv b'" "jb_abs b' = drop k (jb_abs b)" "k \<le> jb_used b"
proof -
  let ?q = "jb_bytes_per_frame b"
  have i: "0 < ?q" "?q dvd jb_used b" "jb_read_pos b < length (jb_buf b)" "jb_used b \<le> length (jb_buf b)"
    using inv by (auto simp: jb_inv_def)
  have "frames \<le> jb_used b div ?q" using rdy by (simp add: jb_ready_def)
  then have "k \<le> jb_used b div ?q * ?q" unfolding k_def by (rule mult_le_mono1)
  then show ku: "k \<le> jb_used b" using i(2) by simp
  have "frames \<le> length dst div ?q" using f by simp
  then have "k \<le> length dst div ?q * ?q" unfolding k_def by (rule mult_le_mono1)
  then have kd: "k \<le> length dst" using div_times_less_eq_dividend le_trans by blast
  have dst: "length dst \<noteq> 0" "\<not> fc \<le> 0" "frames \<noteq> 0" using f kd i(1) by (auto simp: k_def)
  have fr: "(if nat fc > length dst div ?q then length dst div ?q else nat fc) = frames"
    using f(1) by (auto simp: min_def)
  have inv1: "jb_inv (b\<lparr>jb_primed := True\<rparr>)" using inv by (simp add: jb_inv_def)
  have abs1: "jb_abs (b\<lparr>jb_primed := True\<rparr>) = jb_abs b" by (simp add: jb_abs_def)
  have rl: "jb_read_locked (take k dst) (b\<lparr>jb_primed := True\<rparr>) =
    (k, take k (jb_abs b), b\<lparr>jb_primed := True, jb_read_pos := (jb_read_pos b + k) mod length (jb_buf b),
       jb_used := jb_used b - k\<rparr>)"
    using jb_read_locked_eq[OF inv1, of "take k dst" k] kd ku by (simp add: abs1) (simp add: k_def)
  have c: "\<not> (\<not> jb_primed b \<and> jb_used b div ?q < jb_target_frames b)" "\<not> jb_used b div ?q < frames"
    using rdy by (auto simp: jb_ready_def)
  show "jb_read False dst fc b = (frames, take k (jb_abs b) @ drop k dst, b')"
    using dst c i(1) rl unfolding jb_read_def Let_def fr
    by (simp add: b'_def jb_store_queue_frames_def flip: k_def) (simp add: k_def)
  have "?q dvd jb_used b - k" using i(2) by (simp add: k_def dvd_diff_nat)
  then show "jb_inv b'" using inv i ku by (auto simp: jb_inv_def b'_def)
  show "jb_abs b' = drop k (jb_abs b)"
    using ku by (simp add: b'_def jb_abs_def circ_contents_drop)
qed

text \<open>Any other read plays silence, keeps the queue, and counts the frames as underrun.\<close>

lemma jb_read_not_ready:
  assumes f: "frames = min (nat fc) (length dst div jb_bytes_per_frame b)" "0 < frames"
    and rdy: "\<not> jb_ready frames b"
  shows "jb_read False dst fc b =
    (0, clear_prefix (frames * jb_bytes_per_frame b) dst,
     jb_underrun frames (b\<lparr>jb_primed := False\<rparr>))"
proof -
  let ?q = "jb_bytes_per_frame b"
  have fr: "(if nat fc > length dst div ?q then length dst div ?q else nat fc) = frames"
    using f(1) by (auto simp: min_def)
  have dst: "length dst \<noteq> 0" "\<not> fc \<le> 0" "frames \<noteq> 0" using f by auto
  have p: "\<not> jb_primed b \<Longrightarrow> jb_underrun frames (b\<lparr>jb_primed := False\<rparr>) = jb_underrun frames b"
    by (cases b) (simp add: jb_underrun_def)
  show ?thesis
    using dst rdy p unfolding jb_read_def Let_def fr jb_ready_def by (auto simp: not_le)
qed

lemma jb_read_trivial:
  "nat fc = 0 \<or> length dst div jb_bytes_per_frame b = 0 \<Longrightarrow> jb_read c dst fc b = (0, dst, b)"
  by (auto simp: jb_read_def Let_def)

lemma jb_read_contended:
  "snd (snd (jb_read True dst fc b)) =
     jb_underrun (min (nat fc) (length dst div jb_bytes_per_frame b)) b"
  by (cases b) (auto simp: jb_read_def jb_underrun_def Let_def min_def)

lemma jb_underrun_simps [simp]:
  "jb_inv (jb_underrun n b) = jb_inv b" "jb_abs (jb_underrun n b) = jb_abs b"
  "jb_buf (jb_underrun n b) = jb_buf b" "jb_bytes_per_frame (jb_underrun n b) = jb_bytes_per_frame b"
  "jb_lost (jb_underrun n b) = jb_lost b" "jb_high_frames (jb_underrun n b) = jb_high_frames b"
  by (simp_all add: jb_underrun_def jb_inv_def jb_abs_def jb_lost_def)

lemma jb_unprime_simps [simp]:
  "jb_inv (b\<lparr>jb_primed := p\<rparr>) = jb_inv b" "jb_abs (b\<lparr>jb_primed := p\<rparr>) = jb_abs b"
  "jb_lost (b\<lparr>jb_primed := p\<rparr>) = jb_lost b"
  by (simp_all add: jb_inv_def jb_abs_def jb_lost_def)

text \<open>What the playback callback asks for: \<open>n\<close> frames into a buffer of that size.\<close>

definition jb_pop :: "nat \<Rightarrow> jitter_buffer \<Rightarrow> bytes \<times> jitter_buffer" where
  "jb_pop n b =
     (let (k, dst, b') = jb_read False (replicate (n * jb_bytes_per_frame b) 0) (int n) b
      in (take (k * jb_bytes_per_frame b) dst, b'))"

definition jb_push :: "bytes \<Rightarrow> jitter_buffer \<Rightarrow> jitter_buffer" where
  "jb_push p b = snd (jb_write p b)"

lemma jb_pop_cases:
  assumes inv: "jb_inv b" and pop: "jb_pop n b = (out, b')"
  shows "jb_inv b' \<and> jb_buf b' = jb_buf b \<and> jb_bytes_per_frame b' = jb_bytes_per_frame b \<and>
    jb_lost b' = jb_lost b \<and> jb_abs b = out @ jb_abs b' \<and>
    (out = [] \<or> length out = n * jb_bytes_per_frame b)"
proof -
  let ?q = "jb_bytes_per_frame b" and ?dst = "replicate (n * jb_bytes_per_frame b) 0"
  have q: "0 < ?q" using inv by (simp add: jb_inv_def)
  then have fr: "n = min (nat (int n)) (length ?dst div ?q)" by simp
  consider "n = 0" | "0 < n" "jb_ready n b" | "0 < n" "\<not> jb_ready n b" by auto
  then show ?thesis
  proof cases
    case 1
    then show ?thesis using pop inv jb_read_trivial[of "int n" ?dst b False] by (simp add: jb_pop_def)
  next
    case 2
    note r = jb_read_ready[OF inv fr 2]
    have len: "length (take (n * ?q) (jb_abs b)) = n * ?q" using r(4) by simp
    have b: "out = take (n * ?q) (jb_abs b)" "b' = b\<lparr>jb_primed := True,
        jb_read_pos := (jb_read_pos b + n * ?q) mod length (jb_buf b),
        jb_used := jb_used b - n * ?q, jb_queue_frames := (jb_used b - n * ?q) div ?q\<rparr>"
      using pop len unfolding jb_pop_def r(1) by simp_all
    show ?thesis using r(2,3) len unfolding b by (simp add: jb_lost_def)
  next
    case 3
    note r = jb_read_not_ready[OF fr 3]
    have b: "out = []" "b' = jb_underrun n (b\<lparr>jb_primed := False\<rparr>)"
      using pop unfolding jb_pop_def r by simp_all
    show ?thesis using inv unfolding b by simp
  qed
qed

interpretation jb_fifo: pcm_fifo jb_abs jb_inv "\<lambda>b. length (jb_buf b)" jb_ok jb_push jb_pop jb_lost
proof unfold_locales
  fix b assume "jb_inv b"
  then show "length (jb_abs b) \<le> length (jb_buf b)" by (simp add: jb_inv_def)
next
  fix b p assume 1: "jb_inv b" "jb_ok b p"
  note w = jb_write_aligned[OF 1, folded jb_push_def]
  show "jb_inv (jb_push p b) \<and> length (jb_buf (jb_push p b)) = length (jb_buf b) \<and>
      jb_ok (jb_push p b) = jb_ok b"
    using w by (simp add: jb_ok_def fun_eq_iff)
  show a: "jb_abs (jb_push p b) = newest (length (jb_buf b)) (jb_abs b @ p)" by (fact w(4))
  have "jb_used b \<le> length (jb_buf b)" using 1 by (simp add: jb_inv_def)
  then show "jb_lost (jb_push p b) =
      jb_lost b + word_of_nat (length (jb_abs b @ p) - length (jb_abs (jb_push p b)))"
    unfolding a w(5) by (simp add: min_def)
next
  fix b n out b' assume "jb_inv b" "jb_pop n b = (out, b')"
  note p = jb_pop_cases[OF this]
  show "jb_inv b' \<and> length (jb_buf b') = length (jb_buf b) \<and> jb_ok b' = jb_ok b \<and> jb_lost b' = jb_lost b"
    using p by (simp add: jb_ok_def fun_eq_iff)
  show "jb_abs b = out @ jb_abs b'" using p by simp
qed

text \<open>A trailing partial frame is ignored, so every write keeps the invariant.\<close>

lemma jb_write_truncates:
  assumes "0 < jb_bytes_per_frame b"
  shows "jb_write p b = jb_write (take (length p div jb_bytes_per_frame b * jb_bytes_per_frame b) p) b"
proof -
  let ?q = "jb_bytes_per_frame b" and ?n = "length p div jb_bytes_per_frame b"
  have le: "?n * ?q \<le> length p" by simp
  then have n: "length (take (?n * ?q) p) div ?q = ?n" using assms by (simp add: min_absorb2)
  have "take (h * ?q) (drop ((?n - h) * ?q) (take (?n * ?q) p)) = take (h * ?q) (drop ((?n - h) * ?q) p)"
    if "h < ?n" for h
    using that by (simp add: drop_take min_def flip: diff_mult_distrib)
  then show ?thesis unfolding jb_write_def Let_def n by auto
qed

lemma jb_write_inv:
  assumes "jb_inv b"
  shows "jb_inv (snd (jb_write p b))" "jb_bytes_per_frame (snd (jb_write p b)) = jb_bytes_per_frame b"
    "length (jb_buf (snd (jb_write p b))) = length (jb_buf b)"
proof -
  let ?q = "jb_bytes_per_frame b" and ?p = "take (length p div jb_bytes_per_frame b * jb_bytes_per_frame b) p"
  have q: "0 < ?q" using assms by (simp add: jb_inv_def)
  have "jb_ok b ?p" by (simp add: jb_ok_def min_absorb2)
  from jb_write_aligned[OF assms this] show "jb_inv (snd (jb_write p b))"
    "jb_bytes_per_frame (snd (jb_write p b)) = ?q" "length (jb_buf (snd (jb_write p b))) = length (jb_buf b)"
    by (simp_all flip: jb_write_truncates[OF q, of p])
qed

section \<open>Properties\<close>

text \<open>
  C19. From a new jitter buffer, any sequence of whole-frame writes and playback reads plays, followed
  by what is still queued, a subsequence of the PCM written, in order; every byte was played, is
  still queued or is accounted for by the discard counter; the queue stays within the high
  watermark.
\<close>

theorem jitter_conservation:
  assumes "new_jitter_buffer opts = Inr b" "f_channels (jb_format b) < 2 ^ 20" "jb_high_frames b < 2 ^ 32"
    and "fifo_ok (jb_ok b) ops" "fifo_run jb_push jb_pop ops b = (out, b')"
  shows "subseq (out @ jb_abs b') (fifo_in ops) \<and>
    jb_lost b' + word_of_nat (length out + length (jb_abs b')) = word_of_nat (length (fifo_in ops)) \<and>
    length (jb_abs b') \<le> jb_high_frames b * jb_bytes_per_frame b"
proof -
  note n = new_jitter_buffer_ok[OF assms(1-3)]
  have "jb_lost b = 0" "length (jb_buf b) = jb_high_frames b * jb_bytes_per_frame b"
    using n by (simp_all add: jb_lost_def jb_inv_def)
  then show ?thesis
    using jb_fifo.run_order[OF n(1) assms(4,5)] jb_fifo.run_conservation[OF n(1) assms(4,5)]
      jb_fifo.run_inv[OF n(1) assms(4,5)] jb_fifo.inv_cap[of b'] n(2) by simp
qed

definition demo_jitter :: jitter_options where
  "demo_jitter = \<lparr>jo_format = \<lparr>f_rate = 8000, f_channels = 1, f_frame_samples = 2\<rparr>,
     jo_target_frames = 2, jo_high_watermark_frames = 3\<rparr>"

theorem jitter_conservation_witness:
  "\<exists>b out b'. new_jitter_buffer demo_jitter = Inr b \<and>
    fifo_run jb_push jb_pop [Push [1, 2, 3, 4], Pop 1, Push [5, 6, 7, 8], Pop 2] b = (out, b') \<and>
    subseq (out @ jb_abs b') (fifo_in [Push [1, 2, 3, 4], Pop 1, Push [5, 6, 7, 8], Pop 2])"
proof -
  obtain b where b: "new_jitter_buffer demo_jitter = Inr b"
    "f_channels (jb_format b) < 2 ^ 20" "jb_high_frames b < 2 ^ 32" "jb_bytes_per_frame b = 2"
    by (simp add: demo_jitter_def new_jitter_buffer_def zero_format_def validate_format_def
        bytes_per_frame_def wrap64_id Let_def)
  obtain out b' where run:
    "fifo_run jb_push jb_pop [Push [1, 2, 3, 4], Pop 1, Push [5, 6, 7, 8], Pop 2] b = (out, b')"
    by fastforce
  have "fifo_ok (jb_ok b) [Push [1, 2, 3, 4], Pop 1, Push [5, 6, 7, 8], Pop 2]"
    by (simp add: jb_ok_def b(4))
  then show ?thesis using jitter_conservation[OF b(1-3) _ run] b(1) run by blast
qed

text \<open>
  What a playback read does.  If the buffer is primed, or holds its target, and has the frames
  asked for, it hands out exactly the oldest frames; in every other case it plays silence, keeps
  the queue, loses its priming and counts the frames as underrun.
\<close>

theorem jitter_read:
  assumes "jb_inv b" "n = min (nat fc) (length dst div jb_bytes_per_frame b)" "0 < n"
  shows "if (jb_primed b \<or> jb_target_frames b \<le> jb_used b div jb_bytes_per_frame b) \<and>
           n \<le> jb_used b div jb_bytes_per_frame b
    then \<exists>b'. jb_read False dst fc b =
           (n, take (n * jb_bytes_per_frame b) (jb_abs b) @ drop (n * jb_bytes_per_frame b) dst, b') \<and>
         jb_abs b' = drop (n * jb_bytes_per_frame b) (jb_abs b) \<and> jb_primed b' \<and>
         jb_underrun_frames b' = jb_underrun_frames b
    else \<exists>b'. jb_read False dst fc b =
           (0, replicate (n * jb_bytes_per_frame b) 0 @ drop (n * jb_bytes_per_frame b) dst, b') \<and>
         jb_abs b' = jb_abs b \<and> \<not> jb_primed b' \<and>
         jb_underrun_frames b' = jb_underrun_frames b + word_of_nat n"
proof (cases "jb_ready n b")
  case True
  then show ?thesis using jb_read_ready[OF assms True] unfolding jb_ready_def by simp
next
  case False
  then show ?thesis
    using jb_read_not_ready[OF assms(2,3) False] unfolding jb_ready_def
    by (auto simp: clear_prefix_def jb_underrun_def jb_abs_def)
qed

theorem jitter_read_witness:
  "\<exists>b. new_jitter_buffer demo_jitter = Inr b \<and> fst (jb_read False [9, 9, 9, 9] 2 b) = 0"
proof -
  obtain b where b: "new_jitter_buffer demo_jitter = Inr b"
    "f_channels (jb_format b) < 2 ^ 20" "jb_high_frames b < 2 ^ 32" "jb_bytes_per_frame b = 2"
    "jb_used b = 0"
    by (simp add: demo_jitter_def new_jitter_buffer_def zero_format_def validate_format_def
        bytes_per_frame_def wrap64_id Let_def)
  have "(2 :: nat) = min (nat 2) (length [9, 9, 9, 9 :: byte] div jb_bytes_per_frame b)" by (simp add: b(4))
  then show ?thesis
    using jitter_read[OF new_jitter_buffer_ok(1)[OF b(1-3)], of 2 2 "[9, 9, 9, 9]"] b(1,4,5) by auto
qed

end
