(* ===== verification/GoFloat.thy ===== *)
theory GoFloat
  imports Complex_Main "HOL-Library.Word"
begin

text \<open>
  The machine's floating-point arithmetic, \<^verbatim>\<open>float32\<close> in the mixer and \<^verbatim>\<open>float64\<close> in the quality
  controller, as a record of operations that the definitions take as their first argument.  Most
  theorems hold for every such record; those that need more state the IEEE facts they use as
  hypotheses, which exact rational arithmetic (\<open>rat_ops\<close>) meets.
\<close>

record 'f float_ops =
  fo_zero :: 'f
  fo_one :: 'f
  fo_half :: 'f
  fo_add :: "'f \<Rightarrow> 'f \<Rightarrow> 'f"
  fo_sub :: "'f \<Rightarrow> 'f \<Rightarrow> 'f"
  fo_mul :: "'f \<Rightarrow> 'f \<Rightarrow> 'f"
  fo_div :: "'f \<Rightarrow> 'f \<Rightarrow> 'f"
  fo_of_int :: "int \<Rightarrow> 'f"
  fo_lit :: "rat \<Rightarrow> 'f"
  fo_less :: "'f \<Rightarrow> 'f \<Rightarrow> bool"
  fo_eq :: "'f \<Rightarrow> 'f \<Rightarrow> bool"
  fo_finite :: "'f \<Rightarrow> bool"
  fo_trunc :: "'f \<Rightarrow> int"
  fo_trunc16 :: "'f \<Rightarrow> 16 word"
  fo_round :: "'f \<Rightarrow> 'f"

definition trunc_rat :: "rat \<Rightarrow> int" where
  "trunc_rat q = (if 0 \<le> q then floor q else ceiling q)"

text \<open>Rounding to the nearest integer, halves away from zero, as \<^verbatim>\<open>math.Round\<close> does.\<close>

definition round_rat :: "rat \<Rightarrow> rat" where
  "round_rat q = (if 0 \<le> q then of_int (floor (q + 1 / 2)) else - of_int (floor (1 / 2 - q)))"

definition rat_ops :: "rat float_ops" where
  "rat_ops = \<lparr>fo_zero = 0, fo_one = 1, fo_half = 1 / 2, fo_add = (+), fo_sub = (-), fo_mul = (*),
     fo_div = (/), fo_of_int = of_int, fo_lit = (\<lambda>q. q), fo_less = (<), fo_eq = (=),
     fo_finite = (\<lambda>_. True), fo_trunc = trunc_rat,
     fo_trunc16 = (\<lambda>q. word_of_int (trunc_rat q)), fo_round = round_rat\<rparr>"

end
