(* ===== verification/Mixer.thy ===== *)
theory Mixer
  imports JitterBuffer GoFloat
begin

text \<open>
  The playback mixer: \<^verbatim>\<open>engine/internal/mixer/mixer.go\<close> and the aggregate of its statistics,
  \<^verbatim>\<open>engine/internal/stats/stats.go\<close>.  The machine's \<^verbatim>\<open>float32\<close> arithmetic is a record of
  operations that every definition takes as its first argument; the theorems that need more than
  its shape state the IEEE facts they use as hypotheses.  A Go \<^verbatim>\<open>string\<close> that stays inside the
  program is a \<open>string\<close>.
\<close>

section \<open>State\<close>

record 'f stream =
  sm_id :: string
  sm_name :: string
  sm_remote_addr :: string
  sm_buffer :: jitter_buffer
  sm_gain :: 'f

record 'f mixer =
  mx_format :: format
  mx_bytes_per_frame :: nat
  mx_channels :: nat
  mx_jitter :: jitter_options
  mx_streams :: "'f stream list"
  mx_scratch :: bytes
  mx_acc_len :: nat
  mx_master_gain :: 'f

record 'f mixer_options =
  mo_format :: format
  mo_jitter :: jitter_options
  mo_master_gain :: 'f
  mo_scratch_frames :: int

datatype mixer_error =
    MixerFormat format_error
  | MixerJitter jitter_error
  | StreamIdRequired
  | StreamIdExists string
  | InvalidGain

section \<open>Operations\<close>

definition new_mixer :: "'f float_ops \<Rightarrow> 'f mixer_options \<Rightarrow> mixer_error + 'f mixer" where
  "new_mixer F opts =
     (let format = (if mo_format opts = zero_format then default_format else mo_format opts) in
      case validate_format format of
        Some e \<Rightarrow> Inl (MixerFormat e)
      | None \<Rightarrow>
          let jitter = (mo_jitter opts)\<lparr>jo_format := format\<rparr> in
          (case new_jitter_buffer jitter of
             Inl e \<Rightarrow> Inl (MixerJitter e)
           | Inr _ \<Rightarrow>
               let scratchFrames = (if mo_scratch_frames opts \<le> 0 then f_frame_samples format
                                    else mo_scratch_frames opts);
                   masterGain = (if fo_eq F (mo_master_gain opts) (fo_zero F)
                                 then fo_one F else mo_master_gain opts)
               in Inr \<lparr>mx_format = format, mx_bytes_per_frame = nat (bytes_per_frame format),
                       mx_channels = nat (f_channels format), mx_jitter = jitter, mx_streams = [],
                       mx_scratch = replicate (nat (scratchFrames * bytes_per_frame format)) 0,
                       mx_acc_len = nat (scratchFrames * f_channels format),
                       mx_master_gain = masterGain\<rparr>))"

definition new_stream :: "'f float_ops \<Rightarrow> 'f mixer \<Rightarrow> string \<Rightarrow> string \<Rightarrow> string \<Rightarrow> jitter_error + 'f stream" where
  "new_stream F m i name remote =
     (case new_jitter_buffer ((mx_jitter m)\<lparr>jo_format := mx_format m\<rparr>) of
        Inl e \<Rightarrow> Inl e
      | Inr b \<Rightarrow> Inr \<lparr>sm_id = i, sm_name = name, sm_remote_addr = remote, sm_buffer = b,
                      sm_gain = fo_one F\<rparr>)"

definition add_stream ::
  "'f float_ops \<Rightarrow> 'f mixer \<Rightarrow> string \<Rightarrow> string \<Rightarrow> string \<Rightarrow> mixer_error + 'f stream \<times> 'f mixer" where
  "add_stream F m i name remote =
     (if i = [] then Inl StreamIdRequired
      else (case new_stream F m i name remote of
          Inl e \<Rightarrow> Inl (MixerJitter e)
        | Inr stream \<Rightarrow>
            if list_ex (\<lambda>existing. sm_id existing = i) (mx_streams m) then Inl (StreamIdExists i)
            else Inr (stream, m\<lparr>mx_streams := mx_streams m @ [stream]\<rparr>)))"

definition remove_stream :: "'f mixer \<Rightarrow> string \<Rightarrow> bool \<times> 'f mixer" where
  "remove_stream m i =
     (let next = filter (\<lambda>s. sm_id s \<noteq> i) (mx_streams m);
          removed = list_ex (\<lambda>s. sm_id s = i) (mx_streams m)
      in (removed, if removed then m\<lparr>mx_streams := next\<rparr> else m))"

definition set_master_gain :: "'f float_ops \<Rightarrow> 'f \<Rightarrow> 'f mixer \<Rightarrow> mixer_error + 'f mixer" where
  "set_master_gain F gain m =
     (if fo_less F gain (fo_zero F) \<or> \<not> fo_finite F gain then Inl InvalidGain
      else Inr (m\<lparr>mx_master_gain := gain\<rparr>))"

definition set_stream_gain :: "'f float_ops \<Rightarrow> 'f \<Rightarrow> 'f stream \<Rightarrow> mixer_error + 'f stream" where
  "set_stream_gain F gain s =
     (if fo_less F gain (fo_zero F) \<or> \<not> fo_finite F gain then Inl InvalidGain
      else Inr (s\<lparr>sm_gain := gain\<rparr>))"

section \<open>Mixing\<close>

definition clamp_s16 :: "'f float_ops \<Rightarrow> 'f \<Rightarrow> 16 word" where
  "clamp_s16 F v =
     (if fo_less F (fo_of_int F 32767) v then 32767
      else if fo_less F v (fo_of_int F (-32768)) then - 32768
      else if fo_less F (fo_zero F) v \<or> fo_eq F v (fo_zero F) then fo_trunc16 F (fo_add F v (fo_half F))
      else fo_trunc16 F (fo_sub F v (fo_half F)))"

definition sample_at :: "bytes \<Rightarrow> nat \<Rightarrow> 16 word" where
  "sample_at pcm i = get_le (slice (2 * i) (2 * i + 2) pcm)"

definition mix_s16le :: "'f float_ops \<Rightarrow> 'f list \<Rightarrow> bytes \<Rightarrow> 'f \<Rightarrow> 'f list" where
  "mix_s16le F acc pcm gain =
     map (\<lambda>i. fo_add F (acc ! i) (fo_mul F (fo_of_int F (sint (sample_at pcm i))) gain))
       [0..<length acc]"

definition write_s16le :: "'f float_ops \<Rightarrow> 'f list \<Rightarrow> bytes" where
  "write_s16le F acc = concat (map (\<lambda>v. put_le 2 (clamp_s16 F v)) acc)"

text \<open>
  One stream's turn in a chunk: read into the shared scratch buffer, mix.  \<open>busy i\<close> says whether
  the buffer of stream \<open>i\<close> is locked by its writer.
\<close>

fun mix_streams ::
  "'f float_ops \<Rightarrow> (string \<Rightarrow> bool) \<Rightarrow> 'f \<Rightarrow> nat \<Rightarrow> 'f stream list \<Rightarrow> bytes \<Rightarrow> 'f list \<Rightarrow>
    'f stream list \<times> bytes \<times> 'f list"
where
  "mix_streams F busy gain n [] scratch acc = ([], scratch, acc)"
| "mix_streams F busy gain n (s # ss) scratch acc =
     (let (_, scratch1, b) = jb_read (busy (sm_id s)) scratch (int n) (sm_buffer s);
          acc1 = mix_s16le F acc scratch1 (fo_mul F gain (sm_gain s));
          (ss1, scratch2, acc2) = mix_streams F busy gain n ss scratch1 acc1
      in (s\<lparr>sm_buffer := b\<rparr> # ss1, scratch2, acc2))"

text \<open>
  The chunk loop.  A chunk size of zero would never advance, and taking more of the accumulator than there is
  would panic: such runs have no result.  \<open>busy\<close> is indexed by the chunk's offset.
\<close>

function mix_chunks ::
  "'f float_ops \<Rightarrow> (nat \<Rightarrow> string \<Rightarrow> bool) \<Rightarrow> 'f \<Rightarrow> nat \<Rightarrow> nat \<Rightarrow> nat \<Rightarrow> 'f mixer \<Rightarrow>
    (bytes \<times> 'f mixer) option"
where
  "mix_chunks F busy gain chunkMax offset frames m =
     (if frames \<le> offset then Some ([], m)
      else if chunkMax = 0 then None
      else let chunk = min chunkMax (frames - offset);
               chunkBytes = chunk * mx_bytes_per_frame m
           in if chunk * mx_channels m > mx_acc_len m \<or> chunkBytes > length (mx_scratch m) then None
           else let acc = replicate (chunk * mx_channels m) (fo_zero F);
               (ss, scratch, acc1) =
                 mix_streams F (busy offset) gain chunk (mx_streams m) (take chunkBytes (mx_scratch m)) acc;
               m1 = m\<lparr>mx_streams := ss, mx_scratch := scratch @ drop chunkBytes (mx_scratch m)\<rparr>
           in (case mix_chunks F busy gain chunkMax (offset + chunk) frames m1 of
                 None \<Rightarrow> None
               | Some (out, m2) \<Rightarrow> Some (write_s16le F acc1 @ out, m2)))"
  by pat_completeness auto
termination by (relation "measure (\<lambda>(F, busy, gain, c, offset, frames, m). frames - offset)") auto

declare mix_chunks.simps [simp del]

definition mixer_read ::
  "'f float_ops \<Rightarrow> (nat \<Rightarrow> string \<Rightarrow> bool) \<Rightarrow> bytes \<Rightarrow> u32 \<Rightarrow> 'f mixer \<Rightarrow> (bytes \<times> 'f mixer) option"
where
  "mixer_read F busy out frameCount m =
     (if unat frameCount = 0 \<or> length out = 0 then Some (out, m)
      else
        let frames = min (unat frameCount) (length out div mx_bytes_per_frame m) in
        if frames = 0 then Some (replicate (length out) 0, m)
        else
          let wantBytes = frames * mx_bytes_per_frame m;
              tail = replicate (length out - wantBytes) 0
          in if mx_streams m = [] then Some (replicate wantBytes 0 @ tail, m)
             else
               let gain = fo_div F (mx_master_gain m) (fo_of_int F (int (length (mx_streams m)))) in
               (case mix_chunks F busy gain (length (mx_scratch m) div mx_bytes_per_frame m) 0 frames m of
                  None \<Rightarrow> None
                | Some (mixed, m1) \<Rightarrow> Some (mixed @ tail, m1)))"

section \<open>Statistics\<close>

record stream_snapshot =
  sn_id :: string
  sn_name :: string
  sn_remote_addr :: string
  sn_stats :: audio_stats

record aggregate_snapshot =
  ag_active_streams :: nat
  ag_streams :: "stream_snapshot list"
  ag_stats :: audio_stats

definition zero_stats :: audio_stats where
  "zero_stats = \<lparr>as_queue_size = 0, as_max_queue_size = 0, as_discarded = 0, as_underrun = 0,
     as_playout_latency_ns = 0\<rparr>"

definition add_stats :: "audio_stats \<Rightarrow> audio_stats \<Rightarrow> audio_stats" where
  "add_stats s t =
     \<lparr>as_queue_size = as_queue_size s + as_queue_size t,
      as_max_queue_size = as_max_queue_size s + as_max_queue_size t,
      as_discarded = as_discarded s + as_discarded t,
      as_underrun = as_underrun s + as_underrun t,
      as_playout_latency_ns =
        (if as_playout_latency_ns t > as_playout_latency_ns s then as_playout_latency_ns t
         else as_playout_latency_ns s)\<rparr>"

definition new_aggregate :: "stream_snapshot list \<Rightarrow> aggregate_snapshot" where
  "new_aggregate ss =
     \<lparr>ag_active_streams = length ss, ag_streams = ss,
      ag_stats = foldl (\<lambda>acc s. add_stats acc (sn_stats s)) zero_stats ss\<rparr>"

definition mixer_snapshot :: "'f mixer \<Rightarrow> aggregate_snapshot" where
  "mixer_snapshot m =
     new_aggregate (map (\<lambda>s. \<lparr>sn_id = sm_id s, sn_name = sm_name s,
       sn_remote_addr = sm_remote_addr s, sn_stats = jb_stats (sm_buffer s)\<rparr>) (mx_streams m))"

section \<open>The invariant\<close>

definition stream_ok :: "nat \<Rightarrow> 'f stream \<Rightarrow> bool" where
  "stream_ok bpf s \<longleftrightarrow> jb_inv (sm_buffer s) \<and> jb_bytes_per_frame (sm_buffer s) = bpf"

text \<open>The options every stream's buffer is made from work.\<close>

definition template_ok :: "jitter_options \<Rightarrow> nat \<Rightarrow> bool" where
  "template_ok j bpf \<longleftrightarrow>
     (case new_jitter_buffer j of
        Inl _ \<Rightarrow> False
      | Inr b \<Rightarrow> jb_inv b \<and> jb_bytes_per_frame b = bpf)"

definition mixer_inv :: "'f mixer \<Rightarrow> bool" where
  "mixer_inv m \<longleftrightarrow>
     0 < mx_channels m \<and> mx_bytes_per_frame m = 2 * mx_channels m \<and>
     mx_bytes_per_frame m \<le> length (mx_scratch m) \<and>
     length (mx_scratch m) div mx_bytes_per_frame m * mx_channels m \<le> mx_acc_len m \<and>
     distinct (map sm_id (mx_streams m)) \<and> [] \<notin> set (map sm_id (mx_streams m)) \<and>
     list_all (stream_ok (mx_bytes_per_frame m)) (mx_streams m) \<and>
     template_ok ((mx_jitter m)\<lparr>jo_format := mx_format m\<rparr>) (mx_bytes_per_frame m)"

lemma new_jitter_buffer_fields:
  assumes "new_jitter_buffer opts = Inr b" "jo_format opts \<noteq> zero_format"
  shows "jb_format b = jo_format opts" "jb_bytes_per_frame b = nat (bytes_per_frame (jo_format opts))"
  using assms by (auto simp: new_jitter_buffer_def Let_def split: option.splits if_splits)

lemma new_mixer_inv:
  assumes new: "new_mixer F opts = Inr m"
    and small: "f_channels (mx_format m) < 2 ^ 20"
      "\<forall>b. new_jitter_buffer (mx_jitter m) = Inr b \<longrightarrow> jb_high_frames b < 2 ^ 32"
  shows "mixer_inv m"
proof -
  define f where "f = (if mo_format opts = zero_format then default_format else mo_format opts)"
  define j where "j = (mo_jitter opts)\<lparr>jo_format := f\<rparr>"
  define sc where "sc = (if mo_scratch_frames opts \<le> 0 then f_frame_samples f else mo_scratch_frames opts)"
  from new[unfolded new_mixer_def Let_def, folded f_def, folded j_def, folded sc_def]
  obtain b where v: "validate_format f = None" and b: "new_jitter_buffer j = Inr b"
    and m: "mx_format m = f" "mx_bytes_per_frame m = nat (bytes_per_frame f)"
      "mx_channels m = nat (f_channels f)" "mx_jitter m = j" "mx_streams m = []"
      "mx_scratch m = replicate (nat (sc * bytes_per_frame f)) 0" "mx_acc_len m = nat (sc * f_channels f)"
    by (auto split: option.splits sum.splits)
  have f: "0 < f_channels f" "f_channels f < 2 ^ 20" "0 < f_frame_samples f"
    using v small(1) m by (simp_all add: validate_format_None)
  then have bp: "bytes_per_frame f = 2 * f_channels f" by (simp add: bytes_per_frame_eq)
  have fz: "f \<noteq> zero_format" using f by (auto simp: zero_format_def)
  then have jz: "jo_format j \<noteq> zero_format" by (simp add: j_def)
  note bf = new_jitter_buffer_fields[OF b jz]
  have "jb_inv b"
    using new_jitter_buffer_ok(1)[OF b] small b f bf m by (simp add: j_def)
  moreover have "1 \<le> sc" using f(3) by (simp add: sc_def)
  then have "1 * bytes_per_frame f \<le> sc * bytes_per_frame f"
    using bp f by (intro mult_right_mono) simp_all
  moreover have "nat (sc * bytes_per_frame f) div nat (bytes_per_frame f) * nat (f_channels f) = nat (sc * f_channels f)"
    using bp f \<open>1 \<le> sc\<close> by (simp add: nat_mult_distrib)
  ultimately show ?thesis
    using m bf b bp f by (simp add: mixer_inv_def template_ok_def j_def nat_mult_distrib nat_le_iff)
qed

lemma add_stream_ok:
  assumes "mixer_inv m" "i \<noteq> []" "i \<notin> set (map sm_id (mx_streams m))"
  obtains s where "add_stream F m i name remote = Inr (s, m\<lparr>mx_streams := mx_streams m @ [s]\<rparr>)"
    "sm_id s = i" "stream_ok (mx_bytes_per_frame m) s" "sm_gain s = fo_one F"
    "new_jitter_buffer ((mx_jitter m)\<lparr>jo_format := mx_format m\<rparr>) = Inr (sm_buffer s)"
proof -
  obtain b where b: "new_jitter_buffer ((mx_jitter m)\<lparr>jo_format := mx_format m\<rparr>) = Inr b"
    "jb_inv b" "jb_bytes_per_frame b = mx_bytes_per_frame m"
    using assms(1) by (auto simp: mixer_inv_def template_ok_def split: sum.splits)
  have "\<not> list_ex (\<lambda>existing. sm_id existing = i) (mx_streams m)"
    using assms(3) by (auto simp: list_ex_iff)
  with b assms(2) show thesis
    by (intro that[of "\<lparr>sm_id = i, sm_name = name, sm_remote_addr = remote, sm_buffer = b, sm_gain = fo_one F\<rparr>"])
      (simp_all add: add_stream_def new_stream_def stream_ok_def)
qed

lemma add_stream_inv:
  assumes "mixer_inv m" "add_stream F m i name remote = Inr (s, m')"
  shows "mixer_inv m' \<and> map sm_id (mx_streams m') = map sm_id (mx_streams m) @ [i]"
proof -
  have 1: "i \<noteq> []" "i \<notin> set (map sm_id (mx_streams m))"
    using assms(2) by (auto simp: add_stream_def list_ex_iff split: if_splits sum.splits)
  from add_stream_ok[OF assms(1) this, of F name remote] obtain s'
    where "m' = m\<lparr>mx_streams := mx_streams m @ [s']\<rparr>" "sm_id s' = i" "stream_ok (mx_bytes_per_frame m) s'"
    using assms(2) by auto
  then show ?thesis using assms(1) 1 by (auto simp: mixer_inv_def)
qed

lemma remove_stream_inv:
  assumes "mixer_inv m" "remove_stream m i = (removed, m')"
  shows "mixer_inv m' \<and> removed = (i \<in> set (map sm_id (mx_streams m))) \<and>
    map sm_id (mx_streams m') = filter (\<lambda>j. j \<noteq> i) (map sm_id (mx_streams m))"
proof -
  have f: "mx_streams m' = filter (\<lambda>s. sm_id s \<noteq> i) (mx_streams m)"
    using assms(2) by (auto simp: remove_stream_def Let_def list_ex_iff intro!: filter_True[symmetric])
  have m': "m' = m\<lparr>mx_streams := filter (\<lambda>s. sm_id s \<noteq> i) (mx_streams m)\<rparr>"
    using assms(2) f by (cases m; cases m') (auto simp: remove_stream_def Let_def split: if_splits)
  have "mixer_inv m'"
    using assms(1) by (auto simp: m' mixer_inv_def list_all_iff distinct_map_filter)
  moreover have "removed = (i \<in> set (map sm_id (mx_streams m)))"
    using assms(2) by (auto simp: remove_stream_def Let_def list_ex_iff)
  ultimately show ?thesis by (simp add: f filter_map comp_def)
qed

section \<open>Mixing is total and keeps the invariant\<close>

lemma jb_read_inv:
  assumes "jb_inv b"
  shows "jb_inv (snd (snd (jb_read c dst fc b)))"
    and "jb_bytes_per_frame (snd (snd (jb_read c dst fc b))) = jb_bytes_per_frame b"
    and "length (fst (snd (jb_read c dst fc b))) = length dst"
proof -
  let ?n = "min (nat fc) (length dst div jb_bytes_per_frame b)"
  have n: "?n * jb_bytes_per_frame b \<le> length dst"
    using mult_le_mono1[of ?n "length dst div jb_bytes_per_frame b" "jb_bytes_per_frame b"]
    by (meson div_times_less_eq_dividend le_trans min.cobounded2)
  consider "?n = 0" | "0 < ?n" "c" | "0 < ?n" "\<not> c" "jb_ready ?n b" | "0 < ?n" "\<not> c" "\<not> jb_ready ?n b"
    by blast
  then have "jb_inv (snd (snd (jb_read c dst fc b))) \<and>
    jb_bytes_per_frame (snd (snd (jb_read c dst fc b))) = jb_bytes_per_frame b \<and>
    length (fst (snd (jb_read c dst fc b))) = length dst"
  proof cases
    case 1
    then have "nat fc = 0 \<or> length dst div jb_bytes_per_frame b = 0" by (auto simp: min_def split: if_splits)
    then show ?thesis using assms by (simp add: jb_read_trivial)
  next
    case 2
    have "length (fst (snd (jb_read True dst fc b))) = length dst"
      using 2(1) n by (auto simp: jb_read_def clear_prefix_def Let_def min_def)
    then show ?thesis using 2 assms by (simp add: jb_read_contended)
  next
    case 3
    then show ?thesis using jb_read_ready[OF assms refl 3(1,3)] n by simp
  next
    case 4
    then show ?thesis using jb_read_not_ready[OF refl 4(1,3)] n assms by (simp add: clear_prefix_def)
  qed
  then show "jb_inv (snd (snd (jb_read c dst fc b)))"
    "jb_bytes_per_frame (snd (snd (jb_read c dst fc b))) = jb_bytes_per_frame b"
    "length (fst (snd (jb_read c dst fc b))) = length dst"
    by blast+
qed

lemma length_mix [simp]: "length (mix_s16le F acc pcm g) = length acc"
  by (simp add: mix_s16le_def)

lemma length_write_s16le [simp]: "length (write_s16le F acc) = 2 * length acc"
  by (induction acc) (simp_all add: write_s16le_def)

subsection \<open>What a buffer gives the mixer\<close>

text \<open>
  A buffer asked for \<open>n\<close> frames gives the front of its queue when its lock is free, it is primed or holds its target, and it
  holds that much; otherwise silence.  \<open>buffer_left\<close> is the buffer afterwards.
\<close>

definition buffer_gives :: "bool \<Rightarrow> nat \<Rightarrow> jitter_buffer \<Rightarrow> bytes" where
  "buffer_gives locked n b =
     (if \<not> locked \<and> jb_ready n b then take (n * jb_bytes_per_frame b) (jb_abs b)
      else replicate (n * jb_bytes_per_frame b) 0)"

definition buffer_left :: "bool \<Rightarrow> nat \<Rightarrow> jitter_buffer \<Rightarrow> jitter_buffer" where
  "buffer_left locked n b = snd (snd (jb_read locked (replicate (n * jb_bytes_per_frame b) 0) (int n) b))"

lemma jb_read_gives:
  assumes inv: "jb_inv b" and len: "length dst = n * jb_bytes_per_frame b" and n: "0 < n"
  shows "\<exists>k. jb_read locked dst (int n) b = (k, buffer_gives locked n b, buffer_left locked n b)"
proof -
  let ?q = "jb_bytes_per_frame b" and ?z = "replicate (n * jb_bytes_per_frame b) 0 :: bytes"
  have q: "0 < ?q" using inv by (simp add: jb_inv_def)
  have f: "n = min (nat (int n)) (length dst div ?q)" "n = min (nat (int n)) (length ?z div ?q)" using len q by simp_all
  consider "locked" | "\<not> locked" "jb_ready n b" | "\<not> locked" "\<not> jb_ready n b" by blast
  then show ?thesis
  proof cases
    case 1
    have m: "(if nat (int n) > length dst div ?q then length dst div ?q else nat (int n)) = n" using f(1) by (simp add: len q)
    have "fst (snd (jb_read True dst (int n) b)) = ?z"
      unfolding jb_read_def Let_def m using n q len by (simp add: clear_prefix_def)
    then show ?thesis using 1 jb_read_contended[of dst "int n" b] jb_read_contended[of ?z "int n" b] len q
      by (simp add: buffer_left_def buffer_gives_def prod_eq_iff)
  next
    case 2
    note d = jb_read_ready[OF inv f(1) n 2(2)] and z = jb_read_ready[OF inv f(2) n 2(2)]
    show ?thesis using 2 d(1) z(1) len by (simp add: buffer_left_def buffer_gives_def)
  next
    case 3
    note d = jb_read_not_ready[OF f(1) n 3(2)] and z = jb_read_not_ready[OF f(2) n 3(2)]
    show ?thesis using 3 d z len by (simp add: buffer_left_def buffer_gives_def clear_prefix_def)
  qed
qed

lemma buffer_left_inv [simp]:
  assumes "jb_inv b"
  shows "jb_inv (buffer_left locked n b)" "jb_bytes_per_frame (buffer_left locked n b) = jb_bytes_per_frame b"
  unfolding buffer_left_def using jb_read_inv(1,2)[OF assms] by blast+

lemma length_buffer_gives [simp]: "jb_inv b \<Longrightarrow> length (buffer_gives locked n b) = n * jb_bytes_per_frame b"
proof -
  assume inv: "jb_inv b"
  have "n * jb_bytes_per_frame b \<le> jb_used b" if "jb_ready n b"
  proof -
    have "n \<le> jb_used b div jb_bytes_per_frame b" using that by (simp add: jb_ready_def)
    from mult_le_mono1[OF this] show ?thesis using div_times_less_eq_dividend le_trans by blast
  qed
  then show ?thesis by (auto simp: buffer_gives_def min_absorb2)
qed

text \<open>What a stream gives on its own over the chunks from \<open>offset\<close> on, and its buffer after that.\<close>

function stream_sound :: "(nat \<Rightarrow> bool) \<Rightarrow> nat \<Rightarrow> nat \<Rightarrow> nat \<Rightarrow> jitter_buffer \<Rightarrow> bytes \<times> jitter_buffer" where
  "stream_sound locked chunkMax offset frames b =
     (if frames \<le> offset \<or> chunkMax = 0 then ([], b)
      else let n = min chunkMax (frames - offset);
               (rest, b1) = stream_sound locked chunkMax (offset + n) frames (buffer_left (locked offset) n b)
           in (buffer_gives (locked offset) n b @ rest, b1))"
  by pat_completeness auto
termination by (relation "measure (\<lambda>(locked, c, offset, frames, b). frames - offset)") auto

declare stream_sound.simps [simp del]

text \<open>One sample of the mix: the streams' samples times their gains, added up in the order of the streams.\<close>

definition mixed_sample ::
  "'f float_ops \<Rightarrow> 'f \<Rightarrow> ('f stream \<Rightarrow> bytes) \<Rightarrow> 'f stream list \<Rightarrow> nat \<Rightarrow> 'f \<Rightarrow> 'f"
where
  "mixed_sample F gain sound ss i a =
     fold (\<lambda>s a. fo_add F a (fo_mul F (fo_of_int F (sint (sample_at (sound s) i))) (fo_mul F gain (sm_gain s)))) ss a"

lemma mix_streams_spec:
  assumes "list_all (stream_ok q) ss" "0 < n" "length scratch = n * q"
  shows "\<exists>scratch'. mix_streams F busy g n ss scratch acc =
      (map (\<lambda>s. s\<lparr>sm_buffer := buffer_left (busy (sm_id s)) n (sm_buffer s)\<rparr>) ss, scratch',
       map (\<lambda>i. mixed_sample F g (\<lambda>s. buffer_gives (busy (sm_id s)) n (sm_buffer s)) ss i (acc ! i)) [0..<length acc]) \<and>
    length scratch' = n * q"
  using assms
proof (induction ss arbitrary: scratch acc)
  case Nil
  then show ?case by (simp add: mixed_sample_def map_nth)
next
  case (Cons s ss)
  have s: "jb_inv (sm_buffer s)" "jb_bytes_per_frame (sm_buffer s) = q" using Cons.prems(1) by (simp_all add: stream_ok_def)
  obtain k where r: "jb_read (busy (sm_id s)) scratch (int n) (sm_buffer s) =
      (k, buffer_gives (busy (sm_id s)) n (sm_buffer s), buffer_left (busy (sm_id s)) n (sm_buffer s))"
    using jb_read_gives[OF s(1) _ Cons.prems(2), of scratch] Cons.prems(3) s(2) by auto
  have l: "length (buffer_gives (busy (sm_id s)) n (sm_buffer s)) = n * q" using s by simp
  have ss: "list_all (stream_ok q) ss" using Cons.prems(1) by simp
  obtain scratch' where i: "mix_streams F busy g n ss (buffer_gives (busy (sm_id s)) n (sm_buffer s))
        (mix_s16le F acc (buffer_gives (busy (sm_id s)) n (sm_buffer s)) (fo_mul F g (sm_gain s))) =
      (map (\<lambda>s. s\<lparr>sm_buffer := buffer_left (busy (sm_id s)) n (sm_buffer s)\<rparr>) ss, scratch',
       map (\<lambda>i. mixed_sample F g (\<lambda>s. buffer_gives (busy (sm_id s)) n (sm_buffer s)) ss i
         (mix_s16le F acc (buffer_gives (busy (sm_id s)) n (sm_buffer s)) (fo_mul F g (sm_gain s)) ! i)) [0..<length acc])"
    "length scratch' = n * q"
    using Cons.IH[OF ss Cons.prems(2) l, of "mix_s16le F acc (buffer_gives (busy (sm_id s)) n (sm_buffer s)) (fo_mul F g (sm_gain s))"]
    by auto
  show ?case using i by (simp add: r mixed_sample_def mix_s16le_def cong: map_cong)
qed

lemma sample_at_append:
  "2 * k = length a \<Longrightarrow> sample_at (a @ b) i = (if i < k then sample_at a i else sample_at b (i - k))"
proof -
  assume k: "2 * k = length a"
  have "2 * (i - k) = 2 * i - length a" "2 * (i - k) + 2 = 2 * i + 2 - length a" if "\<not> i < k" using k that by auto
  then show ?thesis using k by (auto simp: sample_at_def slice_append1 slice_append2 simp del: add_2_eq_Suc')
qed

lemma stream_ok_left [simp]: "stream_ok q s \<Longrightarrow> stream_ok q (s\<lparr>sm_buffer := buffer_left locked n (sm_buffer s)\<rparr>)"
  by (simp add: stream_ok_def)

lemma concat_upt_add: "concat (map f [0..<m + n]) = concat (map f [0..<m]) @ concat (map (\<lambda>i. f (i + m)) [0..<n])"
proof -
  have e: "[0..<m + n] = [0..<m] @ [m..<m + n]" by (rule upt_add_eq_append) simp
  have "map f [m..<m + n] = map (\<lambda>i. f (i + m)) [0..<n]" by (intro nth_equalityI) (simp_all add: add.commute)
  then show ?thesis unfolding e by simp
qed

text \<open>The streams' own sounds, mixed sample by sample.\<close>

definition own_sound :: "(nat \<Rightarrow> string \<Rightarrow> bool) \<Rightarrow> nat \<Rightarrow> nat \<Rightarrow> nat \<Rightarrow> 'f stream \<Rightarrow> bytes \<times> jitter_buffer" where
  "own_sound busy chunkMax offset frames s = stream_sound (\<lambda>o1. busy o1 (sm_id s)) chunkMax offset frames (sm_buffer s)"

lemma mixer_inv_update:
  assumes "mixer_inv m" "map sm_id ss = map sm_id (mx_streams m)" "list_all (stream_ok (mx_bytes_per_frame m)) ss"
    "length sc = length (mx_scratch m)"
  shows "mixer_inv (m\<lparr>mx_streams := ss, mx_scratch := sc\<rparr>)"
  using assms unfolding mixer_inv_def by (elim conjE, intro conjI) (simp_all del: list.set_map)

lemma mix_chunks_spec:
  assumes "mixer_inv m" "chunkMax = length (mx_scratch m) div mx_bytes_per_frame m"
  shows "\<exists>sc. mix_chunks F busy g chunkMax offset frames m =
    Some (concat (map (\<lambda>i. put_le 2 (clamp_s16 F (mixed_sample F g (\<lambda>s. fst (own_sound busy chunkMax offset frames s))
        (mx_streams m) i (fo_zero F)))) [0..<(frames - offset) * mx_channels m]),
      m\<lparr>mx_streams := map (\<lambda>s. s\<lparr>sm_buffer := snd (own_sound busy chunkMax offset frames s)\<rparr>) (mx_streams m), mx_scratch := sc\<rparr>) \<and>
    length sc = length (mx_scratch m)"
  using assms
proof (induction "frames - offset" arbitrary: offset m rule: less_induct)
  case (less offset m)
  note inv = less.prems(1)
  let ?q = "mx_bytes_per_frame m" and ?ss = "mx_streams m" and ?ch = "mx_channels m"
  show ?case
  proof (cases "frames \<le> offset")
    case True
    have "map (\<lambda>s. s\<lparr>sm_buffer := snd (own_sound busy chunkMax offset frames s)\<rparr>) ?ss = ?ss"
      using True by (simp add: own_sound_def stream_sound.simps map_idI)
    then show ?thesis using True by (subst mix_chunks.simps) (auto intro!: exI[of _ "mx_scratch m"])
  next
    case False
    let ?c = "min chunkMax (frames - offset)"
    have q: "?q = 2 * ?ch" "0 < ?ch" "?q \<le> length (mx_scratch m)" "chunkMax * ?ch \<le> mx_acc_len m" "list_all (stream_ok ?q) ?ss"
      using inv less.prems(2) by (auto simp: mixer_inv_def)
    have c0: "0 < chunkMax" using q less.prems(2) by (simp add: div_greater_zero_iff)
    then have c: "0 < ?c" using False by simp
    have cc: "?c * ?ch \<le> mx_acc_len m" using mult_le_mono1[of ?c chunkMax ?ch] q(4) by linarith
    have cq: "?c * ?q \<le> length (mx_scratch m)"
    proof -
      have "?c * ?q \<le> chunkMax * ?q" by (intro mult_le_mono1) simp
      then show ?thesis using div_times_less_eq_dividend[of "length (mx_scratch m)" ?q] unfolding less.prems(2) by (rule le_trans)
    qed
    let ?give = "\<lambda>s. buffer_gives (busy offset (sm_id s)) ?c (sm_buffer s)" and
      ?left = "\<lambda>s. s\<lparr>sm_buffer := buffer_left (busy offset (sm_id s)) ?c (sm_buffer s)\<rparr>"
    have "length (take (?c * ?q) (mx_scratch m)) = ?c * ?q" using cq by simp
    from mix_streams_spec[OF q(5) c this, of F "busy offset" g "replicate (?c * ?ch) (fo_zero F)"]
    obtain sc where x: "mix_streams F (busy offset) g ?c ?ss (take (?c * ?q) (mx_scratch m)) (replicate (?c * ?ch) (fo_zero F)) =
        (map ?left ?ss, sc, map (\<lambda>i. mixed_sample F g ?give ?ss i (fo_zero F)) [0..<?c * ?ch])" "length sc = ?c * ?q"
      by (auto cong: map_cong)
    let ?m = "m\<lparr>mx_streams := map ?left ?ss, mx_scratch := sc @ drop (?c * ?q) (mx_scratch m)\<rparr>"
    have len: "length (sc @ drop (?c * ?q) (mx_scratch m)) = length (mx_scratch m)" using x(2) cq by simp
    have "list_all (stream_ok ?q) (map ?left ?ss)" using q(5) by (simp add: list_all_iff)
    then have inv': "mixer_inv ?m" by (intro mixer_inv_update[OF inv _ _ len]) simp_all
    have o: "own_sound busy chunkMax offset frames s = (?give s @ fst (own_sound busy chunkMax (offset + ?c) frames (?left s)),
        snd (own_sound busy chunkMax (offset + ?c) frames (?left s)))" for s :: "'a stream"
      using False c0 by (subst own_sound_def, subst stream_sound.simps) (simp add: own_sound_def split_beta Let_def)
    have "frames - (offset + ?c) < frames - offset" using False c by linarith
    moreover have "chunkMax = length (mx_scratch ?m) div mx_bytes_per_frame ?m" using len less.prems(2) by simp
    ultimately obtain sc' where ih: "mix_chunks F busy g chunkMax (offset + ?c) frames ?m =
      Some (concat (map (\<lambda>i. put_le 2 (clamp_s16 F (mixed_sample F g (\<lambda>s. fst (own_sound busy chunkMax (offset + ?c) frames s))
          (map ?left ?ss) i (fo_zero F)))) [0..<(frames - (offset + ?c)) * ?ch]),
        ?m\<lparr>mx_streams := map (\<lambda>s. s\<lparr>sm_buffer := snd (own_sound busy chunkMax (offset + ?c) frames s)\<rparr>) (map ?left ?ss), mx_scratch := sc'\<rparr>)"
      "length sc' = length (mx_scratch m)"
      using less.hyps[of "offset + ?c" ?m, OF _ inv'] len by auto
    have lo: "length (?give s) = 2 * (?c * ?ch)" if "s \<in> set ?ss" for s
      using that q(1,5) by (auto simp: list_all_iff stream_ok_def)
    have lowv: "mixed_sample F g (\<lambda>s. fst (own_sound busy chunkMax offset frames s)) ?ss i a = mixed_sample F g ?give ?ss i a"
      if "i < ?c * ?ch" for i a
      unfolding mixed_sample_def o using that lo by (intro fold_cong refl) (simp add: sample_at_append[of "?c * ?ch"])
    have highv: "mixed_sample F g (\<lambda>s. fst (own_sound busy chunkMax offset frames s)) ?ss (i + ?c * ?ch) a =
        mixed_sample F g (\<lambda>s. fst (own_sound busy chunkMax (offset + ?c) frames s)) (map ?left ?ss) i a" for i a
      unfolding mixed_sample_def o fold_map comp_def using lo by (intro fold_cong refl) (simp add: sample_at_append[of "?c * ?ch"])
    have n: "(frames - offset) * ?ch = ?c * ?ch + (frames - (offset + ?c)) * ?ch"
      using False by (simp add: add_mult_distrib[symmetric])
    have st: "map (\<lambda>s. s\<lparr>sm_buffer := snd (own_sound busy chunkMax (offset + ?c) frames s)\<rparr>) (map ?left ?ss) =
        map (\<lambda>s. s\<lparr>sm_buffer := snd (own_sound busy chunkMax offset frames s)\<rparr>) ?ss" by (simp add: o)
    have w: "write_s16le F (map (\<lambda>i. mixed_sample F g ?give ?ss i (fo_zero F)) [0..<?c * ?ch]) =
        concat (map (\<lambda>i. put_le 2 (clamp_s16 F (mixed_sample F g (\<lambda>s. fst (own_sound busy chunkMax offset frames s)) ?ss i (fo_zero F)))) [0..<?c * ?ch])"
      unfolding write_s16le_def map_map comp_def by (intro arg_cong[where f = concat] map_cong refl) (simp add: lowv)
    have "mix_chunks F busy g chunkMax offset frames m = (case mix_chunks F busy g chunkMax (offset + ?c) frames ?m of
        None \<Rightarrow> None | Some (out, m2) \<Rightarrow> Some (write_s16le F (map (\<lambda>i. mixed_sample F g ?give ?ss i (fo_zero F)) [0..<?c * ?ch]) @ out, m2))"
      using False c0 cc cq by (subst mix_chunks.simps) (simp add: Let_def x)
    then show ?thesis unfolding ih(1) w n concat_upt_add highv st using ih(2) by auto
  qed
qed

section \<open>A single stream at unit gain passes through bit for bit\<close>

text \<open>
  The IEEE facts this needs: 16-bit integers and their sums with one half are exact, one is neutral,
  and conversion to \<^verbatim>\<open>int16\<close> truncates.
\<close>

definition exact_s16 :: "'f float_ops \<Rightarrow> bool" where
  "exact_s16 F \<longleftrightarrow>
     fo_div F (fo_one F) (fo_of_int F 1) = fo_one F \<and> fo_mul F (fo_one F) (fo_one F) = fo_one F \<and>
     (\<forall>i \<in> {-32768..32767}.
        fo_mul F (fo_of_int F i) (fo_one F) = fo_of_int F i \<and>
        fo_add F (fo_zero F) (fo_of_int F i) = fo_of_int F i \<and>
        \<not> fo_less F (fo_of_int F 32767) (fo_of_int F i) \<and>
        \<not> fo_less F (fo_of_int F i) (fo_of_int F (-32768)) \<and>
        (fo_less F (fo_zero F) (fo_of_int F i) \<or> fo_eq F (fo_of_int F i) (fo_zero F)) = (0 \<le> i) \<and>
        (0 \<le> i \<longrightarrow> fo_trunc16 F (fo_add F (fo_of_int F i) (fo_half F)) = word_of_int i) \<and>
        (i < 0 \<longrightarrow> fo_trunc16 F (fo_sub F (fo_of_int F i) (fo_half F)) = word_of_int i))"

lemma sint16_range: "sint (w :: 16 word) \<in> {-32768..32767}"
  using sint_range_size[of w] by (simp add: word_size)

lemma clamp_exact: "exact_s16 F \<Longrightarrow> clamp_s16 F (fo_of_int F (sint w)) = w"
  using sint16_range[of w] by (simp add: exact_s16_def clamp_s16_def)

lemma concat_samples:
  "2 * k \<le> length pcm \<Longrightarrow> concat (map (\<lambda>i. slice (2 * i) (2 * i + 2) pcm) [0..<k]) = take (2 * k) pcm"
proof (induction k)
  case 0
  then show ?case by simp
next
  case (Suc k)
  then have "take (2 * k) pcm @ slice (2 * k) (2 * k + 2) pcm = take (2 * k + 2) pcm"
    using slice_join[of 0 "2 * k" "2 * k + 2" pcm] by (simp add: slice_from_0)
  with Suc show ?case by simp
qed

lemma mix_write_exact:
  assumes F: "exact_s16 F" and len: "length pcm = 2 * k"
  shows "write_s16le F (mix_s16le F (replicate k (fo_zero F)) pcm (fo_one F)) = pcm"
proof -
  have "fo_add F (fo_zero F) (fo_mul F (fo_of_int F (sint w)) (fo_one F)) = fo_of_int F (sint w)" for w :: "16 word"
    using F sint16_range[of w] by (simp add: exact_s16_def)
  then have "write_s16le F (mix_s16le F (replicate k (fo_zero F)) pcm (fo_one F)) =
    concat (map (\<lambda>i. put_le 2 (sample_at pcm i)) [0..<k])"
    using clamp_exact[OF F]
    by (auto simp: write_s16le_def mix_s16le_def comp_def intro!: arg_cong[of _ _ concat])
  also have "map (\<lambda>i. put_le 2 (sample_at pcm i)) [0..<k] = map (\<lambda>i. slice (2 * i) (2 * i + 2) pcm) [0..<k]"
    using len by (intro map_cong refl) (auto simp: sample_at_def intro!: put_get_le_n)
  also have "concat \<dots> = pcm" using concat_samples[of k pcm] len by simp
  finally show ?thesis .
qed

lemma mixer_passthrough_gen:
  assumes F: "exact_s16 F" and inv: "mixer_inv m"
    and s: "mx_streams m = [s]" "mx_master_gain m = fo_one F" "sm_gain s = fo_one F"
    and n: "0 < unat n" "length out = unat n * mx_bytes_per_frame m"
      "unat n * mx_bytes_per_frame m \<le> length (mx_scratch m)"
    and rdy: "jb_ready (unat n) (sm_buffer s)" and free: "\<not> busy 0 (sm_id s)"
  shows "\<exists>m'. mixer_read F busy out n m =
    Some (take (unat n * mx_bytes_per_frame m) (jb_abs (sm_buffer s)), m')"
proof -
  let ?q = "mx_bytes_per_frame m" and ?n = "unat n" and ?b = "sm_buffer s"
  let ?pcm = "take (?n * ?q) (jb_abs ?b)"
  have ok: "jb_inv ?b" "jb_bytes_per_frame ?b = ?q"
    using inv s(1) by (auto simp: mixer_inv_def stream_ok_def)
  have q: "?q = 2 * mx_channels m" "0 < ?q" using inv by (auto simp: mixer_inv_def)
  let ?sc = "take (?n * ?q) (mx_scratch m)"
  have len: "length ?sc = ?n * ?q" using n(3) by simp
  have fr: "?n = min (nat (int ?n)) (length ?sc div jb_bytes_per_frame ?b)"
    using len q(2) by (simp add: ok)
  note rd = jb_read_ready[OF ok(1) fr n(1) rdy, unfolded ok(2)]
  have pcm: "length ?pcm = 2 * (?n * mx_channels m)" using rd(4) q(1) by simp
  obtain b' where b': "jb_read False ?sc (int ?n) ?b = (?n, ?pcm, b')"
    using rd(1) len by auto
  have mul: "fo_mul F (fo_one F) (fo_one F) = fo_one F" "fo_div F (fo_one F) (fo_of_int F 1) = fo_one F"
    using F by (simp_all add: exact_s16_def)
  have c: "?n \<le> length (mx_scratch m) div ?q" using n(3) q(2) by (simp add: less_eq_div_iff_mult_less_eq)
  have "?n * mx_channels m \<le> mx_acc_len m" using inv unfolding mixer_inv_def by (blast intro: le_trans[OF mult_le_mono1[OF c]])
  then have gd: "\<not> mx_acc_len m < ?n * mx_channels m" "\<not> length (mx_scratch m) < ?n * ?q" using n(3) by simp_all
  have st: "mix_streams F (busy 0) (fo_one F) ?n [s] ?sc (replicate (?n * mx_channels m) (fo_zero F)) =
    ([s\<lparr>sm_buffer := b'\<rparr>], ?pcm,
     mix_s16le F (replicate (?n * mx_channels m) (fo_zero F)) ?pcm (fo_one F))"
    using b' free s(3) mul by simp
  have "\<exists>m'. mix_chunks F busy (fo_one F) (length (mx_scratch m) div ?q) 0 ?n m = Some (?pcm, m')"
    using c n(1) st s(1) gd mix_write_exact[OF F pcm]
    by (subst mix_chunks.simps) (simp add: Let_def mix_chunks.simps min_absorb2)
  then show ?thesis
    using n s q mul by (auto simp: mixer_read_def Let_def)
qed

text \<open>Exact rational arithmetic is one instance of the facts.\<close>

lemma rat_ops_exact: "exact_s16 rat_ops"
proof -
  have "trunc_rat (of_int i + 1 / 2) = i" if "0 \<le> i" for i
    using that by (simp add: trunc_rat_def floor_eq_iff)
  moreover have "trunc_rat (of_int i - 1 / 2) = i" if "i < 0" for i
  proof -
    have "(of_int i :: rat) \<le> - 1" using that by simp
    then have "\<not> (0 :: rat) \<le> of_int i - 1 / 2" by linarith
    then show ?thesis by (simp add: trunc_rat_def ceiling_eq_iff)
  qed
  ultimately show ?thesis by (auto simp: exact_s16_def rat_ops_def)
qed

section \<open>Properties\<close>

lemma mixed_sample_nil: "ss = [] \<Longrightarrow> mixed_sample F g sound ss i a = a"
  by (simp add: mixed_sample_def)

text \<open>What \<^verbatim>\<open>Read\<close> has to put out for \<open>frames\<close> frames: the streams' own sounds mixed at the master gain over their number.\<close>

definition mixed_sound :: "'f float_ops \<Rightarrow> (nat \<Rightarrow> string \<Rightarrow> bool) \<Rightarrow> nat \<Rightarrow> 'f mixer \<Rightarrow> bytes" where
  "mixed_sound F busy frames m =
     (let gain = fo_div F (mx_master_gain m) (fo_of_int F (int (length (mx_streams m))));
          chunkMax = length (mx_scratch m) div mx_bytes_per_frame m
      in concat (map (\<lambda>i. put_le 2 (clamp_s16 F
           (mixed_sample F gain (\<lambda>s. fst (own_sound busy chunkMax 0 frames s)) (mx_streams m) i (fo_zero F))))
           [0..<frames * mx_channels m]))"

lemma length_put_le2_concat: "length (concat (map (\<lambda>i. put_le 2 (f i)) [0..<k])) = 2 * k"
  by (induction k) simp_all

lemma length_mixed_sound: "mixer_inv m \<Longrightarrow> length (mixed_sound F busy frames m) = frames * mx_bytes_per_frame m"
  by (simp add: mixed_sound_def Let_def length_put_le2_concat mixer_inv_def)

lemma stream_ok_own_sound: "stream_ok q s \<Longrightarrow> stream_ok q (s\<lparr>sm_buffer := snd (own_sound busy c offset frames s)\<rparr>)"
proof -
  have "jb_inv b \<Longrightarrow> jb_inv (snd (stream_sound l c offset frames b)) \<and>
      jb_bytes_per_frame (snd (stream_sound l c offset frames b)) = jb_bytes_per_frame b" for l b
  proof (induction l c offset frames b rule: stream_sound.induct)
    case (1 l c offset frames b)
    then show ?case by (subst (1 2) stream_sound.simps) (auto simp: Let_def split_beta)
  qed
  then show "stream_ok q s \<Longrightarrow> stream_ok q (s\<lparr>sm_buffer := snd (own_sound busy c offset frames s)\<rparr>)"
    by (simp add: stream_ok_def own_sound_def)
qed

lemma mixer_inv_own_sounds:
  assumes "mixer_inv m" "length sc = length (mx_scratch m)"
  shows "mixer_inv (m\<lparr>mx_streams := map (\<lambda>s. s\<lparr>sm_buffer := snd (own_sound busy c 0 frames s)\<rparr>) (mx_streams m), mx_scratch := sc\<rparr>)"
proof (rule mixer_inv_update[OF assms(1) _ _ assms(2)])
  show "list_all (stream_ok (mx_bytes_per_frame m)) (map (\<lambda>s. s\<lparr>sm_buffer := snd (own_sound busy c 0 frames s)\<rparr>) (mx_streams m))"
    using assms(1) by (auto simp: mixer_inv_def list_all_iff intro: stream_ok_own_sound)
qed simp

lemma mixer_read_spec:
  assumes "mixer_inv m" "frames = min (unat n) (length out div mx_bytes_per_frame m)"
  shows "\<exists>sc. length sc = length (mx_scratch m) \<and> mixer_read F busy out n m =
    (if out = [] \<or> n = 0 then Some (out, m)
     else if mx_streams m = [] then Some (replicate (length out) 0, m)
     else Some (mixed_sound F busy frames m @ replicate (length out - frames * mx_bytes_per_frame m) 0,
       m\<lparr>mx_streams := map (\<lambda>s. s\<lparr>sm_buffer := snd (own_sound busy (length (mx_scratch m) div mx_bytes_per_frame m) 0 frames s)\<rparr>) (mx_streams m),
         mx_scratch := sc\<rparr>))"
proof -
  let ?q = "mx_bytes_per_frame m" and ?c = "length (mx_scratch m) div mx_bytes_per_frame m"
  let ?g = "fo_div F (mx_master_gain m) (fo_of_int F (int (length (mx_streams m))))"
  have "frames * ?q \<le> length out div ?q * ?q" unfolding assms(2) by (intro mult_le_mono1) simp
  then have w: "frames * ?q \<le> length out" using div_times_less_eq_dividend le_trans by blast
  have n: "unat n = 0 \<longleftrightarrow> n = 0" by (rule unat_eq_0)
  obtain sc where sc: "mix_chunks F busy ?g ?c 0 frames m = Some (mixed_sound F busy frames m,
      m\<lparr>mx_streams := map (\<lambda>s. s\<lparr>sm_buffer := snd (own_sound busy ?c 0 frames s)\<rparr>) (mx_streams m), mx_scratch := sc\<rparr>)"
    "length sc = length (mx_scratch m)"
    using mix_chunks_spec[OF assms(1) refl, of F busy ?g 0 frames] by (auto simp: mixed_sound_def)
  show ?thesis
  proof (cases "frames = 0")
    case True
    have "map (\<lambda>s. s\<lparr>sm_buffer := snd (own_sound busy ?c 0 0 s)\<rparr>) (mx_streams m) = mx_streams m"
      by (simp add: own_sound_def stream_sound.simps map_idI)
    then show ?thesis using True n unfolding mixer_read_def Let_def assms(2)[symmetric]
      by (intro exI[of _ "mx_scratch m"]) (simp add: mixed_sound_def)
  next
    case False
    then show ?thesis using w sc n unfolding mixer_read_def Let_def assms(2)[symmetric]
      by (intro exI[of _ sc]) (simp add: replicate_add[symmetric])
  qed
qed

lemma mixer_read_total:
  assumes "mixer_inv m"
  shows "\<exists>out' m'. mixer_read F busy out n m = Some (out', m') \<and> length out' = length out \<and>
    mixer_inv m' \<and> map sm_id (mx_streams m') = map sm_id (mx_streams m)"
proof -
  let ?f = "min (unat n) (length out div mx_bytes_per_frame m)"
  have "?f * mx_bytes_per_frame m \<le> length out div mx_bytes_per_frame m * mx_bytes_per_frame m" by (intro mult_le_mono1) simp
  then have "?f * mx_bytes_per_frame m \<le> length out" using div_times_less_eq_dividend le_trans by blast
  then show ?thesis using mixer_read_spec[OF assms refl, where n = n and out = out and F = F and busy = busy] assms length_mixed_sound[OF assms, of F busy ?f]
    by (auto intro: mixer_inv_own_sounds)
qed

text \<open>
  C20. The mixing callback plays the streams and nothing else.  For every mixer that \<^verbatim>\<open>New\<close> and the stream operations can
  produce, \<^verbatim>\<open>Read\<close> returns without a panic, whichever buffers are locked by their writers, and the whole output is written: every
  sample of the whole frames asked for is the clamped sum, in the order of the streams, of the samples each stream gives on its own times the
  master gain over the number of streams times the stream's gain, and what follows the last whole frame is zero; without
  streams all of it is zero, and an empty output or a request for no frames leaves it alone.  A stream on its own gives, chunk by
  chunk of the scratch buffer, the front of its queue when its buffer is free, started and holds the chunk, and silence otherwise;
  its buffer is left as those reads leave it, no stream is dropped, and the invariant is kept.
\<close>

theorem mixer_read_fills:
  assumes "mixer_inv m" "out \<noteq> []" "n \<noteq> 0" "frames = min (unat n) (length out div mx_bytes_per_frame m)"
    "own = own_sound busy (length (mx_scratch m) div mx_bytes_per_frame m) 0 frames"
    "gain = fo_div F (mx_master_gain m) (fo_of_int F (int (length (mx_streams m))))"
  shows "(\<exists>m'. mixer_read F busy out n m = Some (
      (if mx_streams m = [] then replicate (length out) 0
       else concat (map (\<lambda>i. put_le 2 (clamp_s16 F (fold (\<lambda>s a. fo_add F a
           (fo_mul F (fo_of_int F (sint (sample_at (fst (own s)) i))) (fo_mul F gain (sm_gain s)))) (mx_streams m) (fo_zero F))))
           [0..<frames * mx_channels m]) @ replicate (length out - frames * mx_bytes_per_frame m) 0), m') \<and>
      mixer_inv m' \<and> mx_streams m' = map (\<lambda>s. s\<lparr>sm_buffer := snd (own s)\<rparr>) (mx_streams m)) \<and>
    mixer_read F busy out 0 m = Some (out, m) \<and> mixer_read F busy [] n m = Some ([], m)"
proof -
  obtain sc where sc: "length sc = length (mx_scratch m)" "mixer_read F busy out n m =
    (if mx_streams m = [] then Some (replicate (length out) 0, m)
     else Some (mixed_sound F busy frames m @ replicate (length out - frames * mx_bytes_per_frame m) 0,
       m\<lparr>mx_streams := map (\<lambda>s. s\<lparr>sm_buffer := snd (own s)\<rparr>) (mx_streams m), mx_scratch := sc\<rparr>))"
    using mixer_read_spec[OF assms(1,4), of F busy] assms(2,3) unfolding assms(5) by auto
  have "mixer_inv (m\<lparr>mx_streams := map (\<lambda>s. s\<lparr>sm_buffer := snd (own s)\<rparr>) (mx_streams m), mx_scratch := sc\<rparr>)"
    unfolding assms(5) by (rule mixer_inv_own_sounds[OF assms(1) sc(1)])
  moreover have "mixer_read F busy out 0 m = Some (out, m)" "mixer_read F busy [] n m = Some ([], m)"
    by (simp_all add: mixer_read_def)
  ultimately show ?thesis using sc(2) assms(1)
    by (simp add: mixed_sound_def Let_def mixed_sample_def assms(5)[symmetric] assms(6)[symmetric])
qed

definition demo_mixer_options :: "rat mixer_options" where
  "demo_mixer_options = \<lparr>mo_format = \<lparr>f_rate = 8000, f_channels = 1, f_frame_samples = 2\<rparr>,
     mo_jitter = \<lparr>jo_format = zero_format, jo_target_frames = 2, jo_high_watermark_frames = 3\<rparr>,
     mo_master_gain = 0, mo_scratch_frames = 0\<rparr>"

lemma demo_mixer_ok: "\<exists>m. new_mixer rat_ops demo_mixer_options = Inr m \<and> mixer_inv m"
proof -
  obtain m where m: "new_mixer rat_ops demo_mixer_options = Inr m" "f_channels (mx_format m) < 2 ^ 20"
    "mx_jitter m = \<lparr>jo_format = \<lparr>f_rate = 8000, f_channels = 1, f_frame_samples = 2\<rparr>,
       jo_target_frames = 2, jo_high_watermark_frames = 3\<rparr>"
    by (simp add: demo_mixer_options_def new_mixer_def new_jitter_buffer_def zero_format_def
        validate_format_def bytes_per_frame_def wrap64_id Let_def)
  have "\<forall>b. new_jitter_buffer (mx_jitter m) = Inr b \<longrightarrow> jb_high_frames b < 2 ^ 32"
    unfolding m(3) by (auto simp: new_jitter_buffer_def zero_format_def validate_format_def
        bytes_per_frame_def wrap64_id Let_def)
  with m show ?thesis using new_mixer_inv[OF m(1,2)] by blast
qed

text \<open>
  One stream at unit gain is played bit for bit: what \<^verbatim>\<open>Read\<close> puts out is the front of the
  stream's queue.  The IEEE facts used are those of \<open>exact_s16\<close>.
\<close>

theorem mixer_passthrough:
  assumes "exact_s16 F" "mixer_inv m" "mx_streams m = [s]" "mx_master_gain m = fo_one F"
    "sm_gain s = fo_one F" "0 < unat n" "length out = unat n * mx_bytes_per_frame m"
    "unat n * mx_bytes_per_frame m \<le> length (mx_scratch m)"
    "jb_ready (unat n) (sm_buffer s)" "\<not> busy 0 (sm_id s)"
  shows "\<exists>m'. mixer_read F busy out n m =
    Some (take (unat n * mx_bytes_per_frame m) (jb_abs (sm_buffer s)), m')"
  by (rule mixer_passthrough_gen) (rule assms)+

lemma demo_stream:
  "\<exists>m s. mixer_inv m \<and> mx_streams m = [s] \<and> mx_master_gain m = fo_one rat_ops \<and>
    sm_gain s = fo_one rat_ops \<and> mx_bytes_per_frame m = 2 \<and> 4 \<le> length (mx_scratch m) \<and>
    jb_ready 2 (sm_buffer s) \<and> jb_abs (sm_buffer s) = [1, 2, 3, 4]"
proof -
  obtain m where m: "new_mixer rat_ops demo_mixer_options = Inr m" "mixer_inv m"
    using demo_mixer_ok by blast
  have f: "mx_streams m = []" "mx_bytes_per_frame m = 2" "length (mx_scratch m) = 4"
    "mx_master_gain m = 1"
    "(mx_jitter m)\<lparr>jo_format := mx_format m\<rparr> = \<lparr>jo_format = \<lparr>f_rate = 8000, f_channels = 1, f_frame_samples = 2\<rparr>,
       jo_target_frames = 2, jo_high_watermark_frames = 3\<rparr>"
    using m(1) by (auto simp: demo_mixer_options_def new_mixer_def new_jitter_buffer_def zero_format_def
        validate_format_def bytes_per_frame_def wrap64_id Let_def rat_ops_def)
  obtain s where s: "add_stream rat_ops m ''a'' [] [] = Inr (s, m\<lparr>mx_streams := mx_streams m @ [s]\<rparr>)"
    "sm_gain s = 1" "stream_ok 2 s"
    "new_jitter_buffer ((mx_jitter m)\<lparr>jo_format := mx_format m\<rparr>) = Inr (sm_buffer s)"
    using add_stream_ok[OF m(2), of "''a''" rat_ops "[]" "[]"] f by (auto simp: rat_ops_def)
  have b: "jb_high_frames (sm_buffer s) = 3" "jb_target_frames (sm_buffer s) = 2" "jb_used (sm_buffer s) = 0"
    "jb_bytes_per_frame (sm_buffer s) = 2"
    using s(4)[unfolded f(5)] by (auto simp: new_jitter_buffer_def zero_format_def validate_format_def
        bytes_per_frame_def wrap64_id Let_def dest: sym)
  have i: "jb_inv (sm_buffer s)" using s(3) by (simp add: stream_ok_def)
  let ?b = "snd (jb_write [1, 2, 3, 4] (sm_buffer s))"
  let ?s = "s\<lparr>sm_buffer := ?b\<rparr>"
  have ok: "jb_ok (sm_buffer s) [1, 2, 3, 4]" by (simp add: jb_ok_def b)
  have len: "length (jb_buf (sm_buffer s)) = 6" using i b by (simp add: jb_inv_def)
  have "jb_abs (sm_buffer s) = []" using b(3) by (simp add: jb_abs_def)
  then have a: "jb_abs ?b = [1, 2, 3, 4]"
    using jb_write_aligned(4)[OF i ok] by (simp add: len newest_all)
  then have u: "jb_used ?b = 4" using length_jb_abs[of ?b] by simp
  have w: "jb_inv ?b" "jb_bytes_per_frame ?b = 2" using jb_write_inv[OF i, of "[1, 2, 3, 4]"] b by simp_all
  have "jb_target_frames ?b = 2"
    using b by (simp add: jb_write_def jb_store_queue_frames_def jb_prime_def jb_write_locked_def Let_def)
  then have rdy: "jb_ready 2 ?b" using u w by (simp add: jb_ready_def)
  have id: "sm_id s \<noteq> []" using s(1) by (auto simp: add_stream_def new_stream_def split: sum.splits if_splits)
  have "mixer_inv (m\<lparr>mx_streams := [?s]\<rparr>)"
    using m(2) w id by (simp add: mixer_inv_def f stream_ok_def)
  then show ?thesis
    using f s(2) rdy a
    by (intro exI[of _ "m\<lparr>mx_streams := [?s]\<rparr>"] exI[of _ ?s]) (simp add: rat_ops_def)
qed

theorem mixer_passthrough_witness:
  "\<exists>m m'. mixer_read rat_ops (\<lambda>_ _. False) [0, 0, 0, 0] 2 m = Some ([1, 2, 3, 4], m')"
proof -
  obtain m s where m: "mixer_inv m" "mx_streams m = [s]" "mx_master_gain m = fo_one rat_ops"
    "sm_gain s = fo_one rat_ops" "mx_bytes_per_frame m = 2" "4 \<le> length (mx_scratch m)"
    "jb_ready 2 (sm_buffer s)" "jb_abs (sm_buffer s) = [1, 2, 3, 4]"
    using demo_stream by (elim exE conjE)
  have n: "unat (2 :: u32) = 2" by simp
  have "\<exists>m'. mixer_read rat_ops (\<lambda>_ _. False) [0, 0, 0, 0] 2 m =
      Some (take (unat (2 :: u32) * mx_bytes_per_frame m) (jb_abs (sm_buffer s)), m')"
    by (rule mixer_passthrough[OF rat_ops_exact m(1-4)]) (simp_all add: n m(5-8) del: unat_numeral)
  then show ?thesis unfolding n m(5,8) by auto
qed

theorem mixer_read_fills_witness:
  "\<exists>m m'. mixer_read rat_ops (\<lambda>_ _. False) [9, 9, 9, 9, 9] 2 m = Some ([1, 2, 3, 4, 0], m') \<and>
    mixer_read rat_ops (\<lambda>_ _. True) [9, 9, 9, 9, 9] 2 m \<noteq> None"
proof -
  obtain m s where m: "mixer_inv m" "mx_streams m = [s]" "mx_master_gain m = fo_one rat_ops"
    "sm_gain s = fo_one rat_ops" "mx_bytes_per_frame m = 2" "4 \<le> length (mx_scratch m)"
    "jb_ready 2 (sm_buffer s)" "jb_abs (sm_buffer s) = [1, 2, 3, 4]"
    using demo_stream by (elim exE conjE)
  have ch: "mx_channels m = 1" "jb_bytes_per_frame (sm_buffer s) = 2"
    using m(1,2,5) by (auto simp: mixer_inv_def stream_ok_def)
  have c: "2 \<le> length (mx_scratch m) div 2" using m(6) by simp
  have own: "fst (own_sound (\<lambda>_ _. False) (length (mx_scratch m) div 2) 0 2 s) = [1, 2, 3, 4]"
    using c m(7,8) by (simp add: own_sound_def stream_sound.simps buffer_gives_def ch min_absorb2 Let_def split_beta)
  have s: "sample_at [1, 2, 3, 4] 0 = 513" "sample_at [1, 2, 3, 4] 1 = 1027" by code_simp+
  have f: "trunc_rat (1027 + 1 / 2) = 1027" "trunc_rat (513 + 1 / 2) = 513" by (simp_all add: trunc_rat_def floor_eq_iff)
  have p: "put_le 2 (clamp_s16 rat_ops 513) = [1, 2]" "put_le 2 (clamp_s16 rat_ops 1027) = [3, 4]"
  proof -
    have "clamp_s16 rat_ops 513 = 513" "clamp_s16 rat_ops 1027 = 1027" using f by (simp_all add: clamp_s16_def rat_ops_def)
    moreover have "put_le 2 (513 :: u16) = [1, 2]" "put_le 2 (1027 :: u16) = [3, 4]" by code_simp+
    ultimately show "put_le 2 (clamp_s16 rat_ops 513) = [1, 2]" "put_le 2 (clamp_s16 rat_ops 1027) = [3, 4]" by simp_all
  qed
  have u: "[0..<2 * 1] = [0, 1 :: nat]" by (simp add: upt_rec)
  let ?own = "own_sound (\<lambda>_ _. False) (length (mx_scratch m) div mx_bytes_per_frame m) 0 2"
  have fr: "2 = min (unat (2 :: u32)) (length [9, 9, 9, 9, 9 :: 8 word] div mx_bytes_per_frame m)" by (simp add: m(5))
  have g: "fo_div rat_ops (mx_master_gain m) (fo_of_int rat_ops (int (length (mx_streams m)))) = 1" by (simp add: m(2,3) rat_ops_def)
  have smp: "concat (map (\<lambda>i. put_le 2 (clamp_s16 rat_ops (fold (\<lambda>s a. fo_add rat_ops a (fo_mul rat_ops
        (fo_of_int rat_ops (sint (sample_at (fst (?own s)) i))) (fo_mul rat_ops 1 (sm_gain s)))) (mx_streams m) (fo_zero rat_ops))))
      [0..<2 * mx_channels m]) @ replicate (length [9, 9, 9, 9, 9 :: 8 word] - 2 * mx_bytes_per_frame m) 0 = [1, 2, 3, 4, 0]"
    unfolding m(2) ch(1) u using own s p by (simp add: m(4,5) rat_ops_def)
  have "\<exists>m'. mixer_read rat_ops (\<lambda>_ _. False) [9, 9, 9, 9, 9] 2 m = Some ([1, 2, 3, 4, 0], m')"
    using mixer_read_fills[OF m(1) _ _ fr refl g[symmetric], of "\<lambda>_ _. False"] smp m(2) by auto
  moreover have "mixer_read rat_ops (\<lambda>_ _. True) [9, 9, 9, 9, 9] 2 m \<noteq> None"
    using mixer_read_fills[OF m(1) _ _ fr refl refl, of rat_ops "\<lambda>_ _. True"] by auto
  ultimately show ?thesis by blast
qed

end
