(* ===== verification/FrameTracker.thy ===== *)
theory FrameTracker
  imports GoInt
begin

text \<open>
  The sequence tracker of the legacy receiver: \<^verbatim>\<open>frameTracker\<close> in
  \<^verbatim>\<open>engine/internal/transport/receiver.go\<close>.  Sequence numbers and capture positions are \<^verbatim>\<open>uint64\<close>.
\<close>

record frame_tracker =
  ft_seen :: bool
  ft_expected_seq :: u64
  ft_expected_capture_frame :: u64
  ft_max_gap_frames :: int

record accept_result =
  ar_expected_seq :: u64
  ar_expected_capture_frame :: u64
  ar_missing_packets :: u64
  ar_capture_gap_frames :: u64
  ar_gap_frames :: int
  ar_stale :: bool
  ar_capture_moved_backward :: bool

definition zero_tracker :: frame_tracker where
  "zero_tracker = \<lparr>ft_seen = False, ft_expected_seq = 0, ft_expected_capture_frame = 0,
     ft_max_gap_frames = 0\<rparr>"

definition zero_result :: accept_result where
  "zero_result = \<lparr>ar_expected_seq = 0, ar_expected_capture_frame = 0, ar_missing_packets = 0,
     ar_capture_gap_frames = 0, ar_gap_frames = 0, ar_stale = False,
     ar_capture_moved_backward = False\<rparr>"

abbreviation (input) defaultMaxGapFrames :: int where "defaultMaxGapFrames \<equiv> 192000 * 3"

abbreviation (input) max_u64 :: u64 where "max_u64 \<equiv> NOT 0"

definition cap_gap_frames :: "frame_tracker \<Rightarrow> u64 \<Rightarrow> int" where
  "cap_gap_frames t gap =
     (let maxGap = (if ft_max_gap_frames t \<le> 0 then defaultMaxGapFrames else ft_max_gap_frames t) in
      if gap > word_of_int maxGap then maxGap else uint gap)"

definition cap_missing_packet_frames :: "frame_tracker \<Rightarrow> u64 \<Rightarrow> int \<Rightarrow> int" where
  "cap_missing_packet_frames t missing packetFrames =
     (if missing = 0 \<or> packetFrames \<le> 0 then 0
      else let framesPerPacket = (word_of_int packetFrames :: u64) in
        if missing > max_u64 div framesPerPacket then cap_gap_frames t max_u64
        else cap_gap_frames t (missing * framesPerPacket))"

definition advance_capture_frame :: "u64 \<Rightarrow> int \<Rightarrow> u64" where
  "advance_capture_frame captureFrame packetFrames =
     (if packetFrames \<le> 0 then captureFrame
      else let frames = word_of_int packetFrames in
        if max_u64 - captureFrame < frames then max_u64 else captureFrame + frames)"

definition tracker_accept :: "u64 \<Rightarrow> u64 \<Rightarrow> int \<Rightarrow> frame_tracker \<Rightarrow> accept_result \<times> frame_tracker" where
  "tracker_accept seq captureFrame packetFrames t =
     (let advanced = t\<lparr>ft_seen := True, ft_expected_seq := seq + 1,
                       ft_expected_capture_frame := advance_capture_frame captureFrame packetFrames\<rparr>
      in
      if \<not> ft_seen t then (zero_result, advanced)
      else
        let r0 = zero_result\<lparr>ar_expected_seq := ft_expected_seq t,
                             ar_expected_capture_frame := ft_expected_capture_frame t\<rparr>
        in if seq < ft_expected_seq t then (r0\<lparr>ar_stale := True\<rparr>, t)
           else
             let r1 = (if seq > ft_expected_seq t
                       then r0\<lparr>ar_missing_packets := seq - ft_expected_seq t\<rparr> else r0);
                 r2 = (if captureFrame > ft_expected_capture_frame t
                       then let gap = captureFrame - ft_expected_capture_frame t
                            in r1\<lparr>ar_capture_gap_frames := gap, ar_gap_frames := cap_gap_frames t gap\<rparr>
                       else if captureFrame < ft_expected_capture_frame t
                       then r1\<lparr>ar_capture_moved_backward := True\<rparr> else r1);
                 r3 = (if ar_gap_frames r2 = 0 \<and> ar_missing_packets r2 > 0
                       then r2\<lparr>ar_gap_frames :=
                                cap_missing_packet_frames t (ar_missing_packets r2) packetFrames\<rparr>
                       else r2)
             in (r3, advanced))"

section \<open>Bounds\<close>

definition tracker_limit :: "frame_tracker \<Rightarrow> int" where
  "tracker_limit t = (if ft_max_gap_frames t \<le> 0 then defaultMaxGapFrames else ft_max_gap_frames t)"

lemma cap_gap_frames_bounds:
  "0 \<le> cap_gap_frames t gap \<and>
     (ft_max_gap_frames t < 2 ^ 63 \<longrightarrow> cap_gap_frames t gap \<le> tracker_limit t)"
proof -
  have "uint gap \<le> m" if "\<not> gap > word_of_int m" "0 < m" "m < 2 ^ 63" for m
    using that by (simp add: word_less_def uint_word_of_int not_less)
  then show ?thesis by (auto simp: cap_gap_frames_def tracker_limit_def Let_def)
qed

lemma cap_missing_bounds:
  "0 \<le> cap_missing_packet_frames t n k \<and>
     (ft_max_gap_frames t < 2 ^ 63 \<longrightarrow> cap_missing_packet_frames t n k \<le> tracker_limit t)"
  using cap_gap_frames_bounds[of t]
  by (auto simp: cap_missing_packet_frames_def Let_def tracker_limit_def)

lemma tracker_accept_gap:
  assumes "ft_max_gap_frames t < 2 ^ 63"
  shows "0 \<le> ar_gap_frames (fst (tracker_accept s c n t)) \<and>
    ar_gap_frames (fst (tracker_accept s c n t)) \<le> tracker_limit t"
  using assms cap_gap_frames_bounds[of t] cap_missing_bounds[of t]
  by (auto simp: tracker_accept_def zero_result_def tracker_limit_def Let_def)

lemma tracker_accept_stale:
  "ar_stale (fst (tracker_accept s c n t)) \<longleftrightarrow> ft_seen t \<and> s < ft_expected_seq t"
  by (simp add: tracker_accept_def zero_result_def Let_def)

lemma tracker_accept_state:
  "snd (tracker_accept s c n t) =
     (if ft_seen t \<and> s < ft_expected_seq t then t
      else t\<lparr>ft_seen := True, ft_expected_seq := s + 1,
             ft_expected_capture_frame := advance_capture_frame c n\<rparr>)"
  by (simp add: tracker_accept_def Let_def)

lemma tracker_accept_missing:
  "ar_missing_packets (fst (tracker_accept s c n t)) =
     (if ft_seen t \<and> ft_expected_seq t \<le> s then s - ft_expected_seq t else 0)"
  by (auto simp: tracker_accept_def zero_result_def Let_def not_less)

section \<open>Runs\<close>

text \<open>
  A run feeds a list of packets \<open>(seq, captureFrame)\<close> of equal length; it returns the sequence
  numbers it let through and the number of packets it counted as missing.
\<close>

fun tracker_run :: "int \<Rightarrow> (u64 \<times> u64) list \<Rightarrow> frame_tracker \<Rightarrow> u64 list \<times> u64 \<times> frame_tracker" where
  "tracker_run n [] t = ([], 0, t)"
| "tracker_run n ((s, c) # ps) t =
     (let (r, t1) = tracker_accept s c n t; (acc, missing, t2) = tracker_run n ps t1
      in (if ar_stale r then acc else s # acc, ar_missing_packets r + missing, t2))"

lemma u64_less_Suc: "s \<noteq> max_u64 \<Longrightarrow> s < s + 1" for s :: u64
proof -
  assume "s \<noteq> max_u64"
  then have "1 + s \<noteq> 0" by (metis add.commute add_eq_0_iff bit.compl_zero)
  then have "unat (1 + s) = Suc (unat s)" by (rule unatSuc)
  then show "s < s + 1" by (simp add: word_less_nat_alt add.commute)
qed

text \<open>
  The wrap-around at \<open>2 ^ 64 - 1\<close> aside, what the tracker lets through is strictly increasing: no
  packet is played twice or out of order.
\<close>

lemma tracker_run_increasing:
  assumes "max_u64 \<notin> fst ` set ps" "tracker_run n ps t = (acc, missing, t')"
  shows "sorted_wrt (<) acc \<and> (ft_seen t \<longrightarrow> list_all (\<lambda>s. ft_expected_seq t \<le> s) acc)"
  using assms
proof (induction n ps t arbitrary: acc missing t' rule: tracker_run.induct)
  case (1 n t)
  then show ?case by simp
next
  case (2 n s c ps t)
  obtain r t1 where a: "tracker_accept s c n t = (r, t1)" by fastforce
  obtain acc1 m1 t2 where b: "tracker_run n ps t1 = (acc1, m1, t2)" by (metis prod_cases3)
  have ih: "sorted_wrt (<) acc1 \<and> (ft_seen t1 \<longrightarrow> list_all (\<lambda>s. ft_expected_seq t1 \<le> s) acc1)"
    using "2.IH"[OF a[symmetric] refl _ b] "2.prems"(1) by simp
  have lt: "s < s + 1" using "2.prems"(1) by (intro u64_less_Suc) auto
  have t1: "t1 = (if ft_seen t \<and> s < ft_expected_seq t then t
      else t\<lparr>ft_seen := True, ft_expected_seq := s + 1,
             ft_expected_capture_frame := advance_capture_frame c n\<rparr>)"
    and r: "ar_stale r \<longleftrightarrow> ft_seen t \<and> s < ft_expected_seq t"
    using tracker_accept_state[of s c n t] tracker_accept_stale[of s c n t] a by simp_all
  show ?case
  proof (cases "ft_seen t \<and> s < ft_expected_seq t")
    case True
    then show ?thesis using ih "2.prems"(2) a b r t1 by simp
  next
    case False
    then have acc: "acc = s # acc1" using "2.prems"(2) a b r by auto
    have later: "list_all (\<lambda>x. s + 1 \<le> x) acc1" using ih False by (simp add: t1)
    then have "list_all (\<lambda>x. s < x) acc1" using lt by (auto simp: list_all_iff)
    moreover have "list_all (\<lambda>x. ft_expected_seq t \<le> x) acc1" if "ft_seen t"
      using later lt False that by (fastforce simp: list_all_iff)
    ultimately show ?thesis using ih False by (simp add: acc list_all_iff not_less)
  qed
qed

text \<open>
  Every sequence number between the first packet and the last is either let through or counted as
  missing, in \<^verbatim>\<open>uint64\<close> arithmetic.
\<close>

lemma tracker_run_accounts:
  assumes "ft_seen t" "tracker_run n ps t = (acc, missing, t')"
  shows "ft_seen t' \<and> word_of_nat (length acc) + missing = ft_expected_seq t' - ft_expected_seq t"
  using assms
proof (induction n ps t arbitrary: acc missing t' rule: tracker_run.induct)
  case (1 n t)
  then show ?case by simp
next
  case (2 n s c ps t)
  obtain r t1 where a: "tracker_accept s c n t = (r, t1)" by fastforce
  obtain acc1 m1 t2 where b: "tracker_run n ps t1 = (acc1, m1, t2)" by (metis prod_cases3)
  have t1: "t1 = (if s < ft_expected_seq t then t
      else t\<lparr>ft_seen := True, ft_expected_seq := s + 1,
             ft_expected_capture_frame := advance_capture_frame c n\<rparr>)"
    and r: "ar_stale r \<longleftrightarrow> s < ft_expected_seq t"
    and m: "ar_missing_packets r = (if s < ft_expected_seq t then 0 else s - ft_expected_seq t)"
    using tracker_accept_state[of s c n t] tracker_accept_stale[of s c n t]
      tracker_accept_missing[of s c n t] a "2.prems"(1) by (simp_all add: not_le[symmetric])
  have ih: "ft_seen t2 \<and> word_of_nat (length acc1) + m1 = ft_expected_seq t2 - ft_expected_seq t1"
    using "2.IH"[OF a[symmetric] refl _ b] "2.prems"(1) t1 by simp
  show ?case
    using ih "2.prems" a b r m t1 by (cases "s < ft_expected_seq t") (auto simp: algebra_simps)
qed

section \<open>Properties\<close>

text \<open>
  The tracker never lets a packet through twice or out of order: as long as no sequence number is
  the last of \<^verbatim>\<open>uint64\<close> (where the expected number wraps), the sequence numbers it accepts are
  strictly increasing.
\<close>

theorem tracker_increasing:
  assumes "max_u64 \<notin> fst ` set ps" "tracker_run n ps zero_tracker = (acc, missing, t)"
  shows "sorted_wrt (<) acc"
  using tracker_run_increasing[OF assms] by blast

theorem tracker_increasing_witness:
  "\<exists>acc missing t. tracker_run 2 [(5, 0), (7, 4), (6, 2), (7, 4), (8, 6)] zero_tracker = (acc, missing, t) \<and>
     sorted_wrt (<) acc"
proof -
  obtain acc missing t where run:
    "tracker_run 2 [(5, 0), (7, 4), (6, 2), (7, 4), (8, 6)] zero_tracker = (acc, missing, t)"
    by (metis prod_cases3)
  have "max_u64 \<notin> fst ` set [(5 :: u64, 0 :: u64), (7, 4), (6, 2), (7, 4), (8, 6)]" by simp
  from tracker_increasing[OF this run] run show ?thesis by blast
qed

text \<open>
  Loss accounting is exact: after a first packet, the packets let through and the packets counted
  as missing add up to the distance the expected sequence number has moved (in \<^verbatim>\<open>uint64\<close>
  arithmetic), and the concealment a gap asks for is between nothing and three seconds at the
  highest sample rate.
\<close>

theorem tracker_accounts:
  assumes "tracker_accept s c n zero_tracker = (r0, t0)" "tracker_run n ps t0 = (acc, missing, t)"
  shows "word_of_nat (length acc) + missing = ft_expected_seq t - (s + 1) \<and>
    0 \<le> ar_gap_frames (fst (tracker_accept s' c' n' t)) \<and>
    ar_gap_frames (fst (tracker_accept s' c' n' t)) \<le> 576000"
proof -
  have keep: "ft_max_gap_frames t2 = ft_max_gap_frames t1" if "tracker_run n ps t1 = (acc, missing, t2)"
    for n ps t1 acc missing t2
    using that
  proof (induction n ps t1 arbitrary: acc missing t2 rule: tracker_run.induct)
    case (2 n s c ps t)
    then show ?case
      using tracker_accept_state[of s c n t] by (fastforce split: prod.splits if_splits)
  qed simp
  have t0: "ft_seen t0" "ft_expected_seq t0 = s + 1" "ft_max_gap_frames t0 = 0"
    using assms(1) by (auto simp: tracker_accept_def zero_tracker_def Let_def)
  then have "ft_max_gap_frames t = 0" using keep[OF assms(2)] by simp
  then show ?thesis
    using tracker_run_accounts[OF t0(1) assms(2)] t0 tracker_accept_gap[of t s' c' n']
    by (simp add: tracker_limit_def)
qed

theorem tracker_accounts_witness:
  "\<exists>r0 t0 acc missing t. tracker_accept 5 0 2 zero_tracker = (r0, t0) \<and>
     tracker_run 2 [(7, 4), (6, 2), (8, 6)] t0 = (acc, missing, t) \<and>
     word_of_nat (length acc) + missing = ft_expected_seq t - 6"
proof -
  obtain r0 t0 where 0: "tracker_accept 5 0 2 zero_tracker = (r0, t0)" by fastforce
  obtain acc missing t where run: "tracker_run 2 [(7, 4), (6, 2), (8, 6)] t0 = (acc, missing, t)"
    by (metis prod_cases3)
  from tracker_accounts[OF 0 run] 0 run show ?thesis by auto
qed

end
