(* ===== verification/Receiver.thy ===== *)
theory Receiver
  imports ProtocolV1 Mixer FrameTracker "HOL-Library.AList"
begin

text \<open>
  The legacy receiver, \<^verbatim>\<open>engine/internal/transport/receiver.go\<close>: TCP connections and UDP sources that
  feed the mixer.  Listeners, goroutines and deadlines are the caller's; each handler body that runs
  under \<^verbatim>\<open>activeMu\<close> or in the UDP loop is a function on the receiver's state.  A source address is
  its printed form.  Go maps are association lists with unique keys, a \<^verbatim>\<open>*mixer.Stream\<close> is the id of
  the stream in the mixer.
\<close>

record 'f receiver =
  rx_format :: format
  rx_mixer :: "'f mixer"
  rx_max_streams :: nat
  rx_gaps :: u64
  rx_stale_frames :: u64
  rx_next_stream_id :: u64
  rx_active_streams :: "(string \<times> string) list"

record udp_source =
  us_stream_id :: string
  us_tracker :: frame_tracker
  us_last_seen :: int

record receiver_options =
  ro_format :: format
  ro_buffer_frames :: int
  ro_max_streams :: int

datatype receiver_error =
    RxFormat format_error
  | RxMixer mixer_error
  | RxHandshake proto_error
  | RxSampleRateMismatch
  | RxChannelMismatch
  | RxFormatMismatch
  | RxFrameSampleMismatch
  | RxTooManyStreams

abbreviation (input) defaultMaxStreams :: int where "defaultMaxStreams \<equiv> 8"
abbreviation (input) udpReadTimeout :: int where "udpReadTimeout \<equiv> 250000000"
abbreviation (input) udpIdleTimeout :: int where "udpIdleTimeout \<equiv> 2000000000"

section \<open>Construction\<close>

definition frames_for_millis :: "int \<Rightarrow> int \<Rightarrow> int" where
  "frames_for_millis rate millis =
     (let frames = wrap64 (rate * millis) sdiv 1000 in if frames < 1 then 1 else frames)"

definition receiver_jitter_options :: "format \<Rightarrow> int \<Rightarrow> jitter_options" where
  "receiver_jitter_options format targetFrames =
     (if targetFrames \<le> 0
      then \<lparr>jo_format = format, jo_target_frames = 0, jo_high_watermark_frames = 0\<rparr>
      else \<lparr>jo_format = format, jo_target_frames = targetFrames,
            jo_high_watermark_frames = max targetFrames (frames_for_millis (f_rate format) 80)\<rparr>)"

definition new_receiver :: "'f float_ops \<Rightarrow> receiver_options \<Rightarrow> receiver_error + 'f receiver" where
  "new_receiver F opts =
     (let format = (if ro_format opts = zero_format then default_format else ro_format opts) in
      case validate_format format of
        Some e \<Rightarrow> Inl (RxFormat e)
      | None \<Rightarrow>
          let maxStreams = (if ro_max_streams opts \<le> 0 then defaultMaxStreams else ro_max_streams opts) in
          (case new_mixer F \<lparr>mo_format = format,
                   mo_jitter = receiver_jitter_options format (ro_buffer_frames opts),
                   mo_master_gain = fo_zero F, mo_scratch_frames = 0\<rparr> of
             Inl e \<Rightarrow> Inl (RxMixer e)
           | Inr mix \<Rightarrow>
               Inr \<lparr>rx_format = format, rx_mixer = mix, rx_max_streams = nat maxStreams,
                    rx_gaps = 0, rx_stale_frames = 0, rx_next_stream_id = 0,
                    rx_active_streams = []\<rparr>))"

section \<open>Handshake checks\<close>

definition rx_validate_format :: "'f receiver \<Rightarrow> handshake \<Rightarrow> receiver_error option" where
  "rx_validate_format r hs =
     (case validate_handshake hs of
        Some e \<Rightarrow> Some (RxHandshake e)
      | None \<Rightarrow>
          if uint (hs_sample_rate hs) \<noteq> f_rate (rx_format r) then Some RxSampleRateMismatch
          else if uint (hs_channels hs) \<noteq> f_channels (rx_format r) then Some RxChannelMismatch
          else if hs_format hs \<noteq> FormatS16LE then Some RxFormatMismatch
          else None)"

definition rx_validate_tcp_handshake :: "'f receiver \<Rightarrow> handshake \<Rightarrow> receiver_error option" where
  "rx_validate_tcp_handshake r hs =
     (case rx_validate_format r hs of
        Some e \<Rightarrow> Some e
      | None \<Rightarrow>
          if uint (hs_frame_samples hs) \<noteq> f_frame_samples (rx_format r)
          then Some RxFrameSampleMismatch else None)"

section \<open>The stream registry\<close>

definition tcp_stream_key :: "string \<Rightarrow> 'f receiver \<Rightarrow> string \<times> 'f receiver" where
  "tcp_stream_key remote r =
     (let n = rx_next_stream_id r + 1
      in (''tcp:'' @ remote @ ''#'' @ show_nat (unat n), r\<lparr>rx_next_stream_id := n\<rparr>))"

definition udp_stream_key :: "string \<Rightarrow> string" where
  "udp_stream_key src = ''udp:'' @ src"

definition register_stream ::
  "'f float_ops \<Rightarrow> string \<Rightarrow> string \<Rightarrow> string \<Rightarrow> 'f receiver \<Rightarrow> string option \<times> 'f receiver" where
  "register_stream F key name remote r =
     (if map_of (rx_active_streams r) key \<noteq> None then (None, r)
      else if length (rx_active_streams r) \<ge> rx_max_streams r then (None, r)
      else (case add_stream F (rx_mixer r) key name remote of
          Inl e \<Rightarrow> (None, r)
        | Inr (_, m) \<Rightarrow>
            (Some key, r\<lparr>rx_mixer := m, rx_active_streams := AList.update key key (rx_active_streams r)\<rparr>)))"

text \<open>A missing map entry reads as the empty string.\<close>

definition unregister_stream :: "string \<Rightarrow> string \<Rightarrow> 'f receiver \<Rightarrow> 'f receiver" where
  "unregister_stream key i r =
     (if (case map_of (rx_active_streams r) key of None \<Rightarrow> [] | Some j \<Rightarrow> j) = i
      then r\<lparr>rx_active_streams := AList.delete key (rx_active_streams r),
             rx_mixer := snd (remove_stream (rx_mixer r) i)\<rparr>
      else r)"

definition stream_write :: "string \<Rightarrow> bytes \<Rightarrow> 'f receiver \<Rightarrow> 'f receiver" where
  "stream_write i pcm r =
     r\<lparr>rx_mixer := (rx_mixer r)\<lparr>mx_streams :=
         map (\<lambda>s. if sm_id s = i then s\<lparr>sm_buffer := snd (jb_write pcm (sm_buffer s))\<rparr> else s)
           (mx_streams (rx_mixer r))\<rparr>\<rparr>"

text \<open>\<^verbatim>\<open>writeSilence\<close> writes in chunks of at most one datagram's worth of frames.\<close>

function silence_loop :: "nat \<Rightarrow> nat \<Rightarrow> nat \<Rightarrow> string \<Rightarrow> 'f receiver \<Rightarrow> 'f receiver" where
  "silence_loop bpf chunkFrames frames i r =
     (if frames = 0 \<or> chunkFrames = 0 then r
      else let n = min frames chunkFrames
           in silence_loop bpf chunkFrames (frames - n) i (stream_write i (replicate (n * bpf) 0) r))"
  by pat_completeness auto
termination by (relation "measure (\<lambda>(b, c, f, i, r). f)") auto

declare silence_loop.simps [simp del]

definition write_silence :: "string \<Rightarrow> int \<Rightarrow> 'f receiver \<Rightarrow> 'f receiver" where
  "write_silence i frames r =
     (let bpf = bytes_per_frame (rx_format r) in
      if frames \<le> 0 then r
      else if bpf \<le> 0 then r
      else silence_loop (nat bpf) (max 1 (MaxUDPAudioPayloadBytes div nat bpf)) (nat frames) i r)"

section \<open>Frames\<close>

definition accept_tracked_frame ::
  "frame_tracker \<Rightarrow> frame \<Rightarrow> int \<Rightarrow> 'f receiver \<Rightarrow> (bool \<times> int) \<times> frame_tracker \<times> 'f receiver" where
  "accept_tracked_frame t f packetFrames r =
     (let (res, t1) = tracker_accept (fr_seq f) (fr_capture_frame f) packetFrames t in
      if ar_stale res
      then ((False, 0), t1, r\<lparr>rx_stale_frames := rx_stale_frames r + 1\<rparr>)
      else ((True, ar_gap_frames res), t1,
            if ar_missing_packets res > 0
            then r\<lparr>rx_gaps := rx_gaps r + ar_missing_packets res\<rparr> else r))"

section \<open>A TCP connection\<close>

definition tcp_open ::
  "'f float_ops \<Rightarrow> string \<Rightarrow> handshake \<Rightarrow> 'f receiver \<Rightarrow> (receiver_error + string) \<times> 'f receiver" where
  "tcp_open F remote hs r =
     (case rx_validate_tcp_handshake r hs of
        Some e \<Rightarrow> (Inl e, r)
      | None \<Rightarrow>
          let (key, r1) = tcp_stream_key remote r in
          (case register_stream F key (str_of_bytes (hs_name hs)) remote r1 of
             (None, r2) \<Rightarrow> (Inl RxTooManyStreams, r2)
           | (Some i, r2) \<Rightarrow> (Inr i, r2)))"

definition tcp_frame :: "string \<Rightarrow> handshake \<Rightarrow> frame \<Rightarrow> frame_tracker \<Rightarrow> 'f receiver \<Rightarrow> frame_tracker \<times> 'f receiver" where
  "tcp_frame i hs f t r =
     (let ((ok, _), t1, r1) = accept_tracked_frame t f (uint (hs_frame_samples hs)) r
      in (t1, if ok then stream_write i (fr_payload f) r1 else r1))"

text \<open>The read loop ends with the first error of the connection; every frame takes bytes off it.\<close>

lemma read_frame_shorter:
  "read_frame h rd = Inr (f, rd') \<Longrightarrow> length (r_data rd') < length (r_data rd)"
  using fr_stream.rd_sound[of h rd f rd'] by (auto simp: length_encode_frame_header)

function tcp_loop :: "string \<Rightarrow> handshake \<Rightarrow> reader \<Rightarrow> frame_tracker \<Rightarrow> 'f receiver \<Rightarrow> 'f receiver" where
  "tcp_loop i hs rd t r =
     (case read_frame hs rd of
        Inl e \<Rightarrow> r
      | Inr (f, rd1) \<Rightarrow> (let (t1, r1) = tcp_frame i hs f t r in tcp_loop i hs rd1 t1 r1))"
  by pat_completeness auto
termination
  by (relation "measure (\<lambda>(i, hs, rd, t, r). length (r_data rd))") (auto dest: read_frame_shorter)

declare tcp_loop.simps [simp del]

definition handle_connection :: "'f float_ops \<Rightarrow> string \<Rightarrow> reader \<Rightarrow> 'f receiver \<Rightarrow> 'f receiver" where
  "handle_connection F remote rd r =
     (case read_handshake rd of
        Inl e \<Rightarrow> r
      | Inr (hs, rd1) \<Rightarrow>
          (case tcp_open F remote hs r of
             (Inl e, r1) \<Rightarrow> r1
           | (Inr i, r1) \<Rightarrow> unregister_stream i i (tcp_loop i hs rd1 zero_tracker r1)))"

section \<open>UDP sources\<close>

type_synonym sources = "(string \<times> udp_source) list"

definition handle_udp_hello ::
  "'f float_ops \<Rightarrow> string \<Rightarrow> handshake \<Rightarrow> int \<Rightarrow> sources \<times> 'f receiver \<Rightarrow> sources \<times> 'f receiver" where
  "handle_udp_hello F src hs now st =
     (let (sources, r) = st in
      case rx_validate_format r hs of
        Some e \<Rightarrow> (sources, r)
      | None \<Rightarrow>
          (case map_of sources src of
             Some state \<Rightarrow> (AList.update src (state\<lparr>us_last_seen := now\<rparr>) sources, r)
           | None \<Rightarrow>
               (case register_stream F (udp_stream_key src) (str_of_bytes (hs_name hs)) src r of
                  (None, r1) \<Rightarrow> (sources, r1)
                | (Some i, r1) \<Rightarrow>
                    (AList.update src \<lparr>us_stream_id = i, us_tracker = zero_tracker, us_last_seen = now\<rparr> sources,
                     r1))))"

definition handle_udp_audio :: "string \<Rightarrow> frame \<Rightarrow> int \<Rightarrow> sources \<times> 'f receiver \<Rightarrow> sources \<times> 'f receiver" where
  "handle_udp_audio src f now st =
     (let (sources, r) = st in
      case map_of sources src of
        None \<Rightarrow> (sources, r)
      | Some state \<Rightarrow>
          let payloadLen = int (length (fr_payload f)); bpf = bytes_per_frame (rx_format r) in
          if bpf \<le> 0 \<or> payloadLen smod bpf \<noteq> 0 then (sources, r)
          else
            let packetFrames = payloadLen sdiv bpf;
                ((ok, gapFrames), t1, r1) = accept_tracked_frame (us_tracker state) f packetFrames r;
                sources1 = AList.update src (state\<lparr>us_last_seen := now, us_tracker := t1\<rparr>) sources
            in if \<not> ok then (sources1, r1)
               else
                 let r2 = (if gapFrames > 0 then write_silence (us_stream_id state) gapFrames r1 else r1)
                 in (sources1, stream_write (us_stream_id state) (fr_payload f) r2))"

definition cleanup_idle :: "int \<Rightarrow> sources \<times> 'f receiver \<Rightarrow> sources \<times> 'f receiver" where
  "cleanup_idle now st =
     (let (sources, r) = st; idle = (\<lambda>(src, state). now - us_last_seen state > udpIdleTimeout)
      in (filter (\<lambda>x. \<not> idle x) sources,
          foldl (\<lambda>r (src, state). unregister_stream (udp_stream_key src) (us_stream_id state) r) r
            (filter idle sources)))"

definition udp_loop_exit :: "sources \<times> 'f receiver \<Rightarrow> 'f receiver" where
  "udp_loop_exit st =
     (let (sources, r) = st
      in foldl (\<lambda>r (src, state). unregister_stream (udp_stream_key src) (us_stream_id state) r) r sources)"

record 'f udp_loop =
  ul_sources :: sources
  ul_receiver :: "'f receiver"
  ul_next_cleanup :: int

definition cleanup_if_due :: "int \<Rightarrow> 'f udp_loop \<Rightarrow> 'f udp_loop" where
  "cleanup_if_due now u =
     (if now < ul_next_cleanup u then u
      else let (sources, r) = cleanup_idle now (ul_sources u, ul_receiver u)
           in u\<lparr>ul_sources := sources, ul_receiver := r, ul_next_cleanup := now + udpReadTimeout\<rparr>)"

text \<open>One turn of \<^verbatim>\<open>runUDPReceiveLoop\<close>: a read timeout, or a datagram from a source.\<close>

datatype udp_event = UDPTimeout int | UDPPacket int string bytes

fun udp_turn :: "'f float_ops \<Rightarrow> udp_event \<Rightarrow> 'f udp_loop \<Rightarrow> 'f udp_loop" where
  "udp_turn F (UDPTimeout now) u = cleanup_if_due now u"
| "udp_turn F (UDPPacket now src packet) u0 =
     (let u = cleanup_if_due now u0 in
      case decode_udp_datagram packet of
        Inl e \<Rightarrow> u
      | Inr (UDPHello hs) \<Rightarrow>
          (let (s, r) = handle_udp_hello F src hs now (ul_sources u, ul_receiver u)
           in u\<lparr>ul_sources := s, ul_receiver := r\<rparr>)
      | Inr (UDPAudio f) \<Rightarrow>
          (let (s, r) = handle_udp_audio src f now (ul_sources u, ul_receiver u)
           in u\<lparr>ul_sources := s, ul_receiver := r\<rparr>))"

definition receiver_pull ::
  "'f float_ops \<Rightarrow> (nat \<Rightarrow> string \<Rightarrow> bool) \<Rightarrow> bytes \<Rightarrow> u32 \<Rightarrow> 'f receiver \<Rightarrow> (bytes \<times> 'f receiver) option"
where
  "receiver_pull F busy out frameCount r =
     (case mixer_read F busy out frameCount (rx_mixer r) of
        None \<Rightarrow> None
      | Some (out1, m) \<Rightarrow> Some (out1, r\<lparr>rx_mixer := m\<rparr>))"

definition receiver_stats :: "'f receiver \<Rightarrow> aggregate_snapshot" where
  "receiver_stats r = mixer_snapshot (rx_mixer r)"

section \<open>The registry and the mixer agree\<close>

definition rx_inv :: "'f receiver \<Rightarrow> bool" where
  "rx_inv r \<longleftrightarrow>
     mixer_inv (rx_mixer r) \<and> length (mx_streams (rx_mixer r)) \<le> rx_max_streams r \<and>
     rx_active_streams r = map (\<lambda>s. (sm_id s, sm_id s)) (mx_streams (rx_mixer r))"

definition rx_ids :: "'f receiver \<Rightarrow> string list" where
  "rx_ids r = map sm_id (mx_streams (rx_mixer r))"

lemma map_of_diag: "map_of (map (\<lambda>s. (f s, f s)) xs) k = (if k \<in> f ` set xs then Some k else None)"
  by (induction xs) auto

lemma rx_inv_active:
  "rx_inv r \<Longrightarrow> map_of (rx_active_streams r) k = (if k \<in> set (rx_ids r) then Some k else None)"
  by (simp add: rx_inv_def rx_ids_def map_of_diag)

lemma register_stream_ok:
  assumes inv: "rx_inv r" and reg: "register_stream F key name remote r = (res, r')"
  shows "rx_inv r' \<and> rx_format r' = rx_format r \<and> rx_max_streams r' = rx_max_streams r \<and>
    (case res of
       None \<Rightarrow> r' = r
     | Some i \<Rightarrow> i = key \<and> key \<notin> set (rx_ids r) \<and> rx_ids r' = rx_ids r @ [key])"
proof (cases res)
  case None
  then have "r' = r" using reg by (auto simp: register_stream_def split: if_splits sum.splits prod.splits)
  then show ?thesis using inv None by simp
next
  case (Some i)
  then obtain s m where a: "add_stream F (rx_mixer r) key name remote = Inr (s, m)"
    and k: "map_of (rx_active_streams r) key = None" "length (rx_active_streams r) < rx_max_streams r"
    and i: "i = key"
    and r': "r' = r\<lparr>rx_mixer := m, rx_active_streams := AList.update key key (rx_active_streams r)\<rparr>"
    using reg by (auto simp: register_stream_def split: if_splits sum.splits prod.splits)
  have m: "mx_streams m = mx_streams (rx_mixer r) @ [s]" and s: "sm_id s = key"
    using a by (auto simp: add_stream_def new_stream_def split: if_splits sum.splits)
  have mi: "mixer_inv m" using add_stream_inv[OF _ a] inv by (simp add: rx_inv_def)
  have key: "key \<notin> set (rx_ids r)" using k(1) rx_inv_active[OF inv, of key] by (auto split: if_splits)
  have upd: "AList.update key key xs = xs @ [(key, key)]" if "key \<notin> fst ` set xs" for xs
    using that by (induction xs) auto
  have u: "AList.update key key (rx_active_streams r) = rx_active_streams r @ [(key, key)]"
    by (rule upd) (use key inv in \<open>auto simp: rx_inv_def rx_ids_def\<close>)
  show ?thesis
    using inv mi m s u k(2) key by (simp add: r' rx_inv_def rx_ids_def Some i)
qed

lemma unregister_stream_ok:
  assumes inv: "rx_inv r" and i: "i \<noteq> []"
  shows "rx_inv (unregister_stream i i r)"
    and "rx_ids (unregister_stream i i r) = filter (\<lambda>j. j \<noteq> i) (rx_ids r)"
    and "rx_format (unregister_stream i i r) = rx_format r"
    and "rx_max_streams (unregister_stream i i r) = rx_max_streams r"
proof -
  show "rx_format (unregister_stream i i r) = rx_format r"
    "rx_max_streams (unregister_stream i i r) = rx_max_streams r"
    by (simp_all add: unregister_stream_def)
  have "rx_inv (unregister_stream i i r) \<and>
      rx_ids (unregister_stream i i r) = filter (\<lambda>j. j \<noteq> i) (rx_ids r)"
  proof (cases "i \<in> set (rx_ids r)")
    case True
    obtain b m where rm: "remove_stream (rx_mixer r) i = (b, m)" by fastforce
    have m: "mx_streams m = filter (\<lambda>s. sm_id s \<noteq> i) (mx_streams (rx_mixer r))"
      using rm True by (auto simp: remove_stream_def Let_def rx_ids_def list_ex_iff)
    have "mixer_inv m" using remove_stream_inv[OF _ rm] inv by (simp add: rx_inv_def)
    moreover have "length (mx_streams m) \<le> rx_max_streams r"
      using inv length_filter_le[of "\<lambda>s. sm_id s \<noteq> i" "mx_streams (rx_mixer r)"]
      by (simp add: m rx_inv_def del: length_filter_le)
    moreover have "AList.delete i (map (\<lambda>s. (sm_id s, sm_id s)) ss) =
      map (\<lambda>s. (sm_id s, sm_id s)) (filter (\<lambda>s. sm_id s \<noteq> i) ss)" for ss :: "'a stream list"
      by (induction ss) auto
    moreover have "unregister_stream i i r =
      r\<lparr>rx_active_streams := AList.delete i (rx_active_streams r), rx_mixer := m\<rparr>"
      using True rx_inv_active[OF inv, of i] rm by (simp add: unregister_stream_def)
    ultimately show ?thesis using inv by (simp add: rx_inv_def rx_ids_def m filter_map comp_def)
  next
    case False
    then have "unregister_stream i i r = r"
      using rx_inv_active[OF inv, of i] i by (simp add: unregister_stream_def)
    then show ?thesis using inv False by (auto intro!: filter_True[symmetric])
  qed
  then show "rx_inv (unregister_stream i i r)"
    "rx_ids (unregister_stream i i r) = filter (\<lambda>j. j \<noteq> i) (rx_ids r)"
    by blast+
qed

lemma mixer_inv_streams:
  assumes "mixer_inv m" "map sm_id ss = map sm_id (mx_streams m)"
    "list_all (stream_ok (mx_bytes_per_frame m)) ss"
  shows "mixer_inv (m\<lparr>mx_streams := ss\<rparr>)"
proof -
  have s: "sm_id ` set ss = sm_id ` set (mx_streams m)" using assms(2) by (metis set_map)
  show ?thesis
    unfolding mixer_inv_def using assms s[symmetric]
    by (intro conjI) (auto simp: mixer_inv_def)
qed

lemma stream_write_ok:
  assumes "rx_inv r"
  shows "rx_inv (stream_write i pcm r)" and "rx_ids (stream_write i pcm r) = rx_ids r"
    and "rx_format (stream_write i pcm r) = rx_format r"
    and "rx_max_streams (stream_write i pcm r) = rx_max_streams r"
proof -
  let ?w = "\<lambda>s. if sm_id s = i then s\<lparr>sm_buffer := snd (jb_write pcm (sm_buffer s))\<rparr> else s"
  let ?m = "rx_mixer r"
  have id: "map sm_id (map ?w (mx_streams ?m)) = map sm_id (mx_streams ?m)" by simp
  have w: "stream_ok q (?w s)" if "stream_ok q s" for q s
    using that by (simp add: stream_ok_def jb_write_inv)
  have "list_all (stream_ok (mx_bytes_per_frame ?m)) (mx_streams ?m)"
    using assms unfolding rx_inv_def mixer_inv_def by blast
  then have "list_all (stream_ok (mx_bytes_per_frame ?m)) (map ?w (mx_streams ?m))"
    unfolding list.pred_map comp_def by (rule list.pred_mono_strong) (rule w)
  then have "mixer_inv (?m\<lparr>mx_streams := map ?w (mx_streams ?m)\<rparr>)"
    using assms id by (intro mixer_inv_streams) (simp_all add: rx_inv_def)
  then show "rx_inv (stream_write i pcm r)"
    using assms by (simp add: rx_inv_def stream_write_def comp_def)
  show "rx_ids (stream_write i pcm r) = rx_ids r"
    using id by (simp add: rx_ids_def stream_write_def)
  show "rx_format (stream_write i pcm r) = rx_format r"
    "rx_max_streams (stream_write i pcm r) = rx_max_streams r"
    by (simp_all add: stream_write_def)
qed

text \<open>What the operations that only touch buffers and counters keep.\<close>

definition rx_same :: "'f receiver \<Rightarrow> 'f receiver \<Rightarrow> bool" where
  "rx_same r r' \<longleftrightarrow> rx_ids r' = rx_ids r \<and> rx_format r' = rx_format r \<and>
     rx_max_streams r' = rx_max_streams r \<and> (rx_inv r \<longrightarrow> rx_inv r')"

lemma rx_same_refl [simp]: "rx_same r r"
  by (simp add: rx_same_def)

lemma rx_same_trans: "rx_same r r' \<Longrightarrow> rx_same r' r'' \<Longrightarrow> rx_same r r''"
  by (simp add: rx_same_def)

lemma rx_same_stream_write: "rx_inv r \<Longrightarrow> rx_same r (stream_write i pcm r)"
  by (simp add: rx_same_def stream_write_ok)

lemma rx_same_counters [simp]:
  "rx_same r (r\<lparr>rx_gaps := g\<rparr>)" "rx_same r (r\<lparr>rx_stale_frames := g\<rparr>)"
  "rx_same r (r\<lparr>rx_next_stream_id := g\<rparr>)"
  by (simp_all add: rx_same_def rx_ids_def rx_inv_def)

lemma silence_loop_same: "rx_inv r \<Longrightarrow> rx_same r (silence_loop bpf c n i r)"
proof (induction bpf c n i r rule: silence_loop.induct)
  case (1 bpf c n i r)
  show ?case
  proof (cases "n = 0 \<or> c = 0")
    case True
    then show ?thesis by (subst silence_loop.simps) simp
  next
    case False
    let ?r = "stream_write i (replicate (min n c * bpf) 0) r"
    have "rx_same ?r (silence_loop bpf c (n - min n c) i ?r)"
      using "1.IH"[OF False refl] "1.prems" by (simp add: stream_write_ok)
    then show ?thesis
      using False rx_same_trans[OF rx_same_stream_write[OF "1.prems"]]
      by (subst silence_loop.simps) (simp add: Let_def)
  qed
qed

lemma write_silence_same: "rx_inv r \<Longrightarrow> rx_same r (write_silence i n r)"
  by (simp add: write_silence_def silence_loop_same Let_def)

lemma accept_tracked_frame_same:
  "accept_tracked_frame t f n r = (x, t', r') \<Longrightarrow> rx_same r r'"
  by (auto simp: accept_tracked_frame_def Let_def split: prod.splits if_splits)

lemma tcp_frame_same:
  assumes "rx_inv r" "tcp_frame i hs f t r = (t', r')"
  shows "rx_same r r'"
proof -
  obtain ok g t1 r1 where a: "accept_tracked_frame t f (uint (hs_frame_samples hs)) r = ((ok, g), t1, r1)"
    by (metis prod_cases4 surj_pair)
  then have s: "rx_same r r1" by (rule accept_tracked_frame_same)
  then have "rx_inv r1" using assms(1) by (simp add: rx_same_def)
  then show ?thesis
    using assms(2) s rx_same_trans[OF s rx_same_stream_write] by (auto simp: tcp_frame_def a split: if_splits)
qed

lemma tcp_loop_same: "rx_inv r \<Longrightarrow> rx_same r (tcp_loop i hs rd t r)"
proof (induction i hs rd t r rule: tcp_loop.induct)
  case (1 i hs rd t r)
  show ?case
  proof (cases "read_frame hs rd")
    case (Inl e)
    then show ?thesis by (subst tcp_loop.simps) simp
  next
    case (Inr p)
    obtain f rd1 where p: "p = (f, rd1)" by fastforce
    obtain t1 r1 where u: "tcp_frame i hs f t r = (t1, r1)" by fastforce
    have s: "rx_same r r1" using tcp_frame_same[OF "1.prems" u] .
    then have "rx_same r1 (tcp_loop i hs rd1 t1 r1)"
      using "1.IH"[OF Inr p[symmetric] u[symmetric]] "1.prems" by (simp add: rx_same_def)
    then show ?thesis
      using rx_same_trans[OF s] by (subst tcp_loop.simps) (simp add: Inr p u)
  qed
qed

text \<open>A connection leaves the registry as it found it.\<close>

lemma tcp_open_ok:
  assumes inv: "rx_inv r" and o: "tcp_open F remote hs r = (res, r')"
  shows "rx_inv r' \<and> rx_format r' = rx_format r \<and> rx_max_streams r' = rx_max_streams r \<and>
    (case res of
       Inl e \<Rightarrow> rx_ids r' = rx_ids r
     | Inr i \<Rightarrow> take 4 i = ''tcp:'' \<and> i \<notin> set (rx_ids r) \<and> rx_ids r' = rx_ids r @ [i])"
proof (cases "rx_validate_tcp_handshake r hs")
  case (Some e)
  then show ?thesis using o inv by (auto simp: tcp_open_def)
next
  case None
  obtain key r1 where k: "tcp_stream_key remote r = (key, r1)" by fastforce
  obtain x r2 where reg: "register_stream F key (str_of_bytes (hs_name hs)) remote r1 = (x, r2)" by fastforce
  have s: "rx_same r r1" "take 4 key = ''tcp:''" using k by (auto simp: tcp_stream_key_def Let_def)
  then have "rx_inv r1" using inv by (simp add: rx_same_def)
  note g = register_stream_ok[OF this reg]
  show ?thesis using o g s None by (auto simp: tcp_open_def k reg rx_same_def split: option.splits)
qed

lemma handle_connection_same:
  assumes "rx_inv r"
  shows "rx_same r (handle_connection F remote rd r)"
proof (cases "read_handshake rd")
  case (Inl e)
  then show ?thesis by (simp add: handle_connection_def)
next
  case (Inr p)
  obtain hs rd1 where p: "p = (hs, rd1)" by fastforce
  obtain res r1 where o: "tcp_open F remote hs r = (res, r1)" by fastforce
  note t = tcp_open_ok[OF assms o]
  show ?thesis
  proof (cases res)
    case (Inl e)
    then show ?thesis using t by (simp add: handle_connection_def Inr p o rx_same_def)
  next
    case (Inr i)
    let ?r2 = "tcp_loop i hs rd1 zero_tracker r1"
    have s: "rx_same r1 ?r2" using t by (intro tcp_loop_same) simp
    then have inv2: "rx_inv ?r2" using t by (simp add: rx_same_def)
    have i: "i \<noteq> []" "i \<notin> set (rx_ids r)" using t Inr by auto
    have "rx_ids ?r2 = rx_ids r @ [i]" using s t Inr by (simp add: rx_same_def)
    then have "filter (\<lambda>j. j \<noteq> i) (rx_ids ?r2) = rx_ids r"
      using i by (auto intro!: filter_True)
    then show ?thesis
      using unregister_stream_ok[OF inv2 i(1)] s t \<open>read_handshake rd = Inr p\<close> Inr
      by (simp add: handle_connection_def p o rx_same_def)
  qed
qed

section \<open>The receiver as a transition system\<close>

text \<open>
  The UDP loop and the connection handlers run side by side; what each does under the lock is one
  step.  A connection is its stream id, handshake and tracker.
\<close>

record 'f rx_system =
  sy_loop :: "'f udp_loop"
  sy_conns :: "(string \<times> handshake \<times> frame_tracker) list"

abbreviation sy_receiver :: "'f rx_system \<Rightarrow> 'f receiver" where
  "sy_receiver s \<equiv> ul_receiver (sy_loop s)"

definition with_receiver :: "'f receiver \<Rightarrow> 'f rx_system \<Rightarrow> 'f rx_system" where
  "with_receiver r s = s\<lparr>sy_loop := (sy_loop s)\<lparr>ul_receiver := r\<rparr>\<rparr>"

inductive rx_step :: "'f float_ops \<Rightarrow> 'f rx_system \<Rightarrow> 'f rx_system \<Rightarrow> bool" for F where
  connect: "tcp_open F remote hs (sy_receiver s) = (Inr i, r) \<Longrightarrow>
    rx_step F s (with_receiver r s\<lparr>sy_conns := sy_conns s @ [(i, hs, zero_tracker)]\<rparr>)"
| refuse: "tcp_open F remote hs (sy_receiver s) = (Inl e, r) \<Longrightarrow> rx_step F s (with_receiver r s)"
| frame: "sy_conns s = xs @ (i, hs, t) # ys \<Longrightarrow> tcp_frame i hs f t (sy_receiver s) = (t', r) \<Longrightarrow>
    rx_step F s (with_receiver r s\<lparr>sy_conns := xs @ (i, hs, t') # ys\<rparr>)"
| close: "sy_conns s = xs @ (i, hs, t) # ys \<Longrightarrow>
    rx_step F s (with_receiver (unregister_stream i i (sy_receiver s)) s\<lparr>sy_conns := xs @ ys\<rparr>)"
| udp: "rx_step F s (s\<lparr>sy_loop := udp_turn F ev (sy_loop s)\<rparr>)"
| pull: "receiver_pull F busy out n (sy_receiver s) = Some (out', r) \<Longrightarrow>
    rx_step F s (with_receiver r s)"

inductive_cases rx_stepE [elim]: "rx_step F s s'"

abbreviation rx_reach :: "'f float_ops \<Rightarrow> 'f rx_system \<Rightarrow> 'f rx_system \<Rightarrow> bool" where
  "rx_reach F \<equiv> (rx_step F)\<^sup>*\<^sup>*"

definition rx_start :: "'f receiver \<Rightarrow> int \<Rightarrow> 'f rx_system" where
  "rx_start r now =
     \<lparr>sy_loop = \<lparr>ul_sources = [], ul_receiver = r, ul_next_cleanup = now + udpReadTimeout\<rparr>, sy_conns = []\<rparr>"

text \<open>Every stream of the mixer belongs to one live connection or one known UDP source.\<close>

definition udp_ids :: "sources \<Rightarrow> string set" where
  "udp_ids sources = udp_stream_key ` fst ` set sources"

definition sources_ok :: "sources \<Rightarrow> bool" where
  "sources_ok sources \<longleftrightarrow> distinct (map fst sources) \<and>
     list_all (\<lambda>(src, state). us_stream_id state = udp_stream_key src) sources"

definition owners_ok :: "nat \<Rightarrow> string set \<Rightarrow> sources \<times> 'f receiver \<Rightarrow> bool" where
  "owners_ok N conns st \<longleftrightarrow>
     rx_inv (snd st) \<and> rx_max_streams (snd st) = N \<and> sources_ok (fst st) \<and> (\<forall>i \<in> conns. take 4 i = ''tcp:'') \<and>
     set (rx_ids (snd st)) = conns \<union> udp_ids (fst st)"

definition system_inv :: "nat \<Rightarrow> 'f rx_system \<Rightarrow> bool" where
  "system_inv N s \<longleftrightarrow> distinct (map fst (sy_conns s)) \<and>
     owners_ok N (fst ` set (sy_conns s)) (ul_sources (sy_loop s), sy_receiver s)"

lemma udp_key_inj [simp]: "udp_stream_key a = udp_stream_key b \<longleftrightarrow> a = b"
  by (simp add: udp_stream_key_def)

lemma udp_key_not_tcp: "take 4 i = ''tcp:'' \<Longrightarrow> i \<noteq> udp_stream_key src"
  by (auto simp: udp_stream_key_def)

lemma udp_key_ne [simp]: "udp_stream_key src \<noteq> []"
  by (simp add: udp_stream_key_def)

lemma owners_same: "rx_same r r' \<Longrightarrow> owners_ok N C (ss, r) \<Longrightarrow> owners_ok N C (ss, r')"
  by (simp add: owners_ok_def rx_same_def)

lemma list_all_update: "list_all P al \<Longrightarrow> P (k, v) \<Longrightarrow> list_all P (AList.update k v al)"
  by (induction al) auto

lemma sources_ok_update:
  "sources_ok ss \<Longrightarrow> us_stream_id st = udp_stream_key src \<Longrightarrow> sources_ok (AList.update src st ss)"
  by (simp add: sources_ok_def list_all_update distinct_update)

lemma sources_ok_lookup:
  "sources_ok ss \<Longrightarrow> map_of ss src = Some st \<Longrightarrow>
     us_stream_id st = udp_stream_key src \<and> src \<in> fst ` set ss"
  by (force simp: sources_ok_def list_all_iff dest: map_of_SomeD)

lemma udp_ids_update [simp]: "udp_ids (AList.update src st ss) = insert (udp_stream_key src) (udp_ids ss)"
  by (simp add: udp_ids_def dom_update)

lemma owners_update:
  assumes "map_of ss src = Some st" "us_stream_id st' = us_stream_id st" "owners_ok N C (ss, r)"
  shows "owners_ok N C (AList.update src st' ss, r)"
proof -
  have s: "sources_ok ss" using assms(3) by (simp add: owners_ok_def)
  note l = sources_ok_lookup[OF s assms(1)]
  have "udp_stream_key src \<in> udp_ids ss" using l by (auto simp: udp_ids_def)
  then show ?thesis
    using assms s l by (auto simp: owners_ok_def sources_ok_update insert_absorb)
qed

lemma udp_hello_owners:
  assumes "owners_ok N C st"
  shows "owners_ok N C (handle_udp_hello F src hs now st)"
proof -
  obtain ss r where st: "st = (ss, r)" by fastforce
  show ?thesis
  proof (cases "rx_validate_format r hs")
    case (Some e)
    then show ?thesis using assms by (simp add: st handle_udp_hello_def)
  next
    case None
    show ?thesis
    proof (cases "map_of ss src")
      case (Some state)
      then show ?thesis
        using assms owners_update[OF Some, of "state\<lparr>us_last_seen := now\<rparr>" N C r] None
        by (simp add: st handle_udp_hello_def)
    next
      case new: None
      obtain x r1 where reg: "register_stream F (udp_stream_key src) (str_of_bytes (hs_name hs)) src r = (x, r1)"
        by fastforce
      have inv: "rx_inv r" using assms by (simp add: owners_ok_def st)
      note g = register_stream_ok[OF inv reg]
      show ?thesis
      proof (cases x)
        case None
        then show ?thesis using assms g \<open>rx_validate_format r hs = None\<close> new
          by (simp add: st handle_udp_hello_def reg)
      next
        case (Some i)
        let ?u = "\<lparr>us_stream_id = i, us_tracker = zero_tracker, us_last_seen = now\<rparr>"
        have "sources_ok (AList.update src ?u ss)"
          using assms g Some by (intro sources_ok_update) (simp_all add: owners_ok_def st)
        then have "owners_ok N C (AList.update src ?u ss, r1)"
          using assms g Some by (auto simp: owners_ok_def st)
        then show ?thesis using \<open>rx_validate_format r hs = None\<close> new Some
          by (simp add: st handle_udp_hello_def reg)
      qed
    qed
  qed
qed

lemma udp_audio_owners:
  assumes "owners_ok N C st"
  shows "owners_ok N C (handle_udp_audio src f now st)"
proof -
  obtain ss r where st: "st = (ss, r)" by fastforce
  let ?q = "bytes_per_frame (rx_format r)" and ?n = "int (length (fr_payload f))"
  show ?thesis
  proof (cases "map_of ss src = None \<or> ?q \<le> 0 \<or> ?n smod ?q \<noteq> 0")
    case True
    then show ?thesis using assms by (auto simp: st handle_udp_audio_def Let_def split: option.splits)
  next
    case False
    then obtain state where m: "map_of ss src = Some state" by auto
    obtain ok g t1 r1 where a: "accept_tracked_frame (us_tracker state) f (?n sdiv ?q) r = ((ok, g), t1, r1)"
      by (metis prod_cases4 surj_pair)
    let ?ss = "AList.update src (state\<lparr>us_last_seen := now, us_tracker := t1\<rparr>) ss"
    let ?r2 = "if g > 0 then write_silence (us_stream_id state) g r1 else r1"
    have s1: "rx_same r r1" using a by (rule accept_tracked_frame_same)
    have i1: "rx_inv r1" using s1 assms by (simp add: rx_same_def owners_ok_def st)
    then have s2: "rx_same r1 ?r2" by (simp add: write_silence_same)
    then have "rx_inv ?r2" using i1 by (simp add: rx_same_def)
    then have s3: "rx_same ?r2 (stream_write (us_stream_id state) (fr_payload f) ?r2)"
      by (rule rx_same_stream_write)
    have o: "owners_ok N C (?ss, r)" using assms m by (intro owners_update) (simp_all add: st)
    have "handle_udp_audio src f now st =
      (?ss, if \<not> ok then r1 else stream_write (us_stream_id state) (fr_payload f) ?r2)"
      using False m a by (simp add: st handle_udp_audio_def Let_def)
    then show ?thesis
      using owners_same[OF s1 o] owners_same[OF rx_same_trans[OF s1 rx_same_trans[OF s2 s3]] o]
      by simp
  qed
qed

lemma unregister_all:
  assumes "rx_inv r" "list_all (\<lambda>(src, state). us_stream_id state = udp_stream_key src) xs"
  defines "r' \<equiv> foldl (\<lambda>r (src, state). unregister_stream (udp_stream_key src) (us_stream_id state) r) r xs"
  shows "rx_inv r' \<and> rx_max_streams r' = rx_max_streams r \<and> set (rx_ids r') = set (rx_ids r) - udp_ids xs"
  using assms(1,2) unfolding r'_def
proof (induction xs arbitrary: r)
  case Nil
  then show ?case by (simp add: udp_ids_def)
next
  case (Cons x xs)
  obtain src state where x: "x = (src, state)" by fastforce
  let ?k = "udp_stream_key src"
  have k: "us_stream_id state = ?k" using Cons.prems x by simp
  note u = unregister_stream_ok[OF Cons.prems(1) udp_key_ne, of src]
  show ?case using Cons.IH[OF u(1)] Cons.prems(2) u(2,4) by (auto simp: x k udp_ids_def)
qed

lemma cleanup_owners:
  assumes "owners_ok N C st"
  shows "owners_ok N C (cleanup_idle now st)"
proof -
  obtain ss r where st: "st = (ss, r)" by fastforce
  let ?idle = "\<lambda>(src, state). now - us_last_seen state > udpIdleTimeout"
  let ?gone = "filter ?idle ss" and ?kept = "filter (\<lambda>x. \<not> ?idle x) ss"
  have s: "distinct (map fst ss)"
    "list_all (\<lambda>(src, state). us_stream_id state = udp_stream_key src) ss"
    and inv: "rx_inv r" "rx_max_streams r = N" and C: "\<forall>i \<in> C. take 4 i = ''tcp:''" "set (rx_ids r) = C \<union> udp_ids ss"
    using assms by (auto simp: owners_ok_def sources_ok_def st)
  have "list_all (\<lambda>(src, state). us_stream_id state = udp_stream_key src) ?gone"
    using s(2) by (auto simp: list_all_iff)
  note u = unregister_all[OF inv(1) this]
  have "sources_ok ?kept" using s by (auto simp: sources_ok_def list_all_iff distinct_map_filter)
  moreover have "udp_ids ss - udp_ids ?gone = udp_ids ?kept"
  proof -
    have "b = b'" if "(a, b) \<in> set ss" "(a, b') \<in> set ss" for a b b'
      using s(1) that by (rule eq_key_imp_eq_value)
    then have dis: False if "(a, b) \<in> set ?kept" "(a, b') \<in> set ?gone" for a b b'
      using that by auto
    have "udp_ids ?kept \<inter> udp_ids ?gone = {}"
      unfolding udp_ids_def by (auto simp del: set_filter dest: dis)
    moreover have "set ss = set ?kept \<union> set ?gone" by auto
    then have "udp_ids ss = udp_ids ?kept \<union> udp_ids ?gone"
      by (simp only: udp_ids_def image_Un)
    ultimately show ?thesis by blast
  qed
  moreover have "C - udp_ids ?gone = C" using C(1) udp_key_not_tcp by (auto simp: udp_ids_def)
  ultimately show ?thesis
    using u C inv(2) by (auto simp: st cleanup_idle_def owners_ok_def Let_def)
qed

lemma udp_turn_owners:
  assumes "owners_ok N C (ul_sources u, ul_receiver u)"
  shows "owners_ok N C (ul_sources (udp_turn F ev u), ul_receiver (udp_turn F ev u))"
proof -
  have c: "owners_ok N C (ul_sources (cleanup_if_due now u), ul_receiver (cleanup_if_due now u))" for now
    using assms cleanup_owners[OF assms, of now] by (auto simp: cleanup_if_due_def Let_def split: prod.splits)
  show ?thesis
  proof (cases ev)
    case (UDPTimeout now)
    then show ?thesis using c by simp
  next
    case (UDPPacket now src packet)
    let ?u = "cleanup_if_due now u"
    have h: "owners_ok N C (ss, r)"
      if "handle_udp_hello F src hs now (ul_sources ?u, ul_receiver ?u) = (ss, r)" for hs ss r
      using udp_hello_owners[OF c[of now], of F src hs now] that by simp
    have a: "owners_ok N C (ss, r)"
      if "handle_udp_audio src f now (ul_sources ?u, ul_receiver ?u) = (ss, r)" for f ss r
      using udp_audio_owners[OF c[of now], of src f now] that by simp
    show ?thesis
      using c[of now] by (auto simp: UDPPacket Let_def split: sum.splits udp_datagram.splits prod.splits
          intro: h a)
  qed
qed

text \<open>The registry invariant holds in every reachable state, whatever the interleaving.\<close>

lemma rx_start_inv: "rx_inv r \<Longrightarrow> rx_ids r = [] \<Longrightarrow> system_inv (rx_max_streams r) (rx_start r now)"
  by (simp add: system_inv_def rx_start_def owners_ok_def sources_ok_def udp_ids_def)

lemma with_receiver_simps [simp]:
  "sy_receiver (with_receiver r s) = r" "ul_sources (sy_loop (with_receiver r s)) = ul_sources (sy_loop s)"
  "sy_conns (with_receiver r s) = sy_conns s"
  by (simp_all add: with_receiver_def)

lemma rx_step_inv: "rx_step F s s' \<Longrightarrow> system_inv N s \<Longrightarrow> system_inv N s'"
proof (induction rule: rx_step.induct)
  case (connect remote hs s i r)
  have "rx_inv (sy_receiver s)" using connect by (simp add: system_inv_def owners_ok_def)
  note t = tcp_open_ok[OF this connect(1)]
  then show ?case using connect(2) by (auto simp: system_inv_def owners_ok_def)
next
  case (refuse remote hs s e r)
  have "rx_inv (sy_receiver s)" using refuse by (simp add: system_inv_def owners_ok_def)
  note t = tcp_open_ok[OF this refuse(1)]
  then show ?case using refuse(2) by (simp add: system_inv_def owners_ok_def)
next
  case (frame s xs i hs t ys f t' r)
  have "rx_inv (sy_receiver s)" using frame by (simp add: system_inv_def owners_ok_def)
  then have "rx_same (sy_receiver s) r" using frame(2) by (rule tcp_frame_same)
  then show ?case using frame(1,3) owners_same by (fastforce simp: system_inv_def)
next
  case (close s xs i hs t ys)
  have inv: "rx_inv (sy_receiver s)" and t: "take 4 i = ''tcp:''"
    using close by (auto simp: system_inv_def owners_ok_def)
  then have "i \<noteq> []" by auto
  note u = unregister_stream_ok[OF inv this]
  have "i \<notin> udp_ids (ul_sources (sy_loop s))" using t udp_key_not_tcp by (auto simp: udp_ids_def)
  then show ?case using close u by (auto simp: system_inv_def owners_ok_def)
next
  case (udp s ev)
  then show ?case by (simp add: system_inv_def udp_turn_owners)
next
  case (pull busy out n s out' r)
  have inv: "rx_inv (sy_receiver s)" using pull by (simp add: system_inv_def owners_ok_def)
  from pull obtain m where m: "mixer_read F busy out n (rx_mixer (sy_receiver s)) = Some (out', m)"
    and r: "r = (sy_receiver s)\<lparr>rx_mixer := m\<rparr>"
    by (auto simp: receiver_pull_def split: option.splits)
  have "mixer_inv m \<and> map sm_id (mx_streams m) = rx_ids (sy_receiver s)"
    using mixer_read_total[of "rx_mixer (sy_receiver s)" F busy out n] inv m
    by (auto simp: rx_inv_def rx_ids_def)
  then have m1: "mixer_inv m" "map sm_id (mx_streams m) = rx_ids (sy_receiver s)" by simp_all
  have diag: "map (\<lambda>s. (sm_id s, sm_id s)) ss = map (\<lambda>i. (i, i)) (map sm_id ss)" for ss :: "'a stream list"
    by simp
  have len: "length (mx_streams m) = length (mx_streams (rx_mixer (sy_receiver s)))"
    using m1(2) by (metis length_map rx_ids_def)
  have "rx_active_streams (sy_receiver s) = map (\<lambda>s. (sm_id s, sm_id s)) (mx_streams m)"
    using inv m1(2) by (simp only: rx_inv_def diag rx_ids_def)
  then have "rx_same (sy_receiver s) r"
    using inv m1 len by (simp add: rx_same_def rx_inv_def rx_ids_def r)
  then show ?case using pull(2) owners_same by (fastforce simp: system_inv_def)
qed

lemma rx_reach_inv: "rx_reach F s s' \<Longrightarrow> system_inv N s \<Longrightarrow> system_inv N s'"
  by (induction rule: rtranclp_induct) (auto intro: rx_step_inv)

section \<open>A new receiver\<close>

lemma frames_for_millis_bound:
  "0 < rate \<Longrightarrow> rate < 2 ^ 31 \<Longrightarrow> 1 \<le> frames_for_millis rate 80 \<and> frames_for_millis rate 80 < 2 ^ 31"
proof -
  assume r: "0 < rate" "rate < 2 ^ 31"
  then have "wrap64 (rate * 80) = rate * 80" by (intro wrap64_id) simp_all
  moreover have "rate * 80 div 1000 < 2 ^ 31" using r by simp
  ultimately show ?thesis using r by (simp add: frames_for_millis_def Let_def)
qed

lemma millis_to_frames_eq: "millis_to_frames = frames_for_millis"
  by (simp add: millis_to_frames_def frames_for_millis_def fun_eq_iff)

lemma new_receiver_inv:
  assumes new: "new_receiver F opts = Inr r"
    and small: "f_channels (rx_format r) < 2 ^ 20" "f_rate (rx_format r) < 2 ^ 31"
      "ro_buffer_frames opts < 2 ^ 31"
  shows "rx_inv r" "rx_ids r = []"
    "rx_max_streams r = (if ro_max_streams opts \<le> 0 then 8 else nat (ro_max_streams opts))"
proof -
  define f where "f = (if ro_format opts = zero_format then default_format else ro_format opts)"
  define j where "j = receiver_jitter_options f (ro_buffer_frames opts)"
  define mo where "mo = \<lparr>mo_format = f, mo_jitter = j, mo_master_gain = fo_zero F, mo_scratch_frames = 0\<rparr>"
  from new[unfolded new_receiver_def Let_def, folded f_def, folded j_def, folded mo_def]
  obtain m where v: "validate_format f = None" and m: "new_mixer F mo = Inr m"
    and r: "r = \<lparr>rx_format = f, rx_mixer = m,
      rx_max_streams = nat (if ro_max_streams opts \<le> 0 then 8 else ro_max_streams opts),
      rx_gaps = 0, rx_stale_frames = 0, rx_next_stream_id = 0, rx_active_streams = []\<rparr>"
    by (auto split: option.splits sum.splits)
  have fz: "f \<noteq> zero_format" using v by (auto simp: validate_format_None zero_format_def)
  have mf: "mx_format m = f" "mx_jitter m = j" "mx_streams m = []"
    using m fz by (auto simp: new_mixer_def mo_def j_def receiver_jitter_options_def Let_def
        split: option.splits sum.splits)
  have jf: "jo_format j = f" by (simp add: j_def receiver_jitter_options_def)
  have rate: "0 < f_rate f" "f_rate f < 2 ^ 31" using v small(2) r by (simp_all add: validate_format_None)
  have "jb_high_frames b < 2 ^ 32" if "new_jitter_buffer j = Inr b" for b
  proof -
    have "jb_high_frames b = nat (if jo_high_watermark_frames j \<le> 0 then millis_to_frames (f_rate f) 80
        else jo_high_watermark_frames j)"
      using that fz jf by (auto simp: new_jitter_buffer_def Let_def split: option.splits if_splits)
    then show ?thesis
      using frames_for_millis_bound[OF rate] small(3)
      by (auto simp: j_def receiver_jitter_options_def millis_to_frames_eq)
  qed
  then have "mixer_inv m" using new_mixer_inv[OF m] small(1) mf r by simp
  then show "rx_inv r" "rx_ids r = []"
    "rx_max_streams r = (if ro_max_streams opts \<le> 0 then 8 else nat (ro_max_streams opts))"
    by (simp_all add: rx_inv_def rx_ids_def r mf)
qed

section \<open>Properties\<close>

text \<open>
  C21. However TCP connections, UDP datagrams, timeouts and playback callbacks interleave, the receiver
  never has more streams than \<^verbatim>\<open>MaxStreams\<close>, stream ids stay unique, the registry lists exactly the
  streams of the mixer, and every one of them belongs to a live connection or a known UDP source: no
  stream leaks and none is shared.
\<close>

theorem receiver_registry_safe:
  assumes "new_receiver F opts = Inr r" "f_channels (rx_format r) < 2 ^ 20"
    "f_rate (rx_format r) < 2 ^ 31" "ro_buffer_frames opts < 2 ^ 31"
    and "rx_reach F (rx_start r now) s"
  shows "length (rx_ids (sy_receiver s)) \<le>
      (if ro_max_streams opts \<le> 0 then 8 else nat (ro_max_streams opts)) \<and>
    distinct (rx_ids (sy_receiver s)) \<and>
    map fst (rx_active_streams (sy_receiver s)) = rx_ids (sy_receiver s) \<and>
    set (rx_ids (sy_receiver s)) =
      fst ` set (sy_conns s) \<union> udp_stream_key ` fst ` set (ul_sources (sy_loop s)) \<and>
    distinct (map fst (sy_conns s) @ map udp_stream_key (map fst (ul_sources (sy_loop s))))"
proof -
  note n = new_receiver_inv[OF assms(1-4)]
  have i: "system_inv (rx_max_streams r) s"
    using rx_reach_inv[OF assms(5)] rx_start_inv[OF n(1,2)] by blast
  then have o: "rx_inv (sy_receiver s)" "rx_max_streams (sy_receiver s) = rx_max_streams r"
    "distinct (map fst (ul_sources (sy_loop s)))" "\<forall>i \<in> fst ` set (sy_conns s). take 4 i = ''tcp:''"
    "set (rx_ids (sy_receiver s)) = fst ` set (sy_conns s) \<union> udp_ids (ul_sources (sy_loop s))"
    by (simp_all add: system_inv_def owners_ok_def sources_ok_def)
  have "distinct (map udp_stream_key (map fst (ul_sources (sy_loop s))))"
    using o(3) by (subst distinct_map) (auto intro!: inj_onI)
  moreover have "fst ` set (sy_conns s) \<inter> udp_stream_key ` fst ` set (ul_sources (sy_loop s)) = {}"
    using o(4) udp_key_not_tcp by fastforce
  ultimately have "distinct (map fst (sy_conns s) @ map udp_stream_key (map fst (ul_sources (sy_loop s))))"
    using i by (simp add: system_inv_def image_comp)
  moreover have "map fst (rx_active_streams (sy_receiver s)) = rx_ids (sy_receiver s)"
    using o(1) by (simp add: rx_inv_def rx_ids_def comp_def)
  moreover have "distinct (rx_ids (sy_receiver s))"
    "length (rx_ids (sy_receiver s)) \<le> rx_max_streams (sy_receiver s)"
    using o(1) by (simp_all add: rx_inv_def rx_ids_def mixer_inv_def)
  ultimately show ?thesis using o(2,5) n(3) by (simp add: udp_ids_def)
qed

theorem receiver_registry_safe_witness:
  "\<exists>r. new_receiver rat_ops \<lparr>ro_format = zero_format, ro_buffer_frames = 0, ro_max_streams = 1\<rparr> = Inr r \<and>
    length (rx_ids (sy_receiver ((rx_start r 0)
      \<lparr>sy_loop := udp_turn rat_ops (UDPPacket 5 ''a'' []) (sy_loop (rx_start r 0))\<rparr>))) \<le> 1"
proof -
  let ?o = "\<lparr>ro_format = zero_format, ro_buffer_frames = 0, ro_max_streams = 1\<rparr>"
  obtain r where r: "new_receiver rat_ops ?o = Inr r" "rx_format r = default_format"
    by (simp add: new_receiver_def receiver_jitter_options_def new_mixer_def new_jitter_buffer_def
        zero_format_def default_format_def validate_format_def bytes_per_frame_def wrap64_id
        millis_to_frames_def Let_def)
  let ?s = "(rx_start r 0)\<lparr>sy_loop := udp_turn rat_ops (UDPPacket 5 ''a'' []) (sy_loop (rx_start r 0))\<rparr>"
  have "rx_reach rat_ops (rx_start r 0) ?s" by (intro r_into_rtranclp rx_step.udp)
  from receiver_registry_safe[OF r(1) _ _ _ this] show ?thesis
    using r by (intro exI[of _ r]) (simp add: default_format_def)
qed

text \<open>
  A TCP connection that has ended, for whatever reason (bad handshake, mismatched format, no free
  slot, read error after any number of frames), leaves the registry as it found it.
\<close>

theorem connection_cleans_up:
  assumes "rx_inv r"
  shows "rx_ids (handle_connection F remote rd r) = rx_ids r \<and>
    rx_active_streams (handle_connection F remote rd r) = rx_active_streams r \<and>
    rx_inv (handle_connection F remote rd r)"
proof -
  have s: "rx_ids (handle_connection F remote rd r) = rx_ids r" "rx_inv (handle_connection F remote rd r)"
    using handle_connection_same[OF assms, of F remote rd] assms by (simp_all add: rx_same_def)
  have "rx_active_streams x = map (\<lambda>i. (i, i)) (rx_ids x)" if "rx_inv x" for x :: "'a receiver"
    using that by (simp add: rx_inv_def rx_ids_def)
  with s assms show ?thesis by metis
qed

theorem connection_cleans_up_witness:
  "\<exists>r. new_receiver rat_ops \<lparr>ro_format = zero_format, ro_buffer_frames = 0, ro_max_streams = 1\<rparr> = Inr r \<and>
    rx_ids (handle_connection rat_ops ''a'' \<lparr>r_data = [1, 2], r_end = EOF\<rparr> r) = []"
proof -
  let ?o = "\<lparr>ro_format = zero_format, ro_buffer_frames = 0, ro_max_streams = 1\<rparr>"
  obtain r where r: "new_receiver rat_ops ?o = Inr r" "rx_format r = default_format"
    by (simp add: new_receiver_def receiver_jitter_options_def new_mixer_def new_jitter_buffer_def
        zero_format_def default_format_def validate_format_def bytes_per_frame_def wrap64_id
        millis_to_frames_def Let_def)
  have "rx_inv r \<and> rx_ids r = []"
    using new_receiver_inv[OF r(1)] r(2) by (simp add: default_format_def)
  then show ?thesis
    using r connection_cleans_up[of r rat_ops "''a''" "\<lparr>r_data = [1, 2], r_end = EOF\<rparr>"]
    by (intro exI[of _ r]) simp
qed

end
