(* ===== verification/Sender.thy ===== *)
theory Sender
  imports Receiver "HOL-Library.Sublist"
begin

text \<open>
  The legacy sender, \<^verbatim>\<open>engine/internal/transport/sender.go\<close>: the handshake it builds from the
  capture format, the loop that cuts captured PCM into packets, the UDP and TCP attempts and the
  reconnect loop with its exponential backoff.  What a blocking call returned (a capture read, a
  datagram write, a dial) is an event; dialling, deadlines, tickers and cancellation are the
  environment's.
\<close>

section \<open>The handshake\<close>

datatype sender_error =
    SnFormat format_error
  | SnRateOutOfRange int
  | SnChannelsOutOfRange int
  | SnFrameSamplesOutOfRange int
  | SnProtocol proto_error
  | SnBadBytesPerFrame int
  | SnWrite io_error
  | SnAddressRequired
  | SnCaptureRequired
  | SnUnsupportedTransport string

definition handshake_from_format :: "format \<Rightarrow> string \<Rightarrow> sender_error + handshake" where
  "handshake_from_format format name =
     (case validate_format format of
        Some e \<Rightarrow> Inl (SnFormat e)
      | None \<Rightarrow>
          if f_rate format > 192000 \<or> f_rate format < 8000 then Inl (SnRateOutOfRange (f_rate format))
          else if f_channels format > 8 \<or> f_channels format < 1
            then Inl (SnChannelsOutOfRange (f_channels format))
          else if f_frame_samples format > 4096 \<or> f_frame_samples format < 1
            then Inl (SnFrameSamplesOutOfRange (f_frame_samples format))
          else
            let hs = \<lparr>hs_version = Version1, hs_flags = 0, hs_sample_rate = word_of_int (f_rate format),
                      hs_channels = word_of_int (f_channels format), hs_format = FormatS16LE,
                      hs_frame_samples = word_of_int (f_frame_samples format),
                      hs_name = bytes_of_str name\<rparr>
            in (case validate_handshake hs of Some e \<Rightarrow> Inl (SnProtocol e) | None \<Rightarrow> Inr hs))"

section \<open>Cutting the capture into packets\<close>

text \<open>
  \<open>pk_buf\<close> is the filled part of \<^verbatim>\<open>packet\<close>; \<open>pk_seq\<close> and \<open>pk_capture_frame\<close> are the counters that
  survive reconnects.
\<close>

record packetizer =
  pk_seq :: u64
  pk_capture_frame :: u64
  pk_buf :: bytes
  pk_packet_capture_frame :: u64

definition pk_begin :: "packetizer \<Rightarrow> packetizer" where
  "pk_begin k = (if pk_buf k = [] then k\<lparr>pk_packet_capture_frame := pk_capture_frame k\<rparr> else k)"

text \<open>
  One turn of the loop in which \<^verbatim>\<open>capture.Read(packet[filled:])\<close> returned \<open>dat\<close>: nothing (the loop
  sleeps), part of a packet, or the rest of one, which becomes a frame.
\<close>

definition pk_read :: "nat \<Rightarrow> nat \<Rightarrow> bytes \<Rightarrow> packetizer \<Rightarrow> frame option \<times> packetizer" where
  "pk_read sz bpf dat k0 =
     (let k = pk_begin k0 in
      if dat = [] then (None, k)
      else
        let buf = pk_buf k @ dat;
            k1 = k\<lparr>pk_buf := buf,
                   pk_capture_frame := pk_capture_frame k + word_of_nat (length dat div bpf)\<rparr>
        in if length buf < sz then (None, k1)
           else (Some \<lparr>fr_type = 0, fr_seq = pk_seq k1, fr_capture_frame = pk_packet_capture_frame k1,
                       fr_payload = buf\<rparr>,
                 k1\<lparr>pk_buf := [], pk_seq := pk_seq k1 + 1\<rparr>))"

section \<open>The TCP attempt\<close>

text \<open>The frames of \<^verbatim>\<open>sendConnection\<close> go through the buffered writer; the first error ends it.\<close>

fun send_frames :: "nat \<Rightarrow> nat \<Rightarrow> handshake \<Rightarrow> bytes list \<Rightarrow> writer \<Rightarrow> nat \<Rightarrow> packetizer \<Rightarrow>
    (sender_error option \<times> nat) \<times> writer \<times> packetizer"
where
  "send_frames sz bpf hs [] w n k = ((None, n), w, k)"
| "send_frames sz bpf hs (dat # reads) w n k =
     (case pk_read sz bpf dat k of
        (None, k1) \<Rightarrow> send_frames sz bpf hs reads w n k1
      | (Some f, k1) \<Rightarrow>
          (case write_frame w hs f of
             Inl e \<Rightarrow> ((Some (SnProtocol e), n), w, k1)
           | Inr w1 \<Rightarrow> send_frames sz bpf hs reads w1 (n + 1) k1))"

definition send_connection :: "handshake \<Rightarrow> bytes list \<Rightarrow> writer \<Rightarrow> packetizer \<Rightarrow>
    (sender_error option \<times> nat) \<times> writer \<times> packetizer"
where
  "send_connection hs reads w k =
     (case write_handshake w hs of
        Inl e \<Rightarrow> ((Some (SnProtocol e), 0), w, k)
      | Inr w1 \<Rightarrow>
          (case expected_payload_bytes hs of
             Inl e \<Rightarrow> ((Some (SnProtocol e), 1), w1, k)
           | Inr packetBytes \<Rightarrow>
               send_frames packetBytes (unat (hs_channels hs) * 2) hs reads w1 1 (k\<lparr>pk_buf := []\<rparr>)))"

section \<open>The UDP attempt\<close>

text \<open>The result of \<^verbatim>\<open>conn.Write\<close> on a datagram, as \<^verbatim>\<open>isTransientUDPWriteError\<close> classifies it.\<close>

datatype udp_write = WriteOk | WriteTransient | WriteFatal

datatype udp_send_event = HelloTick udp_write | CaptureRead bytes udp_write

definition udp_chunk_bytes :: "int \<Rightarrow> int" where
  "udp_chunk_bytes bpf = max 1 (int MaxUDPAudioPayloadBytes sdiv bpf) * bpf"

text \<open>
  The datagrams put on the wire (a transiently failed one is lost), the number of successful writes,
  and the error that ends the attempt.
\<close>

fun udp_send_loop :: "nat \<Rightarrow> nat \<Rightarrow> handshake \<Rightarrow> udp_send_event list \<Rightarrow> bytes list \<Rightarrow> nat \<Rightarrow> packetizer \<Rightarrow>
    (sender_error option \<times> nat) \<times> bytes list \<times> packetizer"
where
  "udp_send_loop sz bpf hs [] sent n k = ((None, n), sent, k)"
| "udp_send_loop sz bpf hs (HelloTick res # evs) sent n k =
     (case append_udp_hello [] hs of
        Inl e \<Rightarrow> ((Some (SnProtocol e), n), sent, k)
      | Inr p \<Rightarrow>
          (case res of
             WriteOk \<Rightarrow> udp_send_loop sz bpf hs evs (sent @ [p]) (n + 1) k
           | WriteTransient \<Rightarrow> udp_send_loop sz bpf hs evs sent n k
           | WriteFatal \<Rightarrow> ((Some (SnWrite NetClosed), n), sent, k)))"
| "udp_send_loop sz bpf hs (CaptureRead dat res # evs) sent n k =
     (case pk_read sz bpf dat k of
        (None, k1) \<Rightarrow> udp_send_loop sz bpf hs evs sent n k1
      | (Some f, k1) \<Rightarrow>
          (case append_udp_audio [] f of
             Inl e \<Rightarrow> ((Some (SnProtocol e), n), sent, k1)
           | Inr p \<Rightarrow>
               (case res of
                  WriteOk \<Rightarrow> udp_send_loop sz bpf hs evs (sent @ [p]) (n + 1) k1
                | WriteTransient \<Rightarrow> udp_send_loop sz bpf hs evs sent n k1
                | WriteFatal \<Rightarrow> ((Some (SnWrite NetClosed), n), sent, k1))))"

definition udp_sender_attempt :: "format \<Rightarrow> handshake \<Rightarrow> udp_write \<Rightarrow> udp_send_event list \<Rightarrow> packetizer \<Rightarrow>
    (sender_error option \<times> nat) \<times> bytes list \<times> packetizer"
where
  "udp_sender_attempt format hs helloRes evs k =
     (case append_udp_hello [] hs of
        Inl e \<Rightarrow> ((Some (SnProtocol e), 0), [], k)
      | Inr p \<Rightarrow>
          if helloRes \<noteq> WriteOk then ((Some (SnWrite NetClosed), 0), [], k)
          else let bpf = bytes_per_frame format in
            if bpf \<le> 0 then ((Some (SnBadBytesPerFrame bpf), 1), [p], k)
            else udp_send_loop (nat (udp_chunk_bytes bpf)) (nat bpf) hs evs [p] 1 (k\<lparr>pk_buf := []\<rparr>))"

section \<open>The reconnect loop\<close>

record backoff_options =
  bo_min :: int
  bo_max :: int
  bo_healthy_after :: int

definition normalize_backoff :: "backoff_options \<Rightarrow> backoff_options" where
  "normalize_backoff o0 =
     (let mn = (if bo_min o0 \<le> 0 then 100000000 else bo_min o0);
          mx = (if bo_max o0 \<le> 0 then 5000000000 else bo_max o0);
          mx1 = (if mx < mn then mn else mx);
          h = (if bo_healthy_after o0 \<le> 0 then 2000000000 else bo_healthy_after o0)
      in \<lparr>bo_min = mn, bo_max = mx1, bo_healthy_after = h\<rparr>)"

text \<open>How one attempt ended: with or without an error, after how long, after how many writes.\<close>

record attempt =
  at_failed :: bool
  at_elapsed :: int
  at_writes :: nat

text \<open>The delay slept after each failed attempt.\<close>

fun sender_delays :: "backoff_options \<Rightarrow> int \<Rightarrow> attempt list \<Rightarrow> int list" where
  "sender_delays o1 backoff [] = []"
| "sender_delays o1 backoff (a # as) =
     (if \<not> at_failed a then sender_delays o1 backoff as
      else let b = (if at_elapsed a \<ge> bo_healthy_after o1 \<and> at_writes a > 0 then bo_min o1 else backoff)
           in b # sender_delays o1 (min (wrap64 (b * 2)) (bo_max o1)) as)"

definition run_sender :: "backoff_options \<Rightarrow> attempt list \<Rightarrow> int list" where
  "run_sender o0 as = (let o1 = normalize_backoff o0 in sender_delays o1 (bo_min o1) as)"

text \<open>
  The options as \<^verbatim>\<open>RunSender\<close> receives them; \<open>so_resolve\<close> tells whether a resolver was given, and
  \<open>so_capture\<close> is the format of the capture device, if there is one.
\<close>

record sender_options =
  so_address :: string
  so_resolve :: bool
  so_capture :: "format option"
  so_name :: string
  so_transport :: string
  so_write_timeout :: int
  so_backoff :: backoff_options

definition sender_setup :: "sender_options \<Rightarrow> sender_error + handshake \<times> sender_options" where
  "sender_setup o0 =
     (if \<not> so_resolve o0 \<and> so_address o0 = '''' then Inl SnAddressRequired
      else case so_capture o0 of
        None \<Rightarrow> Inl SnCaptureRequired
      | Some fmt \<Rightarrow>
          let o1 = o0\<lparr>so_name := (if so_name o0 = '''' then ''remote-au'' else so_name o0),
                      so_transport := (if so_transport o0 = '''' then ''udp'' else so_transport o0),
                      so_write_timeout := (if so_write_timeout o0 \<le> 0 then 2000000000 else so_write_timeout o0),
                      so_backoff := normalize_backoff (so_backoff o0), so_resolve := True\<rparr>
          in (case handshake_from_format fmt (so_name o1) of
                Inl e \<Rightarrow> Inl e
              | Inr hs \<Rightarrow> if so_transport o1 \<in> {''udp'', ''tcp''} then Inr (hs, o1)
                         else Inl (SnUnsupportedTransport (so_transport o1))))"

section \<open>Backoff\<close>

lemma normalize_backoff_ok:
  "0 < bo_min (normalize_backoff b)" "bo_min (normalize_backoff b) \<le> bo_max (normalize_backoff b)"
  "0 < bo_healthy_after (normalize_backoff b)"
  by (simp_all add: normalize_backoff_def Let_def)

lemma wrap_double: "0 \<le> x \<Longrightarrow> x < 2 ^ 62 \<Longrightarrow> wrap64 (x * 2) = x * 2"
  by (rule wrap64_id) simp_all

lemma sender_delays_bounds:
  assumes "0 < bo_min b" "bo_min b \<le> bo_max b" "bo_max b < 2 ^ 62"
  shows "bo_min b \<le> x \<Longrightarrow> x \<le> bo_max b \<Longrightarrow>
    \<forall>d \<in> set (sender_delays b x as). bo_min b \<le> d \<and> d \<le> bo_max b"
proof (induction as arbitrary: x)
  case Nil
  then show ?case by simp
next
  case (Cons a as)
  let ?b = "if at_elapsed a \<ge> bo_healthy_after b \<and> at_writes a > 0 then bo_min b else x"
  have r: "bo_min b \<le> ?b" "?b \<le> bo_max b" using Cons.prems assms by auto
  have "wrap64 (?b * 2) = ?b * 2" by (rule wrap_double[OF order.trans[OF less_imp_le[OF assms(1)] r(1)] order.strict_trans1[OF r(2) assms(3)]])
  then have "bo_min b \<le> min (wrap64 (?b * 2)) (bo_max b)" "min (wrap64 (?b * 2)) (bo_max b) \<le> bo_max b"
    using r assms by simp_all
  note ih = Cons.IH[OF this]
  have e: "set (sender_delays b x (a # as)) \<subseteq>
      insert ?b (set (sender_delays b (min (wrap64 (?b * 2)) (bo_max b)) as)) \<union> set (sender_delays b x as)"
    by (cases "at_failed a") (simp_all add: Let_def subset_insertI2)
  then show ?case using ih r Cons.IH[OF Cons.prems] by blast
qed

text \<open>Consecutive failures of unhealthy attempts double the delay up to the limit.\<close>

lemma sender_delays_double:
  assumes "0 < bo_min b" "bo_min b \<le> bo_max b" "bo_max b < 2 ^ 62" "0 < bo_healthy_after b"
    and "list_all (\<lambda>a. at_failed a \<and> at_elapsed a < bo_healthy_after b) as"
  shows "bo_min b \<le> x \<Longrightarrow> x \<le> bo_max b \<Longrightarrow>
    sender_delays b x as = map (\<lambda>i. min (x * 2 ^ i) (bo_max b)) [0..<length as]"
  using assms(5)
proof (induction as arbitrary: x)
  case Nil
  then show ?case by simp
next
  case (Cons a as)
  have w: "wrap64 (x * 2) = x * 2" using Cons.prems assms(1-3) by (intro wrap_double) linarith+
  let ?y = "min (x * 2) (bo_max b)"
  have y: "bo_min b \<le> ?y" "?y \<le> bo_max b" using Cons.prems assms by auto
  have "sender_delays b ?y as = map (\<lambda>i. min (?y * 2 ^ i) (bo_max b)) [0..<length as]"
    using Cons.prems y by (intro Cons.IH) auto
  moreover have "min (?y * 2 ^ i) (bo_max b) = min (x * 2 ^ Suc i) (bo_max b)" for i
  proof (cases "x * 2 \<le> bo_max b")
    case False
    have "bo_max b * 1 \<le> bo_max b * 2 ^ i" using assms by (intro mult_left_mono) simp_all
    moreover have "bo_max b * 1 \<le> x * 2 * 2 ^ i"
      using False assms by (intro mult_mono) simp_all
    ultimately show ?thesis using False by (simp add: min_def mult.assoc)
  qed (simp add: mult.assoc)
  ultimately have "sender_delays b ?y as = map (\<lambda>i. min (x * 2 ^ Suc i) (bo_max b)) [0..<length as]"
    by simp
  also have "\<dots> = map (\<lambda>i. min (x * 2 ^ i) (bo_max b)) [1..<Suc (length as)]"
    by (simp only: map_Suc_upt[symmetric] map_map comp_def One_nat_def)
  finally show ?case
    using Cons.prems w by (simp add: upt_rec[of 0] min_absorb1 del: upt_Suc)
qed


section \<open>What the packetizer produces\<close>

fun pk_run :: "nat \<Rightarrow> nat \<Rightarrow> bytes list \<Rightarrow> packetizer \<Rightarrow> frame list \<times> packetizer" where
  "pk_run sz bpf [] k = ([], k)"
| "pk_run sz bpf (dat # reads) k =
     (let (f, k1) = pk_read sz bpf dat k; (fs, k2) = pk_run sz bpf reads k1
      in (case f of None \<Rightarrow> fs | Some x \<Rightarrow> x # fs, k2))"

text \<open>What a capture device may return: no more than the room offered, in whole sample frames.\<close>

fun reads_fit :: "nat \<Rightarrow> nat \<Rightarrow> nat \<Rightarrow> bytes list \<Rightarrow> bool" where
  "reads_fit sz bpf filled [] \<longleftrightarrow> True"
| "reads_fit sz bpf filled (dat # reads) \<longleftrightarrow>
     filled + length dat \<le> sz \<and> bpf dvd length dat \<and>
     reads_fit sz bpf (if filled + length dat < sz then filled + length dat else 0) reads"

text \<open>The specification: consecutive sequence numbers, capture positions one packet apart.\<close>

fun frame_list :: "u64 \<Rightarrow> u64 \<Rightarrow> u64 \<Rightarrow> bytes list \<Rightarrow> frame list" where
  "frame_list stp q c [] = []"
| "frame_list stp q c (p # ps) =
     \<lparr>fr_type = 0, fr_seq = q, fr_capture_frame = c, fr_payload = p\<rparr> #
     frame_list stp (q + 1) (c + stp) ps"

definition pk_base :: "packetizer \<Rightarrow> u64" where
  "pk_base k = (if pk_buf k = [] then pk_capture_frame k else pk_packet_capture_frame k)"

definition pk_ok :: "nat \<Rightarrow> nat \<Rightarrow> packetizer \<Rightarrow> bool" where
  "pk_ok sz bpf k \<longleftrightarrow> 0 < bpf \<and> bpf dvd length (pk_buf k) \<and> length (pk_buf k) < sz \<and>
     pk_capture_frame k = pk_base k + word_of_nat (length (pk_buf k) div bpf)"

lemma pk_read_spec:
  assumes ok: "pk_ok sz bpf k" and fit: "length (pk_buf k) + length dat \<le> sz" "bpf dvd length dat"
  shows "if length (pk_buf k) + length dat < sz
    then \<exists>k1. pk_read sz bpf dat k = (None, k1) \<and> pk_ok sz bpf k1 \<and> pk_buf k1 = pk_buf k @ dat \<and>
      pk_seq k1 = pk_seq k \<and> pk_base k1 = pk_base k
    else \<exists>k1. pk_read sz bpf dat k = (Some \<lparr>fr_type = 0, fr_seq = pk_seq k,
        fr_capture_frame = pk_base k, fr_payload = pk_buf k @ dat\<rparr>, k1) \<and> pk_ok sz bpf k1 \<and>
      pk_buf k1 = [] \<and> pk_seq k1 = pk_seq k + 1 \<and>
      pk_base k1 = pk_base k + word_of_nat (sz div bpf)"
proof -
  have d: "(length (pk_buf k) + length dat) div bpf = length (pk_buf k) div bpf + length dat div bpf"
    using fit(2) by (rule div_plus_div_distrib_dvd_right)
  show ?thesis
  proof (cases "length (pk_buf k) + length dat < sz")
    case True
    then show ?thesis using ok fit d
      by (auto simp: pk_read_def pk_begin_def pk_ok_def pk_base_def Let_def)
  next
    case False
    with fit have sz: "sz = length (pk_buf k) + length dat" by simp
    with ok have ne: "dat \<noteq> []" by (auto simp: pk_ok_def)
    have bpf: "0 < bpf" "0 < sz" using ok by (auto simp: pk_ok_def)
    from False ne bpf ok d sz show ?thesis
      by (simp add: pk_read_def pk_begin_def pk_ok_def pk_base_def Let_def)
  qed
qed

lemma pk_run_spec:
  assumes "pk_ok sz bpf k" "reads_fit sz bpf (length (pk_buf k)) reads"
  shows "\<exists>ps k'. pk_run sz bpf reads k = (frame_list (word_of_nat (sz div bpf)) (pk_seq k) (pk_base k) ps, k') \<and>
    pk_ok sz bpf k' \<and> list_all (\<lambda>p. length p = sz) ps \<and>
    concat ps @ pk_buf k' = pk_buf k @ concat reads"
  using assms
proof (induction sz bpf reads k rule: pk_run.induct)
  case (1 sz bpf k)
  then show ?case by (intro exI[of _ "[]"]) simp
next
  case (2 sz bpf dat reads k)
  have fit: "length (pk_buf k) + length dat \<le> sz" "bpf dvd length dat" using "2.prems"(2) by simp_all
  note spec = pk_read_spec[OF "2.prems"(1) fit]
  show ?case
  proof (cases "length (pk_buf k) + length dat < sz")
    case True
    with spec obtain k1 where k1: "pk_read sz bpf dat k = (None, k1)" "pk_ok sz bpf k1"
      "pk_buf k1 = pk_buf k @ dat" "pk_seq k1 = pk_seq k" "pk_base k1 = pk_base k" by auto
    have "reads_fit sz bpf (length (pk_buf k1)) reads" using "2.prems"(2) True k1(3) by simp
    from "2.IH"[OF k1(1)[symmetric] refl k1(2) this] show ?thesis using k1 by auto
  next
    case False
    with spec obtain k1 where k1: "pk_read sz bpf dat k = (Some \<lparr>fr_type = 0, fr_seq = pk_seq k,
        fr_capture_frame = pk_base k, fr_payload = pk_buf k @ dat\<rparr>, k1)" "pk_ok sz bpf k1"
      "pk_buf k1 = []" "pk_seq k1 = pk_seq k + 1" "pk_base k1 = pk_base k + word_of_nat (sz div bpf)"
      by auto
    have len: "length (pk_buf k @ dat) = sz" using False fit by simp
    have "reads_fit sz bpf (length (pk_buf k1)) reads" using "2.prems"(2) False k1(3) by simp
    from "2.IH"[OF k1(1)[symmetric] refl k1(2) this] obtain ps k' where
      run: "pk_run sz bpf reads k1 = (frame_list (word_of_nat (sz div bpf)) (pk_seq k1) (pk_base k1) ps, k')"
      "pk_ok sz bpf k'" "list_all (\<lambda>p. length p = sz) ps" "concat ps @ pk_buf k' = concat reads"
      using k1(3) by auto
    show ?thesis
      by (rule exI[of _ "(pk_buf k @ dat) # ps"], rule exI[of _ k']) (use run k1 len in simp)
  qed
qed

section \<open>The receiver's tracker over an undisturbed run\<close>

fun tracker_results :: "int \<Rightarrow> frame list \<Rightarrow> frame_tracker \<Rightarrow> accept_result list" where
  "tracker_results n [] t = []"
| "tracker_results n (f # fs) t =
     (let (r, t1) = tracker_accept (fr_seq f) (fr_capture_frame f) n t
      in r # tracker_results n fs t1)"

definition clean_result :: "accept_result \<Rightarrow> bool" where
  "clean_result r \<longleftrightarrow> \<not> ar_stale r \<and> ar_missing_packets r = 0 \<and> ar_gap_frames r = 0 \<and>
     \<not> ar_capture_moved_backward r"

lemma advance_capture_exact:
  fixes c :: u64
  assumes "unat c + n < 2 ^ 64"
  shows "advance_capture_frame c (int n) = c + word_of_nat n"
proof -
  have u: "unat (word_of_nat n :: u64) = n" using assms by (simp add: unat_of_nat)
  have "unat (- 1 - c) = unat (- 1 :: u64) - unat c" by (rule unat_sub) simp
  then have "unat (max_u64 - c) = 2 ^ 64 - 1 - unat c"
    by (simp add: unsigned_minus_1_eq_mask mask_eq_exp_minus_1)
  then have "\<not> max_u64 - c < word_of_nat n" using u assms by (simp add: word_less_nat_alt)
  then show ?thesis by (simp add: advance_capture_frame_def)
qed

lemma tracker_clean:
  fixes q c :: u64
  assumes "ft_seen t \<Longrightarrow> ft_expected_seq t = q \<and> ft_expected_capture_frame t = c"
    and "unat c + length ps * n < 2 ^ 64"
  shows "list_all clean_result (tracker_results (int n)
    (map default_type (frame_list (word_of_nat n) q c ps)) t)"
  using assms
proof (induction ps arbitrary: q c t)
  case Nil
  then show ?case by simp
next
  case (Cons p ps)
  obtain r t1 where a: "tracker_accept q c (int n) t = (r, t1)" by fastforce
  have n: "unat c + n < 2 ^ 64" using Cons.prems(2) by simp
  note adv = advance_capture_exact[OF n]
  have r: "clean_result r" using a Cons.prems(1)
    by (cases "ft_seen t") (auto simp: tracker_accept_def Let_def clean_result_def zero_result_def)
  have t1: "ft_expected_seq t1 = q + 1 \<and> ft_expected_capture_frame t1 = c + word_of_nat n"
    using a Cons.prems(1) adv by (cases "ft_seen t") (auto simp: tracker_accept_def Let_def)
  have "unat (c + word_of_nat n) \<le> unat c + n"
    using n by (simp add: unat_word_ariths(1) unat_of_nat)
  then have "unat (c + word_of_nat n) + length ps * n < 2 ^ 64" using Cons.prems(2) by simp
  then have "list_all clean_result (tracker_results (int n)
      (map default_type (frame_list (word_of_nat n) (q + 1) (c + word_of_nat n) ps)) t1)"
    using t1 by (intro Cons.IH) auto
  then show ?case using a r by (simp add: default_type_def[of "\<lparr>fr_type = 0, fr_seq = q, fr_capture_frame = c, fr_payload = p\<rparr>"])
qed


section \<open>The TCP attempt writes the packetizer's frames\<close>

lemma send_frames_ok:
  assumes "w_room w = None" "pk_run sz bpf reads k = (fs, k')" "list_all (frame_wf hs) (map default_type fs)"
  shows "send_frames sz bpf hs reads w n k = ((None, n + length fs),
    wr_append w (concat (map (\<lambda>f. encode_frame_header f @ fr_payload f) (map default_type fs))), k')"
  using assms
proof (induction sz bpf hs reads w n k arbitrary: fs rule: send_frames.induct)
  case (1 sz bpf hs w n k)
  then show ?case by simp
next
  case (2 sz bpf hs dat reads w n k)
  obtain f k1 where a: "pk_read sz bpf dat k = (f, k1)" by fastforce
  obtain fs1 k2 where b: "pk_run sz bpf reads k1 = (fs1, k2)" by fastforce
  show ?case
  proof (cases f)
    case None
    then have "pk_run sz bpf reads k1 = (fs, k')" using "2.prems"(2) a b by simp
    from "2.IH"(1)[OF a[symmetric] None "2.prems"(1) this "2.prems"(3)] show ?thesis
      using a None by simp
  next
    case (Some x)
    then have fs: "fs = x # fs1" and k': "pk_run sz bpf reads k1 = (fs1, k')"
      using "2.prems"(2) a b by simp_all
    let ?w = "wr_append w (encode_frame_header (default_type x) @ fr_payload (default_type x))"
    have wf: "frame_wf hs (default_type x)" "list_all (frame_wf hs) (map default_type fs1)"
      using "2.prems"(3) by (simp_all add: fs)
    have room: "w_room ?w = None" "wr_room_for m w" for m
      using "2.prems"(1) by (simp_all add: wr_append_def wr_room_for_def)
    have w: "write_frame w hs x = Inr ?w" by (rule write_frame_ok[OF wf(1) room(2)])
    from "2.IH"(2)[OF a[symmetric] Some w room(1) k' wf(2)] show ?thesis
      using a Some w by (simp add: fs)
  qed
qed

lemma handshake_from_format_ok:
  assumes "handshake_from_format fmt name = Inr hs"
  shows "validate_handshake hs = None" "int (unat (hs_channels hs)) = f_channels fmt"
    "int (unat (hs_frame_samples hs)) = f_frame_samples fmt"
    "int (unat (hs_sample_rate hs)) = f_rate fmt"
proof -
  have r: "1 \<le> f_channels fmt" "f_channels fmt \<le> 8" "1 \<le> f_frame_samples fmt"
    "f_frame_samples fmt \<le> 4096" "8000 \<le> f_rate fmt" "f_rate fmt \<le> 192000"
    using assms by (auto simp: handshake_from_format_def Let_def split: option.splits if_splits)
  have hs: "hs_channels hs = word_of_int (f_channels fmt)" "hs_frame_samples hs = word_of_int (f_frame_samples fmt)"
    "hs_sample_rate hs = word_of_int (f_rate fmt)"
    and v: "validate_handshake hs = None"
    using assms by (auto simp: handshake_from_format_def Let_def split: option.splits if_splits)
  show "validate_handshake hs = None" by (rule v)
  have u: "int (unat x) = uint x" for x :: "'a::len word" by simp
  show "int (unat (hs_channels hs)) = f_channels fmt" "int (unat (hs_frame_samples hs)) = f_frame_samples fmt"
    "int (unat (hs_sample_rate hs)) = f_rate fmt"
    unfolding hs u using r by (simp_all add: uint_word_of_int)
qed

lemma frame_list_payloads [simp]: "map fr_payload (frame_list stp q c ps) = ps"
  by (induction ps arbitrary: q c) simp_all

lemma frame_list_type: "list_all (\<lambda>f. fr_type f = 0) (frame_list stp q c ps)"
  by (induction ps arbitrary: q c) simp_all

lemma frame_list_length [simp]: "length (frame_list stp q c ps) = length ps"
  by (induction ps arbitrary: q c) simp_all

lemma default_type_payload [simp]: "fr_payload (default_type f) = fr_payload f"
  by (simp add: default_type_def)

lemma frame_list_wf:
  "expected_payload_bytes hs = Inr n \<Longrightarrow> list_all (\<lambda>p. length p = n) ps \<Longrightarrow>
     list_all (frame_wf hs) (map default_type (frame_list stp q c ps))"
  by (induction ps arbitrary: q c) (simp_all add: frame_wf_def default_type_def)

lemma length_concat_all: "list_all (\<lambda>p. length p = n) ps \<Longrightarrow> length (concat ps) = length ps * n"
  by (induction ps) simp_all

text \<open>
  C22. What the sender captures reaches a receiver's application unchanged over TCP.  For any format
  the handshake accepts and any sequence of capture reads that respects the room offered, the sender
  finishes without an error, and on the bytes it put on the connection the receiver reads back that
  handshake and frames whose payloads, followed by what is still in the sender's packet buffer, are
  exactly the captured bytes; the receiver's tracker sees no stale packet, no loss and no capture gap
  in them, in whatever state earlier connections left the sender's counters.
\<close>

theorem capture_reaches_receiver:
  assumes hand: "handshake_from_format fmt name = Inr hs"
    and fit: "reads_fit (unat (hs_frame_samples hs) * (unat (hs_channels hs) * 2)) (unat (hs_channels hs) * 2) 0 reads"
    and cap: "unat (pk_capture_frame k) + length (concat reads) < 2 ^ 64"
  shows "\<exists>n w k' r1 fs. send_connection hs reads \<lparr>w_out = [], w_room = None\<rparr> k = ((None, Suc n), w, k') \<and>
    read_handshake \<lparr>r_data = w_out w, r_end = EOF\<rparr> = Inr (hs, r1) \<and>
    read_many (read_frame hs) n r1 = Inr (fs, \<lparr>r_data = [], r_end = EOF\<rparr>) \<and>
    concat (map fr_payload fs) @ pk_buf k' = concat reads \<and>
    list_all clean_result (tracker_results (int (unat (hs_frame_samples hs))) fs zero_tracker)"
proof -
  let ?ch = "unat (hs_channels hs)" and ?fs = "unat (hs_frame_samples hs)"
  let ?sz = "?fs * (?ch * 2)" and ?k = "k\<lparr>pk_buf := []\<rparr>" and ?w0 = "\<lparr>w_out = [], w_room = None\<rparr>"
  have v: "validate_handshake hs = None" using handshake_from_format_ok[OF hand] by simp
  then have pos: "0 < ?ch" "0 < ?fs" by (simp_all add: validate_None)
  have ex: "expected_payload_bytes hs = Inr ?sz" using valid_expected(1)[OF v] by (simp add: ac_simps)
  have st: "?sz div (?ch * 2) = ?fs" using pos by simp
  have "pk_ok ?sz (?ch * 2) ?k" using pos by (simp add: pk_ok_def pk_base_def)
  from pk_run_spec[OF this, of reads] fit obtain ps k' where
    run: "pk_run ?sz (?ch * 2) reads ?k = (frame_list (word_of_nat ?fs) (pk_seq k) (pk_capture_frame k) ps, k')"
    and ps: "list_all (\<lambda>p. length p = ?sz) ps" "concat ps @ pk_buf k' = concat reads"
    by (auto simp: st pk_base_def)
  let ?f = "map default_type (frame_list (word_of_nat ?fs) (pk_seq k) (pk_capture_frame k) ps)"
  have wf: "list_all (frame_wf hs) ?f" by (rule frame_list_wf[OF ex ps(1)])
  have d: "default_version hs = hs" using v by (simp add: default_version_def validate_None)
  let ?h = "encode_handshake hs @ hs_name hs"
  have w1: "write_handshake ?w0 hs = Inr (wr_append ?w0 ?h)"
    using write_handshake_ok[of hs ?w0] v by (simp add: d wr_room_for_def)
  let ?fb = "concat (map (\<lambda>f. encode_frame_header f @ fr_payload f) ?f)"
  have "send_frames ?sz (?ch * 2) hs reads (wr_append ?w0 ?h) 1 ?k =
      ((None, 1 + length ps), wr_append (wr_append ?w0 ?h) ?fb, k')"
    using send_frames_ok[OF _ run wf, of "wr_append ?w0 ?h" 1] by (simp add: wr_append_def)
  then have send: "send_connection hs reads ?w0 k = ((None, Suc (length ps)), wr_append ?w0 (?h @ ?fb), k')"
    by (simp add: send_connection_def w1 ex)
  have rh: "read_handshake \<lparr>r_data = ?h @ ?fb, r_end = EOF\<rparr> = Inr (hs, \<lparr>r_data = ?fb, r_end = EOF\<rparr>)"
    using hs_stream.rd_enc[OF v, where r = "\<lparr>r_data = [], r_end = EOF\<rparr>" and rest = ?fb] by simp
  have rf: "read_many (read_frame hs) (length ps) \<lparr>r_data = ?fb, r_end = EOF\<rparr> =
      Inr (?f, \<lparr>r_data = [], r_end = EOF\<rparr>)"
    using fr_stream.rd_many[OF wf, where r = "\<lparr>r_data = [], r_end = EOF\<rparr>" and rest = "[]"] by simp
  have "length ps * ?fs \<le> length (concat ps)"
    using pos by (simp add: length_concat_all[OF ps(1)])
  also have "\<dots> \<le> length (concat reads)" using ps(2) by (metis length_append le_add1)
  finally have "list_all clean_result (tracker_results (int ?fs) ?f zero_tracker)"
    using cap by (intro tracker_clean) (simp_all add: zero_tracker_def)
  moreover have "concat (map fr_payload ?f) @ pk_buf k' = concat reads"
    using ps(2) by (simp add: comp_def)
  ultimately show ?thesis using send rh rf by (intro exI conjI) (assumption | simp)+
qed

theorem capture_reaches_receiver_witness:
  "\<exists>hs n w k' r1 fs. handshake_from_format \<lparr>f_rate = 48000, f_channels = 1, f_frame_samples = 2\<rparr> ''A'' = Inr hs \<and>
    send_connection hs [[1, 2], [], [3, 4], [5, 6]] \<lparr>w_out = [], w_room = None\<rparr>
      \<lparr>pk_seq = 7, pk_capture_frame = 9, pk_buf = [], pk_packet_capture_frame = 0\<rparr> = ((None, Suc n), w, k') \<and>
    read_handshake \<lparr>r_data = w_out w, r_end = EOF\<rparr> = Inr (hs, r1) \<and>
    read_many (read_frame hs) n r1 = Inr (fs, \<lparr>r_data = [], r_end = EOF\<rparr>) \<and>
    concat (map fr_payload fs) @ pk_buf k' = [1, 2, 3, 4, 5, 6]"
proof -
  let ?hs = "\<lparr>hs_version = 1, hs_flags = 0, hs_sample_rate = 48000, hs_channels = 1, hs_format = 1,
    hs_frame_samples = 2, hs_name = bytes_of_str ''A''\<rparr>"
  have "validate_handshake ?hs = None" by (simp add: validate_None bytes_of_str_def)
  then have h: "handshake_from_format \<lparr>f_rate = 48000, f_channels = 1, f_frame_samples = 2\<rparr> ''A'' = Inr ?hs"
    by (simp add: handshake_from_format_def validate_format_def Let_def)
  from capture_reaches_receiver[OF h, of "[[1, 2], [], [3, 4], [5, 6]]"
      "\<lparr>pk_seq = 7, pk_capture_frame = 9, pk_buf = [], pk_packet_capture_frame = 0\<rparr>"] h
  show ?thesis by (simp, blast)
qed

section \<open>The UDP attempt\<close>

fun captured :: "udp_send_event list \<Rightarrow> bytes list" where
  "captured [] = []"
| "captured (HelloTick res # evs) = captured evs"
| "captured (CaptureRead dat res # evs) = dat # captured evs"

text \<open>The frames a receiver decodes from a list of datagrams.\<close>

fun audio_frames :: "bytes list \<Rightarrow> frame list" where
  "audio_frames [] = []"
| "audio_frames (p # ps) =
     (case decode_udp_datagram p of Inr (UDPAudio f) \<Rightarrow> f # audio_frames ps | _ \<Rightarrow> audio_frames ps)"

definition well_formed_datagram :: "handshake \<Rightarrow> bytes \<Rightarrow> bool" where
  "well_formed_datagram hs p \<longleftrightarrow> length p \<le> MaxUDPDatagramBytes \<and>
     (decode_udp_datagram p = Inr (UDPHello hs) \<or> (\<exists>f. decode_udp_datagram p = Inr (UDPAudio f)))"

definition udp_sent_ok :: "handshake \<Rightarrow> nat \<Rightarrow> nat \<Rightarrow> packetizer \<Rightarrow> bytes list \<Rightarrow> bytes list \<Rightarrow> bool" where
  "udp_sent_ok hs sz bpf k reads added \<longleftrightarrow> list_all (well_formed_datagram hs) added \<and>
     (\<exists>ps. list_all (\<lambda>p. length p = sz) ps \<and> prefix (concat ps) (pk_buf k @ concat reads) \<and>
        subseq (audio_frames added)
          (map default_type (frame_list (word_of_nat (sz div bpf)) (pk_seq k) (pk_base k) ps)))"

lemma decoded_length: "decode_udp_datagram p = Inr d \<Longrightarrow> length p \<le> MaxUDPDatagramBytes"
  by (auto simp: decode_udp_datagram_def split: if_splits)

lemma udp_audio_packet:
  assumes "0 < length (fr_payload f)" "length (fr_payload f) \<le> 960" "fr_type f = 0"
  shows "\<exists>p. append_udp_audio [] f = Inr p \<and> decode_udp_datagram p = Inr (UDPAudio (default_type f))"
proof -
  have wf: "udp_wf (UDPAudio (default_type f))" using assms by (simp add: udp_wf_def default_type_def)
  have "append_udp_audio [] f = append_udp_audio [] (default_type f)"
    using assms(3) by (simp add: append_udp_audio_def default_type_def)
  then have "append_udp_audio [] f = Inr (udp_packet (UDPAudio (default_type f)))"
    using append_udp_audio_valid[OF wf] by (simp add: udp_packet_def append_udp_def)
  then show ?thesis using decode_udp_datagram_enc[OF wf] by blast
qed

lemma udp_hello_packet:
  assumes "validate_handshake hs = None"
  shows "\<exists>p. append_udp_hello [] hs = Inr p \<and> well_formed_datagram hs p \<and>
    decode_udp_datagram p = Inr (UDPHello hs)"
proof -
  have wf: "udp_wf (UDPHello hs)" using assms by (simp add: udp_wf_def)
  have "append_udp_hello [] hs = Inr (udp_packet (UDPHello hs))"
    using append_udp_hello_valid[OF assms] by (simp add: udp_packet_def append_udp_def)
  then show ?thesis using decode_udp_datagram_enc[OF wf] decoded_length
    by (auto simp: well_formed_datagram_def)
qed

lemma udp_sent_ok_Nil: "udp_sent_ok hs sz bpf k reads []"
  unfolding udp_sent_ok_def by (intro conjI exI[of _ "[]"]) simp_all

lemma udp_sent_ok_hello:
  "decode_udp_datagram p = Inr (UDPHello hs) \<Longrightarrow> udp_sent_ok hs sz bpf k reads added \<Longrightarrow>
     udp_sent_ok hs sz bpf k reads (p # added)"
  by (auto simp: udp_sent_ok_def well_formed_datagram_def dest: decoded_length)

lemma udp_sent_ok_partial:
  assumes "udp_sent_ok hs sz bpf k1 reads added" "pk_buf k1 = pk_buf k @ dat" "pk_seq k1 = pk_seq k"
    "pk_base k1 = pk_base k"
  shows "udp_sent_ok hs sz bpf k (dat # reads) added"
  using assms by (auto simp: udp_sent_ok_def)

lemma udp_sent_ok_packet:
  assumes ok: "udp_sent_ok hs sz bpf k1 reads added" and k1: "pk_buf k1 = []" "pk_seq k1 = pk_seq k + 1"
    "pk_base k1 = pk_base k + word_of_nat (sz div bpf)" and len: "length (pk_buf k @ dat) = sz"
    and p: "decode_udp_datagram p = Inr (UDPAudio (default_type \<lparr>fr_type = 0, fr_seq = pk_seq k,
      fr_capture_frame = pk_base k, fr_payload = pk_buf k @ dat\<rparr>))"
    and new: "new = added \<or> new = p # added"
  shows "udp_sent_ok hs sz bpf k (dat # reads) new"
proof -
  from ok obtain ps where ps: "list_all (\<lambda>p. length p = sz) ps" "prefix (concat ps) (concat reads)"
    "subseq (audio_frames added)
      (map default_type (frame_list (word_of_nat (sz div bpf)) (pk_seq k1) (pk_base k1) ps))"
    and w: "list_all (well_formed_datagram hs) added" by (auto simp: udp_sent_ok_def k1(1))
  have "list_all (well_formed_datagram hs) new"
    using new w p decoded_length[OF p] by (auto simp: well_formed_datagram_def)
  moreover have "subseq (audio_frames new)
      (map default_type (frame_list (word_of_nat (sz div bpf)) (pk_seq k) (pk_base k) ((pk_buf k @ dat) # ps)))"
    using new ps(3) p by (auto simp: k1)
  ultimately show ?thesis
    unfolding udp_sent_ok_def using ps(1,2) len by (intro conjI exI[of _ "(pk_buf k @ dat) # ps"]) simp_all
qed

lemma udp_send_loop_spec:
  assumes "validate_handshake hs = None" "0 < sz" "sz \<le> 960" "pk_ok sz bpf k"
    "reads_fit sz bpf (length (pk_buf k)) (captured evs)"
  shows "\<exists>err added k'. udp_send_loop sz bpf hs evs sent n k = ((err, n + length added), sent @ added, k') \<and>
    (err = None \<or> err = Some (SnWrite NetClosed)) \<and> udp_sent_ok hs sz bpf k (captured evs) added"
  using assms
proof (induction sz bpf hs evs sent n k rule: udp_send_loop.induct)
  case (1 sz bpf hs sent n k)
  then show ?case by (simp add: udp_sent_ok_Nil)
next
  case (2 sz bpf hs res evs sent n k)
  obtain p where p: "append_udp_hello [] hs = Inr p" "decode_udp_datagram p = Inr (UDPHello hs)"
    using udp_hello_packet[OF "2.prems"(1)] by blast
  have fit: "reads_fit sz bpf (length (pk_buf k)) (captured evs)" using "2.prems"(5) by simp
  show ?case
  proof (cases res)
    case WriteOk
    from "2.IH"(1)[OF p(1) WriteOk "2.prems"(1-4) fit] obtain err added k' where
      "udp_send_loop sz bpf hs evs (sent @ [p]) (n + 1) k = ((err, n + 1 + length added), (sent @ [p]) @ added, k')"
      "err = None \<or> err = Some (SnWrite NetClosed)" "udp_sent_ok hs sz bpf k (captured evs) added" by blast
    then show ?thesis using p WriteOk
      by (intro exI[of _ err] exI[of _ "p # added"] exI[of _ k']) (auto intro: udp_sent_ok_hello)
  next
    case WriteTransient
    from "2.IH"(2)[OF p(1) WriteTransient "2.prems"(1-4) fit] show ?thesis using p WriteTransient by simp
  next
    case WriteFatal
    then show ?thesis using p by (simp add: udp_sent_ok_Nil)
  qed
next
  case (3 sz bpf hs dat res evs sent n k)
  have fit: "length (pk_buf k) + length dat \<le> sz" "bpf dvd length dat" using "3.prems"(5) by simp_all
  note spec = pk_read_spec[OF "3.prems"(4) fit]
  show ?case
  proof (cases "length (pk_buf k) + length dat < sz")
    case True
    with spec obtain k1 where k1: "pk_read sz bpf dat k = (None, k1)" "pk_ok sz bpf k1"
      "pk_buf k1 = pk_buf k @ dat" "pk_seq k1 = pk_seq k" "pk_base k1 = pk_base k" by auto
    have "reads_fit sz bpf (length (pk_buf k1)) (captured evs)" using "3.prems"(5) True k1(3) by simp
    from "3.IH"(1)[OF k1(1)[symmetric] refl "3.prems"(1-3) k1(2) this] obtain err added k' where
      "udp_send_loop sz bpf hs evs sent n k1 = ((err, n + length added), sent @ added, k')"
      "err = None \<or> err = Some (SnWrite NetClosed)" "udp_sent_ok hs sz bpf k1 (captured evs) added" by blast
    then show ?thesis using k1 udp_sent_ok_partial[of hs sz bpf k1 "captured evs" added k dat] by auto
  next
    case False
    let ?f = "\<lparr>fr_type = 0, fr_seq = pk_seq k, fr_capture_frame = pk_base k, fr_payload = pk_buf k @ dat\<rparr>"
    from False spec obtain k1 where k1: "pk_read sz bpf dat k = (Some ?f, k1)" "pk_ok sz bpf k1"
      "pk_buf k1 = []" "pk_seq k1 = pk_seq k + 1" "pk_base k1 = pk_base k + word_of_nat (sz div bpf)" by auto
    have len: "length (pk_buf k @ dat) = sz" using False fit by simp
    have fit1: "reads_fit sz bpf (length (pk_buf k1)) (captured evs)" using "3.prems"(5) False k1(3) by simp
    obtain p where p: "append_udp_audio [] ?f = Inr p" "decode_udp_datagram p = Inr (UDPAudio (default_type ?f))"
      using udp_audio_packet[of ?f] "3.prems"(2,3) len by auto
    note packet = udp_sent_ok_packet[OF _ k1(3-5) len p(2)]
    show ?thesis
    proof (cases res)
      case WriteOk
      from "3.IH"(2)[OF k1(1)[symmetric] refl p(1) WriteOk "3.prems"(1-3) k1(2) fit1] obtain err added k' where
        "udp_send_loop sz bpf hs evs (sent @ [p]) (n + 1) k1 = ((err, n + 1 + length added), (sent @ [p]) @ added, k')"
        "err = None \<or> err = Some (SnWrite NetClosed)" "udp_sent_ok hs sz bpf k1 (captured evs) added" by blast
      then show ?thesis using p k1 WriteOk
        by (intro exI[of _ err] exI[of _ "p # added"] exI[of _ k']) (auto intro: packet)
    next
      case WriteTransient
      from "3.IH"(3)[OF k1(1)[symmetric] refl p(1) WriteTransient "3.prems"(1-3) k1(2) fit1] obtain err added k' where
        "udp_send_loop sz bpf hs evs sent n k1 = ((err, n + length added), sent @ added, k')"
        "err = None \<or> err = Some (SnWrite NetClosed)" "udp_sent_ok hs sz bpf k1 (captured evs) added" by blast
      then show ?thesis using p k1 WriteTransient
        by (intro exI[of _ err] exI[of _ added] exI[of _ k']) (auto intro: packet)
    next
      case WriteFatal
      then show ?thesis using p k1 by (simp add: udp_sent_ok_Nil)
    qed
  qed
qed

lemma udp_chunk_facts:
  assumes "1 \<le> ch" "ch \<le> (8 :: int)"
  shows "0 < udp_chunk_bytes (2 * ch) \<and> udp_chunk_bytes (2 * ch) \<le> 960 \<and> 2 * ch dvd udp_chunk_bytes (2 * ch)"
proof -
  have "ch \<in> {1, 2, 3, 4, 5, 6, 7, 8}" using assms by auto
  then show ?thesis by (auto simp: udp_chunk_bytes_def)
qed

text \<open>
  Over UDP a valid capture format never makes the encoder fail: an attempt ends only when the
  socket fails, every datagram on the wire is at most 1500 bytes and decodes to this sender's
  handshake or to an audio frame, as many writes are counted as datagrams were put on the wire, and
  the audio frames among them are, in order, some of the frames obtained by cutting a prefix of the
  captured bytes into equal packets numbered consecutively from the sender's counters.
\<close>

theorem udp_sender_sound:
  assumes hand: "handshake_from_format fmt name = Inr hs" and "pk_capture_frame k = c" "pk_seq k = q"
    and fit: "reads_fit (nat (udp_chunk_bytes (bytes_per_frame fmt))) (nat (bytes_per_frame fmt)) 0 (captured evs)"
  shows "\<exists>err sent k'. udp_sender_attempt fmt hs res evs k = ((err, length sent), sent, k') \<and>
    (err = None \<or> err = Some (SnWrite NetClosed)) \<and> list_all (well_formed_datagram hs) sent \<and>
    (\<exists>ps stp. prefix (concat ps) (concat (captured evs)) \<and>
       list_all (\<lambda>p. int (length p) = udp_chunk_bytes (bytes_per_frame fmt)) ps \<and>
       subseq (audio_frames sent) (map default_type (frame_list stp q c ps)))"
proof -
  have v: "validate_handshake hs = None" by (rule handshake_from_format_ok[OF hand])
  have ch: "1 \<le> f_channels fmt" "f_channels fmt \<le> 8"
    using hand by (auto simp: handshake_from_format_def Let_def split: option.splits if_splits)
  have b: "bytes_per_frame fmt = 2 * f_channels fmt" using ch by (intro bytes_per_frame_eq) simp_all
  let ?B = "udp_chunk_bytes (bytes_per_frame fmt)" and ?k = "k\<lparr>pk_buf := []\<rparr>"
  have B: "0 < ?B" "?B \<le> 960" "bytes_per_frame fmt dvd ?B" using udp_chunk_facts[OF ch] by (simp_all add: b)
  obtain p where p: "append_udp_hello [] hs = Inr p" "well_formed_datagram hs p"
    "decode_udp_datagram p = Inr (UDPHello hs)" using udp_hello_packet[OF v] by blast
  show ?thesis
  proof (cases "res = WriteOk")
    case False
    then show ?thesis using p
      by (intro exI[of _ "Some (SnWrite NetClosed)"] exI[of _ "[]"] exI[of _ k])
        (simp add: udp_sender_attempt_def, intro exI[of _ "[]"], simp)
  next
    case True
    have ok0: "pk_ok (nat ?B) (nat (bytes_per_frame fmt)) ?k" using B ch b by (simp add: pk_ok_def pk_base_def)
    have Bn: "0 < nat ?B" "nat ?B \<le> 960" using B by (simp_all add: nat_le_iff)
    from udp_send_loop_spec[OF v Bn ok0, of evs "[p]" 1] fit obtain err added k' where
      run: "udp_send_loop (nat ?B) (nat (bytes_per_frame fmt)) hs evs [p] 1 ?k =
        ((err, 1 + length added), [p] @ added, k')" "err = None \<or> err = Some (SnWrite NetClosed)"
      and ok: "udp_sent_ok hs (nat ?B) (nat (bytes_per_frame fmt)) ?k (captured evs) added" by auto
    have "udp_sender_attempt fmt hs res evs k = ((err, length (p # added)), p # added, k')"
      using True run p(1) ch b by (simp add: udp_sender_attempt_def)
    moreover have "udp_sent_ok hs (nat ?B) (nat (bytes_per_frame fmt)) ?k (captured evs) (p # added)"
      using p(3) ok by (rule udp_sent_ok_hello)
    ultimately show ?thesis using run(2) B(1) assms(2,3)
      unfolding udp_sent_ok_def by (fastforce simp: pk_base_def list_all_iff)
  qed
qed

definition demo_capture_format :: format where
  "demo_capture_format = \<lparr>f_rate = 48000, f_channels = 8, f_frame_samples = 480\<rparr>"

definition demo_capture_handshake :: handshake where
  "demo_capture_handshake = \<lparr>hs_version = 1, hs_flags = 0, hs_sample_rate = 48000, hs_channels = 8,
     hs_format = 1, hs_frame_samples = 480, hs_name = []\<rparr>"

lemma demo_capture_ok: "handshake_from_format demo_capture_format [] = Inr demo_capture_handshake"
proof -
  have "validate_handshake demo_capture_handshake = None"
    by (simp add: validate_None demo_capture_handshake_def)
  then show ?thesis
    by (simp add: handshake_from_format_def demo_capture_format_def validate_format_def
        demo_capture_handshake_def bytes_of_str_def Let_def)
qed

theorem udp_sender_sound_witness:
  "\<exists>err sent k'. udp_sender_attempt demo_capture_format demo_capture_handshake WriteOk
      [CaptureRead (replicate 944 1) WriteOk, HelloTick WriteTransient, CaptureRead (replicate 16 2) WriteOk]
      \<lparr>pk_seq = 3, pk_capture_frame = 5, pk_buf = [], pk_packet_capture_frame = 0\<rparr> =
        ((err, length sent), sent, k') \<and> list_all (well_formed_datagram demo_capture_handshake) sent"
proof -
  have "reads_fit (nat (udp_chunk_bytes (bytes_per_frame demo_capture_format)))
      (nat (bytes_per_frame demo_capture_format)) 0
      (captured [CaptureRead (replicate 944 1) WriteOk, HelloTick WriteTransient, CaptureRead (replicate 16 2) WriteOk])"
    by (simp add: demo_capture_format_def bytes_per_frame_eq udp_chunk_bytes_def)
  from udp_sender_sound[OF demo_capture_ok refl refl this, of WriteOk
      "\<lparr>pk_seq = 3, pk_capture_frame = 5, pk_buf = [], pk_packet_capture_frame = 0\<rparr>"]
  show ?thesis by blast
qed

section \<open>Reconnection\<close>

text \<open>
  The reconnect delays never leave their configured range, whatever happens to the attempts, and
  while attempts keep failing quickly they double from the minimum up to the maximum.
\<close>

theorem sender_backoff:
  assumes "bo_max (normalize_backoff b) < 2 ^ 62"
  shows "list_all (\<lambda>d. bo_min (normalize_backoff b) \<le> d \<and> d \<le> bo_max (normalize_backoff b)) (run_sender b as) \<and>
    (list_all (\<lambda>a. at_failed a \<and> at_elapsed a < bo_healthy_after (normalize_backoff b)) as \<longrightarrow>
       run_sender b as =
         map (\<lambda>i. min (bo_min (normalize_backoff b) * 2 ^ i) (bo_max (normalize_backoff b))) [0..<length as])"
proof (intro conjI impI)
  show "list_all (\<lambda>d. bo_min (normalize_backoff b) \<le> d \<and> d \<le> bo_max (normalize_backoff b)) (run_sender b as)"
    unfolding run_sender_def Let_def list_all_iff
    by (rule sender_delays_bounds[OF normalize_backoff_ok(1,2) assms order.refl normalize_backoff_ok(2)])
next
  assume "list_all (\<lambda>a. at_failed a \<and> at_elapsed a < bo_healthy_after (normalize_backoff b)) as"
  then show "run_sender b as =
      map (\<lambda>i. min (bo_min (normalize_backoff b) * 2 ^ i) (bo_max (normalize_backoff b))) [0..<length as]"
    unfolding run_sender_def Let_def
    by (rule sender_delays_double[OF normalize_backoff_ok(1,2) assms normalize_backoff_ok(3) _ order.refl
          normalize_backoff_ok(2)])
qed

definition demo_backoff :: backoff_options where
  "demo_backoff = \<lparr>bo_min = 0, bo_max = 300000000, bo_healthy_after = 0\<rparr>"

definition demo_failures :: "attempt list" where
  "demo_failures = map (\<lambda>i. \<lparr>at_failed = True, at_elapsed = 5, at_writes = 0\<rparr>) [0 :: nat, 1, 2]"

lemma demo_backoff_values:
  "bo_min (normalize_backoff demo_backoff) = 100000000" "bo_max (normalize_backoff demo_backoff) = 300000000"
  "bo_healthy_after (normalize_backoff demo_backoff) = 2000000000"
  by (simp_all add: normalize_backoff_def demo_backoff_def)

theorem sender_backoff_witness: "run_sender demo_backoff demo_failures = [100000000, 200000000, 300000000]"
proof -
  have "bo_max (normalize_backoff demo_backoff) < 2 ^ 62" by (simp add: demo_backoff_values)
  note * = sender_backoff[OF this, of demo_failures]
  have "list_all (\<lambda>a. at_failed a \<and> at_elapsed a < bo_healthy_after (normalize_backoff demo_backoff)) demo_failures"
    by (simp add: demo_backoff_values demo_failures_def)
  with * have "run_sender demo_backoff demo_failures =
      map (\<lambda>i. min (100000000 * 2 ^ i) 300000000) [0..<length demo_failures]"
    unfolding demo_backoff_values by blast
  moreover have "[0..<length demo_failures] = [0, 1, 2]" by (simp add: demo_failures_def upt_rec)
  ultimately show ?thesis by simp
qed

end
