(* ===== verification/Quality.thy ===== *)
theory Quality
  imports GoFloat GoInt
begin

text \<open>
  The adaptive quality controller, \<^verbatim>\<open>engine/internal/quality/adaptive.go\<close>, and the presets a
  receiver picks from, \<^verbatim>\<open>engine/internal/engine/qualitymode.go\<close>.  Time is nanoseconds; the zero
  \<^verbatim>\<open>time.Time\<close> of a fresh controller is \<open>None\<close>, whose distance to any present time
  \<^verbatim>\<open>Sub\<close> saturates.
\<close>

section \<open>Levels\<close>

datatype level = Excellent | Good | Fair | Poor

primrec level_rank :: "level \<Rightarrow> nat" where
  "level_rank Excellent = 0"
| "level_rank Good = 1"
| "level_rank Fair = 2"
| "level_rank Poor = 3"

instantiation level :: linorder
begin

definition less_eq_level :: "level \<Rightarrow> level \<Rightarrow> bool" where
  "less_eq_level a b \<longleftrightarrow> level_rank a \<le> level_rank b"

definition less_level :: "level \<Rightarrow> level \<Rightarrow> bool" where
  "less_level a b \<longleftrightarrow> level_rank a < level_rank b"

instance
proof
  fix x y :: level
  show "x \<le> y \<Longrightarrow> y \<le> x \<Longrightarrow> x = y"
    by (cases x; cases y) (simp_all add: less_eq_level_def)
qed (auto simp: less_eq_level_def less_level_def)

end

fun level_string :: "level \<Rightarrow> string" where
  "level_string Excellent = ''excellent''"
| "level_string Good = ''good''"
| "level_string Fair = ''fair''"
| "level_string Poor = ''poor''"

section \<open>State\<close>

record 'f sample =
  q_loss_percent :: 'f
  q_late_percent :: 'f
  q_jitter_ms :: 'f
  q_rtt_ms :: 'f
  q_buf_depth_ms :: 'f
  q_underruns :: "64 word"

record decision =
  d_bitrate_bps :: int
  d_fec_enabled :: bool
  d_expected_loss :: int
  d_switch_to_pcm :: bool
  d_switch_to_opus :: bool
  d_level :: level

record 'f controller =
  ct_min_bitrate :: int
  ct_max_bitrate :: int
  ct_cooldown :: int
  ct_bitrate :: int
  ct_fec :: bool
  ct_expected_loss :: int
  ct_last_adjust :: "int option"
  ct_loss_ewma :: 'f
  ct_late_ewma :: 'f
  ct_jitter_ewma :: 'f
  ct_rtt_ewma :: 'f
  ct_underrun_acc :: "64 word"
  ct_initialized :: bool

section \<open>Operations\<close>

definition new_controller :: "'f float_ops \<Rightarrow> int \<Rightarrow> int \<Rightarrow> 'f controller" where
  "new_controller F minBitrate0 maxBitrate0 =
     (let minBitrate = (if minBitrate0 \<le> 0 then 32000 else minBitrate0);
          max1 = (if maxBitrate0 < minBitrate then minBitrate else maxBitrate0);
          maxBitrate = (if max1 > 510000 then 510000 else max1);
          start = wrap64 (minBitrate + maxBitrate) sdiv 2
      in \<lparr>ct_min_bitrate = minBitrate, ct_max_bitrate = maxBitrate, ct_cooldown = 2000000000,
          ct_bitrate = start, ct_fec = False, ct_expected_loss = 0, ct_last_adjust = None,
          ct_loss_ewma = fo_zero F, ct_late_ewma = fo_zero F, ct_jitter_ewma = fo_zero F,
          ct_rtt_ewma = fo_zero F, ct_underrun_acc = 0, ct_initialized = False\<rparr>)"

definition scale :: "'f float_ops \<Rightarrow> int \<Rightarrow> rat \<Rightarrow> int \<Rightarrow> int \<Rightarrow> int" where
  "scale F cur factor mn mx =
     (let next0 = fo_trunc F (fo_mul F (fo_of_int F cur) (fo_lit F factor));
          next1 = (if next0 < mn then mn else next0)
      in if next1 > mx then mx else next1)"

definition classify :: "'f float_ops \<Rightarrow> 'f \<Rightarrow> 'f \<Rightarrow> 'f \<Rightarrow> 'f \<Rightarrow> level" where
  "classify F loss late jitterMs rttMs =
     (if fo_less F loss (fo_lit F (1 / 2)) \<and> fo_less F late (fo_lit F (1 / 2)) \<and>
         fo_less F jitterMs (fo_lit F 6) \<and> fo_less F rttMs (fo_lit F 20) then Excellent
      else if fo_less F loss (fo_lit F 2) \<and> fo_less F late (fo_lit F 2) \<and>
         fo_less F jitterMs (fo_lit F 20) \<and> fo_less F rttMs (fo_lit F 60) then Good
      else if fo_less F loss (fo_lit F 6) \<and> fo_less F late (fo_lit F 6) \<and>
         fo_less F jitterMs (fo_lit F 50) \<and> fo_less F rttMs (fo_lit F 150) then Fair
      else Poor)"

definition ewma :: "'f float_ops \<Rightarrow> 'f \<Rightarrow> 'f \<Rightarrow> 'f" where
  "ewma F old new = fo_add F old (fo_mul F (fo_lit F (3 / 10)) (fo_sub F new old))"

definition smooth :: "'f float_ops \<Rightarrow> 'f sample \<Rightarrow> 'f controller \<Rightarrow> 'f controller" where
  "smooth F s c =
     (if \<not> ct_initialized c
      then c\<lparr>ct_initialized := True, ct_loss_ewma := q_loss_percent s, ct_late_ewma := q_late_percent s,
             ct_jitter_ewma := q_jitter_ms s, ct_rtt_ewma := q_rtt_ms s\<rparr>
      else c\<lparr>ct_loss_ewma := ewma F (ct_loss_ewma c) (q_loss_percent s),
             ct_late_ewma := ewma F (ct_late_ewma c) (q_late_percent s),
             ct_jitter_ewma := ewma F (ct_jitter_ewma c) (q_jitter_ms s),
             ct_rtt_ewma := ewma F (ct_rtt_ewma c) (q_rtt_ms s)\<rparr>)"

definition cooling :: "int \<Rightarrow> 'f controller \<Rightarrow> bool" where
  "cooling now c \<longleftrightarrow>
     (case ct_last_adjust c of None \<Rightarrow> False | Some t \<Rightarrow> now - t < ct_cooldown c)"

definition decide :: "'f float_ops \<Rightarrow> level \<Rightarrow> 'f controller \<Rightarrow> decision \<Rightarrow> decision" where
  "decide F lv c dec =
     (let sc = (\<lambda>factor. scale F (ct_bitrate c) factor (ct_min_bitrate c) (ct_max_bitrate c)) in
      case lv of
        Excellent \<Rightarrow>
          let d1 = dec\<lparr>d_bitrate_bps := sc (11 / 10)\<rparr>;
              d2 = (if fo_less F (ct_loss_ewma c) (fo_lit F (3 / 10)) \<and> ct_fec c
                    then d1\<lparr>d_fec_enabled := False, d_expected_loss := 0\<rparr> else d1)
          in d2\<lparr>d_switch_to_pcm := True\<rparr>
      | Good \<Rightarrow> dec\<lparr>d_bitrate_bps := sc 1\<rparr>
      | Fair \<Rightarrow> dec\<lparr>d_bitrate_bps := sc (85 / 100), d_fec_enabled := True, d_expected_loss := 10,
                    d_switch_to_opus := True\<rparr>
      | Poor \<Rightarrow> dec\<lparr>d_bitrate_bps := sc (70 / 100), d_fec_enabled := True, d_expected_loss := 20,
                    d_switch_to_opus := True\<rparr>)"

definition update :: "'f float_ops \<Rightarrow> 'f sample \<Rightarrow> int \<Rightarrow> 'f controller \<Rightarrow> decision \<times> 'f controller" where
  "update F s now c0 =
     (let c1 = smooth F s c0;
          c = c1\<lparr>ct_underrun_acc := ct_underrun_acc c1 + q_underruns s\<rparr>;
          lv = classify F (ct_loss_ewma c) (ct_late_ewma c) (ct_jitter_ewma c) (ct_rtt_ewma c);
          dec = \<lparr>d_bitrate_bps = ct_bitrate c, d_fec_enabled = ct_fec c,
                 d_expected_loss = ct_expected_loss c, d_switch_to_pcm = False,
                 d_switch_to_opus = False, d_level = lv\<rparr>
      in if cooling now c then (dec, c)
         else let d = decide F lv c dec
              in (d, c\<lparr>ct_bitrate := d_bitrate_bps d, ct_fec := d_fec_enabled d,
                       ct_expected_loss := d_expected_loss d, ct_last_adjust := Some now\<rparr>))"

section \<open>Receiver presets\<close>

definition quality_mode_to_bounds :: "8 word \<Rightarrow> int \<times> int \<times> bool \<times> bool" where
  "quality_mode_to_bounds mode =
     (if mode = 0 then (32000, 256000, False, True)
      else if mode = 1 then (32000, 64000, False, True)
      else if mode = 2 then (64000, 256000, False, True)
      else if mode = 3 then (32000, 128000, True, True)
      else (0, 0, False, False))"

definition quality_mode_name :: "8 word \<Rightarrow> string" where
  "quality_mode_name mode =
     (if mode = 0 then ''auto'' else if mode = 1 then ''lowest-latency''
      else if mode = 2 then ''lossless'' else if mode = 3 then ''robust''
      else if mode = 4 then ''advanced'' else [])"

definition receiver_state_name :: "8 word \<Rightarrow> string" where
  "receiver_state_name state =
     (if state = 0 then ''connecting'' else if state = 1 then ''pairing''
      else if state = 2 then ''buffering'' else if state = 3 then ''playing''
      else if state = 4 then ''interrupted'' else if state = 5 then ''reconnecting''
      else if state = 6 then ''stopped'' else [])"

section \<open>Bounds\<close>

definition controller_inv :: "'f controller \<Rightarrow> bool" where
  "controller_inv c \<longleftrightarrow>
     0 < ct_min_bitrate c \<and> ct_min_bitrate c \<le> ct_bitrate c \<and> ct_bitrate c \<le> ct_max_bitrate c \<and>
     ct_max_bitrate c \<le> 510000 \<and> 0 \<le> ct_expected_loss c \<and> ct_expected_loss c \<le> 20"

lemma scale_bounds [simp]: "mn \<le> mx \<Longrightarrow> mn \<le> scale F cur f mn mx" "scale F cur f mn mx \<le> mx"
  by (auto simp: scale_def Let_def)

lemma new_controller_inv: "mn \<le> 510000 \<Longrightarrow> controller_inv (new_controller F mn mx)"
proof -
  assume mn: "mn \<le> 510000"
  define a where "a = (if mn \<le> 0 then 32000 else mn)"
  define b where "b = (let m = (if mx < a then a else mx) in if m > 510000 then 510000 else m)"
  have ab: "0 < a" "a \<le> b" "b \<le> 510000" using mn by (auto simp: a_def b_def Let_def)
  then have "wrap64 (a + b) = a + b" by (intro wrap64_id) simp_all
  with ab have "wrap64 (a + b) sdiv 2 = (a + b) div 2" by simp
  moreover have "ct_min_bitrate (new_controller F mn mx) = a" "ct_max_bitrate (new_controller F mn mx) = b"
    "ct_bitrate (new_controller F mn mx) = wrap64 (a + b) sdiv 2"
    "ct_expected_loss (new_controller F mn mx) = 0"
    by (simp_all only: new_controller_def Let_def a_def b_def controller.simps)
  moreover have "a \<le> (a + b) div 2" "(a + b) div 2 \<le> b" using ab by linarith+
  ultimately show ?thesis using ab by (simp add: controller_inv_def)
qed

lemma smooth_simps [simp]:
  "ct_min_bitrate (smooth F s c) = ct_min_bitrate c" "ct_max_bitrate (smooth F s c) = ct_max_bitrate c"
  "ct_cooldown (smooth F s c) = ct_cooldown c" "ct_bitrate (smooth F s c) = ct_bitrate c"
  "ct_fec (smooth F s c) = ct_fec c" "ct_expected_loss (smooth F s c) = ct_expected_loss c"
  "ct_last_adjust (smooth F s c) = ct_last_adjust c"
  by (simp_all add: smooth_def)

lemma cooling_simps [simp]:
  "cooling now (c\<lparr>ct_underrun_acc := u\<rparr>) = cooling now c" "cooling now (smooth F s c) = cooling now c"
  by (auto simp: cooling_def smooth_def split: option.splits)

lemma decide_bounds:
  assumes "ct_min_bitrate c \<le> ct_max_bitrate c" "0 \<le> d_expected_loss d" "d_expected_loss d \<le> 20"
  shows "ct_min_bitrate c \<le> d_bitrate_bps (decide F lv c d)"
    "d_bitrate_bps (decide F lv c d) \<le> ct_max_bitrate c"
    "0 \<le> d_expected_loss (decide F lv c d)" "d_expected_loss (decide F lv c d) \<le> 20"
  using assms by (cases lv; simp add: decide_def Let_def)+

lemma update_inv:
  assumes "controller_inv c"
  shows "controller_inv (snd (update F s now c))"
    and "ct_min_bitrate c \<le> d_bitrate_bps (fst (update F s now c))"
    and "d_bitrate_bps (fst (update F s now c)) \<le> ct_max_bitrate c"
    and "ct_min_bitrate (snd (update F s now c)) = ct_min_bitrate c"
    and "ct_max_bitrate (snd (update F s now c)) = ct_max_bitrate c"
    and "ct_cooldown (snd (update F s now c)) = ct_cooldown c"
proof -
  define c1 where "c1 = (smooth F s c)\<lparr>ct_underrun_acc := ct_underrun_acc (smooth F s c) + q_underruns s\<rparr>"
  define lv where "lv = classify F (ct_loss_ewma c1) (ct_late_ewma c1) (ct_jitter_ewma c1) (ct_rtt_ewma c1)"
  define dec where "dec = \<lparr>d_bitrate_bps = ct_bitrate c1, d_fec_enabled = ct_fec c1,
    d_expected_loss = ct_expected_loss c1, d_switch_to_pcm = False, d_switch_to_opus = False, d_level = lv\<rparr>"
  have u: "update F s now c = (if cooling now c1 then (dec, c1) else (decide F lv c1 dec,
    c1\<lparr>ct_bitrate := d_bitrate_bps (decide F lv c1 dec), ct_fec := d_fec_enabled (decide F lv c1 dec),
       ct_expected_loss := d_expected_loss (decide F lv c1 dec), ct_last_adjust := Some now\<rparr>))"
    by (simp add: update_def Let_def c1_def lv_def dec_def)
  have c1: "ct_min_bitrate c1 = ct_min_bitrate c" "ct_max_bitrate c1 = ct_max_bitrate c"
    "ct_bitrate c1 = ct_bitrate c" "ct_expected_loss c1 = ct_expected_loss c" "ct_cooldown c1 = ct_cooldown c"
    by (simp_all add: c1_def)
  have i: "ct_min_bitrate c1 \<le> ct_max_bitrate c1" "0 \<le> d_expected_loss dec" "d_expected_loss dec \<le> 20"
    using assms by (simp_all add: controller_inv_def c1 dec_def)
  note d = decide_bounds[OF i, of F lv]
  show "controller_inv (snd (update F s now c))" "ct_min_bitrate c \<le> d_bitrate_bps (fst (update F s now c))"
    "d_bitrate_bps (fst (update F s now c)) \<le> ct_max_bitrate c"
    using assms d by (simp_all add: u controller_inv_def c1 dec_def)
  show "ct_min_bitrate (snd (update F s now c)) = ct_min_bitrate c"
    "ct_max_bitrate (snd (update F s now c)) = ct_max_bitrate c"
    "ct_cooldown (snd (update F s now c)) = ct_cooldown c"
    by (simp_all add: u c1)
qed

section \<open>Runs of the controller\<close>

primrec run_updates :: "'f float_ops \<Rightarrow> ('f sample \<times> int) list \<Rightarrow> 'f controller \<Rightarrow> decision list \<times> 'f controller"
where
  "run_updates F [] c = ([], c)"
| "run_updates F (x # xs) c =
     (let (d, c1) = update F (fst x) (snd x) c; (ds, c2) = run_updates F xs c1 in (d # ds, c2))"

lemma run_updates_bounds:
  "controller_inv c \<Longrightarrow>
     controller_inv (snd (run_updates F xs c)) \<and>
     (\<forall>d \<in> set (fst (run_updates F xs c)).
        ct_min_bitrate c \<le> d_bitrate_bps d \<and> d_bitrate_bps d \<le> ct_max_bitrate c)"
proof (induction xs arbitrary: c)
  case Nil
  then show ?case by simp
next
  case (Cons x xs)
  obtain d c1 where u: "update F (fst x) (snd x) c = (d, c1)" by fastforce
  obtain ds c2 where r: "run_updates F xs c1 = (ds, c2)" by fastforce
  note i = update_inv[OF Cons.prems, of F "fst x" "snd x", unfolded u]
  then have "controller_inv c1" by simp
  from Cons.IH[OF this] i show ?case by (simp add: u r)
qed

text \<open>The controller's settings only change when an update falls outside the cooldown.\<close>

lemma update_cooling:
  assumes "cooling now c"
  shows "ct_bitrate (snd (update F s now c)) = ct_bitrate c"
    "ct_fec (snd (update F s now c)) = ct_fec c"
    "ct_expected_loss (snd (update F s now c)) = ct_expected_loss c"
    "ct_last_adjust (snd (update F s now c)) = ct_last_adjust c"
    "d_bitrate_bps (fst (update F s now c)) = ct_bitrate c"
    "d_fec_enabled (fst (update F s now c)) = ct_fec c"
    "\<not> d_switch_to_pcm (fst (update F s now c))" "\<not> d_switch_to_opus (fst (update F s now c))"
  using assms by (simp_all add: update_def Let_def)

lemma update_adjusts:
  assumes "\<not> cooling now c"
  shows "ct_last_adjust (snd (update F s now c)) = Some now"
    "ct_bitrate (snd (update F s now c)) = d_bitrate_bps (fst (update F s now c))"
    "ct_fec (snd (update F s now c)) = d_fec_enabled (fst (update F s now c))"
  using assms by (simp_all add: update_def Let_def)

text \<open>Worse measurements never give a better level.\<close>

lemma classify_mono:
  assumes "transp (fo_less F)"
    and le: "loss = loss' \<or> fo_less F loss loss'" "late = late' \<or> fo_less F late late'"
      "j = j' \<or> fo_less F j j'" "r = r' \<or> fo_less F r r'"
  shows "classify F loss late j r \<le> classify F loss' late' j' r'"
proof -
  have t: "fo_less F x' k \<Longrightarrow> fo_less F x k" if "x = x' \<or> fo_less F x x'" for x x' k
    using that assms(1) by (auto dest: transpD)
  show ?thesis
    using t[OF le(1)] t[OF le(2)] t[OF le(3)] t[OF le(4)]
    by (auto simp: classify_def less_eq_level_def)
qed

text \<open>A fair or poor network always ends up with FEC and a hint to leave PCM.\<close>

lemma decide_fec:
  "lv \<ge> Fair \<Longrightarrow> d_fec_enabled (decide F lv c d) \<and> d_switch_to_opus (decide F lv c d) \<and>
     10 \<le> d_expected_loss (decide F lv c d)"
  by (cases lv) (simp_all add: decide_def less_eq_level_def Let_def)

section \<open>Properties\<close>

text \<open>
  C27. The bitrate the controller asks for stays within the configured bounds, and those within Opus's
  range, after any sequence of measurements at any times, whatever the floating-point arithmetic
  does (NaN and infinities included).
\<close>

theorem controller_bitrate_bounds:
  assumes "mn \<le> 510000" "run_updates F xs (new_controller F mn mx) = (ds, c)" "d \<in> set ds"
  shows "(if mn \<le> 0 then 32000 else mn) \<le> d_bitrate_bps d \<and> d_bitrate_bps d \<le> 510000 \<and>
    (0 < mn \<longrightarrow> mn \<le> mx \<longrightarrow> d_bitrate_bps d \<le> mx)"
proof -
  note r = run_updates_bounds[OF new_controller_inv[OF assms(1), of F mx], of F xs]
  have "ct_min_bitrate (new_controller F mn mx) = (if mn \<le> 0 then 32000 else mn)"
    "ct_max_bitrate (new_controller F mn mx) \<le> 510000"
    "0 < mn \<Longrightarrow> mn \<le> mx \<Longrightarrow> ct_max_bitrate (new_controller F mn mx) \<le> mx"
    by (simp_all add: new_controller_def Let_def)
  with r assms(2,3) show ?thesis by fastforce
qed

theorem controller_bitrate_bounds_witness:
  "\<exists>ds c d. run_updates rat_ops
      [(\<lparr>q_loss_percent = 10, q_late_percent = 0, q_jitter_ms = 0, q_rtt_ms = 0, q_buf_depth_ms = 0,
         q_underruns = 0\<rparr>, 5000000000)] (new_controller rat_ops 32000 64000) = (ds, c) \<and>
    d \<in> set ds \<and> 32000 \<le> d_bitrate_bps d \<and> d_bitrate_bps d \<le> 64000"
proof -
  let ?xs = "[(\<lparr>q_loss_percent = 10 :: rat, q_late_percent = 0, q_jitter_ms = 0, q_rtt_ms = 0,
    q_buf_depth_ms = 0, q_underruns = 0\<rparr>, 5000000000 :: int)]"
  obtain ds c where run: "run_updates rat_ops ?xs (new_controller rat_ops 32000 64000) = (ds, c)"
    by fastforce
  then have "ds \<noteq> []" by (auto split: prod.splits)
  then obtain d where d: "d \<in> set ds" by (cases ds) auto
  from controller_bitrate_bounds[OF _ run d] run d show ?thesis by auto
qed

text \<open>
  Hysteresis: within the cooldown of the last adjustment an update changes neither bitrate nor FEC
  nor the loss hint and gives no codec hint; an update outside it records its time, so two
  adjustments are never closer than the cooldown; and one made on a fair or poor network turns FEC
  on.
\<close>

theorem controller_cooldown:
  "if (case ct_last_adjust c of None \<Rightarrow> False | Some t \<Rightarrow> now - t < ct_cooldown c)
   then ct_bitrate (snd (update F s now c)) = ct_bitrate c \<and> ct_fec (snd (update F s now c)) = ct_fec c \<and>
     ct_expected_loss (snd (update F s now c)) = ct_expected_loss c \<and>
     ct_last_adjust (snd (update F s now c)) = ct_last_adjust c \<and>
     \<not> d_switch_to_pcm (fst (update F s now c)) \<and> \<not> d_switch_to_opus (fst (update F s now c))
   else ct_last_adjust (snd (update F s now c)) = Some now \<and>
     ct_bitrate (snd (update F s now c)) = d_bitrate_bps (fst (update F s now c)) \<and>
     ct_fec (snd (update F s now c)) = d_fec_enabled (fst (update F s now c)) \<and>
     (d_level (fst (update F s now c)) \<ge> Fair \<longrightarrow> ct_fec (snd (update F s now c)))"
proof (cases "cooling now c")
  case True
  then show ?thesis using update_cooling[OF True, of F s] by (simp add: cooling_def)
next
  case False
  have "d_level (decide F lv c' d) = d_level d" for lv c' d
    by (cases lv) (simp_all add: decide_def Let_def)
  then have "d_level (fst (update F s now c)) \<ge> Fair \<longrightarrow> ct_fec (snd (update F s now c))"
    using False decide_fec by (fastforce simp: update_def Let_def)
  with False show ?thesis using update_adjusts[OF False, of F s] by (simp add: cooling_def)
qed

theorem controller_cooldown_witness:
  "d_level (fst (update rat_ops \<lparr>q_loss_percent = 10, q_late_percent = 0, q_jitter_ms = 0, q_rtt_ms = 0,
     q_buf_depth_ms = 0, q_underruns = 0\<rparr> 5 (new_controller rat_ops 32000 64000))) = Poor \<and>
   ct_fec (snd (update rat_ops \<lparr>q_loss_percent = 10, q_late_percent = 0, q_jitter_ms = 0, q_rtt_ms = 0,
     q_buf_depth_ms = 0, q_underruns = 0\<rparr> 5 (new_controller rat_ops 32000 64000)))"
proof -
  let ?s = "\<lparr>q_loss_percent = 10 :: rat, q_late_percent = 0, q_jitter_ms = 0, q_rtt_ms = 0,
     q_buf_depth_ms = 0, q_underruns = 0\<rparr>" and ?c = "new_controller rat_ops 32000 64000"
  have n: "ct_last_adjust ?c = None" "\<not> ct_initialized ?c" by (simp_all add: new_controller_def Let_def)
  have "d_level (fst (update rat_ops ?s 5 ?c)) = Poor"
    using n by (simp add: update_def smooth_def cooling_def classify_def decide_def rat_ops_def Let_def)
  moreover from this have "Fair \<le> d_level (fst (update rat_ops ?s 5 ?c))"
    by (simp add: less_eq_level_def)
  moreover note controller_cooldown[where F = rat_ops and s = ?s and now = 5 and c = ?c,
      unfolded n(1) option.case if_False]
  ultimately show ?thesis by blast
qed

end
