(* ===== verification/Codec.thy ===== *)
theory Codec
  imports GoInt
begin

text \<open>
  The codec abstraction of the media path, \<^verbatim>\<open>engine/internal/codec/codec.go\<close>: configurations, the
  lossless PCM codec, and the interface every codec presents.  Opus is libopus behind cgo: it enters
  as the argument \<open>opus\<close> of \<open>new_codec\<close>, and \<open>opus_stub\<close> is its value in a build without it.
\<close>

section \<open>Configurations\<close>

record codec_config =
  cc_is_opus :: bool
  cc_sample_rate :: int
  cc_channels :: int
  cc_frame_ms :: int
  cc_bitrate :: int
  cc_fec :: bool
  cc_dtx :: bool
  cc_complexity :: int
  cc_app_id :: int

datatype codec_error =
    CodecRateOutOfRange int
  | CodecChannelsOutOfRange int
  | CodecUnsupportedFrameMs int
  | CodecBitrateOutOfRange int
  | OpusUnavailable
  | PcmEncodeLength int int
  | PcmDecodeLength int int
  | CodecFailed

definition frame_samples :: "codec_config \<Rightarrow> int" where
  "frame_samples c = wrap64 (cc_sample_rate c * cc_frame_ms c) sdiv 1000"

definition pcm_frame_bytes :: "codec_config \<Rightarrow> int" where
  "pcm_frame_bytes c = wrap64 (wrap64 (frame_samples c * cc_channels c) * 2)"

definition validate_config :: "codec_config \<Rightarrow> codec_error option" where
  "validate_config c =
     (if cc_sample_rate c < 8000 \<or> cc_sample_rate c > 192000 then Some (CodecRateOutOfRange (cc_sample_rate c))
      else if cc_channels c < 1 \<or> cc_channels c > 8 then Some (CodecChannelsOutOfRange (cc_channels c))
      else if cc_frame_ms c \<notin> {2, 5, 10, 20} then Some (CodecUnsupportedFrameMs (cc_frame_ms c))
      else if cc_is_opus c \<and> cc_bitrate c \<noteq> 0 \<and> (cc_bitrate c < 6000 \<or> cc_bitrate c > 510000)
        then Some (CodecBitrateOutOfRange (cc_bitrate c))
      else None)"

section \<open>The interface\<close>

text \<open>
  \<^verbatim>\<open>Codec\<close> as a record of its methods over the codec's own state \<open>'s\<close>.  \<open>cd_decode\<close> takes the wire
  frame, the \<^verbatim>\<open>lost\<close> flag and the size of the output buffer and returns the PCM it wrote;
  \<open>cd_fec\<close> is there when the codec implements \<^verbatim>\<open>FECDecoder\<close>.
\<close>

record 's codec =
  cd_name :: string
  cd_config :: codec_config
  cd_frame_bytes :: int
  cd_wire_mtu :: int
  cd_encode :: "bytes \<Rightarrow> 's \<Rightarrow> (codec_error + bytes) \<times> 's"
  cd_decode :: "bytes \<Rightarrow> bool \<Rightarrow> int \<Rightarrow> 's \<Rightarrow> (codec_error + bytes) \<times> 's"
  cd_fec :: "(bytes \<Rightarrow> int \<Rightarrow> 's \<Rightarrow> (codec_error + bytes) \<times> 's) option"

section \<open>PCM\<close>

definition pcm_encode :: "codec_config \<Rightarrow> bytes \<Rightarrow> codec_error + bytes" where
  "pcm_encode c pcm =
     (if int (length pcm) \<noteq> pcm_frame_bytes c then Inl (PcmEncodeLength (pcm_frame_bytes c) (int (length pcm)))
      else Inr pcm)"

definition pcm_decode :: "codec_config \<Rightarrow> bytes \<Rightarrow> bool \<Rightarrow> int \<Rightarrow> codec_error + bytes" where
  "pcm_decode c wire lost outLen =
     (if lost then Inr (replicate (nat (min outLen (pcm_frame_bytes c))) 0)
      else if int (length wire) \<noteq> pcm_frame_bytes c
        then Inl (PcmDecodeLength (pcm_frame_bytes c) (int (length wire)))
      else Inr (take (nat outLen) wire))"

definition pcm_codec :: "codec_config \<Rightarrow> 's codec" where
  "pcm_codec c = \<lparr>cd_name = ''pcm'', cd_config = c, cd_frame_bytes = pcm_frame_bytes c,
     cd_wire_mtu = pcm_frame_bytes c, cd_encode = (\<lambda>pcm s. (pcm_encode c pcm, s)),
     cd_decode = (\<lambda>wire lost n s. (pcm_decode c wire lost n, s)), cd_fec = None\<rparr>"

definition opus_stub :: "codec_config \<Rightarrow> codec_error + 's codec \<times> 's" where
  "opus_stub c = Inl OpusUnavailable"

text \<open>\<^verbatim>\<open>New\<close>: a codec and its initial state; \<open>s0\<close> is the PCM codec's, which has none.\<close>

definition new_codec :: "(codec_config \<Rightarrow> codec_error + 's codec \<times> 's) \<Rightarrow> 's \<Rightarrow> codec_config \<Rightarrow>
    codec_error + 's codec \<times> 's"
where
  "new_codec opus s0 c =
     (case validate_config c of
        Some e \<Rightarrow> Inl e
      | None \<Rightarrow> if cc_is_opus c then opus c else Inr (pcm_codec c, s0))"

section \<open>Sizes\<close>

lemma validate_config_None:
  "validate_config c = None \<longleftrightarrow> 8000 \<le> cc_sample_rate c \<and> cc_sample_rate c \<le> 192000 \<and>
     1 \<le> cc_channels c \<and> cc_channels c \<le> 8 \<and> cc_frame_ms c \<in> {2, 5, 10, 20} \<and>
     (cc_is_opus c \<longrightarrow> cc_bitrate c = 0 \<or> 6000 \<le> cc_bitrate c \<and> cc_bitrate c \<le> 510000)"
  by (auto simp: validate_config_def)

lemma frame_samples_valid:
  assumes "validate_config c = None"
  shows "frame_samples c = cc_sample_rate c * cc_frame_ms c div 1000"
    "16 \<le> frame_samples c" "frame_samples c \<le> 3840"
proof -
  have b: "8000 * 2 \<le> cc_sample_rate c * cc_frame_ms c" "cc_sample_rate c * cc_frame_ms c \<le> 192000 * 20"
    using assms by (auto simp: validate_config_None intro!: mult_mono)
  then show eq: "frame_samples c = cc_sample_rate c * cc_frame_ms c div 1000"
    by (simp add: frame_samples_def wrap64_id)
  have "8000 * 2 div 1000 \<le> cc_sample_rate c * cc_frame_ms c div 1000"
    "cc_sample_rate c * cc_frame_ms c div 1000 \<le> 192000 * 20 div 1000"
    using b by (intro zdiv_mono1; simp)+
  then show "16 \<le> frame_samples c" "frame_samples c \<le> 3840" by (simp_all add: eq)
qed

lemma pcm_frame_bytes_valid:
  assumes "validate_config c = None"
  shows "pcm_frame_bytes c = cc_sample_rate c * cc_frame_ms c div 1000 * cc_channels c * 2"
    "32 \<le> pcm_frame_bytes c" "pcm_frame_bytes c \<le> 61440"
proof -
  note fs = frame_samples_valid[OF assms]
  have ch: "1 \<le> cc_channels c" "cc_channels c \<le> 8" using assms by (simp_all add: validate_config_None)
  have b: "16 * 1 \<le> frame_samples c * cc_channels c" "frame_samples c * cc_channels c \<le> 3840 * 8"
    using fs(2,3) ch by (intro mult_mono; simp)+
  define x where "x = frame_samples c * cc_channels c"
  have "wrap64 (wrap64 x * 2) = x * 2" using b[folded x_def] by (simp add: wrap64_id)
  then have eq: "pcm_frame_bytes c = frame_samples c * cc_channels c * 2"
    by (simp add: pcm_frame_bytes_def x_def)
  then show "pcm_frame_bytes c = cc_sample_rate c * cc_frame_ms c div 1000 * cc_channels c * 2"
    by (simp add: fs(1))
  show "32 \<le> pcm_frame_bytes c" "pcm_frame_bytes c \<le> 61440" using b by (simp_all add: eq mult.commute[of "cc_channels c"])
qed

section \<open>What a codec promises\<close>

text \<open>
  \<open>codec_contract\<close> is what the media pipeline needs of a decoder: it never returns more than the
  buffer.  \<open>lossless\<close> adds that decoding a frame the encoder produced gives the PCM back.
\<close>

locale codec_contract =
  fixes dec :: "bytes \<Rightarrow> bool \<Rightarrow> int \<Rightarrow> 's \<Rightarrow> (codec_error + bytes) \<times> 's"
    and fb :: int
  assumes dec_bound: "0 \<le> n \<Longrightarrow> fst (dec w l n s) = Inr p \<Longrightarrow> int (length p) \<le> n"
begin

lemma dec_frame: "0 \<le> fb \<Longrightarrow> fst (dec w l fb s) = Inr p \<Longrightarrow> int (length p) \<le> fb"
  by (rule dec_bound)

end

locale lossless_codec = codec_contract dec fb
  for dec :: "bytes \<Rightarrow> bool \<Rightarrow> int \<Rightarrow> 's \<Rightarrow> (codec_error + bytes) \<times> 's" and fb :: int +
  fixes enc :: "bytes \<Rightarrow> 's \<Rightarrow> (codec_error + bytes) \<times> 's"
  assumes enc_accepts: "(\<exists>w. fst (enc p s) = Inr w) \<longleftrightarrow> int (length p) = fb"
    and dec_enc: "fst (enc p s) = Inr w \<Longrightarrow> fst (dec w False fb t) = Inr p"
begin

lemma enc_inj: "fst (enc p s) = Inr w \<Longrightarrow> fst (enc q s') = Inr w \<Longrightarrow> p = q"
  by (metis dec_enc sum.inject(2))

lemma enc_total: "int (length p) = fb \<Longrightarrow> \<exists>w. fst (enc p s) = Inr w \<and> fst (dec w False fb t) = Inr p"
  by (metis enc_accepts dec_enc)

end

interpretation pcm: lossless_codec "cd_decode (pcm_codec c)" "pcm_frame_bytes c" "cd_encode (pcm_codec c)" for c
proof unfold_locales
  fix n :: int and w l s p
  assume "0 \<le> n" "fst (cd_decode (pcm_codec c) w l n s) = Inr p"
  then show "int (length p) \<le> n" by (auto simp: pcm_codec_def pcm_decode_def split: if_splits)
next
  show "(\<exists>w. fst (cd_encode (pcm_codec c) p s) = Inr w) \<longleftrightarrow> int (length p) = pcm_frame_bytes c" for p s
    by (simp add: pcm_codec_def pcm_encode_def)
next
  fix p s w t
  assume "fst (cd_encode (pcm_codec c) p s) = Inr w"
  then have "w = p" "int (length p) = pcm_frame_bytes c"
    by (auto simp: pcm_codec_def pcm_encode_def split: if_splits)
  then show "fst (cd_decode (pcm_codec c) w False (pcm_frame_bytes c) t) = Inr p"
    by (simp add: pcm_codec_def pcm_decode_def flip: \<open>int (length p) = pcm_frame_bytes c\<close>)
qed

section \<open>Properties\<close>

text \<open>
  Every valid PCM configuration yields a codec whose frames are between 32 and 61440 bytes long
  and hold exactly the configured number of whole samples; it encodes every PCM block of that size
  and nothing else, decoding gives the block back bit for bit, and a lost frame is replaced by a
  frame of silence of the same size.
\<close>

theorem pcm_codec_lossless:
  fixes s0 :: 's
  assumes "validate_config c = None" "\<not> cc_is_opus c"
  shows "\<exists>cd. new_codec opus s0 c = Inr (cd, s0) \<and> 32 \<le> cd_frame_bytes cd \<and> cd_frame_bytes cd \<le> 61440 \<and>
    cd_frame_bytes cd = 2 * cc_channels c * (cc_sample_rate c * cc_frame_ms c div 1000) \<and>
    (\<forall>p s t. (if int (length p) = cd_frame_bytes cd
       then \<exists>w. fst (cd_encode cd p s) = Inr w \<and> fst (cd_decode cd w False (cd_frame_bytes cd) t) = Inr p
       else \<exists>e. fst (cd_encode cd p s) = Inl e)) \<and>
    (\<forall>w t. fst (cd_decode cd w True (cd_frame_bytes cd) t) = Inr (replicate (nat (cd_frame_bytes cd)) 0))"
proof -
  let ?cd = "pcm_codec c :: 's codec"
  have fb: "cd_frame_bytes ?cd = pcm_frame_bytes c" by (simp add: pcm_codec_def)
  have bad: "\<exists>e. fst (cd_encode ?cd p s) = Inl e" if "int (length p) \<noteq> pcm_frame_bytes c" for p s
    using that by (simp add: pcm_codec_def pcm_encode_def)
  have good: "\<exists>w. fst (cd_encode ?cd p s) = Inr w \<and> fst (cd_decode ?cd w False (pcm_frame_bytes c) t) = Inr p"
    if "int (length p) = pcm_frame_bytes c" for p s t using that by (rule pcm.enc_total)
  have new: "new_codec opus s0 c = Inr (?cd, s0)" using assms by (simp add: new_codec_def)
  have lost: "fst (cd_decode ?cd w True (pcm_frame_bytes c) t) = Inr (replicate (nat (pcm_frame_bytes c)) 0)" for w t
    by (simp add: pcm_codec_def pcm_decode_def)
  have sz: "pcm_frame_bytes c = 2 * cc_channels c * (cc_sample_rate c * cc_frame_ms c div 1000)"
    using pcm_frame_bytes_valid(1)[OF assms(1)] by simp
  show ?thesis
    by (rule exI[of _ ?cd], unfold fb)
      (intro conjI allI new sz lost pcm_frame_bytes_valid(2,3)[OF assms(1)], use bad good in auto)
qed

definition demo_pcm :: codec_config where
  "demo_pcm = \<lparr>cc_is_opus = False, cc_sample_rate = 48000, cc_channels = 2, cc_frame_ms = 5, cc_bitrate = 0,
     cc_fec = False, cc_dtx = False, cc_complexity = 0, cc_app_id = 0\<rparr>"

theorem pcm_codec_lossless_witness:
  "\<exists>cd. new_codec opus_stub () demo_pcm = Inr (cd, ()) \<and> cd_frame_bytes cd = 960"
proof -
  have v: "validate_config demo_pcm = None" "\<not> cc_is_opus demo_pcm"
    by (simp_all add: validate_config_def demo_pcm_def)
  then show ?thesis using pcm_codec_lossless[OF v, of opus_stub "()"] by (auto simp: demo_pcm_def)
qed

end
