(* ===== verification/OpusCodec.thy ===== *)
theory OpusCodec
  imports Codec GoFloat
begin

text \<open>
  The Opus codec of builds with the \<^verbatim>\<open>opus\<close> tag, \<^verbatim>\<open>engine/internal/codec/opus.go\<close>.  libopus is the record
  \<open>libopus\<close> of its calls over a state \<open>'s\<close> that holds the encoder and the decoder; a call that fails
  returns \<open>None\<close>.  Samples are \<^verbatim>\<open>float32\<close> values \<open>'f\<close>, which \<open>widen\<close> turns into \<^verbatim>\<open>float64\<close>.
\<close>

section \<open>Samples\<close>

fun s16_to_f32 :: "'f float_ops \<Rightarrow> bytes \<Rightarrow> 'f list" where
  "s16_to_f32 F (a # b # src) =
     fo_div F (fo_of_int F (sint (ucast a OR push_bit 8 (ucast b) :: u16))) (fo_of_int F 32768) # s16_to_f32 F src"
| "s16_to_f32 F src = []"

definition clamp_f :: "'g float_ops \<Rightarrow> 'g \<Rightarrow> 'g" where
  "clamp_f G v = (if fo_less G (fo_of_int G 32767) v then fo_of_int G 32767
     else if fo_less G v (fo_of_int G (-32768)) then fo_of_int G (-32768) else v)"

definition f32_to_s16 :: "'g float_ops \<Rightarrow> ('f \<Rightarrow> 'g) \<Rightarrow> 'f list \<Rightarrow> bytes" where
  "f32_to_s16 G widen src =
     concat (map (\<lambda>v. let s = fo_trunc16 G (clamp_f G (fo_mul G (widen v) (fo_of_int G 32767)))
       in [ucast (s AND 0xFF), ucast (drop_bit 8 s)]) src)"

section \<open>The library and the codec\<close>

datatype opus_app = AppAudio | AppVoIP | AppRestrictedLowdelay

definition opus_application :: "int \<Rightarrow> opus_app" where
  "opus_application i = (if i = 0 then AppAudio else if i = 1 then AppVoIP
     else if i = 2 then AppRestrictedLowdelay else AppAudio)"

definition expected_loss :: "codec_config \<Rightarrow> int" where
  "expected_loss cfg = (if cc_fec cfg then 10 else 0)"

record ('f, 's) libopus =
  lo_new_encoder :: "int \<Rightarrow> int \<Rightarrow> opus_app \<Rightarrow> 's option"
  lo_set_bitrate :: "int \<Rightarrow> 's \<Rightarrow> 's option"
  lo_set_complexity :: "int \<Rightarrow> 's \<Rightarrow> 's option"
  lo_set_fec :: "bool \<Rightarrow> 's \<Rightarrow> 's option"
  lo_set_loss :: "int \<Rightarrow> 's \<Rightarrow> 's option"
  lo_set_dtx :: "bool \<Rightarrow> 's \<Rightarrow> 's option"
  lo_new_decoder :: "int \<Rightarrow> int \<Rightarrow> 's \<Rightarrow> 's option"
  lo_encode :: "'f list \<Rightarrow> nat \<Rightarrow> 's \<Rightarrow> bytes option \<times> 's"
  lo_decode :: "bytes \<Rightarrow> nat \<Rightarrow> 's \<Rightarrow> 'f list option \<times> 's"
  lo_plc :: "nat \<Rightarrow> 's \<Rightarrow> 'f list option \<times> 's"
  lo_fec :: "bytes \<Rightarrow> nat \<Rightarrow> 's \<Rightarrow> 'f list option \<times> 's"

definition opus_encode ::
  "'f float_ops \<Rightarrow> ('f, 's) libopus \<Rightarrow> codec_config \<Rightarrow> bytes \<Rightarrow> 's \<Rightarrow> (codec_error + bytes) \<times> 's" where
  "opus_encode F L cfg pcm s =
     (if int (length pcm) \<noteq> pcm_frame_bytes cfg
      then (Inl (PcmEncodeLength (pcm_frame_bytes cfg) (int (length pcm))), s)
      else (case lo_encode L (s16_to_f32 F pcm) 1024 s of
          (None, s1) \<Rightarrow> (Inl CodecFailed, s1)
        | (Some b, s1) \<Rightarrow> (Inr b, s1)))"

text \<open>The decoded samples, cut to a frame and to the output buffer, as PCM.\<close>

definition opus_output :: "'g float_ops \<Rightarrow> ('f \<Rightarrow> 'g) \<Rightarrow> codec_config \<Rightarrow> 'f list \<Rightarrow> bytes" where
  "opus_output G widen cfg samples =
     (let want = pcm_frame_bytes cfg;
          n = (if int (length samples) * 2 > want then nat (want sdiv 2) else length samples)
      in f32_to_s16 G widen (take n samples))"

definition opus_decode ::
  "'g float_ops \<Rightarrow> ('f \<Rightarrow> 'g) \<Rightarrow> ('f, 's) libopus \<Rightarrow> codec_config \<Rightarrow> bytes \<Rightarrow> bool \<Rightarrow> 's \<Rightarrow>
     (codec_error + bytes) \<times> 's" where
  "opus_decode G widen L cfg wire lost s =
     (let samples = nat (frame_samples cfg * cc_channels cfg) in
      case (if lost \<or> wire = []
            then (case lo_plc L (2 * samples) s of (r, s1) \<Rightarrow> (map_option (take samples) r, s1))
            else lo_decode L wire (2 * samples) s) of
        (None, s1) \<Rightarrow> (Inl CodecFailed, s1)
      | (Some out, s1) \<Rightarrow> (Inr (opus_output G widen cfg out), s1))"

definition opus_decode_fec ::
  "'g float_ops \<Rightarrow> ('f \<Rightarrow> 'g) \<Rightarrow> ('f, 's) libopus \<Rightarrow> codec_config \<Rightarrow> bytes \<Rightarrow> 's \<Rightarrow>
     (codec_error + bytes) \<times> 's" where
  "opus_decode_fec G widen L cfg wire s =
     (if wire = [] then (Inl CodecFailed, s)
      else (case lo_fec L wire (nat (frame_samples cfg * cc_channels cfg)) s of
          (None, s1) \<Rightarrow> (Inl CodecFailed, s1)
        | (Some out, s1) \<Rightarrow> (Inr (opus_output G widen cfg out), s1)))"

definition opus_codec ::
  "'f float_ops \<Rightarrow> 'g float_ops \<Rightarrow> ('f \<Rightarrow> 'g) \<Rightarrow> ('f, 's) libopus \<Rightarrow> codec_config \<Rightarrow> 's codec" where
  "opus_codec F G widen L cfg =
     \<lparr>cd_name = ''opus'', cd_config = cfg, cd_frame_bytes = pcm_frame_bytes cfg, cd_wire_mtu = 1024,
      cd_encode = opus_encode F L cfg,
      cd_decode = (\<lambda>wire lost outLen s. opus_decode G widen L cfg wire lost s),
      cd_fec = Some (\<lambda>wire outLen s. opus_decode_fec G widen L cfg wire s)\<rparr>"

definition new_opus_codec ::
  "'f float_ops \<Rightarrow> 'g float_ops \<Rightarrow> ('f \<Rightarrow> 'g) \<Rightarrow> ('f, 's) libopus \<Rightarrow> codec_config \<Rightarrow> codec_error + 's codec \<times> 's" where
  "new_opus_codec F G widen L cfg =
     (let bitrate = (if cc_bitrate cfg = 0 then 96000 else cc_bitrate cfg);
          complexity = (if cc_complexity cfg = 0 then 5 else cc_complexity cfg);
          made = Option.bind (Option.bind (Option.bind (Option.bind (Option.bind (Option.bind
             (lo_new_encoder L (cc_sample_rate cfg) (cc_channels cfg) (opus_application (cc_app_id cfg)))
             (lo_set_bitrate L bitrate)) (lo_set_complexity L complexity)) (lo_set_fec L (cc_fec cfg)))
             (lo_set_loss L (expected_loss cfg))) (lo_set_dtx L (cc_dtx cfg)))
             (lo_new_decoder L (cc_sample_rate cfg) (cc_channels cfg))
      in case made of None \<Rightarrow> Inl CodecFailed | Some s \<Rightarrow> Inr (opus_codec F G widen L cfg, s))"

definition set_bitrate :: "('f, 's) libopus \<Rightarrow> int \<Rightarrow> 's \<Rightarrow> bool \<times> 's" where
  "set_bitrate L bps s = (case lo_set_bitrate L bps s of None \<Rightarrow> (False, s) | Some s1 \<Rightarrow> (True, s1))"

definition set_fec :: "('f, 's) libopus \<Rightarrow> bool \<Rightarrow> int \<Rightarrow> 's \<Rightarrow> bool \<times> 's" where
  "set_fec L enabled lossPct s =
     (case lo_set_fec L enabled s of
        None \<Rightarrow> (False, s)
      | Some s1 \<Rightarrow> (case lo_set_loss L lossPct s1 of None \<Rightarrow> (False, s1) | Some s2 \<Rightarrow> (True, s2)))"

section \<open>Sizes\<close>

lemma length_f32_to_s16 [simp]: "length (f32_to_s16 G widen src) = 2 * length src"
  by (induction src) (simp_all add: f32_to_s16_def Let_def)

lemma opus_output_bound: "0 \<le> pcm_frame_bytes cfg \<Longrightarrow> int (length (opus_output G widen cfg out)) \<le> pcm_frame_bytes cfg"
  by (auto simp: opus_output_def Let_def min_def)

text \<open>The decoder never returns more than a frame, so never more than the buffer the pipeline gives it.\<close>

lemma opus_decode_bound:
  "0 \<le> pcm_frame_bytes cfg \<Longrightarrow> fst (opus_decode G widen L cfg wire lost s) = Inr p \<Longrightarrow> int (length p) \<le> pcm_frame_bytes cfg"
  by (auto simp: opus_decode_def Let_def opus_output_bound split: prod.splits option.splits)

lemma opus_encode_size:
  "int (length pcm) \<noteq> pcm_frame_bytes cfg \<Longrightarrow> \<exists>e. cd_encode (opus_codec F G widen L cfg) pcm s = (Inl e, s)"
  by (simp add: opus_codec_def opus_encode_def)

lemma new_opus_codec_codec: "new_opus_codec F G widen L cfg = Inr (cd, s) \<Longrightarrow> cd = opus_codec F G widen L cfg"
  by (auto simp: new_opus_codec_def Let_def split: option.splits)

end
