(* ===== verification/ClientMedia.thy ===== *)
theory ClientMedia
  imports Codec GoFloat "HOL-Library.AList"
begin

text \<open>
  The receiver's media pipeline, \<^verbatim>\<open>clientMedia\<close> in \<^verbatim>\<open>engine/internal/engine/media.go\<close>: a reorder
  window over 32-bit sequence numbers, loss concealment, in-band error correction and the network
  measurements.  Times are nanoseconds, the zero \<^verbatim>\<open>time.Time\<close> is \<open>None\<close>.  The \<^verbatim>\<open>future\<close> map is an
  association list, the calls of \<^verbatim>\<open>out\<close> are the list \<open>cm_out\<close>.  \<open>cm_trace\<close> is not in the code: it
  records what became of each sequence number, so that the order of playout can be stated.
\<close>

datatype play = Played u32 bytes | Recovered u32 | Concealed u32

primrec play_seq :: "play \<Rightarrow> u32" where
  "play_seq (Played s b) = s"
| "play_seq (Recovered s) = s"
| "play_seq (Concealed s) = s"

record ('f, 's) client_media =
  cm_codec :: "'s codec option"
  cm_state :: 's
  cm_has_out :: bool
  cm_out :: "bytes list"
  cm_next_seq :: u32
  cm_seen :: bool
  cm_future :: "(u32 \<times> bytes) list"
  cm_hold :: int
  cm_last_flush :: "int option"
  cm_packets_seen :: u64
  cm_loss_packets :: u64
  cm_late_packets :: u64
  cm_reordered_packets :: u64
  cm_concealed_frames :: u64
  cm_fec_recovered :: u64
  cm_loss_ewma :: 'f
  cm_late_ewma :: 'f
  cm_jitter_ewma :: 'f
  cm_buf_ewma :: 'f
  cm_last_arrival :: "int option"
  cm_burst_loss :: int
  cm_max_burst :: int
  cm_total_loss :: u64
  cm_frame_ms :: 'f
  cm_trace :: "play list"

definition media_hold :: "'f float_ops \<Rightarrow> 'f \<Rightarrow> int" where
  "media_hold F frameMs =
     (let hold = wrap64 (fo_trunc F (fo_mul F frameMs (fo_lit F (3 / 2))) * 1000000)
      in if hold < 2000000 then 2000000 else hold)"

definition new_client_media :: "'f float_ops \<Rightarrow> 's codec option \<Rightarrow> 's \<Rightarrow> bool \<Rightarrow> ('f, 's) client_media" where
  "new_client_media F c s0 hasOut =
     (let frameMs = (case c of
            None \<Rightarrow> fo_of_int F 10
          | Some cd \<Rightarrow> if cc_frame_ms (cd_config cd) > 0 then fo_of_int F (cc_frame_ms (cd_config cd))
                       else fo_of_int F 10)
      in \<lparr>cm_codec = c, cm_state = s0, cm_has_out = hasOut, cm_out = [], cm_next_seq = 0, cm_seen = False,
          cm_future = [], cm_hold = media_hold F frameMs, cm_last_flush = None, cm_packets_seen = 0,
          cm_loss_packets = 0, cm_late_packets = 0, cm_reordered_packets = 0, cm_concealed_frames = 0,
          cm_fec_recovered = 0, cm_loss_ewma = fo_zero F, cm_late_ewma = fo_zero F,
          cm_jitter_ewma = fo_zero F, cm_buf_ewma = fo_zero F, cm_last_arrival = None,
          cm_burst_loss = 0, cm_max_burst = 0, cm_total_loss = 0, cm_frame_ms = frameMs, cm_trace = []\<rparr>)"

section \<open>Emitting a frame\<close>

definition ewma_hit :: "'f float_ops \<Rightarrow> 'f \<Rightarrow> 'f" where
  "ewma_hit F x = fo_add F x (fo_mul F (fo_lit F (1 / 20)) (fo_sub F (fo_one F) x))"

text \<open>The bookkeeping of a lost frame that \<^verbatim>\<open>emit\<close> and \<^verbatim>\<open>emitFEC\<close> share.\<close>

definition count_loss :: "'f float_ops \<Rightarrow> ('f, 's) client_media \<Rightarrow> ('f, 's) client_media" where
  "count_loss F m =
     (let burst = wrap64 (cm_burst_loss m + 1) in
      m\<lparr>cm_loss_packets := cm_loss_packets m + 1, cm_total_loss := cm_total_loss m + 1,
        cm_loss_ewma := ewma_hit F (cm_loss_ewma m), cm_burst_loss := burst,
        cm_max_burst := (if burst > cm_max_burst m then burst else cm_max_burst m)\<rparr>)"

definition emit :: "'f float_ops \<Rightarrow> bytes \<Rightarrow> bool \<Rightarrow> ('f, 's) client_media \<Rightarrow> ('f, 's) client_media" where
  "emit F wire lost m =
     (case cm_codec m of
        None \<Rightarrow> m
      | Some cd \<Rightarrow>
          if \<not> cm_has_out m then m
          else
            let m1 = (if lost then count_loss F m else m\<lparr>cm_burst_loss := 0\<rparr>);
                (res, s1) = cd_decode cd wire lost (cd_frame_bytes cd) (cm_state m1);
                m2 = m1\<lparr>cm_state := s1\<rparr>
            in (case res of
                  Inl _ \<Rightarrow> m2
                | Inr pcm \<Rightarrow>
                    let m3 = (if lost then m2\<lparr>cm_concealed_frames :=
                                 cm_concealed_frames m2 + word_of_nat (length pcm div 4)\<rparr> else m2)
                    in m3\<lparr>cm_out := cm_out m3 @ [pcm]\<rparr>))"

definition emit_fec :: "'f float_ops \<Rightarrow> bytes \<Rightarrow> ('f, 's) client_media \<Rightarrow> bool \<times> ('f, 's) client_media" where
  "emit_fec F wire m =
     (case cm_codec m of
        None \<Rightarrow> (False, m)
      | Some cd \<Rightarrow>
          if \<not> cm_has_out m \<or> wire = [] then (False, m)
          else (case cd_fec cd of
              None \<Rightarrow> (False, m)
            | Some fec \<Rightarrow>
                let (res, s1) = fec wire (cd_frame_bytes cd) (cm_state m); m1 = m\<lparr>cm_state := s1\<rparr>
                in (case res of
                      Inl _ \<Rightarrow> (False, m1)
                    | Inr pcm \<Rightarrow>
                        if pcm = [] then (False, m1)
                        else let m2 = count_loss F m1
                          in (True, m2\<lparr>cm_fec_recovered := cm_fec_recovered m2 + 1,
                                       cm_out := cm_out m2 @ [pcm]\<rparr>))))"

definition emit_silence :: "('f, 's) client_media \<Rightarrow> ('f, 's) client_media" where
  "emit_silence m =
     (case cm_codec m of
        None \<Rightarrow> m
      | Some cd \<Rightarrow> if \<not> cm_has_out m then m
                   else m\<lparr>cm_out := cm_out m @ [replicate (nat (cd_frame_bytes cd)) 0]\<rparr>)"

lemma count_loss_keeps [simp]:
  "cm_next_seq (count_loss F m) = cm_next_seq m" "cm_future (count_loss F m) = cm_future m"
  "cm_trace (count_loss F m) = cm_trace m" "cm_seen (count_loss F m) = cm_seen m"
  "cm_last_flush (count_loss F m) = cm_last_flush m" "cm_hold (count_loss F m) = cm_hold m"
  "cm_codec (count_loss F m) = cm_codec m" "cm_has_out (count_loss F m) = cm_has_out m"
  "cm_out (count_loss F m) = cm_out m"
  by (simp_all add: count_loss_def Let_def)

lemma emit_keeps [simp]:
  "cm_next_seq (emit F w l m) = cm_next_seq m" "cm_future (emit F w l m) = cm_future m"
  "cm_trace (emit F w l m) = cm_trace m" "cm_seen (emit F w l m) = cm_seen m"
  "cm_last_flush (emit F w l m) = cm_last_flush m" "cm_hold (emit F w l m) = cm_hold m"
  "cm_codec (emit F w l m) = cm_codec m" "cm_has_out (emit F w l m) = cm_has_out m"
  by (simp_all add: emit_def Let_def split: option.split sum.split prod.split)

lemma emit_fec_keeps [simp]:
  "cm_next_seq (snd (emit_fec F w m)) = cm_next_seq m" "cm_future (snd (emit_fec F w m)) = cm_future m"
  "cm_trace (snd (emit_fec F w m)) = cm_trace m" "cm_seen (snd (emit_fec F w m)) = cm_seen m"
  "cm_last_flush (snd (emit_fec F w m)) = cm_last_flush m" "cm_hold (snd (emit_fec F w m)) = cm_hold m"
  "cm_codec (snd (emit_fec F w m)) = cm_codec m" "cm_has_out (snd (emit_fec F w m)) = cm_has_out m"
  by (simp_all add: emit_fec_def Let_def split: option.split sum.split prod.split)

section \<open>Flushing the reorder window\<close>

text \<open>
  One turn of the loop of \<^verbatim>\<open>flush\<close>: \<open>None\<close> when it stops.  A held next frame is played; a missing one
  is waited for unless the hold period has expired, when it is reconstructed from the frame after it
  or concealed.
\<close>

definition flush_turn :: "'f float_ops \<Rightarrow> bool \<Rightarrow> ('f, 's) client_media \<Rightarrow> ('f, 's) client_media option" where
  "flush_turn F force m =
     (case map_of (cm_future m) (cm_next_seq m) of
        Some buf \<Rightarrow>
          Some (emit F buf False
            (m\<lparr>cm_future := AList.delete (cm_next_seq m) (cm_future m), cm_next_seq := cm_next_seq m + 1,
               cm_trace := cm_trace m @ [Played (cm_next_seq m) buf]\<rparr>))
      | None \<Rightarrow>
          if cm_future m = [] then None
          else if \<not> force then None
          else
            let (recovered, m1) = (case map_of (cm_future m) (cm_next_seq m + 1) of
                    Some next \<Rightarrow> emit_fec F next m | None \<Rightarrow> (False, m));
                m2 = m1\<lparr>cm_next_seq := cm_next_seq m1 + 1,
                        cm_trace := cm_trace m1 @ [if recovered then Recovered (cm_next_seq m1)
                                                   else Concealed (cm_next_seq m1)]\<rparr>
            in Some (if recovered then m2 else emit F [] True m2))"

text \<open>How far ahead of \<^verbatim>\<open>nextSeq\<close> the nearest held frame is: the loop's second measure.\<close>

definition nearest :: "u32 \<Rightarrow> (u32 \<times> bytes) list \<Rightarrow> nat" where
  "nearest q fut = (if fut = [] then 0 else Min ((\<lambda>(k, _). unat (k - q)) ` set fut))"

lemma unat_diff_Suc:
  fixes k q :: u32
  assumes "k \<noteq> q"
  shows "unat (k - q) = Suc (unat (k - (q + 1)))"
proof -
  define x where "x = k - q"
  have "x \<noteq> 0" using assms by (simp add: x_def)
  then have "unat x = Suc (unat (x - 1))" using unat_minus_one[of x] unat_gt_0[of x] by simp
  then show ?thesis by (simp add: x_def diff_diff_eq)
qed

lemma nearest_step:
  assumes "fut \<noteq> []" "q \<notin> fst ` set fut"
  shows "nearest q fut = Suc (nearest (q + 1) fut)"
proof -
  have "(\<lambda>(k, _). unat (k - q)) ` set fut = Suc ` (\<lambda>(k, _). unat (k - (q + 1))) ` set fut"
    unfolding image_image
  proof (rule image_cong[OF refl])
    fix x assume "x \<in> set fut"
    then have "fst x \<noteq> q" using assms(2) by auto
    then show "(case x of (k, _) \<Rightarrow> unat (k - q)) = Suc (case x of (k, _) \<Rightarrow> unat (k - (q + 1)))"
      unfolding case_prod_beta by (rule unat_diff_Suc)
  qed
  moreover have "Suc (Min ((\<lambda>(k, _). unat (k - (q + 1))) ` set fut)) =
      Min (Suc ` (\<lambda>(k, _). unat (k - (q + 1))) ` set fut)"
    using assms(1) by (intro mono_Min_commute) (simp_all add: mono_Suc)
  ultimately show ?thesis using assms(1) by (simp only: nearest_def if_False)
qed

lemma length_delete_less: "k \<in> fst ` set xs \<Longrightarrow> length (AList.delete k xs) < length xs"
  by (auto simp: AList.delete_eq length_filter_less)

lemma emit_fec_eq:
  assumes "emit_fec F w m = (b, m1)"
  shows "cm_next_seq m1 = cm_next_seq m" "cm_future m1 = cm_future m" "cm_trace m1 = cm_trace m"
    "cm_seen m1 = cm_seen m" "cm_last_flush m1 = cm_last_flush m" "cm_hold m1 = cm_hold m"
    "cm_codec m1 = cm_codec m" "cm_has_out m1 = cm_has_out m"
  using emit_fec_keeps[of F w m] by (simp_all add: assms)

lemma flush_turn_None:
  "flush_turn F force m = None \<longleftrightarrow>
     map_of (cm_future m) (cm_next_seq m) = None \<and> (cm_future m = [] \<or> \<not> force)"
  by (auto simp: flush_turn_def Let_def split: option.splits prod.splits)

lemma flush_turn_Some:
  assumes "flush_turn F force m = Some m1"
  shows "cm_next_seq m1 = cm_next_seq m + 1 \<and> cm_seen m1 = cm_seen m \<and> cm_hold m1 = cm_hold m \<and>
    cm_last_flush m1 = cm_last_flush m \<and>
    (case map_of (cm_future m) (cm_next_seq m) of
       Some buf \<Rightarrow> cm_future m1 = AList.delete (cm_next_seq m) (cm_future m) \<and>
         cm_trace m1 = cm_trace m @ [Played (cm_next_seq m) buf]
     | None \<Rightarrow> force \<and> cm_future m \<noteq> [] \<and> cm_future m1 = cm_future m \<and>
         (cm_trace m1 = cm_trace m @ [Concealed (cm_next_seq m)] \<or>
          cm_trace m1 = cm_trace m @ [Recovered (cm_next_seq m)] \<and>
            map_of (cm_future m) (cm_next_seq m + 1) \<noteq> None))"
proof (cases "map_of (cm_future m) (cm_next_seq m)")
  case None
  obtain b m0 where r: "(case map_of (cm_future m) (cm_next_seq m + 1) of
      Some next \<Rightarrow> emit_fec F next m | None \<Rightarrow> (False, m)) = (b, m0)" by fastforce
  have keep: "cm_next_seq m0 = cm_next_seq m" "cm_future m0 = cm_future m" "cm_trace m0 = cm_trace m"
    "cm_seen m0 = cm_seen m" "cm_last_flush m0 = cm_last_flush m" "cm_hold m0 = cm_hold m"
    and b: "b \<Longrightarrow> map_of (cm_future m) (cm_next_seq m + 1) \<noteq> None"
    using r emit_fec_eq[of F _ m b m0] by (auto split: option.splits)
  have f: "cm_future m \<noteq> []" "force" using assms None flush_turn_None[of F force m] by auto
  then have m1: "m1 = (let m2 = m0\<lparr>cm_next_seq := cm_next_seq m0 + 1,
      cm_trace := cm_trace m0 @ [if b then Recovered (cm_next_seq m0) else Concealed (cm_next_seq m0)]\<rparr>
      in if b then m2 else emit F [] True m2)"
    using assms by (simp add: flush_turn_def None r Let_def)
  show ?thesis using b f by (cases b) (simp_all add: m1 None keep Let_def)
next
  case (Some buf)
  then show ?thesis using assms by (auto simp: flush_turn_def)
qed

lemma flush_turn_measure:
  assumes "flush_turn F force m = Some m1"
  shows "length (cm_future m1) < length (cm_future m) \<or>
    cm_future m1 = cm_future m \<and> nearest (cm_next_seq m1) (cm_future m1) < nearest (cm_next_seq m) (cm_future m)"
proof (cases "map_of (cm_future m) (cm_next_seq m)")
  case None
  then have q: "cm_next_seq m \<notin> fst ` set (cm_future m)" by (simp add: map_of_eq_None_iff)
  show ?thesis using flush_turn_Some[OF assms] nearest_step[OF _ q] None by simp
next
  case (Some buf)
  then have "cm_next_seq m \<in> fst ` set (cm_future m)" by (force dest: map_of_SomeD)
  then show ?thesis using flush_turn_Some[OF assms] Some by (auto intro: length_delete_less)
qed

function flush_loop :: "'f float_ops \<Rightarrow> bool \<Rightarrow> ('f, 's) client_media \<Rightarrow> ('f, 's) client_media" where
  "flush_loop F force m =
     (case flush_turn F force m of None \<Rightarrow> m | Some m1 \<Rightarrow> flush_loop F force m1)"
  by pat_completeness auto
termination
  by (relation "measures [\<lambda>(F, force, m). length (cm_future m), \<lambda>(F, force, m). nearest (cm_next_seq m) (cm_future m)]")
    (use flush_turn_measure in fastforce)+

declare flush_loop.simps [simp del]

definition flush :: "'f float_ops \<Rightarrow> int \<Rightarrow> bool \<Rightarrow> ('f, 's) client_media \<Rightarrow> ('f, 's) client_media" where
  "flush F now force m =
     (if \<not> cm_seen m then m
      else if \<not> force \<and> (case cm_last_flush m of None \<Rightarrow> False | Some t \<Rightarrow> now - t < cm_hold m) then m
      else
        let m1 = flush_loop F force (m\<lparr>cm_last_flush := Some now\<rparr>)
        in m1\<lparr>cm_buf_ewma := fo_add F (cm_buf_ewma m1) (fo_mul F (fo_lit F (1 / 5))
               (fo_sub F (fo_mul F (fo_of_int F (int (length (cm_future m1)))) (cm_frame_ms m1))
                  (cm_buf_ewma m1)))\<rparr>)"

section \<open>Arrivals and ticks\<close>

definition seconds_of :: "'f float_ops \<Rightarrow> int \<Rightarrow> 'f" where
  "seconds_of F d = fo_add F (fo_of_int F (d sdiv 1000000000))
     (fo_div F (fo_of_int F (d smod 1000000000)) (fo_of_int F 1000000000))"

definition note_arrival :: "'f float_ops \<Rightarrow> int \<Rightarrow> ('f, 's) client_media \<Rightarrow> ('f, 's) client_media" where
  "note_arrival F now m0 =
     (let m = m0\<lparr>cm_packets_seen := cm_packets_seen m0 + 1\<rparr>;
          m1 = (case cm_last_arrival m of
              None \<Rightarrow> m
            | Some t \<Rightarrow>
                if \<not> fo_less F (fo_zero F) (cm_frame_ms m) then m
                else let dev0 = fo_sub F (fo_mul F (seconds_of F (now - t)) (fo_of_int F 1000)) (cm_frame_ms m);
                         dev = (if fo_less F dev0 (fo_zero F) then fo_sub F (fo_zero F) dev0 else dev0)
                  in m\<lparr>cm_jitter_ewma := fo_add F (cm_jitter_ewma m)
                        (fo_mul F (fo_lit F (1 / 10)) (fo_sub F dev (cm_jitter_ewma m)))\<rparr>)
      in m1\<lparr>cm_last_arrival := Some now\<rparr>)"

definition accept :: "'f float_ops \<Rightarrow> int \<Rightarrow> u32 \<Rightarrow> bytes \<Rightarrow> ('f, 's) client_media \<Rightarrow> ('f, 's) client_media" where
  "accept F now sq payload m0 =
     (let m = note_arrival F now m0 in
      if \<not> cm_seen m then
        (emit F payload False
           (m\<lparr>cm_seen := True, cm_next_seq := sq + 1, cm_trace := cm_trace m @ [Played sq payload]\<rparr>))
          \<lparr>cm_last_flush := Some now\<rparr>
      else
        let delta = sint (sq - cm_next_seq m) in
        if delta < 0 then
          m\<lparr>cm_late_packets := cm_late_packets m + 1, cm_late_ewma := ewma_hit F (cm_late_ewma m)\<rparr>
        else if delta = 0 then
          flush F now False
            ((emit F payload False m)\<lparr>cm_next_seq := sq + 1, cm_trace := cm_trace m @ [Played sq payload]\<rparr>)
        else
          let m1 = m\<lparr>cm_reordered_packets := cm_reordered_packets m + 1\<rparr>;
              m2 = (if length (cm_future m1) < 64
                    then m1\<lparr>cm_future := AList.update sq payload (cm_future m1)\<rparr> else m1)
          in flush F now False m2)"

definition tick :: "'f float_ops \<Rightarrow> int \<Rightarrow> ('f, 's) client_media \<Rightarrow> ('f, 's) client_media" where
  "tick F now m = (if cm_seen m then flush F now True m else m)"

section \<open>Runs\<close>

datatype media_event = Arrive int u32 bytes | TickAt int

primrec media_step :: "'f float_ops \<Rightarrow> media_event \<Rightarrow> ('f, 's) client_media \<Rightarrow> ('f, 's) client_media" where
  "media_step F (Arrive now sq p) m = accept F now sq p m"
| "media_step F (TickAt now) m = tick F now m"

definition media_run :: "'f float_ops \<Rightarrow> media_event list \<Rightarrow> ('f, 's) client_media \<Rightarrow> ('f, 's) client_media" where
  "media_run F = fold (media_step F)"

lemma note_arrival_keeps [simp]:
  "cm_next_seq (note_arrival F now m) = cm_next_seq m" "cm_future (note_arrival F now m) = cm_future m"
  "cm_trace (note_arrival F now m) = cm_trace m" "cm_seen (note_arrival F now m) = cm_seen m"
  "cm_last_flush (note_arrival F now m) = cm_last_flush m" "cm_hold (note_arrival F now m) = cm_hold m"
  "cm_codec (note_arrival F now m) = cm_codec m" "cm_has_out (note_arrival F now m) = cm_has_out m"
  "cm_out (note_arrival F now m) = cm_out m" "cm_loss_packets (note_arrival F now m) = cm_loss_packets m"
  by (simp_all add: note_arrival_def Let_def split: option.split)

text \<open>
  The rule every invariant of the loop is proved by: it is kept by each turn, so it holds at the end,
  where the loop has nothing more to do.
\<close>

lemma flush_loop_rule:
  assumes "I m" and "\<And>m m1. I m \<Longrightarrow> flush_turn F force m = Some m1 \<Longrightarrow> I m1"
  shows "I (flush_loop F force m) \<and> flush_turn F force (flush_loop F force m) = None"
  using assms
proof (induction F force m rule: flush_loop.induct)
  case (1 F force m)
  show ?case
  proof (cases "flush_turn F force m")
    case None
    then show ?thesis using "1.prems"(1) by (simp add: flush_loop.simps[of F force m])
  next
    case (Some m1)
    then show ?thesis using "1.IH"[OF Some "1.prems"(2)[OF "1.prems"(1) Some] "1.prems"(2)]
      by (simp add: flush_loop.simps[of F force m])
  qed
qed

lemma flush_rule:
  assumes I: "I m" and turn: "\<And>m m1. I m \<Longrightarrow> flush_turn F force m = Some m1 \<Longrightarrow> I m1"
    and last: "\<And>m t. I m \<Longrightarrow> I (m\<lparr>cm_last_flush := t\<rparr>)" and buf: "\<And>m x. I m \<Longrightarrow> I (m\<lparr>cm_buf_ewma := x\<rparr>)"
  shows "I (flush F now force m)"
proof -
  have "I (flush_loop F force (m\<lparr>cm_last_flush := Some now\<rparr>))"
    by (rule flush_loop_rule[THEN conjunct1]) (use I last turn in blast)+
  then show ?thesis using I buf by (simp add: flush_def Let_def)
qed

section \<open>The playout order\<close>

definition seqs_from :: "u32 \<Rightarrow> nat \<Rightarrow> u32 list" where
  "seqs_from q n = map (\<lambda>i. q + word_of_nat i) [0..<n]"

definition media_inv :: "('f, 's) client_media \<Rightarrow> bool" where
  "media_inv m \<longleftrightarrow> length (cm_future m) \<le> 64 \<and> distinct (map fst (cm_future m)) \<and>
     (if cm_seen m
      then \<exists>q. map play_seq (cm_trace m) = seqs_from q (length (cm_trace m)) \<and>
             cm_next_seq m = q + word_of_nat (length (cm_trace m))
      else cm_trace m = [] \<and> cm_future m = [])"

lemma seqs_from_Suc: "seqs_from q (Suc n) = seqs_from q n @ [q + word_of_nat n]"
  by (simp add: seqs_from_def)

lemma delete_le: "length (AList.delete k xs) \<le> length xs"
  by (simp add: AList.delete_eq)

lemma update_length: "length (AList.update k v xs) \<le> Suc (length xs)"
  by (induction xs) auto

lemma media_inv_turn:
  assumes "media_inv m" "flush_turn F force m = Some m1"
  shows "media_inv m1"
proof -
  note turn = flush_turn_Some[OF assms(2)]
  have seen: "cm_seen m"
    using turn assms(1) by (auto simp: media_inv_def split: option.splits)
  obtain p where t: "cm_trace m1 = cm_trace m @ [p]" "play_seq p = cm_next_seq m"
    using turn by (fastforce split: option.splits)
  have fut: "length (cm_future m1) \<le> 64 \<and> distinct (map fst (cm_future m1))"
    using turn assms(1) delete_le[of "cm_next_seq m" "cm_future m"]
    by (auto simp: media_inv_def distinct_delete intro: le_trans split: option.splits)
  from assms(1) seen obtain q where q: "map play_seq (cm_trace m) = seqs_from q (length (cm_trace m))"
    "cm_next_seq m = q + word_of_nat (length (cm_trace m))" by (auto simp: media_inv_def)
  then show ?thesis using fut turn seen t
    by (auto simp: media_inv_def seqs_from_Suc intro!: exI[of _ q])
qed

lemma media_inv_flush: "media_inv m \<Longrightarrow> media_inv (flush F now force m)"
  by (rule flush_rule[of media_inv, OF _ media_inv_turn]) (simp_all add: media_inv_def)

lemma media_inv_accept:
  assumes "media_inv m"
  shows "media_inv (accept F now sq p m)"
proof -
  let ?m = "note_arrival F now m"
  show ?thesis
  proof (cases "cm_seen m")
    case False
    then have "media_inv (accept F now sq p m) \<longleftrightarrow>
        (\<exists>q. [sq] = seqs_from q 1 \<and> sq + 1 = q + word_of_nat 1)"
      using assms by (simp add: accept_def Let_def media_inv_def)
    then show ?thesis by (auto simp: seqs_from_def)
  next
    case True
    let ?d = "sint (sq - cm_next_seq m)"
    have eq: "sq = cm_next_seq m" if "?d = 0" using that by (simp add: signed_eq_0_iff)
    have "media_inv ((emit F p False ?m)\<lparr>cm_next_seq := sq + 1, cm_trace := cm_trace ?m @ [Played sq p]\<rparr>)"
      if "?d = 0"
      using assms True eq[OF that] by (auto simp: media_inv_def seqs_from_Suc intro!: exI)
    moreover have "media_inv (?m\<lparr>cm_late_packets := x, cm_late_ewma := y\<rparr>)" for x y
      using assms True by (simp add: media_inv_def)
    moreover have "media_inv (?m\<lparr>cm_reordered_packets := x, cm_future := AList.update sq p (cm_future ?m)\<rparr>)"
      if "length (cm_future ?m) < 64" for x
      using assms True that update_length[of sq p "cm_future ?m"] by (simp add: media_inv_def distinct_update)
    moreover have "media_inv (?m\<lparr>cm_reordered_packets := x\<rparr>)" for x using assms True by (simp add: media_inv_def)
    ultimately show ?thesis using True
      by (simp add: accept_def Let_def media_inv_flush)
  qed
qed

lemma media_inv_run: "media_inv m \<Longrightarrow> media_inv (media_run F es m)"
proof (induction es arbitrary: m)
  case (Cons e es)
  have "media_inv (media_step F e m)"
    using Cons.prems by (cases e) (simp_all add: media_inv_accept tick_def media_inv_flush)
  then show ?case using Cons.IH by (simp add: media_run_def)
qed (simp add: media_run_def)

lemma media_inv_new: "media_inv (new_client_media F c s h)"
  by (simp add: media_inv_def new_client_media_def Let_def)

lemma forced_flush_empties:
  assumes "cm_seen m"
  shows "cm_future (flush F now True m) = [] \<and> cm_seen (flush F now True m)"
proof -
  let ?m = "flush_loop F True (m\<lparr>cm_last_flush := Some now\<rparr>)"
  have "cm_seen ?m \<and> flush_turn F True ?m = None"
    by (rule flush_loop_rule) (use assms flush_turn_Some in auto)
  then show ?thesis using assms by (auto simp: flush_def Let_def flush_turn_None)
qed

section \<open>The PCM codec: what is heard is what the trace says\<close>

fun pcm_play :: "codec_config \<Rightarrow> play \<Rightarrow> bytes list" where
  "pcm_play c (Played s b) = (if int (length b) = pcm_frame_bytes c then [b] else [])"
| "pcm_play c (Recovered s) = []"
| "pcm_play c (Concealed s) = [replicate (nat (pcm_frame_bytes c)) 0]"

primrec is_loss :: "play \<Rightarrow> bool" where
  "is_loss (Played s b) \<longleftrightarrow> False"
| "is_loss (Recovered s) \<longleftrightarrow> True"
| "is_loss (Concealed s) \<longleftrightarrow> True"

definition pcm_media :: "codec_config \<Rightarrow> ('f, 's) client_media \<Rightarrow> bool" where
  "pcm_media c m \<longleftrightarrow> cm_codec m = Some (pcm_codec c) \<and> cm_has_out m \<and>
     cm_out m = concat (map (pcm_play c) (cm_trace m)) \<and>
     cm_loss_packets m = word_of_nat (length (filter is_loss (cm_trace m)))"

lemma emit_pcm_loss:
  assumes "cm_codec m = Some (pcm_codec c)" "cm_has_out m"
  shows "cm_loss_packets (emit F w l m) = cm_loss_packets m + (if l then 1 else 0)"
  using assms by (auto simp: emit_def count_loss_def Let_def split: prod.split sum.split)

lemma emit_pcm:
  assumes "cm_codec m = Some (pcm_codec c)" "cm_has_out m"
  shows "cm_out (emit F w l m) = cm_out m @
    (if l then [replicate (nat (pcm_frame_bytes c)) 0]
     else if int (length w) = pcm_frame_bytes c then [w] else [])"
proof (cases l)
  case True
  then show ?thesis using assms by (simp add: emit_def pcm_codec_def pcm_decode_def Let_def)
next
  case False
  have "take (nat (pcm_frame_bytes c)) w = w" if "int (length w) = pcm_frame_bytes c"
    using that by (simp flip: that)
  then show ?thesis using False assms by (simp add: emit_def pcm_codec_def pcm_decode_def Let_def)
qed

lemma emit_fec_pcm:
  "cm_codec m = Some (pcm_codec c) \<Longrightarrow> emit_fec F w m = (False, m)"
  by (simp add: emit_fec_def pcm_codec_def)

lemma pcm_media_turn:
  assumes "pcm_media c m" "flush_turn F force m = Some m1"
  shows "pcm_media c m1"
proof -
  have "(case map_of (cm_future m) (cm_next_seq m + 1) of Some next \<Rightarrow> emit_fec F next m | None \<Rightarrow> (False, m)) =
      (False, m)"
    using assms(1) by (auto simp: pcm_media_def emit_fec_pcm split: option.split)
  then show ?thesis using assms
    by (auto simp: pcm_media_def flush_turn_def Let_def emit_pcm emit_pcm_loss split: option.splits if_splits)
qed

lemma pcm_media_flush: "pcm_media c m \<Longrightarrow> pcm_media c (flush F now force m)"
  by (rule flush_rule[of "pcm_media c", OF _ pcm_media_turn]) (simp_all add: pcm_media_def)

lemma pcm_media_accept: "pcm_media c m \<Longrightarrow> pcm_media c (accept F now sq p m)"
  unfolding accept_def Let_def
  by (auto simp: emit_pcm emit_pcm_loss pcm_media_def intro!: pcm_media_flush[unfolded pcm_media_def])

lemma pcm_media_run: "pcm_media c m \<Longrightarrow> pcm_media c (media_run F es m)"
proof (induction es arbitrary: m)
  case (Cons e es)
  have "pcm_media c (media_step F e m)"
    using Cons.prems by (cases e) (simp_all add: pcm_media_accept tick_def pcm_media_flush)
  then show ?case using Cons.IH by (simp add: media_run_def)
qed (simp add: media_run_def)

lemma pcm_media_new: "pcm_media c (new_client_media F (Some (pcm_codec c)) s True)"
  by (simp add: pcm_media_def new_client_media_def Let_def)

section \<open>Reordering is undone\<close>

text \<open>
  After the first packet \<open>q\<close> of a talk spurt, packets \<open>q + i\<close> for \<open>i\<close> in \<open>A\<close> have arrived; those
  below \<open>k\<close> were played, the others are held.
\<close>

definition window_inv :: "u32 \<Rightarrow> (nat \<Rightarrow> bytes) \<Rightarrow> nat \<Rightarrow> nat set \<Rightarrow> nat \<Rightarrow> ('f, 's) client_media \<Rightarrow> bool" where
  "window_inv q pl n A k m \<longleftrightarrow> cm_seen m \<and> 1 \<le> k \<and> k \<le> Suc n \<and> {1..<k} \<subseteq> A \<and> A \<subseteq> {1..n} \<and>
     cm_next_seq m = q + word_of_nat k \<and>
     cm_trace m = map (\<lambda>i. Played (q + word_of_nat i) (pl i)) [0..<k] \<and>
     map_of (cm_future m) = (\<lambda>s. if \<exists>i \<in> A. k \<le> i \<and> s = q + word_of_nat i
        then Some (pl (unat (s - q))) else None) \<and>
     distinct (map fst (cm_future m))"

lemma offset_unat: "i \<le> 64 \<Longrightarrow> unat (q + word_of_nat i - q) = i" for q :: u32
  by (simp add: unat_of_nat)

lemma offset_inj: "i \<le> 65 \<Longrightarrow> j \<le> 65 \<Longrightarrow> word_of_nat i = (word_of_nat j :: u32) \<longleftrightarrow> i = j"
proof -
  assume "i \<le> 65" "j \<le> 65"
  then have "unat (word_of_nat i :: u32) = i" "unat (word_of_nat j :: u32) = j" by (simp_all add: unat_of_nat)
  then show "word_of_nat i = (word_of_nat j :: u32) \<longleftrightarrow> i = j" by metis
qed

lemma window_lookup:
  assumes "window_inv q pl n A k m" "n \<le> 64" "i \<le> Suc n"
  shows "map_of (cm_future m) (q + word_of_nat i) = (if i \<in> A \<and> k \<le> i then Some (pl i) else None)"
proof -
  have A: "A \<subseteq> {1..n}" using assms(1) by (simp add: window_inv_def)
  have "(\<exists>j\<in>A. k \<le> j \<and> q + word_of_nat i = q + word_of_nat j) \<longleftrightarrow> i \<in> A \<and> k \<le> i"
  proof -
    have "word_of_nat i = (word_of_nat j :: u32) \<longleftrightarrow> i = j" if "j \<in> A" for j
      using that A assms(2,3) by (intro offset_inj) auto
    then show ?thesis by auto
  qed
  moreover have "unat (q + word_of_nat i - q) = i" if "i \<in> A" using that A assms(2) by (intro offset_unat) auto
  ultimately show ?thesis using assms(1) unfolding window_inv_def by presburger
qed

lemma window_size:
  assumes "window_inv q pl n A k m" "n \<le> 64"
  shows "length (cm_future m) \<le> card (A \<inter> {k..n})"
proof -
  have sub: "fst ` set (cm_future m) \<subseteq> (\<lambda>i. q + word_of_nat i) ` (A \<inter> {k..n})"
  proof
    fix s assume "s \<in> fst ` set (cm_future m)"
    then have "map_of (cm_future m) s \<noteq> None" by (simp add: map_of_eq_None_iff)
    then show "s \<in> (\<lambda>i. q + word_of_nat i) ` (A \<inter> {k..n})"
      using assms(1) by (auto simp: window_inv_def split: if_splits)
  qed
  have "length (cm_future m) = card (fst ` set (cm_future m))"
    using assms(1) distinct_card by (fastforce simp: window_inv_def)
  also have "\<dots> \<le> card ((\<lambda>i. q + word_of_nat i :: u32) ` (A \<inter> {k..n}))"
    using sub by (intro card_mono) simp_all
  also have "\<dots> \<le> card (A \<inter> {k..n})" by (rule card_image_le) simp
  finally show ?thesis .
qed

lemma window_played:
  assumes inv: "window_inv q pl n A k m" and n: "n \<le> 64" and k: "k \<le> n"
    and m1: "cm_seen m1" "cm_next_seq m1 = q + word_of_nat k + 1"
      "cm_trace m1 = cm_trace m @ [Played (q + word_of_nat k) (pl k)]"
      "cm_future m1 = AList.delete (q + word_of_nat k) (cm_future m)"
  shows "window_inv q pl n (insert k A) (Suc k) m1"
proof -
  have A: "A \<subseteq> {1..n}" "{1..<k} \<subseteq> A" "1 \<le> k" using inv by (simp_all add: window_inv_def)
  have "map_of (cm_future m1) s = (if \<exists>i\<in>insert k A. Suc k \<le> i \<and> s = q + word_of_nat i
      then Some (pl (unat (s - q))) else None)" for s
  proof (cases "s = q + word_of_nat k")
    case True
    have "word_of_nat k = (word_of_nat i :: u32) \<longleftrightarrow> k = i" if "i \<in> insert k A" for i
      using that A n k by (intro offset_inj) auto
    then show ?thesis using True by (auto simp: m1 AList.delete_conv)
  next
    case False
    then have "(\<exists>i\<in>insert k A. Suc k \<le> i \<and> s = q + word_of_nat i) \<longleftrightarrow> (\<exists>i\<in>A. k \<le> i \<and> s = q + word_of_nat i)"
      by (metis Suc_le_D Suc_le_eq insert_iff le_neq_implies_less nat_less_le Suc_leD)
    then show ?thesis using False inv by (simp add: m1 AList.delete_conv window_inv_def)
  qed
  then have "map_of (cm_future m1) = (\<lambda>s. if \<exists>i\<in>insert k A. Suc k \<le> i \<and> s = q + word_of_nat i
      then Some (pl (unat (s - q))) else None)" by blast
  moreover have "{1..<Suc k} \<subseteq> insert k A" using A by (auto simp: less_Suc_eq)
  ultimately show ?thesis using inv A k m1
    by (simp add: window_inv_def add.assoc add.commute[of 1] distinct_delete)
qed

lemma window_turn:
  assumes inv: "window_inv q pl n A k m" and n: "n \<le> 64" and force: "force \<Longrightarrow> A = {1..n}"
    and turn: "flush_turn F force m = Some m1"
  shows "window_inv q pl n A (Suc k) m1"
proof -
  have k: "1 \<le> k" "k \<le> Suc n" "A \<subseteq> {1..n}" and nx: "cm_next_seq m = q + word_of_nat k"
    using inv by (simp_all add: window_inv_def)
  note look = window_lookup[OF inv n k(2)]
  note eff = flush_turn_Some[OF turn]
  show ?thesis
  proof (cases "k \<in> A")
    case True
    then have "window_inv q pl n (insert k A) (Suc k) m1"
      using eff look k inv by (intro window_played[OF inv n]) (auto simp: nx window_inv_def)
    then show ?thesis using True by (simp add: insert_absorb)
  next
    case False
    then have f: "force" "cm_future m \<noteq> []" using eff look by (auto simp: nx)
    then have "A \<inter> {k..n} = {}" using False force k by auto
    then show ?thesis using window_size[OF inv n] f(2) by simp
  qed
qed

lemma window_flush:
  assumes "window_inv q pl n A k m" "n \<le> 64" "force \<Longrightarrow> A = {1..n}"
  shows "\<exists>k'. window_inv q pl n A k' (flush F now force m)"
proof (rule flush_rule[of "\<lambda>m. \<exists>k'. window_inv q pl n A k' m"])
  fix m m1 :: "('a, 'b) client_media"
  assume "\<exists>k'. window_inv q pl n A k' m" "flush_turn F force m = Some m1"
  then show "\<exists>k'. window_inv q pl n A k' m1" using window_turn[OF _ assms(2,3)] by blast
qed (use assms(1) in \<open>auto simp: window_inv_def\<close>)

lemma window_accept:
  assumes inv: "window_inv q pl n A k m" and n: "n \<le> 64" and i: "1 \<le> i" "i \<le> n" "i \<notin> A"
  shows "\<exists>k'. window_inv q pl n (insert i A) k' (accept F now (q + word_of_nat i) (pl i) m)"
proof -
  let ?m = "note_arrival F now m" and ?s = "q + word_of_nat i"
  have k: "k \<le> i" "1 \<le> k" using inv i by (force simp: window_inv_def)+
  have nx: "cm_next_seq m = q + word_of_nat k" and seen: "cm_seen m" using inv by (simp_all add: window_inv_def)
  have "?s - cm_next_seq m = word_of_nat (i - k)" using k by (simp add: nx of_nat_diff)
  then have d: "sint (?s - cm_next_seq m) = int (i - k)"
    using i n by (simp add: sint_uint signed_take_bit_int_eq_self unsigned_of_nat take_bit_nat_eq_self)
  have win: "window_inv q pl n A k ?m" using inv by (simp add: window_inv_def)
  have fresh: "?s \<notin> fst ` set (cm_future m)"
    using window_lookup[OF inv n, of i] i by (simp add: map_of_eq_None_iff)
  show ?thesis
  proof (cases "i = k")
    case True
    have "window_inv q pl n (insert k A) (Suc k) ((emit F (pl i) False ?m)
        \<lparr>cm_next_seq := ?s + 1, cm_trace := cm_trace ?m @ [Played ?s (pl i)]\<rparr>)"
      using True i fresh seen by (intro window_played[OF win n]) simp_all
    from window_flush[OF this n, of False] show ?thesis using True d seen by (simp add: accept_def Let_def)
  next
    case False
    have "card (A \<inter> {k..n}) \<le> card ({1..n} - {i})"
      using inv i by (intro card_mono) (auto simp: window_inv_def)
    then have len: "length (cm_future m) < 64" using window_size[OF inv n] n i by simp
    have "map_of (AList.update ?s (pl i) (cm_future m)) x = (if \<exists>j\<in>insert i A. k \<le> j \<and> x = q + word_of_nat j
        then Some (pl (unat (x - q))) else None)" for x
      using inv k offset_unat[of i q] i n by (simp add: update_conv window_inv_def)
    then have "window_inv q pl n (insert i A) k (?m\<lparr>cm_reordered_packets := y,
        cm_future := AList.update ?s (pl i) (cm_future m)\<rparr>)" for y
      using inv i by (auto simp: window_inv_def distinct_update)
    from window_flush[OF this n, of False] show ?thesis using False k d len seen by (simp add: accept_def Let_def)
  qed
qed

lemma window_run:
  assumes n: "n \<le> 64"
  shows "window_inv q pl n A k m \<Longrightarrow> distinct (map snd arr) \<Longrightarrow> set (map snd arr) \<subseteq> {1..n} - A \<Longrightarrow>
    \<exists>k'. window_inv q pl n (A \<union> set (map snd arr)) k'
      (media_run F (map (\<lambda>(t, i). Arrive t (q + word_of_nat i) (pl i)) arr) m)"
proof (induction arr arbitrary: A k m)
  case Nil
  then show ?case by (auto simp: media_run_def)
next
  case (Cons a arr)
  obtain t i where a: "a = (t, i)" by fastforce
  then have i: "1 \<le> i" "i \<le> n" "i \<notin> A" using Cons.prems(3) by auto
  obtain k1 where "window_inv q pl n (insert i A) k1 (accept F t (q + word_of_nat i) (pl i) m)"
    using window_accept[OF Cons.prems(1) n i] by blast
  from Cons.IH[OF this] Cons.prems show ?case by (auto simp: a media_run_def)
qed

lemma window_start:
  assumes "\<not> cm_seen m" "cm_future m = []" "cm_trace m = []"
  shows "window_inv q pl n {} 1 (accept F now q (pl 0) m)"
  using assms by (simp add: accept_def Let_def window_inv_def fun_eq_iff)

section \<open>A packet far ahead\<close>

lemma flush_gap:
  assumes "cm_future m = [(k, b)]" "pcm_media c m" "unat (k - cm_next_seq m) = d"
  shows "cm_trace (flush_loop F True m) =
      cm_trace m @ map Concealed (seqs_from (cm_next_seq m) d) @ [Played k b] \<and>
    cm_next_seq (flush_loop F True m) = k + 1 \<and> cm_future (flush_loop F True m) = []"
  using assms
proof (induction d arbitrary: m)
  case 0
  then have k: "cm_next_seq m = k" by (simp add: unat_eq_0)
  obtain m1 where m1: "flush_turn F True m = Some m1" using 0 k flush_turn_None[of F True m] by fastforce
  have e: "cm_trace m1 = cm_trace m @ [Played k b]" "cm_next_seq m1 = k + 1" "cm_future m1 = []"
    using flush_turn_Some[OF m1] 0 k by simp_all
  then have "flush_turn F True m1 = None" by (simp add: flush_turn_None)
  then have "flush_loop F True m = m1" using m1 by (simp add: flush_loop.simps)
  then show ?case using e by (simp add: seqs_from_def)
next
  case (Suc d)
  have ne: "k \<noteq> cm_next_seq m" using Suc.prems(3) by auto
  obtain m1 where m1: "flush_turn F True m = Some m1"
    using Suc.prems(1) flush_turn_None[of F True m] by fastforce
  have "(case map_of (cm_future m) (cm_next_seq m + 1) of Some next \<Rightarrow> emit_fec F next m | None \<Rightarrow> (False, m)) =
      (False, m)"
    using Suc.prems(2) by (auto simp: pcm_media_def emit_fec_pcm split: option.split)
  then have e: "cm_trace m1 = cm_trace m @ [Concealed (cm_next_seq m)]" "cm_next_seq m1 = cm_next_seq m + 1"
    "cm_future m1 = [(k, b)]"
    using m1 ne Suc.prems(1) by (auto simp: flush_turn_def Let_def)
  have pm: "pcm_media c m1" by (rule pcm_media_turn[OF Suc.prems(2) m1])
  have d: "unat (k - cm_next_seq m1) = d" using unat_diff_Suc[OF ne] Suc.prems(3) by (simp add: e(2))
  have loop: "flush_loop F True m = flush_loop F True m1" using m1 by (simp add: flush_loop.simps[of F True m])
  have "seqs_from (cm_next_seq m) (Suc d) = cm_next_seq m # seqs_from (cm_next_seq m + 1) d"
    unfolding seqs_from_def upt_conv_Cons[OF zero_less_Suc] map_Suc_upt[symmetric]
    by (simp add: comp_def add.assoc add.commute[of 1])
  then show ?case using Suc.IH[OF e(3) pm d] by (simp add: loop e(1,2))
qed

lemma reorder_window:
  assumes "n \<le> 64" and "\<And>i. i \<le> n \<Longrightarrow> int (length (pl i)) = pcm_frame_bytes c"
    and "distinct (map snd arr)" "set (map snd arr) = {1..n}"
  shows "(let m = media_run F (Arrive t0 q (pl 0) # map (\<lambda>(t, i). Arrive t (q + word_of_nat i) (pl i)) arr @ [TickAt t1])
        (new_client_media F (Some (pcm_codec c)) s True)
      in cm_out m = map pl [0..<Suc n] \<and> cm_future m = [] \<and> cm_loss_packets m = 0)"
proof -
  let ?init = "new_client_media F (Some (pcm_codec c)) s True"
  let ?es = "map (\<lambda>(t, i). Arrive t (q + word_of_nat i) (pl i)) arr"
  let ?m = "media_run F (Arrive t0 q (pl 0) # ?es @ [TickAt t1]) ?init"
  let ?first = "accept F t0 q (pl 0) ?init" and ?last = "media_run F ?es (accept F t0 q (pl 0) ?init)"
  have start: "\<not> cm_seen ?init" "cm_future ?init = []" "cm_trace ?init = []"
    by (simp_all add: new_client_media_def Let_def)
  have "window_inv q pl n {} 1 ?first" by (rule window_start[OF start])
  from window_run[OF assms(1) this assms(3), of F] assms(4) obtain k2 where
    k2: "window_inv q pl n {1..n} k2 ?last" by auto
  have m: "?m = flush F t1 True ?last" using k2 by (simp add: media_run_def tick_def window_inv_def)
  obtain k where k: "window_inv q pl n {1..n} k ?m" unfolding m using window_flush[OF k2 assms(1)] by blast
  have fut: "cm_future ?m = []"
    unfolding m using forced_flush_empties[of ?last F t1] k2 by (simp add: window_inv_def)
  have "k = Suc n" using window_lookup[OF k assms(1), of k] k by (force simp: fut window_inv_def)
  then have tr: "cm_trace ?m = map (\<lambda>i. Played (q + word_of_nat i) (pl i)) [0..<Suc n]"
    using k by (simp only: window_inv_def)
  have pm: "pcm_media c ?m" by (rule pcm_media_run[OF pcm_media_new])
  have "map (pcm_play c) (cm_trace ?m) = map (\<lambda>i. [pl i]) [0..<Suc n]"
    using assms(2) by (simp add: tr del: upt_Suc)
  then have out: "cm_out ?m = map pl [0..<Suc n]"
    using pm by (simp add: pcm_media_def del: upt_Suc)
  have "filter is_loss (cm_trace ?m) = []" by (simp add: tr filter_empty_conv del: upt_Suc)
  then have "cm_loss_packets ?m = 0" using pm by (simp add: pcm_media_def)
  then show ?thesis unfolding Let_def using out fut by blast
qed

section \<open>Properties\<close>



text \<open>
  Reordering is undone.  Let a spurt of frames follow its first one in any order, each once, with
  numbers reaching at most 64 ahead (across the 32-bit wrap as well) and at any times; after the next
  tick the PCM pipeline has handed out exactly the frames, in sequence order and bit for bit, nothing
  is held and no loss was counted.
\<close>

theorem reordering_undone:
  assumes "n \<le> 64" and "\<And>i. i \<le> n \<Longrightarrow> int (length (pl i)) = pcm_frame_bytes c"
    and "distinct (map snd arr)" "set (map snd arr) = {1..n}"
  shows "(let m = media_run F (Arrive t0 q (pl 0) # map (\<lambda>(t, i). Arrive t (q + word_of_nat i) (pl i)) arr @ [TickAt t1])
        (new_client_media F (Some (pcm_codec c)) s True)
      in cm_out m = map pl [0..<Suc n] \<and> cm_future m = [] \<and> cm_loss_packets m = 0)"
  using assms by (rule reorder_window)

theorem reordering_undone_witness:
  "(let m = media_run rat_ops (Arrive 0 4294967295 (replicate 960 0) #
         map (\<lambda>(t, i). Arrive t (4294967295 + word_of_nat i) (replicate 960 (word_of_nat i)))
           [(1, 2), (2, 3), (3, Suc 0)] @ [TickAt 9])
       (new_client_media rat_ops (Some (pcm_codec demo_pcm)) () True)
    in cm_out m = map (\<lambda>i. replicate 960 (word_of_nat i)) [0..<Suc 3] \<and> cm_future m = [] \<and> cm_loss_packets m = 0)"
proof -
  have "pcm_frame_bytes demo_pcm = 960"
    by (subst pcm_frame_bytes_valid(1)) (simp_all add: demo_pcm_def validate_config_def)
  moreover have "set (map snd [(1 :: int, 2), (2, 3), (3, Suc 0)]) = {1..3}" by auto
  ultimately show ?thesis
    using reordering_undone[of 3 "\<lambda>i. replicate 960 (word_of_nat i)" demo_pcm "[(1, 2), (2, 3), (3, Suc 0)]"
        rat_ops 0 4294967295 9 "()"]
    by simp
qed

text \<open>
  A gap is paid for in full: when the only frame held back is \<open>d\<close> numbers ahead of the one waited
  for, the tick hands out \<open>d\<close> frames of silence in one go before it.  The code puts no bound on \<open>d\<close>
  other than the window of 2^31 numbers, so one forged or corrupt number costs that many frames.
\<close>

theorem gap_concealed_in_full:
  assumes "pcm_media c m" "cm_seen m" "cm_future m = []" "0 < sint (sq - cm_next_seq m)"
    and "int (length p) = pcm_frame_bytes c"
  shows "(let m1 = tick F t1 (accept F t0 sq p m) in
      cm_out m1 = cm_out m @ replicate (unat (sq - cm_next_seq m)) (replicate (nat (pcm_frame_bytes c)) 0) @ [p] \<and>
      cm_next_seq m1 = sq + 1)"
proof -
  let ?d = "unat (sq - cm_next_seq m)"
  let ?acc = "accept F t0 sq p m"
  define m2 where "m2 = (note_arrival F t0 m)\<lparr>cm_reordered_packets := cm_reordered_packets (note_arrival F t0 m) + 1,
      cm_future := [(sq, p)]\<rparr>"
  have ne: "sq \<noteq> cm_next_seq m" using assms(4) by auto
  have acc: "?acc = flush F t0 False m2" using assms(2-4) by (simp add: accept_def Let_def m2_def)
  have f2: "cm_future m2 = [(sq, p)]" "cm_next_seq m2 = cm_next_seq m" "cm_trace m2 = cm_trace m" "cm_seen m2"
    using assms(2) by (simp_all add: m2_def)
  have "flush_turn F False (m2\<lparr>cm_last_flush := Some t0\<rparr>) = None" using ne f2 by (simp add: flush_turn_None)
  then have "flush_loop F False (m2\<lparr>cm_last_flush := Some t0\<rparr>) = m2\<lparr>cm_last_flush := Some t0\<rparr>"
    by (simp add: flush_loop.simps)
  then have f1: "cm_future ?acc = [(sq, p)]" "cm_next_seq ?acc = cm_next_seq m" "cm_trace ?acc = cm_trace m" "cm_seen ?acc"
    using f2 by (simp_all add: acc flush_def Let_def)
  have pm1: "pcm_media c ?acc" by (rule pcm_media_accept[OF assms(1)])
  then have "pcm_media c (?acc\<lparr>cm_last_flush := Some t1\<rparr>)" by (simp add: pcm_media_def)
  from flush_gap[OF _ this, of sq p ?d F] f1
  have "cm_trace (tick F t1 ?acc) = cm_trace m @ map Concealed (seqs_from (cm_next_seq m) ?d) @ [Played sq p]"
    and nx: "cm_next_seq (tick F t1 ?acc) = sq + 1"
    by (simp_all add: tick_def flush_def Let_def)
  moreover have "pcm_media c (tick F t1 ?acc)" using pm1 by (simp add: tick_def pcm_media_flush)
  moreover have "concat (map (pcm_play c) (map Concealed (seqs_from q d))) =
      replicate d (replicate (nat (pcm_frame_bytes c)) 0)" for q d
    unfolding seqs_from_def by (induction d) (simp_all flip: replicate_append_same)
  ultimately have "cm_out (tick F t1 ?acc) = cm_out m @ replicate ?d (replicate (nat (pcm_frame_bytes c)) 0) @ [p]"
    using assms(1,5) by (simp add: pcm_media_def)
  then show ?thesis using nx by (simp add: Let_def)
qed

theorem gap_concealed_in_full_witness:
  "let m = accept rat_ops 0 5 (replicate 960 1) (new_client_media rat_ops (Some (pcm_codec demo_pcm)) () True);
       m1 = tick rat_ops 9 (accept rat_ops 1 9 (replicate 960 2) m)
   in cm_out m1 = cm_out m @ replicate 3 (replicate 960 0) @ [replicate 960 2] \<and> cm_next_seq m1 = 10"
proof -
  let ?m = "accept rat_ops 0 5 (replicate 960 1) (new_client_media rat_ops (Some (pcm_codec demo_pcm)) () True)"
  have fb: "pcm_frame_bytes demo_pcm = 960"
    by (subst pcm_frame_bytes_valid(1)) (simp_all add: demo_pcm_def validate_config_def)
  have m: "cm_seen ?m" "cm_future ?m = []" "cm_next_seq ?m = 6"
    by (simp_all add: accept_def new_client_media_def Let_def)
  from gap_concealed_in_full[OF pcm_media_accept[OF pcm_media_new] m(1,2), of 9 "replicate 960 2" rat_ops 9 1]
  show ?thesis by (simp add: m(3) fb Let_def)
qed

end
