(* ===== verification/Discovery.thy ===== *)
theory Discovery
  imports GoInt Wire_IO
begin

text \<open>
  LAN discovery, \<^verbatim>\<open>engine/internal/discovery\<close>: the query and announce packets (\<^verbatim>\<open>discovery.go\<close>), the
  ports and broadcast targets (\<^verbatim>\<open>ports.go\<close>, \<^verbatim>\<open>targets.go\<close>) and the responder's reply limiter
  (\<^verbatim>\<open>responder.go\<close>).  \<^verbatim>\<open>netip.Addr\<close> is the type \<open>addr\<close>: no address, an IPv4 address or the 16 bytes
  and zone of an IPv6 address.  Names are byte strings.
\<close>

section \<open>Addresses\<close>

datatype addr = NoAddr | V4 u8 u8 u8 u8 | V6 bytes string

definition is4 :: "addr \<Rightarrow> bool" where
  "is4 a \<longleftrightarrow> (case a of V4 _ _ _ _ \<Rightarrow> True | _ \<Rightarrow> False)"

definition unmap :: "addr \<Rightarrow> addr" where
  "unmap a =
     (case a of
        V6 b z \<Rightarrow> if take 12 b = replicate 10 0 @ [255, 255] then V4 (b ! 12) (b ! 13) (b ! 14) (b ! 15) else a
      | _ \<Rightarrow> a)"

definition is_unspecified :: "addr \<Rightarrow> bool" where
  "is_unspecified a \<longleftrightarrow> a = V4 0 0 0 0 \<or> a = V6 (replicate 16 0) ''''"

definition is_loopback :: "addr \<Rightarrow> bool" where
  "is_loopback a \<longleftrightarrow>
     (case unmap a of NoAddr \<Rightarrow> False | V4 p _ _ _ \<Rightarrow> p = 127 | V6 b _ \<Rightarrow> b = replicate 15 0 @ [1])"

definition is_link_local_unicast :: "addr \<Rightarrow> bool" where
  "is_link_local_unicast a \<longleftrightarrow>
     (case unmap a of
        NoAddr \<Rightarrow> False
      | V4 p q _ _ \<Rightarrow> p = 169 \<and> q = 254
      | V6 b _ \<Rightarrow> b ! 0 = 254 \<and> b ! 1 AND 192 = 128)"

section \<open>Packets\<close>

abbreviation (input) DiscMaxNameLen :: nat where "DiscMaxNameLen \<equiv> 255"
abbreviation (input) InstanceIDLen :: nat where "InstanceIDLen \<equiv> 16"
abbreviation (input) announceNameOffset :: nat where "announceNameOffset \<equiv> 29"
abbreviation (input) MaxPacketBytes :: nat where "MaxPacketBytes \<equiv> 284"
abbreviation (input) TypeQuery :: u8 where "TypeQuery \<equiv> 1"
abbreviation (input) TypeAnnounce :: u8 where "TypeAnnounce \<equiv> 2"
abbreviation (input) TypeAnnounceV2 :: u8 where "TypeAnnounceV2 \<equiv> 3"

definition disc_magic :: bytes where "disc_magic = [82, 65, 85, 68]"

record announce =
  an_tcp_port :: int
  an_instance_id :: bytes
  an_advertised :: addr
  an_name :: bytes
  an_proto_version :: u8

datatype disc_message = Query bytes | Announce announce | AnnounceV2 announce

datatype disc_error =
    PortOutOfRange int
  | DiscNameTooLong nat
  | DiscPacketTooLarge nat
  | DiscPacketTooShort nat
  | DiscInvalidMagic
  | DiscUnsupportedVersion u8
  | UnknownMessageType u8
  | BadQueryLength nat nat
  | QueryPortNotZero u16
  | AnnounceTooShort nat nat
  | BadAnnounceLength nat nat
  | AnnouncePortZero
  | AdvertisedNotIPv4 addr
  | NoPorts
  | BindFailed

definition advertised_addr_bytes :: "addr \<Rightarrow> disc_error + bytes" where
  "advertised_addr_bytes a =
     (if a = NoAddr \<or> is_unspecified a then Inr [0, 0, 0, 0]
      else case unmap a of
        V4 p q r s \<Rightarrow> Inr [p, q, r, s]
      | b \<Rightarrow> Inl (AdvertisedNotIPv4 b))"

definition disc_header :: "u8 \<Rightarrow> int \<Rightarrow> bytes \<Rightarrow> bytes" where
  "disc_header typ port name =
     disc_magic @ [1, typ] @ put_be 2 (word_of_int port :: u16) @ [word_of_nat (length name)]"

definition encode_query :: "bytes \<Rightarrow> disc_error + bytes" where
  "encode_query name =
     (if length name > DiscMaxNameLen then Inl (DiscNameTooLong (length name))
      else let packetLen = 9 + length name in
        if packetLen > MaxPacketBytes then Inl (DiscPacketTooLarge packetLen)
        else Inr (disc_header TypeQuery 0 name @ name))"

definition encode_announce_body :: "announce \<Rightarrow> disc_error + bytes" where
  "encode_announce_body a =
     (if length (an_name a) > DiscMaxNameLen then Inl (DiscNameTooLong (length (an_name a)))
      else case advertised_addr_bytes (an_advertised a) of
        Inl e \<Rightarrow> Inl e
      | Inr ip \<Rightarrow>
          let packetLen = announceNameOffset + length (an_name a) in
          if packetLen > MaxPacketBytes then Inl (DiscPacketTooLarge packetLen)
          else Inr (disc_header TypeAnnounce (an_tcp_port a) (an_name a) @ an_instance_id a @ ip @ an_name a))"

definition encode_announce :: "announce \<Rightarrow> disc_error + bytes" where
  "encode_announce a =
     (if an_tcp_port a \<le> 0 \<or> an_tcp_port a > 65535 then Inl (PortOutOfRange (an_tcp_port a))
      else case encode_announce_body a of
        Inl e \<Rightarrow> Inl e
      | Inr packet \<Rightarrow> Inr (if an_proto_version a \<noteq> 0 then packet @ [an_proto_version a] else packet))"

definition encode_announce_v2 :: "announce \<Rightarrow> disc_error + bytes" where
  "encode_announce_v2 a0 =
     (let a = (if an_proto_version a0 = 0 then a0\<lparr>an_proto_version := 2\<rparr> else a0) in
      case encode_announce a of
        Inl e \<Rightarrow> Inl e
      | Inr packet \<Rightarrow> Inr (packet[5 := TypeAnnounceV2]))"

definition decode_disc :: "bytes \<Rightarrow> disc_error + disc_message" where
  "decode_disc p =
     (if length p > MaxPacketBytes then Inl (DiscPacketTooLarge (length p))
      else if length p < 9 then Inl (DiscPacketTooShort (length p))
      else if take 4 p \<noteq> disc_magic then Inl DiscInvalidMagic
      else if p ! 4 \<noteq> 1 then Inl (DiscUnsupportedVersion (p ! 4))
      else if p ! 5 \<notin> {TypeQuery, TypeAnnounce, TypeAnnounceV2} then Inl (UnknownMessageType (p ! 5))
      else
        let tcpPort = (get_be (slice 6 8 p) :: u16); nameLen = unat (p ! 8) in
        if p ! 5 = TypeQuery then
          (let wantLen = 9 + nameLen in
           if length p \<noteq> wantLen then Inl (BadQueryLength (length p) wantLen)
           else if tcpPort \<noteq> 0 then Inl (QueryPortNotZero tcpPort)
           else Inr (Query (slice 9 wantLen p)))
        else if length p < announceNameOffset then Inl (AnnounceTooShort (length p) announceNameOffset)
        else
          let v2 = (p ! 5 = TypeAnnounceV2); wantLen = announceNameOffset + nameLen + (if v2 then 1 else 0) in
          if v2 \<and> length p < wantLen then Inl (AnnounceTooShort (length p) wantLen)
          else if length p \<noteq> wantLen then Inl (BadAnnounceLength (length p) wantLen)
          else if tcpPort = 0 then Inl AnnouncePortZero
          else
            let a = \<lparr>an_tcp_port = uint tcpPort, an_instance_id = slice 9 25 p,
                     an_advertised = V4 (p ! 25) (p ! 26) (p ! 27) (p ! 28),
                     an_name = slice announceNameOffset (announceNameOffset + nameLen) p,
                     an_proto_version = (if v2 then p ! (wantLen - 1) else 0)\<rparr>
            in Inr (if v2 then AnnounceV2 a else Announce a))"

section \<open>The packet format\<close>

text \<open>
  The specification of the format: what each message looks like on the wire, and which messages have
  a packet of their own.
\<close>

definition addr_bytes :: "addr \<Rightarrow> bytes" where
  "addr_bytes a = (case a of V4 p q r s \<Rightarrow> [p, q, r, s] | _ \<Rightarrow> [])"

definition disc_packet :: "disc_message \<Rightarrow> bytes" where
  "disc_packet m =
     (case m of
        Query n \<Rightarrow> disc_header TypeQuery 0 n @ n
      | Announce a \<Rightarrow> disc_header TypeAnnounce (an_tcp_port a) (an_name a) @ an_instance_id a @
          addr_bytes (an_advertised a) @ an_name a
      | AnnounceV2 a \<Rightarrow> disc_header TypeAnnounceV2 (an_tcp_port a) (an_name a) @ an_instance_id a @
          addr_bytes (an_advertised a) @ an_name a @ [an_proto_version a])"

definition announce_wf :: "announce \<Rightarrow> bool" where
  "announce_wf a \<longleftrightarrow> 0 < an_tcp_port a \<and> an_tcp_port a \<le> 65535 \<and> length (an_instance_id a) = 16 \<and>
     is4 (an_advertised a)"

definition disc_wf :: "disc_message \<Rightarrow> bool" where
  "disc_wf m \<longleftrightarrow>
     (case m of
        Query n \<Rightarrow> length n \<le> 255
      | Announce a \<Rightarrow> announce_wf a \<and> length (an_name a) \<le> 255 \<and> an_proto_version a = 0
      | AnnounceV2 a \<Rightarrow> announce_wf a \<and> length (an_name a) \<le> 254)"

lemma disc_header_fields [codec_simps]:
  "length (disc_header t port n) = 9" "take 4 (disc_header t port n) = disc_magic"
  "disc_header t port n ! 4 = 1" "disc_header t port n ! 5 = t"
  "slice 6 8 (disc_header t port n) = put_be 2 (word_of_int port :: u16)"
  "disc_header t port n ! 8 = word_of_nat (length n)"
  by (simp_all add: disc_header_def disc_magic_def codec_simps nth_append)

lemma is4_bytes:
  assumes "is4 a"
  obtains p q r s where "a = V4 p q r s" "addr_bytes a = [p, q, r, s]"
  using assms by (cases a) (auto simp: is4_def addr_bytes_def)

lemma port_word:
  assumes "0 < port" "port \<le> 65535"
  shows "(word_of_int port :: u16) \<noteq> 0" "uint (word_of_int port :: u16) = port"
proof -
  show u: "uint (word_of_int port :: u16) = port" using assms by (simp add: uint_word_of_int)
  show "(word_of_int port :: u16) \<noteq> 0" using u assms by auto
qed

lemma port_range: "w \<noteq> 0 \<Longrightarrow> 0 < uint w \<and> uint w \<le> 65535" for w :: u16
proof -
  assume "w \<noteq> 0"
  then have "0 < unat w" by (simp add: unat_gt_0)
  moreover have u: "uint w = int (unat w)" by simp
  ultimately show ?thesis using unat_bounds(2)[of w] unfolding u by linarith
qed

lemma decode_query_enc:
  "length n \<le> 255 \<Longrightarrow> decode_disc (disc_packet (Query n)) = Inr (Query n)"
  by (simp add: decode_disc_def disc_packet_def codec_simps nth_append get_put_be Let_def)

lemma decode_announce_enc:
  assumes "announce_wf a" "length (an_name a) \<le> (if v2 then 254 else 255)" "\<not> v2 \<Longrightarrow> an_proto_version a = 0"
  shows "decode_disc (disc_packet (if v2 then AnnounceV2 a else Announce a)) =
    Inr (if v2 then AnnounceV2 a else Announce a)"
proof -
  obtain p q r s where ip: "an_advertised a = V4 p q r s" "addr_bytes (an_advertised a) = [p, q, r, s]"
    using assms(1) by (auto simp: announce_wf_def elim: is4_bytes)
  have id: "length (an_instance_id a) = 16" using assms(1) by (simp add: announce_wf_def)
  have port: "(word_of_int (an_tcp_port a) :: u16) \<noteq> 0" "uint (word_of_int (an_tcp_port a) :: u16) = an_tcp_port a"
    using assms(1) port_word by (simp_all add: announce_wf_def)
  have n: "length (an_name a) < 256" using assms(2) by (simp split: if_splits)
  show ?thesis
    using assms(2,3) id port ip n
    by (cases v2; cases a)
      (simp_all add: decode_disc_def disc_packet_def codec_simps nth_append get_put_be Let_def)
qed

lemma header_glue:
  assumes "take 4 p = disc_magic" "p ! 4 = 1" "9 \<le> length p"
  shows "disc_magic @ [1, p ! 5] @ slice 6 8 p @ [p ! 8] = take 9 p"
proof -
  have "[p ! 4, p ! 5] = slice 4 6 p" "[p ! 8] = slice 8 9 p"
    using assms(3) slice_nth2[of 4 p] slice_nth[of 8 p] by simp_all
  then have "disc_magic @ [1, p ! 5] @ slice 6 8 p @ [p ! 8] = slice 0 4 p @ slice 4 6 p @ slice 6 8 p @ slice 8 9 p"
    using assms by (simp add: slice_from_0)
  also have "\<dots> = slice 0 9 p" using assms(3) by (simp add: slice_join)
  finally show ?thesis by (simp add: slice_from_0)
qed

lemma decode_disc_sound:
  assumes "decode_disc p = Inr m"
  shows "disc_wf m \<and> disc_packet m = p"
proof -
  let ?port = "get_be (slice 6 8 p) :: u16" and ?n = "unat (p ! 8)"
  from assms have len: "9 \<le> length p" "length p \<le> 284" and mg: "take 4 p = disc_magic" and v: "p ! 4 = 1"
    by (auto simp: decode_disc_def Let_def split: if_splits)
  have port: "put_be 2 ?port = slice 6 8 p" using len by (simp add: endian_simps)
  have nb: "?n \<le> 255" by (rule unat_bounds)
  have hdr: "disc_header (p ! 5) x b = take 9 p" if "word_of_int x = ?port" "length b = ?n" for x b
    using header_glue[OF mg v len(1)] that port by (simp add: disc_header_def)
  from assms len mg v consider
    (q) "p ! 5 = 1" "length p = 9 + ?n" "?port = 0" "m = Query (slice 9 (9 + ?n) p)"
  | (a) v2 where "p ! 5 = (if v2 then 3 else 2)" "length p = 29 + ?n + (if v2 then 1 else 0)" "?port \<noteq> 0"
      "m = (if v2 then AnnounceV2 else Announce) \<lparr>an_tcp_port = uint ?port, an_instance_id = slice 9 25 p,
         an_advertised = V4 (p ! 25) (p ! 26) (p ! 27) (p ! 28), an_name = slice 29 (29 + ?n) p,
         an_proto_version = (if v2 then p ! (29 + ?n) else 0)\<rparr>"
    unfolding decode_disc_def Let_def result_simps by (auto split: if_splits)
  then show ?thesis
  proof cases
    case q
    then have "disc_header 1 0 (slice 9 (9 + ?n) p) = take 9 p" using hdr[of 0] by simp
    moreover have "slice 9 (9 + ?n) p = drop 9 p" using q(2) by (metis slice_to_end)
    ultimately show ?thesis using q nb by (simp add: disc_wf_def disc_packet_def)
  next
    case a
    have pos: "0 < uint ?port \<and> uint ?port \<le> 65535"
      using a(3) by (rule port_range)
    have "[p ! 25, p ! 26] @ [p ! 27, p ! 28] = slice 25 29 p"
      using a(2) slice_nth2[of 25 p] slice_nth2[of 27 p] by (simp only: slice_join) (simp add: slice_join)
    then have ip4: "[p ! 25, p ! 26, p ! 27, p ! 28] = slice 25 29 p" by simp
    then have ip: "p ! 25 # p ! 26 # p ! 27 # p ! 28 # x = slice 25 29 p @ x" for x
      by (simp flip: ip4)
    have h: "disc_header (p ! 5) (uint ?port) (slice 29 (29 + ?n) p) = take 9 p"
      using a(2) by (intro hdr) simp_all
    have body: "take 9 p @ slice 9 25 p @ slice 25 29 p @ slice 29 (29 + ?n) p @ r = take (29 + ?n) p @ r" for r
      using a(2) by (simp add: slice_join_more flip: slice_from_0)
    have tail: "take (29 + ?n) p @ [p ! (29 + ?n)] = p" if "length p = 30 + ?n"
      using that take_Suc_conv_app_nth[of "29 + ?n" p] by simp
    show ?thesis
    proof (cases v2)
      case True
      then show ?thesis using a pos h body[of "[p ! (29 + ?n)]"] tail len
        by (simp add: disc_wf_def disc_packet_def announce_wf_def is4_def addr_bytes_def ip)
    next
      case False
      then show ?thesis using a pos h body[of "[]"] nb
        by (simp add: disc_wf_def disc_packet_def announce_wf_def is4_def addr_bytes_def ip)
    qed
  qed
qed

lemma decode_disc_enc: "disc_wf m \<Longrightarrow> decode_disc (disc_packet m) = Inr m"
  using decode_query_enc decode_announce_enc[where ?v2.0 = False] decode_announce_enc[where ?v2.0 = True]
  by (cases m) (auto simp: disc_wf_def)

interpretation disc: dgram_codec disc_packet decode_disc disc_wf
  by unfold_locales (simp_all add: decode_disc_enc decode_disc_sound)

section \<open>The encoders against the format\<close>

text \<open>The advertised address as it goes on the wire, if it has an IPv4 form.\<close>

definition wire_addr :: "addr \<Rightarrow> addr option" where
  "wire_addr a =
     (if a = NoAddr \<or> is_unspecified a then Some (V4 0 0 0 0)
      else if is4 (unmap a) then Some (unmap a) else None)"

lemma advertised_addr_bytes_wire:
  "advertised_addr_bytes a =
     (case wire_addr a of Some b \<Rightarrow> Inr (addr_bytes b) | None \<Rightarrow> Inl (AdvertisedNotIPv4 (unmap a)))"
  by (cases "unmap a")
    (auto simp: advertised_addr_bytes_def wire_addr_def is4_def addr_bytes_def)

lemma wire_addr_is4: "wire_addr a = Some b \<Longrightarrow> is4 b"
  by (auto simp: wire_addr_def is4_def split: if_splits)

definition announce_ok :: "announce \<Rightarrow> bool" where
  "announce_ok a \<longleftrightarrow> 0 < an_tcp_port a \<and> an_tcp_port a \<le> 65535 \<and> length (an_instance_id a) = 16 \<and>
     length (an_name a) \<le> 255 \<and> wire_addr (an_advertised a) \<noteq> None"

definition on_wire :: "announce \<Rightarrow> announce" where
  "on_wire a = a\<lparr>an_advertised := the (wire_addr (an_advertised a))\<rparr>"

lemma on_wire_wf: "announce_ok a \<Longrightarrow> announce_wf (on_wire a)"
  by (auto simp: announce_ok_def announce_wf_def on_wire_def intro: wire_addr_is4)

lemma encode_announce_packet:
  assumes "announce_ok a"
  shows "encode_announce a = Inr (disc_packet (Announce (on_wire a)) @
    (if an_proto_version a = 0 then [] else [an_proto_version a]))"
proof -
  obtain b where b: "wire_addr (an_advertised a) = Some b" using assms by (auto simp: announce_ok_def)
  show ?thesis using assms
    by (auto simp: encode_announce_def encode_announce_body_def advertised_addr_bytes_wire b announce_ok_def
        disc_packet_def on_wire_def Let_def)
qed

lemma header_type: "(disc_header t port n @ r)[5 := u] = disc_header u port n @ r"
  by (simp add: disc_header_def disc_magic_def)

lemma encode_announce_v2_packet:
  assumes "announce_ok a"
  shows "encode_announce_v2 a = Inr (disc_packet (AnnounceV2
    ((on_wire a)\<lparr>an_proto_version := (if an_proto_version a = 0 then 2 else an_proto_version a)\<rparr>)))"
proof -
  have "announce_ok (a\<lparr>an_proto_version := v\<rparr>)" for v using assms by (simp add: announce_ok_def)
  note e = encode_announce_packet[OF this] encode_announce_packet[OF assms]
  show ?thesis by (simp add: encode_announce_v2_def e disc_packet_def on_wire_def header_type Let_def)
qed

lemma disc_packet_length:
  assumes "announce_wf a"
  shows "length (disc_packet (Announce a)) = 29 + length (an_name a)"
    "length (disc_packet (AnnounceV2 a)) = 30 + length (an_name a)"
  using assms by (auto simp: disc_packet_def announce_wf_def codec_simps addr_bytes_def is4_def split: addr.splits)

section \<open>Properties of the packet format\<close>

text \<open>
  The discovery format is canonical: \<^verbatim>\<open>Decode\<close> accepts a packet exactly when it is, byte for byte,
  the layout of the message it returns; truncated, padded or altered packets are all refused.
\<close>

theorem discovery_canonical: "decode_disc p = Inr m \<longleftrightarrow> disc_wf m \<and> disc_packet m = p"
  by (rule disc.dec_iff)

text \<open>
  What the encoders emit for a valid announcement, and what becomes of it.  A plain announcement
  and a version-2 announcement whose name has at most 254 bytes are decoded to what was encoded, the
  address in its IPv4 form; but \<^verbatim>\<open>EncodeAnnounce\<close> with a protocol version, and \<^verbatim>\<open>EncodeAnnounceV2\<close>
  with a name of the full 255 bytes, return packets that \<^verbatim>\<open>Decode\<close> refuses.
\<close>

theorem announcements_decoded:
  assumes "announce_ok a"
  shows "(\<exists>p. encode_announce a = Inr p \<and>
      (if an_proto_version a = 0 then decode_disc p = Inr (Announce (on_wire a)) else \<exists>e. decode_disc p = Inl e)) \<and>
    (\<exists>p. encode_announce_v2 a = Inr p \<and>
      (if length (an_name a) \<le> 254
       then decode_disc p = Inr (AnnounceV2 ((on_wire a)\<lparr>an_proto_version :=
              (if an_proto_version a = 0 then 2 else an_proto_version a)\<rparr>))
       else \<exists>e. decode_disc p = Inl e))"
proof -
  note wf = on_wire_wf[OF assms]
  have n: "length (an_name a) \<le> 255" using assms by (simp add: announce_ok_def)
  have on: "an_name (on_wire a) = an_name a" "an_proto_version (on_wire a) = an_proto_version a"
    by (simp_all add: on_wire_def)
  let ?p = "disc_packet (Announce (on_wire a))"
  let ?v = "(on_wire a)\<lparr>an_proto_version := (if an_proto_version a = 0 then 2 else an_proto_version a)\<rparr>"
  have v: "announce_wf ?v" "an_name ?v = an_name a" using wf by (simp_all add: announce_wf_def on)
  have plain: "decode_disc ?p = Inr (Announce (on_wire a))" if "an_proto_version a = 0"
    using that wf n by (intro disc.dec_enc) (simp add: disc_wf_def on)
  have extra: "\<exists>e. decode_disc (?p @ [x]) = Inl e" for x
  proof (rule disc.dec_rejects, intro allI impI notI)
    fix m assume m: "disc_wf m" "disc_packet m = ?p @ [x]"
    have "?p @ [x] = (disc_header 2 (an_tcp_port (on_wire a)) (an_name a)) @ an_instance_id (on_wire a) @
        addr_bytes (an_advertised (on_wire a)) @ an_name a @ [x]" by (simp add: disc_packet_def on)
    then have t: "(?p @ [x]) ! 5 = 2" "(?p @ [x]) ! 8 = word_of_nat (length (an_name a))"
      by (simp_all add: nth_append codec_simps)
    have "disc_packet m ! 5 = 2" by (simp only: m(2) t(1))
    then obtain b where b: "m = Announce b"
      by (cases m) (auto simp: disc_packet_def nth_append codec_simps)
    have "disc_packet m ! 8 = word_of_nat (length (an_name a))" by (simp only: m(2) t(2))
    then have "word_of_nat (length (an_name b)) = (word_of_nat (length (an_name a)) :: u8)"
      using b by (simp add: disc_packet_def nth_append codec_simps)
    then have "length (an_name b) = length (an_name a)"
      using m(1) n b by (auto simp: disc_wf_def dest!: arg_cong[of _ _ unat])
    moreover have "length (disc_packet m) = 29 + length (an_name b)"
      using m(1) b by (simp add: disc_wf_def disc_packet_length)
    ultimately show False using m(2) disc_packet_length(1)[OF wf] by (simp add: on)
  qed
  have v2: "decode_disc (disc_packet (AnnounceV2 ?v)) = Inr (AnnounceV2 ?v)" if "length (an_name a) \<le> 254"
    using that v by (intro disc.dec_enc) (simp add: disc_wf_def on)
  have long: "\<exists>e. decode_disc (disc_packet (AnnounceV2 ?v)) = Inl e" if "\<not> length (an_name a) \<le> 254"
    using that disc_packet_length(2)[OF v(1)] v(2) by (simp add: decode_disc_def)
  show ?thesis
    using plain extra v2 long by (simp add: encode_announce_packet[OF assms] encode_announce_v2_packet[OF assms])
qed

definition demo_announce :: announce where
  "demo_announce = \<lparr>an_tcp_port = 47000, an_instance_id = replicate 16 7, an_advertised = NoAddr,
     an_name = [72, 105], an_proto_version = 0\<rparr>"

theorem announcements_decoded_witness:
  "\<exists>p. encode_announce demo_announce = Inr p \<and> decode_disc p = Inr (Announce (on_wire demo_announce))"
proof -
  have "announce_ok demo_announce" by (simp add: announce_ok_def demo_announce_def wire_addr_def)
  from announcements_decoded[OF this] show ?thesis by (simp add: demo_announce_def)
qed

end
