(* ===== verification/Finder.thy ===== *)
theory Finder
  imports Discovery "HOL-Library.List_Lexorder" "HOL-Library.Product_Lexorder" "HOL-Library.Char_ord"
    "HOL-Library.Multiset" "HOL-Library.AList"
begin

text \<open>
  Finding hosts on the LAN: the ports to try (\<^verbatim>\<open>ports.go\<close>), the broadcast targets (\<^verbatim>\<open>targets.go\<close>), the
  responder with its reply limiter (\<^verbatim>\<open>responder.go\<close>) and the collection of replies into a sorted list
  of peers (\<^verbatim>\<open>finder.go\<close>).  Sockets and clocks are events.  Go maps are association lists; the
  theorems show that the order a map is iterated in does not matter.
\<close>

section \<open>Ports\<close>

fun norm_ports_loop :: "int set \<Rightarrow> int list \<Rightarrow> int list \<Rightarrow> disc_error + int list" where
  "norm_ports_loop seen acc [] = Inr acc"
| "norm_ports_loop seen acc (p # ps) =
     (if p \<le> 0 \<or> p > 65535 then Inl (PortOutOfRange p)
      else if p \<in> seen then norm_ports_loop seen acc ps
      else norm_ports_loop (insert p seen) (acc @ [p]) ps)"

definition normalize_discovery_ports :: "int list \<Rightarrow> disc_error + int list" where
  "normalize_discovery_ports ports = (if ports = [] then Inl NoPorts else norm_ports_loop {} [] ports)"

definition DefaultPorts :: "int list" where "DefaultPorts = [47001, 48001, 49001]"

text \<open>\<open>binds p\<close> tells whether \<^verbatim>\<open>net.ListenUDP\<close> gets port \<open>p\<close>.\<close>

fun first_bound :: "(int \<Rightarrow> bool) \<Rightarrow> int list \<Rightarrow> disc_error + int" where
  "first_bound binds [] = Inl BindFailed"
| "first_bound binds (p # ps) = (if binds p then Inr p else first_bound binds ps)"

definition listen_first :: "(int \<Rightarrow> bool) \<Rightarrow> int list \<Rightarrow> disc_error + int" where
  "listen_first binds ports =
     (case normalize_discovery_ports ports of Inl e \<Rightarrow> Inl e | Inr ps \<Rightarrow> first_bound binds ps)"

lemma norm_ports_loop_spec:
  "norm_ports_loop seen acc ps = Inr r \<Longrightarrow> distinct acc \<Longrightarrow> seen = set acc \<Longrightarrow>
     distinct r \<and> set r = set acc \<union> set ps \<and> list_all (\<lambda>p. 0 < p \<and> p \<le> 65535) ps"
  by (induction seen acc ps rule: norm_ports_loop.induct) (auto split: if_splits)

lemma norm_ports_loop_total:
  "list_all (\<lambda>p. 0 < p \<and> p \<le> 65535) ps \<Longrightarrow> \<exists>r. norm_ports_loop seen acc ps = Inr r"
  by (induction seen acc ps rule: norm_ports_loop.induct) auto

lemma normalize_discovery_ports_ok:
  assumes "normalize_discovery_ports ports = Inr r"
  shows "distinct r" "set r = set ports" "r \<noteq> []" "\<forall>p \<in> set r. 0 < p \<and> p \<le> 65535"
proof -
  have ne: "ports \<noteq> []" and run: "norm_ports_loop {} [] ports = Inr r"
    using assms by (auto simp: normalize_discovery_ports_def split: if_splits)
  from norm_ports_loop_spec[OF run] have *: "distinct r \<and> set r = set ports \<and> list_all (\<lambda>p. 0 < p \<and> p \<le> 65535) ports"
    by simp
  then show "distinct r" "set r = set ports" "\<forall>p \<in> set r. 0 < p \<and> p \<le> 65535" by (auto simp: list_all_iff)
  then show "r \<noteq> []" using ne by auto
qed

section \<open>Targets\<close>

datatype iface_addr = IPNet bytes bytes | OtherAddr

record iface =
  if_up :: bool
  if_broadcast :: bool
  if_loopback :: bool
  if_addrs :: "iface_addr list option"

text \<open>\<^verbatim>\<open>IP.To4\<close>: a 4-byte address, or the tail of an IPv4-mapped 16-byte one.\<close>

definition to4 :: "bytes \<Rightarrow> bytes option" where
  "to4 ip = (if length ip = 4 then Some ip
     else if length ip = 16 \<and> take 12 ip = replicate 10 0 @ [255, 255] then Some (drop 12 ip) else None)"

definition addr_broadcast :: "iface_addr \<Rightarrow> addr list" where
  "addr_broadcast a =
     (case a of
        OtherAddr \<Rightarrow> []
      | IPNet ip msk \<Rightarrow>
          (case to4 ip of
             None \<Rightarrow> []
           | Some b \<Rightarrow>
               if length msk \<noteq> 4 then []
               else let r = (\<lambda>i. b ! i OR NOT (msk ! i)); bc = V4 (r 0) (r 1) (r 2) (r 3)
                 in if is_unspecified bc then [] else [bc]))"

definition interface_broadcast_addrs :: "iface list option \<Rightarrow> addr list" where
  "interface_broadcast_addrs ifaces =
     (case ifaces of
        None \<Rightarrow> []
      | Some ifs \<Rightarrow> concat (map (\<lambda>i.
          if \<not> if_up i \<or> \<not> if_broadcast i \<or> if_loopback i then []
          else case if_addrs i of None \<Rightarrow> [] | Some addrs \<Rightarrow> concat (map addr_broadcast addrs)) ifs))"

fun add_unseen :: "'a list \<Rightarrow> 'a list \<Rightarrow> 'a list" where
  "add_unseen acc [] = acc"
| "add_unseen acc (x # xs) = add_unseen (if x \<in> set acc then acc else acc @ [x]) xs"

definition discovery_targets :: "addr list \<Rightarrow> int \<Rightarrow> (addr \<times> u16) list" where
  "discovery_targets bcast port =
     map (\<lambda>a. (a, word_of_int port))
       (add_unseen [] (filter is4 (V4 127 0 0 1 # V4 255 255 255 255 # bcast)))"

definition discovery_targets_for_ports :: "addr list \<Rightarrow> int list \<Rightarrow> (addr \<times> u16) list" where
  "discovery_targets_for_ports bcast ports =
     add_unseen [] (concat (map (discovery_targets bcast) ports))"

lemma add_unseen_set: "set (add_unseen acc xs) = set acc \<union> set xs"
  by (induction acc xs rule: add_unseen.induct) auto

lemma add_unseen_distinct: "distinct acc \<Longrightarrow> distinct (add_unseen acc xs)"
  by (induction acc xs rule: add_unseen.induct) auto

section \<open>The responder\<close>

abbreviation (input) announceReplyInterval :: int where "announceReplyInterval \<equiv> 20000000"
abbreviation (input) announceReplyBurst :: int where "announceReplyBurst \<equiv> 16"

record reply_limiter =
  rl_tokens :: int
  rl_last :: "int option"

definition new_reply_rate_limiter :: "int \<Rightarrow> reply_limiter" where
  "new_reply_rate_limiter now = \<lparr>rl_tokens = announceReplyBurst, rl_last = Some now\<rparr>"

definition limiter_allow :: "int \<Rightarrow> reply_limiter \<Rightarrow> bool \<times> reply_limiter" where
  "limiter_allow now l0 =
     (let l = (case rl_last l0 of
                 None \<Rightarrow> \<lparr>rl_tokens = announceReplyBurst, rl_last = Some now\<rparr>
               | Some _ \<Rightarrow> l0);
          elapsed = now - the (rl_last l);
          l1 = (if elapsed \<ge> announceReplyInterval
                then let t = rl_tokens l + elapsed sdiv announceReplyInterval
                  in \<lparr>rl_tokens = (if t > announceReplyBurst then announceReplyBurst else t), rl_last = Some now\<rparr>
                else l)
      in if rl_tokens l1 \<le> 0 then (False, l1) else (True, l1\<lparr>rl_tokens := rl_tokens l1 - 1\<rparr>))"

text \<open>
  One turn of the responder's loop: what arrived when.  The result is the reply, if any, and the
  limiter; \<^verbatim>\<open>None\<close> for the state ends the loop.
\<close>

datatype responder_event = RespPacket bytes int | RespTimeout | RespError

definition responder_turn :: "bytes \<Rightarrow> responder_event \<Rightarrow> reply_limiter \<Rightarrow> bytes option \<times> reply_limiter option" where
  "responder_turn ann e l =
     (case e of
        RespTimeout \<Rightarrow> (None, Some l)
      | RespError \<Rightarrow> (None, None)
      | RespPacket p now \<Rightarrow>
          (case decode_disc p of
             Inr (Query _) \<Rightarrow>
               (let (ok, l1) = limiter_allow now l in (if ok then Some ann else None, Some l1))
           | _ \<Rightarrow> (None, Some l)))"

fun responder_loop :: "bytes \<Rightarrow> responder_event list \<Rightarrow> reply_limiter \<Rightarrow> (int \<times> bytes) list" where
  "responder_loop ann [] l = []"
| "responder_loop ann (e # es) l =
     (let (reply, l1) = responder_turn ann e l;
          out = (case (e, reply) of (RespPacket _ now, Some r) \<Rightarrow> [(now, r)] | _ \<Rightarrow> [])
      in out @ (case l1 of None \<Rightarrow> [] | Some l2 \<Rightarrow> responder_loop ann es l2))"

section \<open>Peers\<close>

abbreviation (input) MaxPeerInstances :: nat where "MaxPeerInstances \<equiv> 128"

record peer_instance =
  pi_id :: bytes
  pi_name :: bytes
  pi_port :: int
  pi_advertised :: addr
  pi_addrs :: "addr list"

record peer =
  pe_id :: bytes
  pe_name :: bytes
  pe_addr :: string
  pe_addrs :: "string list"

definition normalize_advertised :: "addr \<Rightarrow> addr" where
  "normalize_advertised a = (if a = NoAddr then V4 0 0 0 0 else unmap a)"

definition is_specified :: "addr \<Rightarrow> bool" where
  "is_specified a = (let b = normalize_advertised a in b \<noteq> NoAddr \<and> is4 b \<and> \<not> is_unspecified b)"

definition add_peer_instance ::
  "announce \<Rightarrow> addr \<Rightarrow> (bytes \<times> peer_instance) list \<Rightarrow> (bytes \<times> peer_instance) list" where
  "add_peer_instance a src insts =
     (let key = an_instance_id a;
          note = (\<lambda>i. i\<lparr>pi_addrs := List.insert (unmap src) (pi_addrs i)\<rparr>)
      in case map_of insts key of
           None \<Rightarrow>
             if length insts \<ge> MaxPeerInstances then insts
             else insts @ [(key, note \<lparr>pi_id = key, pi_name = an_name a, pi_port = an_tcp_port a,
                                      pi_advertised = normalize_advertised (an_advertised a), pi_addrs = []\<rparr>)]
         | Some i \<Rightarrow>
             let i1 = (if \<not> is_specified (pi_advertised i) \<and> is_specified (an_advertised a)
                       then i\<lparr>pi_advertised := normalize_advertised (an_advertised a)\<rparr> else i)
             in AList.update key (note i1) insts)"

definition peer_addr_preference :: "addr \<Rightarrow> nat" where
  "peer_addr_preference a0 =
     (let a = unmap a0 in
      if is4 a \<and> \<not> is_loopback a \<and> \<not> is_link_local_unicast a then 0
      else if \<not> is_loopback a \<and> \<not> is_link_local_unicast a then 1
      else if \<not> is_loopback a then 2 else 3)"

text \<open>
  \<^verbatim>\<open>Addr.String\<close>: the dotted quad of an IPv4 address; \<open>str6\<close> prints the others.
\<close>

definition addr_string :: "(addr \<Rightarrow> string) \<Rightarrow> addr \<Rightarrow> string" where
  "addr_string str6 a =
     (case a of
        V4 p q r s \<Rightarrow> show_nat (unat p) @ ''.'' @ show_nat (unat q) @ ''.'' @ show_nat (unat r) @ ''.'' @
                      show_nat (unat s)
      | _ \<Rightarrow> str6 a)"

definition join_host_port :: "string \<Rightarrow> int \<Rightarrow> string" where
  "join_host_port h p =
     (if CHR '':'' \<in> set h then ''['' @ h @ '']:'' @ show_nat (nat p) else h @ '':'' @ show_nat (nat p))"

definition sorted_peer_addrs :: "(addr \<Rightarrow> string) \<Rightarrow> peer_instance \<Rightarrow> addr list" where
  "sorted_peer_addrs str6 i =
     sort_key (\<lambda>a. (peer_addr_preference a, addr_string str6 a)) (pi_addrs i)"

definition peer_connect_addr :: "(addr \<Rightarrow> string) \<Rightarrow> peer_instance \<Rightarrow> addr list \<Rightarrow> string" where
  "peer_connect_addr str6 i addrs =
     (if is_specified (pi_advertised i) then join_host_port (addr_string str6 (pi_advertised i)) (pi_port i)
      else join_host_port (addr_string str6 (hd addrs)) (pi_port i))"

definition instance_peer :: "(addr \<Rightarrow> string) \<Rightarrow> peer_instance \<Rightarrow> peer option" where
  "instance_peer str6 i =
     (let addrs = sorted_peer_addrs str6 i in
      if addrs = [] then None
      else Some \<lparr>pe_id = pi_id i, pe_name = pi_name i, pe_addr = peer_connect_addr str6 i addrs,
                 pe_addrs = map (\<lambda>a. join_host_port (addr_string str6 a) (pi_port i)) addrs\<rparr>)"

definition peer_instances_to_peers :: "(addr \<Rightarrow> string) \<Rightarrow> (bytes \<times> peer_instance) list \<Rightarrow> peer list" where
  "peer_instances_to_peers str6 insts =
     sort_key (\<lambda>p. (pe_name p, pe_addr p, pe_id p)) (List.map_filter (\<lambda>(_, i). instance_peer str6 i) insts)"

text \<open>
  The receive loop of \<^verbatim>\<open>FindPorts\<close>, one event per turn: the caller's context was cancelled, the deadline
  passed, a datagram arrived, the read timed out, the socket was closed (with or without the context
  cancelled) or failed.
\<close>

datatype find_event = FindCancelled | FindDeadline | FindPacket bytes addr | FindTimeout
  | FindClosed bool | FindFailed

datatype find_error = FindCtxError | FindReadError | FindSetup disc_error | FindBadTimeout

fun find_loop :: "(addr \<Rightarrow> string) \<Rightarrow> find_event list \<Rightarrow> (bytes \<times> peer_instance) list \<Rightarrow> find_error + peer list" where
  "find_loop str6 [] insts = Inr (peer_instances_to_peers str6 insts)"
| "find_loop str6 (e # es) insts =
     (case e of
        FindCancelled \<Rightarrow> Inl FindCtxError
      | FindDeadline \<Rightarrow> Inr (peer_instances_to_peers str6 insts)
      | FindTimeout \<Rightarrow> find_loop str6 es insts
      | FindFailed \<Rightarrow> Inl FindReadError
      | FindClosed cancelled \<Rightarrow>
          let peers = peer_instances_to_peers str6 insts in
          if peers \<noteq> [] then Inr peers else if cancelled then Inl FindCtxError else Inr []
      | FindPacket p src \<Rightarrow>
          (case decode_disc p of
             Inr (Announce a) \<Rightarrow> find_loop str6 es (add_peer_instance a src insts)
           | _ \<Rightarrow> find_loop str6 es insts))"

definition find_ports :: "(addr \<Rightarrow> string) \<Rightarrow> int list \<Rightarrow> int \<Rightarrow> bytes \<Rightarrow> find_event list \<Rightarrow> find_error + peer list" where
  "find_ports str6 ports timeout name es =
     (case normalize_discovery_ports ports of
        Inl e \<Rightarrow> Inl (FindSetup e)
      | Inr ps \<Rightarrow>
          if timeout \<le> 0 then Inl FindBadTimeout
          else case encode_query name of
            Inl e \<Rightarrow> Inl (FindSetup e)
          | Inr _ \<Rightarrow> find_loop str6 es [])"

section \<open>The reply limiter\<close>

fun event_times :: "responder_event list \<Rightarrow> int list" where
  "event_times [] = []"
| "event_times (RespPacket p now # es) = now # event_times es"
| "event_times (e # es) = event_times es"

definition limiter_inv :: "int \<Rightarrow> reply_limiter \<Rightarrow> bool" where
  "limiter_inv t l \<longleftrightarrow> 0 \<le> rl_tokens l \<and> rl_tokens l \<le> 16 \<and> (\<exists>u. rl_last l = Some u \<and> u \<le> t)"

text \<open>What replies up to time \<open>T\<close> the limiter can still grant.\<close>

definition budget :: "int \<Rightarrow> reply_limiter \<Rightarrow> int" where
  "budget T l = rl_tokens l + (T - the (rl_last l)) div announceReplyInterval"

lemma div_superadditive: "0 < k \<Longrightarrow> a div k + b div k \<le> (a + b) div (k :: int)"
proof -
  assume k: "0 < k"
  have le: "x div k * k \<le> x" for x using pos_mod_sign[OF k, of x] minus_mod_eq_div_mult[of x k] by linarith
  have "(a div k + b div k) * k \<le> a + b" using le[of a] le[of b] by (simp add: distrib_right)
  then have "(a div k + b div k) * k div k \<le> (a + b) div k" using k by (rule zdiv_mono1)
  then show ?thesis using k by simp
qed

lemma limiter_allow_spec:
  assumes "limiter_inv now l" "now \<le> T" "limiter_allow now l = (ok, l1)"
  shows "limiter_inv now l1 \<and> (if ok then 1 else 0) + budget T l1 \<le> budget T l"
proof -
  obtain u where u: "rl_last l = Some u" "u \<le> now" using assms(1) by (auto simp: limiter_inv_def)
  have t: "0 \<le> rl_tokens l" "rl_tokens l \<le> 16" using assms(1) by (simp_all add: limiter_inv_def)
  show ?thesis
  proof (cases "now - u \<ge> announceReplyInterval")
    case True
    have "1 \<le> (now - u) div announceReplyInterval"
      using True zdiv_mono1[of announceReplyInterval "now - u" announceReplyInterval] by simp
    moreover have "(now - u) div announceReplyInterval + (T - now) div announceReplyInterval \<le>
        (T - u) div announceReplyInterval"
      using div_superadditive[of announceReplyInterval "now - u" "T - now"] by simp
    ultimately show ?thesis using True u t assms(3)
      by (auto simp: limiter_allow_def Let_def limiter_inv_def budget_def split: if_splits)
  next
    case False
    then show ?thesis using u t assms(3)
      by (auto simp: limiter_allow_def Let_def limiter_inv_def budget_def split: if_splits)
  qed
qed

lemma responder_loop_budget:
  assumes "limiter_inv t l" "sorted (t # event_times es)" "\<forall>x \<in> set (event_times es). x \<le> T" "t \<le> T"
  shows "int (length (responder_loop ann es l)) \<le> budget T l \<and> 0 \<le> budget T l"
  using assms
proof (induction ann es l arbitrary: t rule: responder_loop.induct)
  case (1 ann l)
  then show ?case by (auto simp: budget_def limiter_inv_def pos_imp_zdiv_nonneg_iff)
next
  case (2 ann e es l)
  have now: "0 \<le> budget T l" using "2.prems" by (auto simp: budget_def limiter_inv_def pos_imp_zdiv_nonneg_iff)
  show ?case
  proof (cases e)
    case (RespPacket p now)
    have inv: "limiter_inv now l" using "2.prems"(1,2) RespPacket by (auto simp: limiter_inv_def intro: order_trans)
    have rest: "sorted (now # event_times es)" "\<forall>x \<in> set (event_times es). x \<le> T" "now \<le> T"
      using "2.prems"(2,3) RespPacket by simp_all
    show ?thesis
    proof (cases "\<exists>n. decode_disc p = Inr (Query n)")
      case True
      obtain ok l1 where a: "limiter_allow now l = (ok, l1)" by fastforce
      have turn: "responder_turn ann e l = (if ok then Some ann else None, Some l1)"
        using True a RespPacket by (auto simp: responder_turn_def)
      note spec = limiter_allow_spec[OF inv rest(3) a]
      have "int (length (responder_loop ann es l1)) \<le> budget T l1 \<and> 0 \<le> budget T l1"
        using spec rest by (intro "2.IH"[OF turn[symmetric] _ refl, where t = now]) (auto simp: RespPacket)
      then show ?thesis using spec turn now RespPacket by (auto split: if_splits)
    next
      case False
      then have turn: "responder_turn ann e l = (None, Some l)"
        using RespPacket by (auto simp: responder_turn_def split: sum.split disc_message.split)
      have "int (length (responder_loop ann es l)) \<le> budget T l \<and> 0 \<le> budget T l"
        using inv rest by (intro "2.IH"[OF turn[symmetric] _ refl, where t = now]) (auto simp: RespPacket)
      then show ?thesis using turn RespPacket by simp
    qed
  next
    case RespTimeout
    then have turn: "responder_turn ann e l = (None, Some l)" by (simp add: responder_turn_def)
    have "int (length (responder_loop ann es l)) \<le> budget T l \<and> 0 \<le> budget T l"
      using "2.prems" RespTimeout by (intro "2.IH"[OF turn[symmetric] _ refl, where t = t]) auto
    then show ?thesis using turn RespTimeout by simp
  next
    case RespError
    then show ?thesis using now by (simp add: responder_turn_def)
  qed
qed

section \<open>The collected instances\<close>

definition instances_inv :: "(bytes \<times> peer_instance) list \<Rightarrow> bool" where
  "instances_inv insts \<longleftrightarrow> length insts \<le> MaxPeerInstances \<and> distinct (map fst insts) \<and>
     (\<forall>(k, i) \<in> set insts. pi_id i = k \<and> pi_addrs i \<noteq> [] \<and> distinct (pi_addrs i))"

lemma update_present:
  "map_of xs k = Some v \<Longrightarrow> map fst (AList.update k w xs) = map fst xs"
  by (induction xs) auto

lemma update_entries: "set (AList.update k v xs) \<subseteq> insert (k, v) (set xs)"
  by (induction xs) auto

lemma add_peer_instance_inv:
  assumes "instances_inv insts"
  shows "instances_inv (add_peer_instance a src insts) \<and>
    fst ` set (add_peer_instance a src insts) \<subseteq> insert (an_instance_id a) (fst ` set insts)"
proof (cases "map_of insts (an_instance_id a)")
  case None
  define j where "j = \<lparr>pi_id = an_instance_id a, pi_name = an_name a, pi_port = an_tcp_port a,
    pi_advertised = normalize_advertised (an_advertised a), pi_addrs = [unmap src]\<rparr>"
  have e: "add_peer_instance a src insts =
      (if length insts \<ge> MaxPeerInstances then insts else insts @ [(an_instance_id a, j)])"
    by (simp add: add_peer_instance_def Let_def None j_def)
  have "an_instance_id a \<notin> fst ` set insts" using None by (simp add: map_of_eq_None_iff)
  then show ?thesis using assms by (auto simp: e instances_inv_def j_def)
next
  case (Some i)
  have i: "pi_id i = an_instance_id a" "distinct (pi_addrs i)"
    using assms map_of_SomeD[OF Some] by (auto simp: instances_inv_def)
  define j where "j = (if \<not> is_specified (pi_advertised i) \<and> is_specified (an_advertised a)
    then i\<lparr>pi_advertised := normalize_advertised (an_advertised a)\<rparr> else i)\<lparr>pi_addrs := List.insert (unmap src) (pi_addrs i)\<rparr>"
  have e: "add_peer_instance a src insts = AList.update (an_instance_id a) j insts"
    using Some by (simp add: add_peer_instance_def Let_def j_def)
  have "pi_id j = an_instance_id a \<and> pi_addrs j \<noteq> [] \<and> distinct (pi_addrs j)"
    using i by (auto simp: j_def List.insert_def)
  then have "\<forall>(k, i) \<in> set (AList.update (an_instance_id a) j insts). pi_id i = k \<and> pi_addrs i \<noteq> [] \<and> distinct (pi_addrs i)"
    using assms update_entries[of "an_instance_id a" j insts] by (fastforce simp: instances_inv_def)
  moreover note keys = update_present[OF Some, of j]
  moreover have "length (AList.update (an_instance_id a) j insts) = length insts"
    using keys by (metis length_map)
  moreover have "fst ` set (AList.update (an_instance_id a) j insts) = fst ` set insts"
    using keys by (metis list.set_map)
  ultimately show ?thesis using assms by (auto simp: e instances_inv_def)
qed

definition peer_key :: "peer \<Rightarrow> bytes \<times> string \<times> bytes" where
  "peer_key p = (pe_name p, pe_addr p, pe_id p)"

lemma peers_eq: "peer_instances_to_peers str6 insts =
    sort_key peer_key (List.map_filter (\<lambda>(_, i). instance_peer str6 i) insts)"
  by (simp add: peer_instances_to_peers_def peer_key_def[abs_def])

lemma instance_peer_Some:
  assumes "pi_addrs i \<noteq> []"
  shows "\<exists>p. instance_peer str6 i = Some p \<and> pe_id p = pi_id i \<and> pe_addrs p \<noteq> []"
proof -
  have "sorted_peer_addrs str6 i \<noteq> []"
    using assms length_sort[of _ "pi_addrs i"] by (metis sorted_peer_addrs_def length_0_conv)
  then show ?thesis by (simp add: instance_peer_def Let_def)
qed

lemma map_filter_peers:
  assumes "\<forall>(k, i) \<in> set insts. pi_id i = k \<and> pi_addrs i \<noteq> []"
  shows "map pe_id (List.map_filter (\<lambda>(_, i). instance_peer str6 i) insts) = map fst insts \<and>
    list_all (\<lambda>p. pe_addrs p \<noteq> []) (List.map_filter (\<lambda>(_, i). instance_peer str6 i) insts)"
  using assms
proof (induction insts)
  case (Cons x insts)
  obtain k i where x: "x = (k, i)" by fastforce
  then obtain p where "instance_peer str6 i = Some p" "pe_id p = k" "pe_addrs p \<noteq> []"
    using Cons.prems instance_peer_Some[of i str6] by auto
  then show ?case using Cons by (simp add: x List.map_filter_simps)
qed (simp add: List.map_filter_simps)

lemma peers_of_instances:
  assumes "instances_inv insts"
  shows "length (peer_instances_to_peers str6 insts) = length insts \<and>
    distinct (map pe_id (peer_instances_to_peers str6 insts)) \<and>
    sorted (map peer_key (peer_instances_to_peers str6 insts)) \<and>
    list_all (\<lambda>p. pe_addrs p \<noteq> []) (peer_instances_to_peers str6 insts) \<and>
    pe_id ` set (peer_instances_to_peers str6 insts) = fst ` set insts"
proof -
  let ?ps = "List.map_filter (\<lambda>(_, i). instance_peer str6 i) insts"
  have m: "map pe_id ?ps = map fst insts" "list_all (\<lambda>p. pe_addrs p \<noteq> []) ?ps"
    using map_filter_peers[of insts str6] assms by (auto simp: instances_inv_def)
  have "mset (map pe_id (sort_key peer_key ?ps)) = mset (map pe_id ?ps)" by simp
  then have "distinct (map pe_id (sort_key peer_key ?ps))"
    using m(1) assms mset_eq_imp_distinct_iff[of "map pe_id (sort_key peer_key ?ps)" "map pe_id ?ps"]
    by (simp add: instances_inv_def)
  moreover have "length ?ps = length insts" using m(1) by (metis length_map)
  moreover have "pe_id ` set ?ps = fst ` set insts" using m(1) by (metis list.set_map)
  ultimately show ?thesis using m(2) by (simp add: peers_eq list_all_iff)
qed

text \<open>The announcements a list of events brings.\<close>

fun announced :: "find_event list \<Rightarrow> announce list" where
  "announced [] = []"
| "announced (FindPacket p src # es) =
     (case decode_disc p of Inr (Announce a) \<Rightarrow> a # announced es | _ \<Rightarrow> announced es)"
| "announced (e # es) = announced es"

definition peers_from :: "(addr \<Rightarrow> string) \<Rightarrow> bytes set \<Rightarrow> peer list \<Rightarrow> bool" where
  "peers_from str6 ids peers \<longleftrightarrow> peers = [] \<or>
     (\<exists>fin. instances_inv fin \<and> peers = peer_instances_to_peers str6 fin \<and> fst ` set fin \<subseteq> ids)"

lemma peers_from_mono: "peers_from str6 ids peers \<Longrightarrow> ids \<subseteq> ids' \<Longrightarrow> peers_from str6 ids' peers"
  unfolding peers_from_def by (elim disjE exE conjE) (simp, rule disjI2, intro exI conjI, assumption+, rule subset_trans)

lemma peers_from_now: "instances_inv insts \<Longrightarrow> fst ` set insts \<subseteq> ids \<Longrightarrow>
    peers_from str6 ids (peer_instances_to_peers str6 insts)"
  unfolding peers_from_def by blast

lemma find_loop_instances:
  assumes "find_loop str6 es insts = Inr peers" "instances_inv insts"
  shows "peers_from str6 (fst ` set insts \<union> an_instance_id ` set (announced es)) peers"
  using assms
proof (induction es arbitrary: insts)
  case Nil
  then show ?case by (auto intro: peers_from_now)
next
  case (Cons e es)
  show ?case
  proof (cases e)
    case (FindPacket p src)
    show ?thesis
    proof (cases "\<exists>a. decode_disc p = Inr (Announce a)")
      case True
      then obtain a where a: "decode_disc p = Inr (Announce a)" by blast
      note inv = add_peer_instance_inv[OF Cons.prems(2), of a src]
      have "find_loop str6 es (add_peer_instance a src insts) = Inr peers"
        using Cons.prems(1) FindPacket a by simp
      note ih = Cons.IH[OF this conjunct1[OF inv]]
      have "fst ` set (add_peer_instance a src insts) \<union> an_instance_id ` set (announced es) \<subseteq>
          fst ` set insts \<union> an_instance_id ` set (announced (e # es))"
        using conjunct2[OF inv] FindPacket a by auto
      with ih show ?thesis by (rule peers_from_mono)
    next
      case False
      then have "find_loop str6 es insts = Inr peers" "announced (e # es) = announced es"
        using Cons.prems(1) FindPacket by (auto split: sum.splits disc_message.splits)
      then show ?thesis using Cons.IH[OF _ Cons.prems(2)] by simp
    qed
  next
    case FindTimeout
    then show ?thesis using Cons by simp
  qed (use Cons.prems in \<open>auto simp: Let_def intro: peers_from_now peers_from_def[THEN iffD2] split: if_splits\<close>)
qed

section \<open>The order of a map's iteration does not matter\<close>

definition same_instance :: "bytes \<times> peer_instance \<Rightarrow> bytes \<times> peer_instance \<Rightarrow> bool" where
  "same_instance x y \<longleftrightarrow> fst x = fst y \<and> (snd x)\<lparr>pi_addrs := []\<rparr> = (snd y)\<lparr>pi_addrs := []\<rparr> \<and>
     mset (pi_addrs (snd x)) = mset (pi_addrs (snd y))"

lemma sort_key_mset:
  assumes "mset xs = mset ys" "inj_on f (set xs)"
  shows "sort_key f xs = sort_key f ys"
proof (rule properties_for_sort_key)
  show "mset (sort_key f ys) = mset xs" using assms(1) by simp
next
  fix k assume "k \<in> set (sort_key f ys)"
  have s: "set ys = set xs" using assms(1) by (metis set_mset_mset)
  have eq: "filter (\<lambda>x. f k = f x) zs = replicate (count (mset zs) k) k" if "set zs = set xs" for zs
  proof -
    have "k \<in> set xs" using \<open>k \<in> set (sort_key f ys)\<close> s by simp
    then have "filter (\<lambda>x. f k = f x) zs = filter (\<lambda>x. k = x) zs"
      using assms(2) that by (intro filter_cong[OF refl]) (auto dest: inj_onD)
    then show ?thesis by (simp add: replicate_count_mset_eq_filter_eq)
  qed
  show "filter (\<lambda>x. f k = f x) (sort_key f ys) = filter (\<lambda>x. f k = f x) xs"
    using eq[of xs] eq[of "sort_key f ys"] s assms(1) by simp
qed simp

lemma split_at_sep:
  "c \<notin> set a \<Longrightarrow> c \<notin> set b \<Longrightarrow> a @ c # x = b @ c # y \<Longrightarrow> a = b \<and> x = y"
proof (induction a arbitrary: b)
  case Nil
  then show ?case by (cases b) auto
next
  case (Cons h a)
  then show ?case by (cases b) auto
qed

lemma show_nat_inj: "show_nat m = show_nat n \<Longrightarrow> m = n"
  by (metis digits_val_show)

lemma dot_not_digit: "CHR ''.'' \<notin> set (show_nat n)"
  using is_digit_show[of n] by (auto simp: list_all_iff is_digit_def)

lemma addr_string_inj: "is4 a \<Longrightarrow> is4 b \<Longrightarrow> addr_string str6 a = addr_string str6 b \<Longrightarrow> a = b"
proof -
  assume 4: "is4 a" "is4 b" and eq: "addr_string str6 a = addr_string str6 b"
  obtain p q r s where a: "a = V4 p q r s" using 4(1) by (cases a) (auto simp: is4_def)
  obtain p' q' r' s' where b: "b = V4 p' q' r' s'" using 4(2) by (cases b) (auto simp: is4_def)
  from eq have 1: "show_nat (unat p) = show_nat (unat p')"
    "show_nat (unat q) @ ''.'' @ show_nat (unat r) @ ''.'' @ show_nat (unat s) =
     show_nat (unat q') @ ''.'' @ show_nat (unat r') @ ''.'' @ show_nat (unat s')"
    using split_at_sep[OF dot_not_digit dot_not_digit] by (fastforce simp: a b addr_string_def)+
  from 1(2) have 2: "show_nat (unat q) = show_nat (unat q')"
    "show_nat (unat r) @ ''.'' @ show_nat (unat s) = show_nat (unat r') @ ''.'' @ show_nat (unat s')"
    using split_at_sep[OF dot_not_digit dot_not_digit] by fastforce+
  from 2(2) have 3: "show_nat (unat r) = show_nat (unat r')" "show_nat (unat s) = show_nat (unat s')"
    using split_at_sep[OF dot_not_digit dot_not_digit] by fastforce+
  show "a = b" using 1(1) 2(1) 3 show_nat_inj by (auto simp: a b word_eq_unat)
qed

lemma same_instance_peer:
  assumes "same_instance x y" "\<forall>a \<in> set (pi_addrs (snd x)). is4 a"
  shows "instance_peer str6 (snd x) = instance_peer str6 (snd y)"
proof -
  let ?i = "snd x" and ?j = "snd y"
  have e: "?i\<lparr>pi_addrs := []\<rparr> = ?j\<lparr>pi_addrs := []\<rparr>" using assms(1) by (simp add: same_instance_def)
  have f: "pi_id ?i = pi_id ?j" "pi_name ?i = pi_name ?j" "pi_port ?i = pi_port ?j" "pi_advertised ?i = pi_advertised ?j"
    using arg_cong[OF e, of pi_id] arg_cong[OF e, of pi_name] arg_cong[OF e, of pi_port]
      arg_cong[OF e, of pi_advertised] by simp_all
  have "inj_on (\<lambda>a. (peer_addr_preference a, addr_string str6 a)) (set (pi_addrs ?i))"
    using assms(2) addr_string_inj by (fastforce simp: inj_on_def)
  then have "sorted_peer_addrs str6 ?i = sorted_peer_addrs str6 ?j"
    unfolding sorted_peer_addrs_def using assms(1) by (intro sort_key_mset) (simp_all add: same_instance_def)
  then show ?thesis by (simp add: instance_peer_def peer_connect_addr_def f Let_def)
qed

lemma same_instances_peers:
  assumes "list_all2 same_instance xs ys" "\<forall>x \<in> set xs. \<forall>a \<in> set (pi_addrs (snd x)). is4 a"
  shows "List.map_filter (\<lambda>(_, i). instance_peer str6 i) xs = List.map_filter (\<lambda>(_, i). instance_peer str6 i) ys"
  using assms
proof (induction rule: list_all2_induct)
  case Nil
  then show ?case by simp
next
  case (Cons x xs y ys)
  have "instance_peer str6 (snd x) = instance_peer str6 (snd y)"
    by (rule same_instance_peer[OF Cons(1)]) (use Cons.prems in simp)
  then show ?case using Cons by (cases x; cases y) (simp add: List.map_filter_simps split: option.split)
qed

lemma map_filter_mset:
  "mset xs = mset ys \<Longrightarrow> mset (List.map_filter f xs) = mset (List.map_filter f ys)"
  by (simp add: List.map_filter_def)

section \<open>Properties\<close>

text \<open>
  Searching terminates with at most 128 peers, one per instance, in the order of name, address
  and instance id; each has an address to connect to and comes from an announcement that was
  received and accepted by the decoder.
\<close>

theorem find_result:
  assumes "find_ports str6 ports timeout name es = Inr peers"
  shows "length peers \<le> 128 \<and> distinct (map pe_id peers) \<and> sorted (map peer_key peers) \<and>
    list_all (\<lambda>p. pe_addrs p \<noteq> []) peers \<and> pe_id ` set peers \<subseteq> an_instance_id ` set (announced es)"
proof -
  have "find_loop str6 es [] = Inr peers"
    using assms by (auto simp: find_ports_def split: sum.splits if_splits)
  then consider (none) "peers = []"
    | (some) fin where "instances_inv fin" "peers = peer_instances_to_peers str6 fin"
        "fst ` set fin \<subseteq> an_instance_id ` set (announced es)"
    using find_loop_instances[of str6 es "[]" peers] by (auto simp: instances_inv_def peers_from_def)
  then show ?thesis
  proof cases
    case none
    then show ?thesis by simp
  next
    case some
    have "length fin \<le> 128" using some(1) by (simp add: instances_inv_def)
    then show ?thesis using peers_of_instances[OF some(1), of str6] some(2,3) by simp
  qed
qed

theorem find_result_witness:
  "\<exists>peers. find_ports (\<lambda>_. []) DefaultPorts 1 [] [FindPacket (disc_packet (Announce (on_wire demo_announce))) (V4 10 0 0 2), FindDeadline] =
     Inr peers \<and> length peers \<le> 128 \<and> distinct (map pe_id peers)"
proof -
  let ?es = "[FindPacket (disc_packet (Announce (on_wire demo_announce))) (V4 10 0 0 2), FindDeadline]"
  have "\<exists>peers. find_ports (\<lambda>_. []) DefaultPorts 1 [] ?es = Inr peers"
    by (simp add: find_ports_def normalize_discovery_ports_def DefaultPorts_def encode_query_def
        split: sum.split disc_message.split)
  then show ?thesis using find_result[of "\<lambda>_. []" DefaultPorts 1 "[]" ?es] by blast
qed

text \<open>
  C40. The list of peers does not depend on the order in which the maps of instances and of their
  addresses are iterated: two representations of the same instances, with IPv4 sources, give the
  same list.
\<close>

theorem peers_order_irrelevant:
  assumes "mset insts' = mset insts" "list_all2 same_instance insts' insts''" "instances_inv insts"
    and "\<forall>x \<in> set insts. \<forall>a \<in> set (pi_addrs (snd x)). is4 a"
  shows "peer_instances_to_peers str6 insts'' = peer_instances_to_peers str6 insts"
proof -
  let ?mf = "List.map_filter (\<lambda>(_, i). instance_peer str6 i)"
  have s: "set insts' = set insts" using assms(1) by (metis set_mset_mset)
  have "?mf insts' = ?mf insts''" by (rule same_instances_peers[OF assms(2)]) (use assms(4) s in simp)
  then have eq: "mset (?mf insts'') = mset (?mf insts)" using map_filter_mset[OF assms(1)] by metis
  have "map pe_id (?mf insts) = map fst insts"
    using map_filter_peers[of insts str6] assms(3) by (auto simp: instances_inv_def)
  then have "distinct (map pe_id (?mf insts))" using assms(3) by (simp add: instances_inv_def)
  then have "inj_on pe_id (set (?mf insts))" by (simp add: distinct_map)
  then have "inj_on peer_key (set (?mf insts))" by (auto simp: inj_on_def peer_key_def)
  then show ?thesis
    unfolding peers_eq using sort_key_mset[OF eq] eq by (metis set_mset_mset)
qed

definition demo_instance :: "byte \<Rightarrow> addr list \<Rightarrow> bytes \<times> peer_instance" where
  "demo_instance k as = (replicate 16 k, \<lparr>pi_id = replicate 16 k, pi_name = [65], pi_port = 47000,
     pi_advertised = V4 0 0 0 0, pi_addrs = as\<rparr>)"

theorem peers_order_irrelevant_witness:
  "peer_instances_to_peers (\<lambda>_. []) [demo_instance 2 [V4 10 0 0 3], demo_instance 1 [V4 127 0 0 1, V4 10 0 0 2]] =
   peer_instances_to_peers (\<lambda>_. []) [demo_instance 1 [V4 10 0 0 2, V4 127 0 0 1], demo_instance 2 [V4 10 0 0 3]]"
proof (rule peers_order_irrelevant)
  show "list_all2 same_instance
      [demo_instance 2 [V4 10 0 0 3], demo_instance 1 [V4 10 0 0 2, V4 127 0 0 1]]
      [demo_instance 2 [V4 10 0 0 3], demo_instance 1 [V4 127 0 0 1, V4 10 0 0 2]]"
    by (simp add: same_instance_def demo_instance_def)
qed (simp_all add: instances_inv_def demo_instance_def is4_def)

text \<open>
  The query targets of a search are IPv4 addresses without duplicates: for every port exactly the
  loopback address, the limited broadcast address and the broadcast address of every address of every
  interface that is up, can broadcast and is not a loopback.
\<close>

theorem search_targets:
  "distinct (discovery_targets_for_ports (interface_broadcast_addrs ifs) ports) \<and>
   set (discovery_targets_for_ports (interface_broadcast_addrs ifs) ports) =
     ({V4 127 0 0 1, V4 255 255 255 255} \<union>
        {b. \<exists>l i as a. ifs = Some l \<and> i \<in> set l \<and> if_up i \<and> if_broadcast i \<and> \<not> if_loopback i \<and>
           if_addrs i = Some as \<and> a \<in> set as \<and> b \<in> set (addr_broadcast a)}) \<times>
     word_of_int ` set ports"
proof -
  have b: "set (interface_broadcast_addrs ifs) =
      {b. \<exists>l i as a. ifs = Some l \<and> i \<in> set l \<and> if_up i \<and> if_broadcast i \<and> \<not> if_loopback i \<and>
         if_addrs i = Some as \<and> a \<in> set as \<and> b \<in> set (addr_broadcast a)}"
    by (cases ifs) (force simp: interface_broadcast_addrs_def split: option.splits if_splits)+
  have four: "\<forall>a \<in> set (interface_broadcast_addrs ifs). is4 a"
    unfolding b by (auto simp: addr_broadcast_def Let_def is4_def split: iface_addr.splits option.splits if_splits)
  have "set (discovery_targets (interface_broadcast_addrs ifs) p) =
      ({V4 127 0 0 1, V4 255 255 255 255} \<union> set (interface_broadcast_addrs ifs)) \<times> {word_of_int p}" for p
    using four by (auto simp: discovery_targets_def add_unseen_set is4_def)
  then have "set (discovery_targets_for_ports (interface_broadcast_addrs ifs) ports) =
      ({V4 127 0 0 1, V4 255 255 255 255} \<union> set (interface_broadcast_addrs ifs)) \<times> word_of_int ` set ports"
    by (auto simp: discovery_targets_for_ports_def add_unseen_set)
  moreover have "distinct (discovery_targets_for_ports (interface_broadcast_addrs ifs) ports)"
    by (simp add: discovery_targets_for_ports_def add_unseen_distinct)
  ultimately show ?thesis by (simp only: b)
qed

text \<open>
  The responder cannot be used as an amplifier: whatever arrives, over any time span it sends at
  most 16 replies plus one per 20 milliseconds elapsed.
\<close>

theorem replies_bounded:
  assumes "sorted (t0 # event_times es)" "\<forall>x \<in> set (event_times es). x \<le> T" "t0 \<le> T"
  shows "int (length (responder_loop ann es (new_reply_rate_limiter t0))) \<le> 16 + (T - t0) div 20000000"
  using responder_loop_budget[of t0 "new_reply_rate_limiter t0" es T ann] assms
  by (simp add: limiter_inv_def new_reply_rate_limiter_def budget_def)

theorem replies_bounded_witness:
  "int (length (responder_loop [] [RespPacket [] 5, RespTimeout, RespPacket [1] 40000000] (new_reply_rate_limiter 0)))
     \<le> 16 + (40000000 - 0) div 20000000"
  by (rule replies_bounded) simp_all

end
