(* ===== verification/Pairing.thy ===== *)
theory Pairing
  imports GoInt
begin

text \<open>
  PIN pairing, \<^verbatim>\<open>engine/internal/pairing/exchange.go\<close>, and the device identity of \<^verbatim>\<open>pairing.go\<close>.  The
  cryptographic library is the argument \<open>C\<close>: P-256 points, SHA-256, HMAC and HKDF as functions.
  What the exchange relies on is stated by the predicates \<open>crypto_ok\<close> (the documented sizes, and
  that Diffie-Hellman agrees) and \<open>tags_distinct\<close> (no two different inputs have the same tag).
  Ephemeral keys, salts and nonces are arguments: they come from the random source.
\<close>

section \<open>The library\<close>

record ('k, 'p) crypto =
  cy_hash :: "bytes \<Rightarrow> bytes"
  cy_hmac :: "bytes \<Rightarrow> bytes \<Rightarrow> bytes"
  cy_hkdf :: "bytes \<Rightarrow> bytes \<Rightarrow> bytes \<Rightarrow> nat \<Rightarrow> bytes"
  cy_pub :: "'k \<Rightarrow> bytes"
  cy_unmarshal :: "bytes \<Rightarrow> 'p option"
  cy_shared :: "'p \<Rightarrow> 'k \<Rightarrow> bytes option"

definition crypto_ok :: "('k, 'p) crypto \<Rightarrow> bool" where
  "crypto_ok C \<longleftrightarrow> (\<forall>b. length (cy_hash C b) = 32) \<and> (\<forall>k m. length (cy_hmac C k m) = 32) \<and>
     (\<forall>k. length (cy_pub C k) = 65) \<and>
     (\<forall>a b. \<exists>p q. cy_unmarshal C (cy_pub C a) = Some p \<and> cy_unmarshal C (cy_pub C b) = Some q \<and>
        cy_shared C p b = cy_shared C q a \<and> cy_shared C p b \<noteq> None)"

section \<open>State\<close>

datatype pair_role = RoleSender | RoleReceiver

datatype pair_error = WrongRole | PayloadMalformed | InvalidPublicKey | PeerKeyNotSet | EcdhFailed
  | ConfirmBeforeChallenge | ResultLengthMismatch | PinMismatch

record ('k, 'p) exchange =
  ex_role :: pair_role
  ex_pin :: bytes
  ex_local_name :: bytes
  ex_key :: 'k
  ex_peer :: "'p option"
  ex_salt :: bytes
  ex_nonce :: bytes
  ex_tr :: bytes
  ex_secret :: bytes

definition pinVerifyInfo :: bytes where "pinVerifyInfo = bytes_of_str ''rau2-pin-verify-v1''"
definition pairSecretInfo :: bytes where "pairSecretInfo = bytes_of_str ''rau2-pairing-secret-v1''"

abbreviation (input) pubLen :: nat where "pubLen \<equiv> 65"
abbreviation (input) saltLen :: nat where "saltLen \<equiv> 16"
abbreviation (input) nonceLen :: nat where "nonceLen \<equiv> 16"
abbreviation (input) tagLen :: nat where "tagLen \<equiv> 32"
abbreviation (input) secretLen :: nat where "secretLen \<equiv> 32"

definition new_exchange :: "pair_role \<Rightarrow> bytes \<Rightarrow> bytes \<Rightarrow> 'k \<Rightarrow> bytes \<Rightarrow> ('k, 'p) exchange" where
  "new_exchange role pin name key salt =
     \<lparr>ex_role = role, ex_pin = pin, ex_local_name = name, ex_key = key, ex_peer = None, ex_salt = salt,
      ex_nonce = replicate nonceLen 0, ex_tr = [], ex_secret = []\<rparr>"

definition set_pin :: "bytes \<Rightarrow> ('k, 'p) exchange \<Rightarrow> ('k, 'p) exchange" where
  "set_pin pin e = (if length pin \<ge> 4 then e\<lparr>ex_pin := pin\<rparr> else e)"

definition transcript_add :: "bytes list \<Rightarrow> ('k, 'p) exchange \<Rightarrow> ('k, 'p) exchange" where
  "transcript_add parts e = e\<lparr>ex_tr := ex_tr e @ concat parts\<rparr>"

definition transcript_hash :: "('k, 'p) crypto \<Rightarrow> ('k, 'p) exchange \<Rightarrow> bytes" where
  "transcript_hash C e = cy_hash C (ex_tr e)"

definition local_pub :: "('k, 'p) crypto \<Rightarrow> ('k, 'p) exchange \<Rightarrow> bytes" where
  "local_pub C e = cy_pub C (ex_key e)"

definition shared_and_keys :: "('k, 'p) crypto \<Rightarrow> ('k, 'p) exchange \<Rightarrow> pair_error + bytes \<times> bytes" where
  "shared_and_keys C e =
     (case ex_peer e of
        None \<Rightarrow> Inl PeerKeyNotSet
      | Some p \<Rightarrow>
          (case cy_shared C p (ex_key e) of
             None \<Rightarrow> Inl EcdhFailed
           | Some sx \<Rightarrow>
               let ikm = sx @ transcript_hash C e
               in Inr (cy_hkdf C ikm (ex_salt e) pairSecretInfo secretLen,
                       cy_hkdf C ikm (ex_salt e) (pinVerifyInfo @ bytes_of_str ''|'' @ ex_pin e) tagLen)))"

definition shared_and_keys_with_peer ::
  "('k, 'p) crypto \<Rightarrow> 'p \<Rightarrow> ('k, 'p) exchange \<Rightarrow> pair_error + bytes \<times> bytes" where
  "shared_and_keys_with_peer C p e = shared_and_keys C (e\<lparr>ex_peer := Some p\<rparr>)"

section \<open>The messages\<close>

text \<open>A message constructor returns its payload, a consumer only its error; both update the exchange.\<close>

definition begin_message :: "bytes \<Rightarrow> ('k, 'p) exchange \<Rightarrow> (pair_error + bytes) \<times> ('k, 'p) exchange" where
  "begin_message nonce e =
     (if ex_role e \<noteq> RoleReceiver then (Inl WrongRole, e)
      else (Inr nonce, transcript_add [bytes_of_str ''begin'', nonce] (e\<lparr>ex_nonce := nonce\<rparr>)))"

definition on_begin :: "bytes \<Rightarrow> ('k, 'p) exchange \<Rightarrow> (pair_error + unit) \<times> ('k, 'p) exchange" where
  "on_begin payload e =
     (if ex_role e \<noteq> RoleSender then (Inl WrongRole, e)
      else if length payload \<noteq> nonceLen then (Inl PayloadMalformed, e)
      else (Inr (), transcript_add [bytes_of_str ''begin'', payload] (e\<lparr>ex_nonce := payload\<rparr>)))"

definition challenge_message ::
  "('k, 'p) crypto \<Rightarrow> ('k, 'p) exchange \<Rightarrow> (pair_error + bytes) \<times> ('k, 'p) exchange" where
  "challenge_message C e =
     (if ex_role e \<noteq> RoleSender then (Inl WrongRole, e)
      else (Inr (local_pub C e @ ex_salt e),
            transcript_add [bytes_of_str ''challenge'', local_pub C e, ex_salt e] e))"

definition on_challenge ::
  "('k, 'p) crypto \<Rightarrow> bytes \<Rightarrow> ('k, 'p) exchange \<Rightarrow> (pair_error + unit) \<times> ('k, 'p) exchange" where
  "on_challenge C payload e =
     (if ex_role e \<noteq> RoleReceiver then (Inl WrongRole, e)
      else if length payload \<noteq> pubLen + saltLen then (Inl PayloadMalformed, e)
      else case cy_unmarshal C (take pubLen payload) of
        None \<Rightarrow> (Inl InvalidPublicKey, e)
      | Some p \<Rightarrow>
          (Inr (), transcript_add [bytes_of_str ''challenge'', take pubLen payload, drop pubLen payload]
             (e\<lparr>ex_peer := Some p, ex_salt := drop pubLen payload\<rparr>)))"

definition tag_over :: "('k, 'p) crypto \<Rightarrow> bytes \<Rightarrow> string \<Rightarrow> ('k, 'p) exchange \<Rightarrow> bytes" where
  "tag_over C macKey side e = cy_hmac C macKey (transcript_hash C e @ bytes_of_str side)"

definition confirm_message ::
  "('k, 'p) crypto \<Rightarrow> ('k, 'p) exchange \<Rightarrow> (pair_error + bytes) \<times> ('k, 'p) exchange" where
  "confirm_message C e0 =
     (if ex_role e0 \<noteq> RoleReceiver then (Inl WrongRole, e0)
      else if ex_peer e0 = None then (Inl ConfirmBeforeChallenge, e0)
      else let pub = local_pub C e0; e = transcript_add [bytes_of_str ''confirm'', pub] e0
        in (case shared_and_keys C e of
              Inl err \<Rightarrow> (Inl err, e)
            | Inr (_, macKey) \<Rightarrow> (Inr (pub @ tag_over C macKey ''R'' e), e)))"

definition on_confirm ::
  "('k, 'p) crypto \<Rightarrow> bytes \<Rightarrow> ('k, 'p) exchange \<Rightarrow> (pair_error + unit) \<times> ('k, 'p) exchange" where
  "on_confirm C payload e0 =
     (if ex_role e0 \<noteq> RoleSender then (Inl WrongRole, e0)
      else if length payload \<noteq> pubLen + tagLen then (Inl PayloadMalformed, e0)
      else case cy_unmarshal C (take pubLen payload) of
        None \<Rightarrow> (Inl InvalidPublicKey, e0)
      | Some p \<Rightarrow>
          let e = transcript_add [bytes_of_str ''confirm'', take pubLen payload] e0 in
          (case shared_and_keys_with_peer C p e of
             Inl err \<Rightarrow> (Inl err, e)
           | Inr (_, macKey) \<Rightarrow>
               if tag_over C macKey ''R'' e \<noteq> drop pubLen payload then (Inl PinMismatch, e)
               else (Inr (), e\<lparr>ex_peer := Some p\<rparr>)))"

definition result_message ::
  "('k, 'p) crypto \<Rightarrow> bytes \<Rightarrow> ('k, 'p) exchange \<Rightarrow> (pair_error + bytes) \<times> ('k, 'p) exchange" where
  "result_message C peerID e =
     (case shared_and_keys C e of
        Inl err \<Rightarrow> (Inl err, e)
      | Inr (secret, macKey) \<Rightarrow>
          let name = take 255 (ex_local_name e)
          in (Inr ([1] @ tag_over C macKey ''S'' e @
                   [word_of_nat (length name div 256), word_of_nat (length name)] @ name @ peerID),
              e\<lparr>ex_secret := secret\<rparr>))"

definition on_result ::
  "('k, 'p) crypto \<Rightarrow> bytes \<Rightarrow> ('k, 'p) exchange \<Rightarrow> (pair_error + bytes \<times> bytes) \<times> ('k, 'p) exchange" where
  "on_result C payload e =
     (if length payload < 1 + tagLen + 2 + 16 then (Inl PayloadMalformed, e)
      else if payload ! 0 \<noteq> 1 then (Inl PinMismatch, e)
      else
        let tag = slice 1 (1 + tagLen) payload;
            nameLen = 256 * unat (payload ! (1 + tagLen)) + unat (payload ! (2 + tagLen));
            rest = drop (3 + tagLen) payload
        in if length rest \<noteq> nameLen + 16 then (Inl ResultLengthMismatch, e)
           else case shared_and_keys C e of
             Inl err \<Rightarrow> (Inl err, e)
           | Inr (secret, macKey) \<Rightarrow>
               if tag_over C macKey ''S'' e \<noteq> tag then (Inl PinMismatch, e)
               else (Inr (take nameLen rest, drop nameLen rest), e\<lparr>ex_secret := secret\<rparr>))"

section \<open>Identity\<close>

definition public_key_der :: "('k, 'p) crypto \<Rightarrow> 'k \<Rightarrow> bytes" where
  "public_key_der C k = cy_pub C k"

definition hex_digit :: "nat \<Rightarrow> char" where
  "hex_digit n = ''0123456789abcdef'' ! n"

definition hex_of_bytes :: "bytes \<Rightarrow> string" where
  "hex_of_bytes b = concat (map (\<lambda>x. [hex_digit (unat x div 16), hex_digit (unat x mod 16)]) b)"

definition fingerprint :: "('k, 'p) crypto \<Rightarrow> 'k \<Rightarrow> string" where
  "fingerprint C k = hex_of_bytes (cy_hash C (public_key_der C k))"

definition device_id :: "('k, 'p) crypto \<Rightarrow> 'k \<Rightarrow> bytes" where
  "device_id C k = take 16 (cy_hash C (public_key_der C k))"

section \<open>What a tag is computed from\<close>

text \<open>
  The inputs of a verification tag: the shared point, the transcript, the salt and the PIN.  No two
  different inputs are assumed to have different tags in general, which no function with 32-byte
  results can have; \<open>collision_free\<close> says so of the two inputs at hand.
\<close>

type_synonym tag_data = "bytes \<times> bytes \<times> bytes \<times> bytes"

definition tag_input :: "('k, 'p) crypto \<Rightarrow> ('k, 'p) exchange \<Rightarrow> tag_data option" where
  "tag_input C e =
     (case ex_peer e of None \<Rightarrow> None
      | Some p \<Rightarrow> map_option (\<lambda>sx. (sx, ex_tr e, ex_salt e, ex_pin e)) (cy_shared C p (ex_key e)))"

fun tag_of :: "('k, 'p) crypto \<Rightarrow> string \<Rightarrow> tag_data \<Rightarrow> bytes" where
  "tag_of C side (sx, tr, salt, pin) =
     cy_hmac C (cy_hkdf C (sx @ cy_hash C tr) salt (pinVerifyInfo @ bytes_of_str ''|'' @ pin) tagLen)
       (cy_hash C tr @ bytes_of_str side)"

fun secret_of :: "('k, 'p) crypto \<Rightarrow> tag_data \<Rightarrow> bytes" where
  "secret_of C (sx, tr, salt, pin) = cy_hkdf C (sx @ cy_hash C tr) salt pairSecretInfo secretLen"

definition collision_free :: "('k, 'p) crypto \<Rightarrow> string \<Rightarrow> tag_data \<Rightarrow> tag_data \<Rightarrow> bool" where
  "collision_free C side x y \<longleftrightarrow> (tag_of C side x = tag_of C side y \<longrightarrow> x = y)"

lemma shared_and_keys_input:
  "tag_input C e = Some x \<Longrightarrow>
     \<exists>k. shared_and_keys C e = Inr (secret_of C x, k) \<and> (\<forall>side. tag_over C k side e = tag_of C side x)"
  by (auto simp: tag_input_def shared_and_keys_def transcript_hash_def tag_over_def Let_def split: option.splits)

lemma shared_and_keys_none:
  "tag_input C e = None \<Longrightarrow> \<exists>err. shared_and_keys C e = Inl err"
  by (auto simp: tag_input_def shared_and_keys_def split: option.splits)

lemma confirm_message_eq:
  assumes "ex_role e = RoleReceiver" "ex_peer e \<noteq> None"
    and "tag_input C (transcript_add [bytes_of_str ''confirm'', local_pub C e] e) = Some x"
  shows "confirm_message C e = (Inr (local_pub C e @ tag_of C ''R'' x),
    transcript_add [bytes_of_str ''confirm'', local_pub C e] e)"
  using shared_and_keys_input[OF assms(3)] assms(1,2) by (auto simp: confirm_message_def Let_def)

lemma on_confirm_eq:
  assumes "ex_role e = RoleSender" "length payload = 97" "cy_unmarshal C (take 65 payload) = Some p"
    and "tag_input C (transcript_add [bytes_of_str ''confirm'', take 65 payload] (e\<lparr>ex_peer := Some p\<rparr>)) = Some x"
  shows "on_confirm C payload e =
    (let e1 = transcript_add [bytes_of_str ''confirm'', take 65 payload] e in
     if tag_of C ''R'' x = drop 65 payload then (Inr (), e1\<lparr>ex_peer := Some p\<rparr>) else (Inl PinMismatch, e1))"
proof -
  let ?e = "transcript_add [bytes_of_str ''confirm'', take 65 payload] e"
  have up: "?e\<lparr>ex_peer := Some p\<rparr> = transcript_add [bytes_of_str ''confirm'', take 65 payload] (e\<lparr>ex_peer := Some p\<rparr>)"
    by (simp add: transcript_add_def)
  obtain k where k: "shared_and_keys C (?e\<lparr>ex_peer := Some p\<rparr>) = Inr (secret_of C x, k)"
    "\<And>side. tag_over C k side (?e\<lparr>ex_peer := Some p\<rparr>) = tag_of C side x"
    using shared_and_keys_input[OF assms(4)] up by auto
  have "tag_over C k ''R'' ?e = tag_of C ''R'' x"
    using k(2)[of "''R''"] by (simp add: tag_over_def transcript_hash_def)
  then show ?thesis using assms(1-3) k(1)
    by (simp add: on_confirm_def shared_and_keys_with_peer_def Let_def)
qed

section \<open>The whole exchange\<close>

text \<open>
  The exchange as the two ends run it, every message delivered: the receiver takes the PIN from the
  user after the challenge.
\<close>

definition run_pairing ::
  "('k, 'p) crypto \<Rightarrow> bytes \<Rightarrow> bytes \<Rightarrow> bytes \<Rightarrow> ('k, 'p) exchange \<Rightarrow> ('k, 'p) exchange \<Rightarrow>
     pair_error + (bytes \<times> bytes) \<times> ('k, 'p) exchange \<times> ('k, 'p) exchange" where
  "run_pairing C nonce userPin peerID rcv snder =
     (case begin_message nonce rcv of (Inl e, _) \<Rightarrow> Inl e | (Inr m1, r1) \<Rightarrow>
     (case on_begin m1 snder of (Inl e, _) \<Rightarrow> Inl e | (Inr _, s1) \<Rightarrow>
     (case challenge_message C s1 of (Inl e, _) \<Rightarrow> Inl e | (Inr m2, s2) \<Rightarrow>
     (case on_challenge C m2 r1 of (Inl e, _) \<Rightarrow> Inl e | (Inr _, r2) \<Rightarrow>
     (case confirm_message C (set_pin userPin r2) of (Inl e, _) \<Rightarrow> Inl e | (Inr m3, r3) \<Rightarrow>
     (case on_confirm C m3 s2 of (Inl e, _) \<Rightarrow> Inl e | (Inr _, s3) \<Rightarrow>
     (case result_message C peerID s3 of (Inl e, _) \<Rightarrow> Inl e | (Inr m4, s4) \<Rightarrow>
     (case on_result C m4 r3 of (Inl e, _) \<Rightarrow> Inl e | (Inr who, r4) \<Rightarrow> Inr (who, r4, s4)))))))))"

definition full_transcript :: "('k, 'p) crypto \<Rightarrow> bytes \<Rightarrow> bytes \<Rightarrow> 'k \<Rightarrow> 'k \<Rightarrow> bytes" where
  "full_transcript C nonce salt ks kr =
     bytes_of_str ''begin'' @ nonce @ bytes_of_str ''challenge'' @ cy_pub C ks @ salt @
     bytes_of_str ''confirm'' @ cy_pub C kr"

lemma result_fields:
  fixes tag name pid :: bytes
  assumes "length tag = 32" "length name \<le> 255" "length pid = 16"
  shows "(let p = [1] @ tag @ [word_of_nat (length name div 256), word_of_nat (length name)] @ name @ pid in
    51 \<le> length p \<and> p ! 0 = 1 \<and> slice 1 33 p = tag \<and> 256 * unat (p ! 33) + unat (p ! 34) = length name \<and>
    drop 35 p = name @ pid)"
proof -
  have d: "length name div 256 = 0" "length name < 256" using assms(2) by simp_all
  show ?thesis using assms by (simp add: d Let_def codec_simps nth_append)
qed

lemma result_roundtrip:
  assumes "crypto_ok C" "length pid = 16" "tag_input C s = Some x" "tag_input C r = Some x"
  shows "\<exists>m. result_message C pid s = (Inr m, s\<lparr>ex_secret := secret_of C x\<rparr>) \<and>
    on_result C m r = (Inr (take 255 (ex_local_name s), pid), r\<lparr>ex_secret := secret_of C x\<rparr>) \<and> length m \<le> 306"
proof -
  obtain ks where ks: "shared_and_keys C s = Inr (secret_of C x, ks)" "\<And>side. tag_over C ks side s = tag_of C side x"
    using shared_and_keys_input[OF assms(3)] by blast
  obtain kr where kr: "shared_and_keys C r = Inr (secret_of C x, kr)" "\<And>side. tag_over C kr side r = tag_of C side x"
    using shared_and_keys_input[OF assms(4)] by blast
  have len: "length (tag_of C side x) = 32" for side using assms(1) by (cases x) (simp add: crypto_ok_def)
  let ?n = "take 255 (ex_local_name s)"
  let ?m = "[1] @ tag_of C ''S'' x @ [word_of_nat (length ?n div 256), word_of_nat (length ?n)] @ ?n @ pid"
  have "length ?n \<le> 255" by simp
  note f = result_fields[OF len[of "''S''"] this assms(2), unfolded Let_def]
  have m: "result_message C pid s = (Inr ?m, s\<lparr>ex_secret := secret_of C x\<rparr>)"
    by (simp add: result_message_def ks Let_def)
  define m where "m = ?m"
  have "51 \<le> length m" "m ! 0 = 1" "slice 1 33 m = tag_of C ''S'' x"
    "256 * unat (m ! 33) + unat (m ! 34) = length ?n" "drop 35 m = ?n @ pid"
    using f unfolding m_def by blast+
  then have "on_result C m r = (Inr (?n, pid), r\<lparr>ex_secret := secret_of C x\<rparr>)"
    using assms(2) kr by (simp add: on_result_def Let_def) (simp add: min_def)
  moreover have "length m \<le> 306" using assms(2) len by (simp add: m_def)
  ultimately show ?thesis using m by (auto simp: m_def)
qed

lemma length_tag: "crypto_ok C \<Longrightarrow> length (tag_of C side x) = 32"
  by (cases x) (simp add: crypto_ok_def)

declare tag_of.simps [simp del] secret_of.simps [simp del]

section \<open>The messages of an exchange\<close>

text \<open>
  What the two ends compute when every message is delivered; the receiver's code may be entered before or
  after the challenge arrives.
\<close>

lemma pairing_messages:
  fixes C :: "('k, 'p) crypto"
  assumes C: "crypto_ok C" and sizes: "length nonce = 16" "length salt = 16" "length pid = 16" "4 \<le> length userPin"
    and dh: "cy_unmarshal C (cy_pub C ks) = Some p" "cy_shared C p kr = Some sx"
    and col: "collision_free C ''R'' (sx, full_transcript C nonce salt ks kr, salt, userPin)
      (sx, full_transcript C nonce salt ks kr, salt, pin)"
  obtains r1 r2 s1 S R R1 m3 where
    "begin_message nonce (new_exchange RoleReceiver pin0 rname kr salt0) = (Inr nonce, r1)"
    "on_begin nonce (new_exchange RoleSender pin name ks salt) = (Inr (), s1)"
    "challenge_message C s1 = (Inr (cy_pub C ks @ salt), S)"
    "on_challenge C (cy_pub C ks @ salt) r1 = (Inr (), r2)" "set_pin userPin r2 = R"
    "on_challenge C (cy_pub C ks @ salt) (set_pin userPin r1) = (Inr (), R)"
    "confirm_message C R = (Inr m3, R1)" "length m3 = 97"
    "if userPin = pin
     then \<exists>S1 m4 S2 R2. on_confirm C m3 S = (Inr (), S1) \<and> result_message C pid S1 = (Inr m4, S2) \<and>
       length m4 \<le> 306 \<and> on_result C m4 R1 = (Inr (take 255 name, pid), R2) \<and> ex_secret R2 = ex_secret S2 \<and>
       ex_secret S2 = cy_hkdf C (sx @ cy_hash C (full_transcript C nonce salt ks kr)) salt pairSecretInfo 32
     else \<exists>S1. on_confirm C m3 S = (Inl PinMismatch, S1)"
proof -
  let ?T = "full_transcript C nonce salt ks kr"
  have len: "length (cy_pub C k) = 65" "length (tag_of C side x) = 32" for k side x
    using C by (simp add: crypto_ok_def) (rule length_tag[OF C])
  obtain q where q: "cy_unmarshal C (cy_pub C kr) = Some q" "cy_shared C q ks = Some sx"
    using C dh unfolding crypto_ok_def by (metis option.sel)
  define R :: "('k, 'p) exchange" where "R = \<lparr>ex_role = RoleReceiver, ex_pin = userPin, ex_local_name = rname, ex_key = kr,
    ex_peer = Some p, ex_salt = salt, ex_nonce = nonce,
    ex_tr = bytes_of_str ''begin'' @ nonce @ bytes_of_str ''challenge'' @ cy_pub C ks @ salt, ex_secret = []\<rparr>"
  define S :: "('k, 'p) exchange" where "S = \<lparr>ex_role = RoleSender, ex_pin = pin, ex_local_name = name, ex_key = ks,
    ex_peer = None, ex_salt = salt, ex_nonce = nonce,
    ex_tr = bytes_of_str ''begin'' @ nonce @ bytes_of_str ''challenge'' @ cy_pub C ks @ salt, ex_secret = []\<rparr>"
  define r1 :: "('k, 'p) exchange" where "r1 = \<lparr>ex_role = RoleReceiver, ex_pin = pin0, ex_local_name = rname, ex_key = kr,
    ex_peer = None, ex_salt = salt0, ex_nonce = nonce, ex_tr = bytes_of_str ''begin'' @ nonce, ex_secret = []\<rparr>"
  define r2 :: "('k, 'p) exchange" where "r2 = \<lparr>ex_role = RoleReceiver, ex_pin = pin0, ex_local_name = rname, ex_key = kr,
    ex_peer = Some p, ex_salt = salt, ex_nonce = nonce,
    ex_tr = bytes_of_str ''begin'' @ nonce @ bytes_of_str ''challenge'' @ cy_pub C ks @ salt, ex_secret = []\<rparr>"
  define s1 :: "('k, 'p) exchange" where "s1 = \<lparr>ex_role = RoleSender, ex_pin = pin, ex_local_name = name, ex_key = ks,
    ex_peer = None, ex_salt = salt, ex_nonce = nonce, ex_tr = bytes_of_str ''begin'' @ nonce, ex_secret = []\<rparr>"
  have S: "ex_role S = RoleSender" by (simp add: S_def)
  let ?R1 = "transcript_add [bytes_of_str ''confirm'', cy_pub C kr] R"
  let ?S1 = "transcript_add [bytes_of_str ''confirm'', cy_pub C kr] (S\<lparr>ex_peer := Some q\<rparr>)"
  let ?m3 = "cy_pub C kr @ tag_of C ''R'' (sx, ?T, salt, userPin)"
  have tin: "tag_input C ?R1 = Some (sx, ?T, salt, userPin)" "tag_input C ?S1 = Some (sx, ?T, salt, pin)"
    using dh q by (simp_all add: tag_input_def transcript_add_def R_def S_def full_transcript_def)
  have conf: "confirm_message C R = (Inr ?m3, ?R1)"
    using confirm_message_eq[of R C "(sx, ?T, salt, userPin)"] tin(1) by (simp add: R_def local_pub_def)
  have onc: "on_confirm C ?m3 S =
      (if tag_of C ''R'' (sx, ?T, salt, pin) = tag_of C ''R'' (sx, ?T, salt, userPin) then (Inr (), ?S1)
       else (Inl PinMismatch, transcript_add [bytes_of_str ''confirm'', cy_pub C kr] S))"
    using on_confirm_eq[of S ?m3 C q "(sx, ?T, salt, pin)"] tin(2) q len S by (simp add: transcript_add_def Let_def)
  have last: "if userPin = pin
     then \<exists>S1 m4 S2 R2. on_confirm C ?m3 S = (Inr (), S1) \<and> result_message C pid S1 = (Inr m4, S2) \<and>
       length m4 \<le> 306 \<and> on_result C m4 ?R1 = (Inr (take 255 name, pid), R2) \<and> ex_secret R2 = ex_secret S2 \<and>
       ex_secret S2 = cy_hkdf C (sx @ cy_hash C ?T) salt pairSecretInfo 32
     else \<exists>S1. on_confirm C ?m3 S = (Inl PinMismatch, S1)"
  proof (cases "userPin = pin")
    case True
    obtain m where "result_message C pid ?S1 = (Inr m, ?S1\<lparr>ex_secret := secret_of C (sx, ?T, salt, pin)\<rparr>)"
      "on_result C m ?R1 = (Inr (take 255 (ex_local_name ?S1), pid), ?R1\<lparr>ex_secret := secret_of C (sx, ?T, salt, pin)\<rparr>)"
      "length m \<le> 306"
      using result_roundtrip[OF C sizes(3) tin(2)] tin(1) True by blast
    moreover have "ex_local_name ?S1 = name" by (simp add: S_def transcript_add_def)
    ultimately show ?thesis using True onc by (simp add: secret_of.simps)
  next
    case False
    then have "tag_of C ''R'' (sx, ?T, salt, pin) \<noteq> tag_of C ''R'' (sx, ?T, salt, userPin)"
      using col by (auto simp: collision_free_def)
    then show ?thesis using False onc by simp
  qed
  show ?thesis
    by (rule that[of r1 s1 S r2 R ?m3 ?R1, OF _ _ _ _ _ _ conf _ last])
      (use sizes len dh in \<open>simp_all add: begin_message_def on_begin_def challenge_message_def on_challenge_def r1_def r2_def
        s1_def new_exchange_def set_pin_def transcript_add_def local_pub_def R_def S_def\<close>)
qed

section \<open>Properties\<close>

text \<open>
  Pairing succeeds exactly when the user enters the code shown.  With all messages delivered, a
  matching PIN of at least four characters makes both ends finish with the same 32-byte secret and
  the receiver learn the sender's name (its first 255 bytes) and device id; any other PIN of that
  length makes the sender report a mismatch, provided the two tags compared do not collide.
\<close>

theorem pairing_succeeds_iff_pins_match:
  fixes C :: "('k, 'p) crypto"
  assumes C: "crypto_ok C" and sizes: "length nonce = 16" "length salt = 16" "length pid = 16" "4 \<le> length userPin"
    and dh: "cy_unmarshal C (cy_pub C ks) = Some p" "cy_shared C p kr = Some sx"
    and col: "collision_free C ''R'' (sx, full_transcript C nonce salt ks kr, salt, userPin)
      (sx, full_transcript C nonce salt ks kr, salt, pin)"
  shows "if userPin = pin
    then \<exists>r s. run_pairing C nonce userPin pid (new_exchange RoleReceiver pin0 rname kr salt0)
        (new_exchange RoleSender pin name ks salt) = Inr ((take 255 name, pid), r, s) \<and>
      ex_secret r = ex_secret s \<and>
      ex_secret s = cy_hkdf C (sx @ cy_hash C (full_transcript C nonce salt ks kr)) salt pairSecretInfo 32
    else run_pairing C nonce userPin pid (new_exchange RoleReceiver pin0 rname kr salt0)
      (new_exchange RoleSender pin name ks salt) = Inl PinMismatch"
  by (rule pairing_messages[OF assms, of pin0 rname salt0 name]) (auto simp: run_pairing_def split: if_splits)

text \<open>A crypto library to evaluate with: keys are bytes, points are bytes, the tag shows its key.\<close>

definition demo_crypto :: "(byte, byte) crypto" where
  "demo_crypto = \<lparr>cy_hash = (\<lambda>b. replicate 32 (word_of_nat (length b))), cy_hmac = (\<lambda>k m. take 32 (k @ replicate 32 0)),
     cy_hkdf = (\<lambda>i s info n. take n (rev info @ replicate n 0)), cy_pub = (\<lambda>k. replicate 65 k),
     cy_unmarshal = (\<lambda>b. if length b = 65 then Some (b ! 0) else None),
     cy_shared = (\<lambda>p k. Some [p XOR k])\<rparr>"

lemma demo_crypto_ok: "crypto_ok demo_crypto"
  by (auto simp: crypto_ok_def demo_crypto_def xor.commute)

theorem pairing_succeeds_iff_pins_match_witness:
  "(\<exists>r s. run_pairing demo_crypto (replicate 16 1) (bytes_of_str ''1234'') (replicate 16 9)
      (new_exchange RoleReceiver [] [] 5 []) (new_exchange RoleSender (bytes_of_str ''1234'') [80, 67] 7 (replicate 16 2)) =
      Inr (([80, 67], replicate 16 9), r, s) \<and> ex_secret r = ex_secret s) \<and>
   run_pairing demo_crypto (replicate 16 1) (bytes_of_str ''1235'') (replicate 16 9)
      (new_exchange RoleReceiver [] [] 5 []) (new_exchange RoleSender (bytes_of_str ''1234'') [80, 67] 7 (replicate 16 2)) =
      Inl PinMismatch"
proof -
  have dh: "cy_unmarshal demo_crypto (cy_pub demo_crypto 7) = Some 7" "cy_shared demo_crypto 7 5 = Some [2]"
    by (simp_all add: demo_crypto_def)
  have col: "collision_free demo_crypto ''R'' (sx, T, salt, bytes_of_str [CHR ''1'', CHR ''2'', CHR ''3'', c])
      (sx, T, salt, bytes_of_str ''1234'')" if "c \<in> {CHR ''4'', CHR ''5''}" for sx T salt c
    using that by (auto simp: collision_free_def demo_crypto_def bytes_of_str_def tag_of.simps)
  note main = pairing_succeeds_iff_pins_match[OF demo_crypto_ok _ _ _ _ dh col, where nonce = "replicate 16 1"
      and pid = "replicate 16 9" and salt = "replicate 16 2" and name = "[80, 67]" and ?pin0.0 = "[]" and rname = "[]" and ?salt0.0 = "[]"]
  show ?thesis using main[of "CHR ''4''"] main[of "CHR ''5''"] by (auto simp: bytes_of_str_def)
qed

text \<open>
  C4. What the sender's acceptance proves.  Suppose the sender accepts a confirmation whose tag was
  made by an honest receiver, whatever else an attacker did to the messages; unless the two tags
  collide, the confirmation is the receiver's own, unchanged, and the two ends agree on the whole
  transcript (nonce, both public keys, salt) and on the PIN.
\<close>

theorem confirm_agreement:
  assumes C: "crypto_ok C" and conf: "confirm_message C rcv = (Inr m, rcv')"
    and acc: "on_confirm C payload snder = (Inr (), snder')" and tag: "drop 65 payload = drop 65 m"
    and tin: "tag_input C rcv' = Some x" "tag_input C snder' = Some y" and col: "collision_free C ''R'' x y"
  shows "payload = m \<and> ex_tr snder = ex_tr rcv \<and> ex_salt snder = ex_salt rcv \<and> ex_pin snder = ex_pin rcv"
proof -
  have len: "length (cy_pub C k) = 65" for k using C by (simp add: crypto_ok_def)
  have r: "ex_role rcv = RoleReceiver" "ex_peer rcv \<noteq> None"
    "rcv' = transcript_add [bytes_of_str ''confirm'', local_pub C rcv] rcv"
    using conf by (auto simp: confirm_message_def Let_def split: if_splits sum.splits)
  have m: "m = local_pub C rcv @ tag_of C ''R'' x"
    using confirm_message_eq[OF r(1,2), of C x] tin(1) conf r(3) by simp
  obtain p where p: "ex_role snder = RoleSender" "length payload = 97" "cy_unmarshal C (take 65 payload) = Some p"
    "snder' = (transcript_add [bytes_of_str ''confirm'', take 65 payload] snder)\<lparr>ex_peer := Some p\<rparr>"
    using acc by (auto simp: on_confirm_def Let_def split: if_splits option.splits sum.splits)
  then have "snder' = transcript_add [bytes_of_str ''confirm'', take 65 payload] (snder\<lparr>ex_peer := Some p\<rparr>)"
    by (simp add: transcript_add_def)
  then have "tag_of C ''R'' y = drop 65 payload"
    using on_confirm_eq[OF p(1-3), of y] tin(2) acc by (auto simp: Let_def split: if_splits)
  then have "tag_of C ''R'' x = tag_of C ''R'' y" using tag m len by (simp add: local_pub_def)
  then have xy: "x = y" using col by (simp add: collision_free_def)
  have tr: "ex_tr rcv' = ex_tr snder'" "ex_salt rcv' = ex_salt snder'" "ex_pin rcv' = ex_pin snder'"
    using tin xy by (auto simp: tag_input_def split: option.splits)
  then have "(ex_tr rcv @ bytes_of_str ''confirm'') @ local_pub C rcv =
      (ex_tr snder @ bytes_of_str ''confirm'') @ take 65 payload"
    by (simp add: r(3) p(4) transcript_add_def)
  moreover have "length (local_pub C rcv) = length (take 65 payload)" using p(2) len by (simp add: local_pub_def)
  ultimately have "ex_tr rcv = ex_tr snder" "local_pub C rcv = take 65 payload" by simp_all
  moreover have "payload = m" using m tag len \<open>local_pub C rcv = take 65 payload\<close>
    by (metis append_take_drop_id append_eq_conv_conj local_pub_def)
  ultimately show ?thesis using tr(2,3) by (simp add: r(3) p(4) transcript_add_def)
qed

theorem confirm_agreement_witness:
  "let R = (new_exchange RoleReceiver (bytes_of_str ''1234'') [] 5 [2])\<lparr>ex_peer := Some 7\<rparr>;
       S = new_exchange RoleSender (bytes_of_str ''1234'') [80] 7 [2]
   in \<exists>m r s. confirm_message demo_crypto R = (Inr m, r) \<and> on_confirm demo_crypto m S = (Inr (), s) \<and>
     ex_tr S = ex_tr R \<and> ex_salt S = ex_salt R \<and> ex_pin S = ex_pin R"
proof -
  define R :: "(byte, byte) exchange" where "R = (new_exchange RoleReceiver (bytes_of_str ''1234'') [] 5 [2])\<lparr>ex_peer := Some 7\<rparr>"
  define S :: "(byte, byte) exchange" where "S = new_exchange RoleSender (bytes_of_str ''1234'') [80] 7 [2]"
  define T where "T = bytes_of_str ''confirm'' @ replicate 65 (5 :: byte)"
  define x :: tag_data where "x = ([2], T, [2], bytes_of_str ''1234'')"
  let ?r = "transcript_add [bytes_of_str ''confirm'', local_pub demo_crypto R] R"
  let ?m = "local_pub demo_crypto R @ tag_of demo_crypto ''R'' x"
  let ?s = "(transcript_add [bytes_of_str ''confirm'', take 65 ?m] S)\<lparr>ex_peer := Some 5\<rparr>"
  have len: "length (tag_of demo_crypto ''R'' x) = 32" by (rule length_tag[OF demo_crypto_ok])
  have pub: "local_pub demo_crypto R = replicate 65 5"
    by (simp add: local_pub_def R_def new_exchange_def demo_crypto_def)
  have t: "take 65 ?m = replicate 65 5" by (simp add: pub)
  have tr: "tag_input demo_crypto ?r = Some x" "tag_input demo_crypto ?s = Some x"
    "tag_input demo_crypto (transcript_add [bytes_of_str ''confirm'', take 65 ?m] (S\<lparr>ex_peer := Some 5\<rparr>)) = Some x"
    unfolding t unfolding pub
    by (simp_all add: tag_input_def transcript_add_def R_def S_def new_exchange_def x_def T_def demo_crypto_def)
  have conf: "confirm_message demo_crypto R = (Inr ?m, ?r)"
    using tr(1) by (intro confirm_message_eq) (simp_all add: R_def new_exchange_def)
  have un: "cy_unmarshal demo_crypto (take 65 ?m) = Some 5" unfolding t by (simp add: demo_crypto_def)
  have acc: "on_confirm demo_crypto ?m S = (Inr (), ?s)"
    using on_confirm_eq[OF _ _ un tr(3)] len by (simp add: pub S_def new_exchange_def Let_def)
  have "collision_free demo_crypto ''R'' x x" by (simp add: collision_free_def)
  then have "?m = ?m \<and> ex_tr S = ex_tr R \<and> ex_salt S = ex_salt R \<and> ex_pin S = ex_pin R"
    by (rule confirm_agreement[OF demo_crypto_ok conf acc refl tr(1,2)])
  then show ?thesis unfolding Let_def R_def[symmetric] S_def[symmetric] using conf acc by blast
qed

end
