(* ===== verification/TrustStore.thy ===== *)
theory TrustStore
  imports Pairing
begin

text \<open>
  The trust stores: who this device is paired with.  \<^verbatim>\<open>fileStore\<close> and \<^verbatim>\<open>keychainStore\<close> of
  \<^verbatim>\<open>engine/mobile/store.go\<close> and \<^verbatim>\<open>WindowsStore\<close> of \<^verbatim>\<open>engine/internal/pairing/store_windows.go\<close>.  The
  JSON text of a state is the state itself; a file that does not parse is \<open>FileCorrupt\<close>.  What the
  operating system or the Keychain does with a write is an argument of each operation.  The DPAPI
  calls are the arguments \<open>protect\<close> and \<open>unprotect\<close>, PKCS#8 parsing is \<open>parse\<close>.
\<close>

record peer_record =
  pr_id :: bytes
  pr_name :: bytes
  pr_secret :: bytes
  pr_fingerprint :: string
  pr_paired_at :: int

record trust_state =
  ts_identity :: bytes
  ts_peers :: "peer_record list"

datatype store_error = ReadFailed | BadJson | WriteFailed | ProtectFailed | BadIdentity | MarshalFailed

section \<open>The list of peers\<close>

fun upsert :: "peer_record \<Rightarrow> peer_record list \<Rightarrow> peer_record list" where
  "upsert r [] = [r]"
| "upsert r (p # ps) = (if pr_id p = pr_id r then r # ps else p # upsert r ps)"

definition forget :: "bytes \<Rightarrow> peer_record list \<Rightarrow> peer_record list" where
  "forget i ps = filter (\<lambda>p. pr_id p \<noteq> i) ps"

definition peer_of :: "peer_record list \<Rightarrow> bytes \<Rightarrow> peer_record option" where
  "peer_of ps = map_of (map (\<lambda>p. (pr_id p, p)) ps)"

lemma peer_of_upsert: "peer_of (upsert r ps) = (peer_of ps)(pr_id r \<mapsto> r)"
  by (induction ps) (auto simp: peer_of_def)

lemma peer_of_forget: "peer_of (forget i ps) = (peer_of ps)(i := None)"
  by (induction ps) (auto simp: peer_of_def forget_def)

lemma upsert_ids: "pr_id ` set (upsert r ps) = insert (pr_id r) (pr_id ` set ps)"
  by (induction ps) auto

lemma upsert_distinct: "distinct (map pr_id ps) \<Longrightarrow> distinct (map pr_id (upsert r ps))"
proof (induction ps)
  case (Cons p ps)
  then show ?case using upsert_ids[of r ps] by (auto simp: image_iff)
qed simp

section \<open>The file store\<close>

datatype trust_file = FileMissing | FileUnreadable | FileCorrupt | FileHolds trust_state

text \<open>What \<^verbatim>\<open>os.WriteFile\<close> did: everything, or nothing certain, leaving some file.\<close>

datatype write_outcome = WriteDone | WriteLeft trust_file

definition empty_state :: trust_state where
  "empty_state = \<lparr>ts_identity = [], ts_peers = []\<rparr>"

definition fs_load :: "trust_file \<Rightarrow> store_error + trust_state" where
  "fs_load f =
     (case f of
        FileMissing \<Rightarrow> Inr empty_state
      | FileUnreadable \<Rightarrow> Inl ReadFailed
      | FileCorrupt \<Rightarrow> Inl BadJson
      | FileHolds st \<Rightarrow> Inr st)"

definition fs_save :: "write_outcome \<Rightarrow> trust_state \<Rightarrow> store_error option \<times> trust_file" where
  "fs_save w st = (case w of WriteDone \<Rightarrow> (None, FileHolds st) | WriteLeft f \<Rightarrow> (Some WriteFailed, f))"

definition fs_update :: "write_outcome \<Rightarrow> (trust_state \<Rightarrow> trust_state) \<Rightarrow> trust_file \<Rightarrow> store_error option \<times> trust_file" where
  "fs_update w g f = (case fs_load f of Inl e \<Rightarrow> (Some e, f) | Inr st \<Rightarrow> fs_save w (g st))"

definition fs_load_identity :: "(bytes \<Rightarrow> 'k option) \<Rightarrow> trust_file \<Rightarrow> store_error + 'k option" where
  "fs_load_identity parse f =
     (case fs_load f of
        Inl e \<Rightarrow> Inl e
      | Inr st \<Rightarrow> if ts_identity st = [] then Inr None
                  else case parse (ts_identity st) of None \<Rightarrow> Inl BadIdentity | Some k \<Rightarrow> Inr (Some k))"

definition fs_save_identity :: "write_outcome \<Rightarrow> bytes option \<Rightarrow> trust_file \<Rightarrow> store_error option \<times> trust_file" where
  "fs_save_identity w pkcs8 f =
     (case pkcs8 of None \<Rightarrow> (Some MarshalFailed, f) | Some b \<Rightarrow> fs_update w (\<lambda>st. st\<lparr>ts_identity := b\<rparr>) f)"

definition fs_peers :: "trust_file \<Rightarrow> store_error + peer_record list" where
  "fs_peers f = (case fs_load f of Inl e \<Rightarrow> Inl e | Inr st \<Rightarrow> Inr (ts_peers st))"

definition fs_save_peer :: "write_outcome \<Rightarrow> peer_record \<Rightarrow> trust_file \<Rightarrow> store_error option \<times> trust_file" where
  "fs_save_peer w r f = fs_update w (\<lambda>st. st\<lparr>ts_peers := upsert r (ts_peers st)\<rparr>) f"

definition fs_remove_peer :: "write_outcome \<Rightarrow> bytes \<Rightarrow> trust_file \<Rightarrow> store_error option \<times> trust_file" where
  "fs_remove_peer w i f = fs_update w (\<lambda>st. st\<lparr>ts_peers := forget i (ts_peers st)\<rparr>) f"

section \<open>The Keychain store\<close>

text \<open>
  \<^verbatim>\<open>StoreSource\<close>: what the platform holds.  A blob of peers that is not JSON is \<open>None\<close>; a write either
  happens or fails and changes nothing.
\<close>

record source =
  so_identity :: bytes
  so_peers :: "peer_record list option"
  so_has_peers :: bool

record keychain =
  kc_src :: source
  kc_pkcs8 :: bytes
  kc_peers :: "peer_record list"

definition put_peers :: "bool \<Rightarrow> peer_record list \<Rightarrow> source \<Rightarrow> store_error option \<times> source" where
  "put_peers ok ps src =
     (if ok then (None, src\<lparr>so_peers := Some ps, so_has_peers := True\<rparr>) else (Some WriteFailed, src))"

definition put_identity :: "bool \<Rightarrow> bytes \<Rightarrow> source \<Rightarrow> store_error option \<times> source" where
  "put_identity ok b src = (if ok then (None, src\<lparr>so_identity := b\<rparr>) else (Some WriteFailed, src))"

definition new_keychain_store :: "source \<Rightarrow> store_error + keychain" where
  "new_keychain_store src =
     (if so_has_peers src
      then case so_peers src of
          None \<Rightarrow> Inl BadJson
        | Some ps \<Rightarrow> Inr \<lparr>kc_src = src, kc_pkcs8 = so_identity src, kc_peers = ps\<rparr>
      else Inr \<lparr>kc_src = src, kc_pkcs8 = so_identity src, kc_peers = []\<rparr>)"

definition kc_load_identity :: "(bytes \<Rightarrow> 'k option) \<Rightarrow> keychain \<Rightarrow> store_error + 'k option" where
  "kc_load_identity parse k =
     (if kc_pkcs8 k = [] then Inr None
      else case parse (kc_pkcs8 k) of None \<Rightarrow> Inl BadIdentity | Some x \<Rightarrow> Inr (Some x))"

definition kc_save_identity :: "bool \<Rightarrow> bytes option \<Rightarrow> keychain \<Rightarrow> store_error option \<times> keychain" where
  "kc_save_identity ok pkcs8 k =
     (case pkcs8 of
        None \<Rightarrow> (Some MarshalFailed, k)
      | Some b \<Rightarrow>
          (case put_identity ok b (kc_src k) of
             (Some e, src) \<Rightarrow> (Some e, k\<lparr>kc_src := src\<rparr>)
           | (None, src) \<Rightarrow> (None, k\<lparr>kc_src := src, kc_pkcs8 := b\<rparr>)))"

definition kc_update :: "bool \<Rightarrow> (peer_record list \<Rightarrow> peer_record list) \<Rightarrow> keychain \<Rightarrow> store_error option \<times> keychain" where
  "kc_update ok g k =
     (let next = g (kc_peers k) in
      case put_peers ok next (kc_src k) of
        (Some e, src) \<Rightarrow> (Some e, k\<lparr>kc_src := src\<rparr>)
      | (None, src) \<Rightarrow> (None, k\<lparr>kc_src := src, kc_peers := next\<rparr>))"

definition kc_save_peer :: "bool \<Rightarrow> peer_record \<Rightarrow> keychain \<Rightarrow> store_error option \<times> keychain" where
  "kc_save_peer ok r k = kc_update ok (upsert r) k"

definition kc_remove_peer :: "bool \<Rightarrow> bytes \<Rightarrow> keychain \<Rightarrow> store_error option \<times> keychain" where
  "kc_remove_peer ok i k = kc_update ok (forget i) k"

text \<open>
  \<^verbatim>\<open>migrateLegacyStore\<close>: the outcome, the source and the legacy file afterwards; the two flags say
  whether the source takes the identity and the peers.
\<close>

definition migrate_legacy_store :: "bool \<Rightarrow> bool \<Rightarrow> source \<Rightarrow> trust_file \<Rightarrow> store_error option \<times> source \<times> trust_file" where
  "migrate_legacy_store okId okPeers src f =
     (if so_identity src \<noteq> [] \<or> so_has_peers src then (None, src, f)
      else case f of
        FileMissing \<Rightarrow> (None, src, f)
      | FileUnreadable \<Rightarrow> (Some ReadFailed, src, f)
      | FileCorrupt \<Rightarrow> (Some BadJson, src, f)
      | FileHolds st \<Rightarrow>
          (case (if ts_identity st \<noteq> [] then put_identity okId (ts_identity st) src else (None, src)) of
             (Some e, src1) \<Rightarrow> (Some e, src1, f)
           | (None, src1) \<Rightarrow>
               (case (if ts_peers st \<noteq> [] then put_peers okPeers (ts_peers st) src1 else (None, src1)) of
                  (Some e, src2) \<Rightarrow> (Some e, src2, f)
                | (None, src2) \<Rightarrow> (None, src2, FileMissing))))"

section \<open>The Windows store\<close>

record windows_store =
  ws_state :: trust_state
  ws_file :: trust_file

definition new_windows_store :: "trust_file \<Rightarrow> windows_store" where
  "new_windows_store f =
     \<lparr>ws_state = (case fs_load f of Inl _ \<Rightarrow> empty_state | Inr st \<Rightarrow> st), ws_file = f\<rparr>"

definition ws_save :: "write_outcome \<Rightarrow> windows_store \<Rightarrow> store_error option \<times> windows_store" where
  "ws_save w s = (case fs_save w (ws_state s) of (e, f) \<Rightarrow> (e, s\<lparr>ws_file := f\<rparr>))"

definition ws_load_identity ::
  "(bytes \<Rightarrow> bytes option) \<Rightarrow> (bytes \<Rightarrow> 'k option) \<Rightarrow> bool \<Rightarrow> windows_store \<Rightarrow>
     (store_error + 'k option) \<times> windows_store" where
  "ws_load_identity unprotect parse renamed s =
     (if ts_identity (ws_state s) = [] then (Inr None, s)
      else case unprotect (ts_identity (ws_state s)) of
        None \<Rightarrow> (Inr None, s\<lparr>ws_state := empty_state, ws_file := (if renamed then FileMissing else ws_file s)\<rparr>)
      | Some b \<Rightarrow> ((case parse b of None \<Rightarrow> Inl BadIdentity | Some k \<Rightarrow> Inr (Some k)), s))"

definition ws_save_identity ::
  "(bytes \<Rightarrow> bytes option) \<Rightarrow> write_outcome \<Rightarrow> bytes option \<Rightarrow> windows_store \<Rightarrow> store_error option \<times> windows_store" where
  "ws_save_identity protect w pkcs8 s =
     (case pkcs8 of
        None \<Rightarrow> (Some MarshalFailed, s)
      | Some b \<Rightarrow>
          (case protect b of
             None \<Rightarrow> (Some ProtectFailed, s)
           | Some blob \<Rightarrow> ws_save w (s\<lparr>ws_state := (ws_state s)\<lparr>ts_identity := blob\<rparr>\<rparr>)))"

definition ws_peers :: "windows_store \<Rightarrow> peer_record list" where
  "ws_peers s = ts_peers (ws_state s)"

definition ws_save_peer :: "write_outcome \<Rightarrow> peer_record \<Rightarrow> windows_store \<Rightarrow> store_error option \<times> windows_store" where
  "ws_save_peer w r s = ws_save w (s\<lparr>ws_state := (ws_state s)\<lparr>ts_peers := upsert r (ts_peers (ws_state s))\<rparr>\<rparr>)"

definition ws_remove_peer :: "write_outcome \<Rightarrow> bytes \<Rightarrow> windows_store \<Rightarrow> store_error option \<times> windows_store" where
  "ws_remove_peer w i s = ws_save w (s\<lparr>ws_state := (ws_state s)\<lparr>ts_peers := forget i (ts_peers (ws_state s))\<rparr>\<rparr>)"

section \<open>What a trust store promises\<close>

text \<open>
  \<open>listed s\<close> is what \<^verbatim>\<open>Peers\<close> returns, \<open>stored s\<close> what a fresh store opened on the same medium would
  list.  The two operations are given together with writes that succeed.
\<close>

locale trust_store =
  fixes listed :: "'s \<Rightarrow> peer_record list" and stored :: "'s \<Rightarrow> peer_record list"
    and put :: "peer_record \<Rightarrow> 's \<Rightarrow> store_error option \<times> 's"
    and del :: "bytes \<Rightarrow> 's \<Rightarrow> store_error option \<times> 's"
    and ok :: "'s \<Rightarrow> bool"
  assumes put_ok: "ok s \<Longrightarrow> fst (put r s) = None \<and> ok (snd (put r s)) \<and>
      listed (snd (put r s)) = upsert r (listed s)"
    and del_ok: "ok s \<Longrightarrow> fst (del i s) = None \<and> ok (snd (del i s)) \<and>
      listed (snd (del i s)) = forget i (listed s)"
    and durable: "ok s \<Longrightarrow> stored (snd (put r s)) = listed (snd (put r s)) \<and>
      stored (snd (del i s)) = listed (snd (del i s))"
begin

fun run_ops :: "(peer_record + bytes) list \<Rightarrow> 's \<Rightarrow> 's" where
  "run_ops [] s = s"
| "run_ops (Inl r # es) s = run_ops es (snd (put r s))"
| "run_ops (Inr i # es) s = run_ops es (snd (del i s))"

lemma ops_ok: "ok s \<Longrightarrow> ok (run_ops es s)"
  by (induction es s rule: run_ops.induct) (simp_all add: put_ok del_ok)

lemma ops_listed:
  "ok s \<Longrightarrow> listed (run_ops es s) =
     foldl (\<lambda>ps e. case e of Inl r \<Rightarrow> upsert r ps | Inr i \<Rightarrow> forget i ps) (listed s) es"
  by (induction es s rule: run_ops.induct) (simp_all add: put_ok del_ok)

lemma ops_stored: "ok s \<Longrightarrow> es \<noteq> [] \<Longrightarrow> stored (run_ops es s) = listed (run_ops es s)"
proof (induction es s rule: run_ops.induct)
  case (2 r es s)
  then show ?case by (cases es) (auto simp: put_ok durable)
next
  case (3 i es s)
  then show ?case by (cases es) (auto simp: del_ok durable)
qed simp

lemma ops_lookup:
  "ok s \<Longrightarrow> peer_of (listed (run_ops es s)) =
     foldl (\<lambda>m e. case e of Inl r \<Rightarrow> m(pr_id r \<mapsto> r) | Inr i \<Rightarrow> m(i := None)) (peer_of (listed s)) es"
  by (induction es s rule: run_ops.induct) (simp_all add: put_ok del_ok peer_of_upsert peer_of_forget)

end

definition fs_listed :: "trust_file \<Rightarrow> peer_record list" where
  "fs_listed f = (case fs_peers f of Inl _ \<Rightarrow> [] | Inr ps \<Rightarrow> ps)"

definition fs_ok :: "trust_file \<Rightarrow> bool" where
  "fs_ok f \<longleftrightarrow> (\<exists>st. fs_load f = Inr st)"

interpretation fs: trust_store fs_listed fs_listed "fs_save_peer WriteDone" "fs_remove_peer WriteDone" fs_ok
  by unfold_locales
    (auto simp: fs_listed_def fs_ok_def fs_peers_def fs_save_peer_def fs_remove_peer_def fs_update_def fs_save_def fs_load_def)

definition kc_stored :: "keychain \<Rightarrow> peer_record list" where
  "kc_stored k = (case new_keychain_store (kc_src k) of Inl _ \<Rightarrow> [] | Inr k1 \<Rightarrow> kc_peers k1)"

interpretation kc: trust_store kc_peers kc_stored "kc_save_peer True" "kc_remove_peer True" "\<lambda>_. True"
  by unfold_locales
    (auto simp: kc_stored_def kc_save_peer_def kc_remove_peer_def kc_update_def put_peers_def new_keychain_store_def Let_def)

definition ws_stored :: "windows_store \<Rightarrow> peer_record list" where
  "ws_stored s = ws_peers (new_windows_store (ws_file s))"

interpretation ws: trust_store ws_peers ws_stored "ws_save_peer WriteDone" "ws_remove_peer WriteDone" "\<lambda>_. True"
  by unfold_locales
    (auto simp: ws_stored_def ws_peers_def ws_save_peer_def ws_remove_peer_def ws_save_def fs_save_def
      new_windows_store_def fs_load_def)

section \<open>Properties\<close>

definition spec_ops :: "(peer_record + bytes) list \<Rightarrow> peer_record list \<Rightarrow> peer_record list" where
  "spec_ops es ps = foldl (\<lambda>ps e. case e of Inl r \<Rightarrow> upsert r ps | Inr i \<Rightarrow> forget i ps) ps es"


definition demo_peer :: "byte \<Rightarrow> bytes \<Rightarrow> peer_record" where
  "demo_peer k n = \<lparr>pr_id = replicate 16 k, pr_name = n, pr_secret = replicate 32 k, pr_fingerprint = [], pr_paired_at = 0\<rparr>"


text \<open>
  What a failed write does.  The Keychain store and the file store change nothing they answer with
  when the medium refuses a write and is left as it was; the Windows store reports the error but has
  already changed its memory: a peer whose removal failed on disk is gone until the next start and
  then trusted again.
\<close>

theorem failed_writes:
  "(\<exists>e. kc_save_peer False r k = (Some e, k)) \<and> (\<exists>e. kc_remove_peer False i k = (Some e, k)) \<and>
   (\<exists>e. fs_save_peer (WriteLeft f) r f = (Some e, f)) \<and> (\<exists>e. fs_remove_peer (WriteLeft f) i f = (Some e, f)) \<and>
   (\<exists>e s1. ws_remove_peer (WriteLeft (ws_file s)) i s = (Some e, s1) \<and>
      peer_of (ws_peers s1) = (peer_of (ws_peers s))(i := None) \<and> ws_stored s1 = ws_stored s)"
proof -
  have "\<exists>e. fs_update (WriteLeft f) g f = (Some e, f)" for g
    by (simp add: fs_update_def fs_save_def split: sum.split)
  then show ?thesis
    by (simp add: kc_save_peer_def kc_remove_peer_def kc_update_def put_peers_def fs_save_peer_def
        fs_remove_peer_def ws_remove_peer_def ws_save_def fs_save_def ws_peers_def ws_stored_def peer_of_forget)
qed

text \<open>
  Migration of the legacy file into an empty Keychain.  When the Keychain takes both writes, the
  store opened on it has the legacy identity and peers and the file is gone.  When it takes the
  identity and then refuses the peers, the call fails, and every later call reports success without
  migrating anything: the pairings are lost to the new store.
\<close>

theorem legacy_migration:
  assumes "so_identity src = []" "\<not> so_has_peers src" "ts_identity st \<noteq> []" "ts_peers st \<noteq> []"
  shows "(\<exists>src1 k. migrate_legacy_store True True src (FileHolds st) = (None, src1, FileMissing) \<and>
      new_keychain_store src1 = Inr k \<and> kc_pkcs8 k = ts_identity st \<and> kc_peers k = ts_peers st) \<and>
    (\<exists>src1 k. migrate_legacy_store True False src (FileHolds st) = (Some WriteFailed, src1, FileHolds st) \<and>
      migrate_legacy_store a b src1 (FileHolds st) = (None, src1, FileHolds st) \<and>
      new_keychain_store src1 = Inr k \<and> kc_peers k = [])"
  using assms by (simp add: migrate_legacy_store_def put_identity_def put_peers_def new_keychain_store_def)

theorem legacy_migration_witness:
  "\<exists>src1 k. migrate_legacy_store True False \<lparr>so_identity = [], so_peers = None, so_has_peers = False\<rparr>
      (FileHolds \<lparr>ts_identity = [1], ts_peers = [demo_peer 1 [65]]\<rparr>) =
      (Some WriteFailed, src1, FileHolds \<lparr>ts_identity = [1], ts_peers = [demo_peer 1 [65]]\<rparr>) \<and>
    new_keychain_store src1 = Inr k \<and> kc_peers k = []"
  using legacy_migration[of "\<lparr>so_identity = [], so_peers = None, so_has_peers = False\<rparr>"
      "\<lparr>ts_identity = [1], ts_peers = [demo_peer 1 [65]]\<rparr>" True True] by auto

end
