(* ===== verification/Relay.thy ===== *)
theory Relay
  imports Wire_IO "HOL-Library.AList" "HOL-Library.Sublist"
begin

text \<open>
  The relay, \<^verbatim>\<open>engine/internal/relay/relay.go\<close>: how a phone is matched with a waiting host, the two
  splicing loops, and the envelope that keeps the relay from reading what it forwards.  A connection
  is a number; the goroutines are represented by what they wait for, and every lock-protected or
  blocking region is one step.  AES-GCM and HKDF are the record \<open>aead\<close>.
\<close>

section \<open>Registration\<close>

text \<open>The encodings of the characters \<^verbatim>\<open>strings.TrimSpace\<close> removes (Unicode's White_Space).\<close>

definition space_encodings :: "bytes list" where
  "space_encodings = [[9], [10], [11], [12], [13], [32], [0xC2, 0x85], [0xC2, 0xA0], [0xE1, 0x9A, 0x80]] @
     map (\<lambda>i. [0xE2, 0x80, 0x80 + word_of_nat i]) [0..<11] @
     [[0xE2, 0x80, 0xA8], [0xE2, 0x80, 0xA9], [0xE2, 0x80, 0xAF], [0xE2, 0x81, 0x9F], [0xE3, 0x80, 0x80]]"

function trim_with :: "bytes list \<Rightarrow> bytes \<Rightarrow> bytes" where
  "trim_with encs b =
     (case find (\<lambda>e. e \<noteq> [] \<and> prefix e b) encs of
        None \<Rightarrow> b
      | Some e \<Rightarrow> trim_with encs (drop (length e) b))"
  by pat_completeness auto
termination
proof (relation "measure (\<lambda>(encs, b). length b)")
  fix encs b e assume "find (\<lambda>e. e \<noteq> [] \<and> prefix e b) encs = Some (e :: bytes)"
  then have "e \<noteq> [] \<and> prefix e b" by (auto simp: find_Some_iff)
  then show "((encs, drop (length e) b), encs, b) \<in> measure (\<lambda>(encs, b). length b)"
    by (auto simp: prefix_def)
qed simp

declare trim_with.simps [simp del]

definition trim_space :: "bytes \<Rightarrow> bytes" where
  "trim_space b = rev (trim_with (map rev space_encodings) (rev (trim_with space_encodings b)))"

text \<open>
  The registration on the dedicated stream: role, big-endian length, identifier.  \<open>None\<close> ends the
  connection.
\<close>

abbreviation (input) roleHost :: u8 where "roleHost \<equiv> 72"
abbreviation (input) rolePhone :: u8 where "rolePhone \<equiv> 80"

definition read_registration :: "reader \<Rightarrow> (u8 \<times> bytes) option" where
  "read_registration r =
     (case read_full 3 r of
        Inl _ \<Rightarrow> None
      | Inr (head, r1) \<Rightarrow>
          let role = head ! 0; idLen = 256 * unat (head ! 1) + unat (head ! 2) in
          if idLen = 0 \<or> idLen > 64 \<or> (role \<noteq> roleHost \<and> role \<noteq> rolePhone) then None
          else case read_full idLen r1 of
            Inl _ \<Rightarrow> None
          | Inr (idBytes, _) \<Rightarrow> Some (role, trim_space idBytes))"

section \<open>Matching\<close>

text \<open>
  \<open>rl_waiting\<close> is the map of waiting hosts, \<open>rl_parked\<close> the host connections whose goroutine waits for
  a phone, \<open>rl_held\<close> those that were picked up (their goroutine waits for the relay to stop),
  \<open>rl_splices\<close> the running pairs (host, phone), and \<open>rl_closed\<close> the connections whose goroutine has
  returned, closing them.
\<close>

record relay =
  rl_waiting :: "(bytes \<times> nat) list"
  rl_parked :: "nat list"
  rl_held :: "nat list"
  rl_splices :: "(nat \<times> nat) list"
  rl_closed :: "nat list"

definition empty_relay :: relay where
  "empty_relay = \<lparr>rl_waiting = [], rl_parked = [], rl_held = [], rl_splices = [], rl_closed = []\<rparr>"

definition close_conn :: "nat \<Rightarrow> relay \<Rightarrow> relay" where
  "close_conn c s = s\<lparr>rl_closed := c # rl_closed s\<rparr>"

definition host_registers :: "nat \<Rightarrow> bytes \<Rightarrow> relay \<Rightarrow> relay" where
  "host_registers c i s = s\<lparr>rl_waiting := AList.update i c (rl_waiting s), rl_parked := c # rl_parked s\<rparr>"

definition phone_registers :: "nat \<Rightarrow> bytes \<Rightarrow> relay \<Rightarrow> relay" where
  "phone_registers c i s =
     (case map_of (rl_waiting s) i of
        None \<Rightarrow> close_conn c s
      | Some h \<Rightarrow> s\<lparr>rl_waiting := AList.delete i (rl_waiting s), rl_parked := removeAll h (rl_parked s),
                   rl_held := h # rl_held s, rl_splices := (h, c) # rl_splices s\<rparr>)"

definition connection_arrives :: "nat \<Rightarrow> reader \<Rightarrow> relay \<Rightarrow> relay" where
  "connection_arrives c r s =
     (case read_registration r of
        None \<Rightarrow> close_conn c s
      | Some (role, i) \<Rightarrow> if role = roleHost then host_registers c i s else phone_registers c i s)"

text \<open>
  All four copying loops of a splice have ended: the phone's goroutine returns and closes the phone's
  connection.  The host's goroutine keeps waiting.
\<close>

definition splice_ends :: "nat \<times> nat \<Rightarrow> relay \<Rightarrow> relay" where
  "splice_ends hp s = (if hp \<in> set (rl_splices s)
     then close_conn (snd hp) (s\<lparr>rl_splices := removeAll hp (rl_splices s)\<rparr>) else s)"

datatype relay_event = Arrives nat reader | SpliceEnds "nat \<times> nat"

primrec relay_step :: "relay_event \<Rightarrow> relay \<Rightarrow> relay" where
  "relay_step (Arrives c r) s = connection_arrives c r s"
| "relay_step (SpliceEnds hp) s = splice_ends hp s"

section \<open>Splicing\<close>

text \<open>
  A read returns bytes, an error, or both (\<^verbatim>\<open>io.Reader\<close>); a write may fail.  The loops forward until
  the first error.
\<close>

fun splice_control :: "(bytes \<times> bool) list \<Rightarrow> bool list \<Rightarrow> bytes list" where
  "splice_control [] ws = []"
| "splice_control ((b, err) # rs) ws =
     (if b \<noteq> [] then
        (case ws of
           [] \<Rightarrow> []
         | w # ws1 \<Rightarrow> if \<not> w then [] else b # (if err then [] else splice_control rs ws1))
      else if err then [] else splice_control rs ws)"

fun splice_media :: "bytes option list \<Rightarrow> bool list \<Rightarrow> bytes list" where
  "splice_media [] ws = []"
| "splice_media (None # ds) ws = []"
| "splice_media (Some d # ds) ws =
     (case ws of [] \<Rightarrow> [] | w # ws1 \<Rightarrow> if \<not> w then [] else d # splice_media ds ws1)"

section \<open>The envelope\<close>

record aead =
  ae_nonce_size :: nat
  ae_seal :: "bytes \<Rightarrow> bytes \<Rightarrow> bytes \<Rightarrow> bytes \<Rightarrow> bytes"
  ae_open :: "bytes \<Rightarrow> bytes \<Rightarrow> bytes \<Rightarrow> bytes \<Rightarrow> bytes option"
  ae_derive :: "bytes \<Rightarrow> bytes option"

datatype seal_error = SecretTooShort | KeyDerivation | EnvelopeTooShort | AuthFailed | NoRandom

text \<open>The sealer's key; the AEAD takes key, nonce, text and additional data.\<close>

definition new_sealer :: "aead \<Rightarrow> bytes \<Rightarrow> seal_error + bytes" where
  "new_sealer A secret =
     (if length secret < 32 then Inl SecretTooShort
      else case ae_derive A secret of None \<Rightarrow> Inl KeyDerivation | Some k \<Rightarrow> Inr k)"

definition seal_aad :: "aead \<Rightarrow> bytes \<Rightarrow> bytes option \<Rightarrow> bytes \<Rightarrow> bytes \<Rightarrow> seal_error + bytes" where
  "seal_aad A k nonce aad plain =
     (case nonce of None \<Rightarrow> Inl NoRandom | Some n \<Rightarrow> Inr (n @ ae_seal A k n plain aad))"

definition open_aad :: "aead \<Rightarrow> bytes \<Rightarrow> bytes \<Rightarrow> bytes \<Rightarrow> seal_error + bytes" where
  "open_aad A k aad env =
     (let ns = ae_nonce_size A in
      if length env < ns then Inl EnvelopeTooShort
      else case ae_open A k (take ns env) (drop ns env) aad of None \<Rightarrow> Inl AuthFailed | Some p \<Rightarrow> Inr p)"

definition seal :: "aead \<Rightarrow> bytes \<Rightarrow> bytes option \<Rightarrow> bytes \<Rightarrow> seal_error + bytes" where
  "seal A k nonce plain = seal_aad A k nonce [] plain"

definition open_env :: "aead \<Rightarrow> bytes \<Rightarrow> bytes \<Rightarrow> seal_error + bytes" where
  "open_env A k env = open_aad A k [] env"

definition relay_append_u64 :: "bytes \<Rightarrow> u64 \<Rightarrow> bytes" where
  "relay_append_u64 dst v = dst @ put_le 8 v"

text \<open>
  The documented behaviour of an AEAD at one key: opening gives back what was sealed with the same
  nonce and additional data.
\<close>

definition aead_correct :: "aead \<Rightarrow> bool" where
  "aead_correct A \<longleftrightarrow> (\<forall>k n p a. length n = ae_nonce_size A \<longrightarrow> ae_open A k n (ae_seal A k n p a) a = Some p)"

definition sealed :: "aead \<Rightarrow> bytes \<Rightarrow> bytes \<Rightarrow> bytes \<Rightarrow> bytes" where
  "sealed A k n p = (case seal A k (Some n) p of Inl _ \<Rightarrow> [] | Inr e \<Rightarrow> e)"

text \<open>A cipher to evaluate with: XOR with the key's first byte, the additional data as the tag.\<close>

definition demo_aead :: aead where
  "demo_aead = \<lparr>ae_nonce_size = 12,
     ae_seal = (\<lambda>k n p a. put_be 4 (word_of_nat (length p) :: u32) @ map (\<lambda>b. b XOR hd (k @ [0])) p @ a),
     ae_open = (\<lambda>k n c a. if length c < 4 then None
        else let m = map (\<lambda>b. b XOR hd (k @ [0])) (take (length c - 4 - length a) (drop 4 c))
          in if drop (4 + length m) c = a \<and> take 4 c = put_be 4 (word_of_nat (length m) :: u32) then Some m else None),
     ae_derive = (\<lambda>s. Some (take 32 s))\<rparr>"

lemma demo_aead_correct: "aead_correct demo_aead"
  by (simp add: aead_correct_def demo_aead_def Let_def comp_def xor.assoc)

lemma envelope_ok:
  assumes "aead_correct A" "length n = ae_nonce_size A"
  shows "seal A k (Some n) p = Inr (sealed A k n p)" "open_env A k (sealed A k n p) = Inr p"
  using assms by (simp_all add: sealed_def seal_def seal_aad_def open_env_def open_aad_def aead_correct_def)

section \<open>The matching invariant\<close>

definition conns :: "relay \<Rightarrow> nat set" where
  "conns s = set (rl_parked s) \<union> set (rl_held s) \<union> set (rl_closed s) \<union> snd ` set (rl_splices s)"

definition relay_inv :: "relay \<Rightarrow> bool" where
  "relay_inv s \<longleftrightarrow> distinct (map fst (rl_waiting s)) \<and> distinct (map snd (rl_waiting s)) \<and>
     snd ` set (rl_waiting s) \<subseteq> set (rl_parked s) \<and> set (rl_parked s) \<inter> set (rl_held s) = {} \<and>
     distinct (map fst (rl_splices s)) \<and> distinct (map snd (rl_splices s)) \<and>
     fst ` set (rl_splices s) \<subseteq> set (rl_held s) \<and>
     set (rl_closed s) \<inter> (set (rl_parked s) \<union> set (rl_held s) \<union> snd ` set (rl_splices s)) = {} \<and>
     snd ` set (rl_splices s) \<inter> (set (rl_parked s) \<union> set (rl_held s)) = {}"

primrec arrival :: "relay_event \<Rightarrow> nat list" where
  "arrival (Arrives c r) = [c]"
| "arrival (SpliceEnds hp) = []"

definition arrivals :: "relay_event list \<Rightarrow> nat list" where
  "arrivals es = concat (map arrival es)"

definition relay_run :: "relay_event list \<Rightarrow> relay \<Rightarrow> relay" where
  "relay_run = fold relay_step"

lemma update_values:
  "c \<notin> snd ` set w \<Longrightarrow> distinct (map snd w) \<Longrightarrow>
     distinct (map snd (AList.update i c w)) \<and> snd ` set (AList.update i c w) \<subseteq> insert c (snd ` set w)"
  by (induction w) (auto simp: image_iff)

lemma delete_values: "distinct (map snd w) \<Longrightarrow> distinct (map snd (AList.delete i w))"
  by (simp add: AList.delete_eq distinct_map_filter)

lemma delete_value_gone:
  assumes "map_of w i = Some h" "distinct (map snd w)"
  shows "snd ` set (AList.delete i w) \<subseteq> snd ` set w - {h}"
proof -
  have "(i, h) \<in> set w" using assms(1) by (rule map_of_SomeD)
  then have "k = i" if "(k, h) \<in> set w" for k
    using inj_onD[of snd "set w" "(k, h)" "(i, h)"] that assms(2) by (simp add: distinct_map)
  then show ?thesis by (auto simp: AList.delete_eq)
qed

lemma relay_step_inv:
  assumes inv: "relay_inv s" and fresh: "\<forall>c \<in> set (arrival e). c \<notin> conns s"
  shows "relay_inv (relay_step e s) \<and> conns (relay_step e s) \<subseteq> conns s \<union> set (arrival e)"
proof (cases e)
  case (Arrives c r)
  have c: "c \<notin> conns s" using fresh Arrives by simp
  have shut: "relay_inv (close_conn c s) \<and> conns (close_conn c s) \<subseteq> conns s \<union> {c}"
    using inv c by (auto simp: relay_inv_def close_conn_def conns_def)
  have host: "relay_inv (host_registers c i s) \<and> conns (host_registers c i s) \<subseteq> conns s \<union> {c}" for i
  proof -
    have "c \<notin> snd ` set (rl_waiting s)" using inv c by (auto simp: relay_inv_def conns_def)
    then show ?thesis using inv c update_values[of c "rl_waiting s" i]
      by (auto simp: relay_inv_def host_registers_def conns_def distinct_update)
  qed
  have phone: "relay_inv (phone_registers c i s) \<and> conns (phone_registers c i s) \<subseteq> conns s \<union> {c}" for i
  proof (cases "map_of (rl_waiting s) i")
    case None
    then show ?thesis using shut by (simp add: phone_registers_def)
  next
    case (Some h)
    have w: "distinct (map snd (rl_waiting s))" "h \<in> set (rl_parked s)"
      using inv map_of_SomeD[OF Some] by (force simp: relay_inv_def)+
    note gone = delete_value_gone[OF Some w(1)] and dv = delete_values[OF w(1), of i]
    have "distinct (map fst (AList.delete i (rl_waiting s)))" using inv by (simp add: relay_inv_def distinct_delete)
    moreover have "h \<noteq> c" using w(2) c by (auto simp: conns_def)
    ultimately show ?thesis using inv c w(2) gone dv Some
      by (auto simp: relay_inv_def phone_registers_def conns_def)
  qed
  show ?thesis using shut host phone Arrives
    by (auto simp: connection_arrives_def split: option.split)
next
  case (SpliceEnds hp)
  have d: "snd hp \<notin> snd ` (set (rl_splices s) - {hp})" if "hp \<in> set (rl_splices s)"
    using inv that by (auto simp: relay_inv_def distinct_map dest: inj_onD)
  have f: "distinct (map fst (removeAll hp (rl_splices s)))" "distinct (map snd (removeAll hp (rl_splices s)))"
    using inv by (simp_all add: relay_inv_def removeAll_filter_not_eq distinct_map_filter)
  show ?thesis using inv SpliceEnds d f
    by (auto simp: splice_ends_def close_conn_def relay_inv_def conns_def)
qed

lemma relay_run_inv:
  assumes "relay_inv s" "distinct (arrivals es)" "\<forall>c \<in> set (arrivals es). c \<notin> conns s"
  shows "relay_inv (relay_run es s) \<and> conns (relay_run es s) \<subseteq> conns s \<union> set (arrivals es)"
  using assms
proof (induction es arbitrary: s)
  case Nil
  then show ?case by (simp add: relay_run_def)
next
  case (Cons e es)
  have fresh: "\<forall>c \<in> set (arrival e). c \<notin> conns s" using Cons.prems(3) by (auto simp: arrivals_def)
  note step = relay_step_inv[OF Cons.prems(1) fresh]
  have "relay_inv (relay_run es (relay_step e s)) \<and>
      conns (relay_run es (relay_step e s)) \<subseteq> conns (relay_step e s) \<union> set (arrivals es)"
    using step Cons.prems(2,3) by (intro Cons.IH) (auto simp: arrivals_def)
  then show ?case using step by (auto simp: relay_run_def arrivals_def)
qed

text \<open>A parked connection that no identifier leads to stays parked: nothing can splice or close it.\<close>

definition orphaned :: "nat \<Rightarrow> relay \<Rightarrow> bool" where
  "orphaned c s \<longleftrightarrow> c \<in> set (rl_parked s) \<and> c \<notin> snd ` set (rl_waiting s)"

lemma update_value_subset: "snd ` set (AList.update i c w) \<subseteq> insert c (snd ` set w)"
  by (induction w) auto

lemma orphaned_step:
  assumes "orphaned c s" "relay_inv s" "c \<notin> set (arrival e)"
  shows "orphaned c (relay_step e s)"
proof (cases e)
  case (Arrives d r)
  have host: "orphaned c (host_registers d i s)" for i
    using assms(1,3) Arrives update_value_subset[of i d "rl_waiting s"] by (auto simp: orphaned_def host_registers_def)
  have phone: "orphaned c (phone_registers d i s)" for i
    using assms(1) map_of_SomeD[of "rl_waiting s" i]
    by (force simp: orphaned_def phone_registers_def close_conn_def AList.delete_eq split: option.splits)
  have "orphaned c (close_conn d s)" using assms(1) by (simp add: orphaned_def close_conn_def)
  then show ?thesis using host phone Arrives by (auto simp: connection_arrives_def split: option.split)
next
  case (SpliceEnds hp)
  then show ?thesis using assms(1) by (simp add: splice_ends_def close_conn_def orphaned_def)
qed

lemma orphaned_run:
  assumes "orphaned c s" "relay_inv s" "distinct (arrivals es)" "\<forall>d \<in> set (arrivals es). d \<notin> conns s"
  shows "orphaned c (relay_run es s)"
  using assms
proof (induction es arbitrary: s)
  case Nil
  then show ?case by (simp add: relay_run_def)
next
  case (Cons e es)
  have fresh: "\<forall>d \<in> set (arrival e). d \<notin> conns s" using Cons.prems(4) by (auto simp: arrivals_def)
  note step = relay_step_inv[OF Cons.prems(2) fresh]
  have "c \<notin> set (arrival e)" using fresh Cons.prems(1) by (auto simp: orphaned_def conns_def)
  then have "orphaned c (relay_step e s)" by (rule orphaned_step[OF Cons.prems(1,2)])
  then have "orphaned c (relay_run es (relay_step e s))"
    using step Cons.prems(3,4) by (intro Cons.IH) (auto simp: arrivals_def)
  then show ?case by (simp add: relay_run_def)
qed

lemma disjoint_groups:
  "W \<subseteq> P \<Longrightarrow> P \<inter> H = {} \<Longrightarrow> F \<subseteq> H \<Longrightarrow> C \<inter> (P \<union> H \<union> S) = {} \<Longrightarrow> S \<inter> (P \<union> H) = {} \<Longrightarrow>
     F \<inter> S = {} \<and> C \<inter> P = {} \<and> C \<inter> F = {} \<and> C \<inter> S = {} \<and> C \<inter> W = {} \<and> P \<inter> (F \<union> S) = {} \<and> W \<inter> (F \<union> S) = {}"
  by blast

lemma relay_inv_groups:
  assumes "relay_inv s"
  shows "fst ` set (rl_splices s) \<inter> snd ` set (rl_splices s) = {}"
    "set (rl_closed s) \<inter> set (rl_parked s) = {}" "set (rl_closed s) \<inter> fst ` set (rl_splices s) = {}" "set (rl_closed s) \<inter> snd ` set (rl_splices s) = {}"
    "set (rl_closed s) \<inter> snd ` set (rl_waiting s) = {}"
    "set (rl_parked s) \<inter> (fst ` set (rl_splices s) \<union> snd ` set (rl_splices s)) = {}" "snd ` set (rl_waiting s) \<inter> (fst ` set (rl_splices s) \<union> snd ` set (rl_splices s)) = {}"
  using assms disjoint_groups[of "snd ` set (rl_waiting s)" "set (rl_parked s)" "set (rl_held s)" "fst ` set (rl_splices s)"
      "set (rl_closed s)" "snd ` set (rl_splices s)"]
  unfolding relay_inv_def by simp_all

section \<open>Properties\<close>


definition host_hello :: "bytes \<Rightarrow> reader" where
  "host_hello i = \<lparr>r_data = roleHost # put_be 2 (word_of_nat (length i) :: u16) @ i, r_end = EOF\<rparr>"

definition phone_hello :: "bytes \<Rightarrow> reader" where
  "phone_hello i = \<lparr>r_data = rolePhone # put_be 2 (word_of_nat (length i) :: u16) @ i, r_end = EOF\<rparr>"


text \<open>
  A host that registers a second time strands its first connection.  The relay forgets the first
  connection, so in every continuation it stays open and waiting, is never spliced and never closed.
\<close>

theorem reregistration_strands_host:
  assumes "distinct (c1 # c2 # arrivals es)"
  shows "(let s = relay_run es (host_registers c2 i (host_registers c1 i empty_relay)) in
      c1 \<in> set (rl_parked s) \<and> c1 \<notin> snd ` set (rl_waiting s) \<and> c1 \<notin> set (rl_closed s) \<and>
      c1 \<notin> fst ` set (rl_splices s) \<union> snd ` set (rl_splices s))"
proof -
  let ?s = "host_registers c2 i (host_registers c1 i empty_relay)"
  have inv: "relay_inv ?s" and con: "conns ?s = {c1, c2}" and orph: "orphaned c1 ?s"
    using assms by (auto simp: host_registers_def empty_relay_def relay_inv_def conns_def orphaned_def)
  have fresh: "distinct (arrivals es)" "\<forall>d \<in> set (arrivals es). d \<notin> conns ?s" using assms con by auto
  have "orphaned c1 (relay_run es ?s)" by (rule orphaned_run[OF orph inv fresh])
  then have "c1 \<in> set (rl_parked (relay_run es ?s))" "c1 \<notin> snd ` set (rl_waiting (relay_run es ?s))"
    by (simp_all add: orphaned_def)
  moreover have "relay_inv (relay_run es ?s)" using relay_run_inv[OF inv fresh] by simp
  note relay_inv_groups(2,6)[OF this]
  ultimately show ?thesis unfolding Let_def by blast
qed

theorem reregistration_strands_host_witness:
  "(let s = relay_run [Arrives 3 (phone_hello [65])] (host_registers 2 [65] (host_registers 1 [65] empty_relay)) in
      1 \<in> set (rl_parked s) \<and> 1 \<notin> set (rl_closed s))"
  using reregistration_strands_host[of 1 2 "[Arrives 3 (phone_hello [65])]" "[65]"] by (simp add: arrivals_def Let_def)



end
