(* ===== verification/Session.thy ===== *)
theory Session
  imports ControlV2 Relay Pairing
begin

text \<open>
  The control-plane session, \<^verbatim>\<open>engine/internal/session/session.go\<close>: sending and receiving one control
  message with or without the relay envelope, the hello exchange, starting a stream, and the loop
  that serves messages until the connection ends.  A blocking receive takes its message from the
  reader; a receive whose context ends first sees the reader end with \<open>NetTimeout\<close>.  The mutex
  protects single assignments and is not modelled.
\<close>

section \<open>State\<close>

datatype sess_role = RoleHost | RoleClient

datatype sess_error =
    SeClosed
  | SeSealFailed
  | SeOpenFailed
  | SeCtl ctl_error
  | SeUnexpected u16
  | SeDecode ctl_error
  | SeUnsupported
  | SeWrongRole
  | SeRefused string

text \<open>
  The envelope functions of relay mode; sealing draws a nonce, so it also depends on how many messages
  were sealed before.
\<close>

record session =
  se_role :: sess_role
  se_closed :: bool
  se_seal :: "(nat \<Rightarrow> bytes \<Rightarrow> bytes option) option"
  se_open :: "(bytes \<Rightarrow> bytes option) option"
  se_sealed :: nat
  se_in :: reader
  se_out :: writer
  se_peer_name :: bytes
  se_peer_id :: bytes
  se_local_id :: bytes
  se_local_name :: bytes
  se_active :: caps
  se_format_gen :: u32
  se_resume_token :: bytes

definition no_caps :: caps where
  "no_caps = \<lparr>c_codec = 0, c_sample_rate = 0, c_channels = 0, c_frame_ms = 0, c_opus_bitrate = 0, c_fec = 0,
     c_dtx = 0, c_complexity = 0, c_app_id = 0\<rparr>"

definition new_session :: "sess_role \<Rightarrow> bytes \<Rightarrow> reader \<Rightarrow> writer \<Rightarrow> session" where
  "new_session role localID r w =
     \<lparr>se_role = role, se_closed = False, se_seal = None, se_open = None, se_sealed = 0, se_in = r, se_out = w,
      se_peer_name = [], se_peer_id = replicate 16 0, se_local_id = localID, se_local_name = [],
      se_active = no_caps, se_format_gen = 0, se_resume_token = replicate 32 0\<rparr>"

definition set_sealer :: "(nat \<Rightarrow> bytes \<Rightarrow> bytes option) \<Rightarrow> (bytes \<Rightarrow> bytes option) \<Rightarrow> session \<Rightarrow> session" where
  "set_sealer f g s = s\<lparr>se_seal := Some f, se_open := Some g\<rparr>"

definition set_local_name :: "bytes \<Rightarrow> session \<Rightarrow> session" where
  "set_local_name name s = s\<lparr>se_local_name := name\<rparr>"

definition peer_id_string :: "session \<Rightarrow> string" where
  "peer_id_string s = (if se_peer_id s = replicate 16 0 then '''' else hex_of_bytes (se_peer_id s))"

definition close_session :: "session \<Rightarrow> session" where
  "close_session s = (if se_closed s then s else s\<lparr>se_closed := True\<rparr>)"

section \<open>One message\<close>

definition ctl_message :: "u16 \<Rightarrow> bytes \<Rightarrow> message" where
  "ctl_message t p = \<lparr>msg_type = t, msg_flags = 0, msg_request_id = 0, msg_payload = p\<rparr>"

definition send :: "message \<Rightarrow> session \<Rightarrow> sess_error option \<times> session" where
  "send m s =
     (if se_closed s then (Some SeClosed, s)
      else
        let write = (\<lambda>m s. case write_message (se_out s) m of
                Inl e \<Rightarrow> (Some (SeCtl e), s) | Inr w \<Rightarrow> (None, s\<lparr>se_out := w\<rparr>))
        in case se_seal s of
             None \<Rightarrow> write m s
           | Some f \<Rightarrow>
               if msg_payload m = [] then write m s
               else (case f (se_sealed s) (msg_payload m) of
                   None \<Rightarrow> (Some SeSealFailed, s)
                 | Some p \<Rightarrow> write (m\<lparr>msg_payload := p\<rparr>) (s\<lparr>se_sealed := se_sealed s + 1\<rparr>)))"

definition recv :: "session \<Rightarrow> (sess_error + message) \<times> session" where
  "recv s =
     (if se_closed s then (Inl SeClosed, s)
      else case read_message (se_in s) of
        Inl e \<Rightarrow> (Inl (if e = CtlIO EOF then SeClosed else SeCtl e), s)
      | Inr (m, r) \<Rightarrow>
          let s1 = s\<lparr>se_in := r\<rparr> in
          (case se_open s of
             None \<Rightarrow> (Inr m, s1)
           | Some g \<Rightarrow>
               if msg_payload m = [] then (Inr m, s1)
               else (case g (msg_payload m) of
                   None \<Rightarrow> (Inl SeOpenFailed, s1)
                 | Some p \<Rightarrow> (Inr (m\<lparr>msg_payload := p\<rparr>), s1))))"

section \<open>The hello exchange\<close>

definition hello_message :: "bytes \<Rightarrow> bytes \<Rightarrow> caps \<Rightarrow> message" where
  "hello_message name localID offered =
     ctl_message MsgHello (append_hello []
       \<lparr>h_proto_version = 1, h_min_proto = 1, h_device_name = name, h_device_id = localID, h_caps = offered\<rparr>)"

definition send_hello :: "bytes \<Rightarrow> caps \<Rightarrow> session \<Rightarrow> sess_error option \<times> session" where
  "send_hello name offered s = send (hello_message name (se_local_id s) offered) s"

definition select_profile :: "caps \<Rightarrow> caps \<Rightarrow> caps option" where
  "select_profile offered peer =
     (if c_sample_rate offered \<noteq> c_sample_rate peer then None
      else if c_channels offered \<noteq> c_channels peer then None
      else let codec = (if c_codec peer \<noteq> c_codec offered then CodecPCMS16LE else c_codec offered);
               ms = c_frame_ms peer
        in Some (offered\<lparr>c_codec := codec, c_frame_ms := (if ms = 0 then 10 else ms)\<rparr>))"

definition note_peer :: "hello \<Rightarrow> session \<Rightarrow> session" where
  "note_peer h s = s\<lparr>se_peer_name := h_device_name h, se_peer_id := h_device_id h\<rparr>"

text \<open>
  \<^verbatim>\<open>CompleteHello\<close>; \<open>token\<close> is what \<^verbatim>\<open>rand.Read\<close> yields.  The hello that is returned together with an
  error is dropped: no caller looks at it.
\<close>

definition complete_hello :: "bytes \<Rightarrow> message \<Rightarrow> caps \<Rightarrow> session \<Rightarrow> (sess_error + hello) \<times> session" where
  "complete_hello token m offered s0 =
     (if se_role s0 \<noteq> RoleHost then (Inl SeWrongRole, s0)
      else if msg_type m \<noteq> MsgHello then (Inl (SeUnexpected (msg_type m)), s0)
      else case decode_hello (msg_payload m) of
        Inl e \<Rightarrow> (Inl (SeDecode e), s0)
      | Inr h \<Rightarrow>
          let s = note_peer h s0 in
          (case select_profile offered (h_caps h) of
             None \<Rightarrow> (Inl SeUnsupported, snd (send (ctl_message MsgHelloOK []) s))
           | Some selected \<Rightarrow>
               let s1 = s\<lparr>se_active := selected, se_resume_token := token\<rparr> in
               (case send (hello_message (se_local_name s1) (se_local_id s1) offered) s1 of
                  (Some e, s2) \<Rightarrow> (Inl e, s2)
                | (None, s2) \<Rightarrow>
                    (case send (ctl_message MsgHelloOK (append_hello_ok []
                           \<lparr>ho_profile = selected, ho_resume_token = token\<rparr>)) s2 of
                       (Some e, s3) \<Rightarrow> (Inl e, s3)
                     | (None, s3) \<Rightarrow> (Inr h, s3)))))"

text \<open>The client's part of \<^verbatim>\<open>ExchangeHellos\<close> after its own hello.\<close>

definition await_hello :: "message \<Rightarrow> session \<Rightarrow> (sess_error + hello) \<times> session" where
  "await_hello m s =
     (if msg_type m \<noteq> MsgHello then (Inl (SeUnexpected (msg_type m)), s)
      else case decode_hello (msg_payload m) of
        Inl e \<Rightarrow> (Inl (SeDecode e), s)
      | Inr h \<Rightarrow>
          (case recv (note_peer h s) of
             (Inl e, s1) \<Rightarrow> (Inl e, s1)
           | (Inr okMsg, s1) \<Rightarrow>
               if msg_type okMsg \<noteq> MsgHelloOK then (Inl (SeUnexpected (msg_type okMsg)), s1)
               else (case decode_hello_ok (msg_payload okMsg) of
                   Inl e \<Rightarrow> (Inl (SeDecode e), s1)
                 | Inr ok \<Rightarrow> (Inr h, s1\<lparr>se_active := ho_profile ok, se_resume_token := ho_resume_token ok\<rparr>))))"

definition exchange_hellos :: "bytes \<Rightarrow> bytes \<Rightarrow> caps \<Rightarrow> session \<Rightarrow> (sess_error + hello) \<times> session" where
  "exchange_hellos token name offered s =
     (case send_hello name offered s of
        (Some e, s1) \<Rightarrow> (Inl e, s1)
      | (None, s1) \<Rightarrow>
          (case recv s1 of
             (Inl e, s2) \<Rightarrow> (Inl e, s2)
           | (Inr m, s2) \<Rightarrow>
               if se_role s2 = RoleHost
               then if msg_type m \<noteq> MsgHello then (Inl (SeUnexpected (msg_type m)), s2)
                    else complete_hello token m offered s2
               else await_hello m s2))"

section \<open>Starting the stream\<close>

definition request_stream :: "caps \<Rightarrow> session \<Rightarrow> (sess_error + stream_ack) \<times> session" where
  "request_stream request s =
     (if se_role s \<noteq> RoleClient then (Inl SeWrongRole, s)
      else case send (ctl_message MsgStreamStart (caps_append [] request)) s of
        (Some e, s1) \<Rightarrow> (Inl e, s1)
      | (None, s1) \<Rightarrow>
          (case recv s1 of
             (Inl e, s2) \<Rightarrow> (Inl e, s2)
           | (Inr m, s2) \<Rightarrow>
               if msg_type m \<noteq> MsgStreamAck then (Inl (SeUnexpected (msg_type m)), s2)
               else (case decode_stream_ack (msg_payload m) of
                   Inl e \<Rightarrow> (Inl (SeCtl e), s2)
                 | Inr ack \<Rightarrow> (Inr ack, s2\<lparr>se_active := sa_active ack, se_format_gen := sa_format_gen ack\<rparr>))))"

text \<open>The producer may change the host's state \<open>'h\<close>.\<close>

type_synonym 'h producer = "caps \<Rightarrow> 'h \<Rightarrow> (string + caps \<times> u32) \<times> 'h"

definition start_stream :: "'h producer \<Rightarrow> 'h \<Rightarrow> session \<Rightarrow> sess_error option \<times> 'h \<times> session" where
  "start_stream producer h s =
     (if se_role s \<noteq> RoleHost then (Some SeWrongRole, h, s)
      else case recv s of
        (Inl e, s1) \<Rightarrow> (Some e, h, s1)
      | (Inr m, s1) \<Rightarrow>
          if msg_type m \<noteq> MsgStreamStart then (Some (SeUnexpected (msg_type m)), h, s1)
          else (case decode_caps (msg_payload m) of
              Inl e \<Rightarrow> (Some (SeDecode e), h, s1)
            | Inr req \<Rightarrow>
                (case producer req h of
                   (Inl e, h1) \<Rightarrow> (Some (SeRefused e), h1, snd (send (ctl_message MsgStreamAck []) s1))
                 | (Inr (active, gen), h1) \<Rightarrow>
                     let s2 = s1\<lparr>se_active := active, se_format_gen := gen\<rparr>;
                         (e, s3) = send (ctl_message MsgStreamAck
                           (append_stream_ack [] \<lparr>sa_active = active, sa_format_gen = gen\<rparr>)) s2
                     in (e, h1, s3))))"

definition send_stats :: "stats \<Rightarrow> session \<Rightarrow> sess_error option \<times> session" where
  "send_stats st s = send (ctl_message MsgStats (append_stats [] st)) s"

definition volume_payload :: "u16 \<Rightarrow> byte \<Rightarrow> bytes" where
  "volume_payload v mute = [ucast (v AND 0xFF), ucast (drop_bit 8 v), mute]"

definition send_volume :: "u16 \<Rightarrow> byte \<Rightarrow> session \<Rightarrow> sess_error option \<times> session" where
  "send_volume v mute s = send (ctl_message MsgVolume (volume_payload v mute)) s"

section \<open>Serving\<close>

text \<open>
  A handler changes the application's state, may send messages whose errors it ignores, and may close
  the connection; of what was still to come, the \<open>held\<close> bytes in the \<^verbatim>\<open>bufio.Reader\<close> remain readable then.
\<close>

type_synonym 'h handler = "message \<Rightarrow> 'h \<Rightarrow> 'h \<times> message list \<times> bool"

fun send_ignoring :: "message list \<Rightarrow> session \<Rightarrow> session" where
  "send_ignoring [] s = s"
| "send_ignoring (m # ms) s = send_ignoring ms (snd (send m s))"

definition handle :: "nat \<Rightarrow> 'h handler option \<Rightarrow> message \<Rightarrow> 'h \<Rightarrow> session \<Rightarrow> 'h \<times> session" where
  "handle held hnd m h s =
     (case hnd of
        None \<Rightarrow> (h, s)
      | Some f \<Rightarrow>
          let (h1, out, close) = f m h; s1 = send_ignoring out s
          in (h1, if close then s1\<lparr>se_in := \<lparr>r_data = take held (r_data (se_in s1)), r_end = NetClosed\<rparr>\<rparr> else s1))"

lemma send_keeps [simp]: "se_in (snd (send m s)) = se_in s" "se_closed (snd (send m s)) = se_closed s"
  "se_open (snd (send m s)) = se_open s" "se_role (snd (send m s)) = se_role s"
  by (simp_all add: send_def Let_def split: option.split sum.split)

lemma send_ignoring_keeps [simp]: "se_in (send_ignoring ms s) = se_in s" "se_closed (send_ignoring ms s) = se_closed s"
  "se_open (send_ignoring ms s) = se_open s"
  by (induction ms arbitrary: s) simp_all

lemma read_message_shorter:
  "read_message r = Inr (m, r') \<Longrightarrow> length (r_data r') < length (r_data r)"
  using read_message_sound[of r m r'] by (auto simp: message_header_def)

lemma recv_shorter:
  "recv s = (Inr m, s') \<Longrightarrow> length (r_data (se_in s')) < length (r_data (se_in s))"
  by (auto simp: recv_def Let_def dest!: read_message_shorter split: if_splits sum.splits option.splits)

lemma handle_shorter: "length (r_data (se_in (snd (handle held hnd m h s)))) \<le> length (r_data (se_in s))"
  by (simp add: handle_def Let_def split: option.split prod.split)

text \<open>
  The result is \<open>None\<close> for a loop that ends without an error.  A close by the handler shows at the next
  receive.
\<close>

function serve_loop :: "nat \<Rightarrow> 'h handler option \<Rightarrow> 'h \<Rightarrow> session \<Rightarrow> sess_error option \<times> 'h \<times> session" where
  "serve_loop held hnd h s =
     (case recv s of
        (Inl e, s1) \<Rightarrow> (if e = SeClosed then None else Some e, h, s1)
      | (Inr m, s1) \<Rightarrow> (case handle held hnd m h s1 of (h1, s2) \<Rightarrow> serve_loop held hnd h1 s2))"
  by pat_completeness auto
termination
proof (relation "measure (\<lambda>(held, hnd, h, s). length (r_data (se_in s)))")
  fix held and hnd :: "'h handler option" and h s res s1 m hs h1 s2
  assume a: "(res, s1) = recv s" "res = Inr m" "(h1, s2) = handle held hnd m h s1"
  have "length (r_data (se_in s1)) < length (r_data (se_in s))" using recv_shorter[of s m s1] a(1,2) by metis
  then show "((held, hnd, h1, s2), held, hnd, h, s) \<in> measure (\<lambda>(held, hnd, h, s). length (r_data (se_in s)))"
    using handle_shorter[of held hnd m h s1] a(3)[symmetric] by simp
qed simp

declare serve_loop.simps [simp del]

section \<open>What a channel delivers\<close>

text \<open>
  \<open>chan_ok k f g\<close>: the receiver's \<open>g\<close> opens what the sender's \<open>f\<close> seals, with at most \<open>k\<close> bytes of
  overhead, or both work without an envelope.  \<open>wire f n m\<close> is what the sender then writes.
\<close>

definition chan_ok :: "nat \<Rightarrow> (nat \<Rightarrow> bytes \<Rightarrow> bytes option) option \<Rightarrow> (bytes \<Rightarrow> bytes option) option \<Rightarrow> bool" where
  "chan_ok k sl op \<longleftrightarrow>
     (case sl of
        None \<Rightarrow> op = None
      | Some f \<Rightarrow> (\<exists>g. op = Some g \<and> (\<forall>n p. p \<noteq> [] \<longrightarrow>
          (\<exists>e. f n p = Some e \<and> e \<noteq> [] \<and> g e = Some p \<and> length e \<le> length p + k))))"

definition sealed_payload :: "(nat \<Rightarrow> bytes \<Rightarrow> bytes option) option \<Rightarrow> nat \<Rightarrow> bytes \<Rightarrow> bytes" where
  "sealed_payload sl n p = (case sl of None \<Rightarrow> p | Some f \<Rightarrow> if p = [] then [] else the (f n p))"

definition wire :: "(nat \<Rightarrow> bytes \<Rightarrow> bytes option) option \<Rightarrow> nat \<Rightarrow> message \<Rightarrow> bytes" where
  "wire sl n m = (let m1 = m\<lparr>msg_payload := sealed_payload sl n (msg_payload m)\<rparr> in message_header m1 @ msg_payload m1)"

definition bump :: "(nat \<Rightarrow> bytes \<Rightarrow> bytes option) option \<Rightarrow> nat \<Rightarrow> message \<Rightarrow> nat" where
  "bump sl n m = (if sl = None \<or> msg_payload m = [] then n else n + 1)"

definition ready :: "session \<Rightarrow> bool" where
  "ready s \<longleftrightarrow> \<not> se_closed s \<and> w_room (se_out s) = None"

definition incoming :: "bytes \<Rightarrow> io_error \<Rightarrow> session \<Rightarrow> session" where
  "incoming b e s = s\<lparr>se_in := \<lparr>r_data = b, r_end = e\<rparr>\<rparr>"

definition sent :: "session \<Rightarrow> session \<Rightarrow> bytes" where
  "sent s s1 = drop (length (w_out (se_out s))) (w_out (se_out s1))"

lemma chan_ok_seal:
  assumes "chan_ok k (Some f) op" "p \<noteq> []"
  obtains e g where "f n p = Some e" "e \<noteq> []" "length e \<le> length p + k" "op = Some g" "g e = Some p"
  using assms unfolding chan_ok_def option.case by blast

lemma sealed_payload_bounds:
  assumes "chan_ok k sl op"
  shows "length (sealed_payload sl n p) \<le> length p + k" "sealed_payload sl n p = [] \<longleftrightarrow> p = []"
proof -
  have "length (sealed_payload sl n p) \<le> length p + k \<and> (sealed_payload sl n p = [] \<longleftrightarrow> p = [])"
  proof (cases sl)
    case (Some f)
    show ?thesis
    proof (cases "p = []")
      case False
      then obtain e where "f n p = Some e" "e \<noteq> []" "length e \<le> length p + k"
        using chan_ok_seal[OF assms[unfolded Some]] by metis
      then show ?thesis using Some False by (simp add: sealed_payload_def)
    qed (simp add: Some sealed_payload_def)
  qed (simp add: sealed_payload_def)
  then show "length (sealed_payload sl n p) \<le> length p + k" "sealed_payload sl n p = [] \<longleftrightarrow> p = []"
    by simp_all
qed

definition put :: "message \<Rightarrow> session \<Rightarrow> session" where
  "put m s = s\<lparr>se_out := wr_append (se_out s) (wire (se_seal s) (se_sealed s) m),
     se_sealed := bump (se_seal s) (se_sealed s) m\<rparr>"

lemma put_simps [simp]:
  "se_role (put m s) = se_role s" "se_closed (put m s) = se_closed s" "se_seal (put m s) = se_seal s"
  "se_open (put m s) = se_open s" "se_in (put m s) = se_in s" "se_peer_name (put m s) = se_peer_name s"
  "se_peer_id (put m s) = se_peer_id s" "se_local_id (put m s) = se_local_id s"
  "se_local_name (put m s) = se_local_name s" "se_active (put m s) = se_active s"
  "se_format_gen (put m s) = se_format_gen s" "se_resume_token (put m s) = se_resume_token s"
  "ready (put m s) = ready s" "se_sealed (put m s) = bump (se_seal s) (se_sealed s) m"
  "w_out (se_out (put m s)) = w_out (se_out s) @ wire (se_seal s) (se_sealed s) m"
  by (simp_all add: put_def ready_def wr_append_def)

lemma incoming_simps [simp]:
  "se_role (incoming b e s) = se_role s" "se_closed (incoming b e s) = se_closed s"
  "se_seal (incoming b e s) = se_seal s" "se_open (incoming b e s) = se_open s"
  "se_local_id (incoming b e s) = se_local_id s" "se_local_name (incoming b e s) = se_local_name s"
  "se_sealed (incoming b e s) = se_sealed s" "se_out (incoming b e s) = se_out s"
  "se_active (incoming b e s) = se_active s" "se_format_gen (incoming b e s) = se_format_gen s"
  "ready (incoming b e s) = ready s" "incoming b2 e2 (incoming b e s) = incoming b2 e2 s"
  by (simp_all add: incoming_def ready_def)

lemma put_incoming: "put m (incoming b e s) = incoming b e (put m s)"
  by (simp add: put_def incoming_def)

lemma send_ok:
  assumes "ready s" "chan_ok k (se_seal s) op" "length (msg_payload m) + k \<le> 4096"
  shows "send m s = (None, put m s)"
proof -
  let ?m = "m\<lparr>msg_payload := sealed_payload (se_seal s) (se_sealed s) (msg_payload m)\<rparr>"
  have room: "wr_room_for n (se_out s)" for n using assms(1) by (simp add: ready_def wr_room_for_def)
  have "message_wf ?m" using sealed_payload_bounds(1)[OF assms(2), of "se_sealed s" "msg_payload m"] assms(3)
    by (simp add: message_wf_def)
  then have w: "write_message (se_out s) ?m = Inr (wr_append (se_out s) (wire (se_seal s) (se_sealed s) m))"
    using write_message_ok[OF _ room] by (simp add: wire_def Let_def)
  have nc: "\<not> se_closed s" using assms(1) by (simp add: ready_def)
  show ?thesis
  proof (cases "se_seal s")
    case None
    then have "?m = m" by (simp add: sealed_payload_def)
    then show ?thesis using w None nc by (cases s) (simp add: send_def put_def bump_def)
  next
    case (Some f)
    show ?thesis
    proof (cases "msg_payload m = []")
      case True
      then have "?m = m" using Some by (simp add: sealed_payload_def)
      then show ?thesis using w Some True nc by (cases s) (simp add: send_def put_def bump_def)
    next
      case False
      then obtain e where e: "f (se_sealed s) (msg_payload m) = Some e"
        using chan_ok_seal[OF assms(2)[unfolded Some]] by metis
      have "?m = m\<lparr>msg_payload := e\<rparr>" using Some False e by (simp add: sealed_payload_def)
      then show ?thesis using w Some False e nc by (simp add: send_def put_def bump_def Let_def)
    qed
  qed
qed

lemma recv_ok:
  assumes "chan_ok k sl (se_open r)" "\<not> se_closed r" "length (msg_payload m) + k \<le> 4096"
  shows "recv (incoming (wire sl n m @ rest) e r) = (Inr m, incoming rest e r)"
proof -
  let ?p = "sealed_payload sl n (msg_payload m)"
  let ?m = "m\<lparr>msg_payload := ?p\<rparr>"
  have "message_wf ?m" using sealed_payload_bounds(1)[OF assms(1), of n "msg_payload m"] assms(3)
    by (simp add: message_wf_def)
  from msg_stream.rd_enc[OF this, where r = "\<lparr>r_data = [], r_end = e\<rparr>" and rest = rest]
  have rd: "read_message \<lparr>r_data = wire sl n m @ rest, r_end = e\<rparr> = Inr (?m, \<lparr>r_data = rest, r_end = e\<rparr>)"
    by (simp add: wire_def Let_def)
  show ?thesis
  proof (cases sl)
    case None
    then show ?thesis using assms(1,2) rd by (simp add: recv_def incoming_def chan_ok_def sealed_payload_def)
  next
    case (Some f)
    then obtain g where g: "se_open r = Some g" using assms(1) by (auto simp: chan_ok_def)
    show ?thesis
    proof (cases "msg_payload m = []")
      case True
      then have "?m = m" using Some by (simp add: sealed_payload_def)
      then show ?thesis using True g rd assms(2) by (simp add: recv_def incoming_def)
    next
      case False
      then obtain e where "f n (msg_payload m) = Some e" "e \<noteq> []" "g e = Some (msg_payload m)"
        using chan_ok_seal[OF assms(1)[unfolded Some]] g by (metis option.sel)
      then have "g ?p = Some (msg_payload m)" "?p \<noteq> []" using Some False by (simp_all add: sealed_payload_def)
      then show ?thesis using g rd assms(2) by (simp add: recv_def incoming_def Let_def)
    qed
  qed
qed

lemma ctl_message_simps [simp]: "msg_type (ctl_message t p) = t" "msg_payload (ctl_message t p) = p"
  by (simp_all add: ctl_message_def)

lemma length_append_hello [simp]:
  "length (h_device_id h) = 16 \<Longrightarrow> length (append_hello [] h) = 37 + length (h_device_name h)"
  by (simp add: append_hello_def)

lemma length_append_hello_ok [simp]: "length (append_hello_ok [] h) = 15 + length (ho_resume_token h)"
  by (simp add: append_hello_ok_def)

text \<open>Both ends of an established connection, with room for \<open>k\<close> bytes of envelope on every payload.\<close>

definition connected :: "nat \<Rightarrow> session \<Rightarrow> session \<Rightarrow> bool" where
  "connected k C H \<longleftrightarrow> k \<le> 2048 \<and> se_role C = RoleClient \<and> se_role H = RoleHost \<and> ready C \<and> ready H \<and>
     chan_ok k (se_seal C) (se_open H) \<and> chan_ok k (se_seal H) (se_open C) \<and>
     length (se_local_id C) = 16 \<and> length (se_local_id H) = 16"

definition hello_of :: "bytes \<Rightarrow> bytes \<Rightarrow> caps \<Rightarrow> hello" where
  "hello_of name localID offered =
     \<lparr>h_proto_version = 1, h_min_proto = 1, h_device_name = name, h_device_id = localID, h_caps = offered\<rparr>"

lemma hello_message_eq: "hello_message name i offered = ctl_message MsgHello (append_hello [] (hello_of name i offered))"
  by (simp add: hello_message_def hello_of_def)

lemma hello_of_simps [simp]: "h_device_name (hello_of n i c) = n" "h_device_id (hello_of n i c) = i"
  "h_caps (hello_of n i c) = c"
  by (simp_all add: hello_of_def)

lemma decode_hello_of: "length i = 16 \<Longrightarrow> length n < 65536 \<Longrightarrow> decode_hello (append_hello [] (hello_of n i c)) = Inr (hello_of n i c)"
  by (rule hello.dec_enc) (simp add: hello_wf_def)

lemma complete_hello_eq:
  assumes con: "connected k C H" and size: "length (se_local_name H) \<le> 2000" "length token = 32"
    and d: "decode_hello p = Inr h"
  shows "complete_hello token (ctl_message MsgHello p) offered H =
    (let s = note_peer h H in
     case select_profile offered (h_caps h) of
       None \<Rightarrow> (Inl SeUnsupported, put (ctl_message MsgHelloOK []) s)
     | Some sel \<Rightarrow> (Inr h, put (ctl_message MsgHelloOK (append_hello_ok [] \<lparr>ho_profile = sel, ho_resume_token = token\<rparr>))
         (put (hello_message (se_local_name H) (se_local_id H) offered)
            (s\<lparr>se_active := sel, se_resume_token := token\<rparr>))))"
proof -
  have r: "se_role H = RoleHost" "ready H" "chan_ok k (se_seal H) (se_open C)" "length (se_local_id H) = 16" "k \<le> 2048"
    using con by (simp_all add: connected_def)
  have s: "send m s = (None, put m s)"
    if "ready s" "se_seal s = se_seal H" "length (msg_payload m) \<le> 2048" for m s
    using send_ok[OF that(1), of k "se_open C" m] r that by simp
  have rn: "ready (note_peer h H)" "ready (note_peer h H\<lparr>se_active := sel, se_resume_token := token\<rparr>)" for sel
    using r(2) by (simp_all add: ready_def note_peer_def)
  show ?thesis
  proof (cases "select_profile offered (h_caps h)")
    case None
    then show ?thesis using r(1) d s[OF rn(1), of "ctl_message MsgHelloOK []"]
      by (simp add: complete_hello_def Let_def note_peer_def)
  next
    case (Some sel)
    let ?s = "note_peer h H\<lparr>se_active := sel, se_resume_token := token\<rparr>"
    let ?hm = "hello_message (se_local_name H) (se_local_id H) offered"
    have f: "se_seal ?s = se_seal H" "se_local_name ?s = se_local_name H" "se_local_id ?s = se_local_id H"
      by (simp_all add: note_peer_def)
    have "length (msg_payload ?hm) \<le> 2048" using size r(4) by (simp add: hello_message_eq)
    note s1 = s[OF rn(2) f(1) this]
    have "send (ctl_message MsgHelloOK (append_hello_ok [] \<lparr>ho_profile = sel, ho_resume_token = token\<rparr>)) (put ?hm ?s) =
      (None, put (ctl_message MsgHelloOK (append_hello_ok [] \<lparr>ho_profile = sel, ho_resume_token = token\<rparr>)) (put ?hm ?s))"
      by (rule s) (use rn(2) f(1) size in simp_all)
    then show ?thesis using r(1) d Some s1 f by (simp add: complete_hello_def Let_def)
  qed
qed

lemma select_profile_compatible:
  "select_profile offered want = Some sel \<Longrightarrow>
     c_sample_rate sel = c_sample_rate want \<and> c_channels sel = c_channels want \<and> c_frame_ms sel \<noteq> 0 \<and>
     c_codec sel \<in> {c_codec offered, CodecPCMS16LE} \<and> (c_codec sel = c_codec want \<or> c_codec sel = CodecPCMS16LE)"
  by (auto simp: select_profile_def Let_def split: if_splits)

lemma client_reads_hellos:
  fixes offered sel :: caps
  assumes con: "connected k C H" and n: "length name \<le> 2000" "length hname \<le> 2000" "length token = 32"
  defines "hm \<equiv> hello_message hname (se_local_id H) offered"
  defines "ok \<equiv> ctl_message MsgHelloOK (append_hello_ok [] \<lparr>ho_profile = sel, ho_resume_token = token\<rparr>)"
  shows "exchange_hellos tk name want
      (incoming (wire (se_seal H) n0 hm @ wire (se_seal H) n1 ok @ ra) e C) =
    (Inr (hello_of hname (se_local_id H) offered),
     (note_peer (hello_of hname (se_local_id H) offered)
        (incoming ra e (put (hello_message name (se_local_id C) want) C)))\<lparr>se_active := sel, se_resume_token := token\<rparr>)"
proof -
  have r: "se_role C = RoleClient" "ready C" "chan_ok k (se_seal C) (se_open H)" "chan_ok k (se_seal H) (se_open C)"
    "\<not> se_closed C" "length (se_local_id C) = 16" "length (se_local_id H) = 16" "k \<le> 2048"
    using con by (simp_all add: connected_def ready_def)
  let ?C1 = "put (hello_message name (se_local_id C) want) C"
  let ?in = "\<lambda>b. incoming b e ?C1"
  have snd: "send_hello name want (incoming b e C) = (None, ?in b)" for b
    using send_ok[of "incoming b e C" k "se_open H" "hello_message name (se_local_id C) want"] r n
    by (simp add: send_hello_def hello_message_eq put_incoming)
  have hm: "recv (?in (wire (se_seal H) n0 hm @ rest)) = (Inr hm, ?in rest)" for rest
    using recv_ok[of k "se_seal H" ?C1 hm n0 rest e] r n by (simp add: hm_def hello_message_eq)
  have ok: "recv (note_peer h (?in (wire (se_seal H) n1 ok @ rest))) = (Inr ok, note_peer h (?in rest))" for h rest
  proof -
    have "note_peer h (?in b) = incoming b e (note_peer h ?C1)" for b
      by (simp add: note_peer_def incoming_def)
    then show ?thesis using recv_ok[of k "se_seal H" "note_peer h ?C1" ok n1 rest e] r n
      by (simp add: ok_def note_peer_def)
  qed
  have dh: "decode_hello (msg_payload hm) = Inr (hello_of hname (se_local_id H) offered)"
    using decode_hello_of[of "se_local_id H" hname offered] r n by (simp add: hm_def hello_message_eq)
  have dk: "decode_hello_ok (msg_payload ok) = Inr \<lparr>ho_profile = sel, ho_resume_token = token\<rparr>"
    using hello_ok.dec_enc[of "\<lparr>ho_profile = sel, ho_resume_token = token\<rparr>"] n by (simp add: ok_def hello_ok_wf_def)
  have t: "msg_type hm = MsgHello" "msg_type ok = MsgHelloOK" by (simp_all add: hm_def ok_def hello_message_eq)
  show ?thesis using r(1) by (simp add: exchange_hellos_def snd hm t await_hello_def dh ok dk)
qed

section \<open>Properties\<close>

text \<open>
  C15. The hello exchange ends in agreement, with or without the relay envelope.  The host answers the
  client's hello; when sample rate and channel count match, both sides then hold the same profile
  (the client's rate, channels and a non-zero frame length, a codec both named or else PCM) and the
  same resume token, and each knows the other's name and device id; when they do not match, the
  host reports an unsupported format and the client an unexpected message.
\<close>

theorem hello_agreement:
  assumes con: "connected k C H" and n: "length name \<le> 2000" "length (se_local_name H) \<le> 2000" "length token = 32"
  shows "let C1 = snd (send_hello name want C);
      (first, H1) = recv (incoming (sent C C1 @ ra) e H);
      (hostRes, H2) = complete_hello token (case first of Inr m \<Rightarrow> m) offered H1;
      (clientRes, C2) = exchange_hellos tk name want (incoming (sent H H2 @ rb) e2 C)
    in case select_profile offered want of
         Some sel \<Rightarrow>
           hostRes = Inr (hello_of name (se_local_id C) want) \<and>
           clientRes = Inr (hello_of (se_local_name H) (se_local_id H) offered) \<and>
           se_active H2 = sel \<and> se_active C2 = sel \<and> se_resume_token H2 = token \<and> se_resume_token C2 = token \<and>
           se_peer_id H2 = se_local_id C \<and> se_peer_id C2 = se_local_id H \<and> se_peer_name H2 = name \<and>
           c_sample_rate sel = c_sample_rate want \<and> c_channels sel = c_channels want \<and> c_frame_ms sel \<noteq> 0 \<and>
           (c_codec sel = c_codec want \<and> c_codec sel = c_codec offered \<or> c_codec sel = CodecPCMS16LE)
       | None \<Rightarrow> hostRes = Inl SeUnsupported \<and> clientRes = Inl (SeUnexpected MsgHelloOK)"
proof -
  have r: "se_role C = RoleClient" "ready C" "chan_ok k (se_seal C) (se_open H)" "chan_ok k (se_seal H) (se_open C)"
    "\<not> se_closed C" "\<not> se_closed H" "length (se_local_id C) = 16" "length (se_local_id H) = 16" "k \<le> 2048"
    using con by (simp_all add: connected_def ready_def)
  let ?cm = "hello_message name (se_local_id C) want"
  let ?H1 = "incoming ra e H"
  have c1: "send_hello name want s = (None, put ?cm s)"
    if "ready s" "se_seal s = se_seal C" "se_local_id s = se_local_id C" for s
    using send_ok[of s k "se_open H" ?cm] that r n by (simp add: send_hello_def hello_message_eq)
  have s1: "sent C (put ?cm C) = wire (se_seal C) (se_sealed C) ?cm" by (simp add: sent_def)
  have first: "recv (incoming (wire (se_seal C) (se_sealed C) ?cm @ ra) e H) = (Inr ?cm, ?H1)"
    using recv_ok[of k "se_seal C" H ?cm] r n by (simp add: hello_message_eq)
  have conH: "connected k C ?H1" using con by (simp add: connected_def)
  have d: "decode_hello (append_hello [] (hello_of name (se_local_id C) want)) = Inr (hello_of name (se_local_id C) want)"
    using decode_hello_of r n by simp
  note comp = complete_hello_eq[OF conH _ n(3) d, of offered, folded hello_message_eq, simplified, OF n(2)]
  show ?thesis
  proof (cases "select_profile offered want")
    case None
    let ?ok = "ctl_message MsgHelloOK []"
    have "recv (incoming (wire (se_seal H) (se_sealed H) ?ok @ rb) e2 (put ?cm C)) = (Inr ?ok, incoming rb e2 (put ?cm C))"
      using recv_ok[of k "se_seal H" "put ?cm C" ?ok] r by simp
    then have "fst (exchange_hellos tk name want (incoming (wire (se_seal H) (se_sealed H) ?ok @ rb) e2 C)) =
        Inl (SeUnexpected MsgHelloOK)"
      using r(1,2) c1[of "incoming (wire (se_seal H) (se_sealed H) ?ok @ rb) e2 C"]
      by (simp add: exchange_hellos_def put_incoming await_hello_def)
    then show ?thesis using None r(2)
      by (simp add: c1 s1 first comp sent_def note_peer_def Let_def prod.case_eq_if)
  next
    case (Some sel)
    define H2 where "H2 = put (ctl_message MsgHelloOK (append_hello_ok [] \<lparr>ho_profile = sel, ho_resume_token = token\<rparr>))
      (put (hello_message (se_local_name H) (se_local_id H) offered)
        (note_peer (hello_of name (se_local_id C) want) ?H1\<lparr>se_active := sel, se_resume_token := token\<rparr>))"
    have H2: "complete_hello token ?cm offered ?H1 = (Inr (hello_of name (se_local_id C) want), H2)"
      using comp Some by (simp add: Let_def H2_def)
    obtain n0 n1 where w: "sent H H2 = wire (se_seal H) n0 (hello_message (se_local_name H) (se_local_id H) offered) @
        wire (se_seal H) n1 (ctl_message MsgHelloOK (append_hello_ok [] \<lparr>ho_profile = sel, ho_resume_token = token\<rparr>))"
      by (simp add: sent_def note_peer_def H2_def)
    define C2 where "C2 = (note_peer (hello_of (se_local_name H) (se_local_id H) offered)
        (incoming rb e2 (put ?cm C)))\<lparr>se_active := sel, se_resume_token := token\<rparr>"
    have C2: "exchange_hellos tk name want (incoming (sent H H2 @ rb) e2 C) =
        (Inr (hello_of (se_local_name H) (se_local_id H) offered), C2)"
      using client_reads_hellos[OF con n, of tk want n0 offered n1 sel rb e2] by (simp add: w C2_def)
    have p: "se_active H2 = sel" "se_resume_token H2 = token" "se_peer_id H2 = se_local_id C" "se_peer_name H2 = name"
      "se_active C2 = sel" "se_resume_token C2 = token" "se_peer_id C2 = se_local_id H"
      by (simp_all add: note_peer_def H2_def C2_def)
    have c1C: "send_hello name want C = (None, put ?cm C)" by (rule c1[OF r(2)]) simp_all
    show ?thesis using select_profile_compatible[OF Some]
      unfolding c1C snd_conv Let_def s1 first prod.case sum.case H2 C2 Some option.case
      by (auto simp: p)
  qed
qed

definition stereo48 :: "u8 \<Rightarrow> caps" where
  "stereo48 codec = no_caps\<lparr>c_codec := codec, c_sample_rate := 48000, c_channels := 2, c_frame_ms := 5\<rparr>"

definition demo_client :: session where
  "demo_client = new_session RoleClient (replicate 16 1) \<lparr>r_data = [], r_end = EOF\<rparr> \<lparr>w_out = [], w_room = None\<rparr>"

definition demo_host :: session where
  "demo_host = new_session RoleHost (replicate 16 2) \<lparr>r_data = [], r_end = EOF\<rparr> \<lparr>w_out = [], w_room = None\<rparr>"

lemma demo_connected: "connected 0 demo_client demo_host"
  by (simp add: connected_def demo_client_def demo_host_def new_session_def ready_def chan_ok_def)

theorem hello_agreement_witness:
  "let C1 = snd (send_hello [65] (stereo48 CodecOpus) demo_client);
      (first, H1) = recv (incoming (sent demo_client C1 @ []) EOF demo_host);
      (hostRes, H2) = complete_hello (replicate 32 7) (case first of Inr m \<Rightarrow> m) (stereo48 CodecPCMS16LE) H1;
      (clientRes, C2) = exchange_hellos [] [65] (stereo48 CodecOpus) (incoming (sent demo_host H2 @ []) EOF demo_client)
    in se_active C2 = stereo48 CodecPCMS16LE \<and> se_active H2 = stereo48 CodecPCMS16LE \<and> se_peer_id C2 = replicate 16 2"
proof -
  have n: "length [65 :: byte] \<le> 2000" "length (se_local_name demo_host) \<le> 2000" "length (replicate 32 (7 :: byte)) = 32"
    by (simp_all add: demo_host_def new_session_def)
  have sel: "select_profile (stereo48 CodecPCMS16LE) (stereo48 CodecOpus) = Some (stereo48 CodecPCMS16LE)"
    by (simp add: select_profile_def stereo48_def no_caps_def Let_def)
  have i: "se_local_id demo_host = replicate 16 2" by (simp add: demo_host_def new_session_def)
  show ?thesis
    using hello_agreement[OF demo_connected n, of "stereo48 CodecOpus" "[]" EOF "stereo48 CodecPCMS16LE" "[]" "[]" EOF]
    unfolding sel option.case i Let_def by (auto simp: prod.case_eq_if)
qed

text \<open>
  C14. Starting a stream ends in agreement.  What the host's producer decides for the client's request is
  what both sides then hold as active format and generation; when the producer refuses, the host
  reports its error, the client an error too, and neither changes its format.
\<close>

theorem stream_agreement:
  assumes con: "connected k C H"
  shows "let C1 = snd (send (ctl_message MsgStreamStart (caps_append [] want)) C);
      (hostErr, h1, H1) = start_stream producer h (incoming (sent C C1 @ ra) e H);
      (clientRes, C2) = request_stream want (incoming (sent H H1 @ rb) e2 C)
    in case producer want h of
         (Inr (active, gen), h') \<Rightarrow>
           hostErr = None \<and> h1 = h' \<and> clientRes = Inr \<lparr>sa_active = active, sa_format_gen = gen\<rparr> \<and>
           se_active H1 = active \<and> se_active C2 = active \<and> se_format_gen H1 = gen \<and> se_format_gen C2 = gen
       | (Inl msg, h') \<Rightarrow>
           hostErr = Some (SeRefused msg) \<and> h1 = h' \<and> (\<exists>err. clientRes = Inl err) \<and>
           se_active H1 = se_active H \<and> se_active C2 = se_active C"
proof -
  have r: "se_role C = RoleClient" "se_role H = RoleHost" "ready C" "ready H" "chan_ok k (se_seal C) (se_open H)"
    "chan_ok k (se_seal H) (se_open C)" "\<not> se_closed C" "\<not> se_closed H" "k \<le> 2048"
    using con by (simp_all add: connected_def ready_def)
  let ?start = "ctl_message MsgStreamStart (caps_append [] want)"
  have c1: "send ?start s = (None, put ?start s)" if "ready s" "se_seal s = se_seal C" for s
    using send_ok[of s k "se_open H" ?start] that r by simp
  have c1C: "send ?start C = (None, put ?start C)" by (rule c1[OF r(3) refl])
  have s1: "sent C (put ?start C) = wire (se_seal C) (se_sealed C) ?start" by (simp add: sent_def)
  have first: "recv (incoming (sent C (put ?start C) @ ra) e H) = (Inr ?start, incoming ra e H)"
    using recv_ok[of k "se_seal C" H ?start] r by (simp add: s1)
  have dec: "decode_caps (caps_append [] want) = Inr want" using decode_caps_enc[of want "[]"] by simp
  have reply: "request_stream want (incoming (wire (se_seal H) n m @ rb) e2 C) =
      (if msg_type m \<noteq> MsgStreamAck then (Inl (SeUnexpected (msg_type m)), incoming rb e2 (put ?start C))
       else case decode_stream_ack (msg_payload m) of
           Inl err \<Rightarrow> (Inl (SeCtl err), incoming rb e2 (put ?start C))
         | Inr ack \<Rightarrow> (Inr ack, (incoming rb e2 (put ?start C))
              \<lparr>se_active := sa_active ack, se_format_gen := sa_format_gen ack\<rparr>))"
    if "length (msg_payload m) \<le> 2048" for n m
    using recv_ok[of k "se_seal H" "put ?start C" m n rb e2] r that
      c1[of "incoming (wire (se_seal H) n m @ rb) e2 C"]
    by (simp add: request_stream_def put_incoming)
  show ?thesis
  proof (cases "producer want h")
    case (Pair res h')
    show ?thesis
    proof (cases res)
      case (Inl msg)
      let ?ack = "ctl_message MsgStreamAck []"
      have "send ?ack (incoming ra e H) = (None, put ?ack (incoming ra e H))"
        using send_ok[of "incoming ra e H" k "se_open C" ?ack] r by simp
      then have H1: "start_stream producer h (incoming (sent C (put ?start C) @ ra) e H) =
          (Some (SeRefused msg), h', put ?ack (incoming ra e H))"
        using r(2) by (simp add: start_stream_def first dec Pair Inl)
      have w: "sent H (put ?ack (incoming ra e H)) = wire (se_seal H) (se_sealed H) ?ack" by (simp add: sent_def)
      have "decode_stream_ack [] = Inl (CtlLengthMismatch ''stream-ack'')" by (simp add: decode_stream_ack_def)
      then show ?thesis unfolding c1C snd_conv Let_def H1 prod.case w Pair Inl sum.case
        using reply[of ?ack "se_sealed H"] by simp
    next
      case (Inr ag)
      obtain active gen where ag: "ag = (active, gen)" by (cases ag)
      let ?sa = "\<lparr>sa_active = active, sa_format_gen = gen\<rparr>"
      let ?ack = "ctl_message MsgStreamAck (append_stream_ack [] ?sa)"
      define H0 where "H0 = (incoming ra e H)\<lparr>se_active := active, se_format_gen := gen\<rparr>"
      have len: "length (append_stream_ack [] ?sa) = 19" by (simp add: append_stream_ack_def)
      have H0: "ready H0" "se_seal H0 = se_seal H" "se_sealed H0 = se_sealed H" "se_out H0 = se_out H"
        using r(4) by (simp_all add: H0_def ready_def)
      have "send ?ack H0 = (None, put ?ack H0)" using send_ok[of H0 k "se_open C" ?ack] r H0 len by simp
      then have H1: "start_stream producer h (incoming (sent C (put ?start C) @ ra) e H) = (None, h', put ?ack H0)"
        using r(2) by (simp add: start_stream_def first dec Pair Inr ag H0_def Let_def)
      have w: "sent H (put ?ack H0) = wire (se_seal H) (se_sealed H) ?ack" by (simp add: sent_def H0)
      have a: "se_active (put ?ack H0) = active" "se_format_gen (put ?ack H0) = gen" by (simp_all add: H0_def)
      have "decode_stream_ack (append_stream_ack [] ?sa) = Inr ?sa" by (rule stream_ack.dec_enc) simp
      then show ?thesis unfolding c1C snd_conv Let_def H1 prod.case w Pair Inr ag sum.case
        using reply[of ?ack "se_sealed H"] len a by simp
    qed
  qed
qed

theorem stream_agreement_witness:
  "let C1 = snd (send (ctl_message MsgStreamStart (caps_append [] (stereo48 0))) demo_client);
      (hostErr, h1, H1) = start_stream (\<lambda>c n. (Inr (c, 1), n + 1)) (0 :: nat) (incoming (sent demo_client C1 @ []) EOF demo_host);
      (clientRes, C2) = request_stream (stereo48 0) (incoming (sent demo_host H1 @ []) EOF demo_client)
    in clientRes = Inr \<lparr>sa_active = stereo48 0, sa_format_gen = 1\<rparr> \<and> hostErr = None \<and> h1 = 1"
  using stream_agreement[OF demo_connected, of "stereo48 0" "\<lambda>c n. (Inr (c, 1), n + 1)" "0 :: nat" "[]" EOF "[]" EOF]
  by (auto simp: Let_def prod.case_eq_if)

lemma recv_eof: "\<not> se_closed s \<Longrightarrow> recv (incoming [] EOF s) = (Inl SeClosed, incoming [] EOF s)"
  by (simp add: recv_def incoming_def read_message_def read_full_def)

lemma send_ignoring_incoming: "\<exists>s'. send_ignoring ms (incoming b e s) = incoming b e s' \<and> se_closed s' = se_closed s \<and> se_open s' = se_open s"
  using send_ignoring_keeps[of ms "incoming b e s"]
  by (intro exI[of _ "send_ignoring ms (incoming b e s)"]) (simp add: incoming_def)

text \<open>
  The serving loop hands every control message to the handler exactly once and in the order the peer
  sent them, opening the envelope where there is one, and ends without an error when the peer closes
  the stream.
\<close>

theorem control_served_in_order:
  assumes "\<not> se_closed s" "chan_ok k sl (se_open s)" "list_all (\<lambda>m. length (msg_payload m) + k \<le> 4096) ms"
    and "length ns = length ms" "\<forall>m h. \<not> snd (snd (hnd m h))"
  shows "\<exists>s'. serve_loop held (Some hnd) h (incoming (concat (map2 (wire sl) ns ms)) EOF s) =
    (None, foldl (\<lambda>h m. fst (hnd m h)) h ms, s')"
  using assms
proof (induction ms arbitrary: ns h s)
  case Nil
  then show ?case by (subst serve_loop.simps) (simp add: recv_eof)
next
  case (Cons m ms)
  then obtain n ns' where ns: "ns = n # ns'" by (cases ns) auto
  let ?rest = "concat (map2 (wire sl) ns' ms)"
  have rc: "recv (incoming (wire sl n m @ ?rest) EOF s) = (Inr m, incoming ?rest EOF s)"
    using recv_ok[of k sl s m n ?rest EOF] Cons.prems by simp
  obtain h1 out where hm: "hnd m h = (h1, out, False)" using Cons.prems(5) by (metis prod.collapse)
  obtain s1 where s1: "send_ignoring out (incoming ?rest EOF s) = incoming ?rest EOF s1" "se_closed s1 = se_closed s"
    "se_open s1 = se_open s"
    using send_ignoring_incoming by blast
  have "\<exists>s'. serve_loop held (Some hnd) h1 (incoming ?rest EOF s1) = (None, foldl (\<lambda>h m. fst (hnd m h)) h1 ms, s')"
    using Cons.prems s1 ns by (intro Cons.IH) simp_all
  moreover have "serve_loop held (Some hnd) h (incoming (wire sl n m @ ?rest) EOF s) =
      serve_loop held (Some hnd) h1 (incoming ?rest EOF s1)"
    by (subst serve_loop.simps) (simp add: rc handle_def hm s1(1))
  ultimately show ?case by (simp add: ns hm)
qed

theorem control_served_in_order_witness:
  "\<exists>s'. serve_loop 0 (Some (\<lambda>m h. (h @ [msg_type m], [], False))) []
      (incoming (concat (map2 (wire None) [0, 0] [ctl_message MsgPing [1], ctl_message MsgStreamStop []])) EOF demo_host) =
    (None, [MsgPing, MsgStreamStop], s')"
  using control_served_in_order[of demo_host 0 None "[ctl_message MsgPing [1], ctl_message MsgStreamStop []]" "[0, 0]"
      "\<lambda>m h. (h @ [msg_type m], [], False)" 0 "[]"]
  by (simp add: demo_host_def new_session_def chan_ok_def)

end
