(* ===== verification/HostStream.thy ===== *)
theory HostStream
  imports ClientMedia MediaV2 ControlV2 AudioFormat
begin

text \<open>
  The media path of the host, \<^verbatim>\<open>engine/internal/engine/host.go\<close>: negotiating what a receiver gets
  (\<^verbatim>\<open>offerCaps\<close>, \<^verbatim>\<open>negotiateCaps\<close>), the per-receiver gain, and \<^verbatim>\<open>sendLoop\<close>, which cuts the shared capture
  into codec frames and puts them into media datagrams.  What \<^verbatim>\<open>readCapture\<close> returned in a turn of the
  loop, together with the receiver's settings at that moment, is an event; whether \<^verbatim>\<open>opus\<close> was built in
  is a parameter.
\<close>

section \<open>Negotiation\<close>

record host_format =
  hf_rate :: int
  hf_channels :: int
  hf_max_bitrate :: int
  hf_opus :: bool

definition clamp_frame_ms :: "u8 \<Rightarrow> u8" where
  "clamp_frame_ms ms = (if ms \<in> {2, 5, 10, 20} then ms else 10)"

definition bool_bit :: "bool \<Rightarrow> u8" where
  "bool_bit b = (if b then 1 else 0)"

definition clamp_u32 :: "u32 \<Rightarrow> u32 \<Rightarrow> u32 \<Rightarrow> u32" where
  "clamp_u32 v lo hi = (if v = 0 then hi else if v < lo then lo else if v > hi then hi else v)"

definition offer_caps :: "host_format \<Rightarrow> caps" where
  "offer_caps ho =
     \<lparr>c_codec = (if hf_opus ho then CodecOpus else CodecPCMS16LE), c_sample_rate = word_of_int (hf_rate ho),
      c_channels = word_of_int (hf_channels ho), c_frame_ms = (if hf_opus ho then 10 else 5),
      c_opus_bitrate = word_of_int (min (hf_max_bitrate ho) 256000),
      c_fec = 0, c_dtx = 0, c_complexity = 0, c_app_id = 0\<rparr>"

text \<open>The loop that is to make PCM fit the datagram budget.\<close>

function pcm_fit :: "u8 \<Rightarrow> u8 \<Rightarrow> u8" where
  "pcm_fit ch ms =
     (if unat ms * unat ch * 2 > MaxDatagramPayload - 32 \<and> ms > 2 then pcm_fit ch (ms div 2) else ms)"
  by pat_completeness auto
termination
proof (relation "measure (\<lambda>(ch, ms). unat ms)")
  fix ch ms :: u8 assume "MaxDatagramPayload - 32 < unat ms * unat ch * 2 \<and> 2 < ms"
  then have "0 < unat ms" by (simp add: word_less_nat_alt)
  then show "((ch, ms div 2), ch, ms) \<in> measure (\<lambda>(ch, ms). unat ms)" by (simp add: unat_div)
qed simp

declare pcm_fit.simps [simp del]

text \<open>What the request and the host's means give before the budget loop and the check.\<close>

definition requested_caps :: "host_format \<Rightarrow> caps \<Rightarrow> caps" where
  "requested_caps ho req =
     (let o1 = (offer_caps ho)
            \<lparr>c_opus_bitrate := clamp_u32 (c_opus_bitrate req) 16000 (word_of_int (max (hf_max_bitrate ho) 256000)),
             c_fec := bool_bit (c_fec req = 1 \<and> hf_opus ho), c_dtx := bool_bit (c_dtx req = 1 \<and> hf_opus ho)\<rparr>;
          o2 = (if c_sample_rate req \<noteq> 0 then o1\<lparr>c_sample_rate := c_sample_rate req\<rparr> else o1);
          o3 = (if c_channels req \<noteq> 0 then o2\<lparr>c_channels := c_channels req\<rparr> else o2);
          o4 = (if c_codec req = CodecPCMS16LE \<or> \<not> hf_opus ho then o3\<lparr>c_codec := CodecPCMS16LE, c_frame_ms := 5\<rparr>
                else if c_codec req = CodecOpus
                then o3\<lparr>c_codec := CodecOpus, c_frame_ms := clamp_frame_ms (c_frame_ms req)\<rparr> else o3);
          o5 = (if c_complexity req \<noteq> 0 then o4\<lparr>c_complexity := c_complexity req\<rparr> else o4)
      in if c_app_id req \<noteq> 0 then o5\<lparr>c_app_id := c_app_id req\<rparr> else o5)"

definition negotiate_caps :: "host_format \<Rightarrow> caps \<Rightarrow> caps_error + caps" where
  "negotiate_caps ho req =
     (let o6 = requested_caps ho req;
          o7 = (if c_codec o6 = CodecPCMS16LE then o6\<lparr>c_frame_ms := pcm_fit (c_channels o6) (c_frame_ms o6)\<rparr> else o6)
      in case caps_validate o7 of Some e \<Rightarrow> Inl e | None \<Rightarrow> Inr o7)"

text \<open>The host's \<^verbatim>\<open>codecConfigFromCaps\<close> and the client's \<^verbatim>\<open>capsToCodecConfig\<close>.\<close>

definition caps_to_codec_config :: "caps \<Rightarrow> codec_config" where
  "caps_to_codec_config c =
     \<lparr>cc_is_opus = (c_codec c = CodecOpus), cc_sample_rate = uint (c_sample_rate c), cc_channels = uint (c_channels c),
      cc_frame_ms = uint (c_frame_ms c), cc_bitrate = uint (c_opus_bitrate c), cc_fec = (c_fec c = 1),
      cc_dtx = (c_dtx c = 1), cc_complexity = uint (c_complexity c), cc_app_id = uint (c_app_id c)\<rparr>"

definition codec_config_from_caps :: "caps \<Rightarrow> codec_config" where
  "codec_config_from_caps c = (let complexity = uint (c_complexity c)
     in (caps_to_codec_config c)\<lparr>cc_complexity := (if complexity = 0 then 5 else complexity)\<rparr>)"

section \<open>Gain\<close>

definition clamp_f64 :: "'f float_ops \<Rightarrow> 'f \<Rightarrow> 'f \<Rightarrow> 'f \<Rightarrow> 'f" where
  "clamp_f64 F v lo hi = (if fo_less F v lo then lo else if fo_less F hi v then hi else v)"

fun scale_samples :: "'f float_ops \<Rightarrow> 'f \<Rightarrow> bytes \<Rightarrow> bytes \<Rightarrow> bytes" where
  "scale_samples F vol (a # b # src) (_ # _ # dst) =
     (let s = sint (ucast a OR push_bit 8 (ucast b) :: u16);
          v = fo_trunc16 F (clamp_f64 F (fo_mul F (fo_of_int F s) vol) (fo_of_int F (-32768)) (fo_of_int F 32767))
      in ucast (v AND 0xFF) # ucast (drop_bit 8 v) # scale_samples F vol src dst)"
| "scale_samples F vol src dst = dst"

text \<open>What \<open>dst[:len(src)]\<close> becomes; an odd last byte keeps its old value on the scaling path.\<close>

definition apply_gain :: "'f float_ops \<Rightarrow> bytes \<Rightarrow> bytes \<Rightarrow> 'f \<Rightarrow> bool \<Rightarrow> bytes" where
  "apply_gain F dst src vol muted =
     (if muted then replicate (length src) 0
      else if fo_eq F vol (fo_one F) then src
      else scale_samples F vol src dst)"

section \<open>The send loop\<close>

text \<open>
  The receiver's settings that the control handler may change between turns: \<open>hr_seal\<close> is the envelope
  of a relayed connection, which draws a fresh nonce for every frame.
\<close>

record ('f, 's) receiver_settings =
  hr_codec :: "'s codec"
  hr_volume :: 'f
  hr_muted :: bool
  hr_format_gen :: u32
  hr_seal :: "(nat \<Rightarrow> bytes \<Rightarrow> bytes option) option"

record 's send_state =
  sl_seq :: u32
  sl_capture_frame :: u64
  sl_chunk :: bytes
  sl_filled :: nat
  sl_codec :: 's
  sl_sealed :: nat
  sl_recorded :: "bytes option"
  sl_sent :: "bytes list"

definition stream_frame_bytes :: "caps \<Rightarrow> nat" where
  "stream_frame_bytes c = unat (c_channels c) * 2 * unat (c_frame_ms c) * unat (c_sample_rate c) div 1000"

definition start_send :: "caps \<Rightarrow> u32 \<Rightarrow> 's \<Rightarrow> bool \<Rightarrow> 's send_state" where
  "start_send c startSeq s0 recording =
     \<lparr>sl_seq = startSeq, sl_capture_frame = 0, sl_chunk = replicate (stream_frame_bytes c) 0, sl_filled = 0,
      sl_codec = s0, sl_sealed = 0, sl_recorded = (if recording then Some [] else None), sl_sent = []\<rparr>"

text \<open>
  A full chunk is encoded, sealed and sent; the result is \<open>False\<close> when \<^verbatim>\<open>SendMedia\<close> fails, which ends the
  loop.  A chunk that cannot be encoded, sealed or framed is dropped.
\<close>

definition send_chunk ::
  "caps \<Rightarrow> (u32 \<Rightarrow> bool) \<Rightarrow> ('f, 's) receiver_settings \<Rightarrow> 's send_state \<Rightarrow> bool \<times> 's send_state" where
  "send_chunk c net st s0 =
     (let (res, cs) = cd_encode (hr_codec st) (sl_chunk s0) (sl_codec s0); s = s0\<lparr>sl_codec := cs\<rparr> in
      case res of
        Inl _ \<Rightarrow> (True, s\<lparr>sl_filled := 0\<rparr>)
      | Inr frm \<Rightarrow>
          (case (case hr_seal st of None \<Rightarrow> Some frm | Some f \<Rightarrow> f (sl_sealed s) frm) of
             None \<Rightarrow> (True, s\<lparr>sl_filled := 0\<rparr>)
           | Some payload \<Rightarrow>
               let s1 = s\<lparr>sl_sealed := sl_sealed s + 1\<rparr>;
                   s2 = s1\<lparr>sl_seq := sl_seq s1 + 1, sl_filled := 0\<rparr>
               in (case append_media []
                       \<lparr>m_stream_id = 0, m_format_gen = ucast (hr_format_gen st), m_flags = 0, m_seq = sl_seq s1,
                        m_capture_ts_us = sl_capture_frame s1 * 1000000 div ucast (c_sample_rate c),
                        m_payload = payload\<rparr> of
                     Inl _ \<Rightarrow> (True, s2)
                   | Inr packet \<Rightarrow>
                       if net (sl_seq s1) then (True, s2\<lparr>sl_sent := sl_sent s1 @ [packet]\<rparr>) else (False, s1))))"

text \<open>The next \<open>n\<close> bytes of \<open>src\<close> go into the chunk, scaled.\<close>

definition fill_chunk ::
  "'f float_ops \<Rightarrow> ('f, 's) receiver_settings \<Rightarrow> nat \<Rightarrow> bytes \<Rightarrow> 's send_state \<Rightarrow> 's send_state" where
  "fill_chunk F st n src s =
     (let old = slice (sl_filled s) (sl_filled s + n) (sl_chunk s)
      in s\<lparr>sl_chunk := take (sl_filled s) (sl_chunk s) @
             apply_gain F old (take n src) (hr_volume st) (hr_muted st) @ drop (sl_filled s + n) (sl_chunk s),
           sl_filled := sl_filled s + n\<rparr>)"

text \<open>One turn of the inner loop: how much of \<open>src\<close> it took, and whether the loop goes on.\<close>

definition feed_turn ::
  "'f float_ops \<Rightarrow> caps \<Rightarrow> (u32 \<Rightarrow> bool) \<Rightarrow> ('f, 's) receiver_settings \<Rightarrow> bytes \<Rightarrow> 's send_state \<Rightarrow>
     nat \<times> bool \<times> 's send_state"
where
  "feed_turn F c net st src s =
     (let n = min (stream_frame_bytes c - sl_filled s) (length src); s1 = fill_chunk F st n src s
      in (n, if sl_filled s1 = stream_frame_bytes c then send_chunk c net st s1 else (True, s1)))"

text \<open>
  The inner loop over the bytes of one read.  It would not end for frames of no bytes, which is the
  value \<open>None\<close>; the formats that pass validation have none.
\<close>

partial_function (option) feed ::
  "'f float_ops \<Rightarrow> caps \<Rightarrow> (u32 \<Rightarrow> bool) \<Rightarrow> ('f, 's) receiver_settings \<Rightarrow> bytes \<Rightarrow> 's send_state \<Rightarrow>
     (bool \<times> 's send_state) option"
where
  "feed F c net st src s =
     (if src = [] then Some (True, s)
      else let (n, go, s1) = feed_turn F c net st src s
        in if go then feed F c net st (drop n src) s1 else Some (False, s1))"

text \<open>One turn: the bytes read (none when there is no capture yet), and whether recording them works.\<close>

definition send_turn ::
  "'f float_ops \<Rightarrow> caps \<Rightarrow> (u32 \<Rightarrow> bool) \<Rightarrow> ('f, 's) receiver_settings \<Rightarrow> bytes \<Rightarrow> bool \<Rightarrow> 's send_state \<Rightarrow>
     (bool \<times> 's send_state) option" where
  "send_turn F c net st dat recOk s =
     (if dat = [] then Some (True, s)
      else
        let s1 = (if recOk then s\<lparr>sl_recorded := map_option (\<lambda>r. r @ dat) (sl_recorded s)\<rparr> else s)
        in (case feed F c net st dat s1 of
              None \<Rightarrow> None
            | Some (False, s2) \<Rightarrow> Some (False, s2)
            | Some (True, s2) \<Rightarrow>
                Some (True, s2\<lparr>sl_capture_frame := sl_capture_frame s2 +
                        word_of_nat (length dat div (unat (c_channels c) * 2))\<rparr>)))"

fun send_loop ::
  "'f float_ops \<Rightarrow> caps \<Rightarrow> (u32 \<Rightarrow> bool) \<Rightarrow> (('f, 's) receiver_settings \<times> bytes \<times> bool) list \<Rightarrow> 's send_state \<Rightarrow>
     's send_state option"
where
  "send_loop F c net [] s = Some s"
| "send_loop F c net ((st, dat, recOk) # es) s =
     (case send_turn F c net st dat recOk s of
        None \<Rightarrow> None
      | Some (go, s1) \<Rightarrow> if go then send_loop F c net es s1 else Some s1)"

section \<open>Sizes\<close>

lemma caps_sizes:
  assumes "caps_validate c = None"
  shows "8000 \<le> unat (c_sample_rate c)" "unat (c_sample_rate c) \<le> 192000"
    "1 \<le> unat (c_channels c)" "unat (c_channels c) \<le> 8" "2 \<le> unat (c_frame_ms c)"
  using assms by (auto simp: caps_validate_None word_le_nat_alt)

lemma stream_frame_bytes_pos:
  assumes "caps_validate c = None"
  shows "32 \<le> stream_frame_bytes c"
proof -
  note z = caps_sizes[OF assms]
  have "1 * 2 * 2 * 8000 \<le> unat (c_channels c) * 2 * unat (c_frame_ms c) * unat (c_sample_rate c)"
    using z by (intro mult_le_mono) simp_all
  then have "1 * 2 * 2 * 8000 div 1000 \<le> stream_frame_bytes c"
    unfolding stream_frame_bytes_def by (rule div_le_mono)
  then show ?thesis by simp
qed

lemma length_scale_samples [simp]: "length (scale_samples F vol src dst) = length dst"
  by (induction F vol src dst rule: scale_samples.induct) (simp_all add: Let_def)

lemma length_apply_gain [simp]: "length dst = length src \<Longrightarrow> length (apply_gain F dst src vol muted) = length src"
  by (simp add: apply_gain_def)

section \<open>The inner loop\<close>

definition chunk_ok :: "caps \<Rightarrow> 's send_state \<Rightarrow> bool" where
  "chunk_ok c s \<longleftrightarrow> length (sl_chunk s) = stream_frame_bytes c \<and> sl_filled s < stream_frame_bytes c"

lemma send_chunk_keeps:
  "sl_chunk (snd (send_chunk c net st s)) = sl_chunk s"
  "sl_recorded (snd (send_chunk c net st s)) = sl_recorded s"
  "fst (send_chunk c net st s) \<Longrightarrow> sl_filled (snd (send_chunk c net st s)) = 0"
  by (auto simp: send_chunk_def Let_def split: prod.splits sum.splits option.splits if_splits)

lemma fill_chunk_ok:
  assumes "chunk_ok c s" "n \<le> stream_frame_bytes c - sl_filled s" "n \<le> length src"
  shows "length (sl_chunk (fill_chunk F st n src s)) = stream_frame_bytes c"
    "sl_filled (fill_chunk F st n src s) = sl_filled s + n"
    "sl_seq (fill_chunk F st n src s) = sl_seq s" "sl_sent (fill_chunk F st n src s) = sl_sent s"
    "take (sl_filled s) (sl_chunk (fill_chunk F st n src s)) = take (sl_filled s) (sl_chunk s)"
    "slice (sl_filled s) (sl_filled s + n) (sl_chunk (fill_chunk F st n src s)) =
       apply_gain F (slice (sl_filled s) (sl_filled s + n) (sl_chunk s)) (take n src) (hr_volume st) (hr_muted st)"
  using assms by (auto simp: fill_chunk_def chunk_ok_def Let_def slice_def)

lemma feed_turn_ok:
  assumes "chunk_ok c s" "src \<noteq> []" "feed_turn F c net st src s = (n, go, s1)"
  shows "0 < n \<and> n \<le> length src \<and> (go \<longrightarrow> chunk_ok c s1)"
proof -
  have n: "n = min (stream_frame_bytes c - sl_filled s) (length src)" using assms(3) by (simp add: feed_turn_def Let_def)
  let ?s = "fill_chunk F st n src s"
  have r: "(go, s1) = (if sl_filled ?s = stream_frame_bytes c then send_chunk c net st ?s else (True, ?s))"
    using assms(3) by (auto simp: feed_turn_def Let_def n)
  have pos: "0 < stream_frame_bytes c" using assms(1) by (simp add: chunk_ok_def)
  have len: "length (sl_chunk ?s) = stream_frame_bytes c" and fl: "sl_filled ?s \<le> stream_frame_bytes c"
    using fill_chunk_ok(1,2)[OF assms(1), of n src F st] assms(1) by (auto simp: n chunk_ok_def min_def)
  have "go \<longrightarrow> chunk_ok c s1"
  proof (cases "sl_filled ?s = stream_frame_bytes c")
    case True
    then have "(go, s1) = send_chunk c net st ?s" using r by simp
    then have "s1 = snd (send_chunk c net st ?s)" "go = fst (send_chunk c net st ?s)" by (metis snd_conv, metis fst_conv)
    then show ?thesis using len pos send_chunk_keeps(1,3)[of c net st ?s] by (simp add: chunk_ok_def)
  next
    case False
    then show ?thesis using r len fl by (simp add: chunk_ok_def)
  qed
  then show ?thesis using assms(1,2) by (simp add: n chunk_ok_def)
qed

text \<open>The rule by which everything about the inner loop is proved; it also says that the loop ends.\<close>

lemma feed_rule:
  assumes "chunk_ok c s" "P [] s"
    and step: "\<And>dn src s n s1. chunk_ok c s \<Longrightarrow> src \<noteq> [] \<Longrightarrow> P dn s \<Longrightarrow>
      feed_turn F c net st src s = (n, True, s1) \<Longrightarrow> P (dn @ take n src) s1"
    and stop: "\<And>dn src s n s1. chunk_ok c s \<Longrightarrow> src \<noteq> [] \<Longrightarrow> P dn s \<Longrightarrow>
      feed_turn F c net st src s = (n, False, s1) \<Longrightarrow> Q s1"
  shows "\<exists>go s1. feed F c net st dat s = Some (go, s1) \<and> (if go then chunk_ok c s1 \<and> P dat s1 else Q s1)"
proof -
  have "\<exists>go s1. feed F c net st src s = Some (go, s1) \<and> (if go then chunk_ok c s1 \<and> P (dn @ src) s1 else Q s1)"
    if "chunk_ok c s" "P dn s" for dn src s
    using that
  proof (induction src arbitrary: dn s rule: measure_induct_rule[where f = length])
    case (less src)
    show ?case
    proof (cases "src = []")
      case True
      then show ?thesis using less.prems by (intro exI[of _ True] exI[of _ s]) (simp add: feed.simps)
    next
      case False
      obtain n go s1 where t: "feed_turn F c net st src s = (n, go, s1)" by (metis prod_cases3)
      note ne = False and ok = feed_turn_ok[OF less.prems(1) False t]
      show ?thesis
      proof (cases go)
        case True
        have "length (drop n src) < length src" unfolding length_drop using ok by linarith
        moreover have "P (dn @ take n src) s1" using step[OF less.prems(1) ne less.prems(2)] t True by simp
        ultimately have "\<exists>go s2. feed F c net st (drop n src) s1 = Some (go, s2) \<and>
            (if go then chunk_ok c s2 \<and> P ((dn @ take n src) @ drop n src) s2 else Q s2)"
          using less.IH ok True by blast
        moreover have "feed F c net st src s = feed F c net st (drop n src) s1"
          using ne True t by (simp add: feed.simps[of F c net st src s])
        ultimately show ?thesis by (simp only: append_assoc append_take_drop_id)
      next
        case False
        then have "feed F c net st src s = Some (False, s1)" using ne t by (simp add: feed.simps)
        then show ?thesis using stop[OF less.prems(1) ne less.prems(2)] t False by auto
      qed
    qed
  qed
  from this[OF assms(1,2), of dat] show ?thesis by (simp only: append_Nil)
qed

text \<open>With fixed settings and a network that takes every packet, an invariant of the inner loop is one of the stream.\<close>

lemma send_loop_rule:
  assumes "chunk_ok c s" "P [] s"
    and step: "\<And>dn src s n s1. chunk_ok c s \<Longrightarrow> src \<noteq> [] \<Longrightarrow> P dn s \<Longrightarrow>
      feed_turn F c (\<lambda>_. True) st src s = (n, True, s1) \<Longrightarrow> P (dn @ take n src) s1"
    and keeps: "\<And>dn s r k. P dn (s\<lparr>sl_recorded := r, sl_capture_frame := k\<rparr>) = P dn s"
  shows "\<exists>s1. send_loop F c (\<lambda>_. True) (map (\<lambda>(d, ok). (st, d, ok)) reads) s = Some s1 \<and>
    chunk_ok c s1 \<and> P (concat (map fst reads)) s1"
proof -
  have k1: "P dn (s\<lparr>sl_recorded := r\<rparr>) = P dn s" for dn s r
    using keeps[where dn = dn and s = s and r = r and k = "sl_capture_frame s"] by simp
  have k2: "P dn (s\<lparr>sl_capture_frame := k\<rparr>) = P dn s" for dn s k
    using keeps[where dn = dn and s = s and r = "sl_recorded s" and k = k] by simp
  have go: "fst (snd (feed_turn F c (\<lambda>_. True) st src s))" for src s
    by (simp add: feed_turn_def Let_def send_chunk_def split: prod.split sum.split option.split)
  have "\<exists>s1. send_loop F c (\<lambda>_. True) (map (\<lambda>(d, ok). (st, d, ok)) reads) s = Some s1 \<and>
      chunk_ok c s1 \<and> P (dn @ concat (map fst reads)) s1" if "chunk_ok c s" "P dn s" for dn s
    using that
  proof (induction reads arbitrary: dn s)
    case (Cons r reads)
    obtain d ok where r: "r = (d, ok)" by fastforce
    let ?s = "if ok then s\<lparr>sl_recorded := map_option (\<lambda>x. x @ d) (sl_recorded s)\<rparr> else s"
    have s0: "chunk_ok c ?s" "P dn ?s" using Cons.prems by (simp_all add: chunk_ok_def k1)
    show ?case
    proof (cases "d = []")
      case True
      then show ?thesis using Cons.IH[OF Cons.prems] by (simp add: r send_turn_def)
    next
      case False
      have "\<exists>go s1. feed F c (\<lambda>_. True) st d ?s = Some (go, s1) \<and>
          (if go then chunk_ok c s1 \<and> (\<lambda>x. P (dn @ x)) d s1 else False)"
      proof (rule feed_rule[OF s0(1)])
        show "P (dn @ []) ?s" using s0(2) by simp
      next
        fix x src s n s1
        assume "chunk_ok c s" "src \<noteq> []" "P (dn @ x) s" "feed_turn F c (\<lambda>_. True) st src s = (n, True, s1)"
        from step[OF this] show "P (dn @ x @ take n src) s1" by simp
      next
        fix x src s n s1
        assume "feed_turn F c (\<lambda>_. True) st src s = (n, False, s1)"
        then show False using go[of src s] by simp
      qed
      then obtain s1 where s1: "feed F c (\<lambda>_. True) st d ?s = Some (True, s1)" "chunk_ok c s1" "P (dn @ d) s1"
        by (auto split: if_splits)
      let ?k = "sl_capture_frame s1 + word_of_nat (length d div (unat (c_channels c) * 2))"
      have "send_turn F c (\<lambda>_. True) st d ok s = Some (True, s1\<lparr>sl_capture_frame := ?k\<rparr>)"
        using False s1(1) by (simp add: send_turn_def Let_def)
      moreover have "chunk_ok c (s1\<lparr>sl_capture_frame := ?k\<rparr>)" "P (dn @ d) (s1\<lparr>sl_capture_frame := ?k\<rparr>)"
        using s1(2,3) by (simp_all add: chunk_ok_def k2)
      ultimately show ?thesis using Cons.IH[of "s1\<lparr>sl_capture_frame := ?k\<rparr>" "dn @ d"] by (simp add: r)
    qed
  qed simp
  from this[OF assms(1,2)] show ?thesis by simp
qed

section \<open>PCM streams\<close>

text \<open>
  \<open>sends_all\<close>: the datagrams carry consecutive sequence numbers from \<open>q\<close>, and what was captured is
  their payloads followed by the part of the chunk that is filled.
\<close>

definition sends_all :: "caps \<Rightarrow> u32 \<Rightarrow> bytes \<Rightarrow> 's send_state \<Rightarrow> bool" where
  "sends_all c q cap s \<longleftrightarrow>
     (\<exists>ms. sl_sent s = map media_layout ms \<and> map m_seq ms = seqs_from q (length ms) \<and>
        (\<forall>m \<in> set ms. length (m_payload m) = stream_frame_bytes c \<and> m_stream_id m = 0 \<and> m_flags m = 0) \<and>
        concat (map m_payload ms) @ take (sl_filled s) (sl_chunk s) = cap \<and> sl_seq s = q + word_of_nat (length ms))"

definition plain_pcm :: "'f float_ops \<Rightarrow> codec_config \<Rightarrow> ('f, 's) receiver_settings \<Rightarrow> bool" where
  "plain_pcm F cfg st \<longleftrightarrow> hr_codec st = pcm_codec cfg \<and> hr_seal st = None \<and> \<not> hr_muted st \<and> fo_eq F (hr_volume st) (fo_one F)"

definition frame_fits :: "codec_config \<Rightarrow> caps \<Rightarrow> bool" where
  "frame_fits cfg c \<longleftrightarrow> pcm_frame_bytes cfg = int (stream_frame_bytes c) \<and> stream_frame_bytes c \<le> MaxDatagramPayload"

lemma sends_all_turn:
  assumes "plain_pcm F cfg st" "frame_fits cfg c" "chunk_ok c s" "src \<noteq> []" "sends_all c q dn s"
    and t: "feed_turn F c (\<lambda>_. True) st src s = (n, True, s1)"
  shows "sends_all c q (dn @ take n src) s1"
proof -
  have n: "n = min (stream_frame_bytes c - sl_filled s) (length src)" using t by (simp add: feed_turn_def Let_def)
  have fb: "0 < stream_frame_bytes c" using assms(3) by (simp add: chunk_ok_def)
  obtain ms where ms: "sl_sent s = map media_layout ms" "map m_seq ms = seqs_from q (length ms)"
    "\<forall>m \<in> set ms. length (m_payload m) = stream_frame_bytes c \<and> m_stream_id m = 0 \<and> m_flags m = 0"
    "concat (map m_payload ms) @ take (sl_filled s) (sl_chunk s) = dn" "sl_seq s = q + word_of_nat (length ms)"
    using assms(5) unfolding sends_all_def by blast
  define s0 where "s0 = fill_chunk F st n src s"
  have le: "n \<le> stream_frame_bytes c - sl_filled s" "n \<le> length src" by (simp_all add: n)
  note f = fill_chunk_ok[OF assms(3) le, of F st, folded s0_def]
  have "slice (sl_filled s) (sl_filled s + n) (sl_chunk s0) = take n src"
    using f(6) assms(1) by (simp add: plain_pcm_def apply_gain_def)
  then have pre: "take (sl_filled s0) (sl_chunk s0) = take (sl_filled s) (sl_chunk s) @ take n src"
    using f(5) slice_join[of 0 "sl_filled s" "sl_filled s + n" "sl_chunk s0"] by (simp add: f(2) slice_from_0)
  have r: "(True, s1) = (if sl_filled s0 = stream_frame_bytes c then send_chunk c (\<lambda>_. True) st s0 else (True, s0))"
    using t by (auto simp: feed_turn_def Let_def s0_def n)
  show ?thesis
  proof (cases "sl_filled s0 = stream_frame_bytes c")
    case False
    then have "s1 = s0" using r by simp
    then show ?thesis unfolding sends_all_def using ms pre f by (intro exI[of _ ms]) simp
  next
    case True
    let ?m = "\<lparr>m_stream_id = 0, m_format_gen = ucast (hr_format_gen st), m_flags = 0, m_seq = sl_seq s0,
      m_capture_ts_us = sl_capture_frame s0 * 1000000 div ucast (c_sample_rate c), m_payload = sl_chunk s0\<rparr>"
    have len: "length (sl_chunk s0) = stream_frame_bytes c" by (rule f(1))
    have enc: "pcm_encode cfg (sl_chunk s0) = Inr (sl_chunk s0)"
      using assms(2) len by (simp add: pcm_encode_def frame_fits_def)
    have ne: "sl_chunk s0 \<noteq> []" using len fb by auto
    have app: "append_media [] ?m = Inr (media_layout ?m)"
      using assms(2) len ne by (simp add: append_media_eq frame_fits_def)
    have s1: "sl_sent s1 = sl_sent s0 @ [media_layout ?m]" "sl_filled s1 = 0" "sl_seq s1 = sl_seq s0 + 1"
      using r True assms(1) enc app by (simp_all add: send_chunk_def plain_pcm_def pcm_codec_def Let_def)
    have "sl_chunk s0 = take (sl_filled s) (sl_chunk s) @ take n src" using True len pre by simp
    then have "concat (map m_payload (ms @ [?m])) = dn @ take n src" using ms(4) append_assoc by auto
    moreover have "map m_seq (ms @ [?m]) = seqs_from q (length (ms @ [?m]))"
      using ms(2,5) f(3) by (simp add: seqs_from_Suc)
    ultimately show ?thesis unfolding sends_all_def
      by (intro exI[of _ "ms @ [?m]"])
        (use ms(1,3,5) f(3,4) s1 len in \<open>simp add: add.assoc add.commute[of 1]\<close>)
  qed
qed

text \<open>When the codec's frames have another size, or do not fit a datagram, no packet leaves.\<close>

lemma sends_nothing_turn:
  assumes "hr_codec st = pcm_codec cfg" "hr_seal st = None" "\<not> frame_fits cfg c" "chunk_ok c s" "sl_sent s = []"
    and t: "feed_turn F c (\<lambda>_. True) st src s = (n, True, s1)"
  shows "sl_sent s1 = []"
proof -
  have n: "n = min (stream_frame_bytes c - sl_filled s) (length src)" using t by (simp add: feed_turn_def Let_def)
  define s0 where "s0 = fill_chunk F st n src s"
  have le: "n \<le> stream_frame_bytes c - sl_filled s" "n \<le> length src" by (simp_all add: n)
  note f = fill_chunk_ok[OF assms(4) le, of F st, folded s0_def]
  have r: "(True, s1) = (if sl_filled s0 = stream_frame_bytes c then send_chunk c (\<lambda>_. True) st s0 else (True, s0))"
    using t by (auto simp: feed_turn_def Let_def s0_def n)
  have ne: "sl_chunk s0 \<noteq> []" using f(1) assms(4) by (auto simp: chunk_ok_def)
  have "sl_sent (snd (send_chunk c (\<lambda>_. True) st s0)) = sl_sent s0"
    using assms(1-3) f(1) ne
    by (auto simp: send_chunk_def pcm_codec_def pcm_encode_def frame_fits_def append_media_eq Let_def
        split: prod.split sum.split)
  then show ?thesis using r f(4) assms(5) by (metis snd_conv)
qed

lemma pcm_fit_small: "unat ms * unat ch * 2 \<le> 1120 \<Longrightarrow> pcm_fit ch ms = ms"
  by (subst pcm_fit.simps) simp

lemma requested_fields:
  "c_codec (requested_caps ho req) = (if c_codec req = CodecPCMS16LE \<or> \<not> hf_opus ho then CodecPCMS16LE else CodecOpus)"
  "c_sample_rate (requested_caps ho req) =
     (if c_sample_rate req \<noteq> 0 then c_sample_rate req else word_of_int (hf_rate ho))"
  "c_channels (requested_caps ho req) = (if c_channels req \<noteq> 0 then c_channels req else word_of_int (hf_channels ho))"
  "c_frame_ms (requested_caps ho req) = (if c_codec req = CodecPCMS16LE \<or> \<not> hf_opus ho then 5
     else if c_codec req = CodecOpus then clamp_frame_ms (c_frame_ms req) else 10)"
  "c_opus_bitrate (requested_caps ho req) =
     clamp_u32 (c_opus_bitrate req) 16000 (word_of_int (max (hf_max_bitrate ho) 256000))"
  "c_fec (requested_caps ho req) = bool_bit (c_fec req = 1 \<and> hf_opus ho)"
  "c_dtx (requested_caps ho req) = bool_bit (c_dtx req = 1 \<and> hf_opus ho)"
  by (simp_all add: requested_caps_def Let_def offer_caps_def)

lemma requested_pcm: "c_codec (requested_caps ho req) = CodecPCMS16LE \<Longrightarrow> c_frame_ms (requested_caps ho req) = 5"
  by (auto simp: requested_fields split: if_splits)

lemma negotiate_pcm:
  assumes "negotiate_caps ho req = Inr c" "c_codec c = CodecPCMS16LE"
  shows "caps_validate c = None" "c_frame_ms c = 5"
proof -
  let ?r = "requested_caps ho req"
  let ?o = "if c_codec ?r = CodecPCMS16LE then ?r\<lparr>c_frame_ms := pcm_fit (c_channels ?r) (c_frame_ms ?r)\<rparr> else ?r"
  have *: "caps_validate ?o = None \<and> c = ?o"
    using assms(1) unfolding negotiate_caps_def Let_def by (cases "caps_validate ?o") simp_all
  then show v: "caps_validate c = None" by simp
  have p: "c_codec ?r = CodecPCMS16LE" using * assms(2) by (cases "c_codec ?r = CodecPCMS16LE") simp_all
  then have "c = ?r\<lparr>c_frame_ms := pcm_fit (c_channels ?r) 5\<rparr>" using * requested_pcm by simp
  moreover have "unat (c_channels ?r) \<le> 8" using caps_sizes(4)[OF v] calculation by simp
  ultimately show "c_frame_ms c = 5" by (simp add: pcm_fit_small)
qed

lemma sends_all_decoded:
  assumes "sends_all c q cap s" "chunk_ok c s" "stream_frame_bytes c \<le> MaxDatagramPayload"
  shows "\<exists>ms. map decode_media (sl_sent s) = map Inr ms \<and>
    map m_seq ms = seqs_from q (length cap div stream_frame_bytes c) \<and>
    list_all (\<lambda>m. length (m_payload m) = stream_frame_bytes c \<and> m_flags m = 0) ms \<and>
    concat (map m_payload ms) = take (stream_frame_bytes c * (length cap div stream_frame_bytes c)) cap"
proof -
  let ?fb = "stream_frame_bytes c"
  obtain ms where ms: "sl_sent s = map media_layout ms" "map m_seq ms = seqs_from q (length ms)"
    "\<forall>m \<in> set ms. length (m_payload m) = ?fb \<and> m_stream_id m = 0 \<and> m_flags m = 0"
    "concat (map m_payload ms) @ take (sl_filled s) (sl_chunk s) = cap"
    using assms(1) unfolding sends_all_def by blast
  let ?ms = "map (\<lambda>m. m\<lparr>m_capture_ts_us := take_bit 40 (m_capture_ts_us m)\<rparr>) ms"
  have pay: "map m_payload ?ms = map m_payload ms" and sq: "map m_seq ?ms = map m_seq ms" by simp_all
  have cl: "length (concat (map m_payload ms)) = length ms * ?fb"
    using ms(3) by (induction ms) simp_all
  have "length cap = length ms * ?fb + sl_filled s"
    using arg_cong[OF ms(4), of length] cl assms(2) by (simp add: chunk_ok_def)
  then have n: "length cap div ?fb = length ms" using assms(2) by (simp add: chunk_ok_def)
  have "decode_media (media_layout m) = Inr (m\<lparr>m_capture_ts_us := take_bit 40 (m_capture_ts_us m)\<rparr>)"
    if "m \<in> set ms" for m
  proof (rule decode_media_layout)
    have "length (m_payload m) = ?fb" "0 < ?fb" using that ms(3) assms(2) by (auto simp: chunk_ok_def)
    then show "m_payload m \<noteq> []" "length (m_payload m) < 65536" using assms(3) by auto
  qed
  then have "map decode_media (sl_sent s) = map Inr ?ms" by (simp add: ms(1))
  moreover have "concat (map m_payload ?ms) = take (?fb * (length cap div ?fb)) cap"
    unfolding pay n using ms(4)[symmetric] cl by (simp add: mult.commute)
  moreover have "list_all (\<lambda>m. length (m_payload m) = ?fb \<and> m_flags m = 0) ?ms" using ms(3) by (simp add: list_all_iff)
  ultimately show ?thesis using ms(2) sq n by (intro exI[of _ ?ms]) simp
qed

lemma frame_fits_5ms:
  assumes "caps_validate c = None" "c_frame_ms c = 5" "c_codec c = CodecPCMS16LE"
  shows "frame_fits (codec_config_from_caps c) c \<longleftrightarrow>
    unat (c_sample_rate c) mod 200 * unat (c_channels c) < 100 \<and> unat (c_channels c) * unat (c_sample_rate c) < 115300"
proof -
  define rate ch where "rate = unat (c_sample_rate c)" and "ch = unat (c_channels c)"
  have z: "8000 \<le> rate" "rate \<le> 192000" "1 \<le> ch" "ch \<le> 8" using caps_sizes[OF assms(1)] by (simp_all add: rate_def ch_def)
  have u: "uint (c_sample_rate c) = int rate" "uint (c_channels c) = int ch" "uint (c_frame_ms c) = 5"
    using assms(2) by (simp_all add: rate_def ch_def)
  let ?cfg = "codec_config_from_caps c"
  have "validate_config ?cfg = None"
    using z u assms(3) by (simp add: validate_config_None codec_config_from_caps_def caps_to_codec_config_def Let_def)
  from pcm_frame_bytes_valid(1)[OF this]
  have "pcm_frame_bytes ?cfg = int rate * 5 div 1000 * int ch * 2"
    by (simp add: codec_config_from_caps_def caps_to_codec_config_def Let_def u)
  also have "\<dots> = int (rate div 200 * ch * 2)" by (simp add: zdiv_int)
  finally have p: "pcm_frame_bytes ?cfg = int (rate div 200 * ch * 2)" .
  have u5: "unat (c_frame_ms c) = 5" using assms(2) by simp
  have "stream_frame_bytes c = ch * rate * 10 div (100 * 10)"
    unfolding stream_frame_bytes_def u5 rate_def[symmetric] ch_def[symmetric] by (simp add: ac_simps)
  then have s: "stream_frame_bytes c = ch * rate div 100" by simp
  have "ch * rate = (rate div 200 * ch * 2) * 100 + rate mod 200 * ch"
  proof -
    have "ch * rate = ch * (rate div 200 * 200 + rate mod 200)" by simp
    then show ?thesis by (simp only: distrib_left) (simp add: ac_simps)
  qed
  then have "ch * rate div 100 = rate div 200 * ch * 2 + rate mod 200 * ch div 100" by simp
  moreover have "rate mod 200 * ch div 100 = 0 \<longleftrightarrow> rate mod 200 * ch < 100" by (simp add: div_eq_0_iff)
  moreover have "ch * rate div 100 \<le> 1152 \<longleftrightarrow> ch * rate < 115300" by linarith
  ultimately show ?thesis unfolding frame_fits_def p s rate_def[symmetric] ch_def[symmetric] of_nat_eq_iff by linarith
qed

lemma pcm_stream_sends_all:
  assumes "caps_validate c = None" "frame_fits cfg c" "plain_pcm F cfg st"
  shows "\<exists>s. send_loop F c (\<lambda>_. True) (map (\<lambda>(d, ok). (st, d, ok)) reads) (start_send c q s0 recording) = Some s \<and>
    (let cap = concat (map fst reads); fb = stream_frame_bytes c in
     \<exists>ms. map decode_media (sl_sent s) = map Inr ms \<and> map m_seq ms = seqs_from q (length cap div fb) \<and>
       list_all (\<lambda>m. length (m_payload m) = fb \<and> m_flags m = 0) ms \<and>
       concat (map m_payload ms) = take (fb * (length cap div fb)) cap)"
proof -
  let ?start = "start_send c q s0 recording"
  have ok: "chunk_ok c ?start" using stream_frame_bytes_pos[OF assms(1)] by (simp add: chunk_ok_def start_send_def)
  have "sends_all c q [] ?start" by (auto simp: sends_all_def start_send_def seqs_from_def intro: exI[of _ "[]"])
  moreover have "sends_all c q dn (s\<lparr>sl_recorded := r, sl_capture_frame := k\<rparr>) = sends_all c q dn s" for dn s r k
    by (simp add: sends_all_def)
  ultimately obtain s where s: "send_loop F c (\<lambda>_. True) (map (\<lambda>(d, ok). (st, d, ok)) reads) ?start = Some s"
    "chunk_ok c s" "sends_all c q (concat (map fst reads)) s"
    using send_loop_rule[OF ok, of "sends_all c q" F st reads] sends_all_turn[OF assms(3,2)] by blast
  have "stream_frame_bytes c \<le> MaxDatagramPayload" using assms(2) by (simp add: frame_fits_def)
  from sends_all_decoded[OF s(3,2) this] show ?thesis using s(1) unfolding Let_def by blast
qed

section \<open>Properties\<close>


definition demo_pcm_caps :: "u32 \<Rightarrow> caps" where
  "demo_pcm_caps rate = \<lparr>c_codec = CodecPCMS16LE, c_sample_rate = rate, c_channels = 2, c_frame_ms = 5,
     c_opus_bitrate = 128000, c_fec = 0, c_dtx = 0, c_complexity = 5, c_app_id = 0\<rparr>"

definition demo_host_format :: host_format where
  "demo_host_format = \<lparr>hf_rate = 48000, hf_channels = 2, hf_max_bitrate = 256000, hf_opus = False\<rparr>"

definition demo_settings :: "codec_config \<Rightarrow> (rat, unit) receiver_settings" where
  "demo_settings cfg = \<lparr>hr_codec = pcm_codec cfg, hr_volume = 1, hr_muted = False, hr_format_gen = 1, hr_seal = None\<rparr>"

lemma demo_negotiated:
  assumes "rate \<in> {44100, 48000}"
  shows "negotiate_caps demo_host_format (demo_pcm_caps rate) = Inr (demo_pcm_caps rate)"
proof -
  have r: "requested_caps demo_host_format (demo_pcm_caps rate) = demo_pcm_caps rate"
    using assms by (auto simp: requested_caps_def demo_host_format_def demo_pcm_caps_def offer_caps_def bool_bit_def
        clamp_u32_def)
  have "pcm_fit 2 5 = 5" by (rule pcm_fit_small) simp
  moreover have "caps_validate (demo_pcm_caps rate) = None" using assms by (auto simp: caps_validate_def demo_pcm_caps_def)
  ultimately show ?thesis unfolding negotiate_caps_def Let_def r by (simp add: demo_pcm_caps_def)
qed


lemma clamp_u32_range:
  "16000 \<le> hi \<Longrightarrow> 16000 \<le> clamp_u32 v 16000 hi \<and> clamp_u32 v 16000 hi \<le> hi"
  by (auto simp: clamp_u32_def not_less)

text \<open>
  What a receiver gets is what it asked for within the host's means: an accepted request yields a
  valid format with the rate and channels requested (the host's own where the request leaves them
  open), Opus exactly when it is built in and PCM was not asked for, a bitrate between 16 kbit/s and
  the host's limit, and error correction or silence suppression only on request and with Opus; a
  request is refused only because the rate or the channels are out of range or the bitrate limit
  exceeds what Opus allows.
\<close>

theorem negotiation_sound:
  assumes "hf_max_bitrate ho < 2 ^ 31"
  shows "case negotiate_caps ho req of
      Inr c \<Rightarrow> caps_validate c = None \<and>
        c_sample_rate c = (if c_sample_rate req \<noteq> 0 then c_sample_rate req else word_of_int (hf_rate ho)) \<and>
        c_channels c = (if c_channels req \<noteq> 0 then c_channels req else word_of_int (hf_channels ho)) \<and>
        (c_codec c = CodecOpus \<longleftrightarrow> hf_opus ho \<and> c_codec req \<noteq> CodecPCMS16LE) \<and>
        16000 \<le> c_opus_bitrate c \<and> uint (c_opus_bitrate c) \<le> max (hf_max_bitrate ho) 256000 \<and>
        (c_fec c = 1 \<longrightarrow> c_fec req = 1 \<and> hf_opus ho) \<and> (c_dtx c = 1 \<longrightarrow> c_dtx req = 1 \<and> hf_opus ho)
    | Inl e \<Rightarrow> (\<exists>r. e = CapsSampleRate r) \<or> (\<exists>n. e = CapsChannels n) \<or>
        (\<exists>b. e = CapsBitrate b \<and> 510000 < b \<and> 510000 < hf_max_bitrate ho)"
proof -
  let ?r = "requested_caps ho req"
  define o7 where "o7 = (if c_codec ?r = CodecPCMS16LE then ?r\<lparr>c_frame_ms := pcm_fit (c_channels ?r) (c_frame_ms ?r)\<rparr> else ?r)"
  let ?hi = "word_of_int (max (hf_max_bitrate ho) 256000) :: u32"
  have ui: "uint ?hi = max (hf_max_bitrate ho) 256000" using assms by (simp add: uint_word_of_int)
  have "16000 \<le> ?hi" unfolding word_le_def ui by simp
  note br = clamp_u32_range[OF this, of "c_opus_bitrate req"]
  have br2: "uint (clamp_u32 (c_opus_bitrate req) 16000 ?hi) \<le> max (hf_max_bitrate ho) 256000"
    using br ui by (simp add: word_le_def)
  have f: "c_sample_rate o7 = c_sample_rate ?r" "c_channels o7 = c_channels ?r" "c_codec o7 = c_codec ?r"
    "c_opus_bitrate o7 = c_opus_bitrate ?r" "c_fec o7 = c_fec ?r" "c_dtx o7 = c_dtx ?r" by (simp_all add: o7_def)
  have eq: "negotiate_caps ho req = (case caps_validate o7 of Some e \<Rightarrow> Inl e | None \<Rightarrow> Inr o7)"
    unfolding negotiate_caps_def o7_def Let_def by (rule refl)
  have codec: "c_codec o7 \<in> {CodecPCMS16LE, CodecOpus}" by (simp add: f requested_fields)
  have ms: "c_frame_ms o7 \<in> {2, 5, 10, 20}" if "unat (c_channels o7) \<le> 8"
  proof (cases "c_codec ?r = CodecPCMS16LE")
    case True
    then have "pcm_fit (c_channels ?r) (c_frame_ms ?r) = 5"
      using requested_pcm[OF True] that f(2) by (simp add: pcm_fit_small)
    then show ?thesis using True by (simp add: o7_def)
  next
    case False
    then show ?thesis by (auto simp: o7_def requested_fields clamp_frame_ms_def)
  qed
  show ?thesis
  proof (cases "caps_validate o7")
    case None
    then show ?thesis using br br2
      by (auto simp: eq f requested_fields bool_bit_def split: if_splits)
  next
    case (Some e)
    have ch: "unat (c_channels o7) \<le> 8" if "\<not> (c_channels o7 < 1 \<or> 8 < c_channels o7)"
      using that by (simp add: word_less_nat_alt)
    have "6000 \<le> c_opus_bitrate o7" using br by (simp add: f requested_fields word_le_def)
    then have big: "510000 < hf_max_bitrate ho" if "510000 < c_opus_bitrate o7"
      using that br2 by (auto simp: f requested_fields word_less_def)
    have "(\<exists>r. e = CapsSampleRate r) \<or> (\<exists>n. e = CapsChannels n) \<or> (\<exists>b. e = CapsBitrate b \<and> 510000 < b \<and> 510000 < hf_max_bitrate ho)"
      using Some ms[OF ch] codec big \<open>6000 \<le> c_opus_bitrate o7\<close>
      by (auto simp: caps_validate_def not_less split: if_splits)
    then show ?thesis by (simp add: eq Some)
  qed
qed

theorem negotiation_sound_witness:
  "case negotiate_caps demo_host_format (demo_pcm_caps 0) of
     Inr c \<Rightarrow> c_sample_rate c = 48000 \<and> c_codec c = CodecPCMS16LE | Inl e \<Rightarrow> False"
proof -
  have "negotiate_caps demo_host_format (demo_pcm_caps 0) = Inr ((demo_pcm_caps 48000))"
  proof -
    have r: "requested_caps demo_host_format (demo_pcm_caps 0) = demo_pcm_caps 48000"
      by (simp add: requested_caps_def demo_host_format_def demo_pcm_caps_def offer_caps_def bool_bit_def clamp_u32_def)
    have "pcm_fit 2 5 = 5" by (rule pcm_fit_small) simp
    moreover have "caps_validate (demo_pcm_caps 48000) = None" by (simp add: caps_validate_def demo_pcm_caps_def)
    ultimately show ?thesis unfolding negotiate_caps_def Let_def r by (simp add: demo_pcm_caps_def)
  qed
  then show ?thesis using negotiation_sound[of demo_host_format "demo_pcm_caps 0"]
    by (simp add: demo_host_format_def demo_pcm_caps_def)
qed

end
