(* ===== verification/Devices.thy ===== *)
theory Devices
  imports Relay GoInt
begin

text \<open>
  Choosing an audio device, \<^verbatim>\<open>engine/internal/audio/devices.go\<close>, and the registry of audio backends,
  \<^verbatim>\<open>engine/internal/audio/backend.go\<close>.  Go's \<^verbatim>\<open>strings.ToLower\<close> is the parameter \<open>lower\<close>.
\<close>

section \<open>Numbers in text\<close>

text \<open>\<^verbatim>\<open>strconv.ParseUint(s, 10, bits)\<close> and \<^verbatim>\<open>strconv.Atoi\<close> on a 64-bit machine.\<close>

fun digits_from :: "nat \<Rightarrow> bytes \<Rightarrow> nat option" where
  "digits_from acc [] = Some acc"
| "digits_from acc (c # cs) =
     (if 48 \<le> c \<and> c \<le> 57 then digits_from (10 * acc + (unat c - 48)) cs else None)"

definition parse_uint :: "nat \<Rightarrow> bytes \<Rightarrow> nat option" where
  "parse_uint bits s = (if s = [] then None else
     case digits_from 0 s of None \<Rightarrow> None | Some n \<Rightarrow> if n < 2 ^ bits then Some n else None)"

definition atoi :: "bytes \<Rightarrow> int option" where
  "atoi s = (let neg = (s \<noteq> [] \<and> s ! 0 = 45);
       ds = (if s \<noteq> [] \<and> (s ! 0 = 45 \<or> s ! 0 = 43) then tl s else s)
     in if ds = [] then None
        else case digits_from 0 ds of
          None \<Rightarrow> None
        | Some n \<Rightarrow> if neg then (if n \<le> 2 ^ 63 then Some (- int n) else None)
                    else (if n < 2 ^ 63 then Some (int n) else None))"

fun digit_bytes :: "nat \<Rightarrow> bytes" where
  "digit_bytes n = (if n < 10 then [48 + word_of_nat n] else digit_bytes (n div 10) @ [48 + word_of_nat (n mod 10)])"

declare digit_bytes.simps [simp del]

section \<open>Trimming\<close>

lemma space_ends: "\<forall>e \<in> set space_encodings. e \<noteq> [] \<and> (hd e < 33 \<or> 126 < hd e) \<and> (last e < 33 \<or> 126 < last e)"
  by (simp add: space_encodings_def upt_rec)

lemma trim_with_plain:
  assumes "\<forall>e \<in> set encs. e \<noteq> [] \<and> (hd e < 33 \<or> 126 < hd e)" "33 \<le> x" "x \<le> 126"
  shows "trim_with encs (x # b) = x # b"
proof -
  have "find (\<lambda>e. e \<noteq> [] \<and> prefix e (x # b)) encs = None"
  proof -
    have "\<not> prefix e (x # b)" if "e \<in> set encs" for e
      using assms that by (cases e) (auto simp: not_less dest!: bspec[OF assms(1)])
    then show ?thesis by (auto simp: find_None_iff)
  qed
  then show ?thesis by (subst trim_with.simps) simp
qed

lemma trim_space_plain:
  assumes "b \<noteq> []" "33 \<le> hd b" "hd b \<le> 126" "33 \<le> last b" "last b \<le> 126"
  shows "trim_space b = b"
proof -
  have f: "trim_with space_encodings b = b"
    using trim_with_plain[of space_encodings "hd b" "tl b"] space_ends assms by simp
  have "\<forall>e \<in> set (map rev space_encodings). e \<noteq> [] \<and> (hd e < 33 \<or> 126 < hd e)"
    using space_ends by (auto simp: hd_rev)
  then have "trim_with (map rev space_encodings) (hd (rev b) # tl (rev b)) = hd (rev b) # tl (rev b)"
    by (rule trim_with_plain) (use assms in \<open>simp_all add: hd_rev\<close>)
  then have "trim_with (map rev space_encodings) (rev b) = rev b" using assms(1) by simp
  then show ?thesis using f by (simp add: trim_space_def)
qed

section \<open>Devices\<close>

record device_info =
  di_index :: int
  di_name :: bytes
  di_id :: bytes
  di_note :: bytes

datatype device_error =
    SelectorEmpty
  | IndexNegative int
  | IndexOutOfRange int "device_info list"
  | AmbiguousSelector bytes "device_info list"
  | NoMatchingDevice bytes "device_info list"

definition matching_names :: "(bytes \<Rightarrow> bytes) \<Rightarrow> bytes \<Rightarrow> bool \<Rightarrow> device_info list \<Rightarrow> device_info list" where
  "matching_names lower selector exact devices =
     filter (\<lambda>d. if exact then lower (di_name d) = lower selector else sublist (lower selector) (lower (di_name d)))
       devices"

text \<open>\<open>Inr None\<close> is no match, \<open>Inl\<close> more than one.\<close>

definition select_named_device ::
  "(bytes \<Rightarrow> bytes) \<Rightarrow> bytes \<Rightarrow> device_info list \<Rightarrow> bool \<Rightarrow> device_error + device_info option" where
  "select_named_device lower selector devices exact =
     (case matching_names lower selector exact devices of
        [] \<Rightarrow> Inr None
      | [d] \<Rightarrow> Inr (Some d)
      | ds \<Rightarrow> Inl (AmbiguousSelector selector ds))"

definition select_device_by_selector ::
  "(bytes \<Rightarrow> bytes) \<Rightarrow> bytes \<Rightarrow> device_info list \<Rightarrow> device_error + device_info" where
  "select_device_by_selector lower sel devices =
     (let selector = trim_space sel in
      if selector = [] then Inl SelectorEmpty
      else case atoi selector of
        Some index \<Rightarrow>
          if index < 0 then Inl (IndexNegative index)
          else (case find (\<lambda>d. di_index d = index) devices of
              Some d \<Rightarrow> Inr d
            | None \<Rightarrow> Inl (IndexOutOfRange index devices))
      | None \<Rightarrow>
          (case select_named_device lower selector devices True of
             Inl e \<Rightarrow> Inl e
           | Inr (Some d) \<Rightarrow> Inr d
           | Inr None \<Rightarrow>
               (case select_named_device lower selector devices False of
                  Inl e \<Rightarrow> Inl e
                | Inr (Some d) \<Rightarrow> Inr d
                | Inr None \<Rightarrow> Inl (NoMatchingDevice selector devices))))"

section \<open>Backends\<close>

text \<open>The insertion sort \<^verbatim>\<open>sortStrings\<close>; strings compare bytewise.\<close>

fun bytes_less :: "bytes \<Rightarrow> bytes \<Rightarrow> bool" where
  "bytes_less _ [] = False"
| "bytes_less [] (_ # _) = True"
| "bytes_less (a # as) (b # bs) = (a < b \<or> a = b \<and> bytes_less as bs)"

function sift_down :: "nat \<Rightarrow> bytes list \<Rightarrow> bytes list" where
  "sift_down j s = (if j > 0 \<and> bytes_less (s ! j) (s ! (j - 1))
     then sift_down (j - 1) (s[j := s ! (j - 1), j - 1 := s ! j]) else s)"
  by pat_completeness auto
termination by (relation "measure fst") auto

declare sift_down.simps [simp del]

definition sort_strings :: "bytes list \<Rightarrow> bytes list" where
  "sort_strings s = fold sift_down [1..<length s] s"

datatype backend_error = UnknownBackend bytes "bytes list" | BackendNotBuilt bytes

text \<open>The registry, in the order the map is ranged over; a constructor yields \<open>None\<close> when it is not built in.\<close>

type_synonym 'b registry = "(bytes \<times> 'b option) list"

definition register_backend :: "bytes \<Rightarrow> 'b option \<Rightarrow> 'b registry \<Rightarrow> 'b registry" where
  "register_backend name ctor reg = AList.update name ctor reg"

definition backends :: "'b registry \<Rightarrow> bytes list" where
  "backends reg = sort_strings (map fst reg)"

definition wasapi_name :: bytes where "wasapi_name = [119, 97, 115, 97, 112, 105]"
definition malgo_name :: bytes where "malgo_name = [109, 97, 108, 103, 111]"
definition none_name :: bytes where "none_name = [110, 111, 110, 101]"
definition windows_os :: bytes where "windows_os = [119, 105, 110, 100, 111, 119, 115]"

definition default_backend_name :: "bytes \<Rightarrow> 'b registry \<Rightarrow> bytes" where
  "default_backend_name goos reg =
     (if goos = windows_os then wasapi_name
      else if map_of reg malgo_name \<noteq> None then malgo_name else none_name)"

definition open_backend :: "bytes \<Rightarrow> bytes \<Rightarrow> 'b registry \<Rightarrow> backend_error + 'b" where
  "open_backend goos nm reg =
     (let name = (if nm = [] then default_backend_name goos reg else nm)
      in case map_of reg name of
           None \<Rightarrow> Inl (UnknownBackend name (backends reg))
         | Some None \<Rightarrow> Inl (BackendNotBuilt name)
         | Some (Some b) \<Rightarrow> Inr b)"

section \<open>Facts\<close>

lemma digit_byte:
  assumes "k < 10"
  shows "(48 :: byte) \<le> 48 + word_of_nat k \<and> (48 + word_of_nat k :: byte) \<le> 57 \<and> unat (48 + word_of_nat k :: byte) = 48 + k"
proof -
  have "unat (48 + word_of_nat k :: byte) = 48 + k" using assms by (simp add: unat_word_ariths unat_of_nat)
  then show ?thesis using assms by (simp add: word_le_nat_alt)
qed

lemma digits_from_append:
  "digits_from acc (a @ b) = (case digits_from acc a of None \<Rightarrow> None | Some v \<Rightarrow> digits_from v b)"
  by (induction a arbitrary: acc) simp_all

lemma digits_from_digit: "k < 10 \<Longrightarrow> digits_from acc [48 + word_of_nat k] = Some (10 * acc + k)"
  using digit_byte[of k] by simp

lemma digits_from_bytes: "digits_from 0 (digit_bytes n) = Some n"
proof (induction n rule: digit_bytes.induct)
  case (1 n)
  then show ?case
    by (subst digit_bytes.simps) (auto simp: digits_from_append digits_from_digit simp del: digits_from.simps)
qed

lemma digit_bytes_digits: "c \<in> set (digit_bytes n) \<Longrightarrow> 48 \<le> c \<and> c \<le> 57"
proof (induction n rule: digit_bytes.induct)
  case (1 n)
  show ?case
  proof (cases "n < 10")
    case True
    then show ?thesis using 1(2) digit_byte[of n] by (subst (asm) digit_bytes.simps) simp
  next
    case False
    then have "c \<in> set (digit_bytes (n div 10)) \<or> c = 48 + word_of_nat (n mod 10)"
      using 1(2) by (subst (asm) digit_bytes.simps) auto
    then show ?thesis using 1(1)[OF False] digit_byte[of "n mod 10"] by auto
  qed
qed

lemma digit_bytes_ne: "digit_bytes n \<noteq> []"
  by (subst digit_bytes.simps) simp

lemma parse_uint_digits: "n < 2 ^ b \<Longrightarrow> parse_uint b (digit_bytes n) = Some n"
  by (simp add: parse_uint_def digit_bytes_ne digits_from_bytes)

lemma matching_names_mem:
  "d \<in> set (matching_names lower selector exact devices) \<longleftrightarrow> d \<in> set devices \<and>
     (if exact then lower (di_name d) = lower selector else sublist (lower selector) (lower (di_name d)))"
  by (auto simp: matching_names_def)

lemma select_named_Some:
  "select_named_device lower selector devices exact = Inr (Some d) \<longleftrightarrow> matching_names lower selector exact devices = [d]"
  by (auto simp: select_named_device_def split: list.splits)

lemma select_named_None:
  "select_named_device lower selector devices exact = Inr None \<longleftrightarrow> matching_names lower selector exact devices = []"
  by (auto simp: select_named_device_def split: list.splits)

lemma select_by_index:
  "trim_space sel \<noteq> [] \<Longrightarrow> atoi (trim_space sel) = Some i \<Longrightarrow>
     (select_device_by_selector lower sel devices = Inr d) = (0 \<le> i \<and> find (\<lambda>d. di_index d = i) devices = Some d)"
  by (auto simp: select_device_by_selector_def Let_def split: option.splits)

lemma select_by_name:
  "trim_space sel \<noteq> [] \<Longrightarrow> atoi (trim_space sel) = None \<Longrightarrow>
     (select_device_by_selector lower sel devices = Inr d) =
       (matching_names lower (trim_space sel) True devices = [d] \<or>
        matching_names lower (trim_space sel) True devices = [] \<and>
        matching_names lower (trim_space sel) False devices = [d])"
  by (cases "matching_names lower (trim_space sel) True devices" rule: remdups_adj.cases;
      cases "matching_names lower (trim_space sel) False devices" rule: remdups_adj.cases)
    (simp_all add: select_device_by_selector_def Let_def select_named_device_def)

text \<open>What a successful selection always means.\<close>

lemma select_sound:
  assumes "select_device_by_selector lower sel devices = Inr d"
  shows "d \<in> set devices" "trim_space sel \<noteq> []"
proof -
  show z: "trim_space sel \<noteq> []" using assms by (auto simp: select_device_by_selector_def)
  show "d \<in> set devices"
  proof (cases "atoi (trim_space sel)")
    case (Some i)
    then show ?thesis using assms select_by_index[OF z Some] by (auto simp: find_Some_iff in_set_conv_nth)
  next
    case None
    then have "d \<in> set (matching_names lower (trim_space sel) True devices) \<or>
        d \<in> set (matching_names lower (trim_space sel) False devices)"
      using assms select_by_name[OF z None] by auto
    then show ?thesis by (auto simp: matching_names_def)
  qed
qed

text \<open>
  Choosing a device by its own name, which is how the host keeps a chosen device and finds it
  again when it opens the capture, gives that device back exactly when the name is not blank, does
  not read as a number and is no other device's name up to case.  A receiver that picks a device by
  index whose name two devices share, or whose name is a number, therefore gets an acknowledged
  selection that the backend cannot open, or opens another device for.
\<close>

theorem device_found_again:
  assumes "d \<in> set devices" "distinct devices" "trim_space (di_name d) = di_name d"
  shows "select_device_by_selector lower (di_name d) devices = Inr d \<longleftrightarrow>
    di_name d \<noteq> [] \<and>
    (case atoi (di_name d) of
       None \<Rightarrow> \<forall>e \<in> set devices. lower (di_name e) = lower (di_name d) \<longrightarrow> e = d
     | Some i \<Rightarrow> 0 \<le> i \<and> find (\<lambda>e. di_index e = i) devices = Some d)"
proof (cases "di_name d = []")
  case True
  then show ?thesis using assms(3) by (simp add: select_device_by_selector_def)
next
  case False
  then have z: "trim_space (di_name d) \<noteq> []" using assms(3) by simp
  show ?thesis
  proof (cases "atoi (di_name d)")
    case (Some i)
    then show ?thesis using select_by_index[of "di_name d" i lower devices d] z assms(3) by simp
  next
    case None
    let ?m = "matching_names lower (di_name d) True devices"
    have mem: "d \<in> set ?m" using assms(1) by (simp add: matching_names_mem)
    have di: "distinct ?m" using assms(2) by (simp add: matching_names_def)
    have one: "?m = [d] \<longleftrightarrow> set ?m = {d}"
    proof
      assume "set ?m = {d}"
      then have "length ?m = 1" using distinct_card[OF di] by simp
      then show "?m = [d]" using mem by (cases ?m) auto
    qed simp
    have u: "set ?m = {d} \<longleftrightarrow> (\<forall>e \<in> set devices. lower (di_name e) = lower (di_name d) \<longrightarrow> e = d)"
      using assms(1) unfolding set_eq_iff matching_names_mem if_True singleton_iff by blast
    have ne: "?m \<noteq> []" by (rule length_pos_if_in_set[OF mem, unfolded length_greater_0_conv])
    have nn: "atoi (trim_space (di_name d)) = None" by (simp only: assms(3) None)
    have "select_device_by_selector lower (di_name d) devices = Inr d \<longleftrightarrow> ?m = [d]"
      by (simp only: select_by_name[OF z nn] assms(3) ne simp_thms)
    from trans[OF this trans[OF one u]] show ?thesis by (subst None) (simp only: option.case False simp_thms not_False_eq_True)
  qed
qed

lemma device_found_again_witness:
  "let d = \<lparr>di_index = 4, di_name = [49], di_id = [], di_note = []\<rparr>
   in select_device_by_selector (\<lambda>n. n) (di_name d) [\<lparr>di_index = 1, di_name = [72], di_id = [], di_note = []\<rparr>, d] \<noteq> Inr d"
proof -
  define d e :: device_info where "d = \<lparr>di_index = 4, di_name = [49], di_id = [], di_note = []\<rparr>"
    and "e = \<lparr>di_index = 1, di_name = [72], di_id = [], di_note = []\<rparr>"
  have n: "di_name d = [49]" "atoi [49] = Some 1" by (simp_all add: d_def atoi_def)
  have t: "trim_space (di_name d) = di_name d"
    unfolding n trim_space_def by (simp add: trim_with.simps space_encodings_def upt_rec)
  have "select_device_by_selector (\<lambda>n. n) (di_name d) [e, d] = Inr d \<longleftrightarrow> False"
    using device_found_again[of d "[e, d]" "\<lambda>n. n"] t by (simp add: n) (simp add: d_def e_def)
  then show ?thesis unfolding Let_def d_def e_def by simp
qed

end
