(* ===== verification/HostCapture.thy ===== *)
theory HostCapture
  imports Devices AudioFormat ControlV2
begin

text \<open>
  What the host captures, \<^verbatim>\<open>engine/internal/engine/host.go\<close> and \<^verbatim>\<open>qualitymode.go\<close>: the selected source, the
  operations that change it while streams run, opening the shared capture, and the receiver's
  SET_SOURCE request.  The operating system's audio is the record \<open>audio_system\<close> over a world \<open>'w\<close>: opening
  and closing may fail and change the world.
\<close>

section \<open>State\<close>

datatype source = SourceMicrophone | SourceLoopback | SourceTestTone
datatype tone_mode = ToneSine | ToneClick

datatype open_call =
    OpenProcessLoopback "u32 list" bool format
  | OpenSynthetic format tone_mode
  | OpenDevice format source bytes

datatype capture_error =
    NeedsBackend
  | OpenFailed bytes
  | CloseFailed bytes
  | DevicesFailed bytes
  | DeviceRefused device_error
  | NoProcessIds
  | ExcludeTakesOne
  | ProcessIdZero
  | BadPerAppName bytes
  | EmptyPid bytes
  | BadPid bytes bytes
  | UnknownSourceKind u8

record ('c, 'w) audio_system =
  au_open :: "open_call \<Rightarrow> 'w \<Rightarrow> (bytes + 'c) \<times> 'w"
  au_close :: "'c \<Rightarrow> 'w \<Rightarrow> bytes option \<times> 'w"
  au_playback_devices :: "'w \<Rightarrow> (bytes + device_info list) \<times> 'w"

record 'c capture_state =
  hc_format :: format
  hc_backend :: bool
  hc_source :: source
  hc_selector :: bytes
  hc_tone :: tone_mode
  hc_capture_apps :: "u32 list"
  hc_exclude_apps :: "u32 list"
  hc_capture :: "'c option"

section \<open>Switching\<close>

text \<open>The capture is dropped first; only then is it closed.\<close>

definition drop_capture ::
  "('c, 'w) audio_system \<Rightarrow> 'c capture_state \<Rightarrow> 'w \<Rightarrow> capture_error option \<times> 'c capture_state \<times> 'w" where
  "drop_capture A h w =
     (case hc_capture h of
        None \<Rightarrow> (None, h, w)
      | Some c \<Rightarrow> let (e, w1) = au_close A c w in (map_option CloseFailed e, h\<lparr>hc_capture := None\<rparr>, w1))"

definition set_source_device ::
  "('c, 'w) audio_system \<Rightarrow> bytes \<Rightarrow> 'c capture_state \<Rightarrow> 'w \<Rightarrow> capture_error option \<times> 'c capture_state \<times> 'w" where
  "set_source_device A selector h w =
     drop_capture A (h\<lparr>hc_selector := selector, hc_capture_apps := [], hc_exclude_apps := []\<rparr>) w"

definition set_capture_source ::
  "('c, 'w) audio_system \<Rightarrow> source \<Rightarrow> 'c capture_state \<Rightarrow> 'w \<Rightarrow> capture_error option \<times> 'c capture_state \<times> 'w" where
  "set_capture_source A src h w =
     drop_capture A (h\<lparr>hc_source := src, hc_capture_apps := [], hc_exclude_apps := []\<rparr>) w"

fun clean_pids :: "u32 list \<Rightarrow> u32 list \<Rightarrow> u32 list option" where
  "clean_pids clean [] = Some clean"
| "clean_pids clean (p # ps) =
     (if p = 0 then None else clean_pids (if p \<in> set clean then clean else clean @ [p]) ps)"

definition set_capture_apps ::
  "('c, 'w) audio_system \<Rightarrow> u32 list \<Rightarrow> bool \<Rightarrow> 'c capture_state \<Rightarrow> 'w \<Rightarrow>
     capture_error option \<times> 'c capture_state \<times> 'w" where
  "set_capture_apps A pids exclude h w =
     (if pids = [] then (Some NoProcessIds, h, w)
      else if exclude \<and> length pids > 1 then (Some ExcludeTakesOne, h, w)
      else case clean_pids [] pids of
        None \<Rightarrow> (Some ProcessIdZero, h, w)
      | Some ps \<Rightarrow>
          drop_capture A
            (h\<lparr>hc_capture_apps := (if exclude then [] else ps), hc_exclude_apps := (if exclude then ps else []),
               hc_source := SourceLoopback, hc_selector := []\<rparr>) w)"

text \<open>The monitor saw another default endpoint; an error of closing is dropped.\<close>

definition endpoint_changed :: "('c, 'w) audio_system \<Rightarrow> 'c capture_state \<Rightarrow> 'w \<Rightarrow> 'c capture_state \<times> 'w" where
  "endpoint_changed A h w = snd (drop_capture A h w)"

section \<open>Opening\<close>

definition selected_call :: "'c capture_state \<Rightarrow> capture_error + open_call" where
  "selected_call h =
     (if hc_capture_apps h \<noteq> [] \<or> hc_exclude_apps h \<noteq> [] then
        Inr (if hc_capture_apps h = [] then OpenProcessLoopback (hc_exclude_apps h) True (hc_format h)
             else OpenProcessLoopback (hc_capture_apps h) False (hc_format h))
      else if hc_source h = SourceTestTone then Inr (OpenSynthetic (hc_format h) (hc_tone h))
      else if \<not> hc_backend h then Inl NeedsBackend
      else Inr (OpenDevice (hc_format h) (hc_source h) (hc_selector h)))"

definition ensure_capture ::
  "('c, 'w) audio_system \<Rightarrow> 'c capture_state \<Rightarrow> 'w \<Rightarrow> capture_error option \<times> 'c capture_state \<times> 'w" where
  "ensure_capture A h w =
     (if hc_capture h \<noteq> None then (None, h, w)
      else case selected_call h of
        Inl e \<Rightarrow> (Some e, h, w)
      | Inr call \<Rightarrow>
          (case au_open A call w of
             (Inl e, w1) \<Rightarrow> (Some (OpenFailed e), h, w1)
           | (Inr c, w1) \<Rightarrow> (None, h\<lparr>hc_capture := Some c\<rparr>, w1)))"

section \<open>The receiver's request\<close>

fun split_comma :: "bytes \<Rightarrow> bytes list" where
  "split_comma [] = [[]]"
| "split_comma (c # cs) =
     (if c = 44 then [] # split_comma cs
      else case split_comma cs of [] \<Rightarrow> [[c]] | p # ps \<Rightarrow> (c # p) # ps)"

fun parse_pids :: "bytes \<Rightarrow> u32 list \<Rightarrow> bytes list \<Rightarrow> capture_error + u32 list" where
  "parse_pids name pids [] = Inr pids"
| "parse_pids name pids (part # parts) =
     (let p = trim_space part in
      if p = [] then Inl (EmptyPid name)
      else case parse_uint 32 p of
        None \<Rightarrow> Inl (BadPid p name)
      | Some v \<Rightarrow>
          if v = 0 then Inl ProcessIdZero
          else let pid = word_of_nat v
            in parse_pids name (if pid \<in> set pids then pids else pids @ [pid]) parts)"

definition parse_per_app_source_name :: "bytes \<Rightarrow> capture_error + u32 list \<times> bool" where
  "parse_per_app_source_name name =
     (let s = trim_space name in
      if length s < 3 \<or> (s ! 0 \<noteq> 112 \<and> s ! 0 \<noteq> 120) \<or> s ! 1 \<noteq> 58 then Inl (BadPerAppName name)
      else let exclude = (s ! 0 = 120) in
        (case parse_pids name [] (split_comma (drop 2 s)) of
           Inl e \<Rightarrow> Inl e
         | Inr pids \<Rightarrow> if exclude \<and> length pids > 1 then Inl ExcludeTakesOne else Inr (pids, exclude)))"

text \<open>The accepted request's description in the acknowledgement.\<close>

datatype source_detail =
    SourceDefaultDetail
  | SourceDeviceDetail bytes
  | SourceToneDetail
  | SourceAppsDetail "u32 list" bool

text \<open>\<open>first_ok f g\<close> is \<open>f\<close>, then \<open>g\<close> if \<open>f\<close> met no error.\<close>

definition and_then ::
  "(capture_error option \<times> 'h \<times> 'w) \<Rightarrow> ('h \<Rightarrow> 'w \<Rightarrow> capture_error option \<times> 'h \<times> 'w) \<Rightarrow>
     capture_error option \<times> 'h \<times> 'w" where
  "and_then r g = (case r of (Some e, h, w) \<Rightarrow> (Some e, h, w) | (None, h, w) \<Rightarrow> g h w)"

definition outcome :: "source_detail \<Rightarrow> capture_error option \<times> 'h \<times> 'w \<Rightarrow> (capture_error + source_detail) \<times> 'h \<times> 'w" where
  "outcome d r = (case r of (None, h, w) \<Rightarrow> (Inr d, h, w) | (Some e, h, w) \<Rightarrow> (Inl e, h, w))"

definition apply_set_source ::
  "('c, 'w) audio_system \<Rightarrow> (bytes \<Rightarrow> bytes) \<Rightarrow> set_source \<Rightarrow> 'c capture_state \<Rightarrow> 'w \<Rightarrow>
     (capture_error + source_detail) \<times> 'c capture_state \<times> 'w" where
  "apply_set_source A lower src h w =
     (if ss_kind src = SetSourceDefault then
        outcome SourceDefaultDetail
          (and_then (and_then (set_source_device A [] h w) (set_capture_source A SourceLoopback)) (ensure_capture A))
      else if ss_kind src = SetSourceDevice then
        (if \<not> hc_backend h then (Inl NeedsBackend, h, w)
         else case au_playback_devices A w of
           (Inl e, w1) \<Rightarrow> (Inl (DevicesFailed e), h, w1)
         | (Inr devs, w1) \<Rightarrow>
             (case select_device_by_selector lower (trim_space (ss_name src)) devs of
                Inl e \<Rightarrow> (Inl (DeviceRefused e), h, w1)
              | Inr dev \<Rightarrow>
                  outcome (SourceDeviceDetail (di_name dev))
                    (and_then (and_then (set_source_device A (di_name dev) h w1) (set_capture_source A SourceLoopback))
                      (ensure_capture A))))
      else if ss_kind src = SetSourceTestTone then
        outcome SourceToneDetail
          (and_then (set_capture_source A SourceTestTone (h\<lparr>hc_tone := ToneSine\<rparr>) w) (ensure_capture A))
      else (Inl (UnknownSourceKind (ss_kind src)), h, w))"

definition apply_set_source_with_apps ::
  "('c, 'w) audio_system \<Rightarrow> (bytes \<Rightarrow> bytes) \<Rightarrow> set_source \<Rightarrow> 'c capture_state \<Rightarrow> 'w \<Rightarrow>
     (capture_error + source_detail) \<times> 'c capture_state \<times> 'w" where
  "apply_set_source_with_apps A lower src h w =
     (if ss_kind src = SetSourcePerApp then
        (case parse_per_app_source_name (ss_name src) of
           Inl e \<Rightarrow> (Inl e, h, w)
         | Inr (pids, exclude) \<Rightarrow>
             (case set_capture_apps A pids exclude h w of
                (Some e, h1, w1) \<Rightarrow> (Inl e, h1, w1)
              | (None, h1, w1) \<Rightarrow>
                  (case ensure_capture A h1 w1 of
                     (Some e, h2, w2) \<Rightarrow>
                       (case set_capture_source A SourceLoopback h2 w2 of
                          (_, h3, w3) \<Rightarrow> (Inl e, snd (ensure_capture A h3 w3)))
                   | (None, h2, w2) \<Rightarrow> (Inr (SourceAppsDetail pids exclude), h2, w2))))
      else apply_set_source A lower src h w)"

section \<open>Runs\<close>

datatype capture_event =
    ChooseDevice bytes
  | ChooseSource source
  | ChooseApps "u32 list" bool
  | EndpointChanged
  | NeedCapture
  | SourceRequested set_source

definition capture_step ::
  "('c, 'w) audio_system \<Rightarrow> (bytes \<Rightarrow> bytes) \<Rightarrow> capture_event \<Rightarrow> 'c capture_state \<times> 'w \<Rightarrow> 'c capture_state \<times> 'w" where
  "capture_step A lower e hw = (case hw of (h, w) \<Rightarrow>
     case e of
       ChooseDevice sel \<Rightarrow> snd (set_source_device A sel h w)
     | ChooseSource src \<Rightarrow> snd (set_capture_source A src h w)
     | ChooseApps pids exclude \<Rightarrow> snd (set_capture_apps A pids exclude h w)
     | EndpointChanged \<Rightarrow> endpoint_changed A h w
     | NeedCapture \<Rightarrow> snd (ensure_capture A h w)
     | SourceRequested src \<Rightarrow> snd (apply_set_source_with_apps A lower src h w))"

definition capture_run ::
  "('c, 'w) audio_system \<Rightarrow> (bytes \<Rightarrow> bytes) \<Rightarrow> capture_event list \<Rightarrow> 'c capture_state \<times> 'w \<Rightarrow> 'c capture_state \<times> 'w" where
  "capture_run A lower es hw = fold (capture_step A lower) es hw"

section \<open>An open capture is the selected one\<close>

definition opened_by :: "('c, 'w) audio_system \<Rightarrow> open_call \<Rightarrow> 'c \<Rightarrow> bool" where
  "opened_by A call c \<longleftrightarrow> (\<exists>w w'. au_open A call w = (Inr c, w'))"

definition capture_inv :: "('c, 'w) audio_system \<Rightarrow> 'c capture_state \<Rightarrow> bool" where
  "capture_inv A h \<longleftrightarrow>
     (\<forall>c. hc_capture h = Some c \<longrightarrow> (\<exists>call. selected_call h = Inr call \<and> opened_by A call c)) \<and>
     (hc_capture_apps h = [] \<or> hc_exclude_apps h = []) \<and>
     distinct (hc_capture_apps h @ hc_exclude_apps h) \<and> 0 \<notin> set (hc_capture_apps h @ hc_exclude_apps h) \<and>
     length (hc_exclude_apps h) \<le> 1"

definition apps_ok :: "'c capture_state \<Rightarrow> bool" where
  "apps_ok h \<longleftrightarrow> (hc_capture_apps h = [] \<or> hc_exclude_apps h = []) \<and>
     distinct (hc_capture_apps h @ hc_exclude_apps h) \<and> 0 \<notin> set (hc_capture_apps h @ hc_exclude_apps h) \<and>
     length (hc_exclude_apps h) \<le> 1"

lemma capture_inv_closed: "hc_capture h = None \<Longrightarrow> capture_inv A h = apps_ok h"
  by (simp add: capture_inv_def apps_ok_def)

lemma capture_inv_apps: "capture_inv A h \<Longrightarrow> apps_ok h"
  by (simp add: capture_inv_def apps_ok_def)

lemma drop_capture_result: "fst (snd (drop_capture A h w)) = h\<lparr>hc_capture := None\<rparr>"
  by (simp add: drop_capture_def split: option.split prod.split)

lemma drop_capture_open: "hc_capture (fst (snd (drop_capture A h w))) = None"
  by (simp add: drop_capture_result)

lemma drop_capture_inv: "apps_ok h \<Longrightarrow> capture_inv A (fst (snd (drop_capture A h w)))"
  by (simp add: drop_capture_result capture_inv_closed apps_ok_def)

lemma clean_pids_sound:
  "clean_pids clean ps = Some r \<Longrightarrow> distinct clean \<Longrightarrow> 0 \<notin> set clean \<Longrightarrow>
     distinct r \<and> 0 \<notin> set r \<and> set r = set clean \<union> set ps \<and> length r \<le> length clean + length ps"
  by (induction clean ps rule: clean_pids.induct) (auto split: if_splits)

lemma clean_pids_distinct:
  "distinct (clean @ ps) \<Longrightarrow> 0 \<notin> set ps \<Longrightarrow> clean_pids clean ps = Some (clean @ ps)"
  by (induction clean ps rule: clean_pids.induct) auto

lemma selected_call_capture [simp]: "selected_call (h\<lparr>hc_capture := x\<rparr>) = selected_call h"
  by (simp add: selected_call_def)

lemma set_source_device_inv: "capture_inv A (fst (snd (set_source_device A sel h w)))"
  unfolding set_source_device_def by (rule drop_capture_inv) (simp add: apps_ok_def)

lemma set_capture_source_inv: "capture_inv A (fst (snd (set_capture_source A src h w)))"
  unfolding set_capture_source_def by (rule drop_capture_inv) (simp add: apps_ok_def)

lemma set_capture_apps_inv:
  assumes "capture_inv A h"
  shows "capture_inv A (fst (snd (set_capture_apps A pids exclude h w)))"
proof (cases "pids = [] \<or> exclude \<and> length pids > 1")
  case False
  show ?thesis
  proof (cases "clean_pids [] pids")
    case (Some ps)
    then have "distinct ps \<and> 0 \<notin> set ps \<and> (exclude \<longrightarrow> length ps \<le> 1)"
      using clean_pids_sound[OF Some] False by auto
    then show ?thesis using False Some
      by (auto simp: set_capture_apps_def apps_ok_def simp del: One_nat_def intro!: drop_capture_inv)
  qed (use False assms in \<open>simp add: set_capture_apps_def\<close>)
qed (use assms in \<open>auto simp: set_capture_apps_def\<close>)

lemma ensure_capture_inv:
  assumes "capture_inv A h"
  shows "capture_inv A (fst (snd (ensure_capture A h w)))"
proof (cases "hc_capture h")
  case None
  have *: "capture_inv A (h\<lparr>hc_capture := Some c\<rparr>)" if "selected_call h = Inr call" "au_open A call w = (Inr c, w1)" for call c w1
  proof -
    have "selected_call (h\<lparr>hc_capture := Some c\<rparr>) = Inr call" using that(1) by simp
    moreover have "opened_by A call c" using that(2) by (auto simp: opened_by_def)
    ultimately show ?thesis using assms by (simp add: capture_inv_def)
  qed
  show ?thesis using assms None *
    by (auto simp: ensure_capture_def split: sum.split prod.split)
qed (use assms in \<open>simp add: ensure_capture_def\<close>)

lemma and_then_state:
  assumes "P (fst (snd r))" "\<And>h w. P h \<Longrightarrow> P (fst (snd (g h w)))"
  shows "P (fst (snd (and_then r g)))"
  using assms by (cases r) (auto simp: and_then_def split: option.split)

lemma outcome_state: "fst (snd (outcome d r)) = fst (snd r)"
  by (cases r) (simp add: outcome_def split: option.split)

lemma reopen_inv:
  "capture_inv A (fst (snd (and_then (and_then (set_source_device A sel h w) (set_capture_source A src)) (ensure_capture A))))"
  "capture_inv A (fst (snd (and_then (set_capture_source A src h w) (ensure_capture A))))"
  by (rule and_then_state, (rule and_then_state)?, rule set_source_device_inv set_capture_source_inv,
      (rule set_capture_source_inv)?, erule ensure_capture_inv)+

lemma apply_set_source_inv:
  assumes "capture_inv A h"
  shows "capture_inv A (fst (snd (apply_set_source A lower src h w)))"
  unfolding apply_set_source_def
  by (simp add: assms outcome_state reopen_inv split: sum.split prod.split)

lemma apply_with_apps_inv:
  assumes "capture_inv A h"
  shows "capture_inv A (fst (snd (apply_set_source_with_apps A lower src h w)))"
proof -
  have *: "capture_inv A h1" if "set_capture_apps A pids exclude h w = (e, h1, w1)" for pids exclude e h1 w1
    using set_capture_apps_inv[OF assms, of pids exclude w] that by simp
  have **: "capture_inv A h2" if "set_capture_apps A pids exclude h w = (e, h1, w1)"
    "ensure_capture A h1 w1 = (e', h2, w2)" for pids exclude e h1 w1 e' h2 w2
    using ensure_capture_inv[OF *[OF that(1)], of w1] that(2) by simp
  have ***: "capture_inv A (fst (snd (ensure_capture A h3 w3)))" if "set_capture_source A SourceLoopback h2 w2 = (e, h3, w3)"
    for h2 w2 e h3 w3
    using ensure_capture_inv[of A h3 w3] set_capture_source_inv[of A SourceLoopback h2 w2] that by simp
  show ?thesis
    using assms * ** *** apply_set_source_inv[OF assms]
    by (auto simp: apply_set_source_with_apps_def split: sum.split prod.split option.split)
qed

lemma capture_step_inv:
  "capture_inv A (fst hw) \<Longrightarrow> capture_inv A (fst (capture_step A lower e hw))"
  by (cases hw; cases e)
    (auto simp: capture_step_def endpoint_changed_def set_source_device_inv set_capture_source_inv
      set_capture_apps_inv ensure_capture_inv apply_with_apps_inv intro: drop_capture_inv capture_inv_apps)


section \<open>The receiver's request\<close>

text \<open>How a per-application request is written.\<close>

fun join_comma :: "bytes list \<Rightarrow> bytes" where
  "join_comma [] = []"
| "join_comma [p] = p"
| "join_comma (p # q # ps) = p @ [44] @ join_comma (q # ps)"

definition per_app_name :: "u32 list \<Rightarrow> bool \<Rightarrow> bytes" where
  "per_app_name pids exclude = [if exclude then 120 else 112, 58] @ join_comma (map (\<lambda>p. digit_bytes (unat p)) pids)"

lemma split_comma_ne: "split_comma b \<noteq> []"
  by (cases b) (auto split: list.splits)

lemma split_comma_plain: "44 \<notin> set p \<Longrightarrow> split_comma p = [p]"
  by (induction p) simp_all

lemma split_comma_step: "44 \<notin> set p \<Longrightarrow> split_comma (p @ 44 # b) = p # split_comma b"
  by (induction p) (simp_all split: list.split)

lemma split_join: "ps \<noteq> [] \<Longrightarrow> \<forall>p \<in> set ps. 44 \<notin> set p \<Longrightarrow> split_comma (join_comma ps) = ps"
  by (induction ps rule: join_comma.induct) (simp_all add: split_comma_plain split_comma_step)

lemma digit_plain: "c \<in> set (digit_bytes n) \<Longrightarrow> 33 \<le> c \<and> c \<le> 126 \<and> c \<noteq> 44"
  using digit_bytes_digits[of c n] order_trans[of 33 48 c] order_trans[of c 57 126] by auto

lemma trim_digits: "trim_space (digit_bytes n) = digit_bytes n"
  using digit_plain[of "hd (digit_bytes n)" n] digit_plain[of "last (digit_bytes n)" n] digit_bytes_ne[of n]
  by (auto intro: trim_space_plain)

lemma parse_pids_written:
  assumes "distinct (pids @ ps)" "0 \<notin> set ps"
  shows "parse_pids name pids (map (\<lambda>p. digit_bytes (unat p)) ps) = Inr (pids @ ps)"
  using assms
proof (induction ps arbitrary: pids)
  case (Cons p ps)
  have "unat p < 2 ^ LENGTH(32)" by (rule unsigned_less)
  then have "unat p < 2 ^ 32" by simp
  then have "parse_uint 32 (digit_bytes (unat p)) = Some (unat p)" by (rule parse_uint_digits)
  moreover have "unat p \<noteq> 0" using Cons.prems by (simp add: unat_eq_0)
  moreover have "p \<notin> set pids" using Cons.prems by simp
  ultimately have "parse_pids name pids (map (\<lambda>p. digit_bytes (unat p)) (p # ps)) =
      parse_pids name (pids @ [p]) (map (\<lambda>p. digit_bytes (unat p)) ps)"
    by (simp add: trim_digits digit_bytes_ne)
  then show ?case using Cons.IH[of "pids @ [p]"] Cons.prems by simp
qed simp

lemma parse_pids_sound:
  "parse_pids name pids parts = Inr r \<Longrightarrow> distinct pids \<Longrightarrow> 0 \<notin> set pids \<Longrightarrow>
     distinct r \<and> 0 \<notin> set r \<and> (parts \<noteq> [] \<longrightarrow> r \<noteq> []) \<and> (pids \<noteq> [] \<longrightarrow> r \<noteq> [])"
proof (induction name pids parts rule: parse_pids.induct)
  case (2 name pids part parts)
  from "2.prems"(1) obtain v where v: "trim_space part \<noteq> []" "parse_uint 32 (trim_space part) = Some v" "v \<noteq> 0"
    and r: "parse_pids name (if word_of_nat v \<in> set pids then pids else pids @ [word_of_nat v]) parts = Inr r"
    by (auto simp: Let_def split: if_splits option.splits)
  have "v < 2 ^ 32" using v(2) by (auto simp: parse_uint_def split: if_splits option.splits)
  then have "unat (word_of_nat v :: u32) = v" by (simp add: unat_of_nat)
  then have "(word_of_nat v :: u32) \<noteq> 0" using v(3) by (metis unat_0)
  then show ?case using "2.IH"[OF refl v(1) v(2) v(3) refl] r "2.prems"(2,3) by (auto split: if_splits)
qed simp

lemma parse_per_app_sound:
  assumes "parse_per_app_source_name name = Inr (pids, exclude)"
  shows "pids \<noteq> []" "distinct pids" "0 \<notin> set pids" "exclude \<Longrightarrow> length pids = 1"
proof -
  from assms obtain r where r: "parse_pids name [] (split_comma (drop 2 (trim_space name))) = Inr r" "pids = r"
    "exclude \<Longrightarrow> length r \<le> 1"
    by (auto simp: parse_per_app_source_name_def Let_def not_less split: if_splits sum.splits)
  have "distinct r \<and> 0 \<notin> set r \<and> r \<noteq> []" using parse_pids_sound[OF r(1)] split_comma_ne by simp
  then show "pids \<noteq> []" "distinct pids" "0 \<notin> set pids" "exclude \<Longrightarrow> length pids = 1" using r(2,3) by (auto simp: le_Suc_eq)
qed

text \<open>
  The per-application request is understood as it is written: the name for any list of distinct
  non-zero process ids, a single one when it is to be excluded, is read back as that list, and whatever
  name is accepted denotes such a list, which \<^verbatim>\<open>SetCaptureApps\<close> takes unchanged.
\<close>

theorem per_app_names:
  assumes "pids \<noteq> []" "distinct pids" "0 \<notin> set pids" "exclude \<Longrightarrow> length pids = 1"
    and name: "parse_per_app_source_name name = Inr (qs, ex)"
  shows "parse_per_app_source_name (per_app_name pids exclude) = Inr (pids, exclude) \<and>
    clean_pids [] qs = Some qs \<and> qs \<noteq> [] \<and> (ex \<longrightarrow> length qs = 1)"
proof (rule conjI)
  let ?ds = "map (\<lambda>p. digit_bytes (unat p)) pids"
  let ?n = "per_app_name pids exclude"
  have last: "join_comma ps \<noteq> [] \<and> last (join_comma ps) \<in> set (concat ps)" if "ps \<noteq> []" "\<forall>p \<in> set ps. p \<noteq> []" for ps :: "bytes list"
    using that by (induction ps rule: join_comma.induct) auto
  have l: "join_comma ?ds \<noteq> [] \<and> last (join_comma ?ds) \<in> set (concat ?ds)"
    by (rule last) (use assms(1) digit_bytes_ne in auto)
  have "33 \<le> last ?n \<and> last ?n \<le> 126" using l digit_plain by (auto simp: per_app_name_def)
  then have t: "trim_space ?n = ?n" by (intro trim_space_plain) (auto simp: per_app_name_def)
  have len: "length ?n \<ge> 3" using l by (cases "join_comma ?ds") (simp_all add: per_app_name_def)
  have "split_comma (join_comma ?ds) = ?ds"
    by (rule split_join) (use assms(1) digit_plain in auto)
  moreover have "parse_pids ?n [] ?ds = Inr pids" using parse_pids_written[of "[]" pids ?n] assms(2,3) by simp
  ultimately have "parse_pids ?n [] (split_comma (drop 2 ?n)) = Inr pids"
    by (simp add: per_app_name_def)
  moreover have "?n ! 0 = (if exclude then 120 else 112)" "?n ! 1 = 58" by (simp_all add: per_app_name_def)
  ultimately show "parse_per_app_source_name ?n = Inr (pids, exclude)"
    using len assms(4) t by (auto simp: parse_per_app_source_name_def Let_def)
  show "clean_pids [] qs = Some qs \<and> qs \<noteq> [] \<and> (ex \<longrightarrow> length qs = 1)"
    using parse_per_app_sound[OF name] clean_pids_distinct[of "[]" qs] by auto
qed

lemma per_app_names_witness:
  "parse_per_app_source_name (per_app_name [12, 4294967295] False) = Inr ([12, 4294967295], False) \<and>
   clean_pids [] [7 :: u32] = Some [7] \<and> [7 :: u32] \<noteq> [] \<and> (True \<longrightarrow> length [7 :: u32] = 1)"
proof -
  have "parse_per_app_source_name [120, 58, 55] = Inr ([7], True)"
  proof -
    have "trim_space [120, 58, 55] = [120, 58, 55]" "trim_space [55] = [55]" by (simp_all add: trim_space_plain)
    moreover have "parse_uint 32 [55] = Some 7" by (simp add: parse_uint_def)
    ultimately show ?thesis by (simp add: parse_per_app_source_name_def)
  qed
  then show ?thesis
    using per_app_names[of "[12, 4294967295]" False "[120, 58, 55]" "[7]" True] by simp
qed

text \<open>What an acknowledged request announces, as the call that opens it.\<close>

fun detail_call :: "format \<Rightarrow> source_detail \<Rightarrow> open_call" where
  "detail_call f SourceDefaultDetail = OpenDevice f SourceLoopback []"
| "detail_call f (SourceDeviceDetail name) = OpenDevice f SourceLoopback name"
| "detail_call f SourceToneDetail = OpenSynthetic f ToneSine"
| "detail_call f (SourceAppsDetail pids exclude) = OpenProcessLoopback pids exclude f"

definition captures :: "('c, 'w) audio_system \<Rightarrow> open_call \<Rightarrow> 'c capture_state \<Rightarrow> 'w \<Rightarrow> bool" where
  "captures A call h w \<longleftrightarrow> selected_call h = Inr call \<and>
     (\<exists>c u. hc_capture h = Some c \<and> au_open A call u = (Inr c, w))"

lemma ensure_opens:
  assumes "hc_capture h = None" "ensure_capture A h w = (None, h1, w1)"
  shows "hc_format h1 = hc_format h" "\<exists>call. selected_call h = Inr call \<and> captures A call h1 w1"
  using assms by (auto simp: ensure_capture_def captures_def split: sum.splits prod.splits)

lemma switched_and_opened:
  assumes "outcome d (and_then (and_then (set_source_device A sel h w) (set_capture_source A SourceLoopback)) (ensure_capture A)) =
    (Inr d', h1, w1)"
  shows "d' = d \<and> hc_format h1 = hc_format h \<and> captures A (OpenDevice (hc_format h) SourceLoopback sel) h1 w1"
proof -
  obtain e2 h2 w2 where r: "set_source_device A sel h w = (e2, h2, w2)" by (metis prod.exhaust)
  have h2: "h2 = h\<lparr>hc_selector := sel, hc_capture_apps := [], hc_exclude_apps := [], hc_capture := None\<rparr>"
    using drop_capture_result r by (metis fst_conv set_source_device_def snd_conv)
  obtain e3 h3 w3 where r3: "set_capture_source A SourceLoopback h2 w2 = (e3, h3, w3)" by (metis prod.exhaust)
  have h3: "h3 = h2\<lparr>hc_source := SourceLoopback\<rparr>"
    using drop_capture_result[of A "h2\<lparr>hc_source := SourceLoopback, hc_capture_apps := [], hc_exclude_apps := []\<rparr>" w2] r3
    by (simp add: set_capture_source_def h2)
  have e: "e2 = None" "e3 = None" "ensure_capture A h3 w3 = (None, h1, w1)" "d' = d"
    using assms r r3 by (auto simp: outcome_def and_then_def split: option.splits prod.splits)
  from ensure_opens[OF _ e(3)] obtain call where "hc_format h1 = hc_format h3" "selected_call h3 = Inr call" "captures A call h1 w1"
    by (auto simp: h3 h2)
  then show ?thesis using e(4) by (auto simp: h3 h2 selected_call_def split: if_splits)
qed

lemma tone_opened:
  assumes "outcome d (and_then (set_capture_source A SourceTestTone (h\<lparr>hc_tone := ToneSine\<rparr>) w) (ensure_capture A)) =
    (Inr d', h1, w1)"
  shows "d' = d \<and> hc_format h1 = hc_format h \<and> captures A (OpenSynthetic (hc_format h) ToneSine) h1 w1"
proof -
  obtain e3 h3 w3 where r3: "set_capture_source A SourceTestTone (h\<lparr>hc_tone := ToneSine\<rparr>) w = (e3, h3, w3)" by (metis prod.exhaust)
  have h3: "h3 = h\<lparr>hc_tone := ToneSine, hc_source := SourceTestTone, hc_capture_apps := [], hc_exclude_apps := [],
      hc_capture := None\<rparr>"
    using drop_capture_result[of A "h\<lparr>hc_tone := ToneSine, hc_source := SourceTestTone, hc_capture_apps := [],
        hc_exclude_apps := []\<rparr>" w] r3
    by (simp add: set_capture_source_def)
  have e: "ensure_capture A h3 w3 = (None, h1, w1)" "d' = d"
    using assms r3 by (auto simp: outcome_def and_then_def split: option.splits prod.splits)
  from ensure_opens[OF _ e(1)] obtain call where "hc_format h1 = hc_format h3" "selected_call h3 = Inr call" "captures A call h1 w1"
    by (auto simp: h3)
  then show ?thesis using e(2) by (auto simp: h3 selected_call_def split: if_splits)
qed

lemma apps_selected:
  assumes "set_capture_apps A pids exclude h w = (None, h2, w2)" "distinct pids" "0 \<notin> set pids"
  shows "h2 = h\<lparr>hc_capture_apps := (if exclude then [] else pids), hc_exclude_apps := (if exclude then pids else []),
    hc_source := SourceLoopback, hc_selector := [], hc_capture := None\<rparr>" "pids \<noteq> []"
proof -
  let ?h = "h\<lparr>hc_capture_apps := (if exclude then [] else pids), hc_exclude_apps := (if exclude then pids else []),
    hc_source := SourceLoopback, hc_selector := []\<rparr>"
  have "clean_pids [] pids = Some pids" using clean_pids_distinct[of "[]" pids] assms(2,3) by simp
  then have "drop_capture A ?h w = (None, h2, w2)" and ne: "pids \<noteq> []"
    using assms(1) by (auto simp: set_capture_apps_def split: if_splits)
  then show "h2 = ?h\<lparr>hc_capture := None\<rparr>" using drop_capture_result[of A ?h w] by simp
  show "pids \<noteq> []" by (rule ne)
qed

lemma parse_pids_error:
  "parse_pids name pids parts = Inl e \<Longrightarrow> e = ProcessIdZero \<or> (\<exists>a b. e = EmptyPid a \<or> e = BadPid a b)"
  by (induction name pids parts rule: parse_pids.induct) (auto simp: Let_def split: if_splits option.splits)

lemma parse_per_app_error: "parse_per_app_source_name name = Inl e \<Longrightarrow> e \<noteq> OpenFailed b"
  by (auto simp: parse_per_app_source_name_def Let_def dest: parse_pids_error split: if_splits sum.splits)

definition access_error :: "capture_error \<Rightarrow> bool" where
  "access_error e \<longleftrightarrow> e = NeedsBackend \<or> (\<exists>b. e = OpenFailed b \<or> e = CloseFailed b)"

definition only_access :: "capture_error option \<times> 'h \<times> 'w \<Rightarrow> bool" where
  "only_access r \<longleftrightarrow> (\<forall>e. fst r = Some e \<longrightarrow> access_error e)"

lemma only_access_steps:
  "only_access (set_source_device A sel h w)" "only_access (set_capture_source A src h w)" "only_access (ensure_capture A h w)"
  by (auto simp: only_access_def access_error_def set_source_device_def set_capture_source_def drop_capture_def
      ensure_capture_def selected_call_def split: option.splits prod.splits sum.splits if_splits)

lemma only_access_then: "only_access r \<Longrightarrow> (\<And>h w. only_access (g h w)) \<Longrightarrow> only_access (and_then r g)"
  by (cases r) (auto simp: and_then_def only_access_def split: option.splits)

lemma outcome_refused: "outcome d r = (Inl e, h1, w1) \<Longrightarrow> only_access r \<Longrightarrow> access_error e"
  by (cases r) (auto simp: outcome_def only_access_def split: option.splits)

lemma plain_source_accepted:
  assumes "apply_set_source A lower src h w = (Inr d, h1, w1)"
  shows "captures A (detail_call (hc_format h) d) h1 w1"
  using assms unfolding apply_set_source_def
  by (auto split: if_splits sum.splits prod.splits dest!: switched_and_opened tone_opened)

lemma plain_source_refused:
  assumes "apply_set_source A lower src h w = (Inl e, h1, w1)"
  shows "access_error e \<or> h1 = h"
proof -
  have 1: "only_access (and_then (and_then (set_source_device A sel h w) (set_capture_source A c)) (ensure_capture A))"
    "only_access (and_then (set_capture_source A c h w) (ensure_capture A))" for sel c h w
    by (intro only_access_then only_access_steps)+
  show ?thesis using assms unfolding apply_set_source_def
    by (auto split: if_splits sum.splits prod.splits dest!: outcome_refused[OF _ 1(1)] outcome_refused[OF _ 1(2)])
qed

text \<open>
  A SET_SOURCE request that the host acknowledges has taken effect: what it announces is selected and
  is what the shared capture was just opened for.  A per-application request whose processes cannot be
  captured is refused, but it has already replaced the selection: the host is left on loopback of the
  default device, whatever was selected before, unlike a request it cannot parse or a device it does not
  have, which leave everything as it was.
\<close>

theorem set_source_outcome:
  assumes "apply_set_source_with_apps A lower src h w = (r, h1, w1)"
  shows "(\<forall>d. r = Inr d \<longrightarrow> captures A (detail_call (hc_format h) d) h1 w1) \<and>
    (\<forall>b. r = Inl (OpenFailed b) \<and> ss_kind src = SetSourcePerApp \<longrightarrow>
       hc_source h1 = SourceLoopback \<and> hc_selector h1 = [] \<and> hc_capture_apps h1 = [] \<and> hc_exclude_apps h1 = []) \<and>
    (\<forall>e. r = Inl e \<longrightarrow> e = NeedsBackend \<or> (\<exists>b. e = OpenFailed b \<or> e = CloseFailed b) \<or> h1 = h)"
proof (cases "ss_kind src = SetSourcePerApp")
  case False
  then have "apply_set_source A lower src h w = (r, h1, w1)" using assms by (simp add: apply_set_source_with_apps_def)
  then show ?thesis using plain_source_accepted[of A lower src h w _ h1 w1] plain_source_refused[of A lower src h w _ h1 w1] False
    by (auto simp: access_error_def)
next
  case True
  show ?thesis
  proof (cases "parse_per_app_source_name (ss_name src)")
    case (Inl p)
    then show ?thesis using assms True parse_per_app_error[OF Inl] by (auto simp: apply_set_source_with_apps_def)
  next
    case (Inr pe)
    obtain pids ex where pe: "parse_per_app_source_name (ss_name src) = Inr (pids, ex)" using Inr by (cases pe) simp
    obtain e2 h2 w2 where r2: "set_capture_apps A pids ex h w = (e2, h2, w2)" by (metis prod.exhaust)
    obtain e3 h3 w3 where r3: "ensure_capture A h2 w2 = (e3, h3, w3)" by (metis prod.exhaust)
    obtain e4 h4 w4 where r4: "set_capture_source A SourceLoopback h3 w3 = (e4, h4, w4)" by (metis prod.exhaust)
    obtain e5 h5 w5 where r5: "ensure_capture A h4 w4 = (e5, h5, w5)" by (metis prod.exhaust)
    note ps = parse_per_app_sound[OF pe]
    have c: "clean_pids [] pids = Some pids" using clean_pids_distinct[of "[]" pids] ps by simp
    show ?thesis
    proof (cases e2)
      case (Some e)
      then have "r = Inl e" "\<exists>b. e = CloseFailed b"
        using assms True pe r2 ps c
        by (auto simp: apply_set_source_with_apps_def set_capture_apps_def drop_capture_def split: if_splits option.splits prod.splits)
      then show ?thesis by auto
    next
      case None
      note h2 = apps_selected[OF r2[unfolded None] ps(2,3)]
      show ?thesis
      proof (cases e3)
        case None
        then have "r = Inr (SourceAppsDetail pids ex)" "h1 = h3" "w1 = w3"
          using assms True pe r2 r3 \<open>e2 = None\<close> by (simp_all add: apply_set_source_with_apps_def)
        moreover obtain call where "selected_call h2 = Inr call" "captures A call h3 w3"
          using ensure_opens[OF _ r3[unfolded None]] by (auto simp: h2)
        ultimately show ?thesis using h2 by (auto simp: selected_call_def split: if_splits)
      next
        case (Some e)
        then have "r = Inl e" "h1 = h5"
          using assms True pe r2 r3 r4 r5 \<open>e2 = None\<close> by (simp_all add: apply_set_source_with_apps_def)
        moreover have "h3 = h2" using r3 Some
          by (auto simp: ensure_capture_def split: if_splits sum.splits prod.splits)
        moreover have "h4 = h3\<lparr>hc_source := SourceLoopback, hc_capture_apps := [], hc_exclude_apps := [], hc_capture := None\<rparr>"
          using r4 drop_capture_result[of A "h3\<lparr>hc_source := SourceLoopback, hc_capture_apps := [], hc_exclude_apps := []\<rparr>" w3]
          by (simp add: set_capture_source_def)
        moreover have "hc_source h5 = hc_source h4" "hc_selector h5 = hc_selector h4" "hc_capture_apps h5 = hc_capture_apps h4"
          "hc_exclude_apps h5 = hc_exclude_apps h4"
          using r5 by (auto simp: ensure_capture_def split: if_splits sum.splits prod.splits)
        moreover have "access_error e" using only_access_steps(3)[of A h2 w2] r3 Some by (simp add: only_access_def)
        ultimately show ?thesis using h2 by (auto simp: access_error_def)
      qed
    qed
  qed
qed

section \<open>Concrete runs\<close>

text \<open>An operating system that captures everything but single processes.\<close>

definition demo_audio :: "(open_call, unit) audio_system" where
  "demo_audio = \<lparr>au_open = (\<lambda>call w. (case call of OpenProcessLoopback _ _ _ \<Rightarrow> Inl [78] | _ \<Rightarrow> Inr call, w)),
     au_close = (\<lambda>c w. (None, w)), au_playback_devices = (\<lambda>w. (Inr [], w))\<rparr>"

definition demo_capture :: "open_call capture_state" where
  "demo_capture = \<lparr>hc_format = default_format, hc_backend = True, hc_source = SourceTestTone, hc_selector = [],
     hc_tone = ToneClick, hc_capture_apps = [], hc_exclude_apps = [], hc_capture = None\<rparr>"

lemma demo_parse: "parse_per_app_source_name [112, 58, 55] = Inr ([7], False)"
proof -
  have "trim_space [112, 58, 55] = [112, 58, 55]" "trim_space [55] = [55]" by (simp_all add: trim_space_plain)
  moreover have "parse_uint 32 [55] = Some 7" by (simp add: parse_uint_def)
  ultimately show ?thesis by (simp add: parse_per_app_source_name_def)
qed


lemma set_source_outcome_witness:
  "\<exists>h1. apply_set_source_with_apps demo_audio (\<lambda>n. n) \<lparr>ss_kind = SetSourcePerApp, ss_name = [112, 58, 55]\<rparr> demo_capture () =
     (Inl (OpenFailed [78]), h1, ()) \<and> hc_source demo_capture = SourceTestTone \<and> hc_source h1 = SourceLoopback"
proof -
  obtain r h1 where r: "apply_set_source_with_apps demo_audio (\<lambda>n. n) \<lparr>ss_kind = SetSourcePerApp, ss_name = [112, 58, 55]\<rparr>
      demo_capture () = (r, h1, ())" by (metis (full_types) prod.exhaust unit.exhaust)
  moreover have "r = Inl (OpenFailed [78])"
    using r by (simp add: apply_set_source_with_apps_def demo_parse set_capture_apps_def drop_capture_def demo_capture_def
        ensure_capture_def selected_call_def demo_audio_def split: prod.splits)
  ultimately show ?thesis using set_source_outcome[OF r] by (simp add: demo_capture_def)
qed
end
