(* ===== verification/HostControl.thy ===== *)
theory HostControl
  imports HostCapture HostStream OpusCodec Quality Session
begin

text \<open>
  What the host does with a receiver's control messages, \<^verbatim>\<open>handleControl\<close>, \<^verbatim>\<open>applyQuality\<close> and
  \<^verbatim>\<open>switchCodec\<close> of \<^verbatim>\<open>engine/internal/engine/host.go\<close>.  The clock is a parameter (nanoseconds); the
  texts of source acknowledgements, the audio system and libopus are fields of \<open>host_env\<close>.  Callbacks
  into the user interface are not modelled.
\<close>

section \<open>State\<close>

record 'f host_stats =
  hst_loss :: 'f
  hst_late :: 'f
  hst_jitter :: 'f
  hst_rtt :: 'f
  hst_buf :: 'f
  hst_underruns :: u64

record ('f, 's) host_stream =
  rx_codec :: "'s codec"
  rx_codec_state :: 's
  rx_quality :: "'f controller"
  rx_stats :: "'f host_stats"
  rx_seq :: u32
  rx_volume :: 'f
  rx_muted :: bool
  rx_fec_bias :: bool
  rx_quality_mode :: u8
  rx_receiver_state :: u8
  rx_format_gen :: u32
  rx_caps :: caps
  rx_last_switch :: "int option"
  rx_name :: bytes

record ('f, 's, 'p, 'c, 'w) host_env =
  he_float :: "'f float_ops"
  he_format :: host_format
  he_sample_ops :: "'p float_ops"
  he_widen :: "'p \<Rightarrow> 'f"
  he_libopus :: "('p, 's) libopus"
  he_codec0 :: 's
  he_audio :: "('c, 'w) audio_system"
  he_lower :: "bytes \<Rightarrow> bytes"
  he_detail :: "capture_error + source_detail \<Rightarrow> bytes"

text \<open>\<^verbatim>\<open>codec.New\<close> of the host's build.\<close>

definition host_codec ::
  "('f, 's, 'p, 'c, 'w) host_env \<Rightarrow> codec_config \<Rightarrow> codec_error + 's codec \<times> 's" where
  "host_codec H cfg =
     new_codec (if hf_opus (he_format H) then new_opus_codec (he_sample_ops H) (he_float H) (he_widen H) (he_libopus H)
                else opus_stub) (he_codec0 H) cfg"

text \<open>\<^verbatim>\<open>hostStats\<close> and \<^verbatim>\<open>hostStream\<close> as a connection starts.\<close>

definition no_stats :: "'f float_ops \<Rightarrow> 'f host_stats" where
  "no_stats F = \<lparr>hst_loss = fo_zero F, hst_late = fo_zero F, hst_jitter = fo_zero F, hst_rtt = fo_zero F,
     hst_buf = fo_zero F, hst_underruns = 0\<rparr>"

definition new_host_stream ::
  "('f, 's, 'p, 'c, 'w) host_env \<Rightarrow> bytes \<Rightarrow> 's codec \<times> 's \<Rightarrow> caps \<Rightarrow> u32 \<Rightarrow> u32 \<Rightarrow> ('f, 's) host_stream" where
  "new_host_stream H name cs caps gen nextSeq =
     \<lparr>rx_codec = fst cs, rx_codec_state = snd cs,
      rx_quality = new_controller (he_float H) 32000 (max (hf_max_bitrate (he_format H)) 256000),
      rx_stats = no_stats (he_float H), rx_seq = nextSeq, rx_volume = fo_one (he_float H), rx_muted = False,
      rx_fec_bias = False, rx_quality_mode = 0, rx_receiver_state = 0, rx_format_gen = gen, rx_caps = caps,
      rx_last_switch = None, rx_name = name\<rparr>"

section \<open>Quality\<close>

text \<open>The host's own smoothing, which starts at the first value that is not 0.\<close>

definition host_ewma :: "'f float_ops \<Rightarrow> 'f \<Rightarrow> 'f \<Rightarrow> 'f" where
  "host_ewma F old v = (if fo_eq F old (fo_zero F) then v
     else fo_add F old (fo_mul F (fo_lit F (3 / 10)) (fo_sub F v old)))"

definition note_stats :: "'f float_ops \<Rightarrow> stats \<Rightarrow> 'f host_stats \<Rightarrow> 'f host_stats" where
  "note_stats F m s =
     \<lparr>hst_loss = host_ewma F (hst_loss s) (fo_div F (fo_of_int F (uint (st_loss_pct m))) (fo_of_int F 100)),
      hst_late = host_ewma F (hst_late s) (fo_div F (fo_of_int F (uint (st_late_pct m))) (fo_of_int F 100)),
      hst_jitter = host_ewma F (hst_jitter s) (fo_div F (fo_of_int F (uint (st_jitter_us m))) (fo_of_int F 1000)),
      hst_rtt = host_ewma F (hst_rtt s) (fo_div F (fo_of_int F (uint (st_rtt_us m))) (fo_of_int F 1000)),
      hst_buf = host_ewma F (hst_buf s) (fo_of_int F (uint (st_buf_depth_ms m))),
      hst_underruns = hst_underruns s + ucast (st_underruns m)\<rparr>"

definition host_sample :: "stats \<Rightarrow> 'f host_stats \<Rightarrow> 'f sample" where
  "host_sample m s = \<lparr>q_loss_percent = hst_loss s, q_late_percent = hst_late s, q_jitter_ms = hst_jitter s,
     q_rtt_ms = hst_rtt s, q_buf_depth_ms = hst_buf s, q_underruns = ucast (st_underruns m)\<rparr>"

text \<open>The caps \<^verbatim>\<open>switchCodec\<close> asks for.\<close>

definition switch_request :: "bool \<Rightarrow> caps \<Rightarrow> caps" where
  "switch_request toOpus c =
     (if toOpus then c\<lparr>c_codec := CodecOpus, c_frame_ms := (if c_frame_ms c < 10 then 10 else c_frame_ms c)\<rparr>
      else c\<lparr>c_codec := CodecPCMS16LE, c_frame_ms := pcm_fit (c_channels c) 5\<rparr>)"

definition switch_codec ::
  "('f, 's, 'p, 'c, 'w) host_env \<Rightarrow> int \<Rightarrow> bool \<Rightarrow> ('f, 's) host_stream \<Rightarrow> ('f, 's) host_stream \<times> message list" where
  "switch_codec H now toOpus st =
     (case negotiate_caps (he_format H) (switch_request toOpus (rx_caps st)) of
        Inl _ \<Rightarrow> (st, [])
      | Inr newCaps \<Rightarrow>
          (case host_codec H (codec_config_from_caps newCaps) of
             Inl _ \<Rightarrow> (st, [])
           | Inr (cd, cs) \<Rightarrow>
               let newGen = rx_format_gen st + 1 in
               (st\<lparr>rx_codec := cd, rx_codec_state := cs, rx_caps := newCaps, rx_format_gen := newGen,
                   rx_last_switch := Some now\<rparr>,
                [ctl_message MsgFormatUpdate (append_format_update [] \<lparr>fu_format_gen = newGen, fu_caps = newCaps\<rparr>)])))"

definition tune_encoder ::
  "('f, 's, 'p, 'c, 'w) host_env \<Rightarrow> decision \<Rightarrow> ('f, 's) host_stream \<Rightarrow> ('f, 's) host_stream" where
  "tune_encoder H dec st =
     (if cd_name (rx_codec st) = ''opus''
      then let s1 = snd (set_bitrate (he_libopus H) (d_bitrate_bps dec) (rx_codec_state st));
               s2 = snd (set_fec (he_libopus H) (d_fec_enabled dec) (d_expected_loss dec) s1);
               s3 = (if rx_fec_bias st then snd (set_fec (he_libopus H) True 10 s2) else s2)
           in st\<lparr>rx_codec_state := s3\<rparr>
      else st)"

definition dwelling :: "int \<Rightarrow> int option \<Rightarrow> bool" where
  "dwelling now t = (case t of None \<Rightarrow> False | Some t \<Rightarrow> now - t < 10000000000)"

definition apply_quality ::
  "('f, 's, 'p, 'c, 'w) host_env \<Rightarrow> int \<Rightarrow> decision \<Rightarrow> ('f, 's) host_stream \<Rightarrow> ('f, 's) host_stream \<times> message list" where
  "apply_quality H now dec st0 =
     (let st = tune_encoder H dec st0;
          wantOpus = (d_switch_to_opus dec \<and> hf_opus (he_format H)); wantPCM = d_switch_to_pcm dec;
          isOpus = (c_codec (rx_caps st) = CodecOpus)
      in if \<not> wantOpus \<and> \<not> wantPCM then (st, [])
         else if wantOpus \<and> isOpus \<or> wantPCM \<and> \<not> isOpus then (st, [])
         else if dwelling now (rx_last_switch st) then (st, [])
         else switch_codec H now wantOpus st)"

section \<open>The handler\<close>

definition pong_payload :: "int \<Rightarrow> bytes \<Rightarrow> bytes" where
  "pong_payload now p = take 8 p @ put_le 8 (word_of_int (now div 1000) :: u64)"

text \<open>
  The state after a message, the messages sent, and whether the connection is closed.  \<^verbatim>\<open>Close\<close> of the
  connection lets \<^verbatim>\<open>ServeLoop\<close> end.
\<close>

definition handle_control ::
  "('f, 's, 'p, 'c, 'w) host_env \<Rightarrow> int \<Rightarrow> message \<Rightarrow> ('f, 's) host_stream \<times> 'c capture_state \<times> 'w \<Rightarrow>
     (('f, 's) host_stream \<times> 'c capture_state \<times> 'w) \<times> message list \<times> bool" where
  "handle_control H now m env =
     (case env of (st, h, w) \<Rightarrow>
      if msg_type m = MsgStats then
        (case decode_stats (msg_payload m) of
           Inl _ \<Rightarrow> (env, [], False)
         | Inr stats \<Rightarrow>
             let hs = note_stats (he_float H) stats (rx_stats st);
                 (dec, q) = update (he_float H) (host_sample stats hs) now (rx_quality st);
                 (st1, out) = apply_quality H now dec (st\<lparr>rx_stats := hs, rx_quality := q\<rparr>)
             in ((st1, h, w), out, False))
      else if msg_type m = MsgPing then
        (env, (if 8 \<le> length (msg_payload m)
               then [\<lparr>msg_type = MsgPong, msg_flags = 0, msg_request_id = msg_request_id m,
                      msg_payload = pong_payload now (msg_payload m)\<rparr>] else []), False)
      else if msg_type m = MsgVolume then
        (if 3 \<le> length (msg_payload m)
         then let v = (ucast (msg_payload m ! 0) OR push_bit 8 (ucast (msg_payload m ! 1)) :: u16);
                  F = he_float H
              in ((st\<lparr>rx_volume := clamp_f64 F (fo_div F (fo_of_int F (uint v)) (fo_of_int F 65536))
                        (fo_of_int F 0) (fo_of_int F 2),
                     rx_muted := (msg_payload m ! 2 \<noteq> 0)\<rparr>, h, w), [], False)
         else (env, [], False))
      else if msg_type m = MsgStreamStop then (env, [], True)
      else if msg_type m = MsgFormatAck then ((st\<lparr>rx_last_switch := Some now\<rparr>, h, w), [], False)
      else if msg_type m = MsgQualityMode then
        (case decode_quality_mode (msg_payload m) of
           Inl _ \<Rightarrow> (env, [], False)
         | Inr mode \<Rightarrow>
             let (minB, maxB, fecBias, apply) = quality_mode_to_bounds mode;
                 st1 = (if apply then st\<lparr>rx_quality := new_controller (he_float H) minB maxB, rx_fec_bias := fecBias\<rparr> else st)
             in ((st1\<lparr>rx_quality_mode := mode\<rparr>, h, w), [], False))
      else if msg_type m = MsgSetSource then
        (case decode_set_source (msg_payload m) of
           Inl _ \<Rightarrow> (env, [], False)
         | Inr src \<Rightarrow>
             let (r, h1, w1) = apply_set_source_with_apps (he_audio H) (he_lower H) src h w;
                 ok = (case r of Inl _ \<Rightarrow> False | Inr _ \<Rightarrow> True)
             in ((st, h1, w1), [ctl_message MsgSetSourceAck
                   (append_set_source_ack [] \<lparr>sk_ok = bool_bit ok, sk_detail = he_detail H r\<rparr>)], False))
      else if msg_type m = MsgReceiverState then
        (case decode_receiver_state (msg_payload m) of
           Inl _ \<Rightarrow> (env, [], False)
         | Inr s \<Rightarrow> ((st\<lparr>rx_receiver_state := s\<rparr>, h, w), [], False))
      else (env, [], False))"

section \<open>A codec that takes other frames\<close>

definition rejects :: "'s codec \<Rightarrow> nat \<Rightarrow> bool" where
  "rejects cd n \<longleftrightarrow> (\<forall>pcm s. length pcm = n \<longrightarrow> (\<exists>e s'. cd_encode cd pcm s = (Inl e, s')))"

lemma rejecting_turn:
  assumes "rejects (hr_codec st) (stream_frame_bytes c)" "chunk_ok c s"
    and t: "feed_turn F c net st src s = (n, go, s1)"
  shows "go \<and> sl_sent s1 = sl_sent s"
proof -
  have n: "n = min (stream_frame_bytes c - sl_filled s) (length src)" using t by (simp add: feed_turn_def Let_def)
  define s0 where "s0 = fill_chunk F st n src s"
  have le: "n \<le> stream_frame_bytes c - sl_filled s" "n \<le> length src" by (simp_all add: n)
  note f = fill_chunk_ok[OF assms(2) le, of F st, folded s0_def]
  have r: "(go, s1) = (if sl_filled s0 = stream_frame_bytes c then send_chunk c net st s0 else (True, s0))"
    using t by (auto simp: feed_turn_def Let_def s0_def n)
  obtain e cs where "cd_encode (hr_codec st) (sl_chunk s0) (sl_codec s0) = (Inl e, cs)"
    using assms(1) f(1) unfolding rejects_def by blast
  then have "fst (send_chunk c net st s0)" "sl_sent (snd (send_chunk c net st s0)) = sl_sent s0"
    by (simp_all add: send_chunk_def)
  then show ?thesis using r f(4) by (metis fst_conv snd_conv)
qed

lemma host_codec_sound:
  assumes "host_codec H cfg = Inr (cd, cs)"
  shows "validate_config cfg = None" "cd_config cd = cfg" "pcm_frame_bytes cfg \<noteq> int n \<Longrightarrow> rejects cd n"
proof -
  show v: "validate_config cfg = None"
    using assms by (auto simp: host_codec_def new_codec_def split: option.splits)
  have c: "cd = pcm_codec cfg \<or> cd = opus_codec (he_sample_ops H) (he_float H) (he_widen H) (he_libopus H) cfg"
    using assms v by (auto simp: host_codec_def new_codec_def opus_stub_def new_opus_codec_codec split: if_splits)
  then show "cd_config cd = cfg" by (auto simp: pcm_codec_def opus_codec_def)
  show "rejects cd n" if "pcm_frame_bytes cfg \<noteq> int n"
    unfolding rejects_def
  proof (intro allI impI)
    fix pcm :: bytes and s assume "length pcm = n"
    then have ne: "int (length pcm) \<noteq> pcm_frame_bytes cfg" using that by simp
    show "\<exists>e s'. cd_encode cd pcm s = (Inl e, s')"
      using c
    proof
      assume "cd = pcm_codec cfg"
      then show ?thesis using ne by (simp add: pcm_codec_def pcm_encode_def)
    next
      assume "cd = opus_codec (he_sample_ops H) (he_float H) (he_widen H) (he_libopus H) cfg"
      then show ?thesis using opus_encode_size[OF ne] by fast
    qed
  qed
qed

lemma div_times_le: "(a div k) * b \<le> (a * b) div (k :: nat)"
proof (cases "k = 0")
  case False
  have "(a div k) * b = ((a div k) * k * b) div k" using False by simp
  also have "\<dots> \<le> (a * b) div k" by (rule div_le_mono, rule mult_le_mono1) simp
  finally show ?thesis .
qed simp

text \<open>The formats of two frame lengths have different frame sizes, in the host's formula and in the codec's.\<close>

lemma frame_sizes_differ:
  fixes rate ch m n :: nat
  assumes "8000 \<le> rate" "1 \<le> ch" "m \<in> {2, 5, 10, 20}" "n \<in> {2, 5, 10, 20}" "m \<noteq> n"
  shows "(rate * m div 1000) * ch * 2 \<noteq> ch * 2 * n * rate div 1000"
proof (cases "m < n")
  case True
  then have mn: "2 * m \<le> n" using assms(3,4) by auto
  have "(rate * m div 1000) * ch * 2 = (rate * m div 1000) * (ch * 2)" by simp
  also have "\<dots> \<le> (rate * m * (ch * 2)) div 1000" by (rule div_times_le)
  finally have 1: "(rate * m div 1000) * ch * 2 \<le> (ch * 2 * m * rate) div 1000" by (simp add: mult_ac)
  have "ch * 2 * (2 * m) * rate \<le> ch * 2 * n * rate" using mn by simp
  then have "(ch * 2 * (2 * m) * rate) div 1000 \<le> ch * 2 * n * rate div 1000" by (rule div_le_mono)
  moreover have "2 * ((ch * 2 * m * rate) div 1000) \<le> (ch * 2 * (2 * m) * rate) div 1000" by simp
  moreover have "1 * 2 * 2 * 8000 div 1000 \<le> (ch * 2 * m * rate) div 1000"
    by (rule div_le_mono, intro mult_le_mono) (use assms in auto)
  ultimately show ?thesis using 1 by linarith
next
  case False
  then have nm: "2 * n \<le> m" using assms(3-5) by auto
  define q where "q = rate * n div 1000"
  have q: "16 \<le> q"
  proof -
    have "8000 * 2 div 1000 \<le> rate * n div 1000" by (rule div_le_mono, rule mult_le_mono) (use assms in auto)
    then show ?thesis by (simp add: q_def)
  qed
  have "rate * (2 * n) div 1000 \<le> rate * m div 1000" by (rule div_le_mono) (use nm in simp)
  moreover have "2 * q \<le> rate * (2 * n) div 1000"
    using div_times_le[of "rate * n" 1000 2] by (simp only: q_def mult.commute mult.left_commute)
  ultimately have "2 * q \<le> rate * m div 1000" by linarith
  then have "2 * q * (ch * 2) \<le> (rate * m div 1000) * (ch * 2)" by (rule mult_le_mono1)
  moreover have "ch * 2 * n * rate div 1000 < (q + 1) * (ch * 2)"
  proof -
    have "rate * n < (q + 1) * 1000" unfolding q_def by (simp add: dividend_less_times_div)
    then have "rate * n * (ch * 2) < (q + 1) * 1000 * (ch * 2)" using assms(2) by simp
    then have "ch * 2 * n * rate < (q + 1) * (ch * 2) * 1000" by (simp only: mult.assoc mult.commute mult.left_commute)
    then show ?thesis by (rule less_mult_imp_div_less)
  qed
  moreover have "(q + 1) * (ch * 2) \<le> 2 * q * (ch * 2)" by (rule mult_le_mono1) (use q in simp)
  ultimately have "ch * 2 * n * rate div 1000 < (rate * m div 1000) * (ch * 2)" by linarith
  then show ?thesis by (simp add: mult_ac)
qed

definition settings_of :: "('f, 's) host_stream \<Rightarrow> (nat \<Rightarrow> bytes \<Rightarrow> bytes option) option \<Rightarrow> ('f, 's) receiver_settings" where
  "settings_of st envelope = \<lparr>hr_codec = rx_codec st, hr_volume = rx_volume st, hr_muted = rx_muted st,
     hr_format_gen = rx_format_gen st, hr_seal = envelope\<rparr>"

lemma switch_codec_cases:
  "switch_codec H now toOpus st = (st1, out) \<Longrightarrow>
     (st1 = st \<and> out = []) \<or>
     (\<exists>c cd cs. negotiate_caps (he_format H) (switch_request toOpus (rx_caps st)) = Inr c \<and>
        host_codec H (codec_config_from_caps c) = Inr (cd, cs) \<and>
        st1 = st\<lparr>rx_codec := cd, rx_codec_state := cs, rx_caps := c, rx_format_gen := rx_format_gen st + 1,
                rx_last_switch := Some now\<rparr> \<and>
        out = [ctl_message MsgFormatUpdate (append_format_update [] \<lparr>fu_format_gen = rx_format_gen st + 1, fu_caps = c\<rparr>)])"
  by (auto simp: switch_codec_def Let_def split: sum.splits prod.splits)

lemma negotiate_fields:
  assumes "negotiate_caps ho req = Inr c"
  shows "caps_validate c = None" "c_codec c = c_codec (requested_caps ho req)"
    "c_sample_rate c = c_sample_rate (requested_caps ho req)" "c_channels c = c_channels (requested_caps ho req)"
    "c_codec c \<noteq> CodecPCMS16LE \<Longrightarrow> c_frame_ms c = c_frame_ms (requested_caps ho req)"
proof -
  let ?r = "requested_caps ho req"
  let ?o = "if c_codec ?r = CodecPCMS16LE then ?r\<lparr>c_frame_ms := pcm_fit (c_channels ?r) (c_frame_ms ?r)\<rparr> else ?r"
  have *: "caps_validate ?o = None \<and> c = ?o"
    using assms unfolding negotiate_caps_def Let_def by (cases "caps_validate ?o") simp_all
  then show "caps_validate c = None" by simp
  show "c_codec c = c_codec ?r" "c_sample_rate c = c_sample_rate ?r" "c_channels c = c_channels ?r"
    "c_codec c \<noteq> CodecPCMS16LE \<Longrightarrow> c_frame_ms c = c_frame_ms ?r"
    using * by (cases "c_codec ?r = CodecPCMS16LE"; simp)+
qed

lemma negotiated_codec: "negotiate_caps ho req = Inr c \<Longrightarrow> c_codec c = CodecPCMS16LE \<or> c_codec c = CodecOpus"
  using negotiate_fields(2)[of ho req c] by (simp add: requested_fields)

lemma negotiated_ms: "negotiate_caps ho req = Inr c \<Longrightarrow> c_frame_ms c \<in> {2, 5, 10, 20}"
  using negotiate_pcm(2)[of ho req c] negotiate_fields(2,5)[of ho req c]
  by (auto simp: requested_fields clamp_frame_ms_def split: if_splits)

text \<open>The codec of one format does not take the frames of another length.\<close>

lemma other_frames_rejected:
  assumes v: "caps_validate c = None" "c_frame_ms c \<in> {2, 5, 10, 20}"
    and h: "host_codec H (codec_config_from_caps d) = Inr (cd, cs)" "c_frame_ms d \<in> {2, 5, 10, 20}"
    and same: "c_sample_rate d = c_sample_rate c" "c_channels d = c_channels c" and ne: "c_frame_ms d \<noteq> c_frame_ms c"
  shows "rejects cd (stream_frame_bytes c)"
proof (rule host_codec_sound(3)[OF h(1)])
  let ?cfg = "codec_config_from_caps d"
  let ?rate = "unat (c_sample_rate c)" let ?ch = "unat (c_channels c)"
  let ?m = "unat (c_frame_ms d)" let ?n = "unat (c_frame_ms c)"
  have s: "pcm_frame_bytes ?cfg = int ?rate * int ?m div 1000 * int ?ch * 2"
    using pcm_frame_bytes_valid(1)[OF host_codec_sound(1)[OF h(1)]] same
    by (simp add: codec_config_from_caps_def caps_to_codec_config_def Let_def)
  have "?m \<in> {2, 5, 10, 20}" "?n \<in> {2, 5, 10, 20}" using v(2) h(2) by auto
  moreover have "?m \<noteq> ?n" using ne unfolding word_unat_eq_iff .
  ultimately have "(?rate * ?m div 1000) * ?ch * 2 \<noteq> stream_frame_bytes c"
    unfolding stream_frame_bytes_def using caps_sizes(1,3)[OF v(1)] by (intro frame_sizes_differ)
  moreover have "pcm_frame_bytes ?cfg = int ((?rate * ?m div 1000) * ?ch * 2)" unfolding s by (simp add: zdiv_int)
  ultimately show "pcm_frame_bytes ?cfg \<noteq> int (stream_frame_bytes c)" by (simp only: of_nat_eq_iff not_False_eq_True)
qed

text \<open>
  C36. Switching a running stream to the other codec silences it.  The send loop keeps cutting the capture
  into frames of the length the stream started with, and the new codec refuses every one of them: whatever
  is captured afterwards, not one further datagram leaves, however long the stream runs and although the
  network takes everything.  PCM to Opus is always such a switch; Opus to PCM is one unless the Opus frames
  happened to have PCM's 5 ms.
\<close>

theorem codec_switch_silences:
  assumes neg: "negotiate_caps (he_format H) req = Inr (rx_caps st)"
    and sw: "switch_codec H now toOpus st = (st1, out)" "c_codec (rx_caps st1) \<noteq> c_codec (rx_caps st)"
    and len: "c_codec (rx_caps st) = CodecPCMS16LE \<or> c_frame_ms (rx_caps st) \<noteq> 5"
    and run: "chunk_ok (rx_caps st) s"
  shows "\<exists>s1. send_loop (he_float H) (rx_caps st) (\<lambda>_. True) (map (\<lambda>(d, ok). (settings_of st1 envelope, d, ok)) reads) s =
      Some s1 \<and> sl_sent s1 = sl_sent s"
proof -
  let ?c = "rx_caps st" let ?d = "rx_caps st1"
  obtain cd cs where d: "negotiate_caps (he_format H) (switch_request toOpus ?c) = Inr ?d"
    "host_codec H (codec_config_from_caps ?d) = Inr (cd, cs)" "rx_codec st1 = cd"
    using switch_codec_cases[OF sw(1)] sw(2) by auto
  let ?q = "switch_request toOpus ?c"
  have v: "caps_validate ?c = None" by (rule negotiate_fields(1)[OF neg])
  note z = caps_sizes[OF v]
  have same: "c_sample_rate ?d = c_sample_rate ?c" "c_channels ?d = c_channels ?c"
    using negotiate_fields(3,4)[OF d(1)] z by (auto simp: requested_fields switch_request_def)
  have ms: "c_frame_ms ?d \<noteq> c_frame_ms ?c"
  proof (cases "c_codec ?c = CodecPCMS16LE")
    case True
    then have o: "c_codec ?d \<noteq> CodecPCMS16LE" using sw(2) by simp
    have c5: "c_frame_ms ?c = 5" by (rule negotiate_pcm(2)[OF neg True])
    have "c_codec ?q \<noteq> CodecPCMS16LE" using o negotiate_fields(2)[OF d(1)] by (auto simp: requested_fields)
    then have "toOpus" by (auto simp: switch_request_def split: if_splits)
    then have "c_frame_ms (requested_caps (he_format H) ?q) = 10"
      using o negotiate_fields(2)[OF d(1)] c5 by (auto simp: requested_fields switch_request_def clamp_frame_ms_def split: if_splits)
    then show ?thesis using negotiate_fields(5)[OF d(1) o] c5 by simp
  next
    case False
    then have "c_codec ?d = CodecPCMS16LE" using negotiated_codec[OF neg] negotiated_codec[OF d(1)] sw(2) by auto
    then show ?thesis using negotiate_pcm(2)[OF d(1)] len False by simp
  qed
  have "rejects cd (stream_frame_bytes ?c)"
    by (rule other_frames_rejected[OF v negotiated_ms[OF neg] d(2) negotiated_ms[OF d(1)] same ms])
  then have r: "rejects (hr_codec (settings_of st1 envelope)) (stream_frame_bytes ?c)" by (simp add: settings_of_def d(3))
  have "\<exists>s1. send_loop (he_float H) ?c (\<lambda>_. True) (map (\<lambda>(d, ok). (settings_of st1 envelope, d, ok)) reads) s = Some s1 \<and>
      chunk_ok ?c s1 \<and> sl_sent s1 = sl_sent s"
    by (rule send_loop_rule[where P = "\<lambda>dn s1. sl_sent s1 = sl_sent s", OF run refl])
      (use rejecting_turn[OF r] in auto)
  then show ?thesis by blast
qed

section \<open>Runs of the handler\<close>

text \<open>The messages a connection delivers, each with the time it is handled, and what is sent for each.\<close>

definition control_step ::
  "('f, 's, 'p, 'c, 'w) host_env \<Rightarrow> int \<times> message \<Rightarrow>
     (('f, 's) host_stream \<times> 'c capture_state \<times> 'w) \<times> (int \<times> message list) list \<Rightarrow>
     (('f, 's) host_stream \<times> 'c capture_state \<times> 'w) \<times> (int \<times> message list) list" where
  "control_step H tm r = (let (env1, out, _) = handle_control H (fst tm) (snd tm) (fst r)
     in (env1, snd r @ [(fst tm, out)]))"

definition control_run ::
  "('f, 's, 'p, 'c, 'w) host_env \<Rightarrow> (int \<times> message) list \<Rightarrow> ('f, 's) host_stream \<times> 'c capture_state \<times> 'w \<Rightarrow>
     (('f, 's) host_stream \<times> 'c capture_state \<times> 'w) \<times> (int \<times> message list) list" where
  "control_run H tms env = fold (control_step H) tms (env, [])"

text \<open>The FORMAT_UPDATE messages among those sent, decoded.\<close>

definition update_of :: "message \<Rightarrow> format_update list" where
  "update_of m = (if msg_type m = MsgFormatUpdate
     then (case decode_format_update (msg_payload m) of Inl _ \<Rightarrow> [] | Inr fu \<Rightarrow> [fu]) else [])"

definition format_updates :: "(int \<times> message list) list \<Rightarrow> (int \<times> format_update) list" where
  "format_updates tr = concat (map (\<lambda>(t, out). concat (map (\<lambda>m. map (Pair t) (update_of m)) out)) tr)"

lemma format_updates_append [simp]: "format_updates (a @ b) = format_updates a @ format_updates b"
  by (simp add: format_updates_def)

lemma format_updates_Nil [simp]: "format_updates [] = []" "format_updates [(t, [])] = []"
  by (simp_all add: format_updates_def)

text \<open>What one message can change of a stream's format.\<close>

definition format_kept :: "int \<Rightarrow> ('f, 's) host_stream \<Rightarrow> ('f, 's) host_stream \<Rightarrow> bool" where
  "format_kept now st st1 \<longleftrightarrow> rx_caps st1 = rx_caps st \<and> rx_codec st1 = rx_codec st \<and>
     rx_format_gen st1 = rx_format_gen st \<and>
     (rx_last_switch st1 = rx_last_switch st \<or> rx_last_switch st1 = Some now)"

definition format_switched ::
  "('f, 's, 'p, 'c, 'w) host_env \<Rightarrow> int \<Rightarrow> ('f, 's) host_stream \<Rightarrow> ('f, 's) host_stream \<Rightarrow> bool" where
  "format_switched H now st st1 \<longleftrightarrow> \<not> dwelling now (rx_last_switch st) \<and> rx_last_switch st1 = Some now \<and>
     rx_format_gen st1 = rx_format_gen st + 1 \<and> caps_validate (rx_caps st1) = None \<and>
     (\<exists>cs. host_codec H (codec_config_from_caps (rx_caps st1)) = Inr (rx_codec st1, cs))"

lemma tune_encoder_keeps [simp]:
  "rx_caps (tune_encoder H dec st) = rx_caps st" "rx_codec (tune_encoder H dec st) = rx_codec st"
  "rx_format_gen (tune_encoder H dec st) = rx_format_gen st" "rx_last_switch (tune_encoder H dec st) = rx_last_switch st"
  by (simp_all add: tune_encoder_def Let_def)

lemma apply_quality_format:
  assumes "apply_quality H now dec st = (st1, out)"
  shows "format_updates [(now, out)] = [] \<and> format_kept now st st1 \<or>
    format_updates [(now, out)] = [(now, \<lparr>fu_format_gen = rx_format_gen st1, fu_caps = rx_caps st1\<rparr>)] \<and>
    format_switched H now st st1"
proof -
  have k: "format_kept now st (tune_encoder H dec st)" by (simp add: format_kept_def)
  show ?thesis
  proof (cases "\<exists>b. switch_codec H now b (tune_encoder H dec st) = (st1, out) \<and> \<not> dwelling now (rx_last_switch st)")
    case False
    then have "st1 = tune_encoder H dec st \<and> out = []"
      using assms by (auto simp: apply_quality_def Let_def split: if_splits)
    then show ?thesis using k by simp
  next
    case True
    then obtain b where b: "switch_codec H now b (tune_encoder H dec st) = (st1, out)" and nd: "\<not> dwelling now (rx_last_switch st)"
      by blast
    from switch_codec_cases[OF b] show ?thesis
    proof
      assume "st1 = tune_encoder H dec st \<and> out = []"
      then show ?thesis using k by simp
    next
      assume "\<exists>c cd cs. negotiate_caps (he_format H) (switch_request b (rx_caps (tune_encoder H dec st))) = Inr c \<and>
        host_codec H (codec_config_from_caps c) = Inr (cd, cs) \<and>
        st1 = (tune_encoder H dec st)\<lparr>rx_codec := cd, rx_codec_state := cs, rx_caps := c,
           rx_format_gen := rx_format_gen (tune_encoder H dec st) + 1, rx_last_switch := Some now\<rparr> \<and>
        out = [ctl_message MsgFormatUpdate (append_format_update []
           \<lparr>fu_format_gen = rx_format_gen (tune_encoder H dec st) + 1, fu_caps = c\<rparr>)]"
      then obtain c cd cs where c: "negotiate_caps (he_format H) (switch_request b (rx_caps (tune_encoder H dec st))) = Inr c"
        and h: "host_codec H (codec_config_from_caps c) = Inr (cd, cs)"
        and st1: "st1 = (tune_encoder H dec st)\<lparr>rx_codec := cd, rx_codec_state := cs, rx_caps := c,
           rx_format_gen := rx_format_gen (tune_encoder H dec st) + 1, rx_last_switch := Some now\<rparr>"
        and out: "out = [ctl_message MsgFormatUpdate (append_format_update []
           \<lparr>fu_format_gen = rx_format_gen (tune_encoder H dec st) + 1, fu_caps = c\<rparr>)]" by blast
      have "format_switched H now st st1"
        unfolding format_switched_def using nd h negotiate_fields(1)[OF c] by (auto simp: st1)
      moreover have "format_updates [(now, out)] = [(now, \<lparr>fu_format_gen = rx_format_gen st1, fu_caps = rx_caps st1\<rparr>)]"
        by (simp add: format_updates_def out update_of_def ctl_message_def format_update.dec_enc st1)
      ultimately show ?thesis by blast
    qed
  qed
qed

lemma format_updates_plain: "\<forall>m \<in> set out. msg_type m \<noteq> MsgFormatUpdate \<Longrightarrow> format_updates [(t, out)] = []"
  by (simp add: format_updates_def update_of_def)

lemma handle_control_format:
  assumes "handle_control H now m (st, h, w) = ((st1, h1, w1), out, stop)"
  shows "format_updates [(now, out)] = [] \<and> format_kept now st st1 \<or>
    format_updates [(now, out)] = [(now, \<lparr>fu_format_gen = rx_format_gen st1, fu_caps = rx_caps st1\<rparr>)] \<and>
    format_switched H now st st1"
proof (cases "msg_type m = MsgStats")
  case True
  show ?thesis
  proof (cases "decode_stats (msg_payload m)")
    case (Inl e)
    then show ?thesis using assms True by (simp add: handle_control_def format_kept_def)
  next
    case (Inr sts)
    define hs where "hs = note_stats (he_float H) sts (rx_stats st)"
    obtain dec q where u: "update (he_float H) (host_sample sts hs) now (rx_quality st) = (dec, q)" by (metis prod.exhaust)
    obtain st2 out2 where a: "apply_quality H now dec (st\<lparr>rx_stats := hs, rx_quality := q\<rparr>) = (st2, out2)" by (metis prod.exhaust)
    have "st1 = st2" "out = out2"
      using assms True Inr u a by (simp_all add: handle_control_def Let_def hs_def)
    then show ?thesis using apply_quality_format[OF a] by (simp add: format_kept_def format_switched_def)
  qed
next
  case False
  have "format_updates [(now, out)] = []"
    by (rule format_updates_plain)
      (use assms False in \<open>auto simp: handle_control_def ctl_message_def Let_def split: if_splits sum.splits prod.splits\<close>)
  moreover have "format_kept now st st1"
    using assms False
    by (auto simp: handle_control_def format_kept_def Let_def split: if_splits sum.splits prod.splits)
  ultimately show ?thesis by simp
qed

definition paced ::
  "('f, 's, 'p, 'c, 'w) host_env \<Rightarrow> u32 \<Rightarrow> caps \<Rightarrow> ('f, 's) host_stream \<Rightarrow> (int \<times> format_update) list \<Rightarrow> bool" where
  "paced H g0 c0 st ups \<longleftrightarrow>
     map (\<lambda>u. fu_format_gen (snd u)) ups = seqs_from (g0 + 1) (length ups) \<and>
     rx_format_gen st = g0 + word_of_nat (length ups) \<and>
     sorted_wrt (\<lambda>a b. fst a + 10000000000 \<le> fst b) ups \<and>
     (\<forall>u \<in> set ups. caps_validate (fu_caps (snd u)) = None) \<and>
     rx_caps st = (if ups = [] then c0 else fu_caps (snd (last ups))) \<and>
     (\<exists>cs. host_codec H (codec_config_from_caps (rx_caps st)) = Inr (rx_codec st, cs))"

definition switch_noted :: "('f, 's) host_stream \<Rightarrow> (int \<times> format_update) list \<Rightarrow> bool" where
  "switch_noted st ups \<longleftrightarrow> (\<forall>u \<in> set ups. \<exists>l. rx_last_switch st = Some l \<and> fst u \<le> l)"

lemma seqs_from_snoc: "seqs_from q (Suc n) = seqs_from q n @ [q + word_of_nat n]"
  by (simp add: seqs_from_def)

lemma paced_kept:
  assumes "paced H g0 c0 st ups" "switch_noted st ups" "format_kept now st st1" "\<forall>u \<in> set ups. fst u \<le> now"
  shows "paced H g0 c0 st1 ups \<and> switch_noted st1 ups"
  using assms unfolding paced_def format_kept_def switch_noted_def by auto

lemma paced_switched:
  assumes "paced H g0 c0 st ups" "switch_noted st ups" "format_switched H now st st1"
  defines "fu \<equiv> \<lparr>fu_format_gen = rx_format_gen st1, fu_caps = rx_caps st1\<rparr>"
  shows "paced H g0 c0 st1 (ups @ [(now, fu)]) \<and> switch_noted st1 (ups @ [(now, fu)])"
proof -
  note p = assms(1)[unfolded paced_def] and f = assms(3)[unfolded format_switched_def]
  have gap: "fst u + 10000000000 \<le> now" if u: "u \<in> set ups" for u
  proof -
    obtain l where "rx_last_switch st = Some l" "fst u \<le> l" using assms(2) u unfolding switch_noted_def by blast
    then show ?thesis using f by (simp add: dwelling_def)
  qed
  have "switch_noted st1 (ups @ [(now, fu)])"
    using f gap unfolding switch_noted_def by fastforce
  moreover have "rx_format_gen st1 = g0 + 1 + word_of_nat (length ups)" using p f by simp
  moreover have "paced H g0 c0 st1 (ups @ [(now, fu)])" using p f gap
    unfolding paced_def by (simp add: fu_def seqs_from_snoc sorted_wrt_append)
  ultimately show ?thesis by simp
qed

text \<open>
  C6. The codec switches of a connection are announced completely and never flap: in any run of control
  messages, handled at times that do not decrease, the FORMAT_UPDATEs the host sends carry the format
  generations one after the other, two of them are at least ten seconds apart, each announces a valid
  format, and the stream is encoded with a codec of the last one announced, tagged with its generation.
\<close>

theorem codec_switches_paced:
  assumes cd: "host_codec H (codec_config_from_caps (rx_caps st)) = Inr (rx_codec st, cs)"
    and times: "sorted (map fst tms)"
    and run: "control_run H tms (st, h, w) = ((st1, h1, w1), tr)"
  shows "paced H (rx_format_gen st) (rx_caps st) st1 (format_updates tr)"
proof -
  let ?P = "\<lambda>tms st1 tr. paced H (rx_format_gen st) (rx_caps st) st1 (format_updates tr) \<and>
    switch_noted st1 (format_updates tr) \<and> fst ` set (format_updates tr) \<subseteq> fst ` set tms"
  have "?P tms st1 tr" using times run
  proof (induction tms arbitrary: st1 h1 w1 tr rule: rev_induct)
    case Nil
    then show ?case using cd by (auto simp: control_run_def paced_def switch_noted_def seqs_from_def)
  next
    case (snoc tm tms)
    obtain st2 h2 w2 tr2 where r2: "control_run H tms (st, h, w) = ((st2, h2, w2), tr2)" by (metis prod.exhaust)
    obtain now m where tm: "tm = (now, m)" by (cases tm)
    obtain out stop where o: "handle_control H now m (st2, h2, w2) = ((st1, h1, w1), out, stop)" and tr: "tr = tr2 @ [(now, out)]"
      using snoc.prems(2) r2 by (auto simp: control_run_def control_step_def tm split: prod.splits)
    have "sorted (map fst tms)" and le: "\<forall>t \<in> fst ` set tms. t \<le> now" using snoc.prems(1) by (auto simp: sorted_append tm)
    from snoc.IH[OF this(1) r2] have ih: "paced H (rx_format_gen st) (rx_caps st) st2 (format_updates tr2)"
      "switch_noted st2 (format_updates tr2)" "fst ` set (format_updates tr2) \<subseteq> fst ` set tms" by blast+
    then have "\<forall>u \<in> set (format_updates tr2). fst u \<le> now" using le by blast
    then show ?case
      using handle_control_format[OF o] paced_kept[OF ih(1,2)] paced_switched[OF ih(1,2)] ih(3)
      by (auto simp: tr tm)
  qed
  then show ?thesis by blast
qed

section \<open>A concrete host\<close>

definition demo_libopus :: "(rat, unit) libopus" where
  "demo_libopus = \<lparr>lo_new_encoder = (\<lambda>_ _ _. Some ()), lo_set_bitrate = (\<lambda>_ _. Some ()), lo_set_complexity = (\<lambda>_ _. Some ()),
     lo_set_fec = (\<lambda>_ _. Some ()), lo_set_loss = (\<lambda>_ _. Some ()), lo_set_dtx = (\<lambda>_ _. Some ()),
     lo_new_decoder = (\<lambda>_ _ _. Some ()), lo_encode = (\<lambda>_ _ s. (Some [1], s)), lo_decode = (\<lambda>_ _ s. (None, s)),
     lo_plc = (\<lambda>_ s. (None, s)), lo_fec = (\<lambda>_ _ s. (None, s))\<rparr>"

definition demo_env :: "(rat, unit, rat, open_call, unit) host_env" where
  "demo_env = \<lparr>he_float = rat_ops, he_format = demo_host_format\<lparr>hf_opus := True\<rparr>, he_sample_ops = rat_ops,
     he_widen = (\<lambda>x. x), he_libopus = demo_libopus, he_codec0 = (), he_audio = demo_audio, he_lower = (\<lambda>n. n),
     he_detail = (\<lambda>_. [])\<rparr>"

definition demo_stream :: "(rat, unit) host_stream" where
  "demo_stream = new_host_stream demo_env [80] (pcm_codec (codec_config_from_caps (demo_pcm_caps 48000)), ())
     (demo_pcm_caps 48000) 1 0"

lemma demo_format: "he_format demo_env = demo_host_format\<lparr>hf_opus := True\<rparr>"
  by (simp add: demo_env_def)

lemma demo_requested: "requested_caps (demo_host_format\<lparr>hf_opus := True\<rparr>) (demo_pcm_caps 48000) = demo_pcm_caps 48000"
  by (simp add: requested_caps_def demo_host_format_def demo_pcm_caps_def offer_caps_def bool_bit_def clamp_u32_def)

lemma demo_neg: "negotiate_caps (he_format demo_env) (demo_pcm_caps 48000) = Inr (demo_pcm_caps 48000)"
proof -
  have "pcm_fit 2 5 = 5" by (rule pcm_fit_small) simp
  moreover have "caps_validate (demo_pcm_caps 48000) = None" by (simp add: caps_validate_def demo_pcm_caps_def)
  ultimately show ?thesis
    unfolding negotiate_caps_def Let_def demo_format demo_requested by (simp add: demo_pcm_caps_def)
qed

definition demo_opus_caps :: caps where
  "demo_opus_caps = (demo_pcm_caps 48000)\<lparr>c_codec := CodecOpus, c_frame_ms := 10\<rparr>"

lemma demo_neg_opus:
  "negotiate_caps (he_format demo_env) (switch_request True (demo_pcm_caps 48000)) = Inr demo_opus_caps"
proof -
  have "requested_caps (demo_host_format\<lparr>hf_opus := True\<rparr>) (switch_request True (demo_pcm_caps 48000)) = demo_opus_caps"
    by (simp add: requested_caps_def switch_request_def demo_host_format_def demo_pcm_caps_def demo_opus_caps_def
        offer_caps_def bool_bit_def clamp_u32_def clamp_frame_ms_def)
  moreover have "caps_validate demo_opus_caps = None" by (simp add: caps_validate_def demo_pcm_caps_def demo_opus_caps_def)
  ultimately show ?thesis
    unfolding negotiate_caps_def Let_def demo_format by (simp add: demo_opus_caps_def)
qed

lemma demo_codec:
  "\<exists>cd. host_codec demo_env (codec_config_from_caps demo_opus_caps) = Inr (cd, ())"
  by (simp add: host_codec_def new_codec_def validate_config_def codec_config_from_caps_def caps_to_codec_config_def
      demo_opus_caps_def demo_pcm_caps_def demo_env_def demo_host_format_def new_opus_codec_def demo_libopus_def Let_def)

theorem codec_switch_silences_witness:
  "\<exists>st1 out s1. switch_codec demo_env 0 True demo_stream = (st1, out) \<and> out \<noteq> [] \<and>
     send_loop rat_ops (demo_pcm_caps 48000) (\<lambda>_. True) [(settings_of st1 None, replicate 4096 7, True)]
       (start_send (demo_pcm_caps 48000) 0 () False) = Some s1 \<and> sl_sent s1 = []"
proof -
  obtain cd where cd: "host_codec demo_env (codec_config_from_caps demo_opus_caps) = Inr (cd, ())" using demo_codec by blast
  have caps: "rx_caps demo_stream = demo_pcm_caps 48000" by (simp add: demo_stream_def new_host_stream_def)
  obtain st1 out where sw: "switch_codec demo_env 0 True demo_stream = (st1, out)" by (metis prod.exhaust)
  then have st1: "rx_caps st1 = demo_opus_caps" "out \<noteq> []"
    by (auto simp: switch_codec_def caps demo_neg_opus cd Let_def)
  have c: "c_codec (demo_pcm_caps 48000) = CodecPCMS16LE" "c_codec demo_opus_caps \<noteq> CodecPCMS16LE"
    by (simp_all add: demo_pcm_caps_def demo_opus_caps_def)
  have ok: "chunk_ok (demo_pcm_caps 48000) (start_send (demo_pcm_caps 48000) 0 () False)"
    using stream_frame_bytes_pos[OF negotiate_fields(1)[OF demo_neg]] by (simp add: chunk_ok_def start_send_def)
  have "\<exists>s1. send_loop (he_float demo_env) (rx_caps demo_stream) (\<lambda>_. True)
      (map (\<lambda>(d, ok). (settings_of st1 None, d, ok)) [(replicate 4096 7, True)]) (start_send (demo_pcm_caps 48000) 0 () False) =
      Some s1 \<and> sl_sent s1 = sl_sent (start_send (demo_pcm_caps 48000) 0 () False)"
    by (rule codec_switch_silences[OF _ sw, where req = "demo_pcm_caps 48000"]) (simp_all add: caps st1 c ok demo_neg)
  then obtain s1 where "send_loop rat_ops (demo_pcm_caps 48000) (\<lambda>_. True) [(settings_of st1 None, replicate 4096 7, True)]
      (start_send (demo_pcm_caps 48000) 0 () False) = Some s1" "sl_sent s1 = []"
    by (auto simp: caps demo_env_def start_send_def simp del: send_loop.simps)
  then show ?thesis using sw st1(2) by blast
qed

lemma demo_pcm_codec:
  "host_codec demo_env (codec_config_from_caps (demo_pcm_caps 48000)) =
     Inr (pcm_codec (codec_config_from_caps (demo_pcm_caps 48000)), ())"
  by (simp add: host_codec_def new_codec_def validate_config_def codec_config_from_caps_def caps_to_codec_config_def
      demo_pcm_caps_def demo_env_def Let_def)

theorem codec_switches_paced_witness:
  "\<exists>st1 h1 w1 tr. control_run demo_env
      [(5, ctl_message MsgVolume [0, 128, 0]), (9, ctl_message MsgFormatAck [])] (demo_stream, demo_capture, ()) =
     ((st1, h1, w1), tr) \<and> paced demo_env 1 (demo_pcm_caps 48000) st1 (format_updates tr)"
proof -
  obtain st1 h1 w1 tr where r: "control_run demo_env
      [(5, ctl_message MsgVolume [0, 128, 0]), (9, ctl_message MsgFormatAck [])] (demo_stream, demo_capture, ()) =
     ((st1, h1, w1), tr)" by (metis prod.exhaust)
  have g: "rx_format_gen demo_stream = 1" "rx_caps demo_stream = demo_pcm_caps 48000"
    "rx_codec demo_stream = pcm_codec (codec_config_from_caps (demo_pcm_caps 48000))"
    by (simp_all add: demo_stream_def new_host_stream_def)
  have "paced demo_env (rx_format_gen demo_stream) (rx_caps demo_stream) st1 (format_updates tr)"
    by (rule codec_switches_paced[OF _ _ r]) (simp_all add: g demo_pcm_codec)
  then show ?thesis using r unfolding g by blast
qed
end
