(* ===== verification/HostAdmission.thy ===== *)
theory HostAdmission
  imports Session TrustStore HostStream Devices
begin

text \<open>
  Who the host lets in, \<^verbatim>\<open>handleConnInner\<close>, \<^verbatim>\<open>runPairing\<close>, \<^verbatim>\<open>tryResume\<close> and \<^verbatim>\<open>ForgetPeer\<close> of
  \<^verbatim>\<open>engine/internal/engine/host.go\<close>, and the registry of connected receivers.  A connection is a number;
  the certificate fingerprint of its peer comes from TLS and is an argument.  The pairing store is the
  record \<open>peer_store\<close> of its three operations over a state \<open>'t\<close> that may fail.
\<close>

section \<open>State\<close>

record 't peer_store =
  ps_peers :: "'t \<Rightarrow> store_error + peer_record list"
  ps_save :: "peer_record \<Rightarrow> 't \<Rightarrow> store_error option \<times> 't"
  ps_remove :: "bytes \<Rightarrow> 't \<Rightarrow> store_error option \<times> 't"

record resume_state =
  rs_caps :: caps
  rs_format_gen :: u32
  rs_next_seq :: u32
  rs_device_id :: bytes

record 't host =
  hh_trusted :: "string set"
  hh_conns :: "(string \<times> nat) list"
  hh_resume :: "(bytes \<times> resume_state) list"
  hh_store :: 't

datatype host_error =
    HeSession sess_error
  | HeStore store_error
  | HeExpectedHello u16
  | HeExpectedPairBegin
  | HeExpectedPairConfirm u16
  | HePairing pair_error
  | HeNoRandom
  | HeNoEnvelopePeer
  | HeInvalidDeviceId
  | HeNotPaired
  | HeCodec codec_error

definition new_host :: "'t \<Rightarrow> 't host" where
  "new_host t = \<lparr>hh_trusted = {}, hh_conns = [], hh_resume = [], hh_store = t\<rparr>"

text \<open>The part of \<^verbatim>\<open>ensureIdentity\<close> that loads whom the host trusts.\<close>

definition load_trusted :: "'t peer_store \<Rightarrow> 't host \<Rightarrow> store_error option \<times> 't host" where
  "load_trusted P h =
     (case ps_peers P (hh_store h) of
        Inl e \<Rightarrow> (Some e, h)
      | Inr peers \<Rightarrow> (None, h\<lparr>hh_trusted := hh_trusted h \<union> set (map pr_fingerprint peers)\<rparr>))"

section \<open>Relayed connections\<close>

text \<open>The envelope functions of a key; the nonces the random source yields are \<open>nonces\<close>.\<close>

definition seal_fun :: "aead \<Rightarrow> (nat \<Rightarrow> bytes option) \<Rightarrow> bytes \<Rightarrow> nat \<Rightarrow> bytes \<Rightarrow> bytes option" where
  "seal_fun A nonces key n p = (case seal A key (nonces n) p of Inl _ \<Rightarrow> None | Inr e \<Rightarrow> Some e)"

definition open_fun :: "aead \<Rightarrow> bytes \<Rightarrow> bytes \<Rightarrow> bytes option" where
  "open_fun A key e = (case open_env A key e of Inl _ \<Rightarrow> None | Inr p \<Rightarrow> Some p)"

fun open_with_peers :: "aead \<Rightarrow> peer_record list \<Rightarrow> message \<Rightarrow> (string \<times> message) option" where
  "open_with_peers A [] m = None"
| "open_with_peers A (p # ps) m =
     (case new_sealer A (pr_secret p) of
        Inl _ \<Rightarrow> open_with_peers A ps m
      | Inr key \<Rightarrow>
          (case open_env A key (msg_payload m) of
             Inl _ \<Rightarrow> open_with_peers A ps m
           | Inr plain \<Rightarrow> Some (pr_fingerprint p, m\<lparr>msg_payload := plain\<rparr>)))"

definition open_sealed_first :: "aead \<Rightarrow> 't peer_store \<Rightarrow> 't \<Rightarrow> message \<Rightarrow> host_error + string \<times> message" where
  "open_sealed_first A P t m =
     (case ps_peers P t of
        Inl e \<Rightarrow> Inl (HeStore e)
      | Inr peers \<Rightarrow> (case open_with_peers A peers m of None \<Rightarrow> Inl HeNoEnvelopePeer | Some r \<Rightarrow> Inr r))"

definition pairing_secret_for_fingerprint :: "'t peer_store \<Rightarrow> 't \<Rightarrow> string \<Rightarrow> host_error + bytes" where
  "pairing_secret_for_fingerprint P t fp =
     (case ps_peers P t of
        Inl e \<Rightarrow> Inl (HeStore e)
      | Inr peers \<Rightarrow> (case find (\<lambda>p. pr_fingerprint p = fp) peers of None \<Rightarrow> Inl HeNotPaired | Some p \<Rightarrow> Inr (pr_secret p)))"

text \<open>
  The first message of a connection: the peer's fingerprint, the message and the session, which from
  then on uses the envelope of a relayed peer.
\<close>

definition identify ::
  "aead \<Rightarrow> (nat \<Rightarrow> bytes option) \<Rightarrow> 't peer_store \<Rightarrow> 't \<Rightarrow> bool \<Rightarrow> string \<Rightarrow> session \<Rightarrow>
     host_error + string \<times> message \<times> session" where
  "identify A nonces P t relayed remoteFP s =
     (case recv s of
        (Inl e, _) \<Rightarrow> Inl (HeSession e)
      | (Inr first, s1) \<Rightarrow>
          if \<not> relayed then Inr (remoteFP, first, s1)
          else case open_sealed_first A P t first of
            Inl e \<Rightarrow> Inl e
          | Inr (fp, opened) \<Rightarrow>
              (case pairing_secret_for_fingerprint P t fp of
                 Inl e \<Rightarrow> Inl e
               | Inr secret \<Rightarrow>
                   (case new_sealer A secret of
                      Inl _ \<Rightarrow> Inl HeNoEnvelopePeer
                    | Inr key \<Rightarrow> Inr (fp, opened, set_sealer (seal_fun A nonces key) (open_fun A key) s1))))"

text \<open>Receiver states may precede the handshake.\<close>

function skip_receiver_states :: "message \<Rightarrow> session \<Rightarrow> host_error + message \<times> session" where
  "skip_receiver_states m s =
     (if msg_type m \<noteq> MsgReceiverState then Inr (m, s)
      else case recv s of
        (Inl e, _) \<Rightarrow> Inl (HeSession e)
      | (Inr m1, s1) \<Rightarrow> skip_receiver_states m1 s1)"
  by pat_completeness auto
termination
  by (relation "measure (\<lambda>(m, s). length (r_data (se_in s)))") (auto dest: recv_shorter[OF sym])

declare skip_receiver_states.simps [simp del]

section \<open>Pairing\<close>

definition generate_pin :: "bytes \<Rightarrow> bytes" where
  "generate_pin rnd = map (\<lambda>b. 48 + b mod 10) rnd"

record ('k, 'p) host_secrets =
  hk_crypto :: "('k, 'p) crypto"
  hk_pin_bytes :: bytes
  hk_ephemeral :: "('k \<times> bytes) option"
  hk_device_id :: bytes
  hk_name :: bytes
  hk_now :: int

text \<open>The host shows the code it generates; the last step saves the peer.\<close>

definition host_pairing_exchange ::
  "('k, 'p) host_secrets \<Rightarrow> session \<Rightarrow> (host_error + bytes) \<times> session" where
  "host_pairing_exchange K s =
     (let C = hk_crypto K in
      case recv s of
        (Inl e, s1) \<Rightarrow> (Inl (HeSession e), s1)
      | (Inr m, s1) \<Rightarrow>
          if msg_type m \<noteq> MsgPairBegin \<or> length (msg_payload m) \<noteq> 16 then (Inl HeExpectedPairBegin, s1)
          else case hk_ephemeral K of
            None \<Rightarrow> (Inl HeNoRandom, s1)
          | Some (key, salt) \<Rightarrow>
              (case on_begin (msg_payload m) (new_exchange RoleSender (generate_pin (hk_pin_bytes K)) (hk_name K) key salt) of
                 (Inl e, _) \<Rightarrow> (Inl (HePairing e), s1)
               | (Inr _, ex1) \<Rightarrow>
                   (case challenge_message C ex1 of
                      (Inl e, _) \<Rightarrow> (Inl (HePairing e), s1)
                    | (Inr challenge, ex2) \<Rightarrow>
                        (case send (ctl_message MsgPairChallenge challenge) s1 of
                           (Some e, s2) \<Rightarrow> (Inl (HeSession e), s2)
                         | (None, s2) \<Rightarrow>
                             (case recv s2 of
                                (Inl e, s3) \<Rightarrow> (Inl (HeSession e), s3)
                              | (Inr confirm, s3) \<Rightarrow>
                                  if msg_type confirm \<noteq> MsgPairConfirm then (Inl (HeExpectedPairConfirm (msg_type confirm)), s3)
                                  else (case on_confirm C (msg_payload confirm) ex2 of
                                      (Inl e, _) \<Rightarrow> (Inl (HePairing e), s3)
                                    | (Inr _, ex3) \<Rightarrow>
                                        (case result_message C (hk_device_id K) ex3 of
                                           (Inl e, _) \<Rightarrow> (Inl (HePairing e), s3)
                                         | (Inr result, ex4) \<Rightarrow>
                                             (case send (ctl_message MsgPairResult result) s3 of
                                                (Some e, s4) \<Rightarrow> (Inl (HeSession e), s4)
                                              | (None, s4) \<Rightarrow> (Inr (ex_secret ex4), s4)))))))))"

definition run_host_pairing ::
  "('k, 'p) host_secrets \<Rightarrow> 't peer_store \<Rightarrow> string \<Rightarrow> session \<Rightarrow> 't \<Rightarrow> host_error option \<times> session \<times> 't" where
  "run_host_pairing K P certFP s t =
     (case host_pairing_exchange K s of
        (Inl e, s1) \<Rightarrow> (Some e, s1, t)
      | (Inr secret, s1) \<Rightarrow>
          (case ps_save P \<lparr>pr_id = se_peer_id s1, pr_name = se_peer_name s1, pr_secret = secret,
                           pr_fingerprint = certFP, pr_paired_at = hk_now K\<rparr> t of
             (e, t1) \<Rightarrow> (map_option HeStore e, s1, t1)))"

section \<open>Letting a connection in\<close>

definition resume_ok_payload :: "resume_state \<Rightarrow> bytes" where
  "resume_ok_payload r = caps_append (put_le 4 (rs_next_seq r) @ put_le 4 (rs_format_gen r)) (rs_caps r)"

definition try_resume ::
  "(codec_config \<Rightarrow> codec_error + 'cd) \<Rightarrow> bytes \<Rightarrow> session \<Rightarrow> 't host \<Rightarrow> (resume_state \<times> 'cd) option \<times> session" where
  "try_resume mk payload s h =
     (if length payload < 36 then (None, s)
      else case map_of (hh_resume h) (take 32 payload) of
        None \<Rightarrow> (None, s)
      | Some r \<Rightarrow>
          (case send (ctl_message MsgResumeOK (resume_ok_payload r)) s of
             (Some _, s1) \<Rightarrow> (None, s1)
           | (None, s1) \<Rightarrow>
               (case mk (codec_config_from_caps (rs_caps r)) of
                  Inl _ \<Rightarrow> (None, s1)
                | Inr cd \<Rightarrow> (Some (r, cd), s1))))"

datatype 'cd admission = Rejected host_error | Resumed resume_state 'cd | Admitted string hello

definition admit_hello ::
  "('k, 'p) host_secrets \<Rightarrow> 't peer_store \<Rightarrow> bytes \<Rightarrow> caps \<Rightarrow> string \<Rightarrow> string \<Rightarrow> message \<Rightarrow> session \<Rightarrow> 't host \<Rightarrow>
     'cd admission \<times> session \<times> 't host" where
  "admit_hello K P token hostCaps certFP peerFP m s h =
     (if msg_type m \<noteq> MsgHello then (Rejected (HeExpectedHello (msg_type m)), s, h)
      else case complete_hello token m hostCaps s of
        (Inl e, s1) \<Rightarrow> (Rejected (HeSession e), s1, h)
      | (Inr hello, s1) \<Rightarrow>
          if peerFP \<in> hh_trusted h then (Admitted peerFP hello, s1, h)
          else (case run_host_pairing K P certFP s1 (hh_store h) of
              (Some e, s2, t) \<Rightarrow> (Rejected e, s2, h\<lparr>hh_store := t\<rparr>)
            | (None, s2, t) \<Rightarrow>
                (Admitted peerFP hello, s2, h\<lparr>hh_store := t, hh_trusted := insert peerFP (hh_trusted h)\<rparr>)))"

definition admit ::
  "('k, 'p) host_secrets \<Rightarrow> 't peer_store \<Rightarrow> aead \<Rightarrow> (nat \<Rightarrow> bytes option) \<Rightarrow> (codec_config \<Rightarrow> codec_error + 'cd) \<Rightarrow>
     bytes \<Rightarrow> caps \<Rightarrow> bool \<Rightarrow> string \<Rightarrow> session \<Rightarrow> 't host \<Rightarrow> 'cd admission \<times> session \<times> 't host" where
  "admit K P A nonces mk token hostCaps relayed certFP s h =
     (case identify A nonces P (hh_store h) relayed certFP (set_local_name (hk_name K) s) of
        Inl e \<Rightarrow> (Rejected e, s, h)
      | Inr (peerFP, first, s1) \<Rightarrow>
          (case skip_receiver_states first s1 of
             Inl e \<Rightarrow> (Rejected e, s1, h)
           | Inr (m, s2) \<Rightarrow>
               if msg_type m = MsgResume
               then (case try_resume mk (msg_payload m) s2 h of
                   (Some (r, cd), s3) \<Rightarrow> (Resumed r cd, s3, h)
                 | (None, s3) \<Rightarrow>
                     (case recv s3 of
                        (Inl e, s4) \<Rightarrow> (Rejected (HeSession e), s4, h)
                      | (Inr m1, s4) \<Rightarrow> admit_hello K P token hostCaps certFP peerFP m1 s4 h))
               else admit_hello K P token hostCaps certFP peerFP m s2 h))"

section \<open>The registry\<close>

definition register_conn :: "string \<Rightarrow> nat \<Rightarrow> 't host \<Rightarrow> 't host" where
  "register_conn key cn h = h\<lparr>hh_conns := AList.update key cn (hh_conns h)\<rparr>"

definition unregister_conn :: "string \<Rightarrow> 't host \<Rightarrow> 't host" where
  "unregister_conn key h = h\<lparr>hh_conns := AList.delete key (hh_conns h)\<rparr>"

definition store_resume_state :: "bytes \<Rightarrow> resume_state \<Rightarrow> 't host \<Rightarrow> 't host" where
  "store_resume_state token r h =
     (if token = replicate 32 0 then h else h\<lparr>hh_resume := AList.update token r (hh_resume h)\<rparr>)"

text \<open>\<^verbatim>\<open>hex.DecodeString\<close>.\<close>

definition unhex_digit :: "byte \<Rightarrow> byte option" where
  "unhex_digit c = (if 48 \<le> c \<and> c \<le> 57 then Some (c - 48) else if 97 \<le> c \<and> c \<le> 102 then Some (c - 87)
     else if 65 \<le> c \<and> c \<le> 70 then Some (c - 55) else None)"

fun unhex :: "bytes \<Rightarrow> bytes option" where
  "unhex [] = Some []"
| "unhex [c] = None"
| "unhex (a # b # cs) =
     (case (unhex_digit a, unhex_digit b, unhex cs) of
        (Some x, Some y, Some r) \<Rightarrow> Some ((16 * x + y) # r) | _ \<Rightarrow> None)"

text \<open>The result also names the connection that is closed, if one is listed.\<close>

definition forget_peer :: "'t peer_store \<Rightarrow> bytes \<Rightarrow> 't host \<Rightarrow> (host_error + nat option) \<times> 't host" where
  "forget_peer P hex h =
     (case unhex (trim_space hex) of
        None \<Rightarrow> (Inl HeInvalidDeviceId, h)
      | Some i \<Rightarrow>
          if length i \<noteq> 16 then (Inl HeInvalidDeviceId, h)
          else case ps_peers P (hh_store h) of
            Inl e \<Rightarrow> (Inl (HeStore e), h)
          | Inr peers \<Rightarrow>
              let fp = (case find (\<lambda>p. pr_id p = i) peers of None \<Rightarrow> [] | Some p \<Rightarrow> pr_fingerprint p) in
              if fp = [] then (Inl HeNotPaired, h)
              else (case ps_remove P i (hh_store h) of
                  (Some e, t) \<Rightarrow> (Inl (HeStore e), h\<lparr>hh_store := t\<rparr>)
                | (None, t) \<Rightarrow>
                    (Inr (map_of (hh_conns h) (hex_of_bytes i)),
                     h\<lparr>hh_store := t, hh_trusted := hh_trusted h - {fp},
                       hh_conns := AList.delete (hex_of_bytes i) (hh_conns h)\<rparr>)))"

section \<open>Admission\<close>

lemma open_with_peers_sound:
  "open_with_peers A ps m = Some (fp, m1) \<Longrightarrow>
     \<exists>p \<in> set ps. \<exists>key. pr_fingerprint p = fp \<and> new_sealer A (pr_secret p) = Inr key \<and>
       open_env A key (msg_payload m) = Inr (msg_payload m1)"
  by (induction A ps m rule: open_with_peers.induct) (auto split: sum.splits)

text \<open>
  \<open>pin_checked K s secret\<close>: the next two messages on the session are the peer's begin and its confirmation,
  and the confirmation is accepted by the exchange that runs under the code just generated.
\<close>

definition pin_checked :: "('k, 'p) host_secrets \<Rightarrow> session \<Rightarrow> bytes \<Rightarrow> bool" where
  "pin_checked K s secret \<longleftrightarrow> (\<exists>key salt begin s1 ex0 challenge ex s2 confirm s3 ex1 result ex2.
     hk_ephemeral K = Some (key, salt) \<and> recv s = (Inr begin, s1) \<and>
     on_begin (msg_payload begin) (new_exchange RoleSender (generate_pin (hk_pin_bytes K)) (hk_name K) key salt) = (Inr (), ex0) \<and>
     challenge_message (hk_crypto K) ex0 = (Inr challenge, ex) \<and>
     send (ctl_message MsgPairChallenge challenge) s1 = (None, s2) \<and> recv s2 = (Inr confirm, s3) \<and>
     on_confirm (hk_crypto K) (msg_payload confirm) ex = (Inr (), ex1) \<and>
     result_message (hk_crypto K) (hk_device_id K) ex1 = (Inr result, ex2) \<and> secret = ex_secret ex2)"

lemma pairing_checks_pin:
  assumes "host_pairing_exchange K s = (Inr secret, s1)"
  shows "pin_checked K s secret"
  using assms unfolding pin_checked_def
  by (auto simp: host_pairing_exchange_def Let_def split: prod.splits sum.splits option.splits if_splits)

lemma send_peer [simp]: "se_peer_id (snd (send m s)) = se_peer_id s" "se_peer_name (snd (send m s)) = se_peer_name s"
  by (simp_all add: send_def Let_def split: option.split sum.split)

lemma recv_peer [simp]: "se_peer_id (snd (recv s)) = se_peer_id s" "se_peer_name (snd (recv s)) = se_peer_name s"
  by (simp_all add: recv_def Let_def split: option.split sum.split prod.split)

lemma send_peerD: "send m s = (e, s1) \<Longrightarrow> se_peer_id s1 = se_peer_id s \<and> se_peer_name s1 = se_peer_name s"
  using send_peer[of m s] by simp

lemma recv_peerD: "recv s = (r, s1) \<Longrightarrow> se_peer_id s1 = se_peer_id s \<and> se_peer_name s1 = se_peer_name s"
  using recv_peer[of s] by simp

lemma pairing_keeps_peer:
  "host_pairing_exchange K s = (r, s1) \<Longrightarrow> se_peer_id s1 = se_peer_id s \<and> se_peer_name s1 = se_peer_name s"
  by (auto simp: host_pairing_exchange_def Let_def dest!: send_peerD recv_peerD
      split: prod.splits sum.splits option.splits if_splits)

lemma complete_hello_peer:
  "complete_hello token m caps s = (Inr hello, s1) \<Longrightarrow> se_peer_id s1 = h_device_id hello \<and> se_peer_name s1 = h_device_name hello"
  by (auto simp: complete_hello_def note_peer_def Let_def dest!: send_peerD split: prod.splits sum.splits option.splits if_splits)

lemma admit_admitted:
  assumes "admit K P A nonces mk token hostCaps relayed certFP s h = r" "fst r = Admitted fp hello"
  shows "\<exists>peerFP first0 s2 m s3. identify A nonces P (hh_store h) relayed certFP (set_local_name (hk_name K) s) =
      Inr (peerFP, first0, s2) \<and> admit_hello K P token hostCaps certFP peerFP m s3 h = r"
  using assms by (auto simp: admit_def split: sum.splits prod.splits option.splits if_splits)

lemma admit_hello_admitted:
  assumes "admit_hello K P token hostCaps certFP peerFP m s h = (Admitted fp hello, s1, h1)"
  shows "fp = peerFP \<and> hh_trusted h1 = insert fp (hh_trusted h) \<and>
    (fp \<in> hh_trusted h \<and> hh_store h1 = hh_store h \<or>
     (\<exists>s4 s5. complete_hello token m hostCaps s = (Inr hello, s4) \<and>
        run_host_pairing K P certFP s4 (hh_store h) = (None, s5, hh_store h1)))"
  using assms by (auto simp: admit_hello_def split: if_splits sum.splits prod.splits option.splits)

lemma host_pairing_saves:
  assumes "run_host_pairing K P certFP s t = (None, s1, t1)"
  shows "\<exists>secret. pin_checked K s secret \<and>
    ps_save P \<lparr>pr_id = se_peer_id s, pr_name = se_peer_name s, pr_secret = secret, pr_fingerprint = certFP,
      pr_paired_at = hk_now K\<rparr> t = (None, t1)"
proof -
  obtain secret where x: "host_pairing_exchange K s = (Inr secret, s1)" and
    "ps_save P \<lparr>pr_id = se_peer_id s1, pr_name = se_peer_name s1, pr_secret = secret, pr_fingerprint = certFP,
      pr_paired_at = hk_now K\<rparr> t = (None, t1)"
    using assms by (auto simp: run_host_pairing_def split: prod.splits sum.splits)
  then show ?thesis using pairing_checks_pin[OF x] pairing_keeps_peer[OF x] by auto
qed


section \<open>Resuming\<close>

lemma resume_admitted:
  fixes H :: session
  assumes H: "ready H" "se_open H = None" "se_seal H = None"
    and r: "map_of (hh_resume h) token = Some r" "length token = 32" and cd: "mk (codec_config_from_caps (rs_caps r)) = Inr cd"
  shows "\<exists>s1. admit K P A nonces mk tok hostCaps False certFP
      (incoming (wire None n (ctl_message MsgResume (token @ put_le 4 (lastSeq :: u32))) @ rest) e H) h = (Resumed r cd, s1, h) \<and>
    se_peer_id s1 = se_peer_id H"
proof -
  let ?m = "ctl_message MsgResume (token @ put_le 4 lastSeq)"
  let ?H = "set_local_name (hk_name K) H"
  let ?s = "incoming rest e ?H"
  let ?ok = "ctl_message MsgResumeOK (resume_ok_payload r)"
  have sl: "set_local_name (hk_name K) (incoming b e H) = incoming b e ?H" for b
    by (simp add: set_local_name_def incoming_def)
  have H': "ready ?H" "se_open ?H = None" "se_seal ?H = None" "\<not> se_closed ?H"
    using H by (simp_all add: set_local_name_def ready_def)
  have rc: "recv (incoming (wire None n ?m @ rest) e ?H) = (Inr ?m, ?s)"
    using recv_ok[of 0 None ?H ?m n rest e] H' r(2) by (simp add: chan_ok_def)
  have len: "length (resume_ok_payload r) \<le> 4096" by (simp add: resume_ok_payload_def)
  have sd: "send ?ok ?s = (None, put ?ok ?s)"
    using send_ok[of ?s 0 None ?ok] H' len by (simp add: chan_ok_def)
  have tr: "try_resume mk (token @ put_le 4 lastSeq) ?s h = (Some (r, cd), put ?ok ?s)"
    using r cd sd by (simp add: try_resume_def)
  have "admit K P A nonces mk tok hostCaps False certFP (incoming (wire None n ?m @ rest) e H) h = (Resumed r cd, put ?ok ?s, h)"
    by (simp add: admit_def identify_def sl rc skip_receiver_states.simps tr)
  moreover have "se_peer_id (put ?ok ?s) = se_peer_id H" by (simp add: incoming_def set_local_name_def)
  ultimately show ?thesis by blast
qed


section \<open>The registry of receivers\<close>

text \<open>
  A connection joins under the id its peer gave, and leaves when its serving loop ends; \<open>live\<close> are the
  connections in between.
\<close>

datatype registry_event = Joins nat string | Leaves nat | Forgets bytes

definition registry_step ::
  "'t peer_store \<Rightarrow> registry_event \<Rightarrow> 't host \<times> (nat \<times> string) list \<Rightarrow> 't host \<times> (nat \<times> string) list" where
  "registry_step P ev st = (case st of (h, live) \<Rightarrow>
     case ev of
       Joins cn key \<Rightarrow> if cn \<in> fst ` set live then st else (register_conn key cn h, (cn, key) # live)
     | Leaves cn \<Rightarrow> (case map_of live cn of
           None \<Rightarrow> st
         | Some key \<Rightarrow> (unregister_conn key h, AList.delete cn live))
     | Forgets hex \<Rightarrow> (snd (forget_peer P hex h), live))"

definition registry_run ::
  "'t peer_store \<Rightarrow> registry_event list \<Rightarrow> 't host \<times> (nat \<times> string) list \<Rightarrow> 't host \<times> (nat \<times> string) list" where
  "registry_run P evs st = fold (registry_step P) evs st"

definition registry_inv :: "'t host \<times> (nat \<times> string) list \<Rightarrow> bool" where
  "registry_inv st \<longleftrightarrow> distinct (map fst (snd st)) \<and>
     (\<forall>key cn. map_of (hh_conns (fst st)) key = Some cn \<longrightarrow> (cn, key) \<in> set (snd st))"

lemma forget_peer_conns: "hh_conns (snd (forget_peer P hex h)) = hh_conns h \<or>
    (\<exists>k. hh_conns (snd (forget_peer P hex h)) = AList.delete k (hh_conns h))"
  by (auto simp: forget_peer_def Let_def split: option.splits sum.splits prod.splits)

lemma registry_step_inv:
  assumes "registry_inv st"
  shows "registry_inv (registry_step P ev st)"
proof -
  obtain h live where st: "st = (h, live)" by (cases st)
  note i = assms[unfolded st registry_inv_def fst_conv snd_conv]
  show ?thesis
  proof (cases ev)
    case (Joins cn key)
    then show ?thesis using i st
      by (auto simp: registry_step_def registry_inv_def register_conn_def update_conv split: if_splits)
  next
    case (Leaves cn)
    show ?thesis
    proof (cases "map_of live cn")
      case (Some key)
      have "(c, k) \<in> set (AList.delete cn live)" if kc: "map_of (hh_conns h) k = Some c" "k \<noteq> key" for k c
      proof -
        have cl: "(c, k) \<in> set live" using i kc by auto
        have "map_of live c = Some k" using cl i by (auto simp: map_of_eq_Some_iff)
        then have "c \<noteq> cn" using kc(2) Some by auto
        then show ?thesis using cl by (simp add: AList.delete_eq)
      qed
      then show ?thesis using i Leaves st Some
        by (auto simp: registry_step_def registry_inv_def unregister_conn_def distinct_delete delete_conv split: if_splits)
    qed (use assms st Leaves in \<open>simp add: registry_step_def\<close>)
  next
    case (Forgets hex)
    show ?thesis using forget_peer_conns[of P hex h] i Forgets st
      by (auto simp: registry_step_def registry_inv_def delete_conv split: if_splits)
  qed
qed

text \<open>
  The list of receivers shows only connections that are being served, each under the id it joined
  with, in every interleaving of connections that come and go and of devices being forgotten.  The
  converse fails for a device that reconnects before its old connection has ended, and for any two
  resumed streams, which share the empty id: when the older connection ends it takes the newer one's
  entry with it, and a stream that is being served is listed no more.
\<close>

theorem registry_listing:
  assumes "hh_conns h = []"
    and two: "registry_run P evs (h, []) = (h1, live)" "a \<noteq> b" "a \<notin> fst ` set live" "b \<notin> fst ` set live"
  shows "(\<forall>key cn. map_of (hh_conns h1) key = Some cn \<longrightarrow> (cn, key) \<in> set live) \<and>
    (let (h2, live2) = registry_run P (evs @ [Joins a key, Joins b key, Leaves a]) (h, [])
     in map_of live2 b = Some key \<and> map_of (hh_conns h2) key = None)"
proof -
  have "registry_inv st \<Longrightarrow> registry_inv (registry_run P evs st)" for st
    by (induction evs arbitrary: st) (simp_all add: registry_run_def registry_step_inv)
  from this[of "(h, [])"] have "registry_inv (h1, live)" using assms by (simp add: registry_inv_def)
  moreover have "registry_run P (evs @ [Joins a key, Joins b key, Leaves a]) (h, []) =
      registry_run P [Joins a key, Joins b key, Leaves a] (h1, live)"
    using two(1) by (simp add: registry_run_def)
  moreover have "registry_run P [Joins a key, Joins b key, Leaves a] (h1, live) =
      (unregister_conn key (register_conn key b (register_conn key a h1)), AList.delete a ((b, key) # (a, key) # live))"
    using two by (simp add: registry_run_def registry_step_def)
  ultimately show ?thesis using two(2)
    by (simp add: registry_inv_def unregister_conn_def delete_conv)
qed

section \<open>A direct connection\<close>

text \<open>
  What \<^verbatim>\<open>handleConnInner\<close> does with a hello in the clear: the session after the hello is answered still has
  everything the client sent next in front of it.
\<close>

definition answered :: "bytes \<Rightarrow> caps \<Rightarrow> caps \<Rightarrow> hello \<Rightarrow> session \<Rightarrow> session" where
  "answered tok hostCaps sel hello s =
     put (ctl_message MsgHelloOK (append_hello_ok [] \<lparr>ho_profile = sel, ho_resume_token = tok\<rparr>))
       (put (hello_message (se_local_name s) (se_local_id s) hostCaps)
         ((note_peer hello s)\<lparr>se_active := sel, se_resume_token := tok\<rparr>))"

lemma answered_simps [simp]: "se_in (answered tok hc sel hello s) = se_in s" "se_closed (answered tok hc sel hello s) = se_closed s"
  "se_open (answered tok hc sel hello s) = se_open s"
  by (simp_all add: answered_def note_peer_def)

lemma set_local_name_simp [simp]: "se_local_name (set_local_name n s) = n"
  by (simp add: set_local_name_def)

lemma direct_hello:
  fixes rest :: bytes and e :: io_error
  assumes con: "Session.connected 0 C H" and plain: "se_open H = None" "se_seal H = None"
    and size: "length name \<le> 2000" "length (hk_name K) \<le> 2000" "length tok = 32" "length cid = 16"
    and sel: "select_profile hostCaps want = Some sel"
  defines "S \<equiv> answered tok hostCaps sel (hello_of name cid want) (incoming rest e (set_local_name (hk_name K) H))"
  shows "admit K P A nonces mk tok hostCaps False certFP
      (incoming (wire None n (hello_message name cid want) @ rest) e H) h =
    (if certFP \<in> hh_trusted h then (Admitted certFP (hello_of name cid want), S, h)
     else case run_host_pairing K P certFP S (hh_store h) of
         (Some err, s2, t) \<Rightarrow> (Rejected err, s2, h\<lparr>hh_store := t\<rparr>)
       | (None, s2, t) \<Rightarrow> (Admitted certFP (hello_of name cid want), s2,
            h\<lparr>hh_store := t, hh_trusted := insert certFP (hh_trusted h)\<rparr>))"
proof -
  let ?H = "set_local_name (hk_name K) H"
  let ?s = "incoming rest e ?H"
  let ?m = "hello_message name cid want"
  have sl: "set_local_name (hk_name K) (incoming b e H) = incoming b e ?H" for b
    by (simp add: set_local_name_def incoming_def)
  have H': "\<not> se_closed ?H" "se_open ?H = None"
    using con plain by (simp_all add: set_local_name_def Session.connected_def ready_def)
  have conH: "Session.connected 0 C ?s"
    using con plain by (simp add: Session.connected_def set_local_name_def ready_def)
  have rc: "recv (incoming (wire None n ?m @ rest) e ?H) = (Inr ?m, ?s)"
    using recv_ok[of 0 None ?H ?m n rest e] H' size by (simp add: chan_ok_def hello_message_eq)
  have t: "msg_type ?m = MsgHello" by (simp add: hello_message_eq)
  have d: "decode_hello (append_hello [] (hello_of name cid want)) = Inr (hello_of name cid want)"
    using decode_hello_of[of cid name want] size by simp
  have "complete_hello tok ?m hostCaps ?s = (Inr (hello_of name cid want), S)"
    using complete_hello_eq[OF conH _ size(3) d, of hostCaps] sel size(2)
    by (simp add: hello_message_eq S_def answered_def Let_def)
  then show ?thesis
    by (simp add: admit_def identify_def sl rc skip_receiver_states.simps t admit_hello_def)
qed

text \<open>
  The two devices' memories of their pairing must agree, or the client is locked out for good.  A client
  that has a pairing record of the host asks for the stream right after the hello; a host that does not
  trust the client's certificate then waits for the pairing to begin and gives up on the stream request,
  with nothing saved and nobody trusted, so the next attempt meets the same end.
\<close>

theorem forgotten_client_locked_out:
  assumes con: "Session.connected 0 C H" and plain: "se_open H = None" "se_seal H = None"
    and size: "length name \<le> 2000" "length (hk_name K) \<le> 2000" "length tok = 32" "length cid = 16"
    and sel: "select_profile hostCaps want = Some sel" and "certFP \<notin> hh_trusted h"
  shows "\<exists>s1. admit K P A nonces mk tok hostCaps False certFP
      (incoming (wire None n (hello_message name cid want) @
         wire None n1 (ctl_message MsgStreamStart (caps_append [] want)) @ rest) e H) h =
    (Rejected HeExpectedPairBegin, s1, h)"
proof -
  let ?m = "ctl_message MsgStreamStart (caps_append [] want)"
  define S where "S = (\<lambda>rest. answered tok hostCaps sel (hello_of name cid want) (incoming rest e (set_local_name (hk_name K) H)))"
  have S: "S b = incoming b e (S [])" for b
    by (simp add: S_def answered_def note_peer_def put_def incoming_def)
  have "\<not> se_closed (S [])" "se_open (S []) = None"
    using con plain by (simp_all add: S_def set_local_name_def Session.connected_def ready_def incoming_def)
  then have "recv (S (wire None n1 ?m @ rest)) = (Inr ?m, S rest)"
    using recv_ok[of 0 None "S []" ?m n1 rest e] by (simp add: chan_ok_def S[of rest] S[of "wire None n1 ?m @ rest"])
  then have "run_host_pairing K P certFP (S (wire None n1 ?m @ rest)) (hh_store h) = (Some HeExpectedPairBegin, S rest, hh_store h)"
    by (simp add: run_host_pairing_def host_pairing_exchange_def Let_def)
  then show ?thesis
    using direct_hello[OF con plain size sel, where h = h and certFP = certFP and P = P and A = A and nonces = nonces and mk = mk
        and n = n and rest = "wire None n1 ?m @ rest" and e = e] assms(9)
    by (simp add: S_def)
qed

section \<open>Concrete hosts\<close>

text \<open>The host's store is the Windows store, here with writes that succeed.\<close>

definition windows_peers :: "windows_store peer_store" where
  "windows_peers = \<lparr>ps_peers = (\<lambda>s. Inr (ws_peers s)), ps_save = ws_save_peer WriteDone, ps_remove = ws_remove_peer WriteDone\<rparr>"

definition demo_peer :: peer_record where
  "demo_peer = \<lparr>pr_id = replicate 16 1, pr_name = [65], pr_secret = [], pr_fingerprint = ''ab'', pr_paired_at = 0\<rparr>"

definition demo_paired :: "windows_store host" where
  "demo_paired = (new_host (new_windows_store (FileHolds \<lparr>ts_identity = [], ts_peers = [demo_peer]\<rparr>)))
     \<lparr>hh_trusted := {''ab''},
      hh_resume := [(replicate 32 7, \<lparr>rs_caps = stereo48 CodecPCMS16LE, rs_format_gen = 1, rs_next_seq = 9, rs_device_id = replicate 16 1\<rparr>)]\<rparr>"

definition demo_secrets :: "(byte, byte) host_secrets" where
  "demo_secrets = \<lparr>hk_crypto = demo_crypto, hk_pin_bytes = [1, 2, 3, 4, 5, 6], hk_ephemeral = None, hk_device_id = replicate 16 2,
     hk_name = [80], hk_now = 0\<rparr>"

lemma demo_select: "select_profile (stereo48 CodecPCMS16LE) (stereo48 CodecOpus) = Some (stereo48 CodecPCMS16LE)"
  by (simp add: select_profile_def stereo48_def no_caps_def Let_def)

lemma demo_plain: "se_open demo_host = None" "se_seal demo_host = None" "ready demo_host"
  "se_peer_id demo_host = replicate 16 0"
  by (simp_all add: demo_host_def new_session_def ready_def)

lemma demo_sizes: "length [65 :: byte] \<le> 2000" "length (hk_name demo_secrets) \<le> 2000" "length (replicate 32 (7 :: byte)) = 32"
  "length (replicate 16 (1 :: byte)) = 16"
  by (simp_all add: demo_secrets_def)


lemma replicate_16: "replicate 16 x = [x, x, x, x, x, x, x, x, x, x, x, x, x, x, x, x]"
  by (simp add: eval_nat_numeral)

lemma demo_unhex: "unhex (trim_space (concat (replicate 16 [48, 49]))) = Some (replicate 16 1)"
proof -
  have "trim_space (concat (replicate 16 [48, 49 :: byte])) = concat (replicate 16 [48, 49])"
    by (rule trim_space_plain) (simp_all add: replicate_16)
  then show ?thesis by (simp add: unhex_digit_def replicate_16)
qed

lemma demo_store:
  "ps_peers windows_peers (hh_store demo_paired) = Inr [demo_peer]"
  "\<exists>t. ps_remove windows_peers i (hh_store demo_paired) = (None, t)"
  "hh_conns demo_paired = []"
  by (simp_all add: windows_peers_def demo_paired_def new_host_def ws_peers_def new_windows_store_def fs_load_def
      ws_remove_peer_def ws_save_def fs_save_def)


theorem registry_listing_witness:
  "let (h2, live2) = registry_run windows_peers [Joins 1 ''k'', Joins 2 ''k'', Leaves 1] (demo_paired, [])
   in map_of live2 2 = Some ''k'' \<and> map_of (hh_conns h2) ''k'' = None"
proof -
  have "hh_conns demo_paired = []" by (simp add: demo_paired_def new_host_def)
  moreover have "registry_run windows_peers [] (demo_paired, []) = (demo_paired, [])" by (simp add: registry_run_def)
  ultimately show ?thesis using registry_listing[of demo_paired windows_peers "[]" demo_paired "[]" 1 2 "''k''"] by simp
qed

theorem forgotten_client_locked_out_witness:
  "\<exists>s1. admit demo_secrets windows_peers demo_aead (\<lambda>_. None) (Inr :: _ \<Rightarrow> _ + codec_config) (replicate 32 7) (stereo48 CodecPCMS16LE) False ''cd''
      (incoming (wire None 0 (hello_message [65] (replicate 16 1) (stereo48 CodecOpus)) @
         wire None 0 (ctl_message MsgStreamStart (caps_append [] (stereo48 CodecOpus))) @ []) EOF demo_host) demo_paired =
    (Rejected HeExpectedPairBegin, s1, demo_paired)"
  by (rule forgotten_client_locked_out[OF demo_connected demo_plain(1,2) demo_sizes demo_select]) (simp add: demo_paired_def)
end
