(* ===== verification/ClientRun.thy ===== *)
theory ClientRun
  imports HostAdmission
begin

text \<open>
  How a client joins a host, the first half of \<^verbatim>\<open>engine/internal/engine/client.go\<close>: its options and
  identity, the registration at the relay, the attempt to resume a stream, the hello, the pairing and the
  request for the stream, up to the loop that reconnects.  Dialling is QUIC and TLS: its outcome is an
  argument.  The states told to the user interface are the texts of the code; how Go prints a duration is
  an argument.
\<close>

section \<open>Options, state and identity\<close>

text \<open>
  \<open>co_pin\<close> is the PIN provider: missing, or what the user enters, which may be an error.
\<close>

record client_options =
  co_host_addr :: bytes
  co_relay_addr :: bytes
  co_host_device_id :: bytes
  co_name :: bytes
  co_trusted :: "string set"
  co_pin :: "bytes option option"
  co_caps :: caps
  co_reconnect :: bool
  co_dial_timeout :: int

datatype client_error =
    CeNoStore
  | CeNoAddress
  | CeNotConnected
  | CeStore store_error
  | CeNoRandom
  | CeNoPinProvider
  | CePinUnavailable
  | CeSession sess_error
  | CeExpectedChallenge u16
  | CeExpectedResult u16
  | CePairing pair_error
  | CeBadHostId
  | CeSealer seal_error
  | CeNoPairedSecret
  | CeBadDeviceId
  | CeDial
  | CeCodec codec_error
  | CeReceiveMedia

definition new_client :: "bool \<Rightarrow> bytes option \<Rightarrow> client_options \<Rightarrow> client_error + client_options" where
  "new_client hasStore hostname opts =
     (if \<not> hasStore then Inl CeNoStore
      else if co_host_addr opts = [] \<and> co_relay_addr opts = [] then Inl CeNoAddress
      else
        let timeout = (if co_dial_timeout opts \<le> 0 then 10 * 1000000000 else co_dial_timeout opts);
            name = (if co_name opts \<noteq> [] then co_name opts
                    else case hostname of
                      None \<Rightarrow> bytes_of_str ''remoteau-client''
                    | Some n \<Rightarrow> if n = [] then bytes_of_str ''remoteau-client'' else n)
        in Inr (opts\<lparr>co_dial_timeout := timeout, co_name := name\<rparr>))"

text \<open>\<open>ci_told\<close> is what \<^verbatim>\<open>OnState\<close> was called with, oldest first.\<close>

record 't client =
  ci_store :: 't
  ci_resume_token :: bytes
  ci_last_seq :: u32
  ci_hello_done :: bool
  ci_told :: "string list"
  ci_paired_fp :: string

definition fresh_client :: "'t \<Rightarrow> 't client" where
  "fresh_client t = \<lparr>ci_store = t, ci_resume_token = replicate 32 0, ci_last_seq = 0, ci_hello_done = False, ci_told = [],
     ci_paired_fp = []\<rparr>"

definition ensure_identity ::
  "('t \<Rightarrow> store_error + 'k option) \<Rightarrow> ('k \<Rightarrow> 't \<Rightarrow> store_error option \<times> 't) \<Rightarrow> 'k option \<Rightarrow> 't \<Rightarrow> (client_error + 'k) \<times> 't" where
  "ensure_identity load save fresh t =
     (case load t of
        Inl e \<Rightarrow> (Inl (CeStore e), t)
      | Inr (Some k) \<Rightarrow> (Inr k, t)
      | Inr None \<Rightarrow>
          (case fresh of
             None \<Rightarrow> (Inl CeNoRandom, t)
           | Some k \<Rightarrow> (case save k t of (Some e, t1) \<Rightarrow> (Inl (CeStore e), t1) | (None, t1) \<Rightarrow> (Inr k, t1))))"

definition knows_host :: "'t peer_store \<Rightarrow> bytes \<Rightarrow> 't \<Rightarrow> bool" where
  "knows_host P i t = (case ps_peers P t of Inl _ \<Rightarrow> False | Inr peers \<Rightarrow> list_ex (\<lambda>p. pr_id p = i) peers)"

section \<open>States and requests\<close>

definition receiver_state_for_local :: "string \<Rightarrow> u8 option" where
  "receiver_state_for_local s =
     (if prefix ''reconnecting'' s then Some ReceiverStateReconnecting
      else if s = ''connecting'' then Some ReceiverStateConnecting
      else if s = ''streaming'' then Some ReceiverStatePlaying
      else if s = ''idle'' \<or> s = ''stopped'' then Some ReceiverStateStopped
      else None)"

definition client_send :: "message \<Rightarrow> session option \<Rightarrow> client_error option \<times> session option" where
  "client_send m so =
     (case so of
        None \<Rightarrow> (Some CeNotConnected, None)
      | Some s \<Rightarrow> (case send m s of (e, s1) \<Rightarrow> (map_option CeSession e, Some s1)))"

definition set_quality_mode :: "u8 \<Rightarrow> session option \<Rightarrow> client_error option \<times> session option" where
  "set_quality_mode mode = client_send (ctl_message MsgQualityMode (append_quality_mode [] mode))"

definition set_source_request :: "u8 \<Rightarrow> bytes \<Rightarrow> session option \<Rightarrow> client_error option \<times> session option" where
  "set_source_request kind name =
     client_send (ctl_message MsgSetSource (append_set_source [] \<lparr>ss_kind = kind, ss_name = name\<rparr>))"

definition send_receiver_state :: "u8 \<Rightarrow> session option \<Rightarrow> client_error option \<times> session option" where
  "send_receiver_state st = client_send (ctl_message MsgReceiverState (append_receiver_state [] st))"

definition set_state :: "string \<Rightarrow> session option \<Rightarrow> 't client \<Rightarrow> session option \<times> 't client" where
  "set_state st so c =
     (let c1 = c\<lparr>ci_told := ci_told c @ [st]\<rparr> in
      case receiver_state_for_local st of
        None \<Rightarrow> (so, c1)
      | Some rs \<Rightarrow> if so = None \<or> \<not> ci_hello_done c then (so, c1) else (snd (send_receiver_state rs so), c1))"

section \<open>The relay\<close>

definition relay_sealer :: "'t peer_store \<Rightarrow> aead \<Rightarrow> bytes \<Rightarrow> 't \<Rightarrow> client_error + bytes" where
  "relay_sealer P A hostID t =
     (case unhex (trim_space hostID) of
        None \<Rightarrow> Inl CeBadHostId
      | Some i \<Rightarrow>
          if length i \<noteq> 16 then Inl CeBadHostId
          else case ps_peers P t of
            Inl e \<Rightarrow> Inl (CeStore e)
          | Inr peers \<Rightarrow>
              (case find (\<lambda>p. pr_id p = i) peers of
                 None \<Rightarrow> Inl CeNoPairedSecret
               | Some p \<Rightarrow> (case new_sealer A (pr_secret p) of Inl e \<Rightarrow> Inl (CeSealer e) | Inr key \<Rightarrow> Inr key)))"

text \<open>The bytes \<^verbatim>\<open>dialRelay\<close> writes on the registration stream.\<close>

definition relay_registration :: "u8 \<Rightarrow> bytes \<Rightarrow> client_error + bytes" where
  "relay_registration role targetID =
     (let i = trim_space targetID in
      if length i = 0 \<or> length i > 64 then Inl CeBadDeviceId
      else Inr ([role, word_of_nat (length i div 256), word_of_nat (length i)] @ i))"

section \<open>Resuming\<close>

text \<open>
  A receive with a deadline.  When the deadline passes, its goroutine goes on reading: \<open>TimesOut True\<close>
  is the schedule in which that goroutine, and not the next receive, gets the next message.
\<close>

datatype wait = Arrives | TimesOut bool

definition recv_within :: "wait \<Rightarrow> session \<Rightarrow> (sess_error + message) \<times> session" where
  "recv_within w s =
     (case w of
        Arrives \<Rightarrow> recv s
      | TimesOut swallows \<Rightarrow>
          (Inl (SeCtl (CtlIO NetTimeout)),
           if swallows then (case read_message (se_in s) of Inl _ \<Rightarrow> s | Inr (_, r) \<Rightarrow> s\<lparr>se_in := r\<rparr>) else s))"

definition resume_message :: "'t client \<Rightarrow> message" where
  "resume_message c = ctl_message MsgResume (ci_resume_token c @ put_le 4 (ci_last_seq c))"

definition client_try_resume :: "wait \<Rightarrow> session \<Rightarrow> 't client \<Rightarrow> stream_ack option \<times> session \<times> 't client" where
  "client_try_resume w s c =
     (if ci_resume_token c = replicate 32 0 then (None, s, c)
      else case send (resume_message c) s of
        (Some _, s1) \<Rightarrow> (None, s1, c)
      | (None, s1) \<Rightarrow>
          (case recv_within w s1 of
             (Inl _, s2) \<Rightarrow> (None, s2, c)
           | (Inr m, s2) \<Rightarrow>
               if msg_type m \<noteq> MsgResumeOK then (None, s2, c)
               else if length (msg_payload m) < 23 then (None, s2, c)
               else (case decode_caps (drop 8 (msg_payload m)) of
                   Inl _ \<Rightarrow> (None, s2, c)
                 | Inr caps \<Rightarrow>
                     (Some \<lparr>sa_active = caps, sa_format_gen = get_le (slice 4 8 (msg_payload m))\<rparr>, s2,
                      c\<lparr>ci_last_seq := get_le (take 4 (msg_payload m))\<rparr>))))"

section \<open>Pairing\<close>

text \<open>\<open>cx_ephemeral\<close> and \<open>cx_nonce\<close> are what the random source yields; both may fail.\<close>

record ('k, 'p) client_secrets =
  cx_crypto :: "('k, 'p) crypto"
  cx_ephemeral :: "('k \<times> bytes) option"
  cx_nonce :: "bytes option"
  cx_device_id :: bytes
  cx_now :: int

text \<open>The host's name and id and the secret, or the error.\<close>

definition client_pairing_exchange ::
  "('k, 'p) client_secrets \<Rightarrow> client_options \<Rightarrow> session \<Rightarrow> (client_error + bytes \<times> bytes \<times> bytes) \<times> session" where
  "client_pairing_exchange K opts s =
     (let C = cx_crypto K in
      case co_pin opts of
        None \<Rightarrow> (Inl CeNoPinProvider, s)
      | Some entered \<Rightarrow>
          (case (cx_ephemeral K, cx_nonce K) of
             (None, _) \<Rightarrow> (Inl CeNoRandom, s)
           | (_, None) \<Rightarrow> (Inl CeNoRandom, s)
           | (Some (key, salt), Some nonce) \<Rightarrow>
               (case begin_message nonce (new_exchange RoleReceiver [] (co_name opts) key salt) of
                  (Inl e, _) \<Rightarrow> (Inl (CePairing e), s)
                | (Inr begin, ex0) \<Rightarrow>
                    (case send (ctl_message MsgPairBegin begin) s of
                       (Some e, s1) \<Rightarrow> (Inl (CeSession e), s1)
                     | (None, s1) \<Rightarrow>
                         (case entered of
                            None \<Rightarrow> (Inl CePinUnavailable, s1)
                          | Some pin \<Rightarrow>
                              (case recv s1 of
                                 (Inl e, s2) \<Rightarrow> (Inl (CeSession e), s2)
                               | (Inr challenge, s2) \<Rightarrow>
                                   if msg_type challenge \<noteq> MsgPairChallenge
                                   then (Inl (CeExpectedChallenge (msg_type challenge)), s2)
                                   else (case on_challenge C (msg_payload challenge) (set_pin pin ex0) of
                                       (Inl e, _) \<Rightarrow> (Inl (CePairing e), s2)
                                     | (Inr _, ex1) \<Rightarrow>
                                         (case confirm_message C ex1 of
                                            (Inl e, _) \<Rightarrow> (Inl (CePairing e), s2)
                                          | (Inr confirm, ex2) \<Rightarrow>
                                              (case send (ctl_message MsgPairConfirm confirm) s2 of
                                                 (Some e, s3) \<Rightarrow> (Inl (CeSession e), s3)
                                               | (None, s3) \<Rightarrow>
                                                   (case recv s3 of
                                                      (Inl e, s4) \<Rightarrow> (Inl (CeSession e), s4)
                                                    | (Inr result, s4) \<Rightarrow>
                                                        if msg_type result \<noteq> MsgPairResult
                                                        then (Inl (CeExpectedResult (msg_type result)), s4)
                                                        else (case on_result C (msg_payload result) ex2 of
                                                            (Inl e, _) \<Rightarrow> (Inl (CePairing e), s4)
                                                          | (Inr (name, i), ex3) \<Rightarrow>
                                                              (Inr (name, i, ex_secret ex3), s4))))))))))))"

definition client_pairing ::
  "('k, 'p) client_secrets \<Rightarrow> 't peer_store \<Rightarrow> client_options \<Rightarrow> string \<Rightarrow> session \<Rightarrow> 't \<Rightarrow>
     client_error option \<times> session \<times> 't" where
  "client_pairing K P opts hostFP s t =
     (case client_pairing_exchange K opts s of
        (Inl e, s1) \<Rightarrow> (Some e, s1, t)
      | (Inr (name, i, secret), s1) \<Rightarrow>
          (case ps_save P \<lparr>pr_id = i, pr_name = name, pr_secret = secret, pr_fingerprint = hostFP,
                           pr_paired_at = cx_now K\<rparr> t of
             (e, t1) \<Rightarrow> (map_option CeStore e, s1, t1)))"

section \<open>One connection\<close>

definition wanted_caps :: "client_options \<Rightarrow> caps" where
  "wanted_caps opts =
     (if c_sample_rate (co_caps opts) = 0
      then \<lparr>c_codec = CodecPCMS16LE, c_sample_rate = 48000, c_channels = 2, c_frame_ms = 5, c_opus_bitrate = 0, c_fec = 0,
            c_dtx = 0, c_complexity = 0, c_app_id = 0\<rparr>
      else co_caps opts)"

text \<open>The first flag of the result tells whether the stream was resumed.\<close>

definition client_hello ::
  "('k, 'p) client_secrets \<Rightarrow> 't peer_store \<Rightarrow> client_options \<Rightarrow> string \<Rightarrow> session \<Rightarrow> 't client \<Rightarrow>
     (client_error + stream_ack) \<times> session \<times> 't client" where
  "client_hello K P opts hostFP s c =
     (case exchange_hellos [] (co_name opts) (wanted_caps opts) s of
        (Inl e, s1) \<Rightarrow> (Inl (CeSession e), s1, c)
      | (Inr hello, s1) \<Rightarrow>
          let c1 = c\<lparr>ci_hello_done := True, ci_resume_token := se_resume_token s1\<rparr>;
              (paired, s2, c2) = (if knows_host P (h_device_id hello) (ci_store c1) then (None, s1, c1)
                 else (case client_pairing K P opts hostFP s1 (ci_store c1) of
                     (Some e, s2, t) \<Rightarrow> (Some e, s2, c1\<lparr>ci_store := t\<rparr>)
                   | (None, s2, t) \<Rightarrow>
                       (None, s2, c1\<lparr>ci_store := t, ci_paired_fp := (if hostFP = [] then ci_paired_fp c1 else hostFP)\<rparr>)))
          in (case paired of
                Some e \<Rightarrow> (Inl e, s2, c2)
              | None \<Rightarrow>
                  (case request_stream (wanted_caps opts) s2 of
                     (Inl e, s3) \<Rightarrow> (Inl (CeSession e), s3, c2)
                   | (Inr ack, s3) \<Rightarrow> (Inr ack, s3, c2))))"

definition client_handshake ::
  "('k, 'p) client_secrets \<Rightarrow> 't peer_store \<Rightarrow> client_options \<Rightarrow> string \<Rightarrow> wait \<Rightarrow> session \<Rightarrow> 't client \<Rightarrow>
     (client_error + bool \<times> stream_ack) \<times> session \<times> 't client" where
  "client_handshake K P opts hostFP w s c =
     (case client_try_resume w s c of
        (Some ack, s1, c1) \<Rightarrow> (Inr (True, ack), s1, c1\<lparr>ci_hello_done := True\<rparr>)
      | (None, s1, c1) \<Rightarrow>
          (case client_hello K P opts hostFP s1 c1 of
             (Inl e, s2, c2) \<Rightarrow> (Inl e, s2, c2)
           | (Inr ack, s2, c2) \<Rightarrow> (Inr (False, ack), s2, c2)))"

text \<open>
  \<^verbatim>\<open>runOnce\<close> up to the running stream.  \<open>dialled\<close> is the connection's two directions, or nothing when it
  could not be made; the decoder comes from \<open>mk\<close>.
\<close>

definition begin_run ::
  "('k, 'p) client_secrets \<Rightarrow> 't peer_store \<Rightarrow> aead \<Rightarrow> (nat \<Rightarrow> bytes option) \<Rightarrow> (codec_config \<Rightarrow> codec_error + 'cd) \<Rightarrow>
     client_options \<Rightarrow> (reader \<times> writer) option \<Rightarrow> string \<Rightarrow> wait \<Rightarrow> 't client \<Rightarrow>
     (client_error + stream_ack \<times> 'cd) \<times> session option \<times> 't client" where
  "begin_run K P A nonces mk opts dialled hostFP w c =
     (let relayed = (co_relay_addr opts \<noteq> []) in
      case (if relayed then map_sum id Some (relay_sealer P A (co_host_device_id opts) (ci_store c)) else Inr None) of
        Inl e \<Rightarrow> (Inl e, None, c)
      | Inr key \<Rightarrow>
          (case dialled of
             None \<Rightarrow> (Inl CeDial, None, c)
           | Some (r, w') \<Rightarrow>
               let s = new_session RoleClient (cx_device_id K) r w';
                   s1 = (case key of None \<Rightarrow> s | Some k \<Rightarrow> set_sealer (seal_fun A nonces k) (open_fun A k) s);
                   (so, c1) = set_state ''connecting'' (Some s1) (c\<lparr>ci_hello_done := False\<rparr>)
               in (case client_handshake K P opts hostFP w (the so) c1 of
                     (Inl e, s2, c2) \<Rightarrow> (Inl e, Some s2, c2)
                   | (Inr (_, ack), s2, c2) \<Rightarrow>
                       (case mk (caps_to_codec_config (sa_active ack)) of
                          Inl e \<Rightarrow> (Inl (CeCodec e), Some s2, c2)
                        | Inr cd \<Rightarrow> (case set_state ''streaming'' (Some s2) c2 of
                            (s3, c3) \<Rightarrow> (Inr (ack, cd), s3, c3))))))"

text \<open>
  The end of \<^verbatim>\<open>runOnce\<close>: \<open>ended\<close> tells that the context ended, \<open>mediaErr\<close> is the media loop's error
  other than that.  The session is closed afterwards.
\<close>

definition end_run :: "bool \<Rightarrow> client_error option \<Rightarrow> session \<Rightarrow> client_error option \<times> session" where
  "end_run ended mediaErr s =
     (let s1 = (if ended then s else snd (send (ctl_message MsgStreamStop []) s)) in (mediaErr, close_session s1))"

definition stop_client :: "session option \<Rightarrow> session option" where
  "stop_client so = map_option (\<lambda>s. close_session (snd (send (ctl_message MsgStreamStop []) s))) so"

section \<open>Reconnecting\<close>

text \<open>
  One attempt: its error if any, how long it took, and what ends the wait after it.  The result is the
  error, if \<^verbatim>\<open>Run\<close> ends with one, the delays waited and the states told; a list that is used up
  means the client still runs.
\<close>

datatype wait_end = WaitOver | CtxDone | Stopped

datatype run_end = RunEnded "client_error option" | RunCancelled | StillRunning

definition retry_delay :: "int \<Rightarrow> int \<Rightarrow> int" where
  "retry_delay took backoff = (if took \<ge> 10 * 1000000000 then 250 * 1000000 else backoff)"

definition next_backoff :: "int \<Rightarrow> int" where
  "next_backoff b = (if b < 5 * 1000000000 then min (b * 2) (5 * 1000000000) else b)"

definition retry_state :: "(int \<Rightarrow> string) \<Rightarrow> int \<Rightarrow> string" where
  "retry_state showDelay d = ''reconnecting ('' @ showDelay d @ '')''"

fun run_client ::
  "(int \<Rightarrow> string) \<Rightarrow> int \<Rightarrow> (client_error option \<times> int \<times> bool \<times> wait_end) list \<Rightarrow> run_end \<times> int list \<times> string list" where
  "run_client showDelay backoff [] = (StillRunning, [], [])"
| "run_client showDelay backoff ((err, took, ended, we) # rest) =
     (case err of
        None \<Rightarrow> (RunEnded None, [], [])
      | Some e \<Rightarrow>
          if ended then (RunCancelled, [], [])
          else if e = CePairing PinMismatch then (RunEnded (Some e), [], [])
          else
            let delay = retry_delay took backoff; told = retry_state showDelay delay
            in case we of
                 CtxDone \<Rightarrow> (RunCancelled, [delay], [told])
               | Stopped \<Rightarrow> (RunEnded None, [delay], [told])
               | WaitOver \<Rightarrow>
                   (let (r, ds, ts) = run_client showDelay (next_backoff delay) rest in (r, delay # ds, told # ts)))"

definition client_main ::
  "(int \<Rightarrow> string) \<Rightarrow> bool \<Rightarrow> (client_error option \<times> int \<times> bool \<times> wait_end) list \<Rightarrow> run_end \<times> int list \<times> string list" where
  "client_main showDelay reconnect attempts =
     (if reconnect then run_client showDelay (250 * 1000000) attempts
      else case attempts of [] \<Rightarrow> (StillRunning, [], []) | (err, _) # _ \<Rightarrow> (RunEnded err, [], []))"

section \<open>Both ends of the pairing\<close>

lemma connected_put:
  assumes "Session.connected k C H"
  shows "Session.connected k (put m C) H" "Session.connected k C (put m H)" "Session.connected k (incoming b e C) H"
    "Session.connected k C (incoming b e H)"
  using assms by (simp_all add: Session.connected_def)

lemma connected_channel:
  assumes con: "Session.connected k C H" and len: "length (msg_payload m) \<le> 2048"
  shows "send m (incoming b e C) = (None, incoming b e (put m C))" "send m (incoming b e H) = (None, incoming b e (put m H))"
    "recv (incoming (wire (se_seal C) n m @ b) e H) = (Inr m, incoming b e H)"
    "recv (incoming (wire (se_seal H) n m @ b) e C) = (Inr m, incoming b e C)"
proof -
  have r: "ready C" "ready H" "\<not> se_closed C" "\<not> se_closed H" "chan_ok k (se_seal C) (se_open H)" "chan_ok k (se_seal H) (se_open C)"
    "length (msg_payload m) + k \<le> 4096"
    using con len by (auto simp: Session.connected_def ready_def)
  show "send m (incoming b e C) = (None, incoming b e (put m C))" "send m (incoming b e H) = (None, incoming b e (put m H))"
    using send_ok[of "incoming b e C" k _ m] send_ok[of "incoming b e H" k _ m] r by (auto simp: put_incoming)
  show "recv (incoming (wire (se_seal C) n m @ b) e H) = (Inr m, incoming b e H)"
    "recv (incoming (wire (se_seal H) n m @ b) e C) = (Inr m, incoming b e C)"
    using recv_ok r by auto
qed

text \<open>
  \<open>delivered C C' b\<close> is what the peer of \<open>C\<close> reads when everything sent up to \<open>C'\<close> arrives, then \<open>b\<close>.
\<close>

lemma sent_incoming: "sent C (incoming b e D) = sent C D" "sent (incoming b e C) D = sent C D"
  by (simp_all add: sent_def)

lemma sent_put: "sent C (put m C) = wire (se_seal C) (se_sealed C) m"
  "sent C (put m2 (put m1 C)) = wire (se_seal C) (se_sealed C) m1 @ wire (se_seal C) (bump (se_seal C) (se_sealed C) m1) m2"
  by (simp_all add: sent_def)


section \<open>The registration\<close>

text \<open>What \<^verbatim>\<open>dialRelay\<close> writes is what the relay's \<^verbatim>\<open>handleConn\<close> reads.\<close>

lemma registration_read:
  assumes "relay_registration role i = Inr b" "role = roleHost \<or> role = rolePhone"
  shows "read_registration \<lparr>r_data = b @ rest, r_end = e\<rparr> = Some (role, trim_space (trim_space i))"
proof -
  let ?t = "trim_space i"
  let ?head = "[role, word_of_nat (length ?t div 256), word_of_nat (length ?t)] :: bytes"
  have l: "length ?t \<noteq> 0" "length ?t \<le> 64" and b: "b = ?head @ ?t"
    using assms(1) by (auto simp: relay_registration_def Let_def split: if_splits)
  have d: "length ?t div 256 = 0" "unat (word_of_nat (length ?t) :: byte) = length ?t"
    using l(2) by (simp_all add: unat_of_nat)
  have h: "read_full 3 \<lparr>r_data = ?head @ (?t @ rest), r_end = e\<rparr> = Inr (?head, \<lparr>r_data = ?t @ rest, r_end = e\<rparr>)"
    by (simp add: read_full_def)
  have t: "read_full (length ?t) \<lparr>r_data = ?t @ rest, r_end = e\<rparr> = Inr (?t, \<lparr>r_data = rest, r_end = e\<rparr>)"
    by (simp add: read_full_def)
  show ?thesis
    using assms(2) l t h by (simp add: read_registration_def b d Let_def)
qed

section \<open>Resuming a stream\<close>

lemma incoming_id: "incoming (r_data (se_in s)) (r_end (se_in s)) s = s"
  by (simp add: incoming_def)

lemma length_resume: "length (ci_resume_token c) = 32 \<Longrightarrow> length (msg_payload (resume_message c)) = 36"
  by (simp add: resume_message_def)

lemma resume_ok_decoded:
  "decode_caps (drop 8 (resume_ok_payload r)) = Inr (rs_caps r)" "get_le (take 4 (resume_ok_payload r)) = rs_next_seq r"
  "get_le (slice 4 8 (resume_ok_payload r)) = rs_format_gen r" "length (resume_ok_payload r) = 23"
proof -
  have p: "resume_ok_payload r = put_le 4 (rs_next_seq r) @ put_le 4 (rs_format_gen r) @ caps_append [] (rs_caps r)"
    by (simp add: resume_ok_payload_def caps_append_def)
  show "decode_caps (drop 8 (resume_ok_payload r)) = Inr (rs_caps r)" using decode_caps_enc[of "rs_caps r" "[]"] by (simp add: p)
  show "get_le (take 4 (resume_ok_payload r)) = rs_next_seq r" by (simp add: p get_put_le)
  show "get_le (slice 4 8 (resume_ok_payload r)) = rs_format_gen r" by (simp add: p slice_def get_put_le)
  show "length (resume_ok_payload r) = 23" by (simp add: p)
qed

text \<open>
  C23. Resuming ends in agreement, with or without the relay envelope.  When the host holds the client's
  token and can make an encoder, the client resumes with exactly the format, the generation and the next sequence
  number the host kept; when the host does not know the token, it sends nothing at all.
\<close>

theorem resume_agreement:
  assumes con: "Session.connected k C H" and tok: "length (ci_resume_token c) = 32" "ci_resume_token c \<noteq> replicate 32 0"
    and mk: "\<And>cf. \<exists>cd. mk cf = Inr cd"
  shows "let C1 = snd (send (resume_message c) C);
      (first, H1) = recv (incoming (sent C C1 @ ra) e H);
      (hostRes, H2) = try_resume mk (msg_payload (case first of Inr m \<Rightarrow> m)) H1 h;
      (ack, C2, c2) = client_try_resume Arrives (incoming (sent H H2 @ rb) e2 C) c
    in first = Inr (resume_message c) \<and>
      (case map_of (hh_resume h) (ci_resume_token c) of
         None \<Rightarrow> hostRes = None \<and> sent H H2 = []
       | Some r \<Rightarrow> (\<exists>cd. hostRes = Some (r, cd)) \<and>
           ack = Some \<lparr>sa_active = rs_caps r, sa_format_gen = rs_format_gen r\<rparr> \<and> c2 = c\<lparr>ci_last_seq := rs_next_seq r\<rparr>)"
proof -
  let ?m = "resume_message c"
  have small: "length (msg_payload ?m) \<le> 2048" using length_resume[OF tok(1)] by simp
  note ch = connected_channel[OF con small] connected_channel[OF connected_put(1)[OF con]]
  have C1: "send ?m C = (None, put ?m C)"
    using ch(1)[of "r_data (se_in C)" "r_end (se_in C)"] by (simp add: incoming_id put_incoming[symmetric])
  have take: "take 32 (msg_payload ?m) = ci_resume_token c" "\<not> length (msg_payload ?m) < 36"
    using tok(1) by (simp_all add: resume_message_def)
  show ?thesis
  proof (cases "map_of (hh_resume h) (ci_resume_token c)")
    case None
    then show ?thesis by (simp add: C1 sent_put ch take try_resume_def sent_incoming prod.case_eq_if) (simp add: sent_def)
  next
    case (Some r)
    let ?ok = "ctl_message MsgResumeOK (resume_ok_payload r)"
    obtain cd where cd: "mk (codec_config_from_caps (rs_caps r)) = Inr cd" using mk by blast
    have s: "length (msg_payload ?ok) \<le> 2048" by (simp add: resume_ok_decoded)
    have H2: "try_resume mk (msg_payload ?m) (incoming ra e H) h = (Some (r, cd), incoming ra e (put ?ok H))"
      using Some take cd connected_channel(2)[OF con s] by (simp add: try_resume_def)
    have C2: "client_try_resume Arrives (incoming (wire (se_seal H) (se_sealed H) ?ok @ rb) e2 C) c =
      (Some \<lparr>sa_active = rs_caps r, sa_format_gen = rs_format_gen r\<rparr>, incoming rb e2 (put ?m C), c\<lparr>ci_last_seq := rs_next_seq r\<rparr>)"
      using tok(2) s by (simp add: client_try_resume_def recv_within_def ch resume_ok_decoded)
    show ?thesis by (simp add: C1 sent_put ch(3) H2 sent_incoming C2 Some)
  qed
qed

section \<open>A token the host no longer knows\<close>

lemma swallowed: "recv s = (Inr m, s1) \<Longrightarrow> recv_within (TimesOut True) s = (Inl (SeCtl (CtlIO NetTimeout)), s1)"
  by (auto simp: recv_def recv_within_def Let_def split: if_splits sum.splits prod.splits option.splits)

text \<open>
  C13. A host that no longer knows the client's resume token (it was restarted, say) does not answer the
  RESUME and waits for the hello.  The client gives up its wait after a second and a half and sends its hello,
  and the host, if it trusts the client, lets it in; but in the schedule in which the receive given up takes the host's hello, the
  client sees the HELLO_OK in its place and ends the attempt with an unexpected message.  Nothing of
  the client has changed then, the token least of all, so the next attempt starts from the same state.
\<close>

theorem stale_token_stuck:
  assumes con: "Session.connected 0 C H" and plain: "se_open H = None" "se_seal H = None"
    and size: "length (co_name opts) \<le> 2000" "length (hk_name K) \<le> 2000" "length tok = 32"
    and token: "length (ci_resume_token c) = 32" "ci_resume_token c \<noteq> replicate 32 0"
      "map_of (hh_resume h) (ci_resume_token c) = None"
    and trusted: "certFP \<in> hh_trusted h" and sel: "select_profile hostCaps (wanted_caps opts) = Some sel"
  shows "\<exists>H' C'. admit K P A nonces mk tok hostCaps False certFP (incoming (sent C C' @ ra) e H) h =
      (Admitted certFP (hello_of (co_name opts) (se_local_id C) (wanted_caps opts)), H', h) \<and>
    client_handshake X Q opts hostFP (TimesOut True) (incoming (sent H H' @ rb) e2 C) c =
      (Inl (CeSession (SeUnexpected MsgHelloOK)), C', c)"
proof -
  let ?R = "resume_message c" and ?h = "hello_message (co_name opts) (se_local_id C) (wanted_caps opts)"
  let ?H = "set_local_name (hk_name K) H"
  let ?hello = "hello_of (co_name opts) (se_local_id C) (wanted_caps opts)"
  let ?HM = "hello_message (hk_name K) (se_local_id H) hostCaps"
  let ?OK = "ctl_message MsgHelloOK (append_hello_ok [] \<lparr>ho_profile = sel, ho_resume_token = tok\<rparr>)"
  have c0: "length (se_local_id C) = 16" "length (se_local_id H) = 16" "se_seal C = None" "se_open C = None"
    using con plain by (auto simp: Session.connected_def chan_ok_def split: option.splits)
  have sl: "set_local_name (hk_name K) (incoming b e H) = incoming b e ?H" for b by (simp add: set_local_name_def incoming_def)
  have conH: "Session.connected 0 C ?H" using con by (simp add: Session.connected_def set_local_name_def ready_def)
  have small: "length (msg_payload ?R) \<le> 2048" "length (msg_payload ?h) \<le> 2048" "length (msg_payload ?HM) \<le> 2048"
    "length (msg_payload ?OK) \<le> 2048"
    using length_resume[OF token(1)] size c0 by (simp_all add: hello_message_eq)
  note chH = connected_channel[OF conH]
  define H' where "H' = answered tok hostCaps sel ?hello (incoming ra e ?H)"
  define C' where "C' = incoming rb e2 (put ?h (put ?R C))"
  have wC: "sent C C' = wire None (se_sealed C) ?R @ wire None (bump None (se_sealed C) ?R) ?h"
    by (simp add: C'_def sent_incoming sent_put c0)
  obtain n1 n2 where wH: "sent H H' = wire None n1 ?HM @ wire None n2 ?OK"
    using plain by (simp add: H'_def answered_def sent_def note_peer_def set_local_name_def)
  have tr: "try_resume mk (msg_payload ?R) s h = (None, s)" for s
    using token by (simp add: try_resume_def resume_message_def)
  have comp: "complete_hello tok ?h hostCaps (incoming ra e ?H) = (Inr ?hello, H')"
    using complete_hello_eq[OF connected_put(4)[OF conH, of ra e] _ size(3), of "append_hello [] ?hello" ?hello hostCaps] size sel
      decode_hello_of[OF c0(1), of "co_name opts" "wanted_caps opts"]
    by (simp add: hello_message_eq H'_def answered_def Let_def)
  have t: "msg_type ?R = MsgResume" "msg_type ?h = MsgHello" "msg_type ?OK = MsgHelloOK"
    by (simp_all add: resume_message_def hello_message_eq)
  have "admit K P A nonces mk tok hostCaps False certFP (incoming (sent C C' @ ra) e H) h = (Admitted certFP ?hello, H', h)"
    using chH(3) small trusted
    by (simp add: admit_def identify_def sl wC c0 skip_receiver_states.simps t tr admit_hello_def comp)
  moreover have "client_handshake X Q opts hostFP (TimesOut True) (incoming (sent H H' @ rb) e2 C) c =
      (Inl (CeSession (SeUnexpected MsgHelloOK)), C', c)"
  proof -
    note cC = connected_channel[OF con] connected_channel[OF connected_put(1)[OF con]]
      connected_channel[OF connected_put(1)[OF connected_put(1)[OF con]]]
    have sw: "recv_within (TimesOut True) (incoming (wire None n1 ?HM @ b) e2 (put ?R C)) =
        (Inl (SeCtl (CtlIO NetTimeout)), incoming b e2 (put ?R C))" for b
      by (rule swallowed) (use cC(8) small plain in simp)
    have rs: "client_try_resume (TimesOut True) (incoming (sent H H' @ rb) e2 C) c =
        (None, incoming (wire None n2 ?OK @ rb) e2 (put ?R C), c)"
      using token(2) cC(1)[OF small(1)] sw by (simp add: client_try_resume_def wH)
    have "exchange_hellos [] (co_name opts) (wanted_caps opts) (incoming (wire None n2 ?OK @ rb) e2 (put ?R C)) =
        (Inl (SeUnexpected MsgHelloOK), C')"
      using cC(5)[OF small(2)] cC(12) small plain con
      by (simp add: exchange_hellos_def send_hello_def C'_def await_hello_def Session.connected_def)
    then show ?thesis by (simp add: client_handshake_def rs client_hello_def)
  qed
  ultimately show ?thesis by blast
qed

section \<open>Reconnecting\<close>

text \<open>
  A client that reconnects gives up only on the error for a wrong code; every wait is between a quarter
  of a second and five seconds, twice the last one or the shortest again, and each is told as a state
  that reaches the host as \<^verbatim>\<open>reconnecting\<close>.
\<close>

lemma run_client_outcome:
  assumes "run_client showDelay backoff attempts = (r, ds, told)" "250000000 \<le> backoff" "backoff \<le> 5000000000"
  shows "(\<forall>e. r = RunEnded (Some e) \<longrightarrow> e = CePairing PinMismatch) \<and> (\<forall>d \<in> set ds. 250000000 \<le> d \<and> d \<le> 5000000000) \<and>
    length told = length ds \<and> (\<forall>t \<in> set told. receiver_state_for_local t = Some ReceiverStateReconnecting) \<and>
    length ds \<le> length attempts"
  using assms
proof (induction showDelay backoff attempts arbitrary: r ds told rule: run_client.induct)
  case (1 sd b)
  then show ?case by simp
next
  case (2 sd b err took ended we rest)
  show ?case
  proof (cases "err = None \<or> ended \<or> err = Some (CePairing PinMismatch)")
    case True
    then show ?thesis using 2(2) by (auto split: if_splits option.splits)
  next
    case False
    then obtain e where e: "err = Some e" "\<not> ended" "e \<noteq> CePairing PinMismatch" by auto
    have d: "250000000 \<le> retry_delay took b \<and> retry_delay took b \<le> 5000000000"
      "250000000 \<le> next_backoff (retry_delay took b) \<and> next_backoff (retry_delay took b) \<le> 5000000000"
      using 2(3,4) by (auto simp: retry_delay_def next_backoff_def)
    have t: "receiver_state_for_local (retry_state sd x) = Some ReceiverStateReconnecting" for x
      by (simp add: receiver_state_for_local_def retry_state_def)
    obtain r1 ds1 told1 where rest: "run_client sd (next_backoff (retry_delay took b)) rest = (r1, ds1, told1)" by (metis prod_cases3)
    have IH: "(\<forall>e. r1 = RunEnded (Some e) \<longrightarrow> e = CePairing PinMismatch) \<and> (\<forall>d \<in> set ds1. 250000000 \<le> d \<and> d \<le> 5000000000) \<and>
      length told1 = length ds1 \<and> (\<forall>t \<in> set told1. receiver_state_for_local t = Some ReceiverStateReconnecting) \<and>
      length ds1 \<le> length rest" if "we = WaitOver"
      by (rule 2(1)[OF e(1) _ e(3) refl refl that]) (use e rest d in simp_all)
    have eq: "run_client sd b ((err, took, ended, we) # rest) = (case we of
        CtxDone \<Rightarrow> (RunCancelled, [retry_delay took b], [retry_state sd (retry_delay took b)])
      | Stopped \<Rightarrow> (RunEnded None, [retry_delay took b], [retry_state sd (retry_delay took b)])
      | WaitOver \<Rightarrow> (r1, retry_delay took b # ds1, retry_state sd (retry_delay took b) # told1))"
      using e rest by (simp add: Let_def split: wait_end.split)
    show ?thesis
    proof (cases we)
      case WaitOver
      then show ?thesis using 2(2)[unfolded eq] IH d t by auto
    qed (use 2(2)[unfolded eq] d t in auto)
  qed
qed

section \<open>Concrete clients\<close>

definition demo_join :: "(byte, byte) client_secrets" where
  "demo_join = \<lparr>cx_crypto = demo_crypto, cx_ephemeral = Some (5, []), cx_nonce = Some (replicate 16 1),
     cx_device_id = replicate 16 1, cx_now = 0\<rparr>"

definition demo_options :: "bytes \<Rightarrow> client_options" where
  "demo_options pin = \<lparr>co_host_addr = [104], co_relay_addr = [], co_host_device_id = [], co_name = [65], co_trusted = {},
     co_pin = Some (Some pin), co_caps = stereo48 CodecPCMS16LE, co_reconnect = True, co_dial_timeout = 10\<rparr>"

definition demo_pairing_host :: "(byte, byte) host_secrets" where
  "demo_pairing_host = demo_secrets\<lparr>hk_ephemeral := Some (7, replicate 16 2)\<rparr>"


definition demo_resuming :: "unit client" where
  "demo_resuming = (fresh_client ())\<lparr>ci_resume_token := replicate 32 7, ci_last_seq := 3\<rparr>"

theorem resume_agreement_witness:
  "let C1 = snd (send (resume_message demo_resuming) demo_client);
      (first, H1) = recv (incoming (sent demo_client C1 @ []) EOF demo_host);
      (hostRes, H2) = try_resume (Inr :: codec_config \<Rightarrow> codec_error + codec_config) (msg_payload (case first of Inr m \<Rightarrow> m)) H1 demo_paired;
      (ack, C2, c2) = client_try_resume Arrives (incoming (sent demo_host H2 @ []) EOF demo_client) demo_resuming
    in ack = Some \<lparr>sa_active = stereo48 CodecPCMS16LE, sa_format_gen = 1\<rparr> \<and> ci_last_seq c2 = 9"
proof -
  have t: "length (ci_resume_token demo_resuming) = 32" "ci_resume_token demo_resuming = replicate 32 7"
    by (simp_all add: demo_resuming_def)
  have nz: "ci_resume_token demo_resuming \<noteq> replicate 32 0" unfolding t(2) by (simp add: replicate_eq_replicate)
  have m: "map_of (hh_resume demo_paired) (ci_resume_token demo_resuming) =
      Some \<lparr>rs_caps = stereo48 CodecPCMS16LE, rs_format_gen = 1, rs_next_seq = 9, rs_device_id = replicate 16 1\<rparr>"
    by (simp add: t(2) demo_paired_def)
  show ?thesis
    using resume_agreement[OF demo_connected t(1) nz, of "Inr :: codec_config \<Rightarrow> codec_error + codec_config" "[]" EOF demo_paired "[]" EOF]
    unfolding m option.case Let_def by (auto simp: prod.case_eq_if)
qed

theorem stale_token_stuck_witness:
  "\<exists>H' C'. admit demo_secrets windows_peers demo_aead (\<lambda>_. None) (Inr :: _ \<Rightarrow> _ + codec_config) (replicate 32 8) (stereo48 CodecPCMS16LE) False ''ab''
      (incoming (sent demo_client C' @ []) EOF demo_host) (demo_paired\<lparr>hh_resume := []\<rparr>) =
      (Admitted ''ab'' (hello_of [65] (replicate 16 1) (stereo48 CodecPCMS16LE)), H', demo_paired\<lparr>hh_resume := []\<rparr>) \<and>
    client_handshake demo_join (\<lparr>ps_peers = (\<lambda>_. Inr []), ps_save = (\<lambda>_ t. (None, t)), ps_remove = (\<lambda>_ t. (None, t))\<rparr>)
      (demo_options []) ''cd'' (TimesOut True) (incoming (sent demo_host H' @ []) EOF demo_client) demo_resuming =
      (Inl (CeSession (SeUnexpected MsgHelloOK)), C', demo_resuming)"
proof -
  have w: "wanted_caps (demo_options []) = stereo48 CodecPCMS16LE" "co_name (demo_options []) = [65]" "se_local_id demo_client = replicate 16 1"
    by (simp_all add: wanted_caps_def demo_options_def stereo48_def demo_client_def new_session_def no_caps_def)
  have nz: "ci_resume_token demo_resuming \<noteq> replicate 32 0" "length (ci_resume_token demo_resuming) = 32"
    by (simp_all add: demo_resuming_def replicate_eq_replicate)
  have h: "map_of (hh_resume (demo_paired\<lparr>hh_resume := []\<rparr>)) (ci_resume_token demo_resuming) = None"
    "''ab'' \<in> hh_trusted (demo_paired\<lparr>hh_resume := []\<rparr>)"
    by (simp_all add: demo_paired_def)
  have sz: "length (co_name (demo_options [])) \<le> 2000" "length (replicate 32 (8 :: byte)) = 32" by (simp_all add: w)
  have sel: "select_profile (stereo48 CodecPCMS16LE) (wanted_caps (demo_options [])) = Some (stereo48 CodecPCMS16LE)"
    unfolding w by (simp add: select_profile_def stereo48_def no_caps_def Let_def)
  show ?thesis
    using stale_token_stuck[OF demo_connected demo_plain(1,2) sz(1) demo_sizes(2) sz(2) nz(2,1) h sel] unfolding w by blast
qed
end
