(* ===== verification/ClientStream.thy ===== *)
theory ClientStream
  imports ClientRun ClientMedia HostControl
begin

text \<open>
  A client's running stream, the second half of \<^verbatim>\<open>engine/internal/engine/client.go\<close>: the loop that takes
  media datagrams, the handler of the host's control messages, the round-trip measurement, the statistics
  sent to the host once a second and the snapshot for the user interface; and how it meets the host's send loop.
\<close>

section \<open>State\<close>

record 'f client_stats =
  cs_rtt_ms :: 'f
  cs_loss :: 'f
  cs_late :: 'f
  cs_jitter_ms :: 'f
  cs_buf_ms :: 'f
  cs_seen :: u64
  cs_loss_pk :: u64
  cs_late_pk :: u64
  cs_reorder :: u64
  cs_conceal :: u64
  cs_max_burst :: int

text \<open>
  \<open>cl_pending\<close> are the pings that wait for their answer, \<open>cl_answers\<close> the channels that hold one.
\<close>

record ('f, 's) client_stream =
  cl_codec :: "'s codec option"
  cl_media :: "('f, 's) client_media option"
  cl_last_seq :: u32
  cl_rate :: int
  cl_channels :: int
  cl_ping_next :: u32
  cl_pending :: "u32 list"
  cl_answers :: "(u32 \<times> u64) list"
  cl_stats :: "'f client_stats"

definition zero_client_stats :: "'f float_ops \<Rightarrow> 'f client_stats" where
  "zero_client_stats F = \<lparr>cs_rtt_ms = fo_zero F, cs_loss = fo_zero F, cs_late = fo_zero F, cs_jitter_ms = fo_zero F,
     cs_buf_ms = fo_zero F, cs_seen = 0, cs_loss_pk = 0, cs_late_pk = 0, cs_reorder = 0, cs_conceal = 0, cs_max_burst = 0\<rparr>"

text \<open>\<open>play\<close> tells whether there is an \<^verbatim>\<open>OnMedia\<close>.\<close>

definition use_decoder ::
  "'f float_ops \<Rightarrow> bool \<Rightarrow> caps \<Rightarrow> 's codec \<times> 's \<Rightarrow> ('f, 's) client_stream \<Rightarrow> ('f, 's) client_stream" where
  "use_decoder F play c dec st =
     st\<lparr>cl_codec := Some (fst dec), cl_rate := uint (c_sample_rate c), cl_channels := uint (c_channels c),
        cl_media := Some (new_client_media F (Some (fst dec)) (snd dec) play)\<rparr>"

definition idle_stream :: "'f float_ops \<Rightarrow> u32 \<Rightarrow> ('f, 's) client_stream" where
  "idle_stream F lastSeq = \<lparr>cl_codec = None, cl_media = None, cl_last_seq = lastSeq, cl_rate = 0, cl_channels = 0,
     cl_ping_next = 0, cl_pending = [], cl_answers = [], cl_stats = zero_client_stats F\<rparr>"

section \<open>Media\<close>

text \<open>
  One datagram of \<^verbatim>\<open>mediaLoop\<close>: \<open>open_it\<close> opens the envelope of a relayed stream.
\<close>

definition media_turn ::
  "'f float_ops \<Rightarrow> (bytes \<Rightarrow> bytes option) option \<Rightarrow> int \<Rightarrow> bytes \<Rightarrow> ('f, 's) client_stream \<Rightarrow> ('f, 's) client_stream" where
  "media_turn F open_it now packet st =
     (case decode_media packet of
        Inl _ \<Rightarrow> st
      | Inr md \<Rightarrow>
          (case (case open_it of None \<Rightarrow> Some (m_payload md) | Some f \<Rightarrow> f (m_payload md)) of
             None \<Rightarrow> st
           | Some payload \<Rightarrow>
               (case cl_media st of
                  None \<Rightarrow> st
                | Some m \<Rightarrow>
                    st\<lparr>cl_last_seq := m_seq md,
                       cl_media := Some (if m_flags md AND FlagDTXSilence \<noteq> 0 then emit_silence m
                                         else accept F now (m_seq md) payload m)\<rparr>)))"

definition flush_tick :: "'f float_ops \<Rightarrow> int \<Rightarrow> ('f, 's) client_stream \<Rightarrow> ('f, 's) client_stream" where
  "flush_tick F now st = st\<lparr>cl_media := map_option (tick F now) (cl_media st)\<rparr>"

section \<open>Control\<close>

definition decodes_alike :: "codec_config \<Rightarrow> codec_config \<Rightarrow> bool" where
  "decodes_alike have want \<longleftrightarrow> cc_is_opus have = cc_is_opus want \<and> cc_sample_rate have = cc_sample_rate want \<and>
     cc_channels have = cc_channels want \<and> cc_frame_ms have = cc_frame_ms want"

definition format_ack_message :: "u32 \<Rightarrow> message" where
  "format_ack_message gen = ctl_message MsgFormatAck (append_format_ack [] \<lparr>fa_format_gen = gen, fa_applied = 1\<rparr>)"

definition client_handle ::
  "'f float_ops \<Rightarrow> bool \<Rightarrow> (codec_config \<Rightarrow> codec_error + 's codec \<times> 's) \<Rightarrow> message \<Rightarrow> ('f, 's) client_stream \<Rightarrow>
     ('f, 's) client_stream \<times> message list \<times> bool" where
  "client_handle F play mk m st =
     (if msg_type m = MsgPong then
        (if 8 \<le> length (msg_payload m) \<and> msg_request_id m \<in> set (cl_pending st)
         then (st\<lparr>cl_pending := removeAll (msg_request_id m) (cl_pending st),
                  cl_answers := (msg_request_id m, get_le (take 8 (msg_payload m))) # cl_answers st\<rparr>, [], False)
         else (st, [], False))
      else if msg_type m = MsgFormatUpdate then
        (case decode_format_update (msg_payload m) of
           Inl _ \<Rightarrow> (st, [], False)
         | Inr fu \<Rightarrow>
             let want = caps_to_codec_config (fu_caps fu);
                 rebuild = (case cl_codec st of None \<Rightarrow> True | Some cur \<Rightarrow> \<not> decodes_alike (cd_config cur) want)
             in if rebuild
                then (case mk want of
                    Inl _ \<Rightarrow> (st, [], False)
                  | Inr dec \<Rightarrow> (use_decoder F play (fu_caps fu) dec st, [format_ack_message (fu_format_gen fu)], False))
                else (st, [format_ack_message (fu_format_gen fu)], False))
      else (st, [], False))"

section \<open>Round trips\<close>

text \<open>
  \<^verbatim>\<open>ping\<close> sends the time in microseconds and waits for the answer with its number; \<open>ping_end\<close> is what
  becomes of the wait, at \<open>now\<close>, with the answer's round trip if there is one.  Times are nanoseconds; the
  difference of two times saturates.
\<close>

definition ping_begin :: "int \<Rightarrow> ('f, 's) client_stream \<Rightarrow> message \<times> ('f, 's) client_stream" where
  "ping_begin now st =
     (let i = cl_ping_next st + 1 in
      (\<lparr>msg_type = MsgPing, msg_flags = 0, msg_request_id = i, msg_payload = put_le 8 (word_of_int (now div 1000) :: u64)\<rparr>,
       st\<lparr>cl_ping_next := i, cl_pending := i # cl_pending st\<rparr>))"

definition since :: "int \<Rightarrow> u64 \<Rightarrow> int" where
  "since now us = max (- (2 ^ 63)) (min (2 ^ 63 - 1) (now - sint us * 1000))"

definition ping_end :: "int \<Rightarrow> u32 \<Rightarrow> ('f, 's) client_stream \<Rightarrow> int option \<times> ('f, 's) client_stream" where
  "ping_end now i st =
     (map_option (since now) (map_of (cl_answers st) i),
      st\<lparr>cl_pending := removeAll i (cl_pending st), cl_answers := AList.delete i (cl_answers st)\<rparr>)"

section \<open>Statistics\<close>

definition clamped :: "'f float_ops \<Rightarrow> 'f \<Rightarrow> int \<Rightarrow> int" where
  "clamped F v hi = fo_trunc F (clamp_f64 F v (fo_of_int F 0) (fo_of_int F hi))"

definition stats_report :: "'f float_ops \<Rightarrow> 'f \<Rightarrow> ('f, 's) client_media \<Rightarrow> stats" where
  "stats_report F rttMs m =
     \<lparr>st_loss_pct = word_of_int (clamped F (fo_mul F (cm_loss_ewma m) (fo_of_int F 100)) 65535),
      st_late_pct = word_of_int (clamped F (fo_mul F (cm_late_ewma m) (fo_of_int F 100)) 65535),
      st_jitter_us = word_of_int (clamped F (fo_mul F (cm_jitter_ewma m) (fo_of_int F 1000)) 4294967295),
      st_rtt_us = word_of_int (clamped F (fo_mul F rttMs (fo_of_int F 1000)) 4294967295),
      st_buf_depth_ms = word_of_int (clamped F (cm_buf_ewma m) 65535), st_underruns = 0, st_drift_ppm = 0\<rparr>"

definition media_stats :: "'f \<Rightarrow> ('f, 's) client_media \<Rightarrow> 'f client_stats" where
  "media_stats rttMs m = \<lparr>cs_rtt_ms = rttMs, cs_loss = cm_loss_ewma m, cs_late = cm_late_ewma m, cs_jitter_ms = cm_jitter_ewma m,
     cs_buf_ms = cm_buf_ewma m, cs_seen = cm_packets_seen m, cs_loss_pk = cm_loss_packets m, cs_late_pk = cm_late_packets m,
     cs_reorder = cm_reordered_packets m, cs_conceal = cm_concealed_frames m, cs_max_burst = cm_max_burst m\<rparr>"

text \<open>
  One tick of \<^verbatim>\<open>utilityLoop\<close> after its ping, whose round trip replaces the last one when there is one.
\<close>

definition utility_tick ::
  "'f float_ops \<Rightarrow> int \<Rightarrow> int option \<Rightarrow> 'f \<Rightarrow> ('f, 's) client_stream \<Rightarrow> 'f \<times> message list \<times> ('f, 's) client_stream" where
  "utility_tick F now rtt lastRtt st =
     (let rttMs = (case rtt of None \<Rightarrow> lastRtt | Some r \<Rightarrow> fo_div F (fo_of_int F (r sdiv 1000)) (fo_of_int F 1000));
          st1 = flush_tick F now st
      in case cl_media st1 of
           None \<Rightarrow> (rttMs, [], st1)
         | Some m \<Rightarrow> (rttMs, [ctl_message MsgStats (append_stats [] (stats_report F rttMs m))],
                      st1\<lparr>cl_stats := media_stats rttMs m\<rparr>))"

text \<open>The fields of the JSON snapshot, which a client that does not exist has as well.\<close>

record 'f client_snapshot =
  sn_state :: string
  sn_connected :: bool
  sn_rate :: int
  sn_channels :: int
  sn_stats :: "'f client_stats"
  sn_fec_recovered :: u64

definition stats_json :: "'f float_ops \<Rightarrow> ('f, 's) client_stream option \<Rightarrow> 'f client_snapshot" where
  "stats_json F so =
     (case so of
        None \<Rightarrow> \<lparr>sn_state = ''idle'', sn_connected = False, sn_rate = 0, sn_channels = 0, sn_stats = zero_client_stats F,
                 sn_fec_recovered = 0\<rparr>
      | Some st \<Rightarrow> \<lparr>sn_state = ''connected'', sn_connected = True, sn_rate = cl_rate st, sn_channels = cl_channels st,
                 sn_stats = cl_stats st,
                 sn_fec_recovered = (case cl_media st of None \<Rightarrow> 0 | Some m \<Rightarrow> cm_fec_recovered m)\<rparr>)"

section \<open>Runs of the media loop\<close>

text \<open>Answers and reports that are sent are what \<open>client_handle\<close> and \<open>utility_tick\<close> return.\<close>

datatype 'f client_event =
    Datagram int bytes
  | FlushAt int
  | Control message
  | PingAt int
  | PingOver int u32
  | ReportAt int "int option" 'f

primrec client_step ::
  "'f float_ops \<Rightarrow> bool \<Rightarrow> (codec_config \<Rightarrow> codec_error + 's codec \<times> 's) \<Rightarrow> (bytes \<Rightarrow> bytes option) option \<Rightarrow>
     'f client_event \<Rightarrow> ('f, 's) client_stream \<Rightarrow> ('f, 's) client_stream" where
  "client_step F play mk open_it (Datagram now p) st = media_turn F open_it now p st"
| "client_step F play mk open_it (FlushAt now) st = flush_tick F now st"
| "client_step F play mk open_it (Control m) st = fst (client_handle F play mk m st)"
| "client_step F play mk open_it (PingAt now) st = snd (ping_begin now st)"
| "client_step F play mk open_it (PingOver now i) st = snd (ping_end now i st)"
| "client_step F play mk open_it (ReportAt now rtt lastRtt) st = snd (snd (utility_tick F now rtt lastRtt st))"

definition client_events ::
  "'f float_ops \<Rightarrow> bool \<Rightarrow> (codec_config \<Rightarrow> codec_error + 's codec \<times> 's) \<Rightarrow> (bytes \<Rightarrow> bytes option) option \<Rightarrow>
     'f client_event list \<Rightarrow> ('f, 's) client_stream \<Rightarrow> ('f, 's) client_stream" where
  "client_events F play mk open_it = fold (client_step F play mk open_it)"

text \<open>What the player was handed.\<close>

definition played :: "('f, 's) client_stream \<Rightarrow> bytes" where
  "played st = (case cl_media st of None \<Rightarrow> [] | Some m \<Rightarrow> concat (cm_out m))"

section \<open>From the host's capture to the client's player\<close>

lemma media_turn_accept:
  assumes "decode_media p = Inr md" "m_flags md = 0" "cl_media st = Some m"
  shows "media_turn F None now p st = st\<lparr>cl_last_seq := m_seq md, cl_media := Some (accept F now (m_seq md) (m_payload md) m)\<rparr>"
  using assms by (simp add: media_turn_def)

lemma events_media:
  assumes "\<forall>(t, p) \<in> set xs. \<exists>md. decode_media p = Inr md \<and> m_flags md = 0" "cl_media st = Some m"
  shows "cl_media (client_events F play mk None (map (\<lambda>(t, p). Datagram t p) xs @ [FlushAt t1]) st) =
    Some (media_run F (map (\<lambda>(t, p). case decode_media p of Inr md \<Rightarrow> Arrive t (m_seq md) (m_payload md)) xs @ [TickAt t1]) m)"
  using assms
proof (induction xs arbitrary: st m)
  case Nil
  then show ?case by (simp add: client_events_def media_run_def flush_tick_def)
next
  case (Cons x xs)
  obtain t p where x: "x = (t, p)" by (cases x)
  then obtain md where md: "decode_media p = Inr md" "m_flags md = 0" using Cons.prems(1) by auto
  have "cl_media (client_step F play mk None (Datagram t p) st) = Some (accept F t (m_seq md) (m_payload md) m)"
    using media_turn_accept[OF md Cons.prems(2)] by simp
  from Cons.IH[OF _ this] show ?case using Cons.prems(1)
    by (simp add: x md client_events_def media_run_def)
qed

lemma frame_bytes_alike: "pcm_frame_bytes (caps_to_codec_config c) = pcm_frame_bytes (codec_config_from_caps c)"
  by (simp add: codec_config_from_caps_def Let_def pcm_frame_bytes_def frame_samples_def)


section \<open>Round trips are measured\<close>

text \<open>
  A ping measures the time to the host's answer.  The host answers a ping with the ping's number and its time, in whose place
  the handler of the client then notes the answer; the round trip is the time from the ping, in whole
  microseconds, to when the client looks, and both the ping and the answer are forgotten afterwards.
\<close>

theorem ping_measured:
  fixes st :: "('f, 's) client_stream"
  assumes "0 \<le> t0" "t0 div 1000 < 2 ^ 63" "t0 \<le> t1" "t1 < 2 ^ 63" "cl_ping_next st + 1 \<notin> fst ` set (cl_answers st)"
    "cl_ping_next st + 1 \<notin> set (cl_pending st)"
  shows "let (ping, st1) = ping_begin t0 st;
      (env, out, _) = handle_control H t ping (hst, h, w);
      (st2, out2, _) = client_handle F play mk (hd out) st1;
      (rtt, st3) = ping_end t1 (msg_request_id ping) st2
    in env = (hst, h, w) \<and> length out = 1 \<and> out2 = [] \<and> rtt = Some (t1 - t0 div 1000 * 1000) \<and>
      st3 = st\<lparr>cl_ping_next := cl_ping_next st + 1\<rparr>"
proof -
  define us where "us = (word_of_int (t0 div 1000) :: u64)"
  have us: "sint us = t0 div 1000"
    using assms(1,2) by (simp add: us_def sint_sbintrunc' signed_take_bit_int_eq_self)
  have take: "take 8 (take 8 (put_le 8 us) @ x) = put_le 8 us" for x :: bytes by simp
  have "(take_bit 64 us) = us" by (simp add: take_bit_word_eq_self)
  then have g: "get_le (put_le 8 us) = us" by (simp add: get_put_le)
  have d: "0 \<le> t1 - t0 div 1000 * 1000" "t1 - t0 div 1000 * 1000 < 2 ^ 63"
  proof -
    have "0 \<le> t0 div 1000" "t0 div 1000 * 1000 \<le> t0" using assms(1) by (simp_all add: pos_imp_zdiv_nonneg_iff)
    then show "0 \<le> t1 - t0 div 1000 * 1000" "t1 - t0 div 1000 * 1000 < 2 ^ 63" using assms(3,4) by linarith+
  qed
  have del: "AList.delete k xs = xs" if "k \<notin> fst ` set xs" for k :: u32 and xs :: "(u32 \<times> u64) list"
    using that by (simp add: delete_id)
  show ?thesis
    using assms(5,6) us g d del
    by (simp add: ping_begin_def handle_control_def client_handle_def ping_end_def pong_payload_def us_def[symmetric] Let_def since_def)
qed

section \<open>The stream and its decoder agree\<close>

text \<open>
  \<open>stream_typed\<close>: there is a reorder window exactly when there is a decoder, it feeds that decoder, and the
  sample rate and channel count shown to the user are the decoder's.
\<close>

definition stream_typed :: "('f, 's) client_stream \<Rightarrow> bool" where
  "stream_typed st \<longleftrightarrow>
     (case (cl_codec st, cl_media st) of
        (None, None) \<Rightarrow> cl_rate st = 0 \<and> cl_channels st = 0
      | (Some cd, Some m) \<Rightarrow> cm_codec m = Some cd \<and> cl_rate st = cc_sample_rate (cd_config cd) \<and>
          cl_channels st = cc_channels (cd_config cd)
      | _ \<Rightarrow> False)"

lemma flush_turn_codec: "flush_turn F force m = Some m1 \<Longrightarrow> cm_codec m1 = cm_codec m"
  by (auto simp: flush_turn_def Let_def dest: emit_fec_eq split: option.splits prod.splits if_splits)

lemma flush_codec: "cm_codec (flush F now force m) = cm_codec m"
  by (rule flush_rule[of "\<lambda>x. cm_codec x = cm_codec m"]) (auto dest: flush_turn_codec)

lemma accept_codec [simp]: "cm_codec (accept F now sq p m) = cm_codec m"
  by (simp add: accept_def flush_codec Let_def)

lemma tick_codec [simp]: "cm_codec (tick F now m) = cm_codec m"
  by (simp add: tick_def flush_codec)

lemma emit_silence_codec [simp]: "cm_codec (emit_silence m) = cm_codec m"
  by (simp add: emit_silence_def split: option.split)

lemma new_media_codec [simp]: "cm_codec (new_client_media F c s play) = c"
  by (simp add: new_client_media_def Let_def)

lemma stream_typed_window:
  "stream_typed st \<Longrightarrow> cl_media st = Some m \<Longrightarrow> cm_codec m1 = cm_codec m \<Longrightarrow>
     stream_typed (st\<lparr>cl_last_seq := q, cl_media := Some m1\<rparr>)"
  by (auto simp: stream_typed_def split: option.splits)

lemma stream_typed_media: "stream_typed st \<Longrightarrow> stream_typed (media_turn F open_it now p st)"
  unfolding media_turn_def
  by (cases "decode_media p"; cases open_it; cases "cl_media st") (auto intro: stream_typed_window split: option.split)

lemma stream_typed_tick: "stream_typed st \<Longrightarrow> stream_typed (flush_tick F now st)"
  by (simp add: flush_tick_def stream_typed_def split: option.splits)

lemma stream_typed_use:
  "cd_config (fst dec) = caps_to_codec_config c \<Longrightarrow> stream_typed (use_decoder F play c dec st)"
  by (simp add: use_decoder_def stream_typed_def caps_to_codec_config_def)

lemma stream_typed_handle:
  assumes "stream_typed st" "\<And>cfg cd s. mk cfg = Inr (cd, s) \<Longrightarrow> cd_config cd = cfg"
  shows "stream_typed (fst (client_handle F play mk m st))"
proof -
  have "stream_typed (use_decoder F play c dec st)" if "mk (caps_to_codec_config c) = Inr dec" for c dec
    using stream_typed_use assms(2) that by (metis prod.collapse)
  moreover have "stream_typed (st\<lparr>cl_pending := a, cl_answers := b\<rparr>)" for a b
    using assms(1) by (auto simp: stream_typed_def split: option.splits)
  ultimately show ?thesis using assms(1)
    by (auto simp: client_handle_def Let_def split: sum.split option.split)
qed


section \<open>What the host learns of losses\<close>

text \<open>The smoothed rates of a client are fractions.\<close>

definition rates_ok :: "(rat, 's) client_media \<Rightarrow> bool" where
  "rates_ok m \<longleftrightarrow> 0 \<le> cm_loss_ewma m \<and> cm_loss_ewma m \<le> 1 \<and> 0 \<le> cm_late_ewma m \<and> cm_late_ewma m \<le> 1"

lemma ewma_hit_unit:
  assumes "0 \<le> x" "x \<le> 1"
  shows "0 \<le> ewma_hit rat_ops x" "ewma_hit rat_ops x \<le> 1"
  using assms by (simp_all add: ewma_hit_def rat_ops_def field_simps)

lemma rates_ok_upd [simp]:
  "rates_ok (m\<lparr>cm_seen := b\<rparr>) = rates_ok m" "rates_ok (m\<lparr>cm_next_seq := q\<rparr>) = rates_ok m"
  "rates_ok (m\<lparr>cm_trace := tr\<rparr>) = rates_ok m" "rates_ok (m\<lparr>cm_future := fut\<rparr>) = rates_ok m"
  "rates_ok (m\<lparr>cm_last_flush := t\<rparr>) = rates_ok m" "rates_ok (m\<lparr>cm_reordered_packets := n\<rparr>) = rates_ok m"
  "rates_ok (m\<lparr>cm_late_packets := n\<rparr>) = rates_ok m" "rates_ok (m\<lparr>cm_packets_seen := n\<rparr>) = rates_ok m"
  "rates_ok (m\<lparr>cm_jitter_ewma := x\<rparr>) = rates_ok m" "rates_ok (m\<lparr>cm_last_arrival := t\<rparr>) = rates_ok m"
  "rates_ok (m\<lparr>cm_buf_ewma := x\<rparr>) = rates_ok m"
  by (simp_all add: rates_ok_def)

lemma count_loss_rates [simp]:
  "cm_loss_ewma (count_loss F m) = ewma_hit F (cm_loss_ewma m)" "cm_late_ewma (count_loss F m) = cm_late_ewma m"
  by (simp_all add: count_loss_def Let_def)

lemma rates_ok_emit: "rates_ok m \<Longrightarrow> rates_ok (emit rat_ops w lost m)"
  by (auto simp: emit_def Let_def rates_ok_def ewma_hit_unit split: option.split prod.split sum.split)

lemma rates_ok_fec: "rates_ok m \<Longrightarrow> rates_ok (snd (emit_fec rat_ops w m))"
  by (auto simp: emit_fec_def Let_def rates_ok_def ewma_hit_unit split: option.split prod.split sum.split)

lemma rates_ok_fec_eq: "emit_fec rat_ops w m = (b, y) \<Longrightarrow> rates_ok m \<Longrightarrow> rates_ok y"
  using rates_ok_fec[of m w] by simp

lemma rates_ok_turn:
  assumes "rates_ok m" "flush_turn rat_ops force m = Some m1"
  shows "rates_ok m1"
proof (cases "map_of (cm_future m) (cm_next_seq m)")
  case (Some buf)
  then show ?thesis using assms by (auto simp: flush_turn_def rates_ok_emit)
next
  case None
  obtain b y where r: "(case map_of (cm_future m) (cm_next_seq m + 1) of
      Some next \<Rightarrow> emit_fec rat_ops next m | None \<Rightarrow> (False, m)) = (b, y)" by fastforce
  have "rates_ok y" using r assms(1) rates_ok_fec_eq by (auto split: option.splits)
  then show ?thesis using assms(2) None
    by (auto simp: flush_turn_def r Let_def rates_ok_emit split: if_splits)
qed

lemma rates_ok_flush: "rates_ok m \<Longrightarrow> rates_ok (flush rat_ops now force m)"
  by (rule flush_rule[of rates_ok, OF _ rates_ok_turn]) simp_all

lemma rates_ok_note: "rates_ok m \<Longrightarrow> rates_ok (note_arrival rat_ops now m)"
  by (simp add: note_arrival_def Let_def split: option.split)

lemma rates_ok_late_count:
  "rates_ok m \<Longrightarrow> rates_ok (m\<lparr>cm_late_packets := n, cm_late_ewma := ewma_hit rat_ops (cm_late_ewma m)\<rparr>)"
  by (simp add: rates_ok_def ewma_hit_unit)

lemma rates_ok_accept: "rates_ok m \<Longrightarrow> rates_ok (accept rat_ops now sq p m)"
  by (simp add: accept_def Let_def rates_ok_flush rates_ok_emit rates_ok_note rates_ok_late_count)

lemma rates_ok_run: "rates_ok m \<Longrightarrow> rates_ok (media_run rat_ops es m)"
proof (induction es arbitrary: m)
  case (Cons e es)
  have "rates_ok (media_step rat_ops e m)"
    using Cons.prems by (cases e) (simp_all add: rates_ok_accept tick_def rates_ok_flush)
  then show ?case using Cons.IH by (simp add: media_run_def)
qed (simp add: media_run_def)

lemma rates_ok_new: "rates_ok (new_client_media rat_ops c s play)"
  by (simp add: rates_ok_def new_client_media_def rat_ops_def Let_def)

definition client_report :: "stats \<Rightarrow> bool" where
  "client_report rep \<longleftrightarrow> (\<exists>(c :: unit codec option) play es rttMs.
     rep = stats_report rat_ops rttMs (media_run rat_ops es (new_client_media rat_ops c () play)))"

lemma clamped_percent:
  assumes "0 \<le> x" "x \<le> 1"
  shows "unat (word_of_int (clamped rat_ops (fo_mul rat_ops x (fo_of_int rat_ops 100)) 65535) :: u16) \<le> 100"
proof -
  let ?v = "clamped rat_ops (fo_mul rat_ops x (fo_of_int rat_ops 100)) 65535"
  have v: "?v = floor (x * 100)" using assms
    by (simp add: clamped_def clamp_f64_def rat_ops_def trunc_rat_def)
  have k: "unat (word_of_int k :: u16) \<le> 100" if "0 \<le> k" "k \<le> 100" for k
    using that by (simp add: unat_eq_nat_uint uint_word_of_int)
  show ?thesis unfolding v by (rule k) (use assms in \<open>simp_all add: floor_le_iff\<close>)
qed

lemma client_report_small:
  assumes "client_report rep"
  shows "unat (st_loss_pct rep) \<le> 100" "unat (st_late_pct rep) \<le> 100" "st_underruns rep = 0"
proof -
  obtain c :: "unit codec option" and play es rttMs where
    rep: "rep = stats_report rat_ops rttMs (media_run rat_ops es (new_client_media rat_ops c () play))"
    using assms by (auto simp: client_report_def)
  have "rates_ok (media_run rat_ops es (new_client_media rat_ops c () play))" by (rule rates_ok_run[OF rates_ok_new])
  then show "unat (st_loss_pct rep) \<le> 100" "unat (st_late_pct rep) \<le> 100" "st_underruns rep = 0"
    using clamped_percent by (simp_all add: rep stats_report_def rates_ok_def)
qed

text \<open>What the host's controller then knows: rates of at most 1, which it takes for one percent.\<close>

definition calm_stats :: "rat host_stats \<Rightarrow> bool" where
  "calm_stats s \<longleftrightarrow> 0 \<le> hst_loss s \<and> hst_loss s \<le> 1 \<and> 0 \<le> hst_late s \<and> hst_late s \<le> 1 \<and> 0 \<le> hst_jitter s \<and> hst_jitter s < 20 \<and>
     0 \<le> hst_rtt s \<and> hst_rtt s < 60"

definition calm_controller :: "rat controller \<Rightarrow> bool" where
  "calm_controller q \<longleftrightarrow> 0 \<le> ct_loss_ewma q \<and> ct_loss_ewma q \<le> 1 \<and> 0 \<le> ct_late_ewma q \<and> ct_late_ewma q \<le> 1 \<and>
     0 \<le> ct_jitter_ewma q \<and> ct_jitter_ewma q < 20 \<and> 0 \<le> ct_rtt_ewma q \<and> ct_rtt_ewma q < 60 \<and> \<not> ct_fec q"

lemma smoothed_nonneg:
  fixes x y :: rat
  assumes "0 \<le> x" "0 \<le> y"
  shows "0 \<le> host_ewma rat_ops x y" "0 \<le> ewma rat_ops x y"
  using assms by (simp_all add: host_ewma_def ewma_def rat_ops_def field_simps)

lemma smoothed_below:
  fixes x y b :: rat
  shows "x \<le> b \<Longrightarrow> y \<le> b \<Longrightarrow> host_ewma rat_ops x y \<le> b" "x \<le> b \<Longrightarrow> y \<le> b \<Longrightarrow> ewma rat_ops x y \<le> b"
    "x < b \<Longrightarrow> y < b \<Longrightarrow> host_ewma rat_ops x y < b" "x < b \<Longrightarrow> y < b \<Longrightarrow> ewma rat_ops x y < b"
  by (simp_all add: host_ewma_def ewma_def rat_ops_def field_simps)

lemma ratio_bounds:
  "n \<le> 100 \<Longrightarrow> (of_nat n / 100 :: rat) \<le> 1" "n < 20000 \<Longrightarrow> (of_nat n / 1000 :: rat) < 20" "n < 60000 \<Longrightarrow> (of_nat n / 1000 :: rat) < 60"
  using of_nat_mono[of n 100, where 'a = rat] of_nat_less_iff[of n 20000, where 'a = rat]
    of_nat_less_iff[of n 60000, where 'a = rat] by simp_all

lemma calm_note:
  assumes "calm_stats s" "unat (st_loss_pct rep) \<le> 100" "unat (st_late_pct rep) \<le> 100"
    "unat (st_jitter_us rep) < 20000" "unat (st_rtt_us rep) < 60000"
  shows "calm_stats (note_stats rat_ops rep s)"
proof -
  have u: "(of_int (uint w) :: rat) = of_nat (unat w)" for w :: "'a :: len word"
    by (simp only: uint_nat of_int_of_nat_eq)
  have r: "fo_div rat_ops (fo_of_int rat_ops (uint w)) (fo_of_int rat_ops k) = of_nat (unat w) / of_int k" for w :: "'a :: len word" and k
    by (simp add: rat_ops_def u)
  have nn: "(0 :: rat) \<le> of_nat n / 100" "(0 :: rat) \<le> of_nat n / 1000" for n by simp_all
  note b = nn(1)[of "unat (st_loss_pct rep)"] nn(1)[of "unat (st_late_pct rep)"] nn(2)[of "unat (st_jitter_us rep)"]
    nn(2)[of "unat (st_rtt_us rep)"] ratio_bounds(1)[OF assms(2)] ratio_bounds(1)[OF assms(3)] ratio_bounds(2)[OF assms(4)]
    ratio_bounds(3)[OF assms(5)]
  show ?thesis using assms(1) b
    by (simp add: calm_stats_def note_stats_def r smoothed_nonneg smoothed_below)
qed

lemma calm_update:
  assumes "calm_controller q" "calm_stats s" "update rat_ops (host_sample rep s) now q = (dec, q1)"
  shows "calm_controller q1 \<and> \<not> d_switch_to_opus dec \<and> \<not> d_fec_enabled dec"
proof -
  define q2 where "q2 = smooth rat_ops (host_sample rep s) q"
  define q3 where "q3 = q2\<lparr>ct_underrun_acc := ct_underrun_acc q2 + q_underruns (host_sample rep s)\<rparr>"
  have q2: "calm_controller q2" using assms(1,2)
    by (simp add: q2_def smooth_def host_sample_def calm_controller_def calm_stats_def smoothed_nonneg smoothed_below)
  then have q3: "calm_controller q3" by (simp add: q3_def calm_controller_def)
  have lv: "classify rat_ops (ct_loss_ewma q3) (ct_late_ewma q3) (ct_jitter_ewma q3) (ct_rtt_ewma q3) \<in> {Excellent, Good}"
    using q3 by (simp add: classify_def calm_controller_def rat_ops_def)
  show ?thesis
    using assms(3) q3 lv
    by (auto simp: update_def Let_def q2_def[symmetric] q3_def[symmetric] decide_def calm_controller_def split: if_splits)
qed

text \<open>A stream of another codec than Opus that the host has only seen losses of.\<close>

definition calm_stream :: "('s codec) \<Rightarrow> caps \<Rightarrow> (rat, 's) host_stream \<Rightarrow> bool" where
  "calm_stream cd c st \<longleftrightarrow> rx_codec st = cd \<and> rx_caps st = c \<and> calm_stats (rx_stats st) \<and> calm_controller (rx_quality st)"

lemma decode_appended_stats: "decode_stats (append_stats [] rep) = Inr rep"
  by (rule stats.dec_enc) simp

lemma calm_step:
  assumes H: "he_float H = rat_ops" and c: "c_codec c \<noteq> CodecOpus" and st: "calm_stream cd c st"
    and rep: "client_report rep" "unat (st_jitter_us rep) < 20000" "unat (st_rtt_us rep) < 60000"
    and s: "handle_control H now (ctl_message MsgStats (append_stats [] rep)) (st, h, w) = ((st1, h1, w1), out, stop)"
  shows "calm_stream cd c st1 \<and> out = []"
proof -
  let ?hs = "note_stats rat_ops rep (rx_stats st)"
  obtain dec q where u: "update rat_ops (host_sample rep ?hs) now (rx_quality st) = (dec, q)" by (metis prod.exhaust)
  have hs: "calm_stats ?hs" using calm_note st client_report_small[OF rep(1)] rep(2,3) by (simp add: calm_stream_def)
  have q: "calm_controller q \<and> \<not> d_switch_to_opus dec \<and> \<not> d_fec_enabled dec"
    using calm_update[OF _ hs u] st by (simp add: calm_stream_def)
  have tune: "rx_codec (tune_encoder H dec x) = rx_codec x" "rx_caps (tune_encoder H dec x) = rx_caps x"
    "rx_stats (tune_encoder H dec x) = rx_stats x" "rx_quality (tune_encoder H dec x) = rx_quality x" for x :: "(rat, 'a) host_stream"
    by (simp_all add: tune_encoder_def Let_def)
  have aq: "apply_quality H now dec x = (tune_encoder H dec x, [])" if "rx_caps x = c" for x :: "(rat, 'a) host_stream"
    using q c that by (simp add: apply_quality_def Let_def tune)
  show ?thesis
    using s st hs q by (simp add: handle_control_def decode_appended_stats H u Let_def aq calm_stream_def) (auto simp: tune)
qed


section \<open>Concrete streams\<close>


definition demo_client_stream :: "(rat, unit) client_stream" where
  "demo_client_stream = use_decoder rat_ops True (demo_pcm_caps 48000)
     (pcm_codec (caps_to_codec_config (demo_pcm_caps 48000)), ()) (idle_stream rat_ops 0)"

theorem ping_measured_witness:
  "let (ping, st1) = ping_begin 5000500 demo_client_stream;
      (env, out, _) = handle_control demo_env 7 ping (demo_stream, demo_capture, ());
      (st2, out2, _) = client_handle rat_ops True (\<lambda>_. Inl OpusUnavailable) (hd out) st1;
      (rtt, st3) = ping_end 9000900 (msg_request_id ping) st2
    in rtt = Some 4000900"
proof -
  have a: "(0 :: int) \<le> 5000500" "(5000500 :: int) div 1000 < 2 ^ 63" "(5000500 :: int) \<le> 9000900" "(9000900 :: int) < 2 ^ 63"
    "cl_ping_next demo_client_stream + 1 \<notin> fst ` set (cl_answers demo_client_stream)"
    "cl_ping_next demo_client_stream + 1 \<notin> set (cl_pending demo_client_stream)"
    by (simp_all add: demo_client_stream_def use_decoder_def idle_stream_def)
  show ?thesis
    using ping_measured[OF a, of demo_env 7 demo_stream demo_capture "()" rat_ops True "\<lambda>_. Inl OpusUnavailable"]
    by (auto simp: Let_def prod.case_eq_if)
qed


lemma demo_report: "client_report (stats_report rat_ops 0 (new_client_media rat_ops None () True))"
  "st_jitter_us (stats_report rat_ops 0 (new_client_media rat_ops None () True)) = 0"
  "st_rtt_us (stats_report rat_ops 0 (new_client_media rat_ops None () True)) = 0"
proof -
  have "media_run rat_ops [] (new_client_media rat_ops None () True) = new_client_media rat_ops None () True"
    by (simp add: media_run_def)
  then show "client_report (stats_report rat_ops 0 (new_client_media rat_ops None () True))"
    unfolding client_report_def by metis
qed (simp_all add: stats_report_def new_client_media_def clamped_def clamp_f64_def rat_ops_def trunc_rat_def Let_def)

end
