(* ===== verification/HostService.thy ===== *)
theory HostService
  imports HostAdmission HostControl Discovery AudioRing
begin

text \<open>
  The host as a whole, the rest of \<^verbatim>\<open>engine/internal/engine/host.go\<close>: its options, one connection from its first
  message to its end, the shared capture that the streams read, the list of receivers with what the user
  interface may change in it, the answers to discovery queries, the pairing link and the names of recordings.
  Text that is shown is a list of runes (code points) where the code walks over runes.
\<close>

section \<open>Options\<close>

record host_options =
  ho_name :: bytes
  ho_listen_addr :: bytes
  ho_format :: format
  ho_max_bitrate :: int
  ho_pairing_timeout :: int

text \<open>\<open>None\<close> when there is no pairing store.\<close>

definition new_host_options :: "bool \<Rightarrow> bytes option \<Rightarrow> host_options \<Rightarrow> host_options option" where
  "new_host_options hasStore hostname opts =
     (if \<not> hasStore then None
      else Some (opts\<lparr>
        ho_listen_addr := (if ho_listen_addr opts = [] then bytes_of_str '':47010'' else ho_listen_addr opts),
        ho_format := (if ho_format opts = zero_format then default_format else ho_format opts),
        ho_pairing_timeout := (if ho_pairing_timeout opts \<le> 0 then 60 * 1000000000 else ho_pairing_timeout opts),
        ho_name := (if ho_name opts \<noteq> [] then ho_name opts
          else case hostname of
            None \<Rightarrow> bytes_of_str ''remoteau-host''
          | Some n \<Rightarrow> if n = [] then bytes_of_str ''remoteau-host'' else n)\<rparr>))"

section \<open>State\<close>

record ('f, 's, 'c, 't, 'w) service =
  sv_host :: "'t host"
  sv_streams :: "(nat \<times> ('f, 's) host_stream) list"
  sv_capture :: "'c capture_state"
  sv_world :: 'w

text \<open>
  The codec of a stream that has not been started yet is nil in the code and shown as a dash; here it
  is a codec of that name, which is never used.
\<close>

definition no_codec :: "'s codec" where
  "no_codec = (pcm_codec (caps_to_codec_config no_caps))\<lparr>cd_name := ''-''\<rparr>"

definition joined :: "nat \<Rightarrow> string \<Rightarrow> ('f, 's) host_stream \<Rightarrow> ('f, 's, 'c, 't, 'w) service \<Rightarrow> ('f, 's, 'c, 't, 'w) service" where
  "joined cn key st sv = sv\<lparr>sv_host := register_conn key cn (sv_host sv), sv_streams := AList.update cn st (sv_streams sv)\<rparr>"

definition left :: "nat \<Rightarrow> string \<Rightarrow> ('f, 's, 'c, 't, 'w) service \<Rightarrow> ('f, 's, 'c, 't, 'w) service" where
  "left cn key sv = sv\<lparr>sv_host := unregister_conn key (sv_host sv), sv_streams := AList.delete cn (sv_streams sv)\<rparr>"

section \<open>Starting a stream\<close>

datatype start_error = StartCaps caps_error | StartCodec codec_error | StartCapture capture_error

text \<open>
  \<^verbatim>\<open>startStreamFor\<close> on the stream, the capture, the world and the host's resume states; starting the
  send loop and opening the recording are left to the caller.
\<close>

definition start_stream_for ::
  "('f, 's, 'p, 'c, 'w) host_env \<Rightarrow> bytes \<Rightarrow> bytes \<Rightarrow> caps \<Rightarrow> ('f, 's) host_stream \<times> 'c capture_state \<times> 'w \<times> 't host \<Rightarrow>
     (start_error + caps \<times> u32) \<times> ('f, 's) host_stream \<times> 'c capture_state \<times> 'w \<times> 't host" where
  "start_stream_for H token peerID req env =
     (case env of (st, cap, w, h) \<Rightarrow>
        case negotiate_caps (he_format H) req of
          Inl e \<Rightarrow> (Inl (StartCaps e), env)
        | Inr caps \<Rightarrow>
            (case host_codec H (codec_config_from_caps caps) of
               Inl e \<Rightarrow> (Inl (StartCodec e), env)
             | Inr (cd, cs) \<Rightarrow>
                 let st1 = st\<lparr>rx_codec := cd, rx_codec_state := cs, rx_caps := caps, rx_format_gen := 1\<rparr> in
                 (case ensure_capture (he_audio H) cap w of
                    (Some e, cap1, w1) \<Rightarrow> (Inl (StartCapture e), (st1, cap1, w1, h))
                  | (None, cap1, w1) \<Rightarrow>
                      (Inr (caps, 1), (st1, cap1, w1, store_resume_state token
                         \<lparr>rs_caps = caps, rs_format_gen = 1, rs_next_seq = rx_seq st1, rs_device_id = peerID\<rparr> h)))))"

definition stream_producer ::
  "(start_error \<Rightarrow> string) \<Rightarrow> ('f, 's, 'p, 'c, 'w) host_env \<Rightarrow> bytes \<Rightarrow> bytes \<Rightarrow>
     (('f, 's) host_stream \<times> 'c capture_state \<times> 'w \<times> 't host) producer" where
  "stream_producer showErr H token peerID req env =
     (case start_stream_for H token peerID req env of (r, env1) \<Rightarrow> (map_sum showErr id r, env1))"

section \<open>One connection\<close>

text \<open>
  The last part: control messages are served until the connection ends, then the receiver leaves the list.
\<close>

definition serve_stream ::
  "('f, 's, 'p, 'c, 'w) host_env \<Rightarrow> nat \<Rightarrow> int \<Rightarrow> nat \<Rightarrow> string \<Rightarrow> ('f, 's) host_stream \<Rightarrow> session \<Rightarrow> ('f, 's, 'c, 't, 'w) service \<Rightarrow>
     ('f, 's, 'c, 't, 'w) service \<times> session" where
  "serve_stream H held now cn key st s sv =
     (case serve_loop held (Some (handle_control H now)) (st, sv_capture sv, sv_world sv) s of
        (_, (st1, cap1, w1), s1) \<Rightarrow> (left cn key (sv\<lparr>sv_capture := cap1, sv_world := w1\<rparr>), s1))"

text \<open>
  \<^verbatim>\<open>handleConnInner\<close>.  The time \<open>now\<close> is that of all messages of the connection.  A stream that resumes is listed
  under the id of a session that never said hello.
\<close>

definition serve_connection ::
  "(start_error \<Rightarrow> string) \<Rightarrow> ('f, 's, 'p, 'c, 'w) host_env \<Rightarrow> ('k, 'q) host_secrets \<Rightarrow> 't peer_store \<Rightarrow> aead \<Rightarrow>
     (nat \<Rightarrow> bytes option) \<Rightarrow> bytes \<Rightarrow> bool \<Rightarrow> string \<Rightarrow> nat \<Rightarrow> int \<Rightarrow> nat \<Rightarrow> session \<Rightarrow> ('f, 's, 'c, 't, 'w) service \<Rightarrow>
     ('f, 's, 'c, 't, 'w) service \<times> session" where
  "serve_connection showErr H K P A nonces tok relayed certFP held now cn s sv =
     (case admit K P A nonces (host_codec H) tok (offer_caps (he_format H)) relayed certFP s (sv_host sv) of
        (adm, s1, h1) \<Rightarrow>
          let sv1 = sv\<lparr>sv_host := h1\<rparr>; key = peer_id_string s1 in
          (case adm of
             Rejected e \<Rightarrow> (sv1, s1)
           | Resumed r cs \<Rightarrow>
               let st = new_host_stream H (se_peer_name s1) cs (rs_caps r) (rs_format_gen r) (rs_next_seq r)
               in serve_stream H held now cn key st s1 (joined cn key st sv1)
           | Admitted fp hello \<Rightarrow>
               let st = new_host_stream H (h_device_name hello) (no_codec, he_codec0 H) no_caps 0 0;
                   sv2 = joined cn key st sv1
               in (case start_stream (stream_producer showErr H (se_resume_token s1) (se_peer_id s1))
                      (st, sv_capture sv2, sv_world sv2, sv_host sv2) s1 of
                     (err, (st1, cap1, w1, h2), s2) \<Rightarrow>
                       let sv3 = sv2\<lparr>sv_capture := cap1, sv_world := w1, sv_host := h2,
                             sv_streams := AList.update cn st1 (sv_streams sv2)\<rparr>
                       in if err \<noteq> None then (left cn key sv3, s2)
                          else serve_stream H held now cn key st1 s2 sv3)))"

section \<open>The receivers\<close>

record 'f receiver_info =
  ri_device_id :: string
  ri_name :: bytes
  ri_addr :: string
  ri_loss_pct :: 'f
  ri_jitter_ms :: 'f
  ri_rtt_ms :: 'f
  ri_buf_ms :: 'f
  ri_codec :: string
  ri_volume :: 'f
  ri_muted :: bool
  ri_state :: string
  ri_quality_mode :: string

definition receiver_info_of :: "string \<Rightarrow> string \<Rightarrow> ('f, 's) host_stream \<Rightarrow> 'f receiver_info" where
  "receiver_info_of i addr st = \<lparr>ri_device_id = i, ri_name = rx_name st, ri_addr = addr, ri_loss_pct = hst_loss (rx_stats st),
     ri_jitter_ms = hst_jitter (rx_stats st), ri_rtt_ms = hst_rtt (rx_stats st), ri_buf_ms = hst_buf (rx_stats st),
     ri_codec = cd_name (rx_codec st), ri_volume = rx_volume st, ri_muted = rx_muted st,
     ri_state = receiver_state_name (rx_receiver_state st), ri_quality_mode = quality_mode_name (rx_quality_mode st)\<rparr>"

text \<open>
  The id shown is the session's, all zeros when the peer did not say hello; Go walks the map in any order, here it is the list's.
  \<open>addrOf\<close> is the remote address of a connection.
\<close>

definition shown_id :: "string \<Rightarrow> string" where
  "shown_id key = (if key = [] then hex_of_bytes (replicate 16 0) else key)"

definition receivers :: "(nat \<Rightarrow> string) \<Rightarrow> ('f, 's, 'c, 't, 'w) service \<Rightarrow> 'f receiver_info list" where
  "receivers addrOf sv = List.map_filter (\<lambda>(key, cn). map_option (receiver_info_of (shown_id key) (addrOf cn)) (map_of (sv_streams sv) cn))
     (hh_conns (sv_host sv))"

definition change_stream ::
  "nat \<Rightarrow> (('f, 's) host_stream \<Rightarrow> ('f, 's) host_stream) \<Rightarrow> ('f, 's, 'c, 't, 'w) service \<Rightarrow> ('f, 's, 'c, 't, 'w) service" where
  "change_stream cn f sv = sv\<lparr>sv_streams := map (\<lambda>(c, st). (c, if c = cn then f st else st)) (sv_streams sv)\<rparr>"

definition change_receiver ::
  "string \<Rightarrow> (('f, 's) host_stream \<Rightarrow> ('f, 's) host_stream) \<Rightarrow> ('f, 's, 'c, 't, 'w) service \<Rightarrow> ('f, 's, 'c, 't, 'w) service" where
  "change_receiver i f sv = (case map_of (hh_conns (sv_host sv)) i of None \<Rightarrow> sv | Some cn \<Rightarrow> change_stream cn f sv)"

definition change_all ::
  "(('f, 's) host_stream \<Rightarrow> ('f, 's) host_stream) \<Rightarrow> ('f, 's, 'c, 't, 'w) service \<Rightarrow> ('f, 's, 'c, 't, 'w) service" where
  "change_all f sv = fold (\<lambda>(key, cn). change_stream cn f) (hh_conns (sv_host sv)) sv"

definition set_volume :: "'f float_ops \<Rightarrow> string \<Rightarrow> 'f \<Rightarrow> ('f, 's, 'c, 't, 'w) service \<Rightarrow> ('f, 's, 'c, 't, 'w) service" where
  "set_volume F i v = change_receiver i (\<lambda>st. st\<lparr>rx_volume := clamp_f64 F v (fo_of_int F 0) (fo_of_int F 2)\<rparr>)"

definition set_muted :: "string \<Rightarrow> bool \<Rightarrow> ('f, 's, 'c, 't, 'w) service \<Rightarrow> ('f, 's, 'c, 't, 'w) service" where
  "set_muted i b = change_receiver i (\<lambda>st. st\<lparr>rx_muted := b\<rparr>)"

definition mute_all :: "bool \<Rightarrow> ('f, 's, 'c, 't, 'w) service \<Rightarrow> ('f, 's, 'c, 't, 'w) service" where
  "mute_all b = change_all (\<lambda>st. st\<lparr>rx_muted := b\<rparr>)"

definition set_quality :: "'f float_ops \<Rightarrow> int \<Rightarrow> int \<Rightarrow> bool \<Rightarrow> ('f, 's, 'c, 't, 'w) service \<Rightarrow> ('f, 's, 'c, 't, 'w) service" where
  "set_quality F mn mx fecBias = change_all (\<lambda>st. st\<lparr>rx_quality := new_controller F mn mx, rx_fec_bias := fecBias\<rparr>)"

datatype stream_kind = StreamStopped | StreamWaiting | StreamActive

definition stream_state :: "('f, 's, 'c, 't, 'w) service \<Rightarrow> stream_kind" where
  "stream_state sv = (if hh_conns (sv_host sv) \<noteq> [] then StreamActive
     else if hc_capture (sv_capture sv) \<noteq> None then StreamActive else StreamWaiting)"

section \<open>The shared capture\<close>

text \<open>
  Every stream's send loop reads the host's one capture, whose data waits in a hand-off ring.  \<open>shared_reads\<close>
  is what the readers get, in the order of their turns, each with its read's buffer.
\<close>

definition read_capture :: "bytes \<Rightarrow> ring option \<Rightarrow> nat \<times> bytes \<times> ring option" where
  "read_capture dst cap =
     (case cap of None \<Rightarrow> (0, dst, None) | Some r \<Rightarrow> (case ring_read dst r of (n, dst1, r1) \<Rightarrow> (n, dst1, Some r1)))"

fun shared_reads :: "(nat \<times> bytes) list \<Rightarrow> ring option \<Rightarrow> (nat \<times> bytes) list \<times> ring option" where
  "shared_reads [] cap = ([], cap)"
| "shared_reads ((reader, dst) # turns) cap =
     (case read_capture dst cap of (n, dst1, cap1) \<Rightarrow>
        (case shared_reads turns cap1 of (got, cap2) \<Rightarrow> ((reader, take n dst1) # got, cap2)))"

definition heard_by :: "nat \<Rightarrow> (nat \<times> bytes) list \<Rightarrow> bytes" where
  "heard_by i got = concat (map snd (filter (\<lambda>(r, _). r = i) got))"

section \<open>Discovery, links and names\<close>

text \<open>
  What \<^verbatim>\<open>runDiscoveryV2\<close> sends for a packet: \<open>own\<close> is the host's primary address, if it has one, and \<open>src\<close> the
  asker's.
\<close>

definition discovery_replies :: "bytes \<Rightarrow> bytes \<Rightarrow> int \<Rightarrow> addr \<Rightarrow> addr \<Rightarrow> bytes \<Rightarrow> bytes list" where
  "discovery_replies name instanceID port own src packet =
     (case decode_disc packet of
        Inr (Query _) \<Rightarrow>
          let a = \<lparr>an_tcp_port = port, an_instance_id = instanceID, an_advertised = (if own = NoAddr then src else own),
                   an_name = name, an_proto_version = 0\<rparr>
          in (case encode_announce a of
                Inl _ \<Rightarrow> []
              | Inr v1 \<Rightarrow> (case encode_announce_v2 (a\<lparr>an_proto_version := 2\<rparr>) of Inl _ \<Rightarrow> [] | Inr v2 \<Rightarrow> [v1, v2]))
      | _ \<Rightarrow> [])"

text \<open>\<open>showPort\<close> prints a number, \<open>host\<close> is the primary address as text, if there is one.\<close>

definition pairing_url :: "(int \<Rightarrow> string) \<Rightarrow> string option \<Rightarrow> int \<Rightarrow> bytes \<Rightarrow> string \<Rightarrow> string" where
  "pairing_url showPort host listenPort deviceID code =
     (let port = (if listenPort = 0 then 47010 else listenPort);
          ip = (case host of None \<Rightarrow> ''0.0.0.0'' | Some a \<Rightarrow> a)
      in ''remoteau://pair?v=2&h='' @ ip @ ''&p='' @ showPort port @ ''&id='' @ hex_of_bytes deviceID @ ''&c='' @ code)"

definition file_rune :: "nat \<Rightarrow> bool" where
  "file_rune r \<longleftrightarrow> 97 \<le> r \<and> r \<le> 122 \<or> 65 \<le> r \<and> r \<le> 90 \<or> 48 \<le> r \<and> r \<le> 57 \<or> r = 45 \<or> r = 95 \<or> r = 46"

definition sanitize_file :: "nat list \<Rightarrow> nat list" where
  "sanitize_file name = map (\<lambda>r. if file_rune r then r else 95) name"

definition runes :: "string \<Rightarrow> nat list" where
  "runes s = map of_char s"

text \<open>The recording of a stream: the receiver's name, the time as text, the suffix.\<close>

definition recording_name :: "nat list \<Rightarrow> string \<Rightarrow> nat list" where
  "recording_name name stamp = sanitize_file (name @ [45] @ runes stamp @ runes ''.wav'')"

definition short_fp :: "string \<Rightarrow> string" where
  "short_fp fp = (if length fp > 12 then take 12 fp else fp)"

section \<open>Following the default device\<close>

text \<open>One poll of \<^verbatim>\<open>monitorDefaultEndpoint\<close>: the id last seen, and whether the capture must be reopened.\<close>

definition monitors_endpoint :: "'c capture_state \<Rightarrow> bool" where
  "monitors_endpoint h \<longleftrightarrow> hc_source h = SourceLoopback \<and> hc_selector h = []"

definition endpoint_poll :: "bytes \<Rightarrow> bytes option \<Rightarrow> bytes \<times> bool" where
  "endpoint_poll prev polled =
     (case polled of None \<Rightarrow> (prev, False) | Some i \<Rightarrow> if i = [] then (prev, False) else (i, prev \<noteq> [] \<and> i \<noteq> prev))"

section \<open>What the readers of one capture hear\<close>

lemma read_capture_ring:
  assumes "ring_inv r"
  shows "\<exists>n dst1 r1. read_capture dst (Some r) = (n, dst1, Some r1) \<and> ring_inv r1 \<and> take n dst1 @ ring_abs r1 = ring_abs r"
  using ring_read_splits[OF assms, of dst] by (auto simp: read_capture_def)

lemma shared_reads_conserve:
  assumes "ring_inv r"
  shows "\<exists>r1. snd (shared_reads turns (Some r)) = Some r1 \<and> ring_inv r1 \<and>
    concat (map snd (fst (shared_reads turns (Some r)))) @ ring_abs r1 = ring_abs r"
  using assms
proof (induction turns arbitrary: r)
  case (Cons t turns)
  obtain reader dst where t: "t = (reader, dst)" by (cases t)
  obtain n dst1 r1 where r1: "read_capture dst (Some r) = (n, dst1, Some r1)" "ring_inv r1" "take n dst1 @ ring_abs r1 = ring_abs r"
    using read_capture_ring[OF Cons.prems] by blast
  obtain got cap where g: "shared_reads turns (Some r1) = (got, cap)" by (metis prod.exhaust)
  show ?case using Cons.IH[OF r1(2)] r1(1,3) by (auto simp: t g)
qed simp

lemma heard_two:
  "i \<noteq> j \<Longrightarrow> length (heard_by i got) + length (heard_by j got) \<le> length (concat (map snd got))"
  by (induction got) (auto simp: heard_by_def)


section \<open>A connection's beginning and end\<close>

lemma admit_keeps: "admit K P A nonces mk tok hc relayed fp s h = (a, s1, h1) \<Longrightarrow> hh_conns h1 = hh_conns h \<and> hh_resume h1 = hh_resume h"
  by (auto simp: admit_def admit_hello_def split: sum.splits prod.splits if_splits option.splits)

lemma start_stream_for_conns: "hh_conns (snd (snd (snd (snd (start_stream_for H token i req env))))) = hh_conns (snd (snd (snd env)))"
  by (simp add: start_stream_for_def store_resume_state_def Let_def split: prod.split sum.split option.split)

lemma start_stream_producer:
  "start_stream p h s = (e, h1, s1) \<Longrightarrow> h1 = h \<or> (\<exists>req. h1 = snd (p req h))"
  by (auto simp: start_stream_def Let_def split: if_splits prod.splits sum.splits) (metis snd_conv)+

lemma start_stream_conns:
  assumes "start_stream (stream_producer showErr H token i) (st, cap, w, h) s = (e, (st1, cap1, w1, h1), s1)"
  shows "hh_conns h1 = hh_conns h"
proof -
  have "snd (stream_producer showErr H token i req (st, cap, w, h)) = snd (start_stream_for H token i req (st, cap, w, h))" for req
    by (simp add: stream_producer_def split: prod.split)
  then show ?thesis using start_stream_producer[OF assms] start_stream_for_conns[of H token i _ "(st, cap, w, h)"]
    by (auto) (metis snd_conv)
qed

text \<open>\<open>only_left\<close>: of the lists of two services, only the entries of one connection have gone.\<close>

definition only_left :: "nat \<Rightarrow> string \<Rightarrow> ('f, 's, 'c, 't, 'w) service \<Rightarrow> ('f, 's, 'c, 't, 'w) service \<Rightarrow> bool" where
  "only_left cn key sv sv1 \<longleftrightarrow>
     (\<forall>k. map_of (hh_conns (sv_host sv1)) k = (if k = key then None else map_of (hh_conns (sv_host sv)) k)) \<and>
     (\<forall>c. map_of (sv_streams sv1) c = (if c = cn then None else map_of (sv_streams sv) c))"

lemma serve_stream_leaves:
  assumes "\<And>k. k \<noteq> key \<Longrightarrow> map_of (hh_conns (sv_host sv1)) k = map_of (hh_conns (sv_host sv)) k"
    "\<And>c. c \<noteq> cn \<Longrightarrow> map_of (sv_streams sv1) c = map_of (sv_streams sv) c"
  shows "only_left cn key sv (fst (serve_stream H held now cn key st s sv1))" "only_left cn key sv (left cn key sv1)"
  using assms by (auto simp: serve_stream_def left_def unregister_conn_def only_left_def delete_conv split: prod.split)


section \<open>The user's settings\<close>

lemma change_stream_lookup:
  "map_of (sv_streams (change_stream cn f sv)) c = map_option (\<lambda>st. if c = cn then f st else st) (map_of (sv_streams sv) c)"
proof -
  have "map_of (map (\<lambda>(c, st). (c, if c = cn then f st else st)) xs) c = map_option (\<lambda>st. if c = cn then f st else st) (map_of xs c)" for xs
    by (induction xs) auto
  then show ?thesis by (simp add: change_stream_def)
qed

lemma change_all_host [simp]: "sv_host (fold (\<lambda>(key, cn). change_stream cn f) xs sv) = sv_host sv"
  by (induction xs arbitrary: sv) (auto simp: change_stream_def)

lemma change_all_lookup:
  assumes "\<And>st. f (f st) = f st"
  shows "map_of (sv_streams (change_all f sv)) c =
    map_option (\<lambda>st. if c \<in> snd ` set (hh_conns (sv_host sv)) then f st else st) (map_of (sv_streams sv) c)"
proof -
  have "map_of (sv_streams (fold (\<lambda>(key, cn). change_stream cn f) xs sv)) c =
    map_option (\<lambda>st. if c \<in> snd ` set xs then f st else st) (map_of (sv_streams sv) c)" for xs
  proof (induction xs arbitrary: sv)
    case Nil
    show ?case by (cases "map_of (sv_streams sv) c") simp_all
  next
    case (Cons x xs)
    show ?case by (cases "map_of (sv_streams sv) c") (auto simp: Cons.IH change_stream_lookup assms split: prod.splits)
  qed
  then show ?thesis by (simp add: change_all_def)
qed

text \<open>
  The user's volume and mute reach the receiver they are meant for.  Setting the volume of a device keeps every other
  stream as it was and gives the named one a volume within 0 and 2; a volume in that range is taken as it
  is; muting all mutes exactly the listed connections, so a connection whose entry was
  removed under another's id goes on playing.
\<close>

theorem settings_reach_receiver:
  fixes F :: "rat float_ops" and sv :: "(rat, 's, 'c, 't, 'w) service"
  assumes F: "F = rat_ops" and cn: "map_of (hh_conns (sv_host sv)) i = Some cn" "map_of (sv_streams sv) cn = Some st"
  shows "(\<exists>v'. 0 \<le> v' \<and> v' \<le> 2 \<and> (0 \<le> v \<and> v \<le> 2 \<longrightarrow> v' = v) \<and>
      map_of (sv_streams (set_volume F i v sv)) cn = Some (st\<lparr>rx_volume := v'\<rparr>)) \<and>
    (\<forall>c. c \<noteq> cn \<longrightarrow> map_of (sv_streams (set_volume F i v sv)) c = map_of (sv_streams sv) c) \<and>
    map_of (sv_streams (set_muted i b sv)) cn = Some (st\<lparr>rx_muted := b\<rparr>) \<and>
    (\<forall>c st. map_of (sv_streams sv) c = Some st \<longrightarrow> map_of (sv_streams (mute_all b sv)) c =
       Some (if c \<in> snd ` set (hh_conns (sv_host sv)) then st\<lparr>rx_muted := b\<rparr> else st))"
proof -
  have v: "0 \<le> clamp_f64 F v (fo_of_int F 0) (fo_of_int F 2)" "clamp_f64 F v (fo_of_int F 0) (fo_of_int F 2) \<le> 2"
    "0 \<le> v \<and> v \<le> 2 \<Longrightarrow> clamp_f64 F v (fo_of_int F 0) (fo_of_int F 2) = v"
    by (simp_all add: F clamp_f64_def rat_ops_def)
  have idem: "st\<lparr>rx_muted := b\<rparr>\<lparr>rx_muted := b\<rparr> = st\<lparr>rx_muted := b\<rparr>" for st :: "(rat, 's) host_stream" by simp
  have id: "map_option (\<lambda>st. st) x = x" for x :: "(rat, 's) host_stream option" by (cases x) simp_all
  show ?thesis using v cn
    by (auto simp: set_volume_def set_muted_def mute_all_def change_receiver_def change_stream_lookup id
        change_all_lookup[of "\<lambda>st. st\<lparr>rx_muted := b\<rparr>", OF idem])
qed

section \<open>Names of recordings\<close>

lemma file_rune_safe: "file_rune r \<Longrightarrow> r \<noteq> 47 \<and> r \<noteq> 92 \<and> r \<noteq> 58 \<and> 32 < r \<and> r < 127"
  by (auto simp: file_rune_def)

text \<open>
  A recording stays in its directory.  Whatever name a receiver gives itself, the file name made of it holds letters,
  digits, dashes, underscores and dots only, so no separator, and ends in the suffix, so it is none of the names with a
  meaning of their own; it is as long as what it is made of and sanitizing it again changes nothing.
\<close>

theorem recording_stays_in_directory:
  "let f = recording_name name stamp
   in (\<forall>r \<in> set f. file_rune r \<and> r \<noteq> 47 \<and> r \<noteq> 92 \<and> r \<noteq> 58) \<and> length f = length name + length stamp + 5 \<and>
     drop (length f - 4) f = runes ''.wav'' \<and> sanitize_file f = f"
proof -
  have s: "\<forall>r \<in> set (sanitize_file xs). file_rune r" for xs by (auto simp: sanitize_file_def file_rune_def)
  have i: "sanitize_file (sanitize_file xs) = sanitize_file xs" for xs by (simp add: sanitize_file_def file_rune_def)
  have w: "sanitize_file (runes ''.wav'') = runes ''.wav''" by (simp add: sanitize_file_def runes_def file_rune_def)
  have f: "recording_name name stamp = sanitize_file (name @ [45] @ runes stamp) @ runes ''.wav''"
    using w by (simp add: recording_name_def sanitize_file_def)
  have l: "length (recording_name name stamp) = length name + length stamp + 5"
    by (simp add: f sanitize_file_def runes_def)
  have "\<forall>r \<in> set (recording_name name stamp). file_rune r" unfolding recording_name_def by (rule s)
  moreover have "drop (length (recording_name name stamp) - 4) (recording_name name stamp) = runes ''.wav''"
    unfolding l by (simp add: f sanitize_file_def runes_def)
  ultimately show ?thesis using file_rune_safe l i unfolding Let_def recording_name_def by blast
qed

section \<open>A concrete service\<close>

definition demo_service :: "(rat, unit, open_call, windows_store, unit) service" where
  "demo_service = \<lparr>sv_host = demo_paired\<lparr>hh_conns := [(''k'', 1)]\<rparr>, sv_streams = [(1, demo_stream), (2, demo_stream)],
     sv_capture = demo_capture, sv_world = ()\<rparr>"



theorem settings_reach_receiver_witness:
  "map_of (sv_streams (set_volume rat_ops ''k'' (3 / 2) demo_service)) 1 = Some (demo_stream\<lparr>rx_volume := 3 / 2\<rparr>) \<and>
   map_of (sv_streams (mute_all True demo_service)) 2 = Some demo_stream"
proof -
  have c: "map_of (hh_conns (sv_host demo_service)) ''k'' = Some 1" "map_of (sv_streams demo_service) 1 = Some demo_stream"
    "hh_conns (sv_host demo_service) = [(''k'', 1)]" "map_of (sv_streams demo_service) 2 = Some demo_stream"
    by (simp_all add: demo_service_def)
  show ?thesis using settings_reach_receiver[OF refl c(1,2), of "3 / 2" True] c(3,4) by auto
qed
end
