(* ===== verification/Float64.thy ===== *)
theory Float64
  imports GoFloat "HOL-Library.Log_Nat"
begin

text \<open>
  Go's \<^verbatim>\<open>float64\<close>, IEEE 754 binary64, as rational numbers rounded to 53 significant bits after each operation: to the
  nearest, ties to even, with gradual underflow below \<open>2 powi (- 1022)\<close>.  Only overflow is left out: a result of
  \<open>2 powi 1024\<close> or more, which no definition that uses \<open>f64_ops\<close> comes near, would be infinite in Go.  Each
  operation is rounded on its own, as Go's compiler does on amd64; on arm64 it may fuse a product and a sum.  The
  definitions compute, and the lemmas are those that proofs about rounded code need: rounding is monotone, keeps
  every number that fits, and errs by at most half a unit in the last place.
\<close>

section \<open>Rounding to an integer\<close>

definition round_even :: "rat \<Rightarrow> int" where
  "round_even q = (let f = \<lfloor>q\<rfloor>; d = q - of_int f in
     if d < 1 / 2 then f else if 1 / 2 < d then f + 1 else if even f then f else f + 1)"

lemma round_even_of_int [simp]: "round_even (of_int i) = i"
  by (simp add: round_even_def)

lemma round_even_error: "\<bar>of_int (round_even q) - q\<bar> \<le> 1 / 2"
  using of_int_floor_le[of q] floor_correct[of q] by (auto simp: round_even_def Let_def abs_le_iff)

lemma round_even_mono:
  assumes "p \<le> q"
  shows "round_even p \<le> round_even q"
proof (cases "\<lfloor>p\<rfloor> = \<lfloor>q\<rfloor>")
  case True
  then show ?thesis using assms by (simp add: round_even_def Let_def)
next
  case False
  then have "\<lfloor>p\<rfloor> + 1 \<le> \<lfloor>q\<rfloor>" using floor_mono[OF assms] by linarith
  moreover have "round_even p \<le> \<lfloor>p\<rfloor> + 1" "\<lfloor>q\<rfloor> \<le> round_even q" by (simp_all add: round_even_def Let_def)
  ultimately show ?thesis by linarith
qed

lemma round_even_minus: "round_even (- q) = - round_even q"
proof (cases "of_int \<lfloor>q\<rfloor> = q")
  case True
  then obtain i where "q = of_int i" by metis
  then show ?thesis using round_even_of_int[of "- i"] by simp
next
  case False
  then have "of_int \<lfloor>q\<rfloor> < q" using of_int_floor_le[of q] by (simp add: less_le)
  then have "\<lfloor>- q\<rfloor> = - \<lfloor>q\<rfloor> - 1" using floor_correct[of q] by (intro floor_unique) (simp_all add: le_less)
  then show ?thesis by (simp add: round_even_def Let_def)
qed

section \<open>The exponent of a number\<close>

lemma powi_mono [simp]: "((2 :: rat) powi a \<le> 2 powi b) = (a \<le> b)"
  using power_int_increasing[of a b "2 :: rat"] power_int_strict_increasing[of b a "2 :: rat"] by fastforce

lemma powi_strict [simp]: "((2 :: rat) powi a < 2 powi b) = (a < b)"
  using powi_mono[of b a] by linarith

lemma powi_pos: "0 < (2 :: rat) powi e"
  by simp

lemma powi_split: "(2 :: rat) powi (a + b) = 2 powi a * 2 powi b"
  by (rule power_int_add) simp

lemma powi_nat: "0 \<le> e \<Longrightarrow> (2 :: rat) powi e = of_int (2 ^ nat e)"
  by (simp add: power_int_def)

definition f64_exp :: "rat \<Rightarrow> int" where
  "f64_exp q = (let (n, d) = quotient_of \<bar>q\<bar>; e = bitlen n - bitlen d in if 2 powi e \<le> \<bar>q\<bar> then e else e - 1)"

lemma bitlen_powi:
  assumes "0 < n"
  shows "(2 :: rat) powi (bitlen n - 1) \<le> of_int n" "of_int n < (2 :: rat) powi bitlen n"
proof -
  have "bitlen n \<noteq> 0" using assms by (simp add: bitlen_eq_zero_iff)
  then have p: "0 \<le> bitlen n - 1" "0 \<le> bitlen n" using bitlen_nonneg[of n] by linarith+
  show "(2 :: rat) powi (bitlen n - 1) \<le> of_int n" "of_int n < (2 :: rat) powi bitlen n"
    using bitlen_bounds[OF assms] unfolding powi_nat[OF p(1)] powi_nat[OF p(2)] of_int_le_iff of_int_less_iff by blast+
qed

lemma f64_exp_bounds:
  assumes "q \<noteq> 0"
  shows "2 powi f64_exp q \<le> \<bar>q\<bar>" "\<bar>q\<bar> < 2 powi (f64_exp q + 1)"
proof -
  obtain n d where nd: "quotient_of \<bar>q\<bar> = (n, d)" by fastforce
  have d: "0 < d" and q: "\<bar>q\<bar> = of_int n / of_int d" using quotient_of_denom_pos[OF nd] quotient_of_div[OF nd] by blast+
  have dn: "0 < (of_int d :: rat)" "\<bar>q\<bar> * of_int d = of_int n" using d q by simp_all
  have "(0 :: rat) < of_int n" using assms dn by (metis mult_pos_pos zero_less_abs_iff)
  then have n: "0 < n" by simp
  let ?e = "bitlen n - bitlen d"
  note bn = bitlen_powi[OF n] and bd = bitlen_powi[OF d]
  have up: "\<bar>q\<bar> < 2 powi (?e + 1)"
  proof (rule ccontr)
    assume "\<not> ?thesis"
    then have "2 powi (?e + 1) * 2 powi (bitlen d - 1) \<le> \<bar>q\<bar> * of_int d" using bd(1) by (intro mult_mono) simp_all
    then show False using bn(2) unfolding dn(2) powi_split[symmetric] by simp
  qed
  have lo: "2 powi (?e - 1) \<le> \<bar>q\<bar>"
  proof (rule ccontr)
    assume "\<not> ?thesis"
    then have "\<bar>q\<bar> * of_int d < 2 powi (?e - 1) * 2 powi bitlen d" using bd(2) dn(1) by (intro mult_strict_mono) simp_all
    then show False using bn(1) unfolding dn(2) powi_split[symmetric] by simp
  qed
  show "2 powi f64_exp q \<le> \<bar>q\<bar>" "\<bar>q\<bar> < 2 powi (f64_exp q + 1)" using up lo by (auto simp: f64_exp_def nd Let_def)
qed

lemma f64_exp_ge: "2 powi e \<le> \<bar>q\<bar> \<Longrightarrow> e \<le> f64_exp q"
proof (cases "q = 0")
  case False
  assume "2 powi e \<le> \<bar>q\<bar>"
  then have "(2 :: rat) powi e < 2 powi (f64_exp q + 1)" using f64_exp_bounds(2)[OF False] by (rule le_less_trans)
  then show ?thesis by simp
qed (use powi_pos[of e] in linarith)

lemma f64_exp_lt: "q \<noteq> 0 \<Longrightarrow> \<bar>q\<bar> < 2 powi e \<Longrightarrow> f64_exp q < e"
  using f64_exp_bounds(1)[of q] powi_strict[of "f64_exp q" e] by linarith

section \<open>Rounding to 53 bits\<close>

text \<open>The exponent of the last place, and the rounding.\<close>

definition f64_ulp :: "rat \<Rightarrow> int" where
  "f64_ulp q = max (f64_exp q) (- 1022) - 52"

definition f64_round :: "rat \<Rightarrow> rat" where
  "f64_round q = (if q = 0 then 0 else of_int (round_even (q / 2 powi f64_ulp q)) * 2 powi f64_ulp q)"

definition is_f64 :: "rat \<Rightarrow> bool" where
  "is_f64 q \<longleftrightarrow> f64_round q = q"

lemma f64_round_0 [simp]: "f64_round 0 = 0"
  by (simp add: f64_round_def)

lemma f64_round_minus: "f64_round (- q) = - f64_round q"
  by (simp add: f64_round_def f64_ulp_def f64_exp_def round_even_minus)

lemma f64_exact:
  assumes "q = of_int m * 2 powi j" "\<bar>m\<bar> \<le> 2 ^ 53" "- 1074 \<le> j"
  shows "f64_round q = q"
proof (cases "q = 0")
  case False
  have "\<bar>q\<bar> = of_int \<bar>m\<bar> * 2 powi j" using assms(1) by (simp add: abs_mult)
  moreover have "of_int \<bar>m\<bar> \<le> (2 :: rat) powi 53" using assms(2) by (subst powi_nat) (simp_all only: of_int_le_iff, simp_all)
  ultimately have le: "\<bar>q\<bar> \<le> 2 powi (53 + j)" unfolding powi_split by simp
  obtain i where i: "q = of_int i * 2 powi f64_ulp q"
  proof (cases "f64_ulp q \<le> j")
    case True
    have "of_int m * 2 powi j = of_int (m * 2 ^ nat (j - f64_ulp q)) * (2 :: rat) powi f64_ulp q"
      using powi_split[of "j - f64_ulp q" "f64_ulp q"] powi_nat[of "j - f64_ulp q"] True by simp
    then show ?thesis using that assms(1) by metis
  next
    case ulp: False
    then have e: "f64_ulp q = f64_exp q - 52" using assms(3) by (auto simp: f64_ulp_def)
    have "f64_exp q \<le> 53 + j" using f64_exp_bounds(1)[OF False] le by (metis order_trans powi_mono)
    then have e: "f64_exp q = 53 + j" using ulp e by simp
    then have "\<bar>q\<bar> = 2 powi (53 + j)" using f64_exp_bounds(1)[OF False] le by simp
    moreover have "(2 :: rat) powi (53 + j) = of_int (2 ^ 52) * 2 powi f64_ulp q"
      using powi_split[of 52 "f64_ulp q"] e ulp \<open>f64_ulp q = f64_exp q - 52\<close> by (simp add: add.commute)
    ultimately have "q = of_int (2 ^ 52) * 2 powi f64_ulp q \<or> q = of_int (- (2 ^ 52)) * 2 powi f64_ulp q"
      by (simp add: abs_if split: if_splits)
    then show ?thesis using that by blast
  qed
  then have "q / 2 powi f64_ulp q = of_int i" using powi_pos[of "f64_ulp q"] by (metis nonzero_mult_div_cancel_right less_irrefl)
  then show ?thesis using i False by (simp add: f64_round_def)
qed simp

lemma f64_of_int: "\<bar>i\<bar> \<le> 2 ^ 53 \<Longrightarrow> f64_round (of_int i) = of_int i"
  by (rule f64_exact[of _ i 0]) simp_all

lemma f64_error: "\<bar>f64_round q - q\<bar> \<le> 2 powi (f64_ulp q - 1)"
proof (cases "q = 0")
  case False
  let ?u = "(2 :: rat) powi f64_ulp q"
  have "f64_round q - q = (of_int (round_even (q / ?u)) - q / ?u) * ?u" using False by (simp add: f64_round_def left_diff_distrib)
  then have "\<bar>f64_round q - q\<bar> = \<bar>of_int (round_even (q / ?u)) - q / ?u\<bar> * ?u" by (simp add: abs_mult)
  also have "\<dots> \<le> 1 / 2 * ?u" using round_even_error by (intro mult_right_mono) simp_all
  finally show ?thesis using powi_split[of "f64_ulp q" "- 1"] by (simp add: power_int_minus)
qed simp

lemma f64_error_below:
  assumes "\<bar>q\<bar> < 2 powi e" "- 1022 < e"
  shows "\<bar>f64_round q - q\<bar> \<le> 2 powi (e - 54)"
proof (cases "q = 0")
  case False
  have "f64_ulp q - 1 \<le> e - 54" using f64_exp_lt[OF False assms(1)] assms(2) by (simp add: f64_ulp_def)
  then show ?thesis using f64_error[of q] powi_mono order_trans by blast
qed simp

text \<open>A number with a last place of at least \<open>e\<close> is a multiple of \<open>2 powi e\<close>.\<close>

lemma f64_multiple:
  assumes "is_f64 q" "2 powi e \<le> \<bar>q\<bar>" "- 1022 \<le> e"
  shows "\<exists>m. q = of_int m * 2 powi (e - 52)"
proof -
  have "e - 52 \<le> f64_ulp q" using f64_exp_ge[OF assms(2)] by (simp add: f64_ulp_def)
  then have "(2 :: rat) powi f64_ulp q = of_int (2 ^ nat (f64_ulp q - (e - 52))) * 2 powi (e - 52)"
    using powi_split[of "f64_ulp q - (e - 52)" "e - 52"] powi_nat[of "f64_ulp q - (e - 52)"] by simp
  moreover have "q \<noteq> 0" using less_le_trans[OF powi_pos assms(2)] by simp
  then have "q = of_int (round_even (q / 2 powi f64_ulp q)) * 2 powi f64_ulp q"
    using assms(1) by (simp add: is_f64_def f64_round_def)
  ultimately have "q = of_int (round_even (q / 2 powi f64_ulp q) * 2 ^ nat (f64_ulp q - (e - 52))) * 2 powi (e - 52)"
    by simp
  then show ?thesis by blast
qed

lemma f64_round_pos_bounds:
  assumes "0 < q"
  shows "f64_round q \<le> 2 powi (f64_ulp q + 53)" "- 1022 < f64_exp q \<Longrightarrow> 2 powi f64_exp q \<le> f64_round q" "0 \<le> f64_round q"
proof -
  let ?u = "(2 :: rat) powi f64_ulp q"
  have b: "2 powi f64_exp q \<le> q" "q < 2 powi (f64_exp q + 1)" using f64_exp_bounds[of q] assms by simp_all
  have r: "f64_round q = of_int (round_even (q / ?u)) * ?u" using assms by (simp add: f64_round_def)
  have "f64_exp q + 1 \<le> f64_ulp q + 53" by (simp add: f64_ulp_def)
  then have "q \<le> 2 powi (f64_ulp q + 53)" using b(2) powi_mono[of "f64_exp q + 1" "f64_ulp q + 53"] by linarith
  then have "q / ?u \<le> of_int (2 ^ 53)" using powi_split[of "f64_ulp q" 53] powi_pos[of "f64_ulp q"] by (simp add: pos_divide_le_eq mult.commute)
  from round_even_mono[OF this] have "round_even (q / ?u) \<le> 2 ^ 53" unfolding round_even_of_int .
  then have "of_int (round_even (q / ?u)) * ?u \<le> of_int (2 ^ 53) * ?u" by (intro mult_right_mono) (simp_all only: of_int_le_iff, simp)
  then show "f64_round q \<le> 2 powi (f64_ulp q + 53)" using powi_split[of "f64_ulp q" 53] r by (simp add: mult.commute)
  have "of_int 0 \<le> q / ?u" using assms by simp
  from round_even_mono[OF this] have "0 \<le> round_even (q / ?u)" unfolding round_even_of_int .
  then show "0 \<le> f64_round q" unfolding r by simp
  assume e: "- 1022 < f64_exp q"
  then have u: "f64_ulp q = f64_exp q - 52" by (simp add: f64_ulp_def)
  have s: "2 powi f64_exp q = of_int (2 ^ 52) * ?u" using powi_split[of "f64_ulp q" 52] u by (simp add: mult.commute)
  then have "of_int (2 ^ 52) \<le> q / ?u" using b(1) powi_pos[of "f64_ulp q"] by (simp add: pos_le_divide_eq)
  from round_even_mono[OF this] have "2 ^ 52 \<le> round_even (q / ?u)" unfolding round_even_of_int .
  then have "of_int (2 ^ 52) * ?u \<le> of_int (round_even (q / ?u)) * ?u" by (intro mult_right_mono) (simp_all only: of_int_le_iff, simp)
  then show "2 powi f64_exp q \<le> f64_round q" unfolding r s .
qed

lemma f64_round_mono_pos:
  assumes "0 < p" "p \<le> q"
  shows "f64_round p \<le> f64_round q"
proof (cases "f64_ulp p = f64_ulp q")
  case True
  have "p / 2 powi f64_ulp q \<le> q / 2 powi f64_ulp q" using assms(2) by (intro divide_right_mono) simp_all
  from round_even_mono[OF this] show ?thesis using assms True by (simp add: f64_round_def)
next
  case False
  have "f64_exp p \<le> f64_exp q" using f64_exp_bounds(1)[of p] assms by (intro f64_exp_ge) simp
  then have e: "f64_exp p < f64_exp q" "- 1022 < f64_exp q" using False by (auto simp: f64_ulp_def)
  have "f64_ulp p + 53 \<le> f64_exp q" using e by (auto simp: f64_ulp_def)
  then have "f64_round p \<le> 2 powi f64_exp q" using f64_round_pos_bounds(1)[OF assms(1)] powi_mono order_trans by blast
  then show ?thesis using f64_round_pos_bounds(2)[of q] e(2) assms by simp
qed

lemma f64_round_mono:
  assumes "p \<le> q"
  shows "f64_round p \<le> f64_round q"
proof -
  consider "0 < p" | "p \<le> 0" "0 \<le> q" | "q < 0" by linarith
  then show ?thesis
  proof cases
    case 1
    then show ?thesis by (rule f64_round_mono_pos[OF _ assms])
  next
    case 2
    have "0 \<le> f64_round q" using 2 f64_round_pos_bounds(3)[of q] by (cases "q = 0") simp_all
    moreover have "0 \<le> f64_round (- p)" using 2 f64_round_pos_bounds(3)[of "- p"] by (cases "p = 0") simp_all
    ultimately show ?thesis by (simp add: f64_round_minus)
  next
    case 3
    then show ?thesis using f64_round_mono_pos[of "- q" "- p"] assms by (simp add: f64_round_minus)
  qed
qed

lemma is_f64_round [simp]: "is_f64 (f64_round q)"
proof (cases "q = 0")
  case False
  have "\<bar>round_even (q / 2 powi f64_ulp q)\<bar> \<le> 2 ^ 53"
  proof -
    have "f64_round \<bar>q\<bar> \<le> 2 powi (f64_ulp \<bar>q\<bar> + 53)" using False by (intro f64_round_pos_bounds(1)) simp
    moreover have "f64_ulp \<bar>q\<bar> = f64_ulp q" by (simp add: f64_ulp_def f64_exp_def)
    ultimately have "of_int (round_even (\<bar>q\<bar> / 2 powi f64_ulp q)) * (2 :: rat) powi f64_ulp q \<le> of_int (2 ^ 53) * 2 powi f64_ulp q"
      using False powi_split[of "f64_ulp q" 53] by (simp add: f64_round_def mult.commute)
    then have "(of_int (round_even (\<bar>q\<bar> / 2 powi f64_ulp q)) :: rat) \<le> of_int (2 ^ 53)" using powi_pos mult_le_cancel_right_pos by blast
    then have "round_even (\<bar>q\<bar> / 2 powi f64_ulp q) \<le> 2 ^ 53" by (simp only: of_int_le_iff)
    moreover have "0 \<le> round_even (\<bar>q\<bar> / 2 powi f64_ulp q)"
      using round_even_mono[of 0 "\<bar>q\<bar> / 2 powi f64_ulp q"] round_even_of_int[of 0] by simp
    moreover have "round_even (- (q / 2 powi f64_ulp q)) = - round_even (q / 2 powi f64_ulp q)" by (rule round_even_minus)
    ultimately show ?thesis by (cases "0 \<le> q") (auto simp: abs_if)
  qed
  then show ?thesis using False f64_exact[of "f64_round q" "round_even (q / 2 powi f64_ulp q)" "f64_ulp q"]
    by (simp add: is_f64_def f64_round_def f64_ulp_def)
qed (simp add: is_f64_def)

section \<open>The operations\<close>

definition f64_ops :: "rat float_ops" where
  "f64_ops = \<lparr>fo_zero = 0, fo_one = 1, fo_half = 1 / 2, fo_add = (\<lambda>a b. f64_round (a + b)), fo_sub = (\<lambda>a b. f64_round (a - b)),
     fo_mul = (\<lambda>a b. f64_round (a * b)), fo_div = (\<lambda>a b. f64_round (a / b)), fo_of_int = (\<lambda>i. f64_round (of_int i)),
     fo_lit = f64_round, fo_less = (<), fo_eq = (=), fo_finite = (\<lambda>_. True), fo_trunc = trunc_rat,
     fo_trunc16 = (\<lambda>q. word_of_int (trunc_rat q)), fo_round = round_rat\<rparr>"

lemma f64_ops_fields [simp]:
  "fo_zero f64_ops = 0" "fo_one f64_ops = 1" "fo_half f64_ops = 1 / 2" "fo_add f64_ops a b = f64_round (a + b)"
  "fo_sub f64_ops a b = f64_round (a - b)" "fo_mul f64_ops a b = f64_round (a * b)" "fo_div f64_ops a b = f64_round (a / b)"
  "fo_of_int f64_ops i = f64_round (of_int i)" "fo_lit f64_ops q = f64_round q" "fo_less f64_ops a b = (a < b)"
  "fo_eq f64_ops a b = (a = b)" "fo_finite f64_ops a" "fo_trunc f64_ops = trunc_rat" "fo_round f64_ops = round_rat"
  "fo_trunc16 f64_ops q = word_of_int (trunc_rat q)"
  by (simp_all add: f64_ops_def)

end
