(* ===== verification/Resample.thy ===== *)
theory Resample
  imports AudioRing Float64
begin

text \<open>
  The sample converters of the Windows backend: what the capture does to the device's packets
  (\<^verbatim>\<open>engine/internal/audio/wasapi/capture.go\<close>) and how the playback fills the device's buffer
  (\<^verbatim>\<open>render.go\<close>).  The device itself is a parameter: the capture is given packets, the playback a
  \<^verbatim>\<open>PullFunc\<close> and buffers to fill.  The arithmetic is a \<open>float_ops\<close> record; \<open>f32\<close> reads the bits of
  a \<^verbatim>\<open>float32\<close>.  A loop that need not end is a partial function into \<open>option\<close>: \<open>None\<close> is not returning.
\<close>

section \<open>Samples\<close>

definition fo_ge :: "'f float_ops \<Rightarrow> 'f \<Rightarrow> 'f \<Rightarrow> bool" where
  "fo_ge F a b \<longleftrightarrow> fo_less F b a \<or> fo_eq F b a"

definition bytes_to_int16 :: "bytes \<Rightarrow> u16 list" where
  "bytes_to_int16 b = map (\<lambda>i. get_le (slice (2 * i) (2 * i + 2) b)) [0..<length b div 2]"

definition f64_to_u16 :: "'f float_ops \<Rightarrow> 'f \<Rightarrow> u16" where
  "f64_to_u16 F v =
     (if fo_ge F v (fo_one F) then 32767
      else if fo_ge F (fo_of_int F (- 1)) v then 32768
      else fo_trunc16 F (fo_round F (fo_mul F v (fo_of_int F 32767))))"

definition s16_from_f64 :: "'f float_ops \<Rightarrow> 'f \<Rightarrow> u16" where
  "s16_from_f64 F v =
     (if fo_ge F v (fo_one F) then 32767
      else if fo_ge F (fo_of_int F (- 1)) v then 32768
      else fo_trunc16 F (fo_round F (fo_mul F v (fo_of_int F 32767))))"

definition lerp :: "'f float_ops \<Rightarrow> 'f \<Rightarrow> 'f \<Rightarrow> 'f \<Rightarrow> 'f" where
  "lerp F a b t = fo_add F a (fo_mul F (fo_sub F b a) t)"

section \<open>The capture's converter\<close>

record mix_format =
  mf_rate :: int
  mf_channels :: nat
  mf_bits :: nat
  mf_is_float :: bool

record 'f converter =
  cv_in_bytes_per_frame :: nat
  cv_in_is_float :: bool
  cv_in_bits :: nat
  cv_in_channels :: nat
  cv_in_rate :: int
  cv_out_channels :: nat
  cv_out_rate :: int
  cv_needs_resample :: bool
  cv_frac :: 'f

definition new_capture_converter :: "'f float_ops \<Rightarrow> mix_format \<Rightarrow> nat \<Rightarrow> int \<Rightarrow> 'f converter" where
  "new_capture_converter F mix outChannels outRate = \<lparr>
     cv_in_bytes_per_frame = mf_channels mix * mf_bits mix div 8, cv_in_is_float = mf_is_float mix,
     cv_in_bits = mf_bits mix, cv_in_channels = mf_channels mix, cv_in_rate = mf_rate mix,
     cv_out_channels = outChannels, cv_out_rate = outRate, cv_needs_resample = (mf_rate mix \<noteq> outRate),
     cv_frac = fo_zero F\<rparr>"

definition output_frames :: "'f float_ops \<Rightarrow> 'f converter \<Rightarrow> nat \<Rightarrow> nat" where
  "output_frames F cv n =
     (if \<not> cv_needs_resample cv then n
      else nat (fo_trunc F (fo_div F (fo_mul F (fo_of_int F (int n)) (fo_of_int F (cv_out_rate cv)))
             (fo_of_int F (cv_in_rate cv))) + 2))"

definition decode_to_float64 ::
  "'f float_ops \<Rightarrow> (u32 \<Rightarrow> 'f) \<Rightarrow> bytes \<Rightarrow> nat \<Rightarrow> nat \<Rightarrow> bool \<Rightarrow> nat \<Rightarrow> 'f list" where
  "decode_to_float64 F f32 dat frames channels isFloat bits =
     (let total = frames * channels in
      if isFloat \<and> bits = 32 then map (\<lambda>i. f32 (get_le (slice (4 * i) (4 * i + 4) dat))) [0..<total]
      else if \<not> isFloat \<and> bits = 16 then
        map (\<lambda>i. fo_div F (fo_of_int F (sint (get_le (slice (2 * i) (2 * i + 2) dat) :: u16))) (fo_of_int F 32768)) [0..<total]
      else if \<not> isFloat \<and> bits = 32 then
        map (\<lambda>i. fo_div F (fo_of_int F (sint (get_le (slice (4 * i) (4 * i + 4) dat) :: u32))) (fo_of_int F 2147483648)) [0..<total]
      else replicate total (fo_zero F))"

definition map_channels :: "'f float_ops \<Rightarrow> 'f list \<Rightarrow> nat \<Rightarrow> nat \<Rightarrow> nat \<Rightarrow> 'f list" where
  "map_channels F ins frames inCh outCh =
     (if inCh = outCh then ins
      else concat (map (\<lambda>f. map (\<lambda>c.
             if inCh = 1 \<and> outCh = 2 \<and> c = 1 then ins ! (f * inCh)
             else if c < min inCh outCh then ins ! (f * inCh + c) else fo_zero F) [0..<outCh]) [0..<frames]))"

partial_function (option) resample_linear ::
  "'f float_ops \<Rightarrow> 'f list \<Rightarrow> nat \<Rightarrow> nat \<Rightarrow> 'f \<Rightarrow> 'f \<Rightarrow> ('f list \<times> 'f) option"
where
  "resample_linear F ins inFrames inCh ratio pos =
     (if fo_less F pos (fo_of_int F (int inFrames - 1)) then
        let i = nat (fo_trunc F pos); t = fo_sub F pos (fo_of_int F (int i));
            frame = map (\<lambda>c. lerp F (ins ! (i * inCh + c)) (ins ! ((i + 1) * inCh + c)) t) [0..<inCh]
        in Option.bind (resample_linear F ins inFrames inCh ratio (fo_add F pos ratio))
             (\<lambda>(out, fr). Some (frame @ out, fr))
      else Some ([], fo_sub F pos (fo_of_int F (int inFrames - 1))))"

definition append_f64_to_s16 :: "'f float_ops \<Rightarrow> 'f list \<Rightarrow> nat \<Rightarrow> bytes" where
  "append_f64_to_s16 F src channels =
     concat (map (\<lambda>v. put_le 2 (f64_to_u16 F v)) (take (length src - length src mod channels) src))"

definition append_f32_to_s16 :: "'f float_ops \<Rightarrow> (u32 \<Rightarrow> 'f) \<Rightarrow> bytes \<Rightarrow> bytes" where
  "append_f32_to_s16 F f32 src =
     concat (map (\<lambda>i. put_le 2 (f64_to_u16 F (f32 (get_le (slice (4 * i) (4 * i + 4) src))))) [0..<length src div 4])"

definition convert ::
  "'f float_ops \<Rightarrow> (u32 \<Rightarrow> 'f) \<Rightarrow> 'f converter \<Rightarrow> bytes \<Rightarrow> nat \<Rightarrow> (bytes \<times> 'f converter) option" where
  "convert F f32 cv dat frames =
     (if frames = 0 then Some ([], cv)
      else if cv_in_rate cv = cv_out_rate cv \<and> cv_in_channels cv = cv_out_channels cv \<and> cv_in_is_float cv \<and> cv_in_bits cv = 32
      then Some (append_f32_to_s16 F f32 (take (frames * cv_in_channels cv * 4) dat), cv)
      else
        let ins = decode_to_float64 F f32 dat frames (cv_in_channels cv) (cv_in_is_float cv) (cv_in_bits cv);
            mapped = map_channels F ins frames (cv_in_channels cv) (cv_out_channels cv)
        in if cv_needs_resample cv then
             (case resample_linear F mapped frames (cv_out_channels cv)
                     (fo_div F (fo_of_int F (cv_in_rate cv)) (fo_of_int F (cv_out_rate cv))) (cv_frac cv) of
                None \<Rightarrow> None
              | Some (out, fr) \<Rightarrow> Some (append_f64_to_s16 F out (cv_out_channels cv), cv\<lparr>cv_frac := fr\<rparr>))
           else Some (append_f64_to_s16 F mapped (cv_out_channels cv), cv))"

definition convert_silence :: "'f float_ops \<Rightarrow> 'f converter \<Rightarrow> nat \<Rightarrow> bytes" where
  "convert_silence F cv frames = replicate (output_frames F cv frames * cv_out_channels cv * 2) 0"

text \<open>One packet of the poll loop: its data, its number of frames and whether it is flagged silent.\<close>

definition capture_packet ::
  "'f float_ops \<Rightarrow> (u32 \<Rightarrow> 'f) \<Rightarrow> bool \<Rightarrow> bytes \<times> nat \<times> bool \<Rightarrow> 'f converter \<times> ring \<Rightarrow> ('f converter \<times> ring) option" where
  "capture_packet F f32 contended pkt st =
     (case pkt of (dat, frames, silent) \<Rightarrow> case st of (cv, r) \<Rightarrow>
        if frames = 0 then Some (cv, r)
        else if silent then Some (cv, snd (ring_try_write contended (convert_silence F cv frames) r))
        else case convert F f32 cv dat frames of
               None \<Rightarrow> None
             | Some (pcm, cv1) \<Rightarrow> Some (cv1, snd (ring_try_write contended pcm r)))"

section \<open>The playback's resampler\<close>

text \<open>A pull function over a world: given a buffer's length it returns the bytes it wrote to its front.\<close>

type_synonym 'w puller = "nat \<Rightarrow> 'w \<Rightarrow> bytes \<times> 'w"

datatype 'a go_result = Returns 'a | Panics

record 'f resampler =
  rp_in_rate :: int
  rp_out_rate :: int
  rp_channels :: nat
  rp_pending :: "u16 list"
  rp_pos :: 'f

definition new_s16_resampler :: "'f float_ops \<Rightarrow> int \<Rightarrow> nat \<Rightarrow> int \<Rightarrow> 'f resampler" where
  "new_s16_resampler F inRate channels outRate =
     \<lparr>rp_in_rate = inRate, rp_out_rate = outRate, rp_channels = channels, rp_pending = [], rp_pos = fo_zero F\<rparr>"

text \<open>The inner loop: pull until \<open>need\<close> frames are pending; \<open>False\<close> when the source starved.\<close>

partial_function (option) refill ::
  "'w puller \<Rightarrow> nat \<Rightarrow> nat \<Rightarrow> u16 list \<Rightarrow> 'w \<Rightarrow> (bool \<times> u16 list \<times> 'w) option"
where
  "refill pull ch need pending w =
     (if length pending div ch < need then
        (case pull (4096 * ch * 2) w of (d, w1) \<Rightarrow>
           if d = [] then Some (False, pending, w1) else refill pull ch need (pending @ bytes_to_int16 d) w1)
      else Some (True, pending, w))"

definition resampled_frame :: "'f float_ops \<Rightarrow> nat \<Rightarrow> u16 list \<Rightarrow> nat \<Rightarrow> 'f \<Rightarrow> bytes" where
  "resampled_frame F ch pending i t =
     concat (map (\<lambda>c. put_le 2 (s16_from_f64 F (fo_div F
         (lerp F (fo_of_int F (sint (pending ! (i * ch + c)))) (fo_of_int F (sint (pending ! ((i + 1) * ch + c)))) t)
         (fo_of_int F 32768)))) [0..<ch])"

text \<open>
  \<^verbatim>\<open>pull\<close> with \<open>k\<close> frames still to write.  Cutting the consumed frames off the pending ones panics when
  there are not that many.
\<close>

primrec resampler_pull ::
  "'f float_ops \<Rightarrow> 'w puller \<Rightarrow> nat \<Rightarrow> 'f resampler \<Rightarrow> 'w \<Rightarrow> (bytes \<times> 'f resampler \<times> 'w) go_result option"
where
  "resampler_pull F pull 0 r w = Some (Returns ([], r, w))"
| "resampler_pull F pull (Suc k) r w =
     (let ch = rp_channels r; i = nat (fo_trunc F (rp_pos r)) in
      case refill pull ch (i + 2) (rp_pending r) w of
        None \<Rightarrow> None
      | Some (enough, p, w1) \<Rightarrow>
          if \<not> enough then Some (Returns (replicate (Suc k * ch * 2) 0, r\<lparr>rp_pending := [], rp_pos := fo_zero F\<rparr>, w1))
          else
            let t = fo_sub F (rp_pos r) (fo_of_int F (int i));
                frame = resampled_frame F ch p i t;
                pos1 = fo_add F (rp_pos r) (fo_div F (fo_of_int F (rp_in_rate r)) (fo_of_int F (rp_out_rate r)));
                consumed = nat (fo_trunc F pos1)
            in if consumed * ch > length p then Some Panics
               else
                 let r1 = r\<lparr>rp_pending := drop (consumed * ch) p,
                       rp_pos := (if consumed > 0 then fo_sub F pos1 (fo_of_int F (int consumed)) else pos1)\<rparr>
                 in (case resampler_pull F pull k r1 w1 of
                       Some (Returns (out, r2, w2)) \<Rightarrow> Some (Returns (frame @ out, r2, w2))
                     | other \<Rightarrow> other))"

section \<open>Filling the device's buffer\<close>

text \<open>
  \<^verbatim>\<open>writeFrames\<close> without a resampler: \<open>left\<close> frames are still to write, and the part of a frame the source may
  leave at the end of what it wrote is overwritten.
\<close>

partial_function (option) fill_frames :: "'w puller \<Rightarrow> nat \<Rightarrow> nat \<Rightarrow> 'w \<Rightarrow> (bytes \<times> 'w) option" where
  "fill_frames pull bpf left w =
     (if left = 0 then Some ([], w)
      else case pull (left * bpf) w of (d, w1) \<Rightarrow>
        if d = [] then Some (replicate (left * bpf) 0, w1)
        else let k = length d div bpf in
          Option.bind (fill_frames pull bpf (left - k) w1) (\<lambda>(rest, w2). Some (take (k * bpf) d @ rest, w2)))"

definition mapped_sample :: "bytes \<Rightarrow> nat \<Rightarrow> nat \<Rightarrow> nat \<Rightarrow> u16" where
  "mapped_sample src srcCh f c =
     (if c < srcCh then get_le (slice ((f * srcCh + c) * 2) ((f * srcCh + c) * 2 + 2) src)
      else if srcCh = 1 then get_le (slice (f * 2) (f * 2 + 2) src)
      else 0)"

text \<open>What the maps write to the front of the device's buffer; \<open>G\<close> is \<^verbatim>\<open>float32\<close> arithmetic.\<close>

definition s16_to_f32_mapped :: "'g float_ops \<Rightarrow> bytes \<Rightarrow> nat \<Rightarrow> nat \<Rightarrow> 'g list" where
  "s16_to_f32_mapped G src srcCh dstCh =
     (if srcCh = 0 \<or> dstCh = 0 then []
      else concat (map (\<lambda>f. map (\<lambda>c.
             if c < srcCh \<or> srcCh = 1 then fo_div G (fo_of_int G (sint (mapped_sample src srcCh f c))) (fo_of_int G 32768)
             else fo_zero G) [0..<dstCh]) [0..<length src div (srcCh * 2)]))"

definition s16_to_s16_mapped :: "bytes \<Rightarrow> nat \<Rightarrow> nat \<Rightarrow> bytes" where
  "s16_to_s16_mapped src srcCh dstCh =
     (if srcCh = 0 \<or> dstCh = 0 then []
      else concat (map (\<lambda>f. concat (map (\<lambda>c. put_le 2 (mapped_sample src srcCh f c)) [0..<dstCh]))
             [0..<length src div (srcCh * 2)]))"

record 'f playback =
  pb_channels :: nat
  pb_buffer_frames :: nat
  pb_device_channels :: nat
  pb_device_is_float :: bool
  pb_resampler :: "'f resampler option"

definition write_frames ::
  "'f float_ops \<Rightarrow> 'w puller \<Rightarrow> nat \<Rightarrow> 'f playback \<Rightarrow> 'w \<Rightarrow> (bytes \<times> 'f playback \<times> 'w) go_result option" where
  "write_frames F pull n p w =
     (case pb_resampler p of
        None \<Rightarrow> map_option (\<lambda>(out, w1). Returns (out, p, w1)) (fill_frames pull (pb_channels p * 2) n w)
      | Some r \<Rightarrow>
          (case resampler_pull F pull n r w of
             None \<Rightarrow> None
           | Some Panics \<Rightarrow> Some Panics
           | Some (Returns (out, r1, w1)) \<Rightarrow> Some (Returns (out, p\<lparr>pb_resampler := Some r1\<rparr>, w1))))"

datatype 'g device_data = DeviceFloats "'g list" | DeviceInts bytes

text \<open>One turn of the render loop on an event, with \<open>padding\<close> frames still in the device's buffer.\<close>

definition render_turn ::
  "'f float_ops \<Rightarrow> 'g float_ops \<Rightarrow> 'w puller \<Rightarrow> nat \<Rightarrow> 'f playback \<Rightarrow> 'w \<Rightarrow>
     ('g device_data option \<times> 'f playback \<times> 'w) go_result option" where
  "render_turn F G pull padding p w =
     (if padding \<ge> pb_buffer_frames p then Some (Returns (None, p, w))
      else case write_frames F pull (pb_buffer_frames p - padding) p w of
             None \<Rightarrow> None
           | Some Panics \<Rightarrow> Some Panics
           | Some (Returns (src, p1, w1)) \<Rightarrow>
               Some (Returns (Some (if pb_device_is_float p
                 then DeviceFloats (s16_to_f32_mapped G src (pb_channels p) (pb_device_channels p))
                 else DeviceInts (s16_to_s16_mapped src (pb_channels p) (pb_device_channels p))), p1, w1)))"

definition open_playback :: "'f float_ops \<Rightarrow> mix_format \<Rightarrow> nat \<Rightarrow> nat \<Rightarrow> int \<Rightarrow> 'f playback" where
  "open_playback F mix bufferFrames channels rate =
     \<lparr>pb_channels = channels, pb_buffer_frames = bufferFrames, pb_device_channels = mf_channels mix,
       pb_device_is_float = mf_is_float mix,
       pb_resampler = (if mf_rate mix \<noteq> rate then Some (new_s16_resampler F rate channels (mf_rate mix)) else None)\<rparr>"

section \<open>Exact arithmetic\<close>

lemma rat_ops_fields [simp]:
  "fo_zero rat_ops = 0" "fo_one rat_ops = 1" "fo_add rat_ops = (+)" "fo_sub rat_ops = (-)" "fo_mul rat_ops = (*)"
  "fo_div rat_ops = (/)" "fo_of_int rat_ops = of_int" "fo_less rat_ops = (<)" "fo_eq rat_ops = (=)"
  "fo_trunc rat_ops = trunc_rat" "fo_round rat_ops = round_rat" "fo_trunc16 rat_ops q = word_of_int (trunc_rat q)"
  by (simp_all add: rat_ops_def)

lemma trunc_nonneg [simp]: "0 \<le> q \<Longrightarrow> trunc_rat q = \<lfloor>q\<rfloor>"
  by (simp add: trunc_rat_def)

lemma nat_floor_minus: "0 \<le> q \<Longrightarrow> of_nat c \<le> q \<Longrightarrow> nat \<lfloor>q - of_nat c\<rfloor> = nat \<lfloor>q :: rat\<rfloor> - c"
  using floor_diff_of_int[of q "int c"] by (simp add: nat_diff_distrib')

section \<open>A source as the list of its answers\<close>

definition script_pull :: "bytes list puller" where
  "script_pull n ws = (case ws of [] \<Rightarrow> ([], []) | d # ds \<Rightarrow> (d, ds))"

definition plays :: "bytes list \<Rightarrow> bool" where
  "plays ws \<longleftrightarrow> (\<forall>d \<in> set ws. d \<noteq> [] \<and> even (length d))"

definition ahead :: "u16 list \<Rightarrow> bytes list \<Rightarrow> u16 list" where
  "ahead p ws = p @ bytes_to_int16 (concat ws)"

lemma bytes_to_int16_append: "even (length a) \<Longrightarrow> bytes_to_int16 (a @ b) = bytes_to_int16 a @ bytes_to_int16 b"
proof (rule nth_equalityI)
  assume e: "even (length a)"
  then show "length (bytes_to_int16 (a @ b)) = length (bytes_to_int16 a @ bytes_to_int16 b)"
    by (auto simp: bytes_to_int16_def elim!: evenE)
next
  fix i
  assume e: "even (length a)" and i: "i < length (bytes_to_int16 (a @ b))"
  from e obtain n where n: "length a = 2 * n" by (auto elim: evenE)
  show "bytes_to_int16 (a @ b) ! i = (bytes_to_int16 a @ bytes_to_int16 b) ! i"
  proof (cases "i < n")
    case True
    then show ?thesis using n i by (auto simp: bytes_to_int16_def nth_append slice_append1)
  next
    case False
    have "2 * i - length a = 2 * (i - n)" "2 * i + 2 - length a = 2 * (i - n) + 2" using n False by auto
    then have "slice (2 * i) (2 * i + 2) (a @ b) = slice (2 * (i - n)) (2 * (i - n) + 2) b"
      using n False by (subst slice_append2) auto
    then show ?thesis using n i False by (auto simp: bytes_to_int16_def nth_append)
  qed
qed

lemma refill_script:
  assumes "plays ws" "need \<le> length (ahead p ws) div ch"
  shows "\<exists>p1 ws1. refill script_pull ch need p ws = Some (True, p1, ws1) \<and> ahead p1 ws1 = ahead p ws \<and>
    need \<le> length p1 div ch \<and> plays ws1"
  using assms
proof (induction ws arbitrary: p)
  case Nil
  then show ?case by (subst refill.simps) (simp add: ahead_def bytes_to_int16_def plays_def)
next
  case (Cons d ws)
  show ?case
  proof (cases "length p div ch < need")
    case True
    have d: "d \<noteq> []" "even (length d)" "plays ws" using Cons.prems(1) by (auto simp: plays_def)
    have a: "ahead (p @ bytes_to_int16 d) ws = ahead p (d # ws)" using d(2) by (simp add: ahead_def bytes_to_int16_append)
    have "refill script_pull ch need p (d # ws) = refill script_pull ch need (p @ bytes_to_int16 d) ws"
      using True d by (subst refill.simps) (simp add: script_pull_def)
    then show ?thesis using Cons.IH[of "p @ bytes_to_int16 d"] d(3) Cons.prems(2) a by simp
  next
    case False
    then show ?thesis using Cons.prems by (subst refill.simps) auto
  qed
qed

lemma resampled_frame_cong:
  assumes "\<And>n. i * ch \<le> n \<Longrightarrow> n < (i + 2) * ch \<Longrightarrow> a ! n = b ! (n + m)" "m = e * ch"
  shows "resampled_frame F ch a i t = resampled_frame F ch b (i + e) t"
proof -
  have "a ! (i * ch + c) = b ! ((i + e) * ch + c)" "a ! ((i + 1) * ch + c) = b ! ((i + e + 1) * ch + c)" if "c < ch" for c
    using assms(1)[of "i * ch + c"] assms(1)[of "(i + 1) * ch + c"] that assms(2) by (simp_all add: algebra_simps)
  then show ?thesis unfolding resampled_frame_def by (intro arg_cong[where f = concat] map_cong) simp_all
qed

text \<open>
  The positions at which the playback's resampler reads its source: how many frames it has left behind and the
  fraction it keeps, after \<open>n\<close> frames at the ratio \<open>x\<close>, from the fraction \<open>p\<close> on.
\<close>

definition play_step :: "'f float_ops \<Rightarrow> 'f \<Rightarrow> 'f \<Rightarrow> nat \<times> 'f" where
  "play_step F x p = (let q = fo_add F p x; c = nat (fo_trunc F q) in
     (c, if 0 < c then fo_sub F q (fo_of_int F (int c)) else q))"

primrec play_from :: "'f float_ops \<Rightarrow> 'f \<Rightarrow> nat \<Rightarrow> 'f \<Rightarrow> nat \<times> 'f" where
  "play_from F x 0 p = (0, p)"
| "play_from F x (Suc n) p =
     (let (c, p1) = play_step F x p; (b, p2) = play_from F x n p1 in (c + b, p2))"

lemma play_from_add:
  "play_from F x (n + k) p = (let (b, p1) = play_from F x n p; (c, p2) = play_from F x k p1 in (b + c, p2))"
  by (induction n arbitrary: p) (simp_all add: Let_def split_beta)

lemma play_from_mono: "i \<le> j \<Longrightarrow> fst (play_from F x i p) \<le> fst (play_from F x j p)"
  using play_from_add[of F x i "j - i" p] by (simp add: Let_def split_beta)

text \<open>Positions that stay below one frame and are left behind exactly, at most two frames at a time.\<close>

definition steady :: "'f float_ops \<Rightarrow> 'f \<Rightarrow> ('f \<Rightarrow> bool) \<Rightarrow> bool" where
  "steady F x G \<longleftrightarrow> (\<forall>p. G p \<longrightarrow> fo_trunc F p = 0 \<and> fo_sub F p (fo_of_int F 0) = p \<and>
     fst (play_step F x p) \<le> 2 \<and> G (snd (play_step F x p)))"

definition ratio_of :: "'f float_ops \<Rightarrow> 'f resampler \<Rightarrow> 'f" where
  "ratio_of F r = fo_div F (fo_of_int F (rp_in_rate r)) (fo_of_int F (rp_out_rate r))"

text \<open>The frame that is written at a position of the source.\<close>

definition played_frame :: "'f float_ops \<Rightarrow> 'f \<Rightarrow> nat \<Rightarrow> u16 list \<Rightarrow> 'f \<Rightarrow> nat \<Rightarrow> bytes" where
  "played_frame F x ch src p j = (case play_from F x j p of (b, t) \<Rightarrow> resampled_frame F ch src b t)"

lemma played_frame_drop: "c * ch \<le> length src \<Longrightarrow>
    (case play_from F x j p of (b, t) \<Rightarrow> resampled_frame F ch (drop (c * ch) src) b t) =
    (case play_from F x j p of (b, t) \<Rightarrow> resampled_frame F ch src (c + b) t)"
  by (simp add: resampled_frame_cong[of _ ch "drop (c * ch) src" src "c * ch" c] add.commute split: prod.split)

lemma resampler_step:
  assumes st: "steady F (ratio_of F r) G" "G (rp_pos r)" and pl: "plays ws" and ch: "0 < rp_channels r"
    and en: "2 \<le> length (ahead (rp_pending r) ws) div rp_channels r"
  shows "\<exists>ws1 r1 c. play_step F (ratio_of F r) (rp_pos r) = (c, rp_pos r1) \<and> plays ws1 \<and> G (rp_pos r1) \<and>
    ahead (rp_pending r1) ws1 = drop (c * rp_channels r) (ahead (rp_pending r) ws) \<and>
    c * rp_channels r \<le> length (ahead (rp_pending r) ws) \<and> ratio_of F r1 = ratio_of F r \<and> rp_channels r1 = rp_channels r \<and>
    resampler_pull F script_pull (Suc k) r ws =
      (case resampler_pull F script_pull k r1 ws1 of
         Some (Returns (out, r2, w2)) \<Rightarrow>
           Some (Returns (resampled_frame F (rp_channels r) (ahead (rp_pending r) ws) 0 (rp_pos r) @ out, r2, w2))
       | other \<Rightarrow> other)"
proof -
  let ?ch = "rp_channels r" and ?A = "ahead (rp_pending r) ws" and ?x = "ratio_of F r"
  obtain c p' where ps: "play_step F ?x (rp_pos r) = (c, p')" by fastforce
  have g: "fo_trunc F (rp_pos r) = 0" "fo_sub F (rp_pos r) (fo_of_int F 0) = rp_pos r" "c \<le> 2" "G p'"
    using st(1)[unfolded steady_def, rule_format, OF st(2)] ps by simp_all
  have c: "c = nat (fo_trunc F (fo_add F (rp_pos r) ?x))"
    "p' = (if 0 < c then fo_sub F (fo_add F (rp_pos r) ?x) (fo_of_int F (int c)) else fo_add F (rp_pos r) ?x)"
    using ps by (auto simp: play_step_def Let_def)
  obtain p1 ws1 where rf: "refill script_pull ?ch 2 (rp_pending r) ws = Some (True, p1, ws1)" "ahead p1 ws1 = ?A"
      "2 \<le> length p1 div ?ch" "plays ws1"
    using refill_script[OF pl en] by blast
  have l2: "2 * ?ch \<le> length p1" using mult_le_mono1[OF rf(3), of ?ch] div_times_less_eq_dividend[of "length p1" ?ch] by linarith
  have cl: "c * ?ch \<le> length p1" using mult_le_mono1[OF g(3), of ?ch] l2 by linarith
  have la: "length p1 \<le> length ?A" using rf(2) by (metis ahead_def le_add1 length_append)
  let ?r1 = "r\<lparr>rp_pending := drop (c * ?ch) p1, rp_pos := p'\<rparr>"
  have a1: "ahead (rp_pending ?r1) ws1 = drop (c * ?ch) ?A" unfolding rf(2)[symmetric] using cl by (simp add: ahead_def)
  have fr: "resampled_frame F ?ch ?A 0 (rp_pos r) = resampled_frame F ?ch p1 0 (fo_sub F (rp_pos r) (fo_of_int F (int 0)))"
    unfolding rf(2)[symmetric] unfolding ahead_def
    using l2 resampled_frame_cong[of 0 ?ch p1 "p1 @ bytes_to_int16 (concat ws1)" 0 0 F "rp_pos r"] by (simp add: nth_append g(2))
  have n: "\<not> length p1 < c * ?ch" using cl by simp
  have "resampler_pull F script_pull (Suc k) r ws =
      (case resampler_pull F script_pull k ?r1 ws1 of
         Some (Returns (out, r2, w2)) \<Rightarrow> Some (Returns (resampled_frame F ?ch p1 0 (fo_sub F (rp_pos r) (fo_of_int F (int 0))) @ out, r2, w2))
       | other \<Rightarrow> other)"
    using n by (simp only: resampler_pull.simps Let_def g(1,2) rf(1) nat_0 nat_int add_0 of_nat_0 option.case prod.case not_True_eq_False if_False
      ratio_of_def[symmetric] c(1)[symmetric] c(2))
  then have step: "resampler_pull F script_pull (Suc k) r ws =
      (case resampler_pull F script_pull k ?r1 ws1 of
         Some (Returns (out, r2, w2)) \<Rightarrow> Some (Returns (resampled_frame F ?ch ?A 0 (rp_pos r) @ out, r2, w2))
       | other \<Rightarrow> other)" by (subst fr)
  show ?thesis
    by (intro exI[of _ ws1] exI[of _ ?r1] exI[of _ c] conjI step a1) (use ps g(4) cl la rf(4) in \<open>simp_all add: ratio_of_def\<close>)
qed

lemma resampler_pull_frames:
  assumes "steady F x G" "G (rp_pos r)" "ratio_of F r = x" "plays ws" "0 < rp_channels r"
    "0 < k \<Longrightarrow> fst (play_from F x (k - 1) (rp_pos r)) + 2 \<le> length (ahead (rp_pending r) ws) div rp_channels r"
  shows "\<exists>r1 ws1. resampler_pull F script_pull k r ws =
      Some (Returns (concat (map (played_frame F x (rp_channels r) (ahead (rp_pending r) ws) (rp_pos r)) [0..<k]), r1, ws1)) \<and>
    ahead (rp_pending r1) ws1 = drop (fst (play_from F x k (rp_pos r)) * rp_channels r) (ahead (rp_pending r) ws) \<and>
    rp_pos r1 = snd (play_from F x k (rp_pos r)) \<and> G (rp_pos r1) \<and> plays ws1 \<and> ratio_of F r1 = x \<and> rp_channels r1 = rp_channels r"
  using assms
proof (induction k arbitrary: r ws)
  case 0
  then show ?case by simp
next
  case (Suc k)
  let ?ch = "rp_channels r" and ?A = "ahead (rp_pending r) ws"
  have "2 \<le> length ?A div ?ch" using Suc.prems(6) by simp
  with resampler_step[of F r G ws k] Suc.prems obtain ws1 r1 c where
    s: "play_step F x (rp_pos r) = (c, rp_pos r1)" "plays ws1" "G (rp_pos r1)" "ahead (rp_pending r1) ws1 = drop (c * ?ch) ?A"
      "c * ?ch \<le> length ?A" "ratio_of F r1 = x" "rp_channels r1 = ?ch"
    and p: "resampler_pull F script_pull (Suc k) r ws =
      (case resampler_pull F script_pull k r1 ws1 of
         Some (Returns (out, r2, w2)) \<Rightarrow> Some (Returns (resampled_frame F ?ch ?A 0 (rp_pos r) @ out, r2, w2))
       | other \<Rightarrow> other)" by (auto simp del: resampler_pull.simps)
  have sh: "play_from F x (Suc j) (rp_pos r) = (c + fst (play_from F x j (rp_pos r1)), snd (play_from F x j (rp_pos r1)))" for j
    by (simp add: s(1) split_beta)
  have d: "length (drop (c * ?ch) ?A) div ?ch = length ?A div ?ch - c"
    using div_mult_self1[of ?ch "length ?A - c * ?ch" c] Suc.prems(5) s(5) by (simp add: mult.commute)
  have "fst (play_from F x (k - 1) (rp_pos r1)) + 2 \<le> length (ahead (rp_pending r1) ws1) div rp_channels r1" if "0 < k"
  proof -
    from that have "k = Suc (k - 1)" by simp
    then have "play_from F x (Suc k - 1) (rp_pos r) = play_from F x (Suc (k - 1)) (rp_pos r)" by simp
    then show ?thesis using Suc.prems(6) unfolding sh s(4,7) d by simp
  qed
  from Suc.IH[OF Suc.prems(1) s(3,6,2) _ this] obtain r2 ws2 where i: "resampler_pull F script_pull k r1 ws1 =
      Some (Returns (concat (map (played_frame F x ?ch (drop (c * ?ch) ?A) (rp_pos r1)) [0..<k]), r2, ws2))"
    "ahead (rp_pending r2) ws2 = drop (fst (play_from F x k (rp_pos r1)) * ?ch) (drop (c * ?ch) ?A)"
    "rp_pos r2 = snd (play_from F x k (rp_pos r1))" "G (rp_pos r2)" "plays ws2" "ratio_of F r2 = x" "rp_channels r2 = ?ch"
    using Suc.prems(5) unfolding s(4,7) by blast
  have fr: "played_frame F x ?ch (drop (c * ?ch) ?A) (rp_pos r1) j = played_frame F x ?ch ?A (rp_pos r) (Suc j)" for j
    using played_frame_drop[OF s(5), of F x j "rp_pos r1"] by (simp only: played_frame_def sh) (simp add: split_beta)
  have "played_frame F x ?ch ?A (rp_pos r) 0 = resampled_frame F ?ch ?A 0 (rp_pos r)" by (simp add: played_frame_def)
  then have out: "resampled_frame F ?ch ?A 0 (rp_pos r) @ concat (map (played_frame F x ?ch (drop (c * ?ch) ?A) (rp_pos r1)) [0..<k]) =
      concat (map (played_frame F x ?ch ?A (rp_pos r)) [0..<Suc k])"
    unfolding upt_conv_Cons[OF zero_less_Suc] map_Suc_upt[symmetric] by (simp add: comp_def fr[abs_def] cong: map_cong del: upt_Suc)
  have dr: "drop (fst (play_from F x k (rp_pos r1)) * ?ch) (drop (c * ?ch) ?A) = drop (fst (play_from F x (Suc k) (rp_pos r)) * ?ch) ?A"
    unfolding sh by (simp add: algebra_simps)
  show ?case unfolding p i(1) using i(2-) out dr by (simp add: sh del: play_from.simps upt_Suc)
qed

text \<open>A run of the render loop: one pull for each event, asking for what the device has room for.\<close>

primrec resampler_pulls ::
  "'f float_ops \<Rightarrow> 'w puller \<Rightarrow> nat list \<Rightarrow> 'f resampler \<Rightarrow> 'w \<Rightarrow> (bytes \<times> 'f resampler \<times> 'w) go_result option"
where
  "resampler_pulls F pull [] r w = Some (Returns ([], r, w))"
| "resampler_pulls F pull (k # ks) r w =
     (case resampler_pull F pull k r w of
        Some (Returns (out, r1, w1)) \<Rightarrow>
          (case resampler_pulls F pull ks r1 w1 of
             Some (Returns (outs, r2, w2)) \<Rightarrow> Some (Returns (out @ outs, r2, w2))
           | other \<Rightarrow> other)
      | other \<Rightarrow> other)"

lemma resampler_pulls_frames:
  assumes "steady F x G" "G (rp_pos r)" "ratio_of F r = x" "plays ws" "0 < rp_channels r"
    "0 < sum_list ks \<Longrightarrow> fst (play_from F x (sum_list ks - 1) (rp_pos r)) + 2 \<le> length (ahead (rp_pending r) ws) div rp_channels r"
  shows "\<exists>r1 ws1. resampler_pulls F script_pull ks r ws =
      Some (Returns (concat (map (played_frame F x (rp_channels r) (ahead (rp_pending r) ws) (rp_pos r)) [0..<sum_list ks]), r1, ws1))"
  using assms
proof (induction ks arbitrary: r ws)
  case Nil
  then show ?case by simp
next
  case (Cons k ks)
  let ?ch = "rp_channels r" and ?A = "ahead (rp_pending r) ws" and ?n = "sum_list ks" and ?p = "rp_pos r"
  have en: "fst (play_from F x (k - 1) ?p) + 2 \<le> length ?A div ?ch" if "0 < k"
  proof -
    have "k - 1 \<le> k + ?n - 1" by simp
    from play_from_mono[OF this, of F x ?p] show ?thesis using Cons.prems(6) that by simp
  qed
  obtain r1 ws1 where p: "resampler_pull F script_pull k r ws =
      Some (Returns (concat (map (played_frame F x ?ch ?A ?p) [0..<k]), r1, ws1))"
    "ahead (rp_pending r1) ws1 = drop (fst (play_from F x k ?p) * ?ch) ?A"
    "rp_pos r1 = snd (play_from F x k ?p)" "G (rp_pos r1)" "plays ws1" "ratio_of F r1 = x" "rp_channels r1 = ?ch"
    using resampler_pull_frames[OF Cons.prems(1-5) en] by blast
  define c where "c = fst (play_from F x k ?p)"
  have sh: "play_from F x (k + j) ?p = (c + fst (play_from F x j (rp_pos r1)), snd (play_from F x j (rp_pos r1)))" for j
    by (simp add: play_from_add split_beta c_def p(3))
  have big: "c + fst (play_from F x (?n - 1) (rp_pos r1)) + 2 \<le> length ?A div ?ch" if "0 < ?n"
  proof -
    have "sum_list (k # ks) - 1 = k + (?n - 1)" using that by simp
    then show ?thesis using Cons.prems(6) sh[of "?n - 1"] that by simp
  qed
  have cl: "c * ?ch \<le> length ?A" if "0 < ?n"
  proof -
    have "c * ?ch \<le> length ?A div ?ch * ?ch" using big[OF that] by (intro mult_le_mono1) linarith
    then show ?thesis using div_times_less_eq_dividend le_trans by blast
  qed
  have av: "fst (play_from F x (?n - 1) (rp_pos r1)) + 2 \<le> length (ahead (rp_pending r1) ws1) div rp_channels r1" if "0 < ?n"
    using big[OF that] div_mult_self1[of ?ch "length ?A - c * ?ch" c] cl[OF that] Cons.prems(5)
    by (simp add: p(2,7) c_def[symmetric] mult.commute)
  obtain r2 ws2 where i: "resampler_pulls F script_pull ks r1 ws1 =
      Some (Returns (concat (map (played_frame F x ?ch (drop (c * ?ch) ?A) (rp_pos r1)) [0..<?n]), r2, ws2))"
    using Cons.IH[OF Cons.prems(1) p(4,6,5) _ av] Cons.prems(5) unfolding p(2,7) c_def[symmetric] by blast
  have fr: "played_frame F x ?ch (drop (c * ?ch) ?A) (rp_pos r1) j = played_frame F x ?ch ?A ?p (k + j)" if "0 < ?n" for j
    using played_frame_drop[OF cl[OF that], of F x j "rp_pos r1"] unfolding played_frame_def sh by (simp add: split_beta)
  have m: "map (played_frame F x ?ch (drop (c * ?ch) ?A) (rp_pos r1)) [0..<?n] = map (played_frame F x ?ch ?A ?p) [k..<k + ?n]"
    by (rule nth_equalityI) (auto simp: fr)
  have e: "[0..<k + ?n] = [0..<k] @ [k..<k + ?n]" by (rule upt_add_eq_append) simp
  have "resampler_pulls F script_pull (k # ks) r ws =
      Some (Returns (concat (map (played_frame F x ?ch ?A ?p) [0..<k]) @
        concat (map (played_frame F x ?ch (drop (c * ?ch) ?A) (rp_pos r1)) [0..<?n]), r2, ws2))"
    unfolding resampler_pulls.simps p(1) by (simp only: option.case go_result.case prod.case i)
  then show ?case unfolding sum_list.Cons e map_append concat_append m[symmetric] by blast
qed

section \<open>The positions in binary64\<close>

text \<open>The fractions the player can be at: numbers of binary64 below one, and only zero at the ratio two.\<close>

definition fraction64 :: "rat \<Rightarrow> rat \<Rightarrow> bool" where
  "fraction64 x p \<longleftrightarrow> is_f64 p \<and> 0 \<le> p \<and> p < 1 \<and> (x = 2 \<longrightarrow> p = 0)"

lemma f64_below_two_bits:
  assumes "is_f64 q" "of_nat c \<le> q" "q < of_nat c + 1" "c \<in> {1, 2}"
  shows "f64_round (q - of_nat c) = q - of_nat c"
proof -
  define e where "e = (if c = 1 then 0 else 1 :: int)"
  have ce: "(of_nat c :: rat) = 2 powi e" using assms(4) by (auto simp: e_def)
  have "2 powi e \<le> \<bar>q\<bar>" using assms(2) ce by simp
  moreover have "- 1022 \<le> e" by (simp add: e_def)
  ultimately obtain m where m: "q = of_int m * 2 powi (e - 52)" using f64_multiple[OF assms(1)] by blast
  have s: "2 powi e = of_int (2 ^ 52) * (2 :: rat) powi (e - 52)" using powi_split[of 52 "e - 52"] by simp
  have d: "q - of_nat c = of_int (m - 2 ^ 52) * 2 powi (e - 52)" unfolding ce s m by (simp add: left_diff_distrib)
  then have "0 \<le> of_int (m - 2 ^ 52) * (2 :: rat) powi (e - 52)" "of_int (m - 2 ^ 52) * (2 :: rat) powi (e - 52) < 1"
    using assms(2,3) by simp_all
  moreover have "1 \<le> of_int (2 ^ 52) * (2 :: rat) powi (e - 52)" unfolding s[symmetric] by (simp add: e_def)
  ultimately have "of_int (m - 2 ^ 52) * (2 :: rat) powi (e - 52) < of_int (2 ^ 52) * 2 powi (e - 52)" by linarith
  then have "m - 2 ^ 52 < 2 ^ 52" "0 \<le> m - 2 ^ 52"
    using \<open>0 \<le> of_int (m - 2 ^ 52) * (2 :: rat) powi (e - 52)\<close> powi_pos[of "e - 52"]
    by (simp_all only: mult_less_cancel_right_pos zero_le_mult_iff of_int_less_iff) (auto simp: not_less)
  then show ?thesis unfolding d by (intro f64_exact[OF refl]) (auto simp: e_def)
qed

lemma play_step_f64:
  assumes "fraction64 x p" "is_f64 x" "0 < x" "x = 2 \<or> x \<le> 2 - 1 / 2 ^ 31"
  shows "fst (play_step f64_ops x p) \<le> 2" "fraction64 x (snd (play_step f64_ops x p))"
    "\<bar>of_nat (fst (play_step f64_ops x p)) + snd (play_step f64_ops x p) - (p + x)\<bar> \<le> 2 powi (- 52)"
proof -
  let ?q = "f64_round (p + x)"
  define c where "c = nat \<lfloor>?q\<rfloor>"
  have p: "is_f64 p" "0 \<le> p" "p < 1" using assms(1) by (simp_all add: fraction64_def)
  have q0: "0 \<le> ?q" using f64_round_mono[of 0 "p + x"] p assms(3) by simp
  have q3: "?q < 3" "x = 2 \<Longrightarrow> ?q = 2"
  proof -
    show two: "x = 2 \<Longrightarrow> ?q = 2" using assms(1) f64_of_int[of 2] by (simp add: fraction64_def)
    have "f64_round (3 - 1 / 2 ^ 31) = 3 - 1 / 2 ^ 31" by (rule f64_exact[of _ "3 * 2 ^ 31 - 1" "- 31"]) (simp_all add: power_int_minus)
    then have "?q \<le> 3 - 1 / 2 ^ 31" if "x \<noteq> 2" using f64_round_mono[of "p + x" "3 - 1 / 2 ^ 31"] p(3) assms(4) that by linarith
    then show "?q < 3" using two by (cases "x = 2") auto
  qed
  have f: "\<lfloor>?q\<rfloor> = int c" "of_nat c \<le> ?q" "?q < of_nat c + 1" using q0 floor_correct[of ?q] by (simp_all add: c_def)
  have c2: "c \<le> 2" using f(2) q3(1) by linarith
  have ci: "f64_round (of_nat c) = of_nat c" using f64_of_int[of "int c"] c2 by simp
  have st: "play_step f64_ops x p = (c, ?q - of_nat c)"
  proof (cases "c = 0")
    case True
    then show ?thesis using q0 f(3) by (simp add: play_step_def Let_def)
  next
    case False
    then have "c \<in> {1, 2}" using c2 by auto
    from f64_below_two_bits[OF is_f64_round f(2,3) this] show ?thesis
      using False q0 ci f(2) by (simp add: play_step_def c_def[symmetric] Let_def)
  qed
  show "fst (play_step f64_ops x p) \<le> 2" using c2 by (simp add: st)
  have "is_f64 (?q - of_nat c)"
  proof (cases "c = 0")
    case False
    then have "c \<in> {1, 2}" using c2 by auto
    from f64_below_two_bits[OF is_f64_round f(2,3) this] show ?thesis by (simp add: is_f64_def)
  qed simp
  moreover have "?q - of_nat c = 0" if "x = 2" using q3(2)[OF that] by (simp add: c_def)
  ultimately show "fraction64 x (snd (play_step f64_ops x p))" using f by (simp add: st fraction64_def)
  have "\<bar>p + x\<bar> < 2 powi 2" using p assms(3,4) by auto
  from f64_error_below[OF this] show "\<bar>of_nat (fst (play_step f64_ops x p)) + snd (play_step f64_ops x p) - (p + x)\<bar> \<le> 2 powi (- 52)"
    by (simp add: st)
qed

lemma steady_f64:
  assumes "is_f64 x" "0 < x" "x = 2 \<or> x \<le> 2 - 1 / 2 ^ 31"
  shows "steady f64_ops x (fraction64 x)"
  unfolding steady_def
proof (intro allI impI conjI)
  fix p assume g: "fraction64 x p"
  show "fst (play_step f64_ops x p) \<le> 2" "fraction64 x (snd (play_step f64_ops x p))" using play_step_f64[OF g assms] by blast+
  have "\<lfloor>p\<rfloor> = 0" using g by (intro floor_unique) (simp_all add: fraction64_def)
  then show "fo_trunc f64_ops p = 0" using g by (simp add: fraction64_def)
  show "fo_sub f64_ops p (fo_of_int f64_ops 0) = p" using g by (simp add: fraction64_def is_f64_def)
qed

lemma play_from_drift:
  assumes "is_f64 x" "0 < x" "x = 2 \<or> x \<le> 2 - 1 / 2 ^ 31" "fraction64 x p"
  shows "\<bar>of_nat (fst (play_from f64_ops x n p)) + snd (play_from f64_ops x n p) - (p + of_nat n * x)\<bar> \<le> of_nat n * 2 powi (- 52) \<and>
    fraction64 x (snd (play_from f64_ops x n p))"
  using assms(4)
proof (induction n arbitrary: p)
  case 0
  then show ?case by simp
next
  case (Suc n)
  obtain c p1 where s: "play_step f64_ops x p = (c, p1)" by fastforce
  have g: "fraction64 x p1" "\<bar>of_nat c + p1 - (p + x)\<bar> \<le> 2 powi (- 52)" using play_step_f64[OF Suc.prems assms(1-3)] by (simp_all add: s)
  let ?b = "of_nat (fst (play_from f64_ops x n p1)) :: rat" and ?t = "snd (play_from f64_ops x n p1)" and ?e = "(2 :: rat) powi (- 52)"
  have i: "\<bar>?b + ?t - (p1 + of_nat n * x)\<bar> \<le> of_nat n * ?e" "fraction64 x ?t" using Suc.IH[OF g(1)] by blast+
  have nx: "of_nat (Suc n) * x = of_nat n * x + x" "of_nat (Suc n) * ?e = of_nat n * ?e + ?e" by (simp_all add: distrib_right)
  have "\<bar>of_nat c + ?b + ?t - (p + (of_nat n * x + x))\<bar> \<le> of_nat n * ?e + ?e" using g(2) i(1) by linarith
  then show ?case using i(2) by (simp add: s split_beta nx del: of_nat_Suc)
qed

lemma play_ratio64:
  assumes "0 < inRate" "inRate \<le> 2 * outRate" "outRate < 2 ^ 31"
  defines "x \<equiv> fo_div f64_ops (fo_of_int f64_ops inRate) (fo_of_int f64_ops outRate)"
  shows "is_f64 x" "0 < x" "x = 2 \<or> x \<le> 2 - 1 / 2 ^ 31" "\<bar>x - of_int inRate / of_int outRate\<bar> \<le> 2 powi (- 53)"
proof -
  let ?y = "of_int inRate / of_int outRate :: rat"
  have o: "0 < outRate" using assms(1,2) by linarith
  have x: "x = f64_round ?y" using assms(1-3) o by (simp add: x_def f64_of_int)
  show "is_f64 x" by (simp add: x)
  have lo: "2 powi (- 31) \<le> ?y"
  proof -
    have "(of_int outRate :: rat) \<le> 2 ^ 31" using assms(3) by (metis less_imp_le of_int_le_iff of_int_numeral of_int_power)
    moreover have "(1 :: rat) \<le> of_int inRate" using assms(1) by linarith
    ultimately have "(of_int outRate :: rat) \<le> of_int inRate * 2 ^ 31" by simp
    then show ?thesis using o by (simp add: power_int_minus field_simps)
  qed
  moreover have "f64_round (2 powi (- 31)) = 2 powi (- 31)" by (rule f64_exact[of _ 1 "- 31"]) simp_all
  ultimately have "2 powi (- 31) \<le> x" using f64_round_mono[OF lo] unfolding x by simp
  then show "0 < x" using powi_pos[of "- 31"] by linarith
  consider "inRate = 2 * outRate" | "inRate \<le> 2 * outRate - 1" using assms(2) by linarith
  then have "(x = 2 \<or> x \<le> 2 - 1 / 2 ^ 31) \<and> \<bar>x - ?y\<bar> \<le> 2 powi (- 53)"
  proof cases
    case 1
    then have "?y = 2" using o by simp
    then show ?thesis using f64_of_int[of 2] by (simp add: x)
  next
    case 2
    have y: "?y \<le> 2 - 1 / 2 ^ 31"
    proof -
      have a: "(of_int inRate :: rat) \<le> 2 * of_int outRate - 1" "(0 :: rat) < of_int outRate" "(of_int outRate :: rat) \<le> 2 ^ 31"
        using 2 o assms(3) by (linarith, simp, metis less_imp_le of_int_le_iff of_int_numeral of_int_power)
      have "of_int inRate \<le> (2 - 1 / 2 ^ 31) * (of_int outRate :: rat)" using a by (simp add: field_simps)
      then show ?thesis using a(2) by (simp add: pos_divide_le_eq)
    qed
    have "f64_round (2 - 1 / 2 ^ 31) = 2 - 1 / 2 ^ 31" by (rule f64_exact[of _ "2 ^ 32 - 1" "- 31"]) (simp_all add: power_int_minus)
    then have "x \<le> 2 - 1 / 2 ^ 31" using f64_round_mono[OF y] by (simp add: x)
    moreover have "\<bar>?y\<bar> < 2 powi 1"
    proof -
      have "0 < ?y" by (rule less_le_trans[OF powi_pos lo])
      then have "\<bar>?y\<bar> = ?y" by (rule abs_of_pos)
      moreover have "?y < 2" by (rule le_less_trans[OF y]) simp
      ultimately show ?thesis by (simp only: power_int_1_right)
    qed
    ultimately show ?thesis using f64_error_below[of ?y 1] by (simp add: x)
  qed
  then show "x = 2 \<or> x \<le> 2 - 1 / 2 ^ 31" "\<bar>x - of_int inRate / of_int outRate\<bar> \<le> 2 powi (- 53)" by blast+
qed

lemma drift_sum:
  fixes a b c d e f :: rat
  shows "\<bar>a - b\<bar> \<le> e \<Longrightarrow> \<bar>b - c\<bar> \<le> f \<Longrightarrow> 0 \<le> f \<Longrightarrow> d = 2 * e \<Longrightarrow> e = 2 * f \<Longrightarrow> \<bar>a - c\<bar> \<le> d"
  by linarith

text \<open>
  C10. The playback's resampler plays the source and nothing else, in the arithmetic it has.  When the device's rate is at
  least half the source's (both below 2^31), then however the source cuts its samples into answers and whatever the
  device asks for at each event, the loop returns and the frame it writes \<open>j\<close>-th is the source interpolated at
  the position reached by \<open>j\<close> additions of the ratio of the rates, every addition and subtraction rounded to
  binary64: nothing is repeated, skipped or made up at a border.  The position is exact up to the rounding: the whole frames
  left behind and the fraction, which stays below one, differ from \<open>j\<close> times the rates' true ratio by at most \<open>j\<close> times 2^-51 frames.
  The source has to hold the frames up to the last position.
\<close>

theorem playback_resampled:
  assumes "0 < inRate" "inRate \<le> 2 * outRate" "outRate < 2 ^ 31" "0 < ch" "plays ws"
    "x = fo_div f64_ops (fo_of_int f64_ops inRate) (fo_of_int f64_ops outRate)" "src = bytes_to_int16 (concat ws)"
    "fst (play_from f64_ops x (sum_list ks - 1) 0) + 2 \<le> length src div ch"
  shows "(\<exists>r1 ws1. resampler_pulls f64_ops script_pull ks (new_s16_resampler f64_ops inRate ch outRate) ws =
      Some (Returns (concat (map (\<lambda>j. resampled_frame f64_ops ch src (fst (play_from f64_ops x j 0)) (snd (play_from f64_ops x j 0)))
        [0..<sum_list ks]), r1, ws1))) \<and>
    (let (b, t) = play_from f64_ops x j 0
     in 0 \<le> t \<and> t < 1 \<and> \<bar>of_nat b + t - of_nat j * of_int inRate / of_int outRate\<bar> \<le> of_nat j * 2 powi (- 51))"
proof
  let ?r = "new_s16_resampler f64_ops inRate ch outRate" and ?y = "of_int inRate / of_int outRate :: rat"
  note x = play_ratio64[OF assms(1-3), folded assms(6)]
  have z: "fraction64 x 0" by (simp add: fraction64_def is_f64_def)
  have r: "rp_pos ?r = 0" "rp_pending ?r = []" "rp_channels ?r = ch" "ratio_of f64_ops ?r = x"
    by (simp_all add: new_s16_resampler_def ratio_of_def assms(6))
  have a: "ahead [] ws = src" by (simp add: ahead_def assms(7))
  have p: "played_frame f64_ops x ch src 0 =
      (\<lambda>j. resampled_frame f64_ops ch src (fst (play_from f64_ops x j 0)) (snd (play_from f64_ops x j 0)))"
    by (rule ext) (simp add: played_frame_def split_beta)
  show "\<exists>r1 ws1. resampler_pulls f64_ops script_pull ks ?r ws =
      Some (Returns (concat (map (\<lambda>j. resampled_frame f64_ops ch src (fst (play_from f64_ops x j 0)) (snd (play_from f64_ops x j 0)))
        [0..<sum_list ks]), r1, ws1))"
    using resampler_pulls_frames[OF steady_f64[OF x(1-3)] z[folded r(1)] r(4) assms(5), of ks] assms(4,8) unfolding r a p by blast
  obtain b t where bt: "play_from f64_ops x j 0 = (b, t)" by fastforce
  have d: "\<bar>of_nat b + t - of_nat j * x\<bar> \<le> of_nat j * 2 powi (- 52)" "fraction64 x t"
    using play_from_drift[OF x(1-3) z, of j] by (simp_all add: bt)
  have e: "\<bar>of_nat j * x - of_nat j * ?y\<bar> \<le> of_nat j * 2 powi (- 53)"
  proof -
    have "of_nat j * x - of_nat j * ?y = of_nat j * (x - ?y)" by (simp only: right_diff_distrib)
    then have "\<bar>of_nat j * x - of_nat j * ?y\<bar> = of_nat j * \<bar>x - ?y\<bar>" by (simp only: abs_mult abs_of_nat)
    also have "\<dots> \<le> of_nat j * 2 powi (- 53)" by (rule mult_left_mono[OF x(4)]) simp
    finally show ?thesis .
  qed
  have s: "of_nat j * (2 :: rat) powi (- 51) = 2 * (of_nat j * 2 powi (- 52))" "of_nat j * (2 :: rat) powi (- 52) = 2 * (of_nat j * 2 powi (- 53))"
    by (simp_all add: power_int_minus)
  have "0 \<le> of_nat j * (2 :: rat) powi (- 53)" by simp
  then have "\<bar>of_nat b + t - of_nat j * ?y\<bar> \<le> of_nat j * 2 powi (- 51)" by (rule drift_sum[OF d(1) e _ s])
  then show "let (b, t) = play_from f64_ops x j 0
     in 0 \<le> t \<and> t < 1 \<and> \<bar>of_nat b + t - of_nat j * of_int inRate / of_int outRate\<bar> \<le> of_nat j * 2 powi (- 51)"
    using d(2) by (simp add: bt fraction64_def)
qed

section \<open>Playing at a third of the rate\<close>

text \<open>What every pull function of the program does: it fills the buffer.\<close>

definition fills :: "'w puller \<Rightarrow> bool" where
  "fills pull \<longleftrightarrow> (\<forall>n w. length (fst (pull n w)) = n)"

text \<open>A resampler with \<open>n\<close> frames pending whose every step passes three frames and keeps no fraction.\<close>

definition third :: "'f float_ops \<Rightarrow> 'f resampler \<Rightarrow> nat \<Rightarrow> bool" where
  "third F r n \<longleftrightarrow> 0 < rp_channels r \<and> rp_pos r = fo_zero F \<and> length (rp_pending r) = n * rp_channels r \<and>
     fo_trunc F (fo_zero F) = 0 \<and> play_step F (ratio_of F r) (fo_zero F) = (3, fo_zero F)"

text \<open>The number of frames that still come out before the pending frames run short of three.\<close>

definition fuse :: "nat \<Rightarrow> nat" where
  "fuse n = n div 3 + (if n mod 3 = 2 then 0 else if n mod 3 = 1 then 1365 else 2730)"

lemma length_bytes_to_int16 [simp]: "length (bytes_to_int16 b) = length b div 2"
  by (simp add: bytes_to_int16_def)

lemma length_resampled_frame [simp]: "length (resampled_frame F ch p i t) = ch * 2"
  by (simp add: resampled_frame_def length_concat comp_def sum_list_triv)

lemma third_refill:
  assumes "third F r n" "fills pull"
  obtains p w1 m where "refill pull (rp_channels r) 2 (rp_pending r) w = Some (True, p, w1)" "length p = m * rp_channels r"
    "m = (if n < 2 then n + 4096 else n)"
proof (cases "n < 2")
  case True
  have ch: "0 < rp_channels r" "length (rp_pending r) = n * rp_channels r" using assms by (auto simp: third_def)
  obtain d w1 where d: "pull (4096 * rp_channels r * 2) w = (d, w1)" by fastforce
  have ld: "length d = 4096 * rp_channels r * 2" using assms(2) d by (metis fills_def fst_conv)
  then have ne: "d \<noteq> []" using ch by auto
  have l: "length (rp_pending r @ bytes_to_int16 d) = (n + 4096) * rp_channels r" using ld ch by (simp add: algebra_simps)
  then have "refill pull (rp_channels r) 2 (rp_pending r @ bytes_to_int16 d) w1 = Some (True, rp_pending r @ bytes_to_int16 d, w1)"
    using ch by (subst refill.simps) simp
  then have "refill pull (rp_channels r) 2 (rp_pending r) w = Some (True, rp_pending r @ bytes_to_int16 d, w1)"
    using True ch d ne by (subst refill.simps) simp
  then show ?thesis using that l True by simp
next
  case False
  then have "refill pull (rp_channels r) 2 (rp_pending r) w = Some (True, rp_pending r, w)"
    using assms(1) by (subst refill.simps) (simp add: third_def)
  then show ?thesis using that False assms(1) by (simp add: third_def)
qed

lemma third_step:
  assumes "third F r n" "fills pull"
  shows "n = 2 \<Longrightarrow> resampler_pull F pull (Suc k) r w = Some Panics"
    "n \<noteq> 2 \<Longrightarrow> \<exists>r1 w1 frame. third F r1 (if n < 2 then n + 4093 else n - 3) \<and> rp_channels r1 = rp_channels r \<and>
       length frame = rp_channels r * 2 \<and>
       resampler_pull F pull (Suc k) r w = (case resampler_pull F pull k r1 w1 of
         Some (Returns (out, r2, w2)) \<Rightarrow> Some (Returns (frame @ out, r2, w2)) | other \<Rightarrow> other)"
proof -
  obtain p w1 m where p: "refill pull (rp_channels r) 2 (rp_pending r) w = Some (True, p, w1)" "length p = m * rp_channels r"
    "m = (if n < 2 then n + 4096 else n)" by (rule third_refill[OF assms])
  have z: "rp_pos r = fo_zero F" "fo_trunc F (fo_zero F) = 0" "0 < rp_channels r" using assms(1) by (auto simp: third_def)
  have "play_step F (ratio_of F r) (fo_zero F) = (3, fo_zero F)" using assms(1) by (simp add: third_def)
  then have s: "nat (fo_trunc F (fo_add F (fo_zero F) (ratio_of F r))) = 3"
    "fo_sub F (fo_add F (fo_zero F) (ratio_of F r)) (fo_of_int F 3) = fo_zero F"
    by (auto simp: play_step_def Let_def split: if_splits) (metis int_nat_eq less_le of_nat_numeral)
  have f: "refill pull (rp_channels r) (Suc (Suc 0)) (rp_pending r) w = Some (True, p, w1)" using p(1) by (simp add: numeral_2_eq_2)
  show "resampler_pull F pull (Suc k) r w = Some Panics" if "n = 2"
    using that z f p(2,3) by (simp add: Let_def ratio_of_def[symmetric] s)
  assume "n \<noteq> 2"
  then have m: "3 \<le> m" "m - 3 = (if n < 2 then n + 4093 else n - 3)" using p(3) by auto
  let ?r1 = "r\<lparr>rp_pending := drop (3 * rp_channels r) p, rp_pos := fo_zero F\<rparr>"
  let ?fr = "resampled_frame F (rp_channels r) p 0 (fo_sub F (fo_zero F) (fo_of_int F 0))"
  have t: "third F ?r1 (m - 3)" using assms(1) p(2) by (simp add: third_def ratio_of_def diff_mult_distrib)
  have e: "resampler_pull F pull (Suc k) r w = (case resampler_pull F pull k ?r1 w1 of
      Some (Returns (out, r2, w2)) \<Rightarrow>
        Some (Returns (?fr @ out, r2, w2)) | other \<Rightarrow> other)"
    using m(1) z f p(2) by (simp add: Let_def ratio_of_def[symmetric] s)
  show "\<exists>r1 w1 frame. third F r1 (if n < 2 then n + 4093 else n - 3) \<and> rp_channels r1 = rp_channels r \<and>
       length frame = rp_channels r * 2 \<and>
       resampler_pull F pull (Suc k) r w = (case resampler_pull F pull k r1 w1 of
         Some (Returns (out, r2, w2)) \<Rightarrow> Some (Returns (frame @ out, r2, w2)) | other \<Rightarrow> other)"
    by (intro exI[of _ ?r1] exI[of _ w1] exI[of _ ?fr] conjI t[unfolded m(2)] e) simp_all
qed

lemma fuse_step:
  assumes "n \<noteq> 2"
  shows "fuse n = Suc (fuse (if n < 2 then n + 4093 else n - 3))"
proof -
  have "n = 0 \<or> n = 1 \<or> (\<exists>j. n = j + 3)" using assms by presburger
  then consider "n = 0" | "n = 1" | j where "n = j + 3" by blast
  then show ?thesis by cases (simp_all add: fuse_def)
qed

lemma third_pull:
  assumes "third F r n" "fills pull"
  shows "fuse n < k \<Longrightarrow> resampler_pull F pull k r w = Some Panics"
    "k \<le> fuse n \<Longrightarrow> \<exists>out r1 w1 n1. resampler_pull F pull k r w = Some (Returns (out, r1, w1)) \<and> third F r1 n1 \<and>
       fuse n1 = fuse n - k \<and> rp_channels r1 = rp_channels r \<and> length out = k * rp_channels r * 2"
  using assms
proof (induction k arbitrary: r n w)
  case 0
  { case 1 then show ?case by simp }
  { case 2 then show ?case by auto }
next
  case (Suc k)
  { case 1
    show ?case
    proof (cases "n = 2")
      case True
      then show ?thesis using third_step(1)[OF 1(2,3)] by blast
    next
      case False
      then obtain r1 w1 frame where s: "third F r1 (if n < 2 then n + 4093 else n - 3)"
        "resampler_pull F pull (Suc k) r w = (case resampler_pull F pull k r1 w1 of
         Some (Returns (out, r2, w2)) \<Rightarrow> Some (Returns (frame @ out, r2, w2)) | other \<Rightarrow> other)"
        using third_step(2)[OF 1(2,3), of k w] by blast
      have "fuse (if n < 2 then n + 4093 else n - 3) < k" using 1(1) fuse_step[OF False] by linarith
      from Suc.IH(1)[OF this s(1) 1(3)] show ?thesis unfolding s(2) by simp
    qed }
  { case 2
    have n: "n \<noteq> 2" using 2(1) by (auto simp: fuse_def)
    then obtain r1 w1 frame where s: "third F r1 (if n < 2 then n + 4093 else n - 3)" "rp_channels r1 = rp_channels r"
      "length frame = rp_channels r * 2"
      "resampler_pull F pull (Suc k) r w = (case resampler_pull F pull k r1 w1 of
         Some (Returns (out, r2, w2)) \<Rightarrow> Some (Returns (frame @ out, r2, w2)) | other \<Rightarrow> other)"
      using third_step(2)[OF 2(2,3), of k w] by blast
    have "k \<le> fuse (if n < 2 then n + 4093 else n - 3)" using 2(1) fuse_step[OF n] by linarith
    from Suc.IH(2)[OF this s(1) 2(3), of w1] obtain out r2 w2 n1 where i: "resampler_pull F pull k r1 w1 = Some (Returns (out, r2, w2))"
      "third F r2 n1" "fuse n1 = fuse (if n < 2 then n + 4093 else n - 3) - k" "rp_channels r2 = rp_channels r" "length out = k * rp_channels r * 2"
      using s(2) by auto
    have "fuse n1 = fuse n - Suc k" using i(3) fuse_step[OF n] by linarith
    then show ?case unfolding s(4) i(1) using i(2,4,5) s(3) by (auto simp: algebra_simps) }
qed

text \<open>The render loop over the events it handles, each with the frames that are still in the device's buffer.\<close>

primrec render_turns ::
  "'f float_ops \<Rightarrow> 'g float_ops \<Rightarrow> 'w puller \<Rightarrow> nat list \<Rightarrow> 'f playback \<Rightarrow> 'w \<Rightarrow>
     ('g device_data option list \<times> 'f playback \<times> 'w) go_result option"
where
  "render_turns F G pull [] p w = Some (Returns ([], p, w))"
| "render_turns F G pull (padding # pads) p w =
     (case render_turn F G pull padding p w of
        Some (Returns (d, p1, w1)) \<Rightarrow>
          (case render_turns F G pull pads p1 w1 of
             Some (Returns (ds, p2, w2)) \<Rightarrow> Some (Returns (d # ds, p2, w2))
           | other \<Rightarrow> other)
      | Some Panics \<Rightarrow> Some Panics
      | None \<Rightarrow> None)"

lemma third_turn:
  assumes "pb_buffer_frames p - padding \<le> fuse n" "pb_resampler p = Some r" "third F r n" "fills pull"
  shows "\<exists>d p1 w1 r1 n1. render_turn F G pull padding p w = Some (Returns (d, p1, w1)) \<and> pb_resampler p1 = Some r1 \<and>
      third F r1 n1 \<and> fuse n1 = fuse n - (pb_buffer_frames p - padding) \<and> pb_buffer_frames p1 = pb_buffer_frames p"
proof (cases "padding \<ge> pb_buffer_frames p")
  case True
  then show ?thesis using assms by (auto simp: render_turn_def)
next
  case False
  from third_pull(2)[OF assms(3,4,1), of w] show ?thesis using False assms(2)
    by (fastforce simp: render_turn_def write_frames_def)
qed

lemma third_turns:
  assumes "pb_resampler p = Some r" "third F r n" "fills pull"
  shows "render_turns F G pull pads p w = Some Panics \<longleftrightarrow> fuse n < sum_list (map (\<lambda>padding. pb_buffer_frames p - padding) pads)"
    and "sum_list (map (\<lambda>padding. pb_buffer_frames p - padding) pads) \<le> fuse n \<Longrightarrow>
      \<exists>ds p1 w1. render_turns F G pull pads p w = Some (Returns (ds, p1, w1))"
  using assms
proof (induction pads arbitrary: p r n w)
  case Nil
  { case 1 then show ?case by simp }
  { case 2 then show ?case by simp }
next
  case (Cons padding pads)
  { case 1
    show ?case
    proof (cases "pb_buffer_frames p - padding \<le> fuse n")
      case True
      from third_turn[OF this 1(1,2,3), of G w] obtain d p1 w1 r1 n1 where s: "render_turn F G pull padding p w = Some (Returns (d, p1, w1))"
        "pb_resampler p1 = Some r1" "third F r1 n1" "fuse n1 = fuse n - (pb_buffer_frames p - padding)" "pb_buffer_frames p1 = pb_buffer_frames p" by blast
      show ?thesis using Cons.IH(1)[OF s(2,3) 1(3), of w1] Cons.IH(2)[OF _ s(2,3) 1(3), of w1] s(1,4,5) True
        by (cases "sum_list (map (\<lambda>padding. pb_buffer_frames p - padding) pads) \<le> fuse n1") (auto simp: not_le)
    next
      case False
      then have "fuse n < pb_buffer_frames p - padding" by simp
      then have "render_turn F G pull padding p w = Some Panics"
        using 1(1) third_pull(1)[OF 1(2,3), of "pb_buffer_frames p - padding" w] by (simp add: render_turn_def write_frames_def)
      then show ?thesis using False by simp
    qed }
  { case 2
    then have "pb_buffer_frames p - padding \<le> fuse n" by simp
    from third_turn[OF this 2(2,3,4), of G w] obtain d p1 w1 r1 n1 where s: "render_turn F G pull padding p w = Some (Returns (d, p1, w1))"
        "pb_resampler p1 = Some r1" "third F r1 n1" "fuse n1 = fuse n - (pb_buffer_frames p - padding)" "pb_buffer_frames p1 = pb_buffer_frames p" by blast
    from Cons.IH(2)[OF _ s(2,3) 2(4), of w1] 2(1) s(4,5) obtain ds p2 w2 where
      "render_turns F G pull pads p1 w1 = Some (Returns (ds, p2, w2))" by fastforce
    then show ?case using s(1) by simp }
qed


section \<open>Capturing at another rate\<close>

lemma resample_linear_end:
  assumes "0 < n" "\<not> pos < of_nat (n - 1)" "pos < ratio + of_nat (n - 1)"
  shows "\<exists>out fr m. resample_linear rat_ops ins n ch ratio pos = Some (out, fr) \<and> length out = m * ch \<and>
    pos + of_nat m * ratio = fr + of_nat (n - 1) \<and> 0 \<le> fr \<and> fr < ratio"
proof -
  have n: "(of_int (int n - 1) :: rat) = of_nat (n - 1)" using assms(1) by simp
  have "resample_linear rat_ops ins n ch ratio pos = Some ([], pos - of_nat (n - 1))"
    using assms(2) by (subst resample_linear.simps) (simp only: n rat_ops_fields if_False)
  moreover have "length ([] :: rat list) = 0 * ch" "pos + of_nat 0 * ratio = pos - of_nat (n - 1) + of_nat (n - 1)"
    "0 \<le> pos - of_nat (n - 1)" "pos - of_nat (n - 1) < ratio" using assms(2,3) by auto
  ultimately show ?thesis by blast
qed

lemma resample_linear_total_steps:
  assumes "0 < ratio" "0 < n" "0 \<le> pos" "of_nat (n - 1) - pos \<le> of_nat k * (ratio :: rat)" "pos < ratio + of_nat (n - 1)"
  shows "\<exists>out fr m. resample_linear rat_ops ins n ch ratio pos = Some (out, fr) \<and> length out = m * ch \<and>
    pos + of_nat m * ratio = fr + of_nat (n - 1) \<and> 0 \<le> fr \<and> fr < ratio"
  using assms(3-)
proof (induction k arbitrary: pos)
  case 0
  then show ?case by (intro resample_linear_end[OF assms(2)]) simp_all
next
  case (Suc k)
  have n: "(of_int (int n - 1) :: rat) = of_nat (n - 1)" using assms(2) by simp
  show ?case
  proof (cases "pos < of_nat (n - 1)")
    case True
    have "of_nat (n - 1) - (pos + ratio) \<le> of_nat k * ratio" using Suc.prems(2) by (simp add: algebra_simps)
    moreover have "0 \<le> pos + ratio" "pos + ratio < ratio + of_nat (n - 1)" using Suc.prems(1) assms(1) True by simp_all
    ultimately obtain out fr m where i: "resample_linear rat_ops ins n ch ratio (pos + ratio) = Some (out, fr)" "length out = m * ch"
      "pos + ratio + of_nat m * ratio = fr + of_nat (n - 1)" "0 \<le> fr" "fr < ratio"
      using Suc.IH by blast
    have "pos + of_nat (Suc m) * ratio = fr + of_nat (n - 1)" using i(3) by (simp add: algebra_simps)
    moreover have "\<exists>out1. resample_linear rat_ops ins n ch ratio pos = Some (out1, fr) \<and> length out1 = Suc m * ch"
      using True i(1,2) by (subst resample_linear.simps) (simp add: n Let_def del: of_nat_diff of_int_diff)
    ultimately show ?thesis using i(4,5) by blast
  next
    case False
    then show ?thesis by (rule resample_linear_end[OF assms(2) _ Suc.prems(3)])
  qed
qed

lemma resample_linear_total:
  assumes "0 < ratio" "0 < n" "0 \<le> pos" "pos < ratio"
  shows "\<exists>out fr m. resample_linear rat_ops ins n ch ratio pos = Some (out, fr) \<and> length out = m * ch \<and>
    pos + of_nat m * ratio = fr + of_nat (n - 1) \<and> 0 \<le> fr \<and> fr < ratio"
proof -
  obtain k where "(of_nat (n - 1) - pos) / ratio \<le> of_nat k" using reals_Archimedean2[of "(of_nat (n - 1) - pos) / ratio"] by (auto intro: less_imp_le)
  then have k: "of_nat (n - 1) - pos \<le> of_nat k * ratio" using assms(1) by (simp add: pos_divide_le_eq)
  have "0 \<le> (of_nat (n - 1) :: rat)" by simp
  then have "pos < ratio + of_nat (n - 1)" using assms(4) by linarith
  then show ?thesis by (rule resample_linear_total_steps[OF assms(1,2,3) k])
qed

lemma add_steps:
  fixes x :: rat
  shows "a + b * x = f + s \<Longrightarrow> f + c * x = g + t \<Longrightarrow> a + (b + c) * x = g + (s + t)"
  by (simp add: distrib_right)

lemma ceiling_steps:
  fixes x :: rat
  assumes "of_nat m * x = f + s" "0 \<le> f" "f < x"
  shows "\<lceil>s / x\<rceil> = int m"
proof (rule ceiling_unique)
  have x: "0 < x" using assms by linarith
  have "s = of_nat m * x - f" using assms(1) by simp
  then show "of_int (int m) - 1 < s / x" "s / x \<le> of_int (int m)" using x assms(2,3) by (simp_all add: field_simps)
qed

primrec convert_packets ::
  "'f float_ops \<Rightarrow> (u32 \<Rightarrow> 'f) \<Rightarrow> 'f converter \<Rightarrow> (bytes \<times> nat) list \<Rightarrow> (bytes \<times> 'f converter) option"
where
  "convert_packets F f32 cv [] = Some ([], cv)"
| "convert_packets F f32 cv (p # ps) =
     Option.bind (convert F f32 cv (fst p) (snd p)) (\<lambda>(pcm, cv1).
       Option.bind (convert_packets F f32 cv1 ps) (\<lambda>(rest, cv2). Some (pcm @ rest, cv2)))"

lemma length_concat_put_le2: "length (concat (map (\<lambda>x. put_le 2 (f x)) xs)) = 2 * length xs"
  by (induction xs) simp_all

lemma convert_packets_length:
  assumes "cv_needs_resample cv" "cv_in_rate cv \<noteq> cv_out_rate cv" "0 < cv_in_rate cv" "0 < cv_out_rate cv" "0 < cv_out_channels cv"
    "0 \<le> cv_frac cv" "cv_frac cv < of_int (cv_in_rate cv) / of_int (cv_out_rate cv)" "\<forall>p \<in> set pkts. 0 < snd p"
  shows "\<exists>pcm cv1 m. convert_packets rat_ops f32 cv pkts = Some (pcm, cv1) \<and> length pcm = m * (cv_out_channels cv * 2) \<and>
    cv_frac cv + of_nat m * (of_int (cv_in_rate cv) / of_int (cv_out_rate cv)) = cv_frac cv1 + of_nat (sum_list (map (\<lambda>p. snd p - 1) pkts)) \<and>
    0 \<le> cv_frac cv1 \<and> cv_frac cv1 < of_int (cv_in_rate cv) / of_int (cv_out_rate cv)"
  using assms
proof (induction pkts arbitrary: cv)
  case Nil
  then show ?case by (auto intro!: exI[of _ 0])
next
  case (Cons p pkts)
  let ?x = "of_int (cv_in_rate cv) / of_int (cv_out_rate cv) :: rat" and ?ch = "cv_out_channels cv"
  have x: "0 < ?x" using Cons.prems by simp
  have n: "0 < snd p" using Cons.prems(8) by simp
  define ins where "ins = map_channels rat_ops (decode_to_float64 rat_ops f32 (fst p) (snd p) (cv_in_channels cv)
    (cv_in_is_float cv) (cv_in_bits cv)) (snd p) (cv_in_channels cv) ?ch"
  obtain out fr m where r: "resample_linear rat_ops ins (snd p) ?ch ?x (cv_frac cv) = Some (out, fr)" "length out = m * ?ch"
    "cv_frac cv + of_nat m * ?x = fr + of_nat (snd p - 1)" "0 \<le> fr" "fr < ?x"
    using resample_linear_total[OF x n Cons.prems(6,7)] by blast
  have c: "convert rat_ops f32 cv (fst p) (snd p) = Some (append_f64_to_s16 rat_ops out ?ch, cv\<lparr>cv_frac := fr\<rparr>)"
    using Cons.prems(1,2) n r(1) by (simp add: convert_def Let_def ins_def)
  have l: "length (append_f64_to_s16 rat_ops out ?ch) = m * (?ch * 2)"
    by (simp add: append_f64_to_s16_def length_concat_put_le2 r(2))
  obtain pcm cv1 m1 where i: "convert_packets rat_ops f32 (cv\<lparr>cv_frac := fr\<rparr>) pkts = Some (pcm, cv1)" "length pcm = m1 * (?ch * 2)"
    "fr + of_nat m1 * ?x = cv_frac cv1 + of_nat (sum_list (map (\<lambda>p. snd p - 1) pkts))" "0 \<le> cv_frac cv1" "cv_frac cv1 < ?x"
    using Cons.IH[of "cv\<lparr>cv_frac := fr\<rparr>"] Cons.prems r(4,5) by auto
  have "convert_packets rat_ops f32 cv (p # pkts) = Some (append_f64_to_s16 rat_ops out ?ch @ pcm, cv1)" by (simp add: c i(1))
  moreover have "length (append_f64_to_s16 rat_ops out ?ch @ pcm) = (m + m1) * (?ch * 2)" using l i(2) by (simp add: algebra_simps)
  moreover have "cv_frac cv + of_nat (m + m1) * ?x = cv_frac cv1 + of_nat (sum_list (map (\<lambda>p. snd p - 1) (p # pkts)))"
    using add_steps[OF r(3) i(3)] by (simp only: of_nat_add list.map sum_list.Cons)
  ultimately show ?case using i(4,5) by blast
qed

text \<open>
  A capture at another rate drifts; this is in exact arithmetic.  Of packets with any numbers of frames the converter makes as many frames as if every
  packet had one frame less, so each packet boundary shortens the sound by one frame of the device; a silent packet in
  contrast yields up to two frames too many.  The audio is produced at the wrong speed in both cases.
\<close>

theorem capture_drifts:
  assumes "mf_rate mix \<noteq> outRate" "0 < mf_rate mix" "0 < outRate" "0 < ch" "\<forall>p \<in> set pkts. 0 < snd p"
  defines "cv \<equiv> new_capture_converter rat_ops mix ch outRate"
  shows "(\<exists>pcm cv1. convert_packets rat_ops f32 cv pkts = Some (pcm, cv1) \<and>
      length pcm = nat \<lceil>of_nat (sum_list (map (\<lambda>p. snd p - 1) pkts)) * of_int outRate / (of_int (mf_rate mix) :: rat)\<rceil> * (ch * 2)) \<and>
    length (convert_silence rat_ops cv n) = (nat \<lfloor>of_nat n * of_int outRate / (of_int (mf_rate mix) :: rat)\<rfloor> + 2) * (ch * 2)"
proof -
  let ?x = "of_int (mf_rate mix) / of_int outRate :: rat" and ?s = "sum_list (map (\<lambda>p. snd p - 1) pkts)"
  have cv: "cv_needs_resample cv" "cv_in_rate cv = mf_rate mix" "cv_out_rate cv = outRate" "cv_out_channels cv = ch" "cv_frac cv = 0"
    using assms(1) by (simp_all add: cv_def new_capture_converter_def)
  have x: "0 < ?x" using assms(2,3) by simp
  obtain pcm cv1 m where c: "convert_packets rat_ops f32 cv pkts = Some (pcm, cv1)" "length pcm = m * (ch * 2)"
    "of_nat m * ?x = cv_frac cv1 + of_nat ?s" "0 \<le> cv_frac cv1" "cv_frac cv1 < ?x"
    using convert_packets_length[of cv pkts f32] assms(1-5) x cv by auto
  have "\<lceil>of_nat ?s / ?x\<rceil> = int m" by (rule ceiling_steps[OF c(3-5)])
  then have m: "nat \<lceil>of_nat ?s * of_int outRate / (of_int (mf_rate mix) :: rat)\<rceil> = m" by simp
  have "0 \<le> of_nat n * of_int outRate / (of_int (mf_rate mix) :: rat)" using assms(2,3) by simp
  then have "length (convert_silence rat_ops cv n) = (nat \<lfloor>of_nat n * of_int outRate / (of_int (mf_rate mix) :: rat)\<rfloor> + 2) * (ch * 2)"
    by (simp add: convert_silence_def output_frames_def cv nat_add_distrib)
  then show ?thesis using c(1,2) m by blast
qed

section \<open>Capturing at the same rate\<close>

definition softened :: "u16 \<Rightarrow> u16" where
  "softened s = (let i = sint s in if i \<noteq> - 32768 \<and> 16384 < \<bar>i\<bar> then word_of_int (i - sgn i) else s)"

lemma round_rat_scaled:
  fixes i :: int
  assumes "- 32768 < i" "i < 32768"
  shows "round_rat (of_int i / 32768 * 32767) = of_int (if 16384 < \<bar>i\<bar> then i - sgn i else i)"
proof -
  have b: "(- 32767 :: rat) \<le> of_int i" "(of_int i :: rat) \<le> 32767" using assms by linarith+
  consider "16384 < i" | "0 \<le> i" "i \<le> 16384" | "- 16384 \<le> i" "i < 0" | "i < - 16384" by linarith
  then show ?thesis
  proof cases
    case 1
    then have "(16385 :: rat) \<le> of_int i" by linarith
    then have "\<lfloor>of_int i / 32768 * 32767 + 1 / 2 :: rat\<rfloor> = i - 1" using b by (intro floor_unique) (simp_all add: field_simps)
    then show ?thesis using 1 by (simp add: round_rat_def)
  next
    case 2
    then have "(of_int i :: rat) \<le> 16384" "(0 :: rat) \<le> of_int i" by linarith+
    then have "\<lfloor>of_int i / 32768 * 32767 + 1 / 2 :: rat\<rfloor> = i" using b by (intro floor_unique) (simp_all add: field_simps)
    then show ?thesis using 2 by (simp add: round_rat_def)
  next
    case 3
    then have "(- 16384 :: rat) \<le> of_int i" "(of_int i :: rat) \<le> - 1" by linarith+
    then have "\<lfloor>1 / 2 - of_int i / 32768 * 32767 :: rat\<rfloor> = - i" using b by (intro floor_unique) (simp_all add: field_simps)
    then show ?thesis using 3 by (simp add: round_rat_def)
  next
    case 4
    then have "(of_int i :: rat) \<le> - 16385" by linarith
    then have "\<lfloor>1 / 2 - of_int i / 32768 * 32767 :: rat\<rfloor> = - i - 1" using b by (intro floor_unique) (simp_all add: field_simps)
    then show ?thesis using 4 by (simp add: round_rat_def)
  qed
qed

lemma captured_int:
  assumes i: "i = sint (s :: u16)"
  shows "f64_to_u16 rat_ops (of_int i / 32768) = softened s"
proof -
  have r: "- 32768 \<le> i" "i < 32768" using sint_ge[of s] sint_lt[of s] i by simp_all
  then have "(of_int i :: rat) < 32768" by linarith
  then have lt: "(of_int i / 32768 :: rat) < 1" by simp
  have w: "s = word_of_int i" using i by simp
  show ?thesis
  proof (cases "i = - 32768")
    case True
    then show ?thesis unfolding softened_def i[symmetric] w by (simp add: f64_to_u16_def fo_ge_def)
  next
    case False
    then have b: "- 32768 < i" using r by simp
    then have "(- 32768 :: rat) < of_int i" by linarith
    then have gt: "(- 1 :: rat) < of_int i / 32768" by (simp add: field_simps)
    have t: "trunc_rat (of_int j) = j" for j by (simp add: trunc_rat_def)
    have "f64_to_u16 rat_ops (of_int i / 32768) = word_of_int (trunc_rat (of_int (if 16384 < \<bar>i\<bar> then i - sgn i else i)))"
      unfolding round_rat_scaled[OF b r(2), symmetric] using lt gt by (simp add: f64_to_u16_def fo_ge_def)
    moreover have "softened s = (if 16384 < \<bar>i\<bar> then word_of_int (i - sgn i) else word_of_int i)"
      using False unfolding softened_def i[symmetric] Let_def by (simp add: i)
    ultimately show ?thesis unfolding t by (simp split: if_split)
  qed
qed

lemma captured_sample [simp]: "f64_to_u16 rat_ops (signed s / 32768) = softened s"
  using captured_int[OF refl, of s] by simp

lemma map_nth_cong: "length ys = n \<Longrightarrow> (\<And>i. i < n \<Longrightarrow> f i = g (ys ! i)) \<Longrightarrow> map f [0..<n] = map g ys"
  by (intro nth_equalityI) simp_all

lemma convert_softens_int:
  assumes "0 < frames" "0 < ch" "length dat = frames * ch * 2"
  shows "convert rat_ops f32 (new_capture_converter rat_ops \<lparr>mf_rate = rate, mf_channels = ch, mf_bits = 16, mf_is_float = False\<rparr> ch rate) dat frames =
    Some (concat (map (\<lambda>s. put_le 2 (softened s)) (bytes_to_int16 dat)),
      new_capture_converter rat_ops \<lparr>mf_rate = rate, mf_channels = ch, mf_bits = 16, mf_is_float = False\<rparr> ch rate)"
  using assms by (simp add: convert_def new_capture_converter_def Let_def decode_to_float64_def map_channels_def append_f64_to_s16_def
      bytes_to_int16_def comp_def)

lemma convert_softens_float:
  assumes "0 < frames" "length dat = frames * ch * 4" "length smp = frames * ch"
    "\<forall>i < frames * ch. f32 (get_le (slice (4 * i) (4 * i + 4) dat)) = of_int (sint (smp ! i)) / 32768"
  shows "convert rat_ops f32 (new_capture_converter rat_ops \<lparr>mf_rate = rate, mf_channels = ch, mf_bits = 32, mf_is_float = True\<rparr> ch rate) dat frames =
    Some (concat (map (\<lambda>s. put_le 2 (softened s)) smp),
      new_capture_converter rat_ops \<lparr>mf_rate = rate, mf_channels = ch, mf_bits = 32, mf_is_float = True\<rparr> ch rate)"
proof -
  have "map (\<lambda>i. put_le 2 (f64_to_u16 rat_ops (f32 (get_le (slice (4 * i) (4 * i + 4) dat))))) [0..<length dat div 4] =
      map (\<lambda>s. put_le 2 (softened s)) smp"
  proof (rule map_nth_cong)
    show "length smp = length dat div 4" using assms(2,3) by simp
    fix i assume "i < length dat div 4"
    then have "f32 (get_le (slice (4 * i) (4 * i + 4) dat)) = signed (smp ! i) / 32768" using assms(2,4) by simp
    then show "put_le 2 (f64_to_u16 rat_ops (f32 (get_le (slice (4 * i) (4 * i + 4) dat)))) = put_le 2 (softened (smp ! i))"
      by (simp only: captured_sample)
  qed
  then show ?thesis using assms(1,2) by (simp add: convert_def new_capture_converter_def append_f32_to_s16_def)
qed

text \<open>
  A capture at the same rate is not exact, even in exact arithmetic.  With a device of the engine's rate and channels, whether its samples are 16-bit integers or
  the floats the system makes of them, every sample above half the full scale comes out one step quieter and all others
  as they are, because values are divided by 32768 and multiplied by 32767; the PCM that is called lossless
  carries these.
\<close>

theorem capture_softens:
  assumes "0 < frames" "0 < ch" "length dat16 = frames * ch * 2" "length dat32 = frames * ch * 4"
    "\<forall>i < frames * ch. f32 (get_le (slice (4 * i) (4 * i + 4) dat32)) = of_int (sint (bytes_to_int16 dat16 ! i)) / 32768"
    "mix = \<lparr>mf_rate = rate, mf_channels = ch, mf_bits = (if isFloat then 32 else 16), mf_is_float = isFloat\<rparr>"
  shows "convert rat_ops f32 (new_capture_converter rat_ops mix ch rate) (if isFloat then dat32 else dat16) frames =
    Some (concat (map (\<lambda>s. put_le 2 (softened s)) (bytes_to_int16 dat16)), new_capture_converter rat_ops mix ch rate)"
  using convert_softens_int[OF assms(1-3)] convert_softens_float[OF assms(1,4) _ assms(5)] assms(3) unfolding assms(6)
  by (cases isFloat) simp_all

section \<open>Concrete runs\<close>

theorem playback_resampled_witness:
  "\<exists>r1 ws1. resampler_pulls f64_ops script_pull [1, 1] (new_s16_resampler f64_ops 44100 1 48000) [[0, 0, 100, 0], [200, 0, 44, 1]] =
    Some (Returns ([0, 0, 92, 0], r1, ws1))"
proof -
  let ?ws = "[[0, 0, 100, 0], [200, 0, 44, 1]] :: bytes list"
  have b: "bytes_to_int16 (concat ?ws) = [0, 100, 200, 300]" by code_simp
  have p: "plays ?ws" by (simp add: plays_def)
  have x: "fo_div f64_ops (fo_of_int f64_ops 44100) (fo_of_int f64_ops 48000) = 4137682157646643 / 2 ^ 52" by code_simp
  have q: "play_from f64_ops (4137682157646643 / 2 ^ 52) 1 0 = (0, 4137682157646643 / 2 ^ 52)"
    using f64_exact[of "4137682157646643 / 2 ^ 52" 4137682157646643 "- 52"] by (simp add: play_step_def trunc_rat_def Let_def power_int_minus)
  have h: "\<lfloor>1 / 2 :: rat\<rfloor> = 0" by (rule floor_unique) simp_all
  have f0: "resampled_frame f64_ops 1 [0, 100, 200, 300] 0 0 = [0, 0]"
    using f64_of_int[of "- 1"] by (simp add: resampled_frame_def lerp_def s16_from_f64_def fo_ge_def round_rat_def trunc_rat_def h) code_simp
  have l: "lerp f64_ops (fo_of_int f64_ops (sint (0 :: u16))) (fo_of_int f64_ops (sint (100 :: u16))) (4137682157646643 / 2 ^ 52) = 735 / 8" by code_simp
  have v: "put_le 2 (s16_from_f64 f64_ops (fo_div f64_ops (735 / 8) (fo_of_int f64_ops 32768))) = [92, 0]" by code_simp
  have f1: "resampled_frame f64_ops 1 [0, 100, 200, 300] 0 (4137682157646643 / 2 ^ 52) = [92, 0]"
    using v unfolding l[symmetric] by (simp add: resampled_frame_def del: f64_ops_fields)
  show ?thesis using playback_resampled[of 44100 48000 1 ?ws "4137682157646643 / 2 ^ 52" "[0, 100, 200, 300]" "[1, 1]" 0] p b x
    q f0 f1 by simp
qed


theorem capture_drifts_witness:
  "\<exists>pcm cv1. convert_packets rat_ops (\<lambda>_. 0) (new_capture_converter rat_ops \<lparr>mf_rate = 48000, mf_channels = 2, mf_bits = 16, mf_is_float = False\<rparr> 2 44100)
     (replicate 10 (replicate 1920 0, 480)) = Some (pcm, cv1) \<and> length pcm = 4401 * 4"
proof -
  have c: "nat \<lceil>70413 / (16 :: rat)\<rceil> = 4401" using ceiling_unique[of 4401 "70413 / (16 :: rat)"] by simp
  show ?thesis
    using capture_drifts[of "\<lparr>mf_rate = 48000, mf_channels = 2, mf_bits = 16, mf_is_float = False\<rparr>" 44100 2
        "replicate 10 (replicate 1920 0, 480)" "\<lambda>_. 0"]
    by (simp add: sum_list_replicate c)
qed

theorem capture_softens_witness:
  "let mix = \<lparr>mf_rate = 48000, mf_channels = 1, mf_bits = 32, mf_is_float = True\<rparr>; cv = new_capture_converter rat_ops mix 1 48000
   in convert rat_ops (\<lambda>u. of_int (sint u) / 32768) cv [32, 78, 0, 0, 100, 0, 0, 0] 2 =
     Some (concat (map (\<lambda>s. put_le 2 (softened s)) [20000, 100]), cv) \<and> softened 20000 = 19999 \<and> softened 100 = 100"
proof -
  let ?d = "[32, 78, 0, 0, 100, 0, 0, 0] :: bytes" and ?e = "[32, 78, 100, 0] :: bytes"
  have b: "bytes_to_int16 ?e = [20000, 100]" by code_simp
  have g: "get_le (slice 0 4 ?d) = (20000 :: u32)" "get_le (slice 4 8 ?d) = (100 :: u32)" by code_simp+
  have s: "softened 20000 = 19999" "softened 100 = 100" by code_simp+
  have f: "\<forall>i < 2 * 1. of_int (sint (get_le (slice (4 * i) (4 * i + 4) ?d) :: u32)) / 32768 = (of_int (sint (bytes_to_int16 ?e ! i)) / 32768 :: rat)"
    unfolding b using g by (auto simp: less_2_cases_iff)
  show ?thesis using capture_softens[of 2 1 ?e ?d "\<lambda>u. of_int (sint u) / 32768" _ 48000 True, OF _ _ _ _ f refl] s
    by (simp add: b Let_def)
qed
end
