(* ===== verification/ProcessLoopback.thy ===== *)
theory ProcessLoopback
  imports AudioRing AudioFormat
begin

text \<open>
  Capturing single applications, \<^verbatim>\<open>engine/internal/audio/wasapi/processloopback_windows.go\<close>: the check of the process ids,
  opening one capture per process, and the loop that mixes several.  A process's capture is its hand-off
  ring and whether its goroutine has gone; opening one is a parameter over a world \<open>'w\<close>.  What runs
  beside each other is a list of events: a packet of a process, a capture that goes, a
  turn of the mixing loop, a read.
\<close>

section \<open>Targets\<close>

datatype target_error = NoTargets bool | PidZero | ExcludeTakesOnePid nat

fun dedup_pids :: "u32 list \<Rightarrow> u32 list \<Rightarrow> u32 list option" where
  "dedup_pids out [] = Some out"
| "dedup_pids out (p # ps) = (if p = 0 then None else dedup_pids (if p \<in> set out then out else out @ [p]) ps)"

definition validate_process_loopback_targets :: "u32 list \<Rightarrow> bool \<Rightarrow> target_error + u32 list" where
  "validate_process_loopback_targets pids exclude =
     (if pids = [] then Inl (NoTargets exclude)
      else case dedup_pids [] pids of
        None \<Rightarrow> Inl PidZero
      | Some out \<Rightarrow> if exclude \<and> length out > 1 then Inl (ExcludeTakesOnePid (length out)) else Inr out)"

section \<open>Mixing\<close>

record app_stream =
  as_ring :: ring
  as_gone :: bool

record mixed_capture =
  mx_frame_bytes :: nat
  mx_channels :: nat
  mx_out :: ring
  mx_streams :: "app_stream list"
  mx_dead :: "bool list"
  mx_stopped :: bool

definition clamp_i32_to_s16 :: "u32 \<Rightarrow> u16" where
  "clamp_i32_to_s16 v = (if sint v > 32767 then 32767 else if sint v < - 32768 then 32768 else ucast v)"

definition chunk_frames :: nat where
  "chunk_frames = 480"

text \<open>The sum of the samples at one offset of the scratch buffers, at the width of an \<^verbatim>\<open>int32\<close>.\<close>

definition sample_sum :: "bytes list \<Rightarrow> nat \<Rightarrow> u32" where
  "sample_sum bufs off = fold (\<lambda>b acc. acc + scast (get_le (slice off (off + 2) b) :: u16)) bufs 0"

definition mix_frames :: "nat \<Rightarrow> nat \<Rightarrow> nat \<Rightarrow> bytes list \<Rightarrow> bytes" where
  "mix_frames frameBytes channels n bufs =
     concat (map (\<lambda>f. concat (map (\<lambda>c. put_le 2 (clamp_i32_to_s16 (sample_sum bufs (f * frameBytes + c * 2)))) [0..<channels])) [0..<n])"

text \<open>
  One turn of the loop: captures that have gone are dropped, a chunk is read from every other one, and
  as many frames are mixed as the shortest read has.
\<close>

definition mix_turn :: "bool \<Rightarrow> mixed_capture \<Rightarrow> mixed_capture" where
  "mix_turn contended m =
     (if mx_stopped m then m
      else
        let dead = map2 (\<lambda>s d. d \<or> as_gone s) (mx_streams m) (mx_dead m) in
        if list_all id dead then m\<lparr>mx_dead := dead, mx_stopped := True\<rparr>
        else
          let scratch = replicate (chunk_frames * mx_frame_bytes m) 0;
              reads = map2 (\<lambda>s d. if d then None else Some (ring_read scratch (as_ring s))) (mx_streams m) dead;
              streams = map2 (\<lambda>s r. case r of None \<Rightarrow> s | Some (n, b, r1) \<Rightarrow> s\<lparr>as_ring := r1\<rparr>) (mx_streams m) reads;
              live = List.map_filter (map_option (\<lambda>(n, b, r1). (n, b))) reads;
              minFrames = fold (\<lambda>(n, b) k. min (n div mx_frame_bytes m) k) live chunk_frames;
              m1 = m\<lparr>mx_dead := dead, mx_streams := streams\<rparr>
          in if minFrames = 0 then m1
             else m1\<lparr>mx_out := snd (ring_try_write contended
               (mix_frames (mx_frame_bytes m) (mx_channels m) minFrames (map snd live)) (mx_out m))\<rparr>)"

definition gone :: "app_stream \<Rightarrow> app_stream" where
  "gone s = s\<lparr>as_gone := True\<rparr>"

definition app_packet :: "bool \<Rightarrow> bytes \<Rightarrow> app_stream \<Rightarrow> app_stream" where
  "app_packet contended pcm s =
     (if as_gone s then s else s\<lparr>as_ring := snd (ring_try_write contended pcm (as_ring s))\<rparr>)"

definition on_stream :: "nat \<Rightarrow> (app_stream \<Rightarrow> app_stream) \<Rightarrow> mixed_capture \<Rightarrow> mixed_capture" where
  "on_stream i f m = (if i < length (mx_streams m) then m\<lparr>mx_streams := (mx_streams m)[i := f (mx_streams m ! i)]\<rparr> else m)"

definition mixed_read :: "bytes \<Rightarrow> mixed_capture \<Rightarrow> bytes \<times> mixed_capture" where
  "mixed_read dst m = (case ring_read dst (mx_out m) of (n, dst1, r) \<Rightarrow> (take n dst1, m\<lparr>mx_out := r\<rparr>))"

definition mixed_close :: "mixed_capture \<Rightarrow> mixed_capture" where
  "mixed_close m = m\<lparr>mx_stopped := True, mx_streams := map gone (mx_streams m)\<rparr>"

datatype mix_event = AppPacket nat bool bytes | AppGone nat | MixTurn bool | MixRead bytes | MixClose

definition mix_step :: "mix_event \<Rightarrow> mixed_capture \<Rightarrow> bytes \<times> mixed_capture" where
  "mix_step e m =
     (case e of
        AppPacket i contended pcm \<Rightarrow> ([], on_stream i (app_packet contended pcm) m)
      | AppGone i \<Rightarrow> ([], on_stream i gone m)
      | MixTurn contended \<Rightarrow> ([], mix_turn contended m)
      | MixRead dst \<Rightarrow> mixed_read dst m
      | MixClose \<Rightarrow> ([], mixed_close m))"

primrec mix_run :: "mix_event list \<Rightarrow> mixed_capture \<Rightarrow> bytes \<times> mixed_capture" where
  "mix_run [] m = ([], m)"
| "mix_run (e # es) m = (case mix_step e m of (heard, m1) \<Rightarrow> (case mix_run es m1 of (later, m2) \<Rightarrow> (heard @ later, m2)))"

section \<open>Opening\<close>

datatype loopback_error =
    BadFormat format_error
  | BadTargets target_error
  | ComFailed bytes
  | ActivationFailed bytes
  | PidFailed u32 bytes

datatype opened = OneProcess app_stream | ManyProcesses mixed_capture

text \<open>\<open>open_app pid mode\<close> activates a capture of one process and starts it.\<close>

fun open_apps ::
  "(u32 \<Rightarrow> u32 \<Rightarrow> 'w \<Rightarrow> (bytes + app_stream) \<times> 'w) \<Rightarrow> u32 \<Rightarrow> u32 list \<Rightarrow> 'w \<Rightarrow> (loopback_error + app_stream list) \<times> 'w"
where
  "open_apps open_app mode [] w = (Inr [], w)"
| "open_apps open_app mode (pid # pids) w =
     (case open_app pid mode w of
        (Inl e, w1) \<Rightarrow> (Inl (PidFailed pid e), w1)
      | (Inr s, w1) \<Rightarrow> (case open_apps open_app mode pids w1 of (r, w2) \<Rightarrow> (map_sum id ((#) s) r, w2)))"

definition new_mixed :: "format \<Rightarrow> app_stream list \<Rightarrow> mixed_capture" where
  "new_mixed f streams = \<lparr>mx_frame_bytes = nat (bytes_per_frame f), mx_channels = nat (f_channels f),
     mx_out = new_ring (wrap64 (f_rate f sdiv 4 * bytes_per_frame f)) (bytes_per_frame f), mx_streams = streams,
     mx_dead = replicate (length streams) False, mx_stopped = False\<rparr>"

text \<open>
  \<^verbatim>\<open>OpenProcessLoopback\<close>.  The mixing loop runs from here on, and the deferred function closes the
  captures whenever the function returns: \<open>early\<close> is what happens until the last of them is closed.
\<close>

definition open_process_loopback ::
  "(bytes option) \<Rightarrow> (u32 \<Rightarrow> u32 \<Rightarrow> 'w \<Rightarrow> (bytes + app_stream) \<times> 'w) \<Rightarrow> mix_event list \<Rightarrow> u32 list \<Rightarrow> bool \<Rightarrow> format \<Rightarrow> 'w \<Rightarrow>
     (loopback_error + opened) \<times> 'w"
where
  "open_process_loopback comInit open_app early targets exclude f w =
     (case validate_format f of
        Some e \<Rightarrow> (Inl (BadFormat e), w)
      | None \<Rightarrow>
          (case validate_process_loopback_targets targets exclude of
             Inl e \<Rightarrow> (Inl (BadTargets e), w)
           | Inr pids \<Rightarrow>
               (case comInit of
                  Some e \<Rightarrow> (Inl (ComFailed e), w)
                | None \<Rightarrow>
                    let mode = (if exclude then 1 else 0) in
                    if length pids = 1 then
                      (case open_app (hd pids) mode w of
                         (Inl e, w1) \<Rightarrow> (Inl (ActivationFailed e), w1)
                       | (Inr s, w1) \<Rightarrow> (Inr (OneProcess s), w1))
                    else
                      (case open_apps open_app mode pids w of
                         (Inl e, w1) \<Rightarrow> (Inl e, w1)
                       | (Inr streams, w1) \<Rightarrow>
                           let m = snd (mix_run early (new_mixed f streams))
                           in (Inr (ManyProcesses (m\<lparr>mx_streams := map gone (mx_streams m)\<rparr>)), w1)))))"

section \<open>Several processes\<close>

definition mix_inv :: "mixed_capture \<Rightarrow> bool" where
  "mix_inv m \<longleftrightarrow> ring_inv (mx_out m) \<and> rg_quantum (mx_out m) = mx_frame_bytes m \<and> mx_frame_bytes m = 2 * mx_channels m"

lemma length_mix_frames [simp]: "length (mix_frames fb ch n bufs) = n * (2 * ch)"
proof -
  have "length (concat (map (\<lambda>c. put_le 2 (g c)) [0..<ch])) = 2 * ch" for g :: "nat \<Rightarrow> u16" by (induction ch) simp_all
  then show ?thesis unfolding mix_frames_def by (induction n) simp_all
qed

lemma mix_turn_inv: "mix_inv m \<Longrightarrow> mix_inv (mix_turn c m)"
  using ring_try_write_keeps[of "mx_out m" _ c]
  by (auto simp: mix_inv_def mix_turn_def Let_def ring_ok_def)

lemma mix_step_inv: "mix_inv m \<Longrightarrow> mix_inv (snd (mix_step e m))"
proof (cases e)
  case (MixRead dst)
  assume i: "mix_inv m"
  then obtain n dst1 r1 where "ring_read dst (mx_out m) = (n, dst1, r1)" "ring_inv r1" "rg_quantum r1 = rg_quantum (mx_out m)"
    using ring_read_splits[of "mx_out m" dst] by (auto simp: mix_inv_def)
  then show ?thesis using i MixRead by (simp add: mix_step_def mixed_read_def mix_inv_def)
next
  case (MixTurn c)
  assume "mix_inv m"
  from mix_turn_inv[OF this, of c] MixTurn show ?thesis by (simp add: mix_step_def)
qed (auto simp: mix_step_def on_stream_def mixed_close_def mix_inv_def)

lemma mix_run_inv: "mix_inv m \<Longrightarrow> mix_inv (snd (mix_run es m))"
  using mix_step_inv by (induction es arbitrary: m) (auto split: prod.splits, metis snd_conv)

lemma mix_read_step:
  assumes "mix_inv m"
  shows "\<exists>heard m1. mix_step (MixRead dst) m = (heard, m1) \<and> heard @ ring_abs (mx_out m1) = ring_abs (mx_out m) \<and>
    mx_streams m1 = mx_streams m"
  using ring_read_splits[of "mx_out m" dst] assms by (auto simp: mix_step_def mixed_read_def mix_inv_def)

text \<open>Once every capture has gone, what is heard is what the output ring still holds.\<close>

definition all_gone :: "mixed_capture \<Rightarrow> bool" where
  "all_gone m \<longleftrightarrow> (\<forall>s \<in> set (mx_streams m). as_gone s)"

lemma all_gone_turn:
  assumes "all_gone m"
  shows "mx_out (mix_turn c m) = mx_out m" "all_gone (mix_turn c m)"
proof -
  have "list_all id (map2 (\<lambda>s d. d \<or> as_gone s) (mx_streams m) (mx_dead m))"
    using assms by (auto simp: all_gone_def list_all_iff dest!: set_zip_leftD)
  then show "mx_out (mix_turn c m) = mx_out m" "all_gone (mix_turn c m)" using assms by (auto simp: mix_turn_def Let_def all_gone_def)
qed

lemma all_gone_on_stream:
  assumes "all_gone m" "\<And>s. as_gone s \<Longrightarrow> as_gone (f s)"
  shows "all_gone (on_stream i f m)"
  using assms unfolding all_gone_def on_stream_def by (auto simp: in_set_conv_nth nth_list_update) (metis nth_mem)+

lemma on_stream_out [simp]: "mx_out (on_stream i f m) = mx_out m"
  by (simp add: on_stream_def)

lemma all_gone_step:
  assumes "all_gone m" "mix_inv m" "mix_step e m = (heard, m1)"
  shows "heard @ ring_abs (mx_out m1) = ring_abs (mx_out m) \<and> all_gone m1"
proof (cases e)
  case (AppPacket i c pcm)
  then show ?thesis using assms all_gone_on_stream[OF assms(1), of "app_packet c pcm" i] by (auto simp: mix_step_def app_packet_def)
next
  case (AppGone i)
  then show ?thesis using assms all_gone_on_stream[OF assms(1), of gone i] by (auto simp: mix_step_def gone_def)
next
  case (MixTurn c)
  then show ?thesis using assms all_gone_turn by (auto simp: mix_step_def)
next
  case (MixRead dst)
  then show ?thesis using assms mix_read_step[OF assms(2), of dst] by (auto simp: all_gone_def)
next
  case MixClose
  then show ?thesis using assms by (auto simp: mix_step_def mixed_close_def all_gone_def gone_def)
qed

lemma all_gone_run:
  assumes "all_gone m" "mix_inv m" "mix_run es m = (heard, m1)"
  shows "heard @ ring_abs (mx_out m1) = ring_abs (mx_out m)"
  using assms
proof (induction es arbitrary: m heard m1)
  case (Cons e es)
  obtain h m2 where s: "mix_step e m = (h, m2)" by fastforce
  obtain l m3 where r: "mix_run es m2 = (l, m3)" by fastforce
  have "h @ ring_abs (mx_out m2) = ring_abs (mx_out m)" "all_gone m2" using all_gone_step[OF Cons.prems(1,2) s] by simp_all
  moreover have "mix_inv m2" using mix_step_inv[OF Cons.prems(2), of e] s by simp
  ultimately show ?case using Cons.IH[OF _ _ r] Cons.prems(3) s r by auto
qed simp

lemma quiet_run:
  assumes "mix_inv m" "\<And>c. MixTurn c \<notin> set es" "ring_abs (mx_out m) = []"
  shows "ring_abs (mx_out (snd (mix_run es m))) = []"
  using assms
proof (induction es arbitrary: m)
  case (Cons e es)
  obtain h m2 where s: "mix_step e m = (h, m2)" by fastforce
  have "ring_abs (mx_out m2) = []"
  proof (cases e)
    case (MixRead dst)
    then show ?thesis using mix_read_step[OF Cons.prems(1), of dst] s Cons.prems(3) by auto
  qed (use s Cons.prems in \<open>auto simp: mix_step_def on_stream_def mixed_close_def\<close>)
  moreover have "mix_inv m2" using mix_step_inv[OF Cons.prems(1), of e] s by simp
  moreover have "MixTurn c \<notin> set es" for c using Cons.prems(2)[of c] by simp
  ultimately show ?case using Cons.IH[of m2] s by (simp add: case_prod_unfold)
qed simp

lemma new_mixed_inv:
  assumes "validate_format f = None" "f_channels f < 2 ^ 16" "f_rate f < 2 ^ 32"
  shows "mix_inv (new_mixed f streams)" "ring_abs (mx_out (new_mixed f streams)) = []"
proof -
  have p: "0 < f_channels f" "0 < f_rate f" using assms(1) by (auto simp: validate_format_def split: if_splits)
  have b: "bytes_per_frame f = 2 * f_channels f" using p assms(2) by (simp add: bytes_per_frame_def wrap64_id)
  have le: "f_rate f div 4 * (2 * f_channels f) \<le> 2 ^ 32 * (2 * 2 ^ 16)" using p assms(2,3) by (intro mult_mono) auto
  have lo: "0 \<le> f_rate f div 4 * (2 * f_channels f)" using p by simp
  have "wrap64 (f_rate f div 4 * (2 * f_channels f)) = f_rate f div 4 * (2 * f_channels f)"
    using lo le by (intro wrap64_id) simp_all
  then have o: "mx_out (new_mixed f streams) = new_ring (f_rate f div 4 * (2 * f_channels f)) (2 * f_channels f)"
    using p by (simp add: new_mixed_def b)
  have "rg_quantum (mx_out (new_mixed f streams)) = 2 * nat (f_channels f)"
    unfolding o using p by (simp add: new_ring_def Let_def nat_mult_distrib)
  then show "mix_inv (new_mixed f streams)" "ring_abs (mx_out (new_mixed f streams)) = []"
    using new_ring_inv[OF lo, of "2 * f_channels f"] p unfolding mix_inv_def
    by (simp_all add: o) (simp_all add: new_mixed_def b nat_mult_distrib)
qed

text \<open>
  C9. Capturing several processes is silent.  When a capture of more than one process has been opened, all of its
  captures are closed already, by the deferred function meant for failures: whatever happens then,
  what can be read is what was mixed before opening returned, and nothing at all if the mixing loop got no turn by then.
\<close>

theorem many_processes_fall_silent:
  assumes "open_process_loopback comInit open_app early targets exclude f w = (Inr (ManyProcesses m), w1)"
    "f_channels f < 2 ^ 16" "f_rate f < 2 ^ 32"
  shows "let (heard, m1) = mix_run evs m
    in heard @ ring_abs (mx_out m1) = ring_abs (mx_out m) \<and> ((\<forall>c. MixTurn c \<notin> set early) \<longrightarrow> heard = [])"
proof -
  obtain streams where v: "validate_format f = None"
    and m: "m = snd (mix_run early (new_mixed f streams))\<lparr>mx_streams := map gone (mx_streams (snd (mix_run early (new_mixed f streams))))\<rparr>"
    using assms(1) by (auto simp: open_process_loopback_def Let_def split: option.splits sum.splits prod.splits if_splits)
  let ?e = "snd (mix_run early (new_mixed f streams))"
  note n = new_mixed_inv[OF v assms(2,3), of streams]
  have inv: "mix_inv m" "all_gone m" "mx_out m = mx_out ?e" using mix_run_inv[OF n(1), of early] m by (auto simp: mix_inv_def all_gone_def gone_def)
  obtain heard m1 where r: "mix_run evs m = (heard, m1)" by fastforce
  have h: "heard @ ring_abs (mx_out m1) = ring_abs (mx_out m)" by (rule all_gone_run[OF inv(2,1) r])
  have "heard = []" if "\<forall>c. MixTurn c \<notin> set early"
    using quiet_run[OF n(1) _ n(2), of early] that h inv(3) by simp
  then show ?thesis using h r by simp
qed

section \<open>One turn of the mix\<close>

lemma map2_map: "map2 f xs (map g xs) = map (\<lambda>x. f x (g x)) xs"
  by (induction xs) simp_all

lemma map_filter_map_Some: "List.map_filter (map_option h) (map (\<lambda>x. Some (g x)) xs) = map (h \<circ> g) xs"
  by (induction xs) (simp_all add: List.map_filter_simps)

lemma fold_min: "fold (\<lambda>x k. min (g x) k) xs k0 = Min (insert k0 (g ` set xs))" for k0 :: nat
proof (induction xs arbitrary: k0)
  case (Cons x xs)
  have "fold (\<lambda>x k. min (g x) k) (x # xs) k0 = Min (insert (min (g x) k0) (g ` set xs))"
    by (simp only: fold.simps comp_def Cons.IH)
  also have "\<dots> = Min (insert k0 (g ` set (x # xs)))" by (cases "xs = []") (auto simp: min.commute min.left_commute)
  finally show ?case .
qed simp

lemma sample_sum_int: "sample_sum bufs off = word_of_int (\<Sum>b\<leftarrow>bufs. sint (get_le (slice off (off + 2) b) :: u16))"
proof -
  have "fold (\<lambda>b acc. acc + scast (get_le (slice off (off + 2) b) :: u16)) bufs (word_of_int x :: u32) =
    word_of_int (x + (\<Sum>b\<leftarrow>bufs. sint (get_le (slice off (off + 2) b) :: u16)))" for x
  proof (induction bufs arbitrary: x)
    case (Cons b bufs)
    have "word_of_int x + (scast w :: u32) = word_of_int (x + sint w)" for w :: u16 by (simp only: scast_eq wi_hom_add)
    then show ?case using Cons.IH[of "x + sint (get_le (slice off (off + 2) b) :: u16)"]
      by (simp only: fold.simps comp_def list.map sum_list.Cons add.assoc)
  qed simp
  from this[of 0] show ?thesis by (simp add: sample_sum_def)
qed

definition clip :: "int \<Rightarrow> u16" where
  "clip x = word_of_int (max (- 32768) (min 32767 x))"

lemma clamp_clip:
  assumes "- (2 ^ 31) \<le> x" "x < 2 ^ 31"
  shows "clamp_i32_to_s16 (word_of_int x) = clip x"
proof -
  have s: "sint (word_of_int x :: u32) = x" using assms by (simp only: sint_sbintrunc') (simp add: signed_take_bit_int_eq_self)
  have u: "ucast (word_of_int x :: u32) = (word_of_int x :: u16)" by (rule bit_word_eqI) (simp add: bit_simps)
  show ?thesis unfolding clamp_i32_to_s16_def s u clip_def by (auto simp: max_def min_def)
qed

lemma sample_sum_range:
  assumes "length bufs < 65536"
  shows "- (2 ^ 31) \<le> (\<Sum>b\<leftarrow>bufs. sint (g b :: u16))" "(\<Sum>b\<leftarrow>bufs. sint (g b :: u16)) < 2 ^ 31"
proof -
  have "- 32768 * int (length bufs) \<le> (\<Sum>b\<leftarrow>bufs. sint (g b)) \<and> (\<Sum>b\<leftarrow>bufs. sint (g b)) \<le> 32767 * int (length bufs)"
  proof (induction bufs)
    case (Cons b bufs)
    have "- 32768 \<le> sint (g b)" "sint (g b) \<le> 32767" using sint_ge[of "g b"] sint_lt[of "g b"] by simp_all
    then show ?case using Cons by (simp add: algebra_simps)
  qed simp
  then show "- (2 ^ 31) \<le> (\<Sum>b\<leftarrow>bufs. sint (g b))" "(\<Sum>b\<leftarrow>bufs. sint (g b)) < 2 ^ 31" using assms by simp_all
qed

definition queue :: "app_stream \<Rightarrow> bytes" where
  "queue s = ring_abs (as_ring s)"

text \<open>How much a turn takes of a queue of \<open>n\<close> bytes, and the specification of what it makes of the queues.\<close>

definition taken :: "nat \<Rightarrow> nat \<Rightarrow> nat" where
  "taken fb n = min (chunk_frames * fb) n"

lemma taken_le: "taken fb n \<le> n"
  by (simp add: taken_def)

definition mixed_queues :: "nat \<Rightarrow> nat \<Rightarrow> bytes list \<Rightarrow> bytes" where
  "mixed_queues ch k qs =
     concat (map (\<lambda>f. concat (map (\<lambda>c.
       put_le 2 (clip (\<Sum>q\<leftarrow>qs. sint (get_le (slice (f * (2 * ch) + c * 2) (f * (2 * ch) + c * 2 + 2) q) :: u16)))) [0..<ch])) [0..<k])"

definition streams_ok :: "mixed_capture \<Rightarrow> bool" where
  "streams_ok m \<longleftrightarrow> \<not> mx_stopped m \<and> mx_streams m \<noteq> [] \<and> length (mx_streams m) < 65536 \<and>
     mx_dead m = replicate (length (mx_streams m)) False \<and>
     (\<forall>s \<in> set (mx_streams m). \<not> as_gone s \<and> ring_inv (as_ring s) \<and> rg_quantum (as_ring s) = mx_frame_bytes m)"

lemma stream_read:
  assumes "ring_inv r" "rg_quantum r = fb"
  shows "\<exists>r1. ring_read (replicate (chunk_frames * fb) 0) r =
    (taken fb (length (ring_abs r)), take (taken fb (length (ring_abs r))) (ring_abs r) @
       replicate (chunk_frames * fb - taken fb (length (ring_abs r))) 0, r1) \<and>
    ring_abs r1 = drop (taken fb (length (ring_abs r))) (ring_abs r)"
proof -
  have u: "rg_used r = length (ring_abs r)" using assms(1) by (simp add: ring_abs_def ring_inv_def)
  have "aligned_len r (chunk_frames * fb) = chunk_frames * fb" using assms(2) by (intro aligned_len_id) simp
  then show ?thesis using ring_read_splits[OF assms(1), of "replicate (chunk_frames * fb) 0"] by (auto simp: taken_def u)
qed

lemma mix_frames_queues:
  assumes "length xs < 65536" "\<And>x. x \<in> set xs \<Longrightarrow> take (k * (2 * ch)) (h x) = take (k * (2 * ch)) (q x)"
  shows "mix_frames (2 * ch) ch k (map h xs) = mixed_queues ch k (map q xs)"
proof -
  have "clamp_i32_to_s16 (sample_sum (map h xs) (f * (2 * ch) + c * 2)) =
      clip (\<Sum>b\<leftarrow>map q xs. sint (get_le (slice (f * (2 * ch) + c * 2) (f * (2 * ch) + c * 2 + 2) b) :: u16))" if "f < k" "c < ch" for f c
  proof -
    have "f * (2 * ch) + c * 2 + 2 \<le> f * (2 * ch) + 2 * ch" using that(2) by simp
    also have "\<dots> = Suc f * (2 * ch)" by simp
    also have "\<dots> \<le> k * (2 * ch)" using that(1) by (intro mult_le_mono1) simp
    finally have o: "f * (2 * ch) + c * 2 + 2 \<le> k * (2 * ch)" .
    have "slice i j (h x) = slice i j (q x)" if "x \<in> set xs" "j \<le> k * (2 * ch)" for i j x
      using assms(2)[OF that(1)] that(2) unfolding slice_def by (metis min.absorb1 take_take)
    then have "sample_sum (map h xs) (f * (2 * ch) + c * 2) =
        word_of_int (\<Sum>b\<leftarrow>map q xs. sint (get_le (slice (f * (2 * ch) + c * 2) (f * (2 * ch) + c * 2 + 2) b) :: u16))"
      unfolding sample_sum_int map_map comp_def using o
      by (intro arg_cong[where f = word_of_int] arg_cong[where f = sum_list] map_cong) simp_all
    then show ?thesis using sample_sum_range[of "map q xs"] assms(1) by (simp only: clamp_clip length_map)
  qed
  then show ?thesis unfolding mix_frames_def mixed_queues_def
    by (intro arg_cong[where f = concat] map_cong refl) (simp_all add: comp_def)
qed

lemma list_choice: "(\<And>x. x \<in> set xs \<Longrightarrow> \<exists>y. P x y) \<Longrightarrow> \<exists>f. \<forall>x \<in> set xs. P x (f x)"
  by metis

text \<open>
  A turn of the mix is as fast as its slowest process.  With every capture alive, a turn appends the clipped sums of as many
  frames as each queue has, and takes up to 480 frames from every queue: what the faster processes have
  beyond the slowest is lost, and when one process has nothing nothing is played and the
  others' sound is thrown away.
\<close>

theorem mix_turn_sums:
  assumes "mix_inv m" "streams_ok m" "0 < mx_channels m"
  defines "fb \<equiv> mx_frame_bytes m" and "qs \<equiv> map queue (mx_streams m)"
  defines "k \<equiv> Min ((\<lambda>q. taken fb (length q) div fb) ` set qs)"
  shows "map queue (mx_streams (mix_turn False m)) = map (\<lambda>q. drop (taken fb (length q)) q) qs \<and>
    ring_abs (mx_out (mix_turn False m)) =
      (if k = 0 then ring_abs (mx_out m) else newest (length (rg_buf (mx_out m))) (ring_abs (mx_out m) @ mixed_queues (mx_channels m) k qs))"
proof -
  let ?ss = "mx_streams m" and ?t = "\<lambda>s. taken fb (length (queue s))"
  let ?pad = "\<lambda>s. replicate (chunk_frames * fb - ?t s) (0 :: byte)"
  have fb: "fb = 2 * mx_channels m" "0 < fb" "rg_quantum (mx_out m) = fb" "ring_inv (mx_out m)"
    using assms(1,3) by (simp_all add: mix_inv_def fb_def)
  have ok: "\<not> mx_stopped m" "?ss \<noteq> []" "length ?ss < 65536" "mx_dead m = map (\<lambda>_. False) ?ss"
    "\<And>s. s \<in> set ?ss \<Longrightarrow> \<not> as_gone s \<and> ring_inv (as_ring s) \<and> rg_quantum (as_ring s) = fb"
    using assms(2) by (simp_all add: streams_ok_def fb_def map_replicate_const)
  have "\<exists>r1. ring_read (replicate (chunk_frames * fb) 0) (as_ring s) = (?t s, take (?t s) (queue s) @ ?pad s, r1) \<and>
      ring_abs r1 = drop (?t s) (queue s)" if "s \<in> set ?ss" for s
    using stream_read[of "as_ring s" fb] ok(5)[OF that] by (simp add: queue_def)
  then obtain after where r: "\<And>s. s \<in> set ?ss \<Longrightarrow>
      ring_read (replicate (chunk_frames * fb) 0) (as_ring s) = (?t s, take (?t s) (queue s) @ ?pad s, after s)"
      "\<And>s. s \<in> set ?ss \<Longrightarrow> ring_abs (after s) = drop (?t s) (queue s)"
    using list_choice[of ?ss] by metis
  have dead: "map2 (\<lambda>s d. d \<or> as_gone s) ?ss (mx_dead m) = map (\<lambda>_. False) ?ss" using ok(4,5) by (simp add: map2_map)
  have notall: "\<not> list_all id (map (\<lambda>_. False) ?ss)" using ok(2) by (cases ?ss) simp_all
  have reads: "map2 (\<lambda>s d. if d then None else Some (ring_read (replicate (chunk_frames * fb) 0) (as_ring s))) ?ss (map (\<lambda>_. False) ?ss) =
      map (\<lambda>s. Some (?t s, take (?t s) (queue s) @ ?pad s, after s)) ?ss"
    using r(1) by (simp add: map2_map)
  have live: "List.map_filter (map_option (\<lambda>(n, b, r1). (n, b))) (map (\<lambda>s. Some (?t s, take (?t s) (queue s) @ ?pad s, after s)) ?ss) =
      map (\<lambda>s. (?t s, take (?t s) (queue s) @ ?pad s)) ?ss"
    by (simp add: map_filter_map_Some comp_def)
  have "fold (\<lambda>(n, b) k. min (n div fb) k) (map (\<lambda>s. (?t s, take (?t s) (queue s) @ ?pad s)) ?ss) chunk_frames =
      Min (insert chunk_frames ((\<lambda>s. ?t s div fb) ` set ?ss))"
    using fold_min[of "\<lambda>s. ?t s div fb" ?ss chunk_frames] by (simp add: fold_map comp_def)
  also have "\<dots> = k"
  proof -
    have "?t s div fb \<le> chunk_frames" for s
      using div_le_mono[of "?t s" "chunk_frames * fb" fb] fb(2) by (simp add: taken_def)
    then have "Min ((\<lambda>s. ?t s div fb) ` set ?ss) \<le> chunk_frames"
      using ok(2) by (meson Min_le finite_imageI finite_set image_eqI last_in_set le_trans)
    then show ?thesis using ok(2) by (simp add: k_def qs_def image_image Min_insert)
  qed
  finally have mf: "fold (\<lambda>(n, b) k. min (n div fb) k) (map (\<lambda>s. (?t s, take (?t s) (queue s) @ ?pad s)) ?ss) chunk_frames = k" .
  have enough: "k * (2 * mx_channels m) \<le> ?t s" if "s \<in> set ?ss" for s
  proof -
    have "k \<le> ?t s div fb" unfolding k_def qs_def using that by (intro Min_le) auto
    then have "k * fb \<le> ?t s div fb * fb" by (rule mult_le_mono1)
    then show ?thesis using div_times_less_eq_dividend le_trans fb(1) by blast
  qed
  have mixed: "mix_frames fb (mx_channels m) k (map (\<lambda>s. take (?t s) (queue s) @ ?pad s) ?ss) = mixed_queues (mx_channels m) k qs"
    unfolding qs_def fb(1) using ok(3) enough fb(1) by (intro mix_frames_queues) (simp_all add: take_append min.absorb2[OF taken_le])
  have len: "length (mixed_queues (mx_channels m) k qs) = k * fb"
    unfolding mixed[symmetric] by (simp add: fb(1))
  let ?ss1 = "map2 (\<lambda>s r. case r of None \<Rightarrow> s | Some (n, b, r1) \<Rightarrow> s\<lparr>as_ring := r1\<rparr>) ?ss
    (map (\<lambda>s. Some (?t s, take (?t s) (queue s) @ ?pad s, after s)) ?ss)"
  have ss1: "?ss1 = map (\<lambda>s. s\<lparr>as_ring := after s\<rparr>) ?ss" by (simp add: map2_map)
  let ?m1 = "m\<lparr>mx_dead := map (\<lambda>_. False) ?ss, mx_streams := map (\<lambda>s. s\<lparr>as_ring := after s\<rparr>) ?ss\<rparr>"
  have turn: "mix_turn False m = (if k = 0 then ?m1
      else ?m1\<lparr>mx_out := snd (ring_try_write False (mixed_queues (mx_channels m) k qs) (mx_out m))\<rparr>)"
    using ok(1) notall
    unfolding mix_turn_def Let_def dead fb_def[symmetric] reads live mf ss1 map_map comp_def prod.sel mixed
    by (simp only: if_False simp_thms mixed_capture.simps)
  have q: "map queue (mx_streams (mix_turn False m)) = map (\<lambda>q. drop (taken fb (length q)) q) qs"
    using r(2) unfolding turn qs_def by (simp add: queue_def)
  have "ring_abs (snd (ring_try_write False (mixed_queues (mx_channels m) k qs) (mx_out m))) =
      newest (length (rg_buf (mx_out m))) (ring_abs (mx_out m) @ mixed_queues (mx_channels m) k qs)"
    using ring_write_read[OF fb(4), of "mixed_queues (mx_channels m) k qs" "[]"] by (simp add: ring_ok_def fb(3) len)
  then show ?thesis using q unfolding turn by simp
qed

section \<open>Two processes\<close>

definition demo_app :: app_stream where
  "demo_app = \<lparr>as_ring = new_ring 16 4, as_gone = False\<rparr>"

theorem many_processes_fall_silent_witness:
  "\<exists>m w1. open_process_loopback None (\<lambda>pid mode w. (Inr demo_app, w)) [AppPacket 0 False [1, 2, 3, 4]] [7, 8] False default_format () =
      (Inr (ManyProcesses m), w1) \<and>
    fst (mix_run [MixTurn False, AppPacket 1 False [1, 2, 3, 4], MixTurn False, MixRead [0, 0, 0, 0]] m) = []"
proof -
  define m0 where "m0 = snd (mix_run [AppPacket 0 False [1, 2, 3, 4]] (new_mixed default_format [demo_app, demo_app]))"
  have o: "open_process_loopback None (\<lambda>pid mode w. (Inr demo_app, w)) [AppPacket 0 False [1, 2, 3, 4]] [7, 8] False default_format () =
      (Inr (ManyProcesses (m0\<lparr>mx_streams := map gone (mx_streams m0)\<rparr>)), ())"
    by (simp add: open_process_loopback_def validate_format_def default_format_def validate_process_loopback_targets_def m0_def Let_def del: mix_run.simps)
  have f: "f_channels default_format < 2 ^ 16" "f_rate default_format < 2 ^ 32" by (simp_all add: default_format_def)
  show ?thesis using many_processes_fall_silent[OF o f, of "[MixTurn False, AppPacket 1 False [1, 2, 3, 4], MixTurn False, MixRead [0, 0, 0, 0]]"] o
    by (auto simp: Let_def case_prod_unfold simp del: mix_run.simps)
qed

text \<open>Two stereo captures with two frames and one, which are mixed into one.\<close>

definition demo_mixed :: mixed_capture where
  "demo_mixed = \<lparr>mx_frame_bytes = 4, mx_channels = 2, mx_out = new_ring 64 4,
     mx_streams = [app_packet False [0, 64, 255, 255, 1, 0, 1, 0] demo_app, app_packet False [0, 96, 2, 0] demo_app],
     mx_dead = [False, False], mx_stopped = False\<rparr>"

theorem mix_turn_sums_witness:
  "map queue (mx_streams (mix_turn False demo_mixed)) = [[], []] \<and> ring_abs (mx_out (mix_turn False demo_mixed)) = [255, 127, 1, 0]"
proof -
  have inv: "mix_inv demo_mixed" using new_ring_inv(1)[of 64 4] by (simp add: mix_inv_def demo_mixed_def) (simp add: new_ring_def)
  have a: "\<not> as_gone s \<and> ring_inv (as_ring s) \<and> rg_quantum (as_ring s) = 4" if "s \<in> set (mx_streams demo_mixed)" for s
  proof -
    have "list_all (\<lambda>s. \<not> as_gone s \<and> ring_inv (as_ring s) \<and> rg_quantum (as_ring s) = 4) (mx_streams demo_mixed)" by code_simp
    then show ?thesis using that by (simp add: list_all_iff)
  qed
  then have ok: "streams_ok demo_mixed" by (simp add: streams_ok_def) (simp add: demo_mixed_def)
  have q: "map queue (mx_streams demo_mixed) = [[0, 64, 255, 255, 1, 0, 1, 0], [0, 96, 2, 0]]" by code_simp
  have p: "mx_frame_bytes demo_mixed = 4" "mx_channels demo_mixed = 2" "ring_abs (mx_out demo_mixed) = []" "length (rg_buf (mx_out demo_mixed)) = 64"
    by code_simp+
  have k: "Min ((\<lambda>q. taken 4 (length q) div 4) ` set [[0, 64, 255, 255, 1, 0, 1, 0], [0, 96, 2, 0 :: byte]]) = 1"
    by (simp add: taken_def chunk_frames_def)
  have mq: "mixed_queues 2 1 [[0, 64, 255, 255, 1, 0, 1, 0], [0, 96, 2, 0]] = [255, 127, 1, 0]" by code_simp
  show ?thesis using mix_turn_sums[OF inv ok] unfolding p q k mq by (simp add: taken_def chunk_frames_def newest_all)
qed
end
