(* ===== verification/Recording.thy ===== *)
theory Recording
  imports GoInt
begin

text \<open>
  The recording of a stream as a WAV file, \<^verbatim>\<open>engine/internal/audio/wav.go\<close>.  A write to the file may fail after some of its
  bytes: a fault is \<open>None\<close> or the number of bytes that were written.
\<close>

record wav_writer =
  ww_file :: bytes
  ww_rate :: int
  ww_channels :: int
  ww_data_len :: u32

datatype wav_error = BadWavFormat | CreateFailed | WriteFailed | CloseFailed

definition wav_header :: "int \<Rightarrow> int \<Rightarrow> bytes" where
  "wav_header rate channels =
     bytes_of_str ''RIFF'' @ put_le 4 (36 :: u32) @ bytes_of_str ''WAVE'' @ bytes_of_str ''fmt '' @
     put_le 4 (16 :: u32) @ put_le 2 (1 :: u16) @ put_le 2 (word_of_int channels :: u16) @ put_le 4 (word_of_int rate :: u32) @
     put_le 4 (word_of_int (rate * channels * 2) :: u32) @ put_le 2 (word_of_int (channels * 2) :: u16) @ put_le 2 (16 :: u16) @
     bytes_of_str ''data'' @ put_le 4 (0 :: u32)"

definition new_wav_writer :: "bool \<Rightarrow> nat option \<Rightarrow> int \<Rightarrow> int \<Rightarrow> wav_error + wav_writer" where
  "new_wav_writer created fault rate channels =
     (if rate \<le> 0 \<or> channels \<le> 0 then Inl BadWavFormat
      else if \<not> created then Inl CreateFailed
      else if fault \<noteq> None then Inl WriteFailed
      else Inr \<lparr>ww_file = wav_header rate channels, ww_rate = rate, ww_channels = channels, ww_data_len = 0\<rparr>)"

definition wav_write :: "nat option \<Rightarrow> bytes \<Rightarrow> wav_writer \<Rightarrow> wav_error option \<times> wav_writer" where
  "wav_write fault pcm w =
     (if pcm = [] then (None, w)
      else case fault of
        Some n \<Rightarrow> (Some WriteFailed, w\<lparr>ww_file := ww_file w @ take n pcm\<rparr>)
      | None \<Rightarrow> (None, w\<lparr>ww_file := ww_file w @ pcm, ww_data_len := ww_data_len w + word_of_nat (length pcm)\<rparr>))"

definition write_at :: "nat \<Rightarrow> bytes \<Rightarrow> bytes \<Rightarrow> bytes" where
  "write_at off bs file = take off file @ bs @ drop (off + length bs) file"

text \<open>The faults of the two patches and of closing the file; the file as it is left.\<close>

definition wav_close :: "nat option \<Rightarrow> nat option \<Rightarrow> bool \<Rightarrow> wav_writer \<Rightarrow> wav_error option \<times> bytes" where
  "wav_close fault1 fault2 closed w =
     (let d = put_le 4 (ww_data_len w); r = put_le 4 (36 + ww_data_len w) in
      case fault1 of
        Some n \<Rightarrow> (Some WriteFailed, write_at 40 (take n d) (ww_file w))
      | None \<Rightarrow>
          let file = write_at 40 d (ww_file w) in
          (case fault2 of
             Some n \<Rightarrow> (Some WriteFailed, write_at 4 (take n r) file)
           | None \<Rightarrow> (if closed then None else Some CloseFailed, write_at 4 r file)))"

primrec wav_writes :: "(nat option \<times> bytes) list \<Rightarrow> wav_writer \<Rightarrow> wav_writer" where
  "wav_writes [] w = w"
| "wav_writes (p # ps) w = wav_writes ps (snd (wav_write (fst p) (snd p) w))"

section \<open>A reader\<close>

text \<open>The canonical 44-byte header, as any player reads it: channels, rate and the bytes of the data chunk.\<close>

definition read_wav :: "bytes \<Rightarrow> (u16 \<times> u32 \<times> bytes) option" where
  "read_wav file =
     (if 44 \<le> length file \<and> take 4 file = bytes_of_str ''RIFF'' \<and> slice 8 16 file = bytes_of_str ''WAVEfmt '' \<and>
         get_le (slice 16 20 file) = (16 :: u32) \<and> get_le (slice 20 22 file) = (1 :: u16) \<and>
         get_le (slice 34 36 file) = (16 :: u16) \<and> slice 36 40 file = bytes_of_str ''data''
      then Some (get_le (slice 22 24 file), get_le (slice 24 28 file),
        take (unat (get_le (slice 40 44 file) :: u32)) (drop 44 file))
      else None)"

section \<open>What is recorded can be read\<close>

definition reaches_file :: "nat option \<times> bytes \<Rightarrow> bytes" where
  "reaches_file p = (case fst p of None \<Rightarrow> snd p | Some n \<Rightarrow> take n (snd p))"

definition counted :: "nat option \<times> bytes \<Rightarrow> nat" where
  "counted p = (if fst p = None then length (snd p) else 0)"

lemma wav_writes_fields:
  "ww_file (wav_writes ps w) = ww_file w @ concat (map reaches_file ps)"
  "ww_data_len (wav_writes ps w) = ww_data_len w + word_of_nat (sum_list (map counted ps))"
  by (induction ps arbitrary: w) (auto simp: wav_write_def reaches_file_def counted_def split: option.split)

definition patched_header :: "int \<Rightarrow> int \<Rightarrow> u32 \<Rightarrow> bytes" where
  "patched_header rate channels n =
     bytes_of_str ''RIFF'' @ put_le 4 (36 + n) @ bytes_of_str ''WAVE'' @ bytes_of_str ''fmt '' @
     put_le 4 (16 :: u32) @ put_le 2 (1 :: u16) @ put_le 2 (word_of_int channels :: u16) @ put_le 4 (word_of_int rate :: u32) @
     put_le 4 (word_of_int (rate * channels * 2) :: u32) @ put_le 2 (word_of_int (channels * 2) :: u16) @ put_le 2 (16 :: u16) @
     bytes_of_str ''data'' @ put_le 4 n"

lemma length_bytes_of_str [simp]: "length (bytes_of_str s) = length s"
  by (simp add: bytes_of_str_def)

lemma wav_close_file:
  assumes "ww_file w = wav_header rate channels @ pcm"
  shows "wav_close None None True w = (None, patched_header rate channels (ww_data_len w) @ pcm)"
  by (simp add: wav_close_def write_at_def assms wav_header_def patched_header_def)

lemma read_patched:
  "read_wav (patched_header rate channels n @ pcm) = Some (word_of_int channels, word_of_int rate, take (unat n) pcm)"
proof -
  have s: "bytes_of_str ''WAVE'' @ bytes_of_str ''fmt '' = bytes_of_str ''WAVEfmt ''" by (simp add: bytes_of_str_def)
  let ?f = "patched_header rate channels n @ pcm"
  have "44 \<le> length ?f" "take 4 ?f = bytes_of_str ''RIFF''" by (simp_all add: patched_header_def)
  moreover have "slice 8 16 ?f = bytes_of_str ''WAVEfmt ''" "slice 16 20 ?f = put_le 4 (16 :: u32)" "slice 20 22 ?f = put_le 2 (1 :: u16)"
    "slice 22 24 ?f = put_le 2 (word_of_int channels :: u16)" "slice 24 28 ?f = put_le 4 (word_of_int rate :: u32)"
    "slice 34 36 ?f = put_le 2 (16 :: u16)" "slice 36 40 ?f = bytes_of_str ''data''" "slice 40 44 ?f = put_le 4 n" "drop 44 ?f = pcm"
    by (simp_all add: patched_header_def slice_def flip: s)
  ultimately show ?thesis by (simp add: read_wav_def get_put_le)
qed

text \<open>
  C39. A recording plays back what was recorded.  After any writes and a close that succeeds, a player finds the channels and the
  rate, and of the bytes that reached the file as many as the writes that succeeded had: all of the stream if
  no write failed.  The length is kept in 32 bits, so of a recording of 4 GiB or more only the remainder of its
  length is found.
\<close>

theorem recording_read_back:
  assumes "new_wav_writer True None rate channels = Inr w" "rate < 2 ^ 32" "channels < 2 ^ 16"
  shows "\<exists>file. wav_close None None True (wav_writes ps w) = (None, file) \<and>
    read_wav file = Some (word_of_int channels, word_of_int rate,
      take (sum_list (map counted ps) mod 2 ^ 32) (concat (map reaches_file ps))) \<and>
    uint (word_of_int channels :: u16) = channels \<and> uint (word_of_int rate :: u32) = rate \<and>
    ((\<forall>p \<in> set ps. fst p = None) \<and> sum_list (map (length \<circ> snd) ps) < 2 ^ 32 \<longrightarrow>
      read_wav file = Some (word_of_int channels, word_of_int rate, concat (map snd ps)))"
proof -
  have w: "ww_file w = wav_header rate channels" "ww_data_len w = 0" "0 < rate" "0 < channels"
    using assms(1) by (auto simp: new_wav_writer_def split: if_splits)
  let ?n = "word_of_nat (sum_list (map counted ps)) :: u32"
  let ?file = "patched_header rate channels ?n @ concat (map reaches_file ps)"
  have c: "wav_close None None True (wav_writes ps w) = (None, ?file)"
    using wav_close_file[of "wav_writes ps w" rate channels] by (simp add: wav_writes_fields w)
  have n: "unat ?n = sum_list (map counted ps) mod 2 ^ 32" by (simp add: unat_of_nat)
  have r: "read_wav ?file = Some (word_of_int channels, word_of_int rate, take (sum_list (map counted ps) mod 2 ^ 32) (concat (map reaches_file ps)))"
    by (simp only: read_patched n)
  have full: "take (sum_list (map counted ps) mod 2 ^ 32) (concat (map reaches_file ps)) = concat (map snd ps)"
    if "\<forall>p \<in> set ps. fst p = None" "sum_list (map (length \<circ> snd) ps) < 2 ^ 32"
  proof -
    have "map counted ps = map (length \<circ> snd) ps" "map reaches_file ps = map snd ps"
      using that(1) by (auto simp: counted_def reaches_file_def)
    then show ?thesis using that(2) by (simp only: length_concat map_map mod_less) (simp add: length_concat comp_def)
  qed
  have "uint (word_of_int channels :: u16) = channels" "uint (word_of_int rate :: u32) = rate"
    using w(3,4) assms(2,3) by (simp_all add: uint_word_of_int)
  then show ?thesis using c r full by auto
qed

theorem recording_read_back_witness:
  "\<exists>w file. new_wav_writer True None 48000 2 = Inr w \<and>
    wav_close None None True (wav_writes [(None, [1, 0, 2, 0]), (Some 1, [9, 9, 9, 9]), (None, [3, 0, 4, 0])] w) = (None, file) \<and>
    read_wav file = Some (2, 48000, [1, 0, 2, 0, 9, 3, 0, 4])"
proof -
  obtain w where w: "new_wav_writer True None 48000 2 = Inr w" by (simp add: new_wav_writer_def)
  show ?thesis
    using recording_read_back[OF w, of "[(None, [1, 0, 2, 0]), (Some 1, [9, 9, 9, 9]), (None, [3, 0, 4, 0])]"]
    by (auto simp: w counted_def reaches_file_def)
qed

end
