(* ===== verification/Mobile.thy ===== *)
theory Mobile
  imports ClientRun
begin

text \<open>
  The facade the iOS app drives, \<^verbatim>\<open>engine/mobile/mobile.go\<close>, and the check of a peer's certificate that its
  connections rest on (\<^verbatim>\<open>FingerprintVerifier\<close> of \<^verbatim>\<open>engine/internal/transport/v2/tls.go\<close>).  The package's
  variables are one record; the goroutines of \<^verbatim>\<open>Connect\<close> are its list of threads, and the interleaving of
  the app's calls with their steps is a step relation.  A connection and its context have the number of
  the call.  Certificate parsing is the parameter \<open>parse\<close>, the hash of a public key \<open>keyHash\<close>.
\<close>

section \<open>The peer's certificate\<close>

datatype verify_error = NoCertificate | BadCertificate | NotPairedDevice string

definition fingerprint_verifier ::
  "(bytes \<Rightarrow> 'cert option) \<Rightarrow> ('cert \<Rightarrow> string) \<Rightarrow> string set \<Rightarrow> bool \<Rightarrow> bytes list \<Rightarrow> verify_error option"
where
  "fingerprint_verifier parse keyHash trusted trustAny rawCerts =
     (case rawCerts of
        [] \<Rightarrow> Some NoCertificate
      | raw # _ \<Rightarrow>
          (case parse raw of
             None \<Rightarrow> Some BadCertificate
           | Some cert \<Rightarrow>
               let fp = keyHash cert in
               if trustAny \<or> fp \<in> trusted then None else Some (NotPairedDevice (take 16 fp))))"

text \<open>What \<^verbatim>\<open>runOnce\<close> dials with: on a direct connection the pinned hosts, any host when there are none.\<close>

definition dial_verifier :: "(bytes \<Rightarrow> 'cert option) \<Rightarrow> ('cert \<Rightarrow> string) \<Rightarrow> client_options \<Rightarrow> bytes list \<Rightarrow> verify_error option" where
  "dial_verifier parse keyHash opts =
     (if co_relay_addr opts \<noteq> [] then fingerprint_verifier parse keyHash {} True
      else fingerprint_verifier parse keyHash (co_trusted opts) (co_trusted opts = {}))"

section \<open>Arguments\<close>

definition clamp_int :: "int \<Rightarrow> int \<Rightarrow> int \<Rightarrow> int" where
  "clamp_int v lo hi = (if v < lo then lo else if v > hi then hi else v)"

definition mobile_bool_bit :: "bool \<Rightarrow> u8" where
  "mobile_bool_bit b = (if b then 1 else 0)"

record connect_args =
  ca_host_addr :: bytes
  ca_relay_addr :: bytes
  ca_host_device_id :: bytes
  ca_name :: bytes
  ca_codec :: int
  ca_rate :: int
  ca_channels :: int
  ca_frame_ms :: int
  ca_bitrate :: int
  ca_fec :: bool
  ca_dtx :: bool
  ca_complexity :: int
  ca_app :: int
  ca_pins :: "bytes option"

definition mobile_caps :: "connect_args \<Rightarrow> caps" where
  "mobile_caps a =
     (let requested = no_caps\<lparr>c_codec := word_of_int (clamp_int (ca_codec a) 0 1),
            c_sample_rate := word_of_int (clamp_int (ca_rate a) 0 192000),
            c_channels := word_of_int (clamp_int (ca_channels a) 0 8),
            c_frame_ms := word_of_int (clamp_int (ca_frame_ms a) 0 20),
            c_opus_bitrate := word_of_int (clamp_int (ca_bitrate a) 0 510000),
            c_fec := mobile_bool_bit (ca_fec a), c_dtx := mobile_bool_bit (ca_dtx a),
            c_complexity := word_of_int (clamp_int (ca_complexity a) 0 10),
            c_app_id := word_of_int (clamp_int (ca_app a) 0 2)\<rparr>
      in if c_sample_rate requested = 0
         then no_caps\<lparr>c_codec := CodecPCMS16LE, c_sample_rate := 48000, c_channels := 2, c_frame_ms := 5\<rparr>
         else requested)"

definition mobile_trusted :: "'t peer_store \<Rightarrow> 't \<Rightarrow> string set" where
  "mobile_trusted P t =
     (case ps_peers P t of Inl _ \<Rightarrow> {} | Inr peers \<Rightarrow> pr_fingerprint ` set (filter (\<lambda>p. pr_fingerprint p \<noteq> []) peers))"

text \<open>The pin source is nil, or it answers, with the empty text when the user cancels.\<close>

definition mobile_pin :: "bytes option \<Rightarrow> bytes option" where
  "mobile_pin pins = (case pins of None \<Rightarrow> None | Some p \<Rightarrow> if p = [] then None else Some p)"

definition connect_options :: "'t peer_store \<Rightarrow> 't \<Rightarrow> connect_args \<Rightarrow> client_options" where
  "connect_options P t a =
     \<lparr>co_host_addr = ca_host_addr a, co_relay_addr = ca_relay_addr a, co_host_device_id = ca_host_device_id a,
       co_name = (if ca_name a = [] then bytes_of_str ''iPhone'' else ca_name a), co_trusted = mobile_trusted P t,
       co_pin = Some (mobile_pin (ca_pins a)), co_caps = mobile_caps a, co_reconnect = True, co_dial_timeout = 0\<rparr>"

section \<open>State\<close>

datatype json = JStr string | JBool bool | JInt int | JOther bytes

text \<open>
  A thread is in the \<^verbatim>\<open>Connect\<close> call that will start it, started, running its client, back from it, or has
  cleared \<^verbatim>\<open>running\<close> and is about to publish its last state.
\<close>

datatype stage = Calling | Started | Running | Returned | Leaving

record 't mobile =
  mo_store :: "'t option"
  mo_identity :: bool
  mo_client :: "nat option"
  mo_cancel :: "nat option"
  mo_running :: bool
  mo_state :: string
  mo_last_err :: string
  mo_latest :: "(string \<times> json) list"
  mo_told :: "(string \<times> json) list list"
  mo_calls :: nat
  mo_threads :: "(nat \<times> stage) list"
  mo_cancelled :: "nat set"
  mo_stopped :: "nat set"

definition snapshot_state :: "int \<Rightarrow> 't mobile \<Rightarrow> (string \<times> json) list" where
  "snapshot_state now m = [(''state'', JStr (mo_state m)), (''error'', JStr (mo_last_err m)), (''time'', JInt now)]"

definition publish :: "(string \<times> json) list \<Rightarrow> 't mobile \<Rightarrow> 't mobile" where
  "publish snap m = m\<lparr>mo_latest := snap, mo_told := mo_told m @ [snap]\<rparr>"

definition set_mobile_state :: "int \<Rightarrow> string \<Rightarrow> 't mobile \<Rightarrow> 't mobile" where
  "set_mobile_state now s m = (let m1 = m\<lparr>mo_state := s\<rparr> in publish (snapshot_state now m1) m1)"

definition publish_state :: "int \<Rightarrow> 't mobile \<Rightarrow> 't mobile" where
  "publish_state now m = publish (snapshot_state now m) m"

definition mobile_fail :: "int \<Rightarrow> string \<Rightarrow> 't mobile \<Rightarrow> 't mobile" where
  "mobile_fail now err m = publish_state now (m\<lparr>mo_last_err := err\<rparr>)"

text \<open>One tick of \<^verbatim>\<open>statsLoop\<close>: \<open>clientJSON\<close> is what the client's measurements parse to.\<close>

definition publish_stats :: "(string \<times> json) list option \<Rightarrow> 't mobile \<Rightarrow> 't mobile" where
  "publish_stats clientJSON m =
     m\<lparr>mo_latest := (if mo_client m \<noteq> None
        then AList.update ''connected'' (JBool (mo_running m)) (AList.update ''state'' (JStr (mo_state m))
               (case clientJSON of None \<Rightarrow> [] | Some snap \<Rightarrow> snap))
        else [(''state'', JStr (mo_state m)), (''connected'', JBool False)])\<rparr>"

section \<open>Setting up\<close>

datatype setup_error = DirRequired | MkdirFailed | SourceRequired | SetupStore store_error | SetupIdentity client_error

definition mobile_setup ::
  "bytes \<Rightarrow> bool \<Rightarrow> store_error + 't \<Rightarrow> ('t \<Rightarrow> store_error + 'k option) \<Rightarrow> ('k \<Rightarrow> 't \<Rightarrow> store_error option \<times> 't) \<Rightarrow>
     'k option \<Rightarrow> int \<Rightarrow> 't mobile \<Rightarrow> setup_error option \<times> 't mobile"
where
  "mobile_setup dir made opened load save fresh now m =
     (if dir = [] then (Some DirRequired, m)
      else if \<not> made then (Some MkdirFailed, m)
      else case opened of
        Inl e \<Rightarrow> (Some (SetupStore e), m)
      | Inr t \<Rightarrow>
          (case ensure_identity load save fresh t of
             (Inl e, t1) \<Rightarrow> (Some (SetupIdentity e), m\<lparr>mo_store := Some t1\<rparr>)
           | (Inr k, t1) \<Rightarrow> (None, set_mobile_state now ''ready'' (m\<lparr>mo_store := Some t1, mo_identity := True\<rparr>))))"

text \<open>With a Keychain: \<open>migrated\<close> is the outcome of the migration, \<open>opened\<close> the store made of the source after it.\<close>

definition setup_keychain ::
  "bool \<Rightarrow> store_error option \<Rightarrow> store_error + 't \<Rightarrow> ('t \<Rightarrow> store_error + 'k option) \<Rightarrow> ('k \<Rightarrow> 't \<Rightarrow> store_error option \<times> 't) \<Rightarrow>
     'k option \<Rightarrow> int \<Rightarrow> 't mobile \<Rightarrow> setup_error option \<times> 't mobile"
where
  "setup_keychain hasSource migrated opened load save fresh now m =
     (if \<not> hasSource then (Some SourceRequired, m)
      else case migrated of
        Some e \<Rightarrow> (Some (SetupStore e), m)
      | None \<Rightarrow>
          (case opened of
             Inl e \<Rightarrow> (Some (SetupStore e), m)
           | Inr t \<Rightarrow>
               (case ensure_identity load save fresh t of
                  (Inl e, t1) \<Rightarrow> (Some (SetupIdentity e), m)
                | (Inr k, t1) \<Rightarrow> (None, set_mobile_state now ''ready'' (m\<lparr>mo_store := Some t1, mo_identity := True\<rparr>)))))"

section \<open>Connecting and stopping\<close>

datatype connect_error = AlreadyConnected | CallSetupFirst | HostAddressRequired | RelayArgsRequired | MobileNotConnected

definition connect_begin :: "connect_args \<Rightarrow> 't mobile \<Rightarrow> connect_error + 't mobile" where
  "connect_begin a m =
     (if mo_running m then Inl AlreadyConnected
      else if mo_store m = None \<or> \<not> mo_identity m then Inl CallSetupFirst
      else if ca_relay_addr a = [] \<and> ca_host_addr a = [] then Inl HostAddressRequired
      else Inr (m\<lparr>mo_running := True, mo_calls := Suc (mo_calls m), mo_threads := mo_threads m @ [(mo_calls m, Calling)]\<rparr>))"

definition connect_via_relay :: "connect_args \<Rightarrow> 't mobile \<Rightarrow> connect_error + 't mobile" where
  "connect_via_relay a m = (if ca_relay_addr a = [] \<or> ca_host_device_id a = [] then Inl RelayArgsRequired
     else connect_begin (a\<lparr>ca_host_addr := []\<rparr>) m)"

definition connect_with_caps :: "connect_args \<Rightarrow> 't mobile \<Rightarrow> connect_error + 't mobile" where
  "connect_with_caps a m = connect_begin (a\<lparr>ca_relay_addr := [], ca_host_device_id := []\<rparr>) m"

definition connect_default :: "bytes \<Rightarrow> bytes \<Rightarrow> bytes option \<Rightarrow> 't mobile \<Rightarrow> connect_error + 't mobile" where
  "connect_default hostAddr name pins m = connect_with_caps
     \<lparr>ca_host_addr = hostAddr, ca_relay_addr = [], ca_host_device_id = [], ca_name = name, ca_codec = 0, ca_rate = 0,
       ca_channels = 0, ca_frame_ms = 0, ca_bitrate = 0, ca_fec = False, ca_dtx = False, ca_complexity = 0, ca_app = 0,
       ca_pins = pins\<rparr> m"

definition to_stage :: "nat \<Rightarrow> stage \<Rightarrow> 't mobile \<Rightarrow> 't mobile" where
  "to_stage n st m = m\<lparr>mo_threads := map (\<lambda>(i, s). (i, if i = n then st else s)) (mo_threads m)\<rparr>"

text \<open>The rest of the call, and what its goroutine does.\<close>

definition connect_spawn :: "int \<Rightarrow> nat \<Rightarrow> 't mobile \<Rightarrow> 't mobile" where
  "connect_spawn now n m = to_stage n Started ((set_mobile_state now ''connecting'' m)\<lparr>mo_cancel := Some n\<rparr>)"

definition client_made :: "int \<Rightarrow> string option \<Rightarrow> nat \<Rightarrow> 't mobile \<Rightarrow> 't mobile" where
  "client_made now err n m =
     (case err of
        Some e \<Rightarrow> to_stage n Returned (mobile_fail now e m)
      | None \<Rightarrow> to_stage n Running (m\<lparr>mo_client := Some n\<rparr>))"

definition run_returned :: "int \<Rightarrow> string option \<Rightarrow> bool \<Rightarrow> nat \<Rightarrow> 't mobile \<Rightarrow> 't mobile" where
  "run_returned now err isCanceled n m =
     (let m1 = (case err of None \<Rightarrow> m | Some e \<Rightarrow> if n \<in> mo_cancelled m \<or> isCanceled then m else mobile_fail now e m)
      in to_stage n Returned (m1\<lparr>mo_client := None\<rparr>))"

definition clear_running :: "nat \<Rightarrow> 't mobile \<Rightarrow> 't mobile" where
  "clear_running n m = to_stage n Leaving (m\<lparr>mo_running := False\<rparr>)"

definition leave :: "int \<Rightarrow> nat \<Rightarrow> 't mobile \<Rightarrow> 't mobile" where
  "leave now n m = (set_mobile_state now ''idle'' m)\<lparr>mo_threads := filter (\<lambda>(i, s). i \<noteq> n) (mo_threads m)\<rparr>"

definition mobile_stop :: "'t mobile \<Rightarrow> 't mobile" where
  "mobile_stop m = m\<lparr>mo_client := None, mo_cancel := None, mo_cancelled := mo_cancelled m \<union> set_option (mo_cancel m),
     mo_stopped := mo_stopped m \<union> set_option (mo_client m)\<rparr>"

text \<open>The request of the app while connected; \<open>client\<close> carries it out.\<close>

definition mobile_request :: "(nat \<Rightarrow> 'r) \<Rightarrow> 't mobile \<Rightarrow> connect_error + 'r" where
  "mobile_request client m =
     (case mo_client m of None \<Rightarrow> Inl MobileNotConnected | Some c \<Rightarrow> if mo_running m then Inr (client c) else Inl MobileNotConnected)"

definition mobile_set_source :: "int \<Rightarrow> bytes \<Rightarrow> (nat \<Rightarrow> session option) \<Rightarrow> 't mobile \<Rightarrow> connect_error + client_error option \<times> session option" where
  "mobile_set_source kind name sess = mobile_request (\<lambda>c. set_source_request (word_of_int (clamp_int kind 0 3)) name (sess c))"

definition mobile_set_quality_mode :: "int \<Rightarrow> (nat \<Rightarrow> session option) \<Rightarrow> 't mobile \<Rightarrow> connect_error + client_error option \<times> session option" where
  "mobile_set_quality_mode mode sess = mobile_request (\<lambda>c. set_quality_mode (word_of_int (clamp_int mode 0 4)) (sess c))"

inductive mobile_step :: "'t mobile \<Rightarrow> 't mobile \<Rightarrow> bool" where
  StepSetup: "(e, m1) = mobile_setup dir made opened load save (fresh :: bytes option) now (m :: 't mobile) \<Longrightarrow> mobile_step m m1"
| StepKeychain: "(e, m1) = setup_keychain hasSource migrated opened load save (fresh :: bytes option) now m \<Longrightarrow> mobile_step m m1"
| StepConnect: "connect_begin a m = Inr m1 \<Longrightarrow> mobile_step m m1"
| StepSpawn: "(n, Calling) \<in> set (mo_threads m) \<Longrightarrow> mobile_step m (connect_spawn now n m)"
| StepMade: "(n, Started) \<in> set (mo_threads m) \<Longrightarrow> mobile_step m (client_made now err n m)"
| StepTold: "(n, Running) \<in> set (mo_threads m) \<Longrightarrow> mobile_step m (set_mobile_state now s m)"
| StepReturned: "(n, Running) \<in> set (mo_threads m) \<Longrightarrow> mobile_step m (run_returned now err isCanceled n m)"
| StepCleared: "(n, Returned) \<in> set (mo_threads m) \<Longrightarrow> mobile_step m (clear_running n m)"
| StepLeft: "(n, Leaving) \<in> set (mo_threads m) \<Longrightarrow> mobile_step m (leave now n m)"
| StepStop: "mobile_step m (mobile_stop m)"
| StepStats: "mobile_step m (publish_stats clientJSON m)"

definition fresh_mobile :: "'t mobile" where
  "fresh_mobile = \<lparr>mo_store = None, mo_identity = False, mo_client = None, mo_cancel = None, mo_running = False,
     mo_state = ''idle'', mo_last_err = [], mo_latest = [], mo_told = [], mo_calls = 0, mo_threads = [], mo_cancelled = {}, mo_stopped = {}\<rparr>"

inductive mobile_reach :: "'t mobile \<Rightarrow> bool" where
  ReachFresh: "mobile_reach fresh_mobile"
| ReachStep: "mobile_reach m \<Longrightarrow> mobile_step m m1 \<Longrightarrow> mobile_reach m1"

section \<open>Peer ids\<close>

definition hex_val :: "u8 \<Rightarrow> int" where
  "hex_val c = (if 48 \<le> c \<and> c \<le> 57 then uint c - 48
     else if 97 \<le> c \<and> c \<le> 102 then uint c - 97 + 10
     else if 65 \<le> c \<and> c \<le> 70 then uint c - 65 + 10
     else - 1)"

datatype hex_error = HexLength | HexDigit

fun decode_hex_digits :: "bytes \<Rightarrow> hex_error + bytes" where
  "decode_hex_digits (a # b # s) =
     (if hex_val a < 0 \<or> hex_val b < 0 then Inl HexDigit
      else map_sum id ((#) (word_of_int (hex_val a) * 16 OR word_of_int (hex_val b))) (decode_hex_digits s))"
| "decode_hex_digits s = Inr []"

definition decode_hex :: "bytes \<Rightarrow> hex_error + bytes" where
  "decode_hex s = (if length s mod 2 \<noteq> 0 then Inl HexLength else decode_hex_digits s)"

datatype forget_error = NotSetUp | BadPeerId | ForgetStore store_error

definition mobile_forget_peer :: "'t peer_store \<Rightarrow> bytes \<Rightarrow> 't mobile \<Rightarrow> forget_error option \<times> 't mobile" where
  "mobile_forget_peer P idHex m =
     (case mo_store m of
        None \<Rightarrow> (Some NotSetUp, m)
      | Some t \<Rightarrow>
          (case decode_hex idHex of
             Inl _ \<Rightarrow> (Some BadPeerId, m)
           | Inr b \<Rightarrow>
               if length b \<noteq> 16 then (Some BadPeerId, m)
               else (case ps_remove P b t of (e, t1) \<Rightarrow> (map_option ForgetStore e, m\<lparr>mo_store := Some t1\<rparr>))))"

definition mobile_peer_list :: "'t peer_store \<Rightarrow> 't mobile \<Rightarrow> peer_record list" where
  "mobile_peer_list P m =
     (case mo_store m of None \<Rightarrow> [] | Some t \<Rightarrow> (case ps_peers P t of Inl _ \<Rightarrow> [] | Inr peers \<Rightarrow> peers))"

section \<open>One connection at a time\<close>

inductive_cases mobile_stepE [elim]: "mobile_step m m1"

definition at_work :: "nat \<times> stage \<Rightarrow> bool" where
  "at_work t \<longleftrightarrow> snd t \<noteq> Leaving"

definition mobile_inv :: "'t mobile \<Rightarrow> bool" where
  "mobile_inv m \<longleftrightarrow> distinct (map fst (mo_threads m)) \<and> (\<forall>n \<in> fst ` set (mo_threads m). n < mo_calls m) \<and>
     length (filter at_work (mo_threads m)) = (if mo_running m then 1 else 0) \<and>
     (\<forall>n. mo_client m = Some n \<longrightarrow> (n, Running) \<in> set (mo_threads m)) \<and>
     (\<forall>n \<in> mo_cancelled m \<union> set_option (mo_cancel m). n < mo_calls m)"

lemma publish_fields [simp]:
  "mo_threads (set_mobile_state now s m) = mo_threads m" "mo_calls (set_mobile_state now s m) = mo_calls m"
  "mo_running (set_mobile_state now s m) = mo_running m" "mo_client (set_mobile_state now s m) = mo_client m"
  "mo_cancelled (set_mobile_state now s m) = mo_cancelled m" "mo_cancel (set_mobile_state now s m) = mo_cancel m"
  "mo_threads (mobile_fail now e m) = mo_threads m" "mo_calls (mobile_fail now e m) = mo_calls m"
  "mo_running (mobile_fail now e m) = mo_running m" "mo_client (mobile_fail now e m) = mo_client m"
  "mo_cancelled (mobile_fail now e m) = mo_cancelled m" "mo_cancel (mobile_fail now e m) = mo_cancel m"
  by (simp_all add: set_mobile_state_def mobile_fail_def publish_state_def publish_def Let_def)

lemma to_stage_fields [simp]:
  "mo_calls (to_stage n st m) = mo_calls m" "mo_running (to_stage n st m) = mo_running m"
  "mo_client (to_stage n st m) = mo_client m" "mo_cancelled (to_stage n st m) = mo_cancelled m"
  "mo_cancel (to_stage n st m) = mo_cancel m" "map fst (mo_threads (to_stage n st m)) = map fst (mo_threads m)"
  by (simp_all add: to_stage_def comp_def case_prod_unfold)

lemma to_stage_ids: "fst ` set (mo_threads (to_stage n st m)) = fst ` set (mo_threads m)"
  by (metis list.set_map to_stage_fields(6))

lemma at_work_update:
  assumes "distinct (map fst ts)" "(n, s0) \<in> set ts"
  shows "length (filter at_work (map (\<lambda>(i, s). (i, if i = n then st else s)) ts)) + (if s0 = Leaving then 0 else 1) =
    length (filter at_work ts) + (if st = Leaving then 0 else 1)"
  using assms
proof (induction ts)
  case (Cons t ts)
  show ?case
  proof (cases "fst t = n")
    case True
    then have "n \<notin> fst ` set ts" using Cons.prems(1) by auto
    then have "map (\<lambda>(i, s). (i, if i = n then st else s)) ts = ts" by (intro map_idI) force
    moreover have "t = (n, s0)" using Cons.prems True by (auto simp: rev_image_eqI)
    ultimately show ?thesis by (simp add: at_work_def)
  next
    case False
    then show ?thesis using Cons by (cases t) (auto simp: at_work_def)
  qed
qed simp

lemma to_stage_at_work:
  assumes "mobile_inv m" "(n, s0) \<in> set (mo_threads m)" "s0 \<noteq> Leaving"
  shows "length (filter at_work (mo_threads (to_stage n st m))) + 1 = length (filter at_work (mo_threads m)) + (if st = Leaving then 0 else 1)"
  using at_work_update[of "mo_threads m" n s0 st] assms by (simp add: mobile_inv_def to_stage_def)

lemma to_stage_other: "(i, s) \<in> set (mo_threads m) \<Longrightarrow> i \<noteq> n \<Longrightarrow> (i, s) \<in> set (mo_threads (to_stage n st m))"
  by (force simp: to_stage_def)

lemma to_stage_this: "(n, s) \<in> set (mo_threads m) \<Longrightarrow> (n, st) \<in> set (mo_threads (to_stage n st m))"
  by (force simp: to_stage_def)

lemma working: "(n, s) \<in> set ts \<Longrightarrow> s \<noteq> Leaving \<Longrightarrow> filter at_work ts \<noteq> []"
  by (force simp: filter_empty_conv at_work_def)

text \<open>The client belongs to the one thread at work.\<close>

lemma two_at_work: "s \<in> set ts \<Longrightarrow> t \<in> set ts \<Longrightarrow> s \<noteq> t \<Longrightarrow> at_work s \<Longrightarrow> at_work t \<Longrightarrow> 2 \<le> length (filter at_work ts)"
proof -
  assume a: "s \<in> set ts" "t \<in> set ts" "s \<noteq> t" "at_work s" "at_work t"
  have "card {s, t} \<le> card (set (filter at_work ts))" using a by (intro card_mono) auto
  then show ?thesis using a(3) card_length[of "filter at_work ts"] by simp
qed

lemma client_thread:
  assumes "mobile_inv m" "(n, s) \<in> set (mo_threads m)" "s \<noteq> Leaving" "s \<noteq> Running"
  shows "mo_client m = None"
proof (rule ccontr)
  assume "mo_client m \<noteq> None"
  then obtain i where "(i, Running) \<in> set (mo_threads m)" using assms(1) by (auto simp: mobile_inv_def)
  then have "2 \<le> length (filter at_work (mo_threads m))" using two_at_work[of "(i, Running)" _ "(n, s)"] assms by (simp add: at_work_def)
  then show False using assms(1) by (simp add: mobile_inv_def split: if_splits)
qed

lemma stage_inv:
  assumes "mobile_inv m" "(n, s0) \<in> set (mo_threads m)" "s0 \<noteq> Leaving"
    "mo_threads m1 = mo_threads (to_stage n st m)" "mo_calls m1 = mo_calls m"
    "mo_running m1 = (st \<noteq> Leaving)" "mo_client m1 = None \<or> mo_client m1 = Some n \<and> st = Running"
    "mo_cancelled m1 \<union> set_option (mo_cancel m1) \<subseteq> insert n (mo_cancelled m \<union> set_option (mo_cancel m))"
  shows "mobile_inv m1"
proof -
  have l: "length (filter at_work (mo_threads m)) = (if mo_running m then 1 else 0)" using assms(1) by (simp add: mobile_inv_def)
  have "n < mo_calls m" using assms(1,2) by (force simp: mobile_inv_def)
  moreover have "length (filter at_work (mo_threads m1)) = (if mo_running m1 then 1 else 0)"
  proof -
    have "filter at_work (mo_threads m) \<noteq> []" using working[OF assms(2,3)] .
    then have "length (filter at_work (mo_threads m)) = 1" using l by (simp split: if_splits)
    then show ?thesis using to_stage_at_work[OF assms(1-3), of st] assms(4,6) by simp
  qed
  moreover have "(n, st) \<in> set (mo_threads m1)" using to_stage_this[OF assms(2)] assms(4) by simp
  ultimately show ?thesis using assms to_stage_ids[of n st m] unfolding mobile_inv_def by auto
qed

lemma mobile_inv_fields [simp]:
  "mobile_inv (m\<lparr>mo_store := t\<rparr>) = mobile_inv m" "mobile_inv (m\<lparr>mo_identity := b\<rparr>) = mobile_inv m"
  "mobile_inv (m\<lparr>mo_latest := l\<rparr>) = mobile_inv m" "mobile_inv (set_mobile_state now s m) = mobile_inv m"
  "mobile_inv (mobile_fail now s m) = mobile_inv m"
  by (simp_all add: mobile_inv_def)

lemma setup_inv:
  "mobile_inv (snd (mobile_setup dir made opened load save fresh now m)) = mobile_inv m"
  "mobile_inv (snd (setup_keychain hasSource migrated opened load save fresh now m)) = mobile_inv m"
proof -
  note d = mobile_setup_def setup_keychain_def
  show "mobile_inv (snd (mobile_setup dir made opened load save fresh now m)) = mobile_inv m"
  proof (cases opened)
    case (Inr t)
    obtain r t1 where e: "ensure_identity load save fresh t = (r, t1)" by fastforce
    show ?thesis using Inr e by (cases r) (simp_all add: d)
  qed (simp add: d)
  show "mobile_inv (snd (setup_keychain hasSource migrated opened load save fresh now m)) = mobile_inv m"
  proof (cases opened)
    case (Inr t)
    obtain r t1 where e: "ensure_identity load save fresh t = (r, t1)" by fastforce
    show ?thesis using Inr e by (cases r) (simp_all add: d split: option.split)
  qed (simp add: d split: option.split)
qed

lemma mobile_step_inv: "mobile_step m m1 \<Longrightarrow> mobile_inv m \<Longrightarrow> mobile_inv m1"
proof (induction rule: mobile_step.induct)
  case (StepSetup e m1 dir made opened load save fresh now m)
  then show ?case using setup_inv(1)[of dir made opened load save fresh now m] by (metis snd_conv)
next
  case (StepKeychain e m1 hasSource migrated opened load save fresh now m)
  then show ?case using setup_inv(2)[of hasSource migrated opened load save fresh now m] by (metis snd_conv)
next
  case (StepConnect a m m1)
  have m1: "m1 = m\<lparr>mo_running := True, mo_calls := Suc (mo_calls m), mo_threads := mo_threads m @ [(mo_calls m, Calling)]\<rparr>"
    "\<not> mo_running m" using StepConnect(1) by (simp_all add: connect_begin_def split: if_splits)
  have "mo_calls m \<notin> fst ` set (mo_threads m)" using StepConnect(2) by (auto simp: mobile_inv_def)
  moreover have "\<forall>n \<in> fst ` set (mo_threads m). n < Suc (mo_calls m)"
    "\<forall>n \<in> mo_cancelled m \<union> set_option (mo_cancel m). n < Suc (mo_calls m)"
    using StepConnect(2) unfolding mobile_inv_def by (blast intro: less_SucI)+
  ultimately show ?case using StepConnect(2) m1(2) unfolding m1(1) mobile_inv_def by (simp add: at_work_def)
next
  case (StepSpawn n m now)
  have "filter at_work (mo_threads m) \<noteq> []" by (rule working[OF StepSpawn(1)]) simp
  then have "mo_running m" using StepSpawn(2) by (auto simp: mobile_inv_def split: if_splits)
  then show ?case using client_thread[OF StepSpawn(2,1)]
    by (intro stage_inv[OF StepSpawn(2,1), of _ Started]) (auto simp: connect_spawn_def to_stage_def)
next
  case (StepMade n m now err)
  have "filter at_work (mo_threads m) \<noteq> []" by (rule working[OF StepMade(1)]) simp
  then have r: "mo_running m" using StepMade(2) by (auto simp: mobile_inv_def split: if_splits)
  show ?case
  proof (cases err)
    case None
    then show ?thesis using r by (intro stage_inv[OF StepMade(2,1), of _ Running]) (auto simp: client_made_def to_stage_def)
  next
    case (Some e)
    then show ?thesis using r client_thread[OF StepMade(2,1)]
      by (intro stage_inv[OF StepMade(2,1), of _ Returned]) (auto simp: client_made_def to_stage_def)
  qed
next
  case (StepTold n m now s)
  then show ?case by simp
next
  case (StepReturned n m now err isCanceled)
  have "filter at_work (mo_threads m) \<noteq> []" by (rule working[OF StepReturned(1)]) simp
  then have "mo_running m" using StepReturned(2) by (auto simp: mobile_inv_def split: if_splits)
  then show ?case
    by (intro stage_inv[OF StepReturned(2,1), of _ Returned]) (auto simp: run_returned_def to_stage_def Let_def split: option.split)
next
  case (StepCleared n m)
  then show ?case using client_thread[OF StepCleared(2,1)]
    by (intro stage_inv[OF StepCleared(2,1), of _ Leaving]) (auto simp: clear_running_def to_stage_def)
next
  case (StepLeft n m now)
  let ?ts = "filter (\<lambda>(i, s). i \<noteq> n) (mo_threads m)"
  have d: "distinct (map fst (mo_threads m))" using StepLeft(2) by (simp add: mobile_inv_def)
  have only: "s = Leaving" if "(n, s) \<in> set (mo_threads m)" for s using eq_key_imp_eq_value[OF d that StepLeft(1)] .
  have "filter at_work ?ts = filter at_work (mo_threads m)"
    unfolding filter_filter using only by (intro filter_cong) (auto simp: at_work_def)
  moreover have "distinct (map fst ?ts)" by (rule distinct_map_filter[OF d])
  moreover have "(i, Running) \<in> set ?ts" if "(i, Running) \<in> set (mo_threads m)" for i using that only by auto
  ultimately show ?case using StepLeft(2) by (auto simp: leave_def mobile_inv_def)
next
  case (StepStop m)
  then show ?case by (auto simp: mobile_stop_def mobile_inv_def)
next
  case (StepStats m clientJSON)
  then show ?case by (simp add: publish_stats_def)
qed

lemma mobile_reach_inv: "mobile_reach m \<Longrightarrow> mobile_inv m"
proof (induction rule: mobile_reach.induct)
  case ReachFresh
  show ?case by (simp add: fresh_mobile_def mobile_inv_def)
qed (rule mobile_step_inv)

text \<open>
  C33. The app has one connection at a time.  Whatever the app calls and however the goroutines of its connections run in between, at most one of
  them is at work, exactly while the engine is called running; the client that requests go to is the one
  it runs; and a connect that is accepted finds none at work.
\<close>

theorem one_connection:
  assumes "mobile_reach m"
  shows "length (filter at_work (mo_threads m)) = (if mo_running m then 1 else 0) \<and>
    (\<forall>c. mo_client m = Some c \<longrightarrow> (c, Running) \<in> set (mo_threads m) \<and> mo_running m) \<and>
    (\<forall>a m1. connect_begin a m = Inr m1 \<longrightarrow> filter at_work (mo_threads m) = [] \<and> length (filter at_work (mo_threads m1)) = 1)"
proof -
  have i: "mobile_inv m" by (rule mobile_reach_inv[OF assms])
  have r: "mo_running m" if "mo_client m = Some c" for c
  proof -
    have "(c, Running) \<in> set (mo_threads m)" using i that by (simp add: mobile_inv_def)
    then have "filter at_work (mo_threads m) \<noteq> []" by (rule working) simp
    then show ?thesis using i by (auto simp: mobile_inv_def split: if_splits)
  qed
  then show ?thesis using i by (auto simp: mobile_inv_def connect_begin_def at_work_def split: if_splits)
qed

text \<open>A stop that comes between the call and its goroutine is lost: the connection goes on.\<close>

lemma early_stop_lost:
  assumes "mobile_reach m" "connect_begin a m = Inr m1"
  shows "let m2 = client_made now2 None (mo_calls m) (connect_spawn now1 (mo_calls m) (mobile_stop m1))
    in mobile_reach m2 \<and> mo_client m2 = Some (mo_calls m) \<and> mo_running m2 \<and> mo_calls m \<notin> mo_cancelled m2"
proof -
  let ?n = "mo_calls m"
  have i: "mobile_inv m" by (rule mobile_reach_inv[OF assms(1)])
  have m1: "(?n, Calling) \<in> set (mo_threads m1)" "mo_running m1" "mo_cancelled m1 = mo_cancelled m" "mo_cancel m1 = mo_cancel m"
    using assms(2) by (auto simp: connect_begin_def split: if_splits)
  let ?s = "mobile_stop m1" and ?p = "connect_spawn now1 ?n (mobile_stop m1)"
  have s: "(?n, Calling) \<in> set (mo_threads ?s)" "mo_running ?s" "?n \<notin> mo_cancelled ?s"
    using m1 i by (auto simp: mobile_stop_def mobile_inv_def)
  have p: "(?n, Started) \<in> set (mo_threads ?p)" "mo_running ?p" "mo_cancelled ?p = mo_cancelled ?s"
    using s(1,2) by (force simp: connect_spawn_def to_stage_def)+
  have "mobile_reach m1" by (rule ReachStep[OF assms(1) StepConnect[OF assms(2)]])
  then have "mobile_reach ?s" by (rule ReachStep) (rule StepStop)
  then have "mobile_reach ?p" by (rule ReachStep) (rule StepSpawn[OF s(1)])
  then have "mobile_reach (client_made now2 None ?n ?p)" by (rule ReachStep) (rule StepMade[OF p(1)])
  then show ?thesis using p s(3) by (simp add: client_made_def)
qed

section \<open>One host\<close>

text \<open>
  The app stays with the hosts it knows.  On a direct connection a host's certificate is accepted exactly if its key belongs to a
  paired host or no paired host has a key on record; so once a host has been paired, every host that is not
  yet paired is turned away before it can show its code, and until the first pairing any host is accepted.
\<close>

theorem one_host_only:
  assumes "ps_peers P t = Inr peers" "ca_relay_addr a = []" "parse raw = Some cert"
  shows "(dial_verifier parse keyHash (connect_options P t a) (raw # chain) = None \<longleftrightarrow>
      (\<forall>p \<in> set peers. pr_fingerprint p = []) \<or> (\<exists>p \<in> set peers. pr_fingerprint p = keyHash cert \<and> pr_fingerprint p \<noteq> [])) \<and>
    (\<forall>r. peers = upsert r ps \<and> pr_fingerprint r \<noteq> [] \<and> (\<forall>p \<in> set peers. pr_fingerprint p \<noteq> keyHash cert) \<longrightarrow>
      dial_verifier parse keyHash (connect_options P t a) (raw # chain) = Some (NotPairedDevice (take 16 (keyHash cert))))"
proof -
  have t: "co_trusted (connect_options P t a) = pr_fingerprint ` {p \<in> set peers. pr_fingerprint p \<noteq> []}"
    using assms(1) by (simp add: connect_options_def mobile_trusted_def)
  have d: "dial_verifier parse keyHash (connect_options P t a) (raw # chain) =
      (if co_trusted (connect_options P t a) = {} \<or> keyHash cert \<in> co_trusted (connect_options P t a) then None
       else Some (NotPairedDevice (take 16 (keyHash cert))))"
    using assms(2,3) by (simp add: dial_verifier_def fingerprint_verifier_def connect_options_def)
  have r: "r \<in> set (upsert r ps)" for r by (induction ps) auto
  show ?thesis unfolding d t using r by (auto simp: image_iff)
qed

section \<open>Forgetting a host\<close>

lemma hex_val_digit: "n < 16 \<Longrightarrow> hex_val (word_of_nat (of_char (hex_digit n))) = int n"
proof -
  assume "n < 16"
  then have "n = 0 \<or> n = 1 \<or> n = 2 \<or> n = 3 \<or> n = 4 \<or> n = 5 \<or> n = 6 \<or> n = 7 \<or>
    n = 8 \<or> n = 9 \<or> n = 10 \<or> n = 11 \<or> n = 12 \<or> n = 13 \<or> n = 14 \<or> n = 15" by presburger
  then show ?thesis by (elim disjE; simp add: hex_digit_def hex_val_def)
qed

lemma hex_byte: "(word_of_nat (unat x div 16) * 16 OR word_of_nat (unat x mod 16) :: u8) = x"
proof -
  have "unat x < 256" using unat_bounds(1)[of x] by simp
  then have "unat x div 16 < 256" by simp
  then have "word_of_nat (unat x div 16) = x div 16"
    by (intro word_unat_eq_iff[THEN iffD2]) (simp add: unat_div_distrib unat_of_nat)
  also have "\<dots> = drop_bit 4 x" by (simp add: drop_bit_eq_div)
  finally have d: "word_of_nat (unat x div 16) * 16 = push_bit 4 (drop_bit 4 x)" by (simp add: push_bit_eq_mult)
  have "word_of_nat (unat x mod 16) = x mod 16" by (rule word_unat_eq_iff[THEN iffD2]) (simp add: unat_mod_distrib)
  also have "\<dots> = take_bit 4 x" by (simp add: take_bit_eq_mod)
  finally show ?thesis unfolding d by (intro bit_word_eqI) (auto simp: bit_simps)
qed

lemma decode_hex_of_bytes: "decode_hex (bytes_of_str (hex_of_bytes b)) = Inr b"
proof -
  have "decode_hex_digits (bytes_of_str (hex_of_bytes b)) = Inr b \<and> even (length (hex_of_bytes b))"
  proof (induction b)
    case (Cons x b)
    have "unat x div 16 < 16" "unat x mod 16 < 16" using unat_bounds(1)[of x] by (simp_all add: less_mult_imp_div_less)
    then show ?case using Cons by (simp add: hex_of_bytes_def bytes_of_str_def hex_val_digit hex_byte)
  qed (simp add: hex_of_bytes_def bytes_of_str_def)
  then show ?thesis by (simp add: decode_hex_def bytes_of_str_def)
qed

lemma forget_by_hex:
  assumes "mo_store m = Some t" "length i = 16"
  shows "mobile_forget_peer P (bytes_of_str (hex_of_bytes i)) m =
    (map_option ForgetStore (fst (ps_remove P i t)), m\<lparr>mo_store := Some (snd (ps_remove P i t))\<rparr>)"
  using assms by (simp add: mobile_forget_peer_def decode_hex_of_bytes split: prod.split)

text \<open>Without a rate every preference is dropped, the codec too.\<close>

lemma default_rate_drops_codec:
  "ca_rate a \<le> 0 \<Longrightarrow> mobile_caps a = no_caps\<lparr>c_codec := CodecPCMS16LE, c_sample_rate := 48000, c_channels := 2, c_frame_ms := 5\<rparr>"
  by (simp add: mobile_caps_def clamp_int_def)

section \<open>A concrete app\<close>

definition demo_args :: connect_args where
  "demo_args = \<lparr>ca_host_addr = [104], ca_relay_addr = [], ca_host_device_id = [], ca_name = [], ca_codec = 1, ca_rate = 0, ca_channels = 0,
     ca_frame_ms = 0, ca_bitrate = 0, ca_fec = False, ca_dtx = False, ca_complexity = 0, ca_app = 0, ca_pins = None\<rparr>"

definition demo_app_ready :: "windows_store mobile" where
  "demo_app_ready = snd (mobile_setup [100] True (Inr (new_windows_store FileMissing)) (\<lambda>_. Inr (Some [1])) (\<lambda>_ t. (None, t)) (None :: bytes option) 0 fresh_mobile)"

theorem one_connection_witness:
  "\<exists>m. connect_begin demo_args demo_app_ready = Inr m \<and> length (filter at_work (mo_threads m)) = 1 \<and> connect_begin demo_args m = Inl AlreadyConnected"
proof -
  have "mobile_reach demo_app_ready" unfolding demo_app_ready_def
    by (rule ReachStep[OF ReachFresh], rule StepSetup[OF prod.collapse])
  from one_connection[OF this] have c: "\<And>a m1. connect_begin a demo_app_ready = Inr m1 \<Longrightarrow> length (filter at_work (mo_threads m1)) = 1" by blast
  have "\<exists>m. connect_begin demo_args demo_app_ready = Inr m \<and> mo_running m"
    by (simp add: demo_app_ready_def mobile_setup_def ensure_identity_def connect_begin_def demo_args_def fresh_mobile_def
        set_mobile_state_def publish_def Let_def)
  then obtain m where m: "connect_begin demo_args demo_app_ready = Inr m" "mo_running m" by blast
  then show ?thesis using c[OF m(1)] by (simp add: connect_begin_def)
qed

theorem one_host_only_witness:
  "dial_verifier Some (\<lambda>c. ''cd'') (connect_options windows_peers
     (new_windows_store (FileHolds \<lparr>ts_identity = [], ts_peers = [HostAdmission.demo_peer]\<rparr>)) demo_args) [[1]] = Some (NotPairedDevice ''cd'')"
proof -
  have p: "ps_peers windows_peers (new_windows_store (FileHolds \<lparr>ts_identity = [], ts_peers = [HostAdmission.demo_peer]\<rparr>)) = Inr [HostAdmission.demo_peer]"
    by (simp add: windows_peers_def new_windows_store_def ws_peers_def fs_load_def)
  have a: "ca_relay_addr demo_args = []" by (simp add: demo_args_def)
  have u: "[HostAdmission.demo_peer] = upsert HostAdmission.demo_peer []" "pr_fingerprint HostAdmission.demo_peer = ''ab''"
    by (simp_all add: HostAdmission.demo_peer_def)
  have "[HostAdmission.demo_peer] = upsert HostAdmission.demo_peer [] \<and> pr_fingerprint HostAdmission.demo_peer \<noteq> [] \<and>
      (\<forall>p \<in> set [HostAdmission.demo_peer]. pr_fingerprint p \<noteq> ''cd'')"
    using u by simp
  from one_host_only[OF p a, of Some "[1]" "[1]" "\<lambda>c. ''cd''" "[]", OF refl, THEN conjunct2, rule_format, OF this]
  show ?thesis by simp
qed
end
