(* ===== verification/Tray.thy ===== *)
theory Tray
  imports HostService
begin

text \<open>
  The state of the Windows tray application, \<^verbatim>\<open>engine/cmd/remote-au-tray\<close>: its presets and profiles
  (\<^verbatim>\<open>presets.go\<close>), its settings file (\<^verbatim>\<open>settings_store.go\<close>), the hosts it starts and stops
  (\<^verbatim>\<open>main.go\<close>), what its settings window applies (\<^verbatim>\<open>settings.go\<close>) and the pairing window
  (\<^verbatim>\<open>pairing.go\<close>).  The application is one record; a host is the service of HostService under the number
  of its start.  The goroutines that run a host and the calls that save the settings are lists of
  threads in the record, and their interleaving is a step relation.  Widgets are left out, except the text of
  the status item.
\<close>

section \<open>Presets and profiles\<close>

datatype preset = PresetAuto | PresetLowest | PresetLossless | PresetRobust | PresetAdvanced

definition preset_bounds :: "preset \<Rightarrow> int \<times> int \<times> bool \<times> bool" where
  "preset_bounds p =
     (case p of
        PresetLowest \<Rightarrow> (32000, 64000, False, True)
      | PresetLossless \<Rightarrow> (64000, 256000, False, True)
      | PresetRobust \<Rightarrow> (32000, 128000, True, True)
      | PresetAdvanced \<Rightarrow> (0, 0, False, False)
      | PresetAuto \<Rightarrow> (32000, 256000, False, True))"

definition preset_name :: "preset \<Rightarrow> string" where
  "preset_name p =
     (case p of PresetLowest \<Rightarrow> ''lowest'' | PresetLossless \<Rightarrow> ''lossless'' | PresetRobust \<Rightarrow> ''robust''
      | PresetAdvanced \<Rightarrow> ''advanced'' | PresetAuto \<Rightarrow> ''auto'')"

definition preset_from_name :: "string \<Rightarrow> preset" where
  "preset_from_name s =
     (if s = ''lowest'' then PresetLowest else if s = ''lossless'' then PresetLossless
      else if s = ''robust'' then PresetRobust else if s = ''advanced'' then PresetAdvanced else PresetAuto)"

datatype profile_id = ProfileNone | ProfileHomeLossless | ProfileGamingLowest | ProfileWeakRobust | ProfileRemoteEfficient

record profile_spec =
  pf_id :: profile_id
  pf_name :: string
  pf_key :: string
  pf_preset :: preset
  pf_hint :: string

definition profile_specs :: "profile_spec list" where
  "profile_specs =
     [\<lparr>pf_id = ProfileHomeLossless, pf_name = ''Home / Lossless'', pf_key = ''home-lossless'', pf_preset = PresetLossless, pf_hint = []\<rparr>,
      \<lparr>pf_id = ProfileGamingLowest, pf_name = ''Gaming / Lowest Latency'', pf_key = ''gaming-lowest'', pf_preset = PresetLowest, pf_hint = []\<rparr>,
      \<lparr>pf_id = ProfileWeakRobust, pf_name = ''Weak Wi-Fi / Robust'', pf_key = ''weak-robust'', pf_preset = PresetRobust, pf_hint = []\<rparr>,
      \<lparr>pf_id = ProfileRemoteEfficient, pf_name = ''Remote / Efficient'', pf_key = ''remote-efficient'', pf_preset = PresetRobust,
        pf_hint = ''Remote / Efficient: relay mode is used for WAN (serve --relay)''\<rparr>]"

definition profile_by_id :: "profile_id \<Rightarrow> profile_spec option" where
  "profile_by_id i = find (\<lambda>s. pf_id s = i) profile_specs"

definition profile_name :: "profile_id \<Rightarrow> string" where
  "profile_name i = (case profile_by_id i of Some s \<Rightarrow> pf_key s | None \<Rightarrow> [])"

definition profile_from_name :: "string \<Rightarrow> profile_id" where
  "profile_from_name k = (case find (\<lambda>s. pf_key s = k) profile_specs of Some s \<Rightarrow> pf_id s | None \<Rightarrow> ProfileNone)"

definition profile_hint_for :: "profile_id \<Rightarrow> string" where
  "profile_hint_for i = (case profile_by_id i of Some s \<Rightarrow> pf_hint s | None \<Rightarrow> [])"

definition profile_tooltip :: "profile_spec \<Rightarrow> string" where
  "profile_tooltip s = ''Apply the '' @ pf_name s @ '' profile'' @ (if pf_hint s \<noteq> [] then '' ('' @ pf_hint s @ '')'' else [])"

section \<open>The settings file\<close>

record persisted_settings =
  pe_auto_stream :: bool
  pe_last_receiver :: bytes
  pe_preset :: string
  pe_profile :: string
  pe_auto_receiver_id :: string
  pe_muted :: bool

text \<open>What the file holds: nothing, text that does not parse, or the JSON of settings.\<close>

datatype settings_file = NoSettings | UnreadableSettings | SettingsText persisted_settings

definition no_settings :: persisted_settings where
  "no_settings = \<lparr>pe_auto_stream = False, pe_last_receiver = [], pe_preset = [], pe_profile = [], pe_auto_receiver_id = [], pe_muted = False\<rparr>"

definition load_settings :: "settings_file \<Rightarrow> persisted_settings \<times> bool" where
  "load_settings f = (case f of SettingsText s \<Rightarrow> (s, True) | _ \<Rightarrow> (no_settings, False))"

section \<open>State\<close>

datatype tray_status =
    StatusNone
  | StatusStopped
  | StatusWaiting string
  | StatusConnecting bytes
  | StatusStreaming bytes string
  | StatusError string

text \<open>
  The goroutine of a host serves, or \<^verbatim>\<open>Run\<close> has returned without the context being cancelled and its result is
  about to be noted.  The threads that save are the menu's, the settings window's, those of the profile items
  and the host's callbacks; a save is due, or holds the settings it will write.
\<close>

datatype run_stage = Serving | Ended "string option"

datatype ui_thread = MenuThread | WindowThread | ProfileThread profile_id | CallbackThread nat

record ('f, 's, 'c, 't, 'w) tray =
  ty_hosts :: "(nat \<times> ('f, 's, 'c, 't, 'w) service) list"
  ty_host :: "nat option"
  ty_cancel :: "nat option"
  ty_running :: bool
  ty_store :: 't
  ty_preset :: preset
  ty_profile :: profile_id
  ty_hint :: string
  ty_muted :: bool
  ty_last_receiver :: bytes
  ty_auto_stream :: bool
  ty_auto_receiver :: string
  ty_tone :: tone_mode
  ty_source_label :: bytes
  ty_capture_apps :: bytes
  ty_last_error :: string
  ty_status :: tray_status
  ty_starts :: nat
  ty_runs :: "(nat \<times> run_stage) list"
  ty_cancelled :: "nat set"
  ty_savers :: "(ui_thread \<times> persisted_settings option) list"
  ty_file :: settings_file

text \<open>\<^verbatim>\<open>main\<close> up to the tray's loop.\<close>

definition tray_begin :: "settings_file \<Rightarrow> 't \<Rightarrow> ('f, 's, 'c, 't, 'w) tray" where
  "tray_begin f store =
     (case load_settings f of (s, ok) \<Rightarrow>
        \<lparr>ty_hosts = [], ty_host = None, ty_cancel = None, ty_running = False, ty_store = store,
          ty_preset = (if ok then preset_from_name (pe_preset s) else PresetAuto),
          ty_profile = (if ok then profile_from_name (pe_profile s) else ProfileNone),
          ty_hint = (if ok then profile_hint_for (profile_from_name (pe_profile s)) else []),
          ty_muted = ok \<and> pe_muted s, ty_last_receiver = (if ok then pe_last_receiver s else []),
          ty_auto_stream = (if ok then pe_auto_stream s else True),
          ty_auto_receiver = (if ok then pe_auto_receiver_id s else []), ty_tone = ToneSine, ty_source_label = [], ty_capture_apps = [],
          ty_last_error = [], ty_status = StatusNone, ty_starts = 0, ty_runs = [], ty_cancelled = {}, ty_savers = [], ty_file = f\<rparr>)"

definition settings_of :: "('f, 's, 'c, 't, 'w) tray \<Rightarrow> persisted_settings" where
  "settings_of t = \<lparr>pe_auto_stream = ty_auto_stream t, pe_last_receiver = ty_last_receiver t, pe_preset = preset_name (ty_preset t),
     pe_profile = profile_name (ty_profile t), pe_auto_receiver_id = ty_auto_receiver t, pe_muted = ty_muted t\<rparr>"

section \<open>Saving\<close>

definition save_due :: "ui_thread \<Rightarrow> ('f, 's, 'c, 't, 'w) tray \<Rightarrow> ('f, 's, 'c, 't, 'w) tray" where
  "save_due th t = t\<lparr>ty_savers := (th, None) # ty_savers t\<rparr>"

text \<open>The two parts of \<^verbatim>\<open>saveSettings\<close>: under the application's lock, and under the file's.\<close>

definition save_snapshot :: "ui_thread \<Rightarrow> ('f, 's, 'c, 't, 'w) tray \<Rightarrow> ('f, 's, 'c, 't, 'w) tray" where
  "save_snapshot th t = t\<lparr>ty_savers := AList.update th (Some (settings_of t)) (ty_savers t)\<rparr>"

text \<open>The new text is moved over the old one, unless a step before that or the move itself fails.\<close>

definition save_write :: "bool \<Rightarrow> ui_thread \<Rightarrow> ('f, 's, 'c, 't, 'w) tray \<Rightarrow> ('f, 's, 'c, 't, 'w) tray" where
  "save_write moved th t =
     (case map_of (ty_savers t) th of
        Some (Some s) \<Rightarrow> t\<lparr>ty_savers := AList.delete th (ty_savers t), ty_file := (if moved then SettingsText s else ty_file t)\<rparr>
      | _ \<Rightarrow> t)"

definition thread_idle :: "ui_thread \<Rightarrow> ('f, 's, 'c, 't, 'w) tray \<Rightarrow> bool" where
  "thread_idle th t \<longleftrightarrow> map_of (ty_savers t) th = None"

section \<open>Starting and stopping\<close>

definition set_status :: "tray_status \<Rightarrow> ('f, 's, 'c, 't, 'w) tray \<Rightarrow> ('f, 's, 'c, 't, 'w) tray" where
  "set_status st t = t\<lparr>ty_status := st\<rparr>"

definition set_error :: "string \<Rightarrow> ('f, 's, 'c, 't, 'w) tray \<Rightarrow> ('f, 's, 'c, 't, 'w) tray" where
  "set_error msg t = t\<lparr>ty_last_error := msg, ty_status := StatusError msg\<rparr>"

definition clear_error :: "('f, 's, 'c, 't, 'w) tray \<Rightarrow> ('f, 's, 'c, 't, 'w) tray" where
  "clear_error t = t\<lparr>ty_last_error := []\<rparr>"

text \<open>\<open>made\<close> is \<^verbatim>\<open>engine.NewHost\<close> with the tray's store and tone.\<close>

definition start_streaming ::
  "('t \<Rightarrow> tone_mode \<Rightarrow> string + ('f, 's, 'c, 't, 'w) service) \<Rightarrow> ('f, 's, 'c, 't, 'w) tray \<Rightarrow> ('f, 's, 'c, 't, 'w) tray" where
  "start_streaming made t =
     (if ty_running t then t
      else case made (ty_store t) (ty_tone t) of
        Inl e \<Rightarrow> set_error (''cannot start host: '' @ e) t
      | Inr sv \<Rightarrow>
          let n = ty_starts t; sv1 = (if ty_muted t then mute_all True sv else sv)
          in set_status (StatusWaiting []) (t\<lparr>ty_hosts := (n, sv1) # ty_hosts t, ty_host := Some n, ty_cancel := Some n,
               ty_running := True, ty_starts := Suc n, ty_runs := (n, Serving) # ty_runs t\<rparr>))"

definition stop_streaming :: "('f, 's, 'c, 't, 'w) tray \<Rightarrow> ('f, 's, 'c, 't, 'w) tray" where
  "stop_streaming t =
     (if \<not> ty_running t then t
      else set_status StatusStopped (t\<lparr>ty_cancelled := ty_cancelled t \<union> set_option (ty_cancel t), ty_cancel := None,
             ty_running := False, ty_host := None\<rparr>))"

definition toggle_streaming ::
  "('t \<Rightarrow> tone_mode \<Rightarrow> string + ('f, 's, 'c, 't, 'w) service) \<Rightarrow> ('f, 's, 'c, 't, 'w) tray \<Rightarrow> ('f, 's, 'c, 't, 'w) tray" where
  "toggle_streaming made t = (if ty_running t then stop_streaming t else start_streaming made t)"

definition connect_last ::
  "('t \<Rightarrow> tone_mode \<Rightarrow> string + ('f, 's, 'c, 't, 'w) service) \<Rightarrow> ('f, 's, 'c, 't, 'w) tray \<Rightarrow> ('f, 's, 'c, 't, 'w) tray" where
  "connect_last made t =
     (let name = ty_last_receiver t; t1 = (if ty_running t then t else start_streaming made t)
      in if \<not> ty_running t1 then t1
         else set_status (StatusConnecting (if name = [] then bytes_of_str ''last iPhone'' else name)) t1)"

text \<open>The goroutine of host \<open>n\<close>: \<^verbatim>\<open>Run\<close> returns, and what follows if it was not cancelled.\<close>

definition run_ended :: "string option \<Rightarrow> nat \<Rightarrow> ('f, 's, 'c, 't, 'w) tray \<Rightarrow> ('f, 's, 'c, 't, 'w) tray" where
  "run_ended err n t = t\<lparr>ty_runs := (if n \<in> ty_cancelled t then AList.delete n (ty_runs t) else AList.update n (Ended err) (ty_runs t))\<rparr>"

definition run_noted :: "nat \<Rightarrow> string option \<Rightarrow> ('f, 's, 'c, 't, 'w) tray \<Rightarrow> ('f, 's, 'c, 't, 'w) tray" where
  "run_noted n err t =
     (let t1 = t\<lparr>ty_host := (if ty_host t = Some n then None else ty_host t), ty_running := False, ty_runs := AList.delete n (ty_runs t)\<rparr>
      in case err of Some e \<Rightarrow> set_error (''engine stopped: '' @ e) t1 | None \<Rightarrow> set_status StatusStopped t1)"

section \<open>Tuning\<close>

definition current_host :: "('f, 's, 'c, 't, 'w) tray \<Rightarrow> ('f, 's, 'c, 't, 'w) service option" where
  "current_host t = Option.bind (ty_host t) (map_of (ty_hosts t))"

definition on_host ::
  "(('f, 's, 'c, 't, 'w) service \<Rightarrow> ('f, 's, 'c, 't, 'w) service) \<Rightarrow> ('f, 's, 'c, 't, 'w) tray \<Rightarrow> ('f, 's, 'c, 't, 'w) tray" where
  "on_host f t = (case ty_host t of None \<Rightarrow> t | Some n \<Rightarrow> t\<lparr>ty_hosts := map (\<lambda>(i, sv). (i, if i = n then f sv else sv)) (ty_hosts t)\<rparr>)"

definition toggle_mute :: "('f, 's, 'c, 't, 'w) tray \<Rightarrow> ('f, 's, 'c, 't, 'w) tray" where
  "toggle_mute t = (let b = (\<not> ty_muted t) in save_due MenuThread (on_host (mute_all b) (t\<lparr>ty_muted := b\<rparr>)))"

definition apply_tuning :: "'f float_ops \<Rightarrow> ui_thread \<Rightarrow> preset \<Rightarrow> profile_id \<Rightarrow> ('f, 's, 'c, 't, 'w) tray \<Rightarrow> ('f, 's, 'c, 't, 'w) tray" where
  "apply_tuning F th p prof t =
     (let t1 = save_due th (t\<lparr>ty_preset := p, ty_profile := prof, ty_hint := profile_hint_for prof\<rparr>)
      in case preset_bounds p of (mn, mx, fec, apply) \<Rightarrow> if apply then on_host (set_quality F mn mx fec) t1 else t1)"

definition apply_preset_id :: "'f float_ops \<Rightarrow> ui_thread \<Rightarrow> preset \<Rightarrow> ('f, 's, 'c, 't, 'w) tray \<Rightarrow> ('f, 's, 'c, 't, 'w) tray" where
  "apply_preset_id F th p = apply_tuning F th p ProfileNone"

definition apply_profile_id :: "'f float_ops \<Rightarrow> ui_thread \<Rightarrow> profile_id \<Rightarrow> ('f, 's, 'c, 't, 'w) tray \<Rightarrow> ('f, 's, 'c, 't, 'w) tray" where
  "apply_profile_id F th i t = (case profile_by_id i of None \<Rightarrow> t | Some s \<Rightarrow> apply_tuning F th (pf_preset s) i t)"

section \<open>Receivers\<close>

text \<open>The callback of a host whose receivers changed, on the goroutine \<open>k\<close> of a connection.\<close>

definition receivers_changed :: "nat \<Rightarrow> 'f receiver_info list \<Rightarrow> ('f, 's, 'c, 't, 'w) tray \<Rightarrow> ('f, 's, 'c, 't, 'w) tray" where
  "receivers_changed k rs t =
     (case rs of
        [] \<Rightarrow> t
      | r # _ \<Rightarrow> if ri_name r \<noteq> [] \<and> ri_name r \<noteq> ty_last_receiver t
                  then save_due (CallbackThread k) (t\<lparr>ty_last_receiver := ri_name r\<rparr>) else t)"

definition set_auto_receiver :: "string \<Rightarrow> ('f, 's, 'c, 't, 'w) tray \<Rightarrow> ('f, 's, 'c, 't, 'w) tray" where
  "set_auto_receiver i t = save_due WindowThread (t\<lparr>ty_auto_receiver := i\<rparr>)"

definition clear_auto_receiver_if :: "string \<Rightarrow> ('f, 's, 'c, 't, 'w) tray \<Rightarrow> ('f, 's, 'c, 't, 'w) tray" where
  "clear_auto_receiver_if i t = save_due WindowThread (if ty_auto_receiver t = i then t\<lparr>ty_auto_receiver := []\<rparr> else t)"

definition set_auto_stream :: "bool \<Rightarrow> ('f, 's, 'c, 't, 'w) tray \<Rightarrow> ('f, 's, 'c, 't, 'w) tray" where
  "set_auto_stream b t = save_due WindowThread (t\<lparr>ty_auto_stream := b\<rparr>)"

definition set_receiver_muted :: "string \<Rightarrow> bool \<Rightarrow> ('f, 's, 'c, 't, 'w) tray \<Rightarrow> ('f, 's, 'c, 't, 'w) tray" where
  "set_receiver_muted i b = on_host (set_muted i b)"

definition set_receiver_volume :: "'f float_ops \<Rightarrow> string \<Rightarrow> 'f \<Rightarrow> ('f, 's, 'c, 't, 'w) tray \<Rightarrow> ('f, 's, 'c, 't, 'w) tray" where
  "set_receiver_volume F i v = on_host (set_volume F i v)"

definition auto_connect_note :: "'f receiver_info list \<Rightarrow> ('f, 's, 'c, 't, 'w) tray \<Rightarrow> bytes" where
  "auto_connect_note rs t =
     (if ty_auto_receiver t = [] then []
      else case find (\<lambda>r. ri_device_id r = ty_auto_receiver t) rs of
        None \<Rightarrow> [] | Some r \<Rightarrow> bytes_of_str ''auto-connect receiver: '' @ ri_name r)"

definition append_hint :: "string \<Rightarrow> string \<Rightarrow> string" where
  "append_hint status hint = (if hint = [] then status else status @ '' | '' @ hint)"

text \<open>\<open>showHost\<close> and \<open>showStore\<close> print the errors of a host and of the store.\<close>

definition tray_forget_peer ::
  "(host_error \<Rightarrow> string) \<Rightarrow> (store_error \<Rightarrow> string) \<Rightarrow> 't peer_store \<Rightarrow> bytes \<Rightarrow> ('f, 's, 'c, 't, 'w) tray \<Rightarrow> ('f, 's, 'c, 't, 'w) tray" where
  "tray_forget_peer showHost showStore P hex t =
     (case current_host t of
        Some sv \<Rightarrow>
          (case forget_peer P hex (sv_host sv) of
             (r, h1) \<Rightarrow>
               let t1 = on_host (\<lambda>sv. sv\<lparr>sv_host := h1\<rparr>) (t\<lparr>ty_store := hh_store h1\<rparr>)
               in (case r of Inl e \<Rightarrow> set_error (''forget: '' @ showHost e) t1 | Inr _ \<Rightarrow> clear_error t1))
      | None \<Rightarrow>
          (case unhex hex of
             None \<Rightarrow> set_error ''forget: invalid device id'' t
           | Some i \<Rightarrow>
               if length i \<noteq> 16 then set_error ''forget: invalid device id'' t
               else (case ps_remove P i (ty_store t) of
                       (Some e, s) \<Rightarrow> set_error (''forget: '' @ showStore e) (t\<lparr>ty_store := s\<rparr>)
                     | (None, s) \<Rightarrow> clear_error (t\<lparr>ty_store := s\<rparr>))))"

section \<open>Sources\<close>

datatype source_choice = ChooseDefault | ChooseDevice bytes | ChooseTone

definition set_source_label :: "bytes \<Rightarrow> ('f, 's, 'c, 't, 'w) tray \<Rightarrow> ('f, 's, 'c, 't, 'w) tray" where
  "set_source_label l t = t\<lparr>ty_source_label := l\<rparr>"

definition set_capture_apps_label :: "bytes \<Rightarrow> ('f, 's, 'c, 't, 'w) tray \<Rightarrow> ('f, 's, 'c, 't, 'w) tray" where
  "set_capture_apps_label l t = t\<lparr>ty_capture_apps := l\<rparr>"

definition source_call ::
  "('c, 'w) audio_system \<Rightarrow> source_choice \<Rightarrow> 'c capture_state \<Rightarrow> 'w \<Rightarrow> capture_error option \<times> 'c capture_state \<times> 'w" where
  "source_call A choice =
     (case choice of
        ChooseDevice name \<Rightarrow> set_source_device A name
      | ChooseTone \<Rightarrow> set_capture_source A SourceTestTone
      | ChooseDefault \<Rightarrow> set_source_device A [])"

definition choice_label :: "source_choice \<Rightarrow> bytes" where
  "choice_label choice =
     (case choice of
        ChooseDevice name \<Rightarrow> bytes_of_str ''Output: '' @ name
      | ChooseTone \<Rightarrow> bytes_of_str ''Test tone''
      | ChooseDefault \<Rightarrow> bytes_of_str ''System audio (default)'')"

definition with_capture :: "'c capture_state \<Rightarrow> 'w \<Rightarrow> ('f, 's, 'c, 't, 'w) service \<Rightarrow> ('f, 's, 'c, 't, 'w) service" where
  "with_capture cap w sv = sv\<lparr>sv_capture := cap, sv_world := w\<rparr>"

text \<open>\<^verbatim>\<open>applySource\<close> of the settings window; \<open>choice\<close> is the checked radio button, if there is one.\<close>

definition apply_source ::
  "(capture_error \<Rightarrow> string) \<Rightarrow> ('c, 'w) audio_system \<Rightarrow> source_choice option \<Rightarrow> ('f, 's, 'c, 't, 'w) tray \<Rightarrow> ('f, 's, 'c, 't, 'w) tray" where
  "apply_source showCap A choice t =
     (case choice of
        None \<Rightarrow> t
      | Some ch \<Rightarrow>
          (case current_host t of
             None \<Rightarrow> set_error ''start streaming before choosing a source'' t
           | Some sv \<Rightarrow>
               (case source_call A ch (sv_capture sv) (sv_world sv) of
                  (err, cap1, w1) \<Rightarrow>
                    let t1 = on_host (with_capture cap1 w1) t
                    in (case err of
                          Some e \<Rightarrow> set_error (''source: '' @ showCap e) t1
                        | None \<Rightarrow> clear_error (set_capture_apps_label [] (set_source_label (choice_label ch) t1))))))"

text \<open>\<^verbatim>\<open>selectSource\<close> of the menu: errors are dropped.  \<open>name\<close> is the device at the item's index, if there still is one.\<close>

definition select_source ::
  "('c, 'w) audio_system \<Rightarrow> bool \<Rightarrow> bytes option \<Rightarrow> ('f, 's, 'c, 't, 'w) tray \<Rightarrow> ('f, 's, 'c, 't, 'w) tray" where
  "select_source A useDefault name t =
     (case current_host t of
        None \<Rightarrow> t
      | Some sv \<Rightarrow>
          (case (if useDefault then Some ChooseDefault else map_option ChooseDevice name) of
             None \<Rightarrow> t
           | Some ch \<Rightarrow>
               (case source_call A ch (sv_capture sv) (sv_world sv) of
                  (err, cap1, w1) \<Rightarrow> set_capture_apps_label [] (set_source_label (choice_label ch) (on_host (with_capture cap1 w1) t)))))"

definition apply_capture_apps ::
  "(capture_error \<Rightarrow> string) \<Rightarrow> ('c, 'w) audio_system \<Rightarrow> u32 list \<Rightarrow> bool \<Rightarrow> bytes \<Rightarrow> ('f, 's, 'c, 't, 'w) tray \<Rightarrow> ('f, 's, 'c, 't, 'w) tray" where
  "apply_capture_apps showCap A pids exclude name t =
     (case current_host t of
        None \<Rightarrow> set_error ''start streaming before choosing an application source'' t
      | Some sv \<Rightarrow>
          (case set_capture_apps A pids exclude (sv_capture sv) (sv_world sv) of
             (err, cap1, w1) \<Rightarrow>
               let t1 = on_host (with_capture cap1 w1) t
               in (case err of
                     Some e \<Rightarrow> set_error (''per-app source: '' @ showCap e) t1
                   | None \<Rightarrow> clear_error (set_source_label (bytes_of_str ''Application: '' @ name)
                       (set_capture_apps_label (bytes_of_str (if exclude then ''Exclude '' else ''Only '') @ name) t1)))))"

definition set_tone :: "int \<Rightarrow> ('f, 's, 'c, 't, 'w) tray \<Rightarrow> ('f, 's, 'c, 't, 'w) tray" where
  "set_tone index t = t\<lparr>ty_tone := (if index = 1 then ToneClick else ToneSine)\<rparr>"

section \<open>Steps\<close>

text \<open>
  The menu's thread does one thing at a time, so does every other thread that saves.  A host that serves may change its
  service in any way, and its callbacks arrive at any time, also after it was stopped.
\<close>

inductive tray_step :: "'f float_ops \<Rightarrow> ('c, 'w) audio_system \<Rightarrow> ('f, 's, 'c, 't, 'w) tray \<Rightarrow> ('f, 's, 'c, 't, 'w) tray \<Rightarrow> bool"
  for F :: "'f float_ops" and A :: "('c, 'w) audio_system" where
  TrayToggle: "thread_idle MenuThread t \<Longrightarrow> tray_step F A t (toggle_streaming made t)"
| TrayConnect: "thread_idle MenuThread t \<Longrightarrow> tray_step F A t (connect_last made t)"
| TrayStart: "tray_step F A t (start_streaming made t)"
| TrayStop: "tray_step F A t (stop_streaming t)"
| TrayMute: "thread_idle MenuThread t \<Longrightarrow> tray_step F A t (toggle_mute t)"
| TrayPreset: "thread_idle th t \<Longrightarrow> tray_step F A t (apply_preset_id F th p t)"
| TrayProfile: "thread_idle th t \<Longrightarrow> tray_step F A t (apply_profile_id F th i t)"
| TrayReceivers: "thread_idle (CallbackThread k) t \<Longrightarrow> tray_step F A t (receivers_changed k rs t)"
| TrayAutoReceiver: "thread_idle WindowThread t \<Longrightarrow> tray_step F A t (set_auto_receiver i t)"
| TrayAutoCleared: "thread_idle WindowThread t \<Longrightarrow> tray_step F A t (clear_auto_receiver_if i t)"
| TrayAutoStream: "thread_idle WindowThread t \<Longrightarrow> tray_step F A t (set_auto_stream b t)"
| TrayReceiverMuted: "tray_step F A t (set_receiver_muted i b t)"
| TrayReceiverVolume: "tray_step F A t (set_receiver_volume F i v t)"
| TrayForget: "tray_step F A t (tray_forget_peer showHost showStore P hex t)"
| TraySource: "tray_step F A t (apply_source showCap A choice t)"
| TrayMenuSource: "tray_step F A t (select_source A useDefault name t)"
| TrayApps: "tray_step F A t (apply_capture_apps showCap A pids exclude name t)"
| TrayTone: "tray_step F A t (set_tone index t)"
| TraySnapshot: "(th, None) \<in> set (ty_savers t) \<Longrightarrow> tray_step F A t (save_snapshot th t)"
| TrayWrite: "tray_step F A t (save_write moved th t)"
| TrayServes: "(n, Serving) \<in> set (ty_runs t) \<Longrightarrow> tray_step F A t (t\<lparr>ty_hosts := AList.update n sv (ty_hosts t)\<rparr>)"
| TrayEnded: "(n, Serving) \<in> set (ty_runs t) \<Longrightarrow> tray_step F A t (run_ended err n t)"
| TrayNoted: "(n, Ended err) \<in> set (ty_runs t) \<Longrightarrow> tray_step F A t (run_noted n err t)"
| TrayShown: "tray_step F A t (set_status st t)"

inductive tray_steps :: "'f float_ops \<Rightarrow> ('c, 'w) audio_system \<Rightarrow> ('f, 's, 'c, 't, 'w) tray \<Rightarrow> ('f, 's, 'c, 't, 'w) tray \<Rightarrow> bool"
  for F :: "'f float_ops" and A :: "('c, 'w) audio_system" where
  TrayHere: "tray_steps F A t t"
| TrayThen: "tray_steps F A t t1 \<Longrightarrow> tray_step F A t1 t2 \<Longrightarrow> tray_steps F A t t2"

text \<open>\<open>settled\<close>: no host that failed still waits for its end to be noted while another one has taken its place.\<close>

definition settled :: "('f, 's, 'c, 't, 'w) tray \<Rightarrow> bool" where
  "settled t \<longleftrightarrow> ty_running t \<longrightarrow> (\<forall>n e. (n, Ended e) \<in> set (ty_runs t) \<longrightarrow> ty_host t = Some n)"

inductive settled_steps :: "'f float_ops \<Rightarrow> ('c, 'w) audio_system \<Rightarrow> ('f, 's, 'c, 't, 'w) tray \<Rightarrow> ('f, 's, 'c, 't, 'w) tray \<Rightarrow> bool"
  for F :: "'f float_ops" and A :: "('c, 'w) audio_system" where
  SettledHere: "settled_steps F A t t"
| SettledThen: "settled_steps F A t t1 \<Longrightarrow> tray_step F A t1 t2 \<Longrightarrow> settled t2 \<Longrightarrow> settled_steps F A t t2"

text \<open>What the steps do to the hosts' threads; everything else leaves these fields alone.\<close>

definition lifecycle :: "('f, 's, 'c, 't, 'w) tray \<Rightarrow> nat option \<times> nat option \<times> bool \<times> nat \<times> (nat \<times> run_stage) list \<times> nat set" where
  "lifecycle t = (ty_host t, ty_cancel t, ty_running t, ty_starts t, ty_runs t, ty_cancelled t)"

lemma on_host_lifecycle [simp]: "lifecycle (on_host f t) = lifecycle t" "ty_host (on_host f t) = ty_host t"
  by (simp_all add: on_host_def lifecycle_def split: option.split)

lemma lifecycle_plain [simp]:
  "lifecycle (save_due th t) = lifecycle t" "lifecycle (save_snapshot th t) = lifecycle t" "lifecycle (save_write m th t) = lifecycle t"
  "lifecycle (set_status st t) = lifecycle t" "lifecycle (set_error msg t) = lifecycle t" "lifecycle (clear_error t) = lifecycle t"
  "lifecycle (set_source_label l t) = lifecycle t" "lifecycle (set_capture_apps_label l t) = lifecycle t" "lifecycle (set_tone i t) = lifecycle t"
  by (simp_all add: lifecycle_def save_due_def save_snapshot_def save_write_def set_status_def set_error_def clear_error_def
      set_source_label_def set_capture_apps_label_def set_tone_def split: option.split)

lemma lifecycle_fields [simp]:
  "lifecycle (t\<lparr>ty_muted := b\<rparr>) = lifecycle t" "lifecycle (t\<lparr>ty_preset := p, ty_profile := pr, ty_hint := h\<rparr>) = lifecycle t"
  "lifecycle (t\<lparr>ty_last_receiver := r\<rparr>) = lifecycle t" "lifecycle (t\<lparr>ty_auto_receiver := i\<rparr>) = lifecycle t"
  "lifecycle (t\<lparr>ty_auto_stream := a\<rparr>) = lifecycle t" "lifecycle (t\<lparr>ty_store := s\<rparr>) = lifecycle t" "lifecycle (t\<lparr>ty_hosts := hs\<rparr>) = lifecycle t"
  by (simp_all add: lifecycle_def)

lemma lifecycle_ops [simp]:
  "lifecycle (toggle_mute t) = lifecycle t" "lifecycle (apply_preset_id F th p t) = lifecycle t" "lifecycle (apply_profile_id F th i t) = lifecycle t"
  "lifecycle (receivers_changed k rs t) = lifecycle t" "lifecycle (set_auto_receiver j t) = lifecycle t"
  "lifecycle (clear_auto_receiver_if j t) = lifecycle t" "lifecycle (set_auto_stream b t) = lifecycle t"
  "lifecycle (set_receiver_muted j b t) = lifecycle t" "lifecycle (set_receiver_volume F j v t) = lifecycle t"
  by (simp_all add: toggle_mute_def apply_preset_id_def apply_profile_id_def apply_tuning_def receivers_changed_def set_auto_receiver_def
      clear_auto_receiver_if_def set_auto_stream_def set_receiver_muted_def set_receiver_volume_def Let_def
      split: option.split list.split prod.split)

lemma lifecycle_sources [simp]:
  "lifecycle (tray_forget_peer sh ss P hex t) = lifecycle t" "lifecycle (apply_source sc A ch t) = lifecycle t"
  "lifecycle (select_source A d nm t) = lifecycle t" "lifecycle (apply_capture_apps sc A pids ex n t) = lifecycle t"
  by (simp_all add: tray_forget_peer_def apply_source_def select_source_def apply_capture_apps_def Let_def
      split: option.split sum.split prod.split)

section \<open>The life of the hosts\<close>

text \<open>The steps of the tray as far as \<open>lifecycle\<close> shows them: an abstract machine that the tray refines.\<close>

type_synonym life = "nat option \<times> nat option \<times> bool \<times> nat \<times> (nat \<times> run_stage) list \<times> nat set"

inductive life_step :: "life \<Rightarrow> life \<Rightarrow> bool" where
  LifeStart: "life_step (h, c, False, n, rs, x) (Some n, Some n, True, Suc n, (n, Serving) # rs, x)"
| LifeStop: "life_step (h, c, True, n, rs, x) (None, None, False, n, rs, x \<union> set_option c)"
| LifeCancelled: "(i, Serving) \<in> set rs \<Longrightarrow> i \<in> x \<Longrightarrow> life_step (h, c, r, n, rs, x) (h, c, r, n, AList.delete i rs, x)"
| LifeEnded: "(i, Serving) \<in> set rs \<Longrightarrow> i \<notin> x \<Longrightarrow> life_step (h, c, r, n, rs, x) (h, c, r, n, AList.update i (Ended e) rs, x)"
| LifeNoted: "(i, Ended e) \<in> set rs \<Longrightarrow>
    life_step (h, c, r, n, rs, x) (if h = Some i then None else h, c, False, n, AList.delete i rs, x)"

inductive_cases life_stepE [elim]: "life_step l l1"

lemma start_life: "lifecycle (start_streaming made t) = lifecycle t \<or> life_step (lifecycle t) (lifecycle (start_streaming made t))"
proof (cases "ty_running t \<or> (\<exists>e. made (ty_store t) (ty_tone t) = Inl e)")
  case True
  then show ?thesis by (auto simp: start_streaming_def)
next
  case False
  then obtain sv where sv: "\<not> ty_running t" "made (ty_store t) (ty_tone t) = Inr sv" by (cases "made (ty_store t) (ty_tone t)") auto
  then have "lifecycle (start_streaming made t) =
      (Some (ty_starts t), Some (ty_starts t), True, Suc (ty_starts t), (ty_starts t, Serving) # ty_runs t, ty_cancelled t)"
    by (simp add: start_streaming_def Let_def lifecycle_def set_status_def)
  moreover have "lifecycle t = (ty_host t, ty_cancel t, False, ty_starts t, ty_runs t, ty_cancelled t)" using sv by (simp add: lifecycle_def)
  ultimately show ?thesis using LifeStart by metis
qed

lemma stop_life: "lifecycle (stop_streaming t) = lifecycle t \<or> life_step (lifecycle t) (lifecycle (stop_streaming t))"
proof (cases "ty_running t")
  case True
  then have "lifecycle (stop_streaming t) = (None, None, False, ty_starts t, ty_runs t, ty_cancelled t \<union> set_option (ty_cancel t))"
    by (simp add: stop_streaming_def lifecycle_def set_status_def)
  moreover have "lifecycle t = (ty_host t, ty_cancel t, True, ty_starts t, ty_runs t, ty_cancelled t)" using True by (simp add: lifecycle_def)
  ultimately show ?thesis using LifeStop by metis
qed (simp add: stop_streaming_def)

lemma connect_life: "lifecycle (connect_last made t) = lifecycle t \<or> lifecycle (connect_last made t) = lifecycle (start_streaming made t)"
  by (simp add: connect_last_def Let_def)

lemma ended_life:
  assumes "(n, Serving) \<in> set (ty_runs t)"
  shows "life_step (lifecycle t) (lifecycle (run_ended err n t))"
proof (cases "n \<in> ty_cancelled t")
  case True
  then show ?thesis using LifeCancelled[OF assms True] by (simp add: run_ended_def lifecycle_def)
next
  case False
  then show ?thesis using LifeEnded[OF assms False] by (simp add: run_ended_def lifecycle_def)
qed

lemma noted_life:
  assumes "(n, Ended err) \<in> set (ty_runs t)"
  shows "life_step (lifecycle t) (lifecycle (run_noted n err t))"
proof -
  have "lifecycle (run_noted n err t) = (if ty_host t = Some n then None else ty_host t, ty_cancel t, False, ty_starts t,
      AList.delete n (ty_runs t), ty_cancelled t)"
    by (cases err) (simp_all add: run_noted_def Let_def lifecycle_def set_error_def set_status_def)
  then show ?thesis using LifeNoted[OF assms] by (simp add: lifecycle_def)
qed

lemma tray_refines_life:
  assumes "tray_step F A t t1"
  shows "lifecycle t1 = lifecycle t \<or> life_step (lifecycle t) (lifecycle t1)"
  using assms
proof cases
  case (TrayToggle made)
  then show ?thesis using start_life[of made t] stop_life[of t] by (simp add: toggle_streaming_def)
next
  case (TrayConnect made)
  then show ?thesis using start_life[of made t] connect_life[of made t] by auto
next
  case (TrayStart made)
  then show ?thesis using start_life[of made t] by simp
next
  case TrayStop
  then show ?thesis using stop_life[of t] by simp
next
  case (TrayEnded n err)
  then show ?thesis using ended_life by blast
next
  case (TrayNoted n err)
  then show ?thesis using noted_life by blast
qed simp_all

text \<open>The invariant of every run, and what a settled run has besides.\<close>

fun life_inv :: "life \<Rightarrow> bool" where
  "life_inv (h, c, r, n, rs, x) \<longleftrightarrow> distinct (map fst rs) \<and> (\<forall>i \<in> fst ` set rs \<union> x \<union> set_option c \<union> set_option h. i < n) \<and>
     (r \<longrightarrow> c = h \<and> h \<noteq> None) \<and> (\<forall>i. h = Some i \<longrightarrow> i \<notin> x \<and> i \<in> fst ` set rs)"

fun one_live :: "life \<Rightarrow> bool" where
  "one_live (h, c, r, n, rs, x) \<longleftrightarrow> (\<forall>i. (i, Serving) \<in> set rs \<and> i \<notin> x \<longrightarrow> h = Some i) \<and> (h \<noteq> None \<longrightarrow> r)"

fun never_cancelled :: "nat \<Rightarrow> life \<Rightarrow> bool" where
  "never_cancelled m (h, c, r, n, rs, x) \<longleftrightarrow> m \<notin> x \<and> m < n \<and> (r \<longrightarrow> c \<noteq> Some m)"

lemma update_keys_same: "i \<in> fst ` set rs \<Longrightarrow> fst ` set (AList.update i v rs) = fst ` set rs"
  by (induction rs) (auto split: if_splits)

lemma delete_keys: "fst ` set (AList.delete i rs) = fst ` set rs - {i}"
  by (auto simp: AList.delete_eq)

lemma life_inv_step:
  assumes "life_step l l1" "life_inv l"
  shows "life_inv l1"
  using assms
proof cases
  case (LifeEnded i rs x h c r n e)
  have i: "i \<in> fst ` set rs" using LifeEnded(3) by force
  then show ?thesis using assms(2) LifeEnded by (auto simp: distinct_update update_keys_same[OF i])
next
  case (LifeCancelled i rs x h c r n)
  then show ?thesis using assms(2) by (auto simp: distinct_delete delete_keys)
next
  case (LifeNoted i e rs h c r n x)
  then show ?thesis using assms(2) by (auto simp: distinct_delete delete_keys)
next
  case (LifeStart h c n rs x)
  then show ?thesis using assms(2) by (auto simp: less_Suc_eq)
next
  case (LifeStop h c n rs x)
  then show ?thesis using assms(2) by auto
qed

lemma set_update_value: "distinct (map fst rs) \<Longrightarrow> (j, v) \<in> set (AList.update i w rs) \<Longrightarrow> j \<noteq> i \<Longrightarrow> (j, v) \<in> set rs"
  by (induction rs) (auto split: if_splits)

lemma update_value_there: "distinct (map fst rs) \<Longrightarrow> (i, v) \<in> set (AList.update i w rs) \<Longrightarrow> v = w"
  by (induction rs) (force split: if_splits)+

lemma delete_subset: "set (AList.delete i rs) \<subseteq> set rs" "(i, v) \<notin> set (AList.delete i rs)"
  by (auto simp: AList.delete_eq)

lemma one_live_step:
  assumes "life_step l l1" "life_inv l" "one_live l" "\<And>h c n rs x i e. l = (h, c, True, n, rs, x) \<Longrightarrow> (i, Ended e) \<in> set rs \<Longrightarrow> h = Some i"
  shows "one_live l1"
  using assms(1)
proof cases
  case (LifeEnded i rs x h c r n e)
  have "(j, Serving) \<in> set rs" if "(j, Serving) \<in> set (AList.update i (Ended e) rs)" for j
    using that assms(2) set_update_value[OF _ that] update_value_there[of rs i Serving "Ended e"] LifeEnded(1) by (cases "j = i") auto
  then show ?thesis using assms(3) LifeEnded(1,2) by auto
next
  case (LifeCancelled i rs x h c r n)
  then show ?thesis using assms(3) delete_subset(1)[of i rs] by auto
next
  case (LifeNoted i e rs h c r n x)
  have d: "distinct (map fst rs)" using assms(2) LifeNoted(1) by simp
  have "h = None \<or> h = Some i"
    using assms(3,4) LifeNoted(1,3) by (cases r) auto
  moreover have "(i, Serving) \<notin> set rs" using d LifeNoted(3) by (metis eq_key_imp_eq_value run_stage.distinct(1))
  ultimately show ?thesis using assms(3) LifeNoted(1,2) delete_subset(1)[of i rs] by (auto split: if_splits)
next
  case (LifeStart h c n rs x)
  have "h = None" "\<forall>i. (i, Serving) \<in> set rs \<and> i \<notin> x \<longrightarrow> h = Some i" using assms(3) unfolding LifeStart(1) one_live.simps by blast+
  then show ?thesis unfolding LifeStart(2) one_live.simps by auto
next
  case (LifeStop h c n rs x)
  have c: "c = h" "\<forall>i. (i, Serving) \<in> set rs \<and> i \<notin> x \<longrightarrow> h = Some i"
    using assms(2,3) unfolding LifeStop(1) one_live.simps life_inv.simps by blast+
  then show ?thesis unfolding LifeStop(2) one_live.simps by auto
qed

lemma never_cancelled_step: "life_step l l1 \<Longrightarrow> never_cancelled m l \<Longrightarrow> never_cancelled m l1"
  by (cases rule: life_step.cases, assumption) auto

lemma begin_life [simp]: "lifecycle (tray_begin f s) = (None, None, False, 0, [], {})"
  by (simp add: tray_begin_def lifecycle_def split: prod.split)

lemma tray_steps_inv: "tray_steps F A t t1 \<Longrightarrow> life_inv (lifecycle t) \<Longrightarrow> life_inv (lifecycle t1)"
  by (induction rule: tray_steps.induct) (metis tray_refines_life life_inv_step)+

lemma tray_steps_never: "tray_steps F A t t1 \<Longrightarrow> never_cancelled m (lifecycle t) \<Longrightarrow> never_cancelled m (lifecycle t1)"
  by (induction rule: tray_steps.induct) (metis tray_refines_life never_cancelled_step)+

lemma settled_steps_live:
  assumes "settled_steps F A t t1" "life_inv (lifecycle t)" "one_live (lifecycle t)" "settled t"
  shows "life_inv (lifecycle t1) \<and> one_live (lifecycle t1) \<and> settled t1"
  using assms
proof (induction rule: settled_steps.induct)
  case (SettledThen t t1 t2)
  note IH = SettledThen.IH[OF SettledThen.prems]
  have "h = Some i" if "lifecycle t1 = (h, c, True, n, rs, x)" "(i, Ended e) \<in> set rs" for h c n rs x i e
  proof -
    have "ty_running t1" "ty_runs t1 = rs" "ty_host t1 = h" using that(1) by (simp_all add: lifecycle_def)
    then show ?thesis using IH that(2) unfolding settled_def by blast
  qed
  then have "one_live (lifecycle t2)" "life_inv (lifecycle t2)"
    using tray_refines_life[OF SettledThen.hyps(2)] IH one_live_step life_inv_step by metis+
  then show ?case using SettledThen.hyps(3) by blast
qed simp

text \<open>
  C30. One host serves at a time, and it can be stopped.  In a run of the tray in which no host that failed still waits for its
  end to be noted after another has been started, the only host that serves without having been cancelled is the one the
  tray shows; the tray counts as running exactly while it shows one, and stopping then leaves none
  that is not cancelled.
\<close>

theorem one_host_at_a_time:
  fixes t :: "('f, 's, 'c, 't, 'w) tray"
  assumes "settled_steps F A (tray_begin f s) t"
  shows "(\<forall>n. (n, Serving) \<in> set (ty_runs t) \<and> n \<notin> ty_cancelled t \<longrightarrow> ty_host t = Some n) \<and>
    (ty_running t \<longleftrightarrow> ty_host t \<noteq> None) \<and>
    (ty_running t \<longrightarrow> (\<forall>n. (n, Serving) \<in> set (ty_runs (stop_streaming t)) \<longrightarrow> n \<in> ty_cancelled (stop_streaming t)))"
proof -
  have "settled (tray_begin f s :: ('f, 's, 'c, 't, 'w) tray)" by (simp add: settled_def tray_begin_def split: prod.split)
  then have i: "life_inv (lifecycle t)" "one_live (lifecycle t)" using settled_steps_live[OF assms] by simp_all
  then have live: "\<forall>n. (n, Serving) \<in> set (ty_runs t) \<and> n \<notin> ty_cancelled t \<longrightarrow> ty_host t = Some n"
    and r: "ty_running t \<longleftrightarrow> ty_host t \<noteq> None" and c: "ty_running t \<longrightarrow> ty_cancel t = ty_host t"
    unfolding lifecycle_def life_inv.simps one_live.simps by blast+
  have "n \<in> ty_cancelled (stop_streaming t)" if "ty_running t" "(n, Serving) \<in> set (ty_runs (stop_streaming t))" for n
  proof (cases "n \<in> ty_cancelled t")
    case False
    then have "ty_cancel t = Some n" using that live c by (simp add: stop_streaming_def set_status_def)
    then show ?thesis using that(1) by (simp add: stop_streaming_def set_status_def)
  qed (simp add: stop_streaming_def set_status_def)
  then show ?thesis using live r by blast
qed

text \<open>
  C28. A failure that is noted too late leaks a host.  When a host has failed, was stopped and replaced before its end was noted, noting it
  declares the tray stopped while the new host serves: stopping does nothing, and whatever happens
  later, through any number of starts and stops, that host is never cancelled.
\<close>

theorem late_end_leaks_host:
  assumes t: "tray_steps F A (tray_begin f s) t" and r: "ty_running t" "ty_host t = Some m"
    and e: "(n, Ended err) \<in> set (ty_runs t)" "n \<noteq> m"
  shows "let t1 = run_noted n err t in \<not> ty_running t1 \<and> stop_streaming t1 = t1 \<and> m \<in> fst ` set (ty_runs t1) \<and>
    (\<forall>t2. tray_steps F A t1 t2 \<longrightarrow> m \<notin> ty_cancelled t2)"
proof -
  let ?t1 = "run_noted n err t"
  have i: "life_inv (lifecycle t)" using tray_steps_inv[OF t] by simp
  have l: "lifecycle ?t1 = (ty_host t, ty_cancel t, False, ty_starts t, AList.delete n (ty_runs t), ty_cancelled t)"
    using r(2) e(2) by (cases err) (simp_all add: run_noted_def Let_def lifecycle_def set_error_def set_status_def)
  have m: "m \<in> fst ` set (ty_runs t)" "m \<notin> ty_cancelled t" "m < ty_starts t" using i r(2) by (auto simp: lifecycle_def)
  have "never_cancelled m (lifecycle ?t1)" using m by (simp add: l)
  then have "m \<notin> ty_cancelled t2" if "tray_steps F A ?t1 t2" for t2
    using tray_steps_never[OF that] by (simp add: lifecycle_def)
  moreover have "\<not> ty_running ?t1" "m \<in> fst ` set (ty_runs ?t1)"
    using l m e(2) by (auto simp: lifecycle_def delete_keys)
  ultimately show ?thesis by (simp add: stop_streaming_def)
qed

section \<open>What reaches whom\<close>

lemma current_host_on_host: "current_host (on_host f t) = map_option f (current_host t)"
proof (cases "ty_host t")
  case (Some n)
  have "map_of (map (\<lambda>(i, sv). (i, if i = n then f sv else sv)) hs) n = map_option f (map_of hs n)" for hs
    by (induction hs) auto
  then show ?thesis using Some by (simp add: current_host_def on_host_def)
qed (simp add: current_host_def on_host_def)

lemma current_host_plain [simp]:
  "current_host (save_due th t) = current_host t" "current_host (set_error e t) = current_host t" "current_host (clear_error t) = current_host t"
  "current_host (set_source_label l t) = current_host t" "current_host (set_capture_apps_label l t) = current_host t"
  "current_host (t\<lparr>ty_muted := b\<rparr>) = current_host t" "current_host (t\<lparr>ty_preset := p, ty_profile := pr, ty_hint := h\<rparr>) = current_host t"
  by (simp_all add: current_host_def save_due_def set_error_def clear_error_def set_source_label_def set_capture_apps_label_def)

lemma joined_newcomer: "map_of (sv_streams (joined cn key st sv)) cn = Some st"
  by (simp add: joined_def update_conv)

lemma tray_settings_reach:
  fixes t :: "('f, 's, 'c, 't, 'w) tray" and H :: "('f, 's, 'p, 'c, 'w) host_env"
  assumes sv: "current_host t = Some sv" "\<not> ty_muted t" and p: "profile_by_id i = Some spec" "preset_bounds (pf_preset spec) = (mn, mx, fec, True)"
    and st: "map_of (sv_streams sv) c = Some st" "c \<in> snd ` set (hh_conns (sv_host sv))"
  shows "let t1 = apply_profile_id F th i (toggle_mute t) in ty_muted t1 \<and> ty_preset t1 = pf_preset spec \<and>
    (\<exists>sv1. current_host t1 = Some sv1 \<and>
      map_of (sv_streams sv1) c = Some (st\<lparr>rx_muted := True, rx_quality := new_controller F mn mx, rx_fec_bias := fec\<rparr>) \<and>
      (\<forall>cn key name cs caps. \<exists>st2. map_of (sv_streams (joined cn key (new_host_stream H name cs caps 0 0) sv1)) cn = Some st2 \<and>
        \<not> rx_muted st2 \<and> \<not> rx_fec_bias st2 \<and> rx_quality st2 = new_controller (he_float H) 32000 (max (hf_max_bitrate (he_format H)) 256000)))"
proof -
  define sv1 where "sv1 = set_quality F mn mx fec (mute_all True sv)"
  have h: "current_host (apply_profile_id F th i (toggle_mute t)) = Some sv1"
    by (simp add: apply_profile_id_def p apply_tuning_def Let_def current_host_on_host toggle_mute_def sv sv1_def)
  have f: "ty_muted (on_host f u) = ty_muted u" "ty_preset (on_host f u) = ty_preset u" for f and u :: "('f, 's, 'c, 't, 'w) tray"
    by (simp_all add: on_host_def split: option.split)
  have m: "ty_muted (apply_profile_id F th i (toggle_mute t))" "ty_preset (apply_profile_id F th i (toggle_mute t)) = pf_preset spec"
    by (simp_all add: apply_profile_id_def p apply_tuning_def Let_def toggle_mute_def save_due_def f sv(2))
  have q: "map_of (sv_streams sv1) c = Some (st\<lparr>rx_muted := True, rx_quality := new_controller F mn mx, rx_fec_bias := fec\<rparr>)"
  proof -
    have hosts: "sv_host (mute_all True sv) = sv_host sv" by (simp add: mute_all_def change_all_def)
    have "map_of (sv_streams (mute_all True sv)) c = Some (st\<lparr>rx_muted := True\<rparr>)"
      using st by (simp add: mute_all_def change_all_lookup)
    then show ?thesis using st(2) by (simp add: sv1_def set_quality_def change_all_lookup hosts)
  qed
  show ?thesis
    using h m q by (simp add: Let_def joined_newcomer new_host_stream_def)
qed

text \<open>
  C29. Mute and quality of the tray reach the receivers of the moment only.  Muting mutes every listed receiver of the
  running host, and a profile gives each of them its preset's bounds; a receiver that connects afterwards is
  not muted and starts from the standard bounds, though the tray shows muted and the preset.  At the start of a
  host, when nobody is listed, neither has any effect.
\<close>

theorem tray_settings_miss_newcomers:
  fixes t :: "('f, 's, 'c, 't, 'w) tray" and H :: "('f, 's, 'p, 'c, 'w) host_env"
  assumes "current_host t = Some sv" "\<not> ty_muted t" "profile_by_id i = Some spec" "preset_bounds (pf_preset spec) = (mn, mx, fec, True)"
    "map_of (sv_streams sv) c = Some st" "c \<in> snd ` set (hh_conns (sv_host sv))"
  shows "(let t1 = apply_profile_id F th i (toggle_mute t) in ty_muted t1 \<and> ty_preset t1 = pf_preset spec \<and>
    (\<exists>sv1. current_host t1 = Some sv1 \<and>
      map_of (sv_streams sv1) c = Some (st\<lparr>rx_muted := True, rx_quality := new_controller F mn mx, rx_fec_bias := fec\<rparr>) \<and>
      (\<forall>cn key name cs caps. \<exists>st2. map_of (sv_streams (joined cn key (new_host_stream H name cs caps 0 0) sv1)) cn = Some st2 \<and>
        \<not> rx_muted st2 \<and> \<not> rx_fec_bias st2 \<and> rx_quality st2 = new_controller (he_float H) 32000 (max (hf_max_bitrate (he_format H)) 256000)))) \<and>
    (\<forall>b sv2. hh_conns (sv_host sv2) = [] \<longrightarrow> mute_all b sv2 = sv2 \<and> set_quality F mn mx fec sv2 = (sv2 :: ('f, 's, 'c, 't, 'w) service))"
proof -
  have "mute_all b sv2 = sv2 \<and> set_quality F mn mx fec sv2 = sv2" if "hh_conns (sv_host sv2) = []" for b and sv2 :: "('f, 's, 'c, 't, 'w) service"
    using that by (simp add: mute_all_def set_quality_def change_all_def)
  then show ?thesis using tray_settings_reach[OF assms, of F th H] by blast
qed

section \<open>Choosing a source\<close>

lemma drop_capture_fields:
  assumes "drop_capture A h w = (e, h1, w1)"
  shows "hc_source h1 = hc_source h" "hc_selector h1 = hc_selector h" "hc_capture_apps h1 = hc_capture_apps h"
    "hc_exclude_apps h1 = hc_exclude_apps h" "hc_format h1 = hc_format h" "hc_tone h1 = hc_tone h"
  using assms by (auto simp: drop_capture_def Let_def split: option.splits prod.splits)

lemma tone_kept_or_replaced:
  fixes t :: "('f, 's, 'c, 't, 'w) tray"
  assumes sv: "current_host t = Some sv" "hc_source (sv_capture sv) = SourceTestTone" and ch: "ch \<noteq> ChooseTone"
    and close: "\<And>c w. fst (au_close A c w) = None"
  shows "let t1 = apply_source showCap A (Some ch) t in ty_source_label t1 = choice_label ch \<and> ty_last_error t1 = [] \<and>
      (\<exists>sv1. current_host t1 = Some sv1 \<and>
        selected_call (sv_capture sv1) = Inr (OpenSynthetic (hc_format (sv_capture sv)) (hc_tone (sv_capture sv))))"
    and "p \<noteq> 0 \<Longrightarrow> let t1 = apply_capture_apps showCap A [p] False name t in ty_last_error t1 = [] \<and>
      (\<exists>sv1. current_host t1 = Some sv1 \<and> selected_call (sv_capture sv1) = Inr (OpenProcessLoopback [p] False (hc_format (sv_capture sv))))"
proof -
  have ok: "fst (drop_capture A h w) = None" for h w
    using close by (auto simp: drop_capture_def Let_def split: option.split prod.split) (metis fst_conv)
  define sel where "sel = (case ch of ChooseDevice name \<Rightarrow> name | _ \<Rightarrow> [])"
  have c: "source_call A ch = set_source_device A sel" using ch by (cases ch) (simp_all add: source_call_def sel_def)
  obtain e cap1 w1 where d: "set_source_device A sel (sv_capture sv) (sv_world sv) = (e, cap1, w1)" by (metis prod_cases3)
  have e: "e = None" using d ok by (metis fst_conv set_source_device_def)
  have s: "selected_call cap1 = Inr (OpenSynthetic (hc_format (sv_capture sv)) (hc_tone (sv_capture sv)))"
    using drop_capture_fields[OF d[unfolded set_source_device_def]] sv(2) by (simp add: selected_call_def)
  have a: "apply_source showCap A (Some ch) t =
      clear_error (set_capture_apps_label [] (set_source_label (choice_label ch) (on_host (with_capture cap1 w1) t)))"
    by (simp add: apply_source_def sv(1) c d e)
  have h: "current_host (apply_source showCap A (Some ch) t) = Some (with_capture cap1 w1 sv)"
    by (simp add: a current_host_on_host sv(1))
  have l: "ty_source_label (apply_source showCap A (Some ch) t) = choice_label ch" "ty_last_error (apply_source showCap A (Some ch) t) = []"
    by (simp_all add: a clear_error_def set_capture_apps_label_def set_source_label_def)
  show "let t1 = apply_source showCap A (Some ch) t in ty_source_label t1 = choice_label ch \<and> ty_last_error t1 = [] \<and>
      (\<exists>sv1. current_host t1 = Some sv1 \<and>
        selected_call (sv_capture sv1) = Inr (OpenSynthetic (hc_format (sv_capture sv)) (hc_tone (sv_capture sv))))"
    using h l s by (simp add: Let_def with_capture_def)
  show "let t1 = apply_capture_apps showCap A [p] False name t in ty_last_error t1 = [] \<and>
      (\<exists>sv1. current_host t1 = Some sv1 \<and> selected_call (sv_capture sv1) = Inr (OpenProcessLoopback [p] False (hc_format (sv_capture sv))))"
    if p: "p \<noteq> 0"
  proof -
    define h0 where "h0 = (sv_capture sv)\<lparr>hc_capture_apps := [p], hc_exclude_apps := [], hc_source := SourceLoopback, hc_selector := []\<rparr>"
    obtain e cap2 w2 where d: "drop_capture A h0 (sv_world sv) = (e, cap2, w2)" by (metis prod_cases3)
    have sc: "set_capture_apps A [p] False (sv_capture sv) (sv_world sv) = (None, cap2, w2)"
      using p d ok[of h0 "sv_world sv"] by (simp add: set_capture_apps_def h0_def)
    have "selected_call cap2 = Inr (OpenProcessLoopback [p] False (hc_format (sv_capture sv)))"
      using drop_capture_fields[OF d] by (simp add: selected_call_def h0_def)
    moreover have "apply_capture_apps showCap A [p] False name t = clear_error (set_source_label (bytes_of_str ''Application: '' @ name)
        (set_capture_apps_label (bytes_of_str ''Only '' @ name) (on_host (with_capture cap2 w2) t)))"
      by (simp add: apply_capture_apps_def sv(1) sc)
    moreover have "ty_last_error (clear_error u) = []" for u :: "('f, 's, 'c, 't, 'w) tray" by (simp add: clear_error_def)
    ultimately show ?thesis by (simp add: current_host_on_host sv(1) with_capture_def)
  qed
qed

text \<open>
  The settings window does not leave the test tone.  When the host captures the test tone, applying the
  system audio or any device there reports success and shows the choice, but what the host opens next
  is the test tone again: only the chosen device was changed, not the kind of source.  An application chosen does
  replace it.
\<close>

theorem tone_never_left:
  fixes t :: "('f, 's, 'c, 't, 'w) tray"
  assumes "current_host t = Some sv" "hc_source (sv_capture sv) = SourceTestTone" "ch \<noteq> ChooseTone" "\<And>c w. fst (au_close A c w) = None"
  shows "(let t1 = apply_source showCap A (Some ch) t in ty_source_label t1 = choice_label ch \<and> ty_last_error t1 = [] \<and>
      (\<exists>sv1. current_host t1 = Some sv1 \<and>
        selected_call (sv_capture sv1) = Inr (OpenSynthetic (hc_format (sv_capture sv)) (hc_tone (sv_capture sv))))) \<and>
    (\<forall>p name. p \<noteq> 0 \<longrightarrow> (let t1 = apply_capture_apps showCap A [p] False name t in ty_last_error t1 = [] \<and>
      (\<exists>sv1. current_host t1 = Some sv1 \<and> selected_call (sv_capture sv1) = Inr (OpenProcessLoopback [p] False (hc_format (sv_capture sv))))))"
  using tone_kept_or_replaced[OF assms] by blast

section \<open>The settings over a restart\<close>

definition preferences :: "('f, 's, 'c, 't, 'w) tray \<Rightarrow> preset \<times> profile_id \<times> string \<times> bool \<times> bytes \<times> bool \<times> string" where
  "preferences t = (ty_preset t, ty_profile t, ty_hint t, ty_muted t, ty_last_receiver t, ty_auto_stream t, ty_auto_receiver t)"

lemma preset_round [simp]: "preset_from_name (preset_name p) = p"
  by (cases p) (simp_all add: preset_name_def preset_from_name_def)

lemma profile_round [simp]: "profile_from_name (profile_name i) = i"
  by (cases i) (simp_all add: profile_name_def profile_from_name_def profile_by_id_def profile_specs_def)

definition hint_shown :: "('f, 's, 'c, 't, 'w) tray \<Rightarrow> bool" where
  "hint_shown t \<longleftrightarrow> ty_hint t = profile_hint_for (ty_profile t)"

lemma no_profile_hint [simp]: "profile_hint_for ProfileNone = []"
  by (simp add: profile_hint_for_def profile_by_id_def profile_specs_def)

lemma hint_plain [simp]:
  "hint_shown (save_due th t) = hint_shown t" "hint_shown (save_snapshot th t) = hint_shown t" "hint_shown (save_write m th t) = hint_shown t"
  "hint_shown (set_status st t) = hint_shown t" "hint_shown (set_error msg t) = hint_shown t" "hint_shown (clear_error t) = hint_shown t"
  "hint_shown (set_source_label l t) = hint_shown t" "hint_shown (set_capture_apps_label l t) = hint_shown t" "hint_shown (set_tone i t) = hint_shown t"
  "hint_shown (on_host f t) = hint_shown t"
  by (simp_all add: hint_shown_def save_due_def save_snapshot_def save_write_def set_status_def set_error_def clear_error_def
      set_source_label_def set_capture_apps_label_def set_tone_def on_host_def split: option.split)

lemma hint_starts [simp]:
  "hint_shown (start_streaming made t) = hint_shown t" "hint_shown (stop_streaming t) = hint_shown t"
  "hint_shown (run_ended e n t) = hint_shown t" "hint_shown (run_noted n e t) = hint_shown t"
  by (simp_all add: hint_shown_def start_streaming_def stop_streaming_def run_ended_def run_noted_def set_status_def set_error_def Let_def
      split: sum.split option.split)

lemma hint_fields [simp]:
  "hint_shown (t\<lparr>ty_muted := b\<rparr>) = hint_shown t" "hint_shown (t\<lparr>ty_preset := p, ty_profile := pr, ty_hint := profile_hint_for pr\<rparr>)"
  "hint_shown (t\<lparr>ty_last_receiver := r\<rparr>) = hint_shown t" "hint_shown (t\<lparr>ty_auto_receiver := i\<rparr>) = hint_shown t"
  "hint_shown (t\<lparr>ty_auto_stream := a\<rparr>) = hint_shown t" "hint_shown (t\<lparr>ty_store := s\<rparr>) = hint_shown t" "hint_shown (t\<lparr>ty_hosts := hs\<rparr>) = hint_shown t"
  by (simp_all add: hint_shown_def)

lemma hint_cleared [simp]: "hint_shown (t\<lparr>ty_preset := p, ty_profile := ProfileNone, ty_hint := []\<rparr>)"
  by (simp add: hint_shown_def)

lemma hint_step:
  assumes "tray_step F A t t1" "hint_shown t"
  shows "hint_shown t1"
  using assms
  by cases (simp_all add: toggle_streaming_def connect_last_def toggle_mute_def apply_preset_id_def apply_profile_id_def apply_tuning_def
      receivers_changed_def set_auto_receiver_def clear_auto_receiver_if_def set_auto_stream_def set_receiver_muted_def
      set_receiver_volume_def tray_forget_peer_def apply_source_def select_source_def apply_capture_apps_def Let_def
      split: option.split sum.split prod.split list.split)

lemma hint_begin: "hint_shown (tray_begin f s)"
  by (simp add: hint_shown_def tray_begin_def split: prod.split)

lemma tray_steps_hint: "tray_steps F A t t1 \<Longrightarrow> hint_shown t \<Longrightarrow> hint_shown t1"
  by (induction rule: tray_steps.induct) (simp_all add: hint_step)

text \<open>
  The settings survive a restart.  When a save that was due has run to its end and the file could be replaced, a tray
  started from the file has the preset, the profile with its hint, the mute, the last and the preferred receiver
  and the start preference the running tray has; but if another save took its copy of the settings
  earlier and writes it later, the file holds the older settings and no save is left to correct it.
\<close>

theorem settings_survive_restart:
  fixes t :: "('f, 's, 'c, 't, 'w) tray"
  assumes t: "tray_steps F A (tray_begin f s) t" and th: "map_of (ty_savers t) th = Some None"
  shows "let t1 = save_write True th (save_snapshot th t); u = (tray_begin (ty_file t1) s2 :: ('f, 's, 'c, 't, 'w) tray)
    in preferences u = preferences t \<and> preferences t1 = preferences t \<and> \<not> ty_running u \<and>
      (\<forall>th2 old. th2 \<noteq> th \<and> map_of (ty_savers t) th2 = Some (Some old) \<longrightarrow>
        ty_file (save_write True th2 t1) = SettingsText old \<and> map_of (ty_savers (save_write True th2 t1)) th2 = None)"
proof -
  have h: "ty_hint t = profile_hint_for (ty_profile t)" using tray_steps_hint[OF t hint_begin] by (simp add: hint_shown_def)
  define t1 where "t1 = save_write True th (save_snapshot th t)"
  have t1: "t1 = t\<lparr>ty_savers := AList.delete th (AList.update th (Some (settings_of t)) (ty_savers t)), ty_file := SettingsText (settings_of t)\<rparr>"
    by (simp add: t1_def save_write_def save_snapshot_def update_conv)
  have "preferences (tray_begin (ty_file t1) s2 :: ('f, 's, 'c, 't, 'w) tray) = preferences t"
    by (simp add: t1 tray_begin_def load_settings_def preferences_def settings_of_def h)
  moreover have "\<not> ty_running (tray_begin (ty_file t1) s2 :: ('f, 's, 'c, 't, 'w) tray)"
    by (simp add: tray_begin_def split: prod.split)
  moreover have "preferences t1 = preferences t" by (simp add: t1 preferences_def)
  moreover have "ty_file (save_write True th2 t1) = SettingsText old \<and> map_of (ty_savers (save_write True th2 t1)) th2 = None"
    if "th2 \<noteq> th" "map_of (ty_savers t) th2 = Some (Some old)" for th2 old
    using that by (simp add: t1 save_write_def delete_conv update_conv)
  ultimately show ?thesis by (simp add: Let_def flip: t1_def)
qed

text \<open>
  The presets of the tray are the receivers' quality modes: the menu and the message of a receiver tune the host alike.
\<close>

theorem presets_are_modes:
  "preset_bounds PresetAuto = quality_mode_to_bounds 0" "preset_bounds PresetLowest = quality_mode_to_bounds 1"
  "preset_bounds PresetLossless = quality_mode_to_bounds 2" "preset_bounds PresetRobust = quality_mode_to_bounds 3"
  "preset_bounds PresetAdvanced = quality_mode_to_bounds 4"
  by (simp_all add: preset_bounds_def quality_mode_to_bounds_def)

section \<open>Concrete runs\<close>

text \<open>A host that can always be made, a tray that starts it, loses it and starts another.\<close>

definition demo_made :: "windows_store \<Rightarrow> tone_mode \<Rightarrow> string + (rat, unit, open_call, windows_store, unit) service" where
  "demo_made st tone = Inr \<lparr>sv_host = new_host st, sv_streams = [], sv_capture = demo_capture\<lparr>hc_tone := tone\<rparr>, sv_world = ()\<rparr>"

definition demo_tray :: "(rat, unit, open_call, windows_store, unit) tray" where
  "demo_tray = tray_begin NoSettings (hh_store demo_paired)"

definition demo_started :: "(rat, unit, open_call, windows_store, unit) tray" where
  "demo_started = start_streaming demo_made demo_tray"

definition demo_replaced :: "(rat, unit, open_call, windows_store, unit) tray" where
  "demo_replaced = start_streaming demo_made (stop_streaming (run_ended (Some ''lost'') 0 demo_started))"

lemmas demo_tray_defs = demo_tray_def demo_started_def demo_replaced_def start_streaming_def stop_streaming_def run_ended_def demo_made_def
  tray_begin_def load_settings_def set_status_def Let_def

lemma demo_started_fields:
  "ty_running demo_started" "ty_host demo_started = Some 0" "ty_runs demo_started = [(0, Serving)]" "ty_cancelled demo_started = {}"
  "ty_cancel demo_started = Some 0" "ty_savers demo_started = []" "\<not> ty_muted demo_started" "ty_last_error demo_started = []"
  by (simp_all add: demo_tray_defs)

lemma demo_replaced_fields: "ty_running demo_replaced" "ty_host demo_replaced = Some 1" "(0, Ended (Some ''lost'')) \<in> set (ty_runs demo_replaced)"
  by (simp_all add: demo_tray_defs)

lemma demo_replaced_reached:
  fixes F :: "rat float_ops"
  shows "tray_steps F A (tray_begin NoSettings (hh_store demo_paired)) demo_replaced"
proof -
  have s: "tray_steps F A demo_tray demo_tray" by (rule TrayHere)
  have "tray_steps F A demo_tray demo_started" unfolding demo_started_def by (rule TrayThen[OF s TrayStart])
  then have "tray_steps F A demo_tray (run_ended (Some ''lost'') 0 demo_started)"
    by (rule TrayThen[OF _ TrayEnded]) (simp add: demo_started_fields)
  then have "tray_steps F A demo_tray (stop_streaming (run_ended (Some ''lost'') 0 demo_started))" by (rule TrayThen[OF _ TrayStop])
  then show ?thesis unfolding demo_replaced_def demo_tray_def[symmetric] by (rule TrayThen[OF _ TrayStart])
qed

theorem one_host_at_a_time_witness:
  "ty_running demo_started \<and> ty_host demo_started = Some 0 \<and> 0 \<in> ty_cancelled (stop_streaming demo_started)"
proof -
  have "settled_steps rat_ops demo_audio (tray_begin NoSettings (hh_store demo_paired)) demo_started"
    unfolding demo_tray_def[symmetric] demo_started_def
    by (rule SettledThen[OF SettledHere TrayStart]) (simp add: settled_def flip: demo_started_def, simp add: demo_started_fields)
  moreover have "(0, Serving) \<in> set (ty_runs demo_started)" "(0, Serving) \<in> set (ty_runs (stop_streaming demo_started))"
    by (simp_all add: stop_streaming_def set_status_def demo_started_fields)
  ultimately show ?thesis using one_host_at_a_time demo_started_fields by (metis empty_iff)
qed

theorem late_end_leaks_host_witness:
  "let t1 = run_noted 0 (Some ''lost'') demo_replaced in \<not> ty_running t1 \<and> stop_streaming t1 = t1 \<and> 1 \<in> fst ` set (ty_runs t1) \<and>
    1 \<notin> ty_cancelled t1"
proof -
  have "tray_steps rat_ops demo_audio t1 t1" for t1 :: "(rat, unit, open_call, windows_store, unit) tray" by (rule TrayHere)
  then show ?thesis
    using late_end_leaks_host[OF demo_replaced_reached[of rat_ops demo_audio] demo_replaced_fields(1,2,3)] by (auto simp: Let_def)
qed

definition demo_serving :: "(rat, unit, open_call, windows_store, unit) tray" where
  "demo_serving = demo_started\<lparr>ty_hosts := [(0, demo_service)]\<rparr>"

lemma demo_serving_host: "current_host demo_serving = Some demo_service" "\<not> ty_muted demo_serving"
  by (simp_all add: demo_serving_def current_host_def demo_started_fields)

theorem tray_settings_miss_newcomers_witness:
  "let t1 = apply_profile_id rat_ops MenuThread ProfileWeakRobust (toggle_mute demo_serving) in ty_muted t1 \<and> ty_preset t1 = PresetRobust \<and>
    (\<exists>sv1. current_host t1 = Some sv1 \<and>
      map_of (sv_streams sv1) 1 = Some (demo_stream\<lparr>rx_muted := True, rx_quality := new_controller rat_ops 32000 128000, rx_fec_bias := True\<rparr>))"
proof -
  have p: "profile_by_id ProfileWeakRobust = Some (profile_specs ! 2)" "preset_bounds (pf_preset (profile_specs ! 2)) = (32000, 128000, True, True)"
    "pf_preset (profile_specs ! 2) = PresetRobust"
    by (simp_all add: profile_by_id_def profile_specs_def preset_bounds_def)
  have st: "map_of (sv_streams demo_service) 1 = Some demo_stream" "1 \<in> snd ` set (hh_conns (sv_host demo_service))"
    by (simp_all add: demo_service_def)
  show ?thesis
    using tray_settings_miss_newcomers[OF demo_serving_host p(1,2) st, of rat_ops MenuThread demo_env] unfolding p(3) Let_def by blast
qed

theorem tone_never_left_witness:
  "let t1 = apply_source (\<lambda>_. []) demo_audio (Some ChooseDefault)
      (demo_started\<lparr>ty_hosts := [(0, demo_service\<lparr>sv_capture := demo_capture\<lparr>hc_source := SourceTestTone\<rparr>\<rparr>)]\<rparr>)
   in ty_source_label t1 = bytes_of_str ''System audio (default)'' \<and> ty_last_error t1 = []"
proof -
  define sv where "sv = demo_service\<lparr>sv_capture := demo_capture\<lparr>hc_source := SourceTestTone\<rparr>\<rparr>"
  have h: "current_host (demo_started\<lparr>ty_hosts := [(0, sv)]\<rparr>) = Some sv" "hc_source (sv_capture sv) = SourceTestTone"
    by (simp_all add: current_host_def demo_started_fields sv_def)
  have c: "fst (au_close demo_audio k w) = None" for k w by (simp add: demo_audio_def)
  show ?thesis using tone_never_left[OF h, of ChooseDefault demo_audio "\<lambda>_. []"] c unfolding Let_def sv_def[symmetric]
    by (simp add: choice_label_def)
qed

theorem settings_survive_restart_witness:
  "let t = toggle_mute demo_started; t1 = save_write True MenuThread (save_snapshot MenuThread t)
   in preferences (tray_begin (ty_file t1) (hh_store demo_paired) :: (rat, unit, open_call, windows_store, unit) tray) = preferences t"
proof -
  have s: "tray_steps rat_ops demo_audio demo_tray demo_tray" by (rule TrayHere)
  have "tray_steps rat_ops demo_audio demo_tray demo_started" unfolding demo_started_def by (rule TrayThen[OF s TrayStart])
  then have t: "tray_steps rat_ops demo_audio (tray_begin NoSettings (hh_store demo_paired)) (toggle_mute demo_started)"
    unfolding demo_tray_def[symmetric] by (rule TrayThen[OF _ TrayMute]) (simp add: thread_idle_def demo_started_fields)
  have "map_of (ty_savers (toggle_mute demo_started)) MenuThread = Some None"
    by (simp add: toggle_mute_def save_due_def Let_def)
  from settings_survive_restart[OF t this] show ?thesis unfolding Let_def by blast
qed

end
