(* ===== verification/TrayWindows.thy ===== *)
theory TrayWindows
  imports HostService
begin

text \<open>
  The two windows of the tray application, each open at most once: the settings window
  (\<^verbatim>\<open>engine/cmd/remote-au-tray/settings.go\<close>) and the pairing window (\<^verbatim>\<open>pairing.go\<close>).  A window is made,
  run and torn down by a goroutine of its own; the fields \<^verbatim>\<open>settingsUI\<close> and \<^verbatim>\<open>settingsStarting\<close>, or
  \<^verbatim>\<open>pairingUI\<close> and \<^verbatim>\<open>pairingStarting\<close>, decide whether a request opens a window or goes to the one there is.
  Both pairs are a slot, with the goroutines beside it; the pairing window adds the flag
  \<^verbatim>\<open>pairingLive\<close>.  The user, the message of the program and the timer that close a window are one event.
\<close>

section \<open>A slot for one window\<close>

datatype 'c window_stage = Opening 'c | Open 'c | Closing 'c

record 'c window_slot =
  ws_ui :: "nat option"
  ws_starting :: bool
  ws_threads :: "(nat \<times> 'c window_stage) list"
  ws_next :: nat

definition slot_launch :: "'c \<Rightarrow> ('c, 'm) window_slot_scheme \<Rightarrow> ('c, 'm) window_slot_scheme" where
  "slot_launch c w = w\<lparr>ws_starting := True, ws_threads := (ws_next w, Opening c) # ws_threads w, ws_next := Suc (ws_next w)\<rparr>"

definition slot_stage :: "nat \<Rightarrow> ('c window_stage \<Rightarrow> 'c window_stage) \<Rightarrow> ('c, 'm) window_slot_scheme \<Rightarrow> ('c, 'm) window_slot_scheme" where
  "slot_stage n f w = w\<lparr>ws_threads := map (\<lambda>(i, s). (i, if i = n then f s else s)) (ws_threads w)\<rparr>"

fun opened :: "'c window_stage \<Rightarrow> 'c window_stage" where
  "opened (Opening c) = Open c" | "opened s = s"

fun closing :: "'c window_stage \<Rightarrow> 'c window_stage" where
  "closing (Open c) = Closing c" | "closing s = s"

fun refilled :: "'c \<Rightarrow> 'c window_stage \<Rightarrow> 'c window_stage" where
  "refilled c (Open d) = Open c" | "refilled c s = s"

definition slot_drop :: "nat \<Rightarrow> ('c, 'm) window_slot_scheme \<Rightarrow> ('c, 'm) window_slot_scheme" where
  "slot_drop n w = w\<lparr>ws_threads := filter (\<lambda>(i, s). i \<noteq> n) (ws_threads w)\<rparr>"

definition slot_made :: "bool \<Rightarrow> nat \<Rightarrow> ('c, 'm) window_slot_scheme \<Rightarrow> ('c, 'm) window_slot_scheme" where
  "slot_made ok n w =
     (if ok then slot_stage n opened (w\<lparr>ws_ui := Some n, ws_starting := False\<rparr>) else slot_drop n (w\<lparr>ws_starting := False\<rparr>))"

definition slot_gone :: "nat \<Rightarrow> ('c, 'm) window_slot_scheme \<Rightarrow> ('c, 'm) window_slot_scheme" where
  "slot_gone n w = slot_drop n (w\<lparr>ws_ui := None\<rparr>)"

definition free_slot :: "'c window_slot" where
  "free_slot = \<lparr>ws_ui = None, ws_starting = False, ws_threads = [], ws_next = 0\<rparr>"

section \<open>The settings window\<close>

definition open_settings :: "unit window_slot \<Rightarrow> unit window_slot" where
  "open_settings w = (if ws_ui w \<noteq> None then w else if ws_starting w then w else slot_launch () w)"

text \<open>\<^verbatim>\<open>runSettings\<close>: the window is made or not, its message loop ends, and the slot is freed.\<close>

definition settings_made :: "bool \<Rightarrow> nat \<Rightarrow> unit window_slot \<Rightarrow> unit window_slot" where
  "settings_made ok n w = slot_made ok n w"

definition settings_gone :: "nat \<Rightarrow> unit window_slot \<Rightarrow> unit window_slot" where
  "settings_gone n w = slot_gone n w"

inductive settings_window_step :: "unit window_slot \<Rightarrow> unit window_slot \<Rightarrow> bool" where
  SettingsAsked: "settings_window_step w (open_settings w)"
| SettingsMade: "(n, Opening c) \<in> set (ws_threads w) \<Longrightarrow> settings_window_step w (settings_made ok n w)"
| SettingsClosed: "(n, Open c) \<in> set (ws_threads w) \<Longrightarrow> settings_window_step w (slot_stage n closing w)"
| SettingsGone: "(n, Closing c) \<in> set (ws_threads w) \<Longrightarrow> settings_window_step w (settings_gone n w)"

inductive settings_window_reach :: "unit window_slot \<Rightarrow> bool" where
  SettingsFree: "settings_window_reach free_slot"
| SettingsNext: "settings_window_reach w \<Longrightarrow> settings_window_step w w1 \<Longrightarrow> settings_window_reach w1"

section \<open>The pairing window\<close>

datatype pairing_content = Placeholder | LiveCode string string

text \<open>\<^verbatim>\<open>setContent\<close>.\<close>

definition pairing_content :: "string \<Rightarrow> string \<Rightarrow> bool \<Rightarrow> pairing_content" where
  "pairing_content code url infoOnly = (if \<not> infoOnly \<and> code \<noteq> [] \<and> url \<noteq> [] then LiveCode code url else Placeholder)"

record pairing_slot = "pairing_content window_slot" +
  pn_live :: bool

definition show_pairing :: "string \<Rightarrow> string \<Rightarrow> pairing_slot \<Rightarrow> pairing_slot" where
  "show_pairing code url w =
     (if ws_starting w then w
      else case ws_ui w of
        Some n \<Rightarrow> slot_stage n (refilled (pairing_content code url False)) (w\<lparr>pn_live := True\<rparr>)
      | None \<Rightarrow> slot_launch (pairing_content code url False) (w\<lparr>pn_live := True\<rparr>))"

definition show_pairing_info :: "pairing_slot \<Rightarrow> pairing_slot" where
  "show_pairing_info w = (if ws_starting w then w else if ws_ui w \<noteq> None then w else slot_launch (pairing_content [] [] True) w)"

definition close_pairing_if_live :: "pairing_slot \<Rightarrow> pairing_slot" where
  "close_pairing_if_live w =
     (let w1 = w\<lparr>pn_live := False\<rparr>
      in case ws_ui w of Some n \<Rightarrow> if pn_live w then slot_stage n closing w1 else w1 | None \<Rightarrow> w1)"

definition pairing_made :: "bool \<Rightarrow> nat \<Rightarrow> pairing_slot \<Rightarrow> pairing_slot" where
  "pairing_made ok n w = (if ok then slot_made True n w else slot_made False n (w\<lparr>pn_live := False\<rparr>))"

definition pairing_gone :: "nat \<Rightarrow> pairing_slot \<Rightarrow> pairing_slot" where
  "pairing_gone n w = slot_gone n (w\<lparr>pn_live := False\<rparr>)"

definition no_pairing :: pairing_slot where
  "no_pairing = \<lparr>ws_ui = None, ws_starting = False, ws_threads = [], ws_next = 0, pn_live = False\<rparr>"

inductive pairing_window_step :: "pairing_slot \<Rightarrow> pairing_slot \<Rightarrow> bool" where
  PairingAsked: "pairing_window_step w (show_pairing code url w)"
| PairingInfo: "pairing_window_step w (show_pairing_info w)"
| PairingConnected: "pairing_window_step w (close_pairing_if_live w)"
| PairingMade: "(n, Opening c) \<in> set (ws_threads w) \<Longrightarrow> pairing_window_step w (pairing_made ok n w)"
| PairingClosed: "(n, Open c) \<in> set (ws_threads w) \<Longrightarrow> pairing_window_step w (slot_stage n closing w)"
| PairingGone: "(n, Closing c) \<in> set (ws_threads w) \<Longrightarrow> pairing_window_step w (pairing_gone n w)"

inductive pairing_window_reach :: "pairing_slot \<Rightarrow> bool" where
  PairingNone: "pairing_window_reach no_pairing"
| PairingNext: "pairing_window_reach w \<Longrightarrow> pairing_window_step w w1 \<Longrightarrow> pairing_window_reach w1"

section \<open>At most one window\<close>

definition slot_inv :: "('c, 'm) window_slot_scheme \<Rightarrow> bool" where
  "slot_inv w \<longleftrightarrow>
     (case ws_threads w of
        [] \<Rightarrow> ws_ui w = None \<and> \<not> ws_starting w
      | [(n, Opening c)] \<Rightarrow> ws_ui w = None \<and> ws_starting w
      | [(n, _)] \<Rightarrow> ws_ui w = Some n \<and> \<not> ws_starting w
      | _ \<Rightarrow> False)"

lemma slot_cases:
  assumes "slot_inv w"
  obtains (free) "ws_threads w = []" "ws_ui w = None" "\<not> ws_starting w"
  | (making) n c where "ws_threads w = [(n, Opening c)]" "ws_ui w = None" "ws_starting w"
  | (showing) n c where "ws_threads w = [(n, Open c)]" "ws_ui w = Some n" "\<not> ws_starting w"
  | (ending) n c where "ws_threads w = [(n, Closing c)]" "ws_ui w = Some n" "\<not> ws_starting w"
  using assms by (auto simp: slot_inv_def split: list.splits prod.splits window_stage.splits)

lemma slot_ops_inv:
  assumes "slot_inv w"
  shows "ws_ui w = None \<Longrightarrow> \<not> ws_starting w \<Longrightarrow> slot_inv (slot_launch c w)"
    and "(n, Opening d) \<in> set (ws_threads w) \<Longrightarrow> slot_inv (slot_made ok n w)"
    and "slot_inv (slot_stage n closing w)" "slot_inv (slot_stage n (refilled c) w)"
    and "(n, Closing d) \<in> set (ws_threads w) \<Longrightarrow> slot_inv (slot_gone n w)"
  using assms
  by (cases rule: slot_cases;
      auto simp: slot_inv_def slot_launch_def slot_made_def slot_stage_def slot_gone_def slot_drop_def)+

lemma slot_inv_live [simp]: "slot_inv (w\<lparr>pn_live := b\<rparr>) = slot_inv w"
  by (simp add: slot_inv_def split: list.split prod.split window_stage.split)

lemma settings_window_inv: "settings_window_reach w \<Longrightarrow> slot_inv w"
proof (induction rule: settings_window_reach.induct)
  case (SettingsNext w w1)
  from SettingsNext.hyps(2) SettingsNext.IH show ?case
    by cases (auto simp: open_settings_def settings_made_def settings_gone_def intro: slot_ops_inv)
qed (simp add: slot_inv_def free_slot_def)

lemma show_pairing_inv: "slot_inv w \<Longrightarrow> slot_inv (show_pairing code url w)"
  using slot_ops_inv(1,4)[of "w\<lparr>pn_live := True\<rparr>"] by (auto simp: show_pairing_def split: option.split)

lemma close_pairing_inv: "slot_inv w \<Longrightarrow> slot_inv (close_pairing_if_live w)"
  using slot_ops_inv(3)[of "w\<lparr>pn_live := False\<rparr>"]
  by (auto simp: close_pairing_if_live_def Let_def slot_stage_def split: option.split)

lemma pairing_window_inv: "pairing_window_reach w \<Longrightarrow> slot_inv w"
proof (induction rule: pairing_window_reach.induct)
  case (PairingNext w w1)
  from PairingNext.hyps(2) PairingNext.IH show ?case
  proof cases
    case (PairingMade n c ok)
    then show ?thesis using slot_ops_inv(2)[of "if ok then w else w\<lparr>pn_live := False\<rparr>" n c ok] PairingNext.IH
      by (cases ok) (simp_all add: pairing_made_def)
  next
    case (PairingGone n c)
    then show ?thesis using slot_ops_inv(5)[of "w\<lparr>pn_live := False\<rparr>" n c] PairingNext.IH by (simp add: pairing_gone_def)
  qed (auto simp: show_pairing_info_def intro: slot_ops_inv show_pairing_inv close_pairing_inv)
qed (simp add: slot_inv_def no_pairing_def)

text \<open>
  There is never more than one settings window, and a request is answered by the one there is or opens one.
\<close>

theorem one_settings_window:
  assumes "settings_window_reach w"
  shows "length (ws_threads w) \<le> 1 \<and> length (ws_threads (open_settings w)) = 1 \<and>
    (ws_threads w = [] \<longleftrightarrow> ws_ui w = None \<and> \<not> ws_starting w)"
  using settings_window_inv[OF assms]
  by (cases rule: slot_cases) (auto simp: open_settings_def slot_launch_def)

text \<open>
  When a pairing code is shown.  There is at most one pairing window.  A code that arrives when there is none, or
  while one is open, is shown in it; but one that arrives while a window is still being made, the placeholder of the
  menu's entry say, changes nothing and is never shown, and one that arrives while a window is closing goes with
  it.
\<close>

theorem pairing_code_shown:
  assumes w: "pairing_window_reach w" and code: "code \<noteq> []" "url \<noteq> []"
  shows "let w1 = show_pairing code url w in
    (case ws_threads w of
       [] \<Rightarrow> ws_threads (pairing_made True (ws_next w) w1) = [(ws_next w, Open (LiveCode code url))] \<and> pn_live w1
     | [(n, Open c)] \<Rightarrow> ws_threads w1 = [(n, Open (LiveCode code url))] \<and> pn_live w1
     | [(n, Opening c)] \<Rightarrow> w1 = w \<and> ws_threads (pairing_made True n w1) = [(n, Open c)]
     | [(n, Closing c)] \<Rightarrow> ws_threads w1 = ws_threads w \<and> ws_threads (pairing_gone n w1) = []
     | _ \<Rightarrow> False)"
  using pairing_window_inv[OF w]
proof (cases rule: slot_cases)
  case free
  then show ?thesis using code
    by (simp add: show_pairing_def pairing_content_def slot_launch_def pairing_made_def slot_made_def slot_stage_def)
next
  case (making n c)
  then show ?thesis by (simp add: show_pairing_def pairing_made_def slot_made_def slot_stage_def)
next
  case (showing n c)
  then show ?thesis using code by (simp add: show_pairing_def pairing_content_def slot_stage_def)
next
  case (ending n c)
  then show ?thesis by (simp add: show_pairing_def pairing_gone_def slot_stage_def slot_gone_def slot_drop_def)
qed

text \<open>
  A receiver that connects closes the window its code was shown in, and no other; but if it connects while that window is
  still being made, the window stays, whatever connects later, until it is closed by hand or by its timer.
\<close>

theorem connecting_closes_code:
  assumes w: "pairing_window_reach w"
  shows "(ws_threads w = [(n, Open c)] \<longrightarrow> ws_threads (close_pairing_if_live w) = [(n, if pn_live w then Closing c else Open c)]) \<and>
    (ws_threads w = [(n, Opening c)] \<longrightarrow>
      (let w1 = pairing_made True n (close_pairing_if_live w) in ws_threads w1 = [(n, Open c)] \<and> ws_threads (close_pairing_if_live w1) = [(n, Open c)]))"
  using pairing_window_inv[OF w]
  by (cases rule: slot_cases) (auto simp: close_pairing_if_live_def Let_def slot_stage_def pairing_made_def slot_made_def)

section \<open>Concrete windows\<close>

lemma placeholder_reached: "pairing_window_reach (show_pairing_info no_pairing)"
  by (rule PairingNext[OF PairingNone PairingInfo])

theorem one_settings_window_witness: "length (ws_threads (open_settings (open_settings free_slot))) = 1"
  using one_settings_window[OF SettingsNext[OF SettingsFree SettingsAsked]] by blast

theorem pairing_code_shown_witness:
  "show_pairing ''123456'' ''remoteau://pair'' (show_pairing_info no_pairing) = show_pairing_info no_pairing \<and>
   ws_threads (pairing_made True 0 (show_pairing_info no_pairing)) = [(0, Open Placeholder)]"
proof -
  have t: "ws_threads (show_pairing_info no_pairing) = [(0, Opening Placeholder)]"
    by (simp add: show_pairing_info_def no_pairing_def slot_launch_def pairing_content_def)
  have n: "''123456'' \<noteq> ([] :: string)" "''remoteau://pair'' \<noteq> ([] :: string)" by simp_all
  have "show_pairing ''123456'' ''remoteau://pair'' (show_pairing_info no_pairing) = show_pairing_info no_pairing \<and>
      ws_threads (pairing_made True 0 (show_pairing ''123456'' ''remoteau://pair'' (show_pairing_info no_pairing))) = [(0, Open Placeholder)]"
    using pairing_code_shown[OF placeholder_reached n] unfolding t Let_def list.case prod.case window_stage.case .
  then show ?thesis by metis
qed

theorem connecting_closes_code_witness:
  "let w = show_pairing ''123456'' ''remoteau://pair'' no_pairing; w1 = pairing_made True 0 (close_pairing_if_live w)
   in ws_threads (close_pairing_if_live w1) = [(0, Open (LiveCode ''123456'' ''remoteau://pair''))]"
proof -
  have r: "pairing_window_reach (show_pairing ''123456'' ''remoteau://pair'' no_pairing)" by (rule PairingNext[OF PairingNone PairingAsked])
  have t: "ws_threads (show_pairing ''123456'' ''remoteau://pair'' no_pairing) = [(0, Opening (LiveCode ''123456'' ''remoteau://pair''))]"
    by (simp add: show_pairing_def no_pairing_def slot_launch_def pairing_content_def)
  show ?thesis using connecting_closes_code[OF r, of 0 "LiveCode ''123456'' ''remoteau://pair''"] t by (simp add: Let_def)
qed

end
