(* ===== verification/CommandLine.thy ===== *)
theory CommandLine
  imports Finder Devices HostCapture
begin

text \<open>
  The command line, \<^verbatim>\<open>engine/cmd/remote-au/main.go\<close> and \<^verbatim>\<open>serve.go\<close>, with the profiles of
  \<^verbatim>\<open>engine/internal/profiles/profiles.go\<close> and the levels of \<^verbatim>\<open>engine/internal/logging/logging.go\<close>: the
  flags of each command, what they are checked for, which discovered receiver a sender takes, and the
  calls a command makes with what it closes on each way out.  Go's packages \<^verbatim>\<open>flag\<close>, \<^verbatim>\<open>strconv\<close> and
  \<^verbatim>\<open>net\<close> are modelled as far as the commands use them; durations are parsed by the parameter \<open>dur\<close>.
\<close>

section \<open>Numbers with a base\<close>

text \<open>\<^verbatim>\<open>strconv.ParseInt(s, 0, 64)\<close>: an optional sign, an optional prefix of the base, digits and single underscores.\<close>

definition ascii_lower :: "byte \<Rightarrow> byte" where
  "ascii_lower c = (if 65 \<le> c \<and> c \<le> 90 then c + 32 else c)"

definition strip_sign :: "bytes \<Rightarrow> bytes" where
  "strip_sign s = (case s of c # cs \<Rightarrow> if c = 45 \<or> c = 43 then cs else s | [] \<Rightarrow> [])"

definition base_prefix :: "bytes \<Rightarrow> (nat \<times> bytes) option" where
  "base_prefix s =
     (case s of
        a # b # cs \<Rightarrow>
          if a \<noteq> 48 then None
          else if ascii_lower b = 98 then Some (2, cs) else if ascii_lower b = 111 then Some (8, cs)
          else if ascii_lower b = 120 then Some (16, cs) else None
      | _ \<Rightarrow> None)"

text \<open>The last character seen: the start, a digit, an underscore, anything else.\<close>

datatype seen = SeenStart | SeenDigit | SeenUnderscore | SeenOther

fun underscores_ok :: "bool \<Rightarrow> seen \<Rightarrow> bytes \<Rightarrow> bool" where
  "underscores_ok hex i [] \<longleftrightarrow> i \<noteq> SeenUnderscore"
| "underscores_ok hex i (c # cs) \<longleftrightarrow>
     (if 48 \<le> c \<and> c \<le> 57 \<or> hex \<and> 97 \<le> ascii_lower c \<and> ascii_lower c \<le> 102 then underscores_ok hex SeenDigit cs
      else if c = 95 then i = SeenDigit \<and> underscores_ok hex SeenUnderscore cs
      else i \<noteq> SeenUnderscore \<and> underscores_ok hex SeenOther cs)"

definition underscore_ok :: "bytes \<Rightarrow> bool" where
  "underscore_ok s =
     (case base_prefix (strip_sign s) of
        Some (b, cs) \<Rightarrow> underscores_ok (b = 16) SeenDigit cs
      | None \<Rightarrow> underscores_ok False SeenStart (strip_sign s))"

definition digit_value :: "byte \<Rightarrow> nat option" where
  "digit_value c = (if 48 \<le> c \<and> c \<le> 57 then Some (unat c - 48)
     else if 97 \<le> ascii_lower c \<and> ascii_lower c \<le> 122 then Some (unat (ascii_lower c) - 87) else None)"

fun digits_in_base :: "nat \<Rightarrow> nat \<Rightarrow> bytes \<Rightarrow> nat option" where
  "digits_in_base b acc [] = Some acc"
| "digits_in_base b acc (c # cs) =
     (if c = 95 then digits_in_base b acc cs
      else case digit_value c of
        None \<Rightarrow> None
      | Some d \<Rightarrow> if b \<le> d then None else digits_in_base b (acc * b + d) cs)"

definition parse_int_auto :: "bytes \<Rightarrow> int option" where
  "parse_int_auto s0 =
     (let s = strip_sign s0; neg = (s0 \<noteq> [] \<and> hd s0 = 45)
      in if s = [] then None
         else case (case base_prefix s of
                      Some (b, cs) \<Rightarrow> if cs = [] then digits_in_base 8 0 (tl s) else digits_in_base b 0 cs
                    | None \<Rightarrow> if hd s = 48 then digits_in_base 8 0 (tl s) else digits_in_base 10 0 s) of
           None \<Rightarrow> None
         | Some n \<Rightarrow>
             if 95 \<in> set s \<and> \<not> underscore_ok s then None
             else if neg then if n \<le> 2 ^ 63 then Some (- int n) else None
             else if n < 2 ^ 63 then Some (int n) else None)"

section \<open>Flags\<close>

datatype flag_kind = IntFlag | BoolFlag | TextFlag | DurationFlag

datatype flag_value = IntValue int | BoolValue bool | TextValue bytes | DurationValue int

datatype flag_error =
    FlagSyntax bytes
  | FlagUnknown bytes
  | FlagHelp
  | FlagBadValue bytes bytes
  | FlagNeedsValue bytes

type_synonym flag_set = "(bytes \<times> flag_kind) list"
type_synonym flag_values = "(bytes \<times> flag_value) list"

definition parse_bool :: "bytes \<Rightarrow> bool option" where
  "parse_bool s =
     (if s \<in> bytes_of_str ` {''1'', ''t'', ''T'', ''TRUE'', ''true'', ''True''} then Some True
      else if s \<in> bytes_of_str ` {''0'', ''f'', ''F'', ''FALSE'', ''false'', ''False''} then Some False else None)"

definition flag_value_of :: "(bytes \<Rightarrow> int option) \<Rightarrow> flag_kind \<Rightarrow> bytes \<Rightarrow> flag_value option" where
  "flag_value_of dur k s =
     (case k of
        IntFlag \<Rightarrow> map_option IntValue (parse_int_auto s)
      | BoolFlag \<Rightarrow> map_option BoolValue (parse_bool s)
      | TextFlag \<Rightarrow> Some (TextValue s)
      | DurationFlag \<Rightarrow> map_option DurationValue (dur s))"

text \<open>The name and, after an equals sign that is not the first character, the value.\<close>

fun split_equals :: "bytes \<Rightarrow> bytes \<times> bytes option" where
  "split_equals [] = ([], None)"
| "split_equals (c # cs) =
     (case cs of
        [] \<Rightarrow> ([c], None)
      | d # ds \<Rightarrow> if d = 61 then ([c], Some ds) else (case split_equals cs of (n, v) \<Rightarrow> (c # n, v)))"

text \<open>The text after the dashes, if the argument is a flag; \<open>None\<close> ends the flags and says whether the argument is dropped.\<close>

definition flag_text :: "bytes \<Rightarrow> bool + bytes" where
  "flag_text s =
     (case s of
        a # b # cs \<Rightarrow> if a \<noteq> 45 then Inl False else if b = 45 then if cs = [] then Inl True else Inr cs else Inr (b # cs)
      | _ \<Rightarrow> Inl False)"

fun parse_flags :: "(bytes \<Rightarrow> int option) \<Rightarrow> flag_set \<Rightarrow> flag_values \<Rightarrow> bytes list \<Rightarrow> flag_error + flag_values \<times> bytes list" where
  "parse_flags dur fs vs [] = Inr (vs, [])"
| "parse_flags dur fs vs (s # args) =
     (case flag_text s of
        Inl dropped \<Rightarrow> Inr (vs, if dropped then args else s # args)
      | Inr body \<Rightarrow>
          if hd body = 45 \<or> hd body = 61 then Inl (FlagSyntax s)
          else case split_equals body of (name, given) \<Rightarrow>
            (case map_of fs name of
               None \<Rightarrow> if name = bytes_of_str ''help'' \<or> name = bytes_of_str ''h'' then Inl FlagHelp else Inl (FlagUnknown name)
             | Some k \<Rightarrow>
                 if k = BoolFlag then
                   (case flag_value_of dur k (case given of None \<Rightarrow> bytes_of_str ''true'' | Some v \<Rightarrow> v) of
                      None \<Rightarrow> Inl (FlagBadValue name (case given of None \<Rightarrow> [] | Some v \<Rightarrow> v))
                    | Some v \<Rightarrow> parse_flags dur fs (AList.update name v vs) args)
                 else (case given of
                   Some v \<Rightarrow> (case flag_value_of dur k v of None \<Rightarrow> Inl (FlagBadValue name v)
                      | Some x \<Rightarrow> parse_flags dur fs (AList.update name x vs) args)
                 | None \<Rightarrow>
                     (case args of
                        [] \<Rightarrow> Inl (FlagNeedsValue name)
                      | v # args1 \<Rightarrow>
                          (case flag_value_of dur k v of None \<Rightarrow> Inl (FlagBadValue name v)
                           | Some x \<Rightarrow> parse_flags dur fs (AList.update name x vs) args1)))))"

text \<open>The variables the flags write to: the default unless the flag was given.\<close>

definition int_flag :: "string \<Rightarrow> int \<Rightarrow> flag_values \<Rightarrow> int" where
  "int_flag n d vs = (case map_of vs (bytes_of_str n) of Some (IntValue i) \<Rightarrow> i | _ \<Rightarrow> d)"

definition bool_flag :: "string \<Rightarrow> flag_values \<Rightarrow> bool" where
  "bool_flag n vs = (case map_of vs (bytes_of_str n) of Some (BoolValue b) \<Rightarrow> b | _ \<Rightarrow> False)"

definition text_flag :: "string \<Rightarrow> bytes \<Rightarrow> flag_values \<Rightarrow> bytes" where
  "text_flag n d vs = (case map_of vs (bytes_of_str n) of Some (TextValue s) \<Rightarrow> s | _ \<Rightarrow> d)"

definition duration_flag :: "string \<Rightarrow> int \<Rightarrow> flag_values \<Rightarrow> int" where
  "duration_flag n d vs = (case map_of vs (bytes_of_str n) of Some (DurationValue i) \<Rightarrow> i | _ \<Rightarrow> d)"

definition flag_was_set :: "string \<Rightarrow> flag_values \<Rightarrow> bool" where
  "flag_was_set n vs \<longleftrightarrow> map_of vs (bytes_of_str n) \<noteq> None"

definition flags_of :: "(string \<times> flag_kind) list \<Rightarrow> flag_set" where
  "flags_of fs = map (\<lambda>(n, k). (bytes_of_str n, k)) fs"

section \<open>Profiles and log levels\<close>

record profile =
  pl_name :: bytes
  pl_preset :: string
  pl_target_ms :: int
  pl_prefer_opus :: bool
  pl_bitrate_kbps :: int
  pl_fec :: bool
  pl_dtx :: bool
  pl_relay :: bool

definition default_profiles :: "profile list" where
  "default_profiles =
     [\<lparr>pl_name = bytes_of_str ''Home / Lossless'', pl_preset = ''lossless'', pl_target_ms = 25, pl_prefer_opus = False,
        pl_bitrate_kbps = 128, pl_fec = False, pl_dtx = False, pl_relay = False\<rparr>,
      \<lparr>pl_name = bytes_of_str ''Gaming / Lowest Latency'', pl_preset = ''lowest'', pl_target_ms = 10, pl_prefer_opus = False,
        pl_bitrate_kbps = 128, pl_fec = False, pl_dtx = False, pl_relay = False\<rparr>,
      \<lparr>pl_name = bytes_of_str ''Weak Wi-Fi / Robust'', pl_preset = ''robust'', pl_target_ms = 60, pl_prefer_opus = True,
        pl_bitrate_kbps = 96, pl_fec = True, pl_dtx = True, pl_relay = False\<rparr>,
      \<lparr>pl_name = bytes_of_str ''Remote / Efficient'', pl_preset = ''robust'', pl_target_ms = 90, pl_prefer_opus = True,
        pl_bitrate_kbps = 64, pl_fec = True, pl_dtx = True, pl_relay = True\<rparr>]"

text \<open>What \<^verbatim>\<open>profiles.json\<close> is: not there, not readable, not JSON of profiles, or a list of them.\<close>

datatype profiles_file = NoProfiles | LockedProfiles | GarbledProfiles | ProfilesText "profile list"

definition list_profiles :: "profiles_file \<Rightarrow> profile list option" where
  "list_profiles f =
     (case f of
        LockedProfiles \<Rightarrow> None
      | ProfilesText ps \<Rightarrow> Some (if ps = [] then default_profiles else ps)
      | _ \<Rightarrow> Some default_profiles)"

definition save_profiles :: "bool \<Rightarrow> profile list \<Rightarrow> profiles_file \<Rightarrow> bool \<times> profiles_file" where
  "save_profiles written ps f = (if written then (True, ProfilesText ps) else (False, f))"

fun equal_fold :: "bytes \<Rightarrow> bytes \<Rightarrow> bool" where
  "equal_fold [] [] \<longleftrightarrow> True"
| "equal_fold (a # as) (b # bs) \<longleftrightarrow> ascii_lower a = ascii_lower b \<and> equal_fold as bs"
| "equal_fold _ _ \<longleftrightarrow> False"

definition profile_by_name :: "profile list \<Rightarrow> bytes \<Rightarrow> profile option" where
  "profile_by_name ps name = find (\<lambda>p. equal_fold (pl_name p) name) ps"

datatype log_level = LogDebug | LogInfo | LogWarn | LogError

definition parse_level :: "(bytes \<Rightarrow> bytes) \<Rightarrow> bytes \<Rightarrow> log_level option" where
  "parse_level lower name =
     (let n = lower name
      in if n = [] \<or> n = bytes_of_str ''info'' then Some LogInfo else if n = bytes_of_str ''debug'' then Some LogDebug
         else if n = bytes_of_str ''warn'' \<or> n = bytes_of_str ''warning'' then Some LogWarn
         else if n = bytes_of_str ''error'' then Some LogError else None)"

definition effective_level :: "bytes \<Rightarrow> bool \<Rightarrow> bool \<Rightarrow> bytes" where
  "effective_level level verbose explicit = (if verbose \<and> \<not> explicit then bytes_of_str ''debug'' else level)"

datatype log_error = BadLevel bytes | BadLogFormat bytes

text \<open>The level, and whether lines are JSON.\<close>

definition new_logger :: "(bytes \<Rightarrow> bytes) \<Rightarrow> bytes \<Rightarrow> bytes \<Rightarrow> log_error + log_level \<times> bool" where
  "new_logger lower level format =
     (case parse_level lower level of
        None \<Rightarrow> Inl (BadLevel level)
      | Some l \<Rightarrow>
          if lower format = [] \<or> lower format = bytes_of_str ''text'' then Inr (l, False)
          else if lower format = bytes_of_str ''json'' then Inr (l, True) else Inl (BadLogFormat format))"

section \<open>Checks\<close>

definition parse_capture_source :: "bytes \<Rightarrow> source option" where
  "parse_capture_source name =
     (if name = bytes_of_str ''mic'' \<or> name = bytes_of_str ''microphone'' then Some SourceMicrophone
      else if name = bytes_of_str ''loopback'' then Some SourceLoopback
      else if name = bytes_of_str ''testtone'' \<or> name = bytes_of_str ''test-tone'' then Some SourceTestTone else None)"

definition parse_sender_transport :: "(bytes \<Rightarrow> bytes) \<Rightarrow> bytes \<Rightarrow> string option" where
  "parse_sender_transport lower name =
     (let n = lower name in if n = [] \<or> n = bytes_of_str ''udp'' then Some ''udp'' else if n = bytes_of_str ''tcp'' then Some ''tcp'' else None)"

definition device_selector_requests_selection :: "bytes \<Rightarrow> bool" where
  "device_selector_requests_selection selector =
     (let s = trim_space selector in if s = [] then False else case atoi s of None \<Rightarrow> True | Some i \<Rightarrow> 0 \<le> i)"

definition index_of :: "byte \<Rightarrow> bytes \<Rightarrow> nat option" where
  "index_of c s = (if c \<in> set s then Some (length (takeWhile (\<lambda>x. x \<noteq> c) s)) else None)"

definition last_index_of :: "byte \<Rightarrow> bytes \<Rightarrow> nat option" where
  "last_index_of c s = map_option (\<lambda>i. length s - 1 - i) (index_of c (rev s))"

text \<open>\<^verbatim>\<open>net.SplitHostPort\<close>; why it fails is not distinguished.  91 and 93 are the brackets, 58 the colon.\<close>

definition split_host_port :: "bytes \<Rightarrow> (bytes \<times> bytes) option" where
  "split_host_port hp =
     (case last_index_of 58 hp of
        None \<Rightarrow> None
      | Some i \<Rightarrow>
          (case (if hd hp = 91 then
                   (case index_of 93 hp of
                      None \<Rightarrow> None
                    | Some e \<Rightarrow> if e + 1 = i then Some (take (e - 1) (drop 1 hp), 1, e + 1) else None)
                 else if 58 \<in> set (take i hp) then None else Some (take i hp, 0, 0)) of
             None \<Rightarrow> None
           | Some (host, j, k) \<Rightarrow> if 91 \<in> set (drop j hp) \<or> 93 \<in> set (drop k hp) then None else Some (host, drop (i + 1) hp)))"

datatype address_error = NotHostPort | HostMissing | PortOutOfBounds

definition validate_receiver_address :: "bytes \<Rightarrow> address_error option" where
  "validate_receiver_address addr =
     (case split_host_port addr of
        None \<Rightarrow> Some NotHostPort
      | Some (host, port) \<Rightarrow>
          if host = [] then Some HostMissing
          else case atoi port of None \<Rightarrow> Some PortOutOfBounds | Some n \<Rightarrow> if n < 1 \<or> n > 65535 then Some PortOutOfBounds else None)"

definition parse_pid_list :: "bytes \<Rightarrow> u32 list" where
  "parse_pid_list s0 =
     (let s = trim_space s0
      in if s = [] then []
         else List.map_filter (\<lambda>part. case parse_uint 32 (trim_space part) of
                 Some n \<Rightarrow> if n = 0 then None else Some (word_of_nat n) | None \<Rightarrow> None) (split_comma s))"

definition discovery_ports_for_flag :: "int \<Rightarrow> int list" where
  "discovery_ports_for_flag port = (if port = 0 then DefaultPorts else [port])"

definition discovery_port_label :: "int list \<Rightarrow> string" where
  "discovery_port_label ports = (case ports of [] \<Rightarrow> [] | p # ps \<Rightarrow> '':'' @ show_int p @ concat (map (\<lambda>q. '', :'' @ show_int q) ps))"

definition advertised_discovery_addr :: "addr \<Rightarrow> addr" where
  "advertised_discovery_addr a =
     (if a = NoAddr \<or> is_unspecified a then V4 0 0 0 0 else if is4 (unmap a) then unmap a else V4 0 0 0 0)"

definition is_loopback_only :: "addr \<Rightarrow> bool" where
  "is_loopback_only a \<longleftrightarrow> is_loopback a"

definition default_hostname :: "bytes option \<Rightarrow> bytes" where
  "default_hostname h = (case h of Some n \<Rightarrow> if n = [] then bytes_of_str ''remote-au'' else n | None \<Rightarrow> bytes_of_str ''remote-au'')"

definition short_revision :: "bytes \<Rightarrow> bytes" where
  "short_revision r = (if length r \<le> 12 then r else take 12 r)"

text \<open>The build information is the module's version and the settings.\<close>

definition resolve_version :: "bytes \<Rightarrow> (bytes \<times> (bytes \<times> bytes) list) option \<Rightarrow> bytes" where
  "resolve_version version info =
     (if version \<noteq> [] \<and> version \<noteq> bytes_of_str ''dev'' then version
      else case info of
        None \<Rightarrow> bytes_of_str ''dev''
      | Some (m, settings) \<Rightarrow>
          if m \<noteq> [] \<and> m \<noteq> bytes_of_str ''(devel)'' then m
          else case find (\<lambda>(k, v). k = bytes_of_str ''vcs.revision'' \<and> v \<noteq> []) settings of
            Some (k, v) \<Rightarrow> bytes_of_str ''dev+'' @ short_revision v
          | None \<Rightarrow> bytes_of_str ''dev'')"

section \<open>Which receiver\<close>

datatype select_error = NoReceivers | PeerNotMatched | PeerNotAmong | PeerAmbiguous | ManyReceivers

definition select_discovered_peer :: "peer list \<Rightarrow> bytes \<Rightarrow> select_error + peer" where
  "select_discovered_peer peers name =
     (if peers = [] then Inl NoReceivers
      else if name \<noteq> [] then
        (case filter (\<lambda>p. pe_name p = name) peers of
           [p] \<Rightarrow> Inr p
         | [] \<Rightarrow> if length peers = 1 then Inl PeerNotMatched else Inl PeerNotAmong
         | _ \<Rightarrow> Inl PeerAmbiguous)
      else (case peers of [p] \<Rightarrow> Inr p | _ \<Rightarrow> Inl ManyReceivers))"

text \<open>What is printed: the peer taken, the list of peers, or nothing.\<close>

datatype peer_report = ReportChosen peer | ReportPeers "peer list" | ReportNothing

definition choose_discovered_peer :: "peer list \<Rightarrow> bytes \<Rightarrow> (select_error + string) \<times> peer_report" where
  "choose_discovered_peer peers name =
     (case select_discovered_peer peers name of
        Inl e \<Rightarrow> (Inl e, if peers \<noteq> [] \<and> (name \<noteq> [] \<or> length peers > 1) then ReportPeers peers else ReportNothing)
      | Inr p \<Rightarrow> (Inr (pe_addr p), ReportChosen p))"

datatype resolve_error = ResolveFind find_error | ResolveSelect select_error

definition discovered_peer ::
  "(addr \<Rightarrow> string) \<Rightarrow> int list \<Rightarrow> int \<Rightarrow> bytes \<Rightarrow> bytes \<Rightarrow> find_event list \<Rightarrow> resolve_error + string" where
  "discovered_peer str6 ports timeout sender name es =
     (case find_ports str6 ports timeout sender es of
        Inl e \<Rightarrow> Inl (ResolveFind e)
      | Inr peers \<Rightarrow> map_sum ResolveSelect id (fst (choose_discovered_peer peers name)))"

section \<open>Commands\<close>

datatype cli_error =
    CliFlags flag_error
  | CliLog log_error
  | CliNoCommand
  | CliPositional "bytes list"
  | CliUnknownCommand bytes
  | CliFormat format_error
  | CliBackend backend_error
  | CliSource bytes
  | CliTransport bytes
  | CliDiscoveryPort int
  | CliTimeout int
  | CliAddress address_error
  | CliStore bytes
  | CliNoHost
  | CliNoProfile bytes

record recv_args =
  rv_addr :: bytes
  rv_device :: bytes
  rv_discovery_port :: int
  rv_name :: bytes
  rv_no_discovery :: bool

text \<open>A fixed address, or the ports, the timeout and the name to search for.\<close>

datatype send_target = FixedPeer bytes | SearchPeer "int list" int bytes

record send_args =
  sd_target :: send_target
  sd_name :: bytes
  sd_source :: source
  sd_transport :: string
  sd_device :: "bytes option"

record serve_args =
  sr_addr :: bytes
  sr_source :: source
  sr_device :: bytes
  sr_name :: bytes
  sr_record_dir :: bytes
  sr_relay :: bytes
  sr_data_dir :: bytes
  sr_tone :: tone_mode
  sr_apps :: "u32 list"
  sr_exclude :: "u32 list"

record recv2_args =
  r2_host :: bytes
  r2_name :: bytes
  r2_device :: bytes
  r2_data_dir :: bytes

datatype command =
    CmdVersion
  | CmdDevices bool
  | CmdSelftest format
  | CmdRecv format recv_args
  | CmdSend format send_args
  | CmdServe format serve_args
  | CmdRecv2 format recv2_args
  | CmdRelay bytes

text \<open>
  What a command line is read with: \<^verbatim>\<open>strings.ToLower\<close>, the parser of durations, the name of the machine, what
  the profile store holds and whether the trust store opens in a directory.
\<close>

record cli_env =
  cl_lower :: "bytes \<Rightarrow> bytes"
  cl_duration :: "bytes \<Rightarrow> int option"
  cl_hostname :: "bytes option"
  cl_profiles :: profiles_file
  cl_store_opens :: "bytes \<Rightarrow> bool"
  cl_goos :: bytes

definition selected_device :: "bytes \<Rightarrow> bytes option" where
  "selected_device s = (if device_selector_requests_selection s then Some s else None)"

text \<open>Flags that allow no positional arguments.\<close>

definition parse_command_flags :: "cli_env \<Rightarrow> (string \<times> flag_kind) list \<Rightarrow> bytes list \<Rightarrow> cli_error + flag_values" where
  "parse_command_flags E fs args =
     (case parse_flags (cl_duration E) (flags_of fs) [] args of
        Inl e \<Rightarrow> Inl (CliFlags e)
      | Inr (vs, rest) \<Rightarrow> if rest \<noteq> [] then Inl (CliPositional rest) else Inr vs)"

definition read_devices :: "cli_env \<Rightarrow> bytes list \<Rightarrow> cli_error + command" where
  "read_devices E args =
     (case parse_command_flags E [(''json'', BoolFlag)] args of Inl e \<Rightarrow> Inl e | Inr vs \<Rightarrow> Inr (CmdDevices (bool_flag ''json'' vs)))"

definition read_selftest :: "format \<Rightarrow> bytes list \<Rightarrow> cli_error + command" where
  "read_selftest fmt args = (if args \<noteq> [] then Inl (CliPositional args) else Inr (CmdSelftest fmt))"

definition read_recv :: "cli_env \<Rightarrow> format \<Rightarrow> bytes list \<Rightarrow> cli_error + command" where
  "read_recv E fmt args =
     (case parse_command_flags E [(''addr'', TextFlag), (''device'', TextFlag), (''discovery-port'', IntFlag), (''name'', TextFlag),
          (''no-discovery'', BoolFlag)] args of
        Inl e \<Rightarrow> Inl e
      | Inr vs \<Rightarrow> Inr (CmdRecv fmt
          \<lparr>rv_addr = text_flag ''addr'' (bytes_of_str '':47000'') vs, rv_device = text_flag ''device'' [] vs,
            rv_discovery_port = int_flag ''discovery-port'' 0 vs, rv_name = text_flag ''name'' (default_hostname (cl_hostname E)) vs,
            rv_no_discovery = bool_flag ''no-discovery'' vs\<rparr>))"

definition read_target :: "bytes \<Rightarrow> bytes \<Rightarrow> int \<Rightarrow> int \<Rightarrow> cli_error + send_target" where
  "read_target to name timeout port =
     (if to = [] then
        if port < 0 \<or> port > 65535 then Inl (CliDiscoveryPort port)
        else if timeout \<le> 0 then Inl (CliTimeout timeout)
        else Inr (SearchPeer (discovery_ports_for_flag port) timeout name)
      else case validate_receiver_address to of Some e \<Rightarrow> Inl (CliAddress e) | None \<Rightarrow> Inr (FixedPeer to))"

definition read_send :: "cli_env \<Rightarrow> format \<Rightarrow> bytes list \<Rightarrow> cli_error + command" where
  "read_send E fmt args =
     (case parse_command_flags E [(''to'', TextFlag), (''peer'', TextFlag), (''discover-timeout'', DurationFlag), (''discovery-port'', IntFlag),
          (''name'', TextFlag), (''source'', TextFlag), (''transport'', TextFlag), (''device'', TextFlag)] args of
        Inl e \<Rightarrow> Inl e
      | Inr vs \<Rightarrow>
          let sourceName = text_flag ''source'' (bytes_of_str ''mic'') vs; transportName = text_flag ''transport'' (bytes_of_str ''udp'') vs
          in (case parse_capture_source sourceName of
                None \<Rightarrow> Inl (CliSource sourceName)
              | Some src \<Rightarrow>
                  (case parse_sender_transport (cl_lower E) transportName of
                     None \<Rightarrow> Inl (CliTransport transportName)
                   | Some tr \<Rightarrow>
                       (case read_target (text_flag ''to'' [] vs) (text_flag ''peer'' [] vs)
                            (duration_flag ''discover-timeout'' 1500000000 vs) (int_flag ''discovery-port'' 0 vs) of
                          Inl e \<Rightarrow> Inl e
                        | Inr target \<Rightarrow> Inr (CmdSend fmt
                            \<lparr>sd_target = target, sd_name = text_flag ''name'' (default_hostname (cl_hostname E)) vs, sd_source = src,
                              sd_transport = tr, sd_device = selected_device (text_flag ''device'' [] vs)\<rparr>)))))"

text \<open>The profile is looked up and logged; nothing of it is used.\<close>

definition profile_known :: "profiles_file \<Rightarrow> bytes \<Rightarrow> bool" where
  "profile_known f name \<longleftrightarrow>
     name = [] \<or> (case list_profiles f of None \<Rightarrow> True | Some ps \<Rightarrow> profile_by_name ps name \<noteq> None)"

definition read_serve :: "cli_env \<Rightarrow> format \<Rightarrow> bytes list \<Rightarrow> cli_error + command" where
  "read_serve E fmt args =
     (case parse_command_flags E [(''addr'', TextFlag), (''source'', TextFlag), (''device'', TextFlag), (''name'', TextFlag),
          (''record'', TextFlag), (''profile'', TextFlag), (''relay'', TextFlag), (''data-dir'', TextFlag), (''tone-mode'', TextFlag),
          (''app-pid'', TextFlag), (''exclude-pid'', TextFlag)] args of
        Inl e \<Rightarrow> Inl e
      | Inr vs \<Rightarrow>
          let sourceName = text_flag ''source'' (bytes_of_str ''loopback'') vs; tone = cl_lower E (text_flag ''tone-mode'' (bytes_of_str ''sine'') vs)
          in (case parse_capture_source sourceName of
                None \<Rightarrow> Inl (CliSource sourceName)
              | Some src \<Rightarrow>
                  if \<not> cl_store_opens E (text_flag ''data-dir'' [] vs) then Inl (CliStore (text_flag ''data-dir'' [] vs))
                  else if \<not> profile_known (cl_profiles E) (text_flag ''profile'' [] vs) then Inl (CliNoProfile (text_flag ''profile'' [] vs))
                  else Inr (CmdServe fmt
                    \<lparr>sr_addr = text_flag ''addr'' (bytes_of_str '':47010'') vs, sr_source = src, sr_device = text_flag ''device'' [] vs,
                      sr_name = text_flag ''name'' (default_hostname (cl_hostname E)) vs, sr_record_dir = text_flag ''record'' [] vs,
                      sr_relay = text_flag ''relay'' [] vs, sr_data_dir = text_flag ''data-dir'' [] vs,
                      sr_tone = (if src = SourceTestTone \<and> (tone = bytes_of_str ''click'' \<or> tone = bytes_of_str ''impulse'') then ToneClick else ToneSine),
                      sr_apps = parse_pid_list (text_flag ''app-pid'' [] vs),
                      sr_exclude = parse_pid_list (text_flag ''exclude-pid'' [] vs)\<rparr>)))"

definition read_recv2 :: "cli_env \<Rightarrow> format \<Rightarrow> bytes list \<Rightarrow> cli_error + command" where
  "read_recv2 E fmt args =
     (case parse_command_flags E [(''to'', TextFlag), (''name'', TextFlag), (''device'', TextFlag), (''data-dir'', TextFlag)] args of
        Inl e \<Rightarrow> Inl e
      | Inr vs \<Rightarrow>
          if text_flag ''to'' [] vs = [] then Inl CliNoHost
          else if \<not> cl_store_opens E (text_flag ''data-dir'' [] vs) then Inl (CliStore (text_flag ''data-dir'' [] vs))
          else Inr (CmdRecv2 fmt \<lparr>r2_host = text_flag ''to'' [] vs, r2_name = text_flag ''name'' (default_hostname (cl_hostname E)) vs,
                 r2_device = text_flag ''device'' [] vs, r2_data_dir = text_flag ''data-dir'' [] vs\<rparr>))"

definition read_relay :: "cli_env \<Rightarrow> bytes list \<Rightarrow> cli_error + command" where
  "read_relay E args =
     (case parse_command_flags E [(''addr'', TextFlag), (''log-level'', TextFlag)] args of
        Inl e \<Rightarrow> Inl e | Inr vs \<Rightarrow> Inr (CmdRelay (text_flag ''addr'' (bytes_of_str '':47020'') vs)))"

definition global_flags :: "(string \<times> flag_kind) list" where
  "global_flags = [(''rate'', IntFlag), (''channels'', IntFlag), (''frame-ms'', IntFlag), (''verbose'', BoolFlag), (''version'', BoolFlag),
     (''log-level'', TextFlag), (''log-format'', TextFlag), (''backend'', TextFlag)]"

text \<open>\<^verbatim>\<open>run\<close> up to the command: \<open>reg\<close> is the registry of backends; the log's level and format come first.\<close>

definition run_command_line ::
  "cli_env \<Rightarrow> 'b registry \<Rightarrow> bytes list \<Rightarrow> cli_error + command \<times> (log_level \<times> bool) \<times> 'b option" where
  "run_command_line E reg args =
     (case parse_flags (cl_duration E) (flags_of global_flags) [] args of
        Inl e \<Rightarrow> Inl (CliFlags e)
      | Inr (vs, rest) \<Rightarrow>
          (case new_logger (cl_lower E)
              (effective_level (text_flag ''log-level'' (bytes_of_str ''info'') vs) (bool_flag ''verbose'' vs) (flag_was_set ''log-level'' vs))
              (text_flag ''log-format'' (bytes_of_str ''text'') vs) of
             Inl e \<Rightarrow> Inl (CliLog e)
           | Inr log \<Rightarrow>
               if bool_flag ''version'' vs then Inr (CmdVersion, log, None)
               else (case rest of
                 [] \<Rightarrow> Inl CliNoCommand
               | name # more_args \<Rightarrow>
                   if name = bytes_of_str ''version'' then if more_args \<noteq> [] then Inl (CliPositional more_args) else Inr (CmdVersion, log, None)
                   else (case new_format (int_flag ''rate'' 48000 vs) (int_flag ''channels'' 2 vs) (int_flag ''frame-ms'' 10 vs) of
                     Inl e \<Rightarrow> Inl (CliFormat e)
                   | Inr fmt \<Rightarrow>
                       (case open_backend (cl_goos E) (text_flag ''backend'' (default_backend_name (cl_goos E) reg) vs) reg of
                          Inl e \<Rightarrow> Inl (CliBackend e)
                        | Inr b \<Rightarrow>
                            map_sum id (\<lambda>c. (c, log, Some b))
                              (if name = bytes_of_str ''devices'' then read_devices E more_args
                               else if name = bytes_of_str ''selftest'' then read_selftest fmt more_args
                               else if name = bytes_of_str ''recv'' then read_recv E fmt more_args
                               else if name = bytes_of_str ''send'' then read_send E fmt more_args
                               else if name = bytes_of_str ''serve'' then read_serve E fmt more_args
                               else if name = bytes_of_str ''recv2'' then read_recv2 E fmt more_args
                               else if name = bytes_of_str ''relay'' then read_relay E more_args
                               else Inl (CliUnknownCommand name)))))))"

section \<open>What a command opens and closes\<close>

text \<open>
  The calls a command makes in turn; after some of them the code defers a close.  The first call that fails ends the
  command.  A discovery socket is handed to the responder, which closes it.
\<close>

datatype call =
    CallOpenCapture
  | CallStartCapture
  | CallOpenPlayback
  | CallStartPlayback
  | CallWaitSignal
  | CallNewReceiver
  | CallListenTCP bytes
  | CallListenUDP
  | CallListenDiscovery "int list"
  | CallRunListeners
  | CallRunSender
  | CallNewHost
  | CallRunHost
  | CallNewClient
  | CallRunClient
  | CallNewIdentity
  | CallCertificate
  | CallRunRelay bytes
  | CallEnumerate

datatype call_event = Did call | Failed call | Closed call

fun run_calls :: "(call \<Rightarrow> bool) \<Rightarrow> call list \<Rightarrow> (call \<times> bool) list \<Rightarrow> call_event list \<times> bool" where
  "run_calls ok opened [] = (map Closed opened, True)"
| "run_calls ok opened ((c, closes) # cs) =
     (if ok c then (case run_calls ok (if closes then c # opened else opened) cs of (es, r) \<Rightarrow> (Did c # es, r))
      else (Failed c # map Closed opened, False))"

definition selftest_calls :: "(call \<times> bool) list" where
  "selftest_calls = [(CallOpenCapture, True), (CallOpenPlayback, True), (CallStartCapture, False), (CallStartPlayback, False),
     (CallWaitSignal, False)]"

text \<open>\<open>listening\<close> is the address the TCP listener got.\<close>

definition recv_calls :: "addr \<Rightarrow> recv_args \<Rightarrow> (call \<times> bool) list" where
  "recv_calls listening a =
     [(CallNewReceiver, False), (CallListenTCP (rv_addr a), True), (CallListenUDP, True), (CallOpenPlayback, True), (CallStartPlayback, False)] @
     (if rv_no_discovery a \<or> is_loopback_only listening then []
      else [(CallListenDiscovery (discovery_ports_for_flag (rv_discovery_port a)), False)]) @
     [(CallRunListeners, False)]"

definition send_calls :: "(call \<times> bool) list" where
  "send_calls = [(CallOpenCapture, True), (CallStartCapture, False), (CallRunSender, False)]"

definition serve_calls :: "(call \<times> bool) list" where
  "serve_calls = [(CallNewHost, False), (CallRunHost, False)]"

definition recv2_calls :: "(call \<times> bool) list" where
  "recv2_calls = [(CallOpenPlayback, True), (CallStartPlayback, False), (CallNewClient, False), (CallRunClient, False)]"

definition relay_calls :: "bytes \<Rightarrow> (call \<times> bool) list" where
  "relay_calls a = [(CallNewIdentity, False), (CallCertificate, False), (CallRunRelay a, False)]"

definition command_calls :: "addr \<Rightarrow> command \<Rightarrow> (call \<times> bool) list" where
  "command_calls listening c =
     (case c of
        CmdVersion \<Rightarrow> []
      | CmdDevices json \<Rightarrow> [(CallEnumerate, False)]
      | CmdSelftest fmt \<Rightarrow> selftest_calls
      | CmdRecv fmt a \<Rightarrow> recv_calls listening a
      | CmdSend fmt a \<Rightarrow> send_calls
      | CmdServe fmt a \<Rightarrow> serve_calls
      | CmdRecv2 fmt a \<Rightarrow> recv2_calls
      | CmdRelay a \<Rightarrow> relay_calls a)"

section \<open>Everything opened is closed\<close>

definition closed_calls :: "call_event list \<Rightarrow> call list" where
  "closed_calls es = List.map_filter (\<lambda>e. case e of Closed c \<Rightarrow> Some c | _ \<Rightarrow> None) es"

definition done_calls :: "call_event list \<Rightarrow> call list" where
  "done_calls es = List.map_filter (\<lambda>e. case e of Did c \<Rightarrow> Some c | _ \<Rightarrow> None) es"

definition failed_calls :: "call_event list \<Rightarrow> call list" where
  "failed_calls es = List.map_filter (\<lambda>e. case e of Failed c \<Rightarrow> Some c | _ \<Rightarrow> None) es"

lemma event_lists [simp]:
  "closed_calls [] = []" "closed_calls (Did c # es) = closed_calls es" "closed_calls (Failed c # es) = closed_calls es"
  "closed_calls (Closed c # es) = c # closed_calls es"
  "done_calls [] = []" "done_calls (Did c # es) = c # done_calls es" "done_calls (Failed c # es) = done_calls es"
  "done_calls (Closed c # es) = done_calls es"
  "failed_calls [] = []" "failed_calls (Did c # es) = failed_calls es" "failed_calls (Failed c # es) = c # failed_calls es"
  "failed_calls (Closed c # es) = failed_calls es"
  by (simp_all add: closed_calls_def done_calls_def failed_calls_def List.map_filter_simps)

lemma only_closed [simp]: "closed_calls (map Closed cs) = cs" "done_calls (map Closed cs) = []" "failed_calls (map Closed cs) = []"
  by (induction cs) simp_all

text \<open>The calls that open something the command itself has to close.\<close>

definition call_opens :: "call \<Rightarrow> bool" where
  "call_opens c \<longleftrightarrow> (case c of CallOpenCapture \<Rightarrow> True | CallOpenPlayback \<Rightarrow> True | CallListenTCP _ \<Rightarrow> True | CallListenUDP \<Rightarrow> True | _ \<Rightarrow> False)"

text \<open>The calls up to the first that fails.\<close>

definition succeeded :: "(call \<Rightarrow> bool) \<Rightarrow> (call \<times> bool) list \<Rightarrow> (call \<times> bool) list" where
  "succeeded ok cs = takeWhile (\<lambda>(c, _). ok c) cs"

lemma run_calls_spec:
  "run_calls ok opened cs = (es, r) \<Longrightarrow>
     done_calls es = map fst (succeeded ok cs) \<and> closed_calls es = rev (map fst (filter snd (succeeded ok cs))) @ opened \<and>
     r = list_all (\<lambda>(c, _). ok c) cs \<and>
     failed_calls es = map fst (take 1 (drop (length (succeeded ok cs)) cs))"
proof (induction ok opened cs arbitrary: es r rule: run_calls.induct)
  case (2 ok opened c closes cs)
  show ?case
  proof (cases "ok c")
    case True
    obtain es1 r1 where r: "run_calls ok (if closes then c # opened else opened) cs = (es1, r1)" by (metis prod.exhaust)
    then show ?thesis using 2(1)[OF True r] 2(2) True by (auto simp: succeeded_def)
  next
    case False
    then show ?thesis using 2(2) by (auto simp: succeeded_def)
  qed
qed (auto simp: succeeded_def)

text \<open>
  A command closes what it opened.  Whichever call of a command fails first, the calls before it have been made in order and
  none after it, and what they opened is closed, each once, the last one first, before the command
  returns; it returns without an error exactly if no call failed.
\<close>

theorem commands_close_what_they_open:
  "let (es, r) = run_calls ok [] (command_calls listening cmd)
   in done_calls es = map fst (succeeded ok (command_calls listening cmd)) \<and>
     closed_calls es = rev (filter call_opens (done_calls es)) \<and>
     r = (\<forall>(c, _) \<in> set (command_calls listening cmd). ok c) \<and> (failed_calls es = [] \<longleftrightarrow> r)"
proof -
  obtain es r where e: "run_calls ok [] (command_calls listening cmd) = (es, r)" by (metis prod.exhaust)
  note s = run_calls_spec[OF e]
  have marks: "\<forall>(c, b) \<in> set (command_calls listening cmd). b = call_opens c"
    by (cases cmd) (simp_all add: command_calls_def selftest_calls_def recv_calls_def send_calls_def serve_calls_def recv2_calls_def
        relay_calls_def call_opens_def)
  have "set (succeeded ok cs) \<subseteq> set cs" for cs unfolding succeeded_def by (meson set_takeWhileD subsetI)
  then have m: "\<forall>(c, b) \<in> set (succeeded ok (command_calls listening cmd)). b = call_opens c" using marks by blast
  have "map fst (filter snd xs) = filter call_opens (map fst xs)" if "\<forall>(c, b) \<in> set xs. b = call_opens c" for xs :: "(call \<times> bool) list"
    using that by (induction xs) auto
  then have c: "closed_calls es = rev (filter call_opens (done_calls es))" using s m by simp
  have f: "take 1 (drop (length (succeeded ok cs)) cs) = [] \<longleftrightarrow> list_all (\<lambda>(c, _). ok c) cs" for cs
    unfolding succeeded_def by (induction cs) auto
  show ?thesis using s c f by (simp add: e list_all_iff)
qed

section \<open>The receiver that is taken\<close>

lemma one_of_perm: "mset xs = mset ys \<Longrightarrow> xs = [x] \<longleftrightarrow> ys = [x]"
proof -
  assume m: "mset xs = mset ys"
  have "zs = [x] \<longleftrightarrow> length zs = 1 \<and> x \<in> set zs" for zs by (cases zs) auto
  then show ?thesis using mset_eq_length[OF m] mset_eq_setD[OF m] by metis
qed

lemma select_known: "select_discovered_peer peers name = Inr p \<longleftrightarrow> filter (\<lambda>q. name = [] \<or> pe_name q = name) peers = [p]"
  by (auto simp: select_discovered_peer_def split: list.splits)

text \<open>
  C31. A sender takes a receiver only when there is no choice.  Looking for a receiver yields an address exactly when the search
  found one and only one receiver, or one and only one of the required name, whatever else answered; it is that
  receiver's address, and the order in which the receivers were found does not matter.
\<close>

theorem sender_takes_the_only_receiver:
  "(discovered_peer str6 ports timeout sender name es = Inr a \<longleftrightarrow>
     (\<exists>peers p. find_ports str6 ports timeout sender es = Inr peers \<and> p \<in> set peers \<and> pe_addr p = a \<and> (name = [] \<or> pe_name p = name) \<and>
       (\<forall>q \<in> set peers. (name = [] \<or> pe_name q = name) \<longrightarrow> q = p))) \<and>
   (\<forall>xs ys p. mset xs = mset ys \<longrightarrow> (select_discovered_peer xs name = Inr p \<longleftrightarrow> select_discovered_peer ys name = Inr p))"
proof
  have d: "distinct peers" if "find_ports str6 ports timeout sender es = Inr peers" for peers
    using find_result[OF that] by (metis distinct_map)
  have one: "filter P xs = [p] \<longleftrightarrow> p \<in> set xs \<and> P p \<and> (\<forall>q \<in> set xs. P q \<longrightarrow> q = p)" if "distinct xs" for P and xs :: "peer list" and p
    using that by (induction xs) (auto simp: filter_empty_conv)
  show "discovered_peer str6 ports timeout sender name es = Inr a \<longleftrightarrow>
     (\<exists>peers p. find_ports str6 ports timeout sender es = Inr peers \<and> p \<in> set peers \<and> pe_addr p = a \<and> (name = [] \<or> pe_name p = name) \<and>
       (\<forall>q \<in> set peers. (name = [] \<or> pe_name q = name) \<longrightarrow> q = p))"
  proof (cases "find_ports str6 ports timeout sender es")
    case (Inr peers)
    have "discovered_peer str6 ports timeout sender name es = Inr a \<longleftrightarrow> (\<exists>p. select_discovered_peer peers name = Inr p \<and> pe_addr p = a)"
      by (auto simp: discovered_peer_def Inr choose_discovered_peer_def split: sum.split)
    then show ?thesis using one[OF d[OF Inr], of "\<lambda>q. name = [] \<or> pe_name q = name"] by (auto simp: select_known Inr)
  qed (simp add: discovered_peer_def)
  show "\<forall>xs ys p. mset xs = mset ys \<longrightarrow> (select_discovered_peer xs name = Inr p \<longleftrightarrow> select_discovered_peer ys name = Inr p)"
    unfolding select_known by (metis mset_filter one_of_perm)
qed

section \<open>What a command line can start\<close>

text \<open>A command whose arguments the rest of the program takes.\<close>

definition command_ok :: "command \<Rightarrow> bool" where
  "command_ok c \<longleftrightarrow>
     (case c of
        CmdRecv fmt a \<Rightarrow> 0 < f_rate fmt \<and> 0 < f_channels fmt
      | CmdSelftest fmt \<Rightarrow> 0 < f_rate fmt \<and> 0 < f_channels fmt
      | CmdSend fmt a \<Rightarrow> 0 < f_rate fmt \<and> 0 < f_channels fmt \<and> sd_transport a \<in> {''udp'', ''tcp''} \<and>
          (case sd_target a of
             FixedPeer to \<Rightarrow> validate_receiver_address to = None
           | SearchPeer ports timeout name \<Rightarrow> 0 < timeout \<and> (\<exists>ps. normalize_discovery_ports ports = Inr ps))
      | CmdServe fmt a \<Rightarrow> 0 < f_rate fmt \<and> 0 < f_channels fmt \<and> 0 \<notin> set (sr_apps a) \<union> set (sr_exclude a) \<and>
          (sr_tone a = ToneClick \<longrightarrow> sr_source a = SourceTestTone)
      | CmdRecv2 fmt a \<Rightarrow> 0 < f_rate fmt \<and> 0 < f_channels fmt \<and> r2_host a \<noteq> []
      | _ \<Rightarrow> True)"

lemma new_format_pos: "new_format r c m = Inr fmt \<Longrightarrow> 0 < f_rate fmt \<and> 0 < f_channels fmt"
  by (auto simp: new_format_def Let_def split: if_splits)

lemma pid_list_nonzero: "0 \<notin> set (parse_pid_list s)"
proof -
  have "(word_of_nat n :: u32) \<noteq> 0" if "parse_uint 32 t = Some n" "n \<noteq> 0" for n t
  proof -
    have "n < 2 ^ 32" using that(1) by (auto simp: parse_uint_def split: if_splits option.splits)
    then have "unat (word_of_nat n :: u32) = n" by (simp add: unat_of_nat)
    then show ?thesis using that(2) by (metis unat_0)
  qed
  then have e: "(case parse_uint 32 t of Some n \<Rightarrow> if n = 0 then None else Some (word_of_nat n) | None \<Rightarrow> None) \<noteq> Some (0 :: u32)" for t
    by (auto split: option.split)
  have "0 \<notin> set (List.map_filter f xs)" if "\<And>x. f x \<noteq> Some 0" for f :: "bytes \<Rightarrow> u32 option" and xs
    using that by (induction xs) (auto simp: List.map_filter_simps split: option.split)
  then show ?thesis using e by (simp add: parse_pid_list_def Let_def)
qed

lemma search_ports_ok: "0 \<le> p \<Longrightarrow> p \<le> 65535 \<Longrightarrow> \<exists>ps. normalize_discovery_ports (discovery_ports_for_flag p) = Inr ps"
  by (simp add: discovery_ports_for_flag_def normalize_discovery_ports_def DefaultPorts_def)

lemma read_send_ok: "read_send E fmt args = Inr c \<Longrightarrow> 0 < f_rate fmt \<Longrightarrow> 0 < f_channels fmt \<Longrightarrow> command_ok c"
  using search_ports_ok
  by (auto simp: read_send_def Let_def read_target_def command_ok_def parse_sender_transport_def
      split: sum.splits option.splits if_splits)

lemma read_serve_ok: "read_serve E fmt args = Inr c \<Longrightarrow> 0 < f_rate fmt \<Longrightarrow> 0 < f_channels fmt \<Longrightarrow> command_ok c"
  using pid_list_nonzero by (auto simp: read_serve_def Let_def command_ok_def split: sum.splits option.splits if_splits)

lemma read_others_ok:
  assumes "0 < f_rate fmt" "0 < f_channels fmt"
  shows "read_devices E args = Inr c \<Longrightarrow> command_ok c" "read_selftest fmt args = Inr c \<Longrightarrow> command_ok c"
    "read_recv E fmt args = Inr c \<Longrightarrow> command_ok c" "read_recv2 E fmt args = Inr c \<Longrightarrow> command_ok c" "read_relay E args = Inr c \<Longrightarrow> command_ok c"
  using assms by (auto simp: read_devices_def read_selftest_def read_recv_def read_recv2_def read_relay_def command_ok_def split: sum.splits if_splits)

text \<open>
  A command line that is accepted starts something the program can run.  Whatever the arguments, the command that results has a
  format of positive rate and channels, a sender a transport the sender supports and either an address of host and
  port in range or ports the search takes with a positive timeout, a host no process id 0 and clicks
  only with the test tone, a client an address; and all but the version have a backend.
\<close>

theorem accepted_commands_ok:
  assumes "run_command_line E reg args = Inr (cmd, log, b)"
  shows "command_ok cmd \<and> (cmd = CmdVersion \<or> b \<noteq> None)"
proof -
  obtain vs rest where v: "parse_flags (cl_duration E) (flags_of global_flags) [] args = Inr (vs, rest)"
    using assms by (auto simp: run_command_line_def split: sum.splits)
  show ?thesis
  proof (cases "cmd = CmdVersion")
    case True
    then show ?thesis by (simp add: command_ok_def)
  next
    case False
    obtain name args1 where r: "rest = name # args1" using assms False by (auto simp: run_command_line_def v split: sum.splits if_splits list.splits)
    obtain fmt where f: "new_format (int_flag ''rate'' 48000 vs) (int_flag ''channels'' 2 vs) (int_flag ''frame-ms'' 10 vs) = Inr fmt"
      using assms False by (auto simp: run_command_line_def v r split: sum.splits if_splits)
    obtain bk where k: "open_backend (cl_goos E) (text_flag ''backend'' (default_backend_name (cl_goos E) reg) vs) reg = Inr bk"
      using assms False by (auto simp: run_command_line_def v r f split: sum.splits if_splits)
    have p: "0 < f_rate fmt" "0 < f_channels fmt" using new_format_pos[OF f] by simp_all
    let ?run = "(if name = bytes_of_str ''devices'' then read_devices E args1
       else if name = bytes_of_str ''selftest'' then read_selftest fmt args1 else if name = bytes_of_str ''recv'' then read_recv E fmt args1
       else if name = bytes_of_str ''send'' then read_send E fmt args1 else if name = bytes_of_str ''serve'' then read_serve E fmt args1
       else if name = bytes_of_str ''recv2'' then read_recv2 E fmt args1 else if name = bytes_of_str ''relay'' then read_relay E args1
       else Inl (CliUnknownCommand name))"
    have m: "map_sum id (\<lambda>c. (c, lg, Some bk)) x = Inr (cmd, log, b) \<longleftrightarrow> x = Inr cmd \<and> lg = log \<and> b = Some bk" for x :: "cli_error + command" and lg
      by (cases x) auto
    have "?run = Inr cmd \<and> b = Some bk"
      using assms False unfolding run_command_line_def v r f k sum.case prod.case list.case
      by (auto simp only: m split: sum.splits if_splits)
    moreover have "command_ok cmd" if "?run = Inr cmd"
      using that read_others_ok[OF p] read_send_ok[OF _ p] read_serve_ok[OF _ p] by (auto split: if_splits)
    ultimately show ?thesis by simp
  qed
qed

section \<open>Flags are read back\<close>

text \<open>A flag given with its value, with two dashes and an equals sign.\<close>

definition given_flag :: "bytes \<Rightarrow> bytes \<Rightarrow> bytes" where
  "given_flag n v = [45, 45] @ n @ [61] @ v"

definition flag_name_ok :: "bytes \<Rightarrow> bool" where
  "flag_name_ok n \<longleftrightarrow> n \<noteq> [] \<and> hd n \<noteq> 45 \<and> 61 \<notin> set n"

lemma split_given: "n \<noteq> [] \<Longrightarrow> 61 \<notin> set n \<Longrightarrow> split_equals (n @ 61 # v) = (n, Some v)"
proof (induction n)
  case (Cons c cs)
  then show ?case by (cases cs) auto
qed simp

lemma parse_given:
  assumes "flag_name_ok n" "map_of fs n = Some k" "flag_value_of dur k v = Some x"
  shows "parse_flags dur fs vs (given_flag n v # args) = parse_flags dur fs (AList.update n x vs) args"
proof -
  have t: "flag_text (given_flag n v) = Inr (n @ 61 # v)"
    using assms(1) by (simp add: flag_text_def given_flag_def flag_name_ok_def)
  have h: "hd (n @ 61 # v) \<noteq> 45" "hd (n @ 61 # v) \<noteq> 61" using assms(1) by (auto simp: flag_name_ok_def) (metis list.set_sel(1))
  have s: "split_equals (n @ 61 # v) = (n, Some v)" using assms(1) by (simp add: split_given flag_name_ok_def)
  show ?thesis using assms(2,3) by (cases "k = BoolFlag") (simp_all add: t h s)
qed

lemma digit_range: "48 \<le> c \<Longrightarrow> c \<le> 57 \<Longrightarrow> unat (c :: byte) - 48 < 10 \<and> c \<noteq> 95"
  by (auto simp: word_le_nat_alt)

lemma digits_same: "digits_from acc s = Some n \<Longrightarrow> digits_in_base 10 acc s = Some n"
proof (induction acc s rule: digits_from.induct)
  case (2 acc c cs)
  then have c: "48 \<le> c" "c \<le> 57" by (auto split: if_splits)
  then show ?case using 2 digit_range[OF c] by (simp add: digit_value_def mult.commute)
qed simp

lemma no_leading_zero: "0 < n \<Longrightarrow> hd (digit_bytes n) \<noteq> 48"
proof (induction n rule: digit_bytes.induct)
  case (1 n)
  show ?case
  proof (cases "n < 10")
    case True
    then have "unat (48 + word_of_nat n :: byte) \<noteq> unat (48 :: byte)" using digit_byte[of n] 1(2) by simp
    then show ?thesis using True by (subst digit_bytes.simps) auto
  next
    case False
    then show ?thesis using 1(1) digit_bytes_ne[of "n div 10"] by (subst digit_bytes.simps) simp
  qed
qed

lemma decimal_flag:
  assumes "0 < n" "n < 2 ^ 63"
  shows "parse_int_auto (digit_bytes n) = Some (int n)"
proof -
  obtain c cs where d: "digit_bytes n = c # cs" using digit_bytes_ne by (metis list.exhaust)
  have c: "c \<noteq> 45" "c \<noteq> 43" "c \<noteq> 48" "95 \<notin> set (c # cs)"
    using no_leading_zero[OF assms(1)] digit_bytes_digits[of _ n] d by force+
  have s: "strip_sign (c # cs) = c # cs" using c by (simp add: strip_sign_def)
  have b: "base_prefix (c # cs) = None" using c by (simp add: base_prefix_def split: list.split)
  have "digits_in_base 10 0 (c # cs) = Some n" using digits_same[of 0 "digit_bytes n" n] digits_from_bytes d by metis
  then show ?thesis using c(1,3,4) assms(2) unfolding d parse_int_auto_def s Let_def by (simp add: b)
qed


section \<open>Concrete command lines\<close>

definition demo_cli :: cli_env where
  "demo_cli = \<lparr>cl_lower = map ascii_lower, cl_duration = (\<lambda>_. None), cl_hostname = None, cl_profiles = NoProfiles,
     cl_store_opens = (\<lambda>_. True), cl_goos = bytes_of_str ''windows''\<rparr>"

lemma demo_selftest:
  "run_command_line demo_cli [(bytes_of_str ''wasapi'', Some ())] [bytes_of_str ''selftest''] =
     Inr (CmdSelftest default_format, (LogInfo, False), Some ())"
  by code_simp

theorem accepted_commands_ok_witness:
  "\<exists>cmd log b. run_command_line demo_cli [(bytes_of_str ''wasapi'', Some ())] [bytes_of_str ''selftest''] = Inr (cmd, log, b) \<and> command_ok cmd \<and> b \<noteq> None"
  using accepted_commands_ok[OF demo_selftest] demo_selftest by blast

lemma demo_rate: "flag_value_of (\<lambda>_. None) IntFlag (digit_bytes 44100) = Some (IntValue 44100)"
  using decimal_flag[of 44100] by (simp add: flag_value_of_def)


theorem sender_takes_the_only_receiver_witness:
  "select_discovered_peer [\<lparr>pe_id = [1], pe_name = [65], pe_addr = ''a'', pe_addrs = []\<rparr>, \<lparr>pe_id = [2], pe_name = [66], pe_addr = ''b'', pe_addrs = []\<rparr>] [66] =
     Inr \<lparr>pe_id = [2], pe_name = [66], pe_addr = ''b'', pe_addrs = []\<rparr> \<and>
   select_discovered_peer [\<lparr>pe_id = [2], pe_name = [66], pe_addr = ''b'', pe_addrs = []\<rparr>, \<lparr>pe_id = [1], pe_name = [65], pe_addr = ''a'', pe_addrs = []\<rparr>] [66] =
     Inr \<lparr>pe_id = [2], pe_name = [66], pe_addr = ''b'', pe_addrs = []\<rparr>"
proof -
  let ?p = "\<lparr>pe_id = [1], pe_name = [65], pe_addr = ''a'', pe_addrs = []\<rparr>" and ?q = "\<lparr>pe_id = [2], pe_name = [66], pe_addr = ''b'', pe_addrs = []\<rparr>"
  have "select_discovered_peer [?p, ?q] [66] = Inr ?q" by (simp add: select_discovered_peer_def)
  moreover have "mset [?p, ?q] = mset [?q, ?p]" by simp
  ultimately show ?thesis using sender_takes_the_only_receiver[of "\<lambda>_. []" "[]" 0 "[]" "[66]" "[]" "[]"] by metis
qed

theorem commands_close_what_they_open_witness:
  "let (es, r) = run_calls (\<lambda>c. c \<noteq> CallStartCapture) [] (command_calls NoAddr (CmdSelftest default_format))
   in es = [Did CallOpenCapture, Did CallOpenPlayback, Failed CallStartCapture, Closed CallOpenPlayback, Closed CallOpenCapture] \<and> \<not> r \<and>
     (failed_calls es = [] \<longleftrightarrow> r)"
  using commands_close_what_they_open[of "\<lambda>c. c \<noteq> CallStartCapture" NoAddr "CmdSelftest default_format"]
  by (simp add: command_calls_def selftest_calls_def call_opens_def)

end
