(* ===== verification/TestTone.thy ===== *)
theory TestTone
  imports AudioRing GoFloat HostCapture
begin

text \<open>
  Sound that is made rather than captured, \<^verbatim>\<open>engine/internal/audio/synthetic.go\<close>, and the two callbacks of the
  miniaudio backend, \<^verbatim>\<open>engine/internal/audio/malgo/malgoaudio.go\<close>.  The sine and the multiples of pi are a
  record beside the floating-point operations; the ticks are given with the time since the start, in
  milliseconds.
\<close>

section \<open>Samples\<close>

record 'f trig_ops =
  tg_sin :: "'f \<Rightarrow> 'f"
  tg_two_pi :: 'f
  tg_tone :: 'f
  tg_click :: 'f

text \<open>\<open>tg_tone\<close> and \<open>tg_click\<close> are the circle times 440 and 1000.\<close>

definition clamp_int16 :: "'f float_ops \<Rightarrow> 'f \<Rightarrow> 16 word" where
  "clamp_int16 F v =
     (if fo_less F (fo_of_int F 32767) v then 32767
      else if fo_less F v (fo_of_int F (- 32768)) then - 32768
      else fo_trunc16 F v)"

definition sample_bytes :: "16 word \<Rightarrow> bytes" where
  "sample_bytes s = [ucast s, ucast (drop_bit 8 s)]"

definition sample16 :: "'f float_ops \<Rightarrow> 'f \<Rightarrow> 16 word" where
  "sample16 F v = clamp_int16 F (fo_mul F v (fo_of_int F 32767))"

text \<open>The phase of the tone and of its movement between the channels.\<close>

definition tone_phase :: "'f float_ops \<Rightarrow> 'f trig_ops \<Rightarrow> int \<Rightarrow> 'f \<Rightarrow> 'f" where
  "tone_phase F T rate phase =
     (let p = fo_add F phase (fo_div F (tg_tone T) (fo_of_int F rate))
      in if fo_less F (tg_two_pi T) p then fo_sub F p (tg_two_pi T) else p)"

definition pan_phase :: "'f float_ops \<Rightarrow> 'f trig_ops \<Rightarrow> int \<Rightarrow> 'f \<Rightarrow> 'f" where
  "pan_phase F T rate pan = fo_add F pan (fo_div F (tg_two_pi T) (fo_of_int F (wrap64 (rate * 4))))"

text \<open>One frame of the tone: the channels of a stereo format get shares that move slowly from one to the other.\<close>

definition tone_value :: "'f float_ops \<Rightarrow> 'f trig_ops \<Rightarrow> nat \<Rightarrow> 'f \<Rightarrow> 'f \<Rightarrow> nat \<Rightarrow> 'f" where
  "tone_value F T ch phase panPhase i =
     (let sample = fo_mul F (fo_lit F (1 / 4)) (tg_sin T phase);
          pan = fo_div F (fo_add F (tg_sin T panPhase) (fo_one F)) (fo_of_int F 2)
      in if ch = 2 then
           (if i = 0 then fo_mul F sample (fo_sub F (fo_one F) (fo_mul F (fo_half F) pan))
            else fo_mul F sample (fo_add F (fo_half F) (fo_mul F (fo_half F) pan)))
         else sample)"

definition click_value :: "'f float_ops \<Rightarrow> 'f trig_ops \<Rightarrow> int \<Rightarrow> bool \<Rightarrow> nat \<Rightarrow> 'f" where
  "click_value F T rate here f =
     (if here \<and> int f < wrap64 (rate * 2) sdiv 1000
      then fo_mul F (fo_lit F (9 / 10)) (tg_sin T (fo_div F (fo_mul F (tg_click T) (fo_of_int F (int f))) (fo_of_int F rate)))
      else fo_zero F)"

section \<open>Chunks\<close>

definition chunk_frames :: "int \<Rightarrow> nat" where
  "chunk_frames rate = nat (wrap64 (rate * 5) sdiv 1000)"

fun tone_chunk :: "'f float_ops \<Rightarrow> 'f trig_ops \<Rightarrow> int \<Rightarrow> nat \<Rightarrow> nat \<Rightarrow> 'f \<times> 'f \<Rightarrow> bytes \<times> 'f \<times> 'f" where
  "tone_chunk F T rate ch 0 st = ([], st)"
| "tone_chunk F T rate ch (Suc n) st =
     (let ph = tone_phase F T rate (fst st); pn = pan_phase F T rate (snd st)
      in case tone_chunk F T rate ch n (ph, pn) of
           (rest, st1) \<Rightarrow> (concat (map (\<lambda>i. sample_bytes (sample16 F (tone_value F T ch ph pn i))) [0..<ch]) @ rest, st1))"

definition click_chunk :: "'f float_ops \<Rightarrow> 'f trig_ops \<Rightarrow> int \<Rightarrow> nat \<Rightarrow> bool \<Rightarrow> bytes" where
  "click_chunk F T rate ch here =
     concat (map (\<lambda>f. concat (map (\<lambda>i. sample_bytes (sample16 F (click_value F T rate here f))) [0..<ch])) [0..<chunk_frames rate])"

definition click_due :: "int \<Rightarrow> bool" where
  "click_due elapsedMs \<longleftrightarrow> elapsedMs mod 1000 < 2"

text \<open>The source: its phases and the ring that is read.  \<open>contended\<close> says whether a reader holds the ring's lock.\<close>

record 'f synthetic =
  sy_format :: format
  sy_mode :: tone_mode
  sy_phases :: "'f \<times> 'f"
  sy_ring :: ring

definition new_synthetic :: "'f float_ops \<Rightarrow> format \<Rightarrow> tone_mode \<Rightarrow> format_error + 'f synthetic" where
  "new_synthetic F fmt mode =
     (case validate_format fmt of
        Some e \<Rightarrow> Inl e
      | None \<Rightarrow> Inr \<lparr>sy_format = fmt, sy_mode = mode, sy_phases = (fo_zero F, fo_zero F),
          sy_ring = new_ring (wrap64 (f_rate fmt * bytes_per_frame fmt)) (bytes_per_frame fmt)\<rparr>)"

definition synthetic_tick :: "'f float_ops \<Rightarrow> 'f trig_ops \<Rightarrow> int \<Rightarrow> bool \<Rightarrow> 'f synthetic \<Rightarrow> bytes \<times> 'f synthetic" where
  "synthetic_tick F T elapsedMs contended s =
     (let rate = f_rate (sy_format s); ch = nat (f_channels (sy_format s));
          (chunk, ph) = (case sy_mode s of
             ToneClick \<Rightarrow> (click_chunk F T rate ch (click_due elapsedMs), sy_phases s)
           | ToneSine \<Rightarrow> tone_chunk F T rate ch (chunk_frames rate) (sy_phases s))
      in (chunk, s\<lparr>sy_phases := ph, sy_ring := snd (ring_try_write contended chunk (sy_ring s))\<rparr>))"

section \<open>The callbacks of miniaudio\<close>

text \<open>
  The playback callback: the device asks for a number of frames in a buffer of bytes; what is not pulled
  stays silent, and bytes that are no whole frame are left as they were.
\<close>

definition playback_callback :: "nat \<Rightarrow> (bytes \<Rightarrow> nat \<Rightarrow> bytes) \<Rightarrow> nat \<Rightarrow> bytes \<Rightarrow> bytes" where
  "playback_callback bytesPerFrame pull frameCount out =
     (let frames = (if frameCount * bytesPerFrame > length out then length out div bytesPerFrame else frameCount);
          want = frames * bytesPerFrame
      in pull (replicate want 0) frames @ drop want out)"

definition capture_callback :: "bool \<Rightarrow> bytes \<Rightarrow> ring \<Rightarrow> ring" where
  "capture_callback contended input r = snd (ring_try_write contended input r)"

section \<open>What is heard\<close>

lemma sample_bytes_length [simp]: "length (sample_bytes s) = 2"
  by (simp add: sample_bytes_def)

lemma length_frame [simp]: "length (concat (map (\<lambda>i. sample_bytes (f i)) [0..<ch])) = 2 * ch"
  by (simp add: length_concat comp_def sum_list_triv)

lemma tone_chunk_length: "length (fst (tone_chunk F T rate ch n st)) = n * (2 * ch)"
proof (induction n arbitrary: st)
  case (Suc n)
  show ?case using Suc.IH[of "(tone_phase F T rate (fst st), pan_phase F T rate (snd st))"] by (simp add: Let_def case_prod_unfold)
qed simp

lemma click_chunk_length: "length (click_chunk F T rate ch here) = chunk_frames rate * (2 * ch)"
  by (simp add: click_chunk_def length_concat comp_def sum_list_triv)

text \<open>The samples of a chunk, as signed numbers.\<close>

fun samples_of :: "bytes \<Rightarrow> int list" where
  "samples_of (a # b # bs) = sint (ucast a OR push_bit 8 (ucast b) :: 16 word) # samples_of bs"
| "samples_of _ = []"

lemma samples_append: "even (length xs) \<Longrightarrow> samples_of (xs @ ys) = samples_of xs @ samples_of ys"
  by (induction xs rule: samples_of.induct) auto

lemma samples_sample: "samples_of (sample_bytes s @ bs) = sint s # samples_of bs"
proof -
  have "(ucast (ucast s :: byte) OR push_bit 8 (ucast (ucast (drop_bit 8 s) :: byte)) :: 16 word) = s"
    by (rule bit_word_eqI) (auto simp: bit_simps)
  then show ?thesis by (simp add: sample_bytes_def)
qed

lemma samples_concat: "samples_of (concat (map (\<lambda>x. sample_bytes (f x)) xs) @ bs) = map (\<lambda>x. sint (f x)) xs @ samples_of bs"
  by (induction xs) (simp_all add: samples_sample)

lemma samples_frames: "set (samples_of (concat (map (\<lambda>f. concat (map (\<lambda>i. sample_bytes (g f i)) [0..<ch])) fs))) \<subseteq> {sint (g f i) | f i. True}"
proof (induction fs)
  case (Cons f fs)
  then show ?case using samples_concat[of "g f" "[0..<ch]" "concat (map (\<lambda>f. concat (map (\<lambda>i. sample_bytes (g f i)) [0..<ch])) fs)"]
    by auto
qed simp

text \<open>A value within a part of full scale gives a sample within that part: nothing is clipped.\<close>

lemma sample16_bound:
  assumes "\<bar>v\<bar> \<le> q" "q * 32767 < 32768"
  shows "\<bar>of_int (sint (sample16 rat_ops v))\<bar> \<le> q * 32767"
proof -
  have a: "\<bar>v * 32767\<bar> \<le> q * 32767" using assms(1) by (simp add: abs_mult)
  have t: "\<bar>of_int (trunc_rat x)\<bar> \<le> \<bar>x\<bar>" for x :: rat
  proof (cases "0 \<le> x")
    case True
    then have "0 \<le> floor x" "of_int (floor x) \<le> x" by simp_all
    then show ?thesis using True by (simp add: trunc_rat_def)
  next
    case False
    then have "ceiling x \<le> 0" "x \<le> of_int (ceiling x)" by (simp_all add: ceiling_le_iff)
    then show ?thesis using False by (simp add: trunc_rat_def)
  qed
  consider "32767 < v * 32767" | "v * 32767 < - 32768" | "- 32768 \<le> v * 32767" "v * 32767 \<le> 32767" by linarith
  then show ?thesis
  proof cases
    case 1
    then have "(32767 :: rat) \<le> q * 32767" using a by linarith
    then show ?thesis using 1 by (simp add: sample16_def clamp_int16_def rat_ops_def)
  next
    case 2
    then show ?thesis using a assms(2) by linarith
  next
    case 3
    let ?i = "trunc_rat (v * 32767)"
    have i: "- 32768 \<le> ?i" "?i \<le> 32767" using 3 by (auto simp: trunc_rat_def floor_le_iff le_floor_iff ceiling_le_iff le_ceiling_iff)
    have s: "sample16 rat_ops v = word_of_int ?i" using 3 by (simp add: sample16_def clamp_int16_def rat_ops_def)
    have "sint (word_of_int ?i :: 16 word) = ?i" using i by (simp only: sint_sbintrunc') (simp add: signed_take_bit_int_eq_self)
    then show ?thesis using t[of "v * 32767"] a unfolding s by (simp del: of_int_abs)
  qed
qed

lemma tone_value_bound:
  assumes "\<And>x. \<bar>tg_sin T x\<bar> \<le> (1 :: rat)"
  shows "\<bar>tone_value rat_ops T ch ph pn i\<bar> \<le> 1 / 4"
proof -
  define s where "s = tg_sin T ph" define p where "p = (tg_sin T pn + 1) / 2"
  have s: "\<bar>s\<bar> \<le> 1" and p: "0 \<le> p" "p \<le> 1" using assms[of ph] assms[of pn] by (auto simp: s_def p_def abs_le_iff)
  have m: "\<bar>s / 4 * k\<bar> \<le> 1 / 4" if "0 \<le> k" "k \<le> 1" for k
  proof -
    have "\<bar>s / 4 * k\<bar> = \<bar>s\<bar> * k / 4" using that by (simp add: abs_mult)
    moreover have "\<bar>s\<bar> * k \<le> 1 * 1" by (rule mult_mono) (use s that in auto)
    ultimately show ?thesis by simp
  qed
  have "tone_value rat_ops T ch ph pn i =
      (if ch = 2 then if i = 0 then s / 4 * (1 - p / 2) else s / 4 * (1 / 2 + p / 2) else s / 4 * 1)"
    by (simp add: tone_value_def Let_def rat_ops_def s_def p_def)
  then show ?thesis using m[of "1 - p / 2"] m[of "1 / 2 + p / 2"] m[of 1] p by auto
qed

lemma tone_chunk_bound:
  assumes "\<And>x. \<bar>tg_sin T x\<bar> \<le> (1 :: rat)" "s \<in> set (samples_of (fst (tone_chunk rat_ops T rate ch n st)))"
  shows "\<bar>s\<bar> \<le> 8191"
  using assms(2)
proof (induction n arbitrary: st)
  case (Suc n)
  let ?ph = "tone_phase rat_ops T rate (fst st)" and ?pn = "pan_phase rat_ops T rate (snd st)"
  let ?rest = "fst (tone_chunk rat_ops T rate ch n (?ph, ?pn))"
  have c: "fst (tone_chunk rat_ops T rate ch (Suc n) st) =
      concat (map (\<lambda>i. sample_bytes (sample16 rat_ops (tone_value rat_ops T ch ?ph ?pn i))) [0..<ch]) @ ?rest"
    by (simp add: Let_def case_prod_unfold)
  show ?case
  proof (cases "s \<in> set (samples_of ?rest)")
    case True
    then show ?thesis by (rule Suc.IH)
  next
    case False
    then obtain i where i: "s = sint (sample16 rat_ops (tone_value rat_ops T ch ?ph ?pn i))"
      using Suc.prems unfolding c samples_concat by auto
    have "\<bar>of_int s :: rat\<bar> \<le> 1 / 4 * 32767" unfolding i by (rule sample16_bound[OF tone_value_bound[OF assms(1)]]) simp
    then have "of_int \<bar>s\<bar> < (8192 :: rat)" by simp
    then show ?thesis by linarith
  qed
qed simp

text \<open>
  The test tone is whole frames and never loud.  Every chunk is as many bytes as five milliseconds of the format are, and every sample of
  the tone stays within a quarter of full scale, those of the click within nine tenths, so none is clipped; a tick
  outside the first two milliseconds of a second is silent in click mode.
\<close>

theorem test_tone_safe:
  assumes T: "\<And>x. \<bar>tg_sin T x\<bar> \<le> (1 :: rat)"
    and s: "new_synthetic rat_ops fmt mode = Inr s0" "sy_format s = fmt" "sy_mode s = mode"
  shows "let (chunk, s1) = synthetic_tick rat_ops T ms contended s
    in length chunk = chunk_frames (f_rate fmt) * (2 * nat (f_channels fmt)) \<and>
      (\<forall>x \<in> set (samples_of chunk). \<bar>x\<bar> \<le> (if mode = ToneSine then 8191 else 29490)) \<and>
      (mode = ToneClick \<and> \<not> click_due ms \<longrightarrow> set (samples_of chunk) \<subseteq> {0}) \<and> sy_format s1 = fmt"
proof (cases mode)
  case ToneSine
  obtain c ph where c: "tone_chunk rat_ops T (f_rate fmt) (nat (f_channels fmt)) (chunk_frames (f_rate fmt)) (sy_phases s) = (c, ph)"
    by (metis prod.exhaust)
  have "\<bar>x\<bar> \<le> 8191" if "x \<in> set (samples_of c)" for x
    using tone_chunk_bound[OF T, of x "f_rate fmt" "nat (f_channels fmt)" "chunk_frames (f_rate fmt)" "sy_phases s"] that c by simp
  moreover have "length c = chunk_frames (f_rate fmt) * (2 * nat (f_channels fmt))"
    using tone_chunk_length[of rat_ops T "f_rate fmt" "nat (f_channels fmt)"] c by (metis fst_conv)
  ultimately show ?thesis using s ToneSine c by (simp add: synthetic_tick_def)
next
  case ToneClick
  let ?c = "click_chunk rat_ops T (f_rate fmt) (nat (f_channels fmt)) (click_due ms)"
  have v: "\<bar>click_value rat_ops T (f_rate fmt) h f\<bar> \<le> 9 / 10" for h f
    using T by (auto simp: click_value_def rat_ops_def abs_mult)
  have b: "\<bar>x\<bar> \<le> 29490" if x: "x \<in> set (samples_of ?c)" for x
  proof -
    obtain f where "x = sint (sample16 rat_ops (click_value rat_ops T (f_rate fmt) (click_due ms) f))"
      using samples_frames x unfolding click_chunk_def by fast
    then have "\<bar>of_int x :: rat\<bar> \<le> 9 / 10 * 32767" using sample16_bound[OF v] by simp
    then have "of_int \<bar>x\<bar> < (29491 :: rat)" by simp
    then show ?thesis by linarith
  qed
  have z: "set (samples_of ?c) \<subseteq> {0}" if "\<not> click_due ms"
  proof -
    have "sample16 rat_ops (click_value rat_ops T (f_rate fmt) (click_due ms) f) = 0" for f
      using that by (simp add: click_value_def sample16_def clamp_int16_def rat_ops_def trunc_rat_def)
    then show ?thesis using samples_frames[of "\<lambda>f i. sample16 rat_ops (click_value rat_ops T (f_rate fmt) (click_due ms) f)"]
      unfolding click_chunk_def by fastforce
  qed
  have t: "synthetic_tick rat_ops T ms contended s = (?c, s\<lparr>sy_phases := sy_phases s, sy_ring := snd (ring_try_write contended ?c (sy_ring s))\<rparr>)"
    using s ToneClick by (simp add: synthetic_tick_def Let_def)
  show ?thesis using s ToneClick b z by (simp add: t click_chunk_length)
qed

end
