(* ===== verification/Display.thy ===== *)
theory Display
  imports CommandLine Mixer
begin

text \<open>
  What is shown of names that come from the network: \<^verbatim>\<open>engine/internal/stats/stats.go\<close> and the printing in
  \<^verbatim>\<open>engine/cmd/remote-au/main.go\<close>.  Text is a list of runes (code points).  The table of printable characters,
  \<^verbatim>\<open>unicode.IsPrint\<close>, is the parameter \<open>printable\<close>, numbers are printed by \<open>show_int\<close>, latencies by the
  parameter \<open>showMs\<close>.
\<close>

section \<open>Escapes\<close>

definition hex_rune :: "nat \<Rightarrow> nat" where
  "hex_rune d = (if d < 10 then 48 + d else 87 + d)"

text \<open>The last \<open>k\<close> hexadecimal digits.\<close>

definition hex_runes :: "nat \<Rightarrow> nat \<Rightarrow> nat list" where
  "hex_runes k n = map (\<lambda>i. hex_rune (n div 16 ^ (k - 1 - i) mod 16)) [0..<k]"

text \<open>
  \<^verbatim>\<open>strconv.QuoteToASCII\<close> of one rune, without the quotes.  92 is the backslash; a printable ASCII
  character is escaped only if it is the backslash or the quote.
\<close>

definition quoted_rune :: "nat \<Rightarrow> nat list" where
  "quoted_rune r =
     (if r = 34 \<or> r = 92 then [92, r]
      else if 32 \<le> r \<and> r < 127 then [r]
      else if r = 7 then [92, 97] else if r = 8 then [92, 98] else if r = 12 then [92, 102] else if r = 10 then [92, 110]
      else if r = 13 then [92, 114] else if r = 9 then [92, 116] else if r = 11 then [92, 118]
      else if r < 32 \<or> r = 127 then [92, 120] @ hex_runes 2 r
      else if r < 65536 then [92, 117] @ hex_runes 4 r
      else [92, 85] @ hex_runes 8 r)"

section \<open>Names\<close>

definition max_display_name_runes :: nat where
  "max_display_name_runes = 80"

definition shown_rune :: "(nat \<Rightarrow> bool) \<Rightarrow> nat \<Rightarrow> nat list" where
  "shown_rune printable r = (if r = 127 \<or> r = 27 \<or> \<not> printable r then quoted_rune r else [r])"

definition dots :: "nat list" where
  "dots = [46, 46, 46]"

fun safe_display_from :: "(nat \<Rightarrow> bool) \<Rightarrow> nat \<Rightarrow> nat list \<Rightarrow> nat list" where
  "safe_display_from printable k [] = []"
| "safe_display_from printable k (r # rs) =
     (if k \<ge> max_display_name_runes then dots else shown_rune printable r @ safe_display_from printable (Suc k) rs)"

definition safe_display_name :: "(nat \<Rightarrow> bool) \<Rightarrow> nat list \<Rightarrow> nat list" where
  "safe_display_name printable name = safe_display_from printable 0 name"

definition text_runes :: "string \<Rightarrow> nat list" where
  "text_runes s = map of_char s"

definition display_peer_name :: "(nat \<Rightarrow> bool) \<Rightarrow> nat list \<Rightarrow> nat list" where
  "display_peer_name printable name =
     (let n = safe_display_name printable name in if n = [] then text_runes ''(unnamed)'' else n)"

definition peer_address_summary :: "peer \<Rightarrow> string" where
  "peer_address_summary p =
     (if length (pe_addrs p) \<le> 1 then pe_addr p
      else pe_addr p @ '' (observed: '' @ (case pe_addrs p of [] \<Rightarrow> [] | a # as \<Rightarrow> a @ concat (map (\<lambda>b. '', '' @ b) as)) @ '')'')"

text \<open>\<open>runes_of\<close> decodes a name; it yields the replacement character for bytes that are no UTF-8.\<close>

definition print_discovered_peer :: "(nat \<Rightarrow> bool) \<Rightarrow> (bytes \<Rightarrow> nat list) \<Rightarrow> peer \<Rightarrow> nat list" where
  "print_discovered_peer printable runes_of p =
     text_runes ''AUTO-CONNECTING to discovered LAN peer '' @ display_peer_name printable (runes_of (pe_name p)) @
     text_runes '' at '' @ text_runes (pe_addr p) @ [10]"

definition print_discovered_peers :: "(nat \<Rightarrow> bool) \<Rightarrow> (bytes \<Rightarrow> nat list) \<Rightarrow> peer list \<Rightarrow> nat list" where
  "print_discovered_peers printable runes_of ps =
     text_runes ''discovered receivers:'' @ [10] @
     concat (map (\<lambda>p. text_runes ''  '' @ display_peer_name printable (runes_of (pe_name p)) @ [9] @ text_runes (peer_address_summary p) @ [10]) ps)"

section \<open>Statistics as text\<close>

definition stats_text :: "(int \<Rightarrow> nat list) \<Rightarrow> audio_stats \<Rightarrow> nat list" where
  "stats_text showMs t =
     text_runes ('' queueSize='' @ show_int (as_queue_size t) @ ''/'' @ show_int (as_max_queue_size t) @
       '' discarded='' @ show_int (uint (as_discarded t)) @ '' underrun='' @ show_int (uint (as_underrun t)) @ '' latency='') @
     showMs (as_playout_latency_ns t) @ text_runes ''ms''"

definition stream_text :: "(nat \<Rightarrow> bool) \<Rightarrow> (string \<Rightarrow> nat list) \<Rightarrow> (int \<Rightarrow> nat list) \<Rightarrow> stream_snapshot \<Rightarrow> nat list" where
  "stream_text printable runes_of showMs s =
     text_runes ''  '' @ display_peer_name printable (runes_of (sn_name s)) @ text_runes ('' '' @ sn_remote_addr s) @
     stats_text showMs (sn_stats s)"

definition total_text :: "(int \<Rightarrow> nat list) \<Rightarrow> aggregate_snapshot \<Rightarrow> nat list" where
  "total_text showMs a =
     text_runes (''activeStreams='' @ show_int (int (ag_active_streams a))) @
     (if ag_active_streams a > 0 then stats_text showMs (ag_stats a) else [])"

definition format_verbose :: "(nat \<Rightarrow> bool) \<Rightarrow> (string \<Rightarrow> nat list) \<Rightarrow> (int \<Rightarrow> nat list) \<Rightarrow> aggregate_snapshot \<Rightarrow> nat list" where
  "format_verbose printable runes_of showMs a =
     total_text showMs a @ [10] @ concat (map (\<lambda>s. stream_text printable runes_of showMs s @ [10]) (ag_streams a))"

text \<open>\<^verbatim>\<open>strings.TrimSpace\<close> and \<^verbatim>\<open>strings.Split\<close> at a line feed.\<close>

definition space_rune :: "nat \<Rightarrow> bool" where
  "space_rune r \<longleftrightarrow> r \<in> {9, 10, 11, 12, 13, 32, 133, 160, 5760, 8232, 8233, 8239, 8287, 12288} \<or> 8192 \<le> r \<and> r \<le> 8202"

definition trim_space :: "nat list \<Rightarrow> nat list" where
  "trim_space rs = rev (dropWhile space_rune (rev (dropWhile space_rune rs)))"

fun split_lines :: "nat list \<Rightarrow> nat list list" where
  "split_lines [] = [[]]"
| "split_lines (r # rs) = (if r = 10 then [] # split_lines rs else case split_lines rs of l # ls \<Rightarrow> (r # l) # ls | [] \<Rightarrow> [[r]])"

text \<open>What one tick of the receiver's statistics logs.\<close>

definition receiver_stats_lines :: "(nat \<Rightarrow> bool) \<Rightarrow> (string \<Rightarrow> nat list) \<Rightarrow> (int \<Rightarrow> nat list) \<Rightarrow> aggregate_snapshot \<Rightarrow> nat list list" where
  "receiver_stats_lines printable runes_of showMs a =
     filter (\<lambda>l. l \<noteq> []) (split_lines (trim_space (format_verbose printable runes_of showMs a)))"

section \<open>Nothing unprintable is shown\<close>

lemma hex_runes_ascii: "r \<in> set (hex_runes k n) \<Longrightarrow> 48 \<le> r \<and> r \<le> 102"
  by (auto simp: hex_runes_def hex_rune_def split: if_splits)

lemma hex_runes_length [simp]: "length (hex_runes k n) = k"
  by (simp add: hex_runes_def)

lemma hex_runes_plain: "\<forall>x \<in> set (hex_runes k n). 32 \<le> x \<and> x < 127"
  using hex_runes_ascii by fastforce

lemma quoted_plain: "\<forall>x \<in> set (quoted_rune r). 32 \<le> x \<and> x < 127"
  unfolding quoted_rune_def using hex_runes_plain by simp

lemma quoted_ascii: "x \<in> set (quoted_rune r) \<Longrightarrow> 32 \<le> x \<and> x < 127"
  using quoted_plain by blast

lemma quoted_length: "1 \<le> length (quoted_rune r) \<and> length (quoted_rune r) \<le> 10"
  by (simp add: quoted_rune_def)

lemma shown_safe: "x \<in> set (shown_rune printable r) \<Longrightarrow> 32 \<le> x \<and> x < 127 \<or> printable x \<and> x \<noteq> 27 \<and> x \<noteq> 127"
  using quoted_ascii[of x r] by (auto simp: shown_rune_def split: if_splits)

lemma display_safe:
  "x \<in> set (safe_display_from printable c rs) \<Longrightarrow> 32 \<le> x \<and> x < 127 \<or> printable x \<and> x \<noteq> 27 \<and> x \<noteq> 127"
  by (induction rs arbitrary: c) (auto simp: dots_def split: if_splits dest: shown_safe)

lemma display_length:
  "c \<le> 80 \<Longrightarrow> length (safe_display_from printable c rs) \<le> 10 * (80 - c) + 3"
proof (induction rs arbitrary: c)
  case (Cons r rs)
  show ?case
  proof (cases "c = 80")
    case False
    then have "length (safe_display_from printable (Suc c) rs) \<le> 10 * (80 - Suc c) + 3"
      using Cons.IH[of "Suc c"] Cons.prems by linarith
    moreover have "length (shown_rune printable r) \<le> 10" using quoted_length[of r] by (simp add: shown_rune_def)
    ultimately show ?thesis using False Cons.prems by (simp add: max_display_name_runes_def)
  qed (simp add: max_display_name_runes_def dots_def)
qed simp

lemma display_empty: "safe_display_from printable 0 rs = [] \<longleftrightarrow> rs = []"
  using quoted_length[of "hd rs"]
  by (cases rs) (auto simp: max_display_name_runes_def shown_rune_def)

lemma display_plain:
  "list_all (\<lambda>r. printable r \<and> r \<noteq> 27 \<and> r \<noteq> 127) rs \<Longrightarrow> c + length rs \<le> 80 \<Longrightarrow> safe_display_from printable c rs = rs"
  by (induction rs arbitrary: c) (auto simp: max_display_name_runes_def shown_rune_def)

lemma digits_plain: "c \<in> set (show_nat n) \<Longrightarrow> 48 \<le> (of_char c :: nat) \<and> of_char c < (58 :: nat)"
proof (induction n rule: show_nat.induct)
  case (1 n)
  then show ?case by (subst (asm) (2) show_nat.simps) (auto split: if_splits simp: show_nat.simps[of n])
qed

lemma int_plain: "c \<in> set (show_int i) \<Longrightarrow> 45 \<le> (of_char c :: nat) \<and> of_char c < (58 :: nat)"
  by (auto simp: show_int_def dest!: digits_plain split: if_splits)

lemma text_runes_append [simp]: "text_runes (a @ b) = text_runes a @ text_runes b"
  by (simp add: text_runes_def)

lemma line_split: "10 \<notin> set l \<Longrightarrow> split_lines (l @ 10 # rs) = l # split_lines rs"
  by (induction l) auto

lemma line_end: "10 \<notin> set l \<Longrightarrow> split_lines l = [l]"
  by (induction l) auto

text \<open>Lines that hold no line feed and begin and end with ink come back from the text they are joined to.\<close>

lemma joined: "l @ [10] @ concat (map (\<lambda>s. f s @ [10]) ss) = (l @ concat (map (\<lambda>s. 10 # f s) ss)) @ [10]"
proof (induction ss arbitrary: l)
  case (Cons s ss)
  then show ?case using Cons.IH[of "l @ [10] @ f s"] by simp
qed simp

lemma joined_split:
  "10 \<notin> set l \<Longrightarrow> \<forall>s \<in> set ss. 10 \<notin> set (f s) \<Longrightarrow> split_lines (l @ concat (map (\<lambda>s. 10 # f s) ss)) = l # map f ss"
  by (induction ss arbitrary: l) (simp_all add: line_end line_split)

lemma joined_last: "last (l @ concat (map (\<lambda>s. 10 # f s) ss)) = (if ss = [] then last l else if f (last ss) = [] then 10 else last (f (last ss)))"
  by (induction ss rule: rev_induct) auto

lemma trim_line:
  assumes "l \<noteq> []" "\<not> space_rune (hd l)" "\<not> space_rune (last l)"
  shows "trim_space (l @ [10]) = l"
proof -
  have "dropWhile space_rune (l @ [10]) = l @ [10]" using assms by (cases l) auto
  moreover have "dropWhile space_rune (10 # rev l) = rev l"
    using assms by (cases l rule: rev_cases) (auto simp: space_rune_def)
  ultimately show ?thesis by (simp add: trim_space_def)
qed

lemma int_no_feed: "10 \<notin> set (text_runes (show_int i))"
  using int_plain by (fastforce simp: text_runes_def)

lemma stats_text_end: "last (stats_text showMs t) = 115" "stats_text showMs t \<noteq> []"
  by (simp_all add: stats_text_def text_runes_def)

lemma stats_text_no_feed: "10 \<notin> set (showMs (as_playout_latency_ns t)) \<Longrightarrow> 10 \<notin> set (stats_text showMs t)"
  using int_no_feed by (simp add: stats_text_def) (simp add: text_runes_def)

lemma total_text_begin: "total_text showMs a \<noteq> []" "hd (total_text showMs a) = 97"
  by (simp_all add: total_text_def text_runes_def)

lemma total_text_no_feed: "10 \<notin> set (showMs (as_playout_latency_ns (ag_stats a))) \<Longrightarrow> 10 \<notin> set (total_text showMs a)"
  using int_no_feed stats_text_no_feed by (simp add: total_text_def) (simp add: text_runes_def)

lemma total_text_end: "last (total_text showMs (new_aggregate ss)) \<in> {48, 115}"
proof (cases ss)
  case Nil
  have "show_int 0 = [char_of (48 :: nat)]" by (simp add: show_int_def show_nat.simps)
  then show ?thesis using Nil by (simp add: total_text_def new_aggregate_def text_runes_def)
next
  case (Cons s ss')
  then show ?thesis using stats_text_end by (simp add: total_text_def new_aggregate_def)
qed

lemma stream_text_end: "last (stream_text printable runes_of showMs s) = 115" "stream_text printable runes_of showMs s \<noteq> []"
  using stats_text_end by (simp_all add: stream_text_def)

text \<open>
  A name from the network cannot drive the terminal.  Whatever a peer calls itself, what is shown of the name is not empty, holds at most
  803 characters, and each of them is printable or plain ASCII, so there is no escape, no line feed and no other
  control character; a printable name of at most 80 characters is shown as it is.
\<close>

theorem names_shown_safely:
  assumes "\<And>r. printable r \<Longrightarrow> 32 \<le> r"
  shows "let shown = display_peer_name printable name
    in shown \<noteq> [] \<and> length shown \<le> 803 \<and> (\<forall>x \<in> set shown. 32 \<le> x \<and> x \<noteq> 27 \<and> x \<noteq> 127 \<and> (x < 127 \<or> printable x)) \<and>
      (name \<noteq> [] \<and> length name \<le> 80 \<and> list_all (\<lambda>r. printable r \<and> r \<noteq> 127) name \<longrightarrow> shown = name)"
proof (cases "name = []")
  case True
  have "text_runes ''(unnamed)'' = [40, 117, 110, 110, 97, 109, 101, 100, 41]" by (simp add: text_runes_def)
  then show ?thesis using True by (simp add: display_peer_name_def safe_display_name_def)
next
  case False
  let ?s = "safe_display_from printable 0 name"
  have s: "display_peer_name printable name = ?s"
    using False by (simp add: display_peer_name_def safe_display_name_def display_empty)
  have "32 \<le> x \<and> x \<noteq> 27 \<and> x \<noteq> 127 \<and> (x < 127 \<or> printable x)" if "x \<in> set ?s" for x
    using display_safe[OF that] assms[of x] by auto
  moreover have "?s = name" if "length name \<le> 80" "list_all (\<lambda>r. printable r \<and> r \<noteq> 127) name"
  proof (rule display_plain)
    show "list_all (\<lambda>r. printable r \<and> r \<noteq> 27 \<and> r \<noteq> 127) name" using that(2) assms[of 27] by (auto simp: list_all_iff)
  qed (use that(1) in simp)
  ultimately show ?thesis using False display_length[of 0 printable name] by (simp add: s display_empty)
qed

theorem names_shown_safely_witness:
  "display_peer_name (\<lambda>r. 32 \<le> r \<and> r < 127) [27, 91, 50, 74] \<noteq> [] \<and>
   (\<forall>x \<in> set (display_peer_name (\<lambda>r. 32 \<le> r \<and> r < 127) [27, 91, 50, 74]). 32 \<le> x \<and> x \<noteq> 27)"
  using names_shown_safely[of "\<lambda>r. 32 \<le> r \<and> r < 127" "[27, 91, 50, 74]"] by (simp add: Let_def)

lemma display_no_feed:
  assumes "\<And>r. printable r \<Longrightarrow> 32 \<le> r"
  shows "10 \<notin> set (display_peer_name printable name)"
proof
  assume "10 \<in> set (display_peer_name printable name)"
  then have "(32 :: nat) \<le> 10" using names_shown_safely[of printable name, OF assms] unfolding Let_def by blast
  then show False by simp
qed

lemma stream_text_no_feed:
  assumes "10 \<notin> set (display_peer_name printable (runes_of (sn_name s)))" "10 \<notin> set (text_runes (sn_remote_addr s))"
    "10 \<notin> set (showMs (as_playout_latency_ns (sn_stats s)))"
  shows "10 \<notin> set (stream_text printable runes_of showMs s)"
proof -
  have "10 \<notin> set (text_runes ''  '')" "10 \<notin> set (text_runes '' '')" by (simp_all add: text_runes_def)
  then show ?thesis using assms stats_text_no_feed[of showMs "sn_stats s"] unfolding stream_text_def text_runes_append set_append by blast
qed

text \<open>
  A stream cannot forge a line of the log.  Every tick of the receiver's statistics logs one line for the whole and exactly one for each stream, in
  order, whatever the streams call themselves; the only conditions are that the addresses and the printed
  latencies hold no line feed.
\<close>

theorem stats_lines_not_forged:
  assumes "\<And>r. printable r \<Longrightarrow> 32 \<le> r" "\<And>d. 10 \<notin> set (showMs d)" "\<And>s. s \<in> set ss \<Longrightarrow> 10 \<notin> set (text_runes (sn_remote_addr s))"
  shows "receiver_stats_lines printable runes_of showMs (new_aggregate ss) =
    total_text showMs (new_aggregate ss) # map (stream_text printable runes_of showMs) ss"
proof -
  let ?f = "stream_text printable runes_of showMs" and ?t = "total_text showMs (new_aggregate ss)"
  let ?all = "?t @ concat (map (\<lambda>s. 10 # ?f s) ss)"
  have "10 \<notin> set (?f s)" if "s \<in> set ss" for s
    by (intro stream_text_no_feed display_no_feed assms(1,2) assms(3)[OF that])
  then have sp: "split_lines ?all = ?t # map ?f ss" by (intro joined_split total_text_no_feed[OF assms(2)]) blast
  have "last ?all \<in> {48, 115}" using total_text_end stream_text_end by (simp add: joined_last)
  then have "\<not> space_rune (last ?all)" by (elim insertE emptyE) (simp_all add: space_rune_def)
  moreover have "hd ?all = 97" using total_text_begin by simp
  ultimately have "trim_space (?all @ [10]) = ?all" using total_text_begin(1) by (intro trim_line) (auto simp: space_rune_def)
  moreover have "format_verbose printable runes_of showMs (new_aggregate ss) = ?all @ [10]"
    unfolding joined[symmetric] by (simp add: format_verbose_def new_aggregate_def)
  ultimately show ?thesis using sp total_text_begin(1) stream_text_end(2) by (simp add: receiver_stats_lines_def)
qed

end
