(* ===== verification/Spec2Isabelle.thy ===== *)
theory Spec2Isabelle
  imports ProtocolV1 MediaV2 ControlV2 AudioRing Mixer Receiver Sender Quality Codec OpusCodec ClientMedia
    Discovery Finder Pairing TrustStore Relay Session HostStream Devices HostCapture HostControl HostAdmission ClientRun ClientStream HostService Resample ProcessLoopback Recording Mobile Tray TrayWindows CommandLine TestTone Display
begin

text \<open>
  RemoteAU streams a computer's sound over the local network or through a relay.  The program is the Go
  engine under \<^verbatim>\<open>src/engine\<close>; it holds two generations that share the audio core.

  \<^bold>\<open>Parts and how they interact.\<close>  The legacy sender (\<^verbatim>\<open>internal/transport/sender.go\<close>) cuts captured PCM
  into packets and writes them as TCP frames or UDP datagrams (\<^verbatim>\<open>internal/protocol\<close>); the legacy receiver
  (\<^verbatim>\<open>receiver.go\<close>) checks the handshake, registers a mixer stream per sender and fills its jitter buffer,
  from which the mixing callback (\<^verbatim>\<open>internal/mixer\<close>) plays.  The second generation has a host and clients
  (\<^verbatim>\<open>internal/engine\<close>): control messages (\<^verbatim>\<open>internal/protocol/v2/control.go\<close>) travel over a session
  (\<^verbatim>\<open>internal/session\<close>), media datagrams (\<^verbatim>\<open>packet.go\<close>) beside it; the host's send loop encodes the shared
  capture with a codec (\<^verbatim>\<open>internal/codec\<close>) and the client's reorder window (\<^verbatim>\<open>engine/media.go\<close>) undoes what
  the network did.  Devices find each other by discovery, become trusted by a pairing exchange whose
  result the trust stores keep, and meet through the relay when they are not on one network.

  \<^bold>\<open>Theories.\<close>
  \<^item> Prelude, GoInt, GoFloat, Circular, Wire_IO: byte lists, Go's wrapping and floating arithmetic (a record
    of operations, with exact rationals as the instance of the witnesses), circular buffers, readers and
    writers, and the locales \<open>dgram_codec\<close> and \<open>stream_codec\<close> that every wire format interprets.
  \<^item> ProtocolV1, MediaV2, ControlV2: the wire formats.  Encoders and decoders are inverse to each other on
    exactly the encodable values.
  \<^item> AudioFormat, AudioRing, JitterBuffer, Mixer: the PCM format and the three real-time containers, with
    conservation of bytes, and the mixing callback.
  \<^item> FrameTracker, Receiver, Sender: the legacy transport, with its registry, loss accounting, reconnection
    delays and the composition of sender and receiver.
  \<^item> Quality: the adaptive controller and the presets.
  \<^item> Codec, OpusCodec: the codec contract (locale \<open>codec_contract\<close>), PCM and the wrapper around libopus.
  \<^item> ClientMedia: the client's reorder window, concealment and recovery.
  \<^item> Discovery, Finder: announcement packets, the search, and the rate-limited responder.
  \<^item> Pairing, TrustStore: the PIN exchange over abstract primitives, and three stores that refine a list.
  \<^item> Relay, Session: matching and splicing of relayed connections, the envelope, and the control session.
  \<^item> HostStream, Devices, HostCapture, HostControl: what the host negotiates and sends, which device a
    selector means, what is captured, and what control messages do.
  \<^item> HostAdmission, HostService: who is let in and who must pair, what a resume token opens, the registry of
    streams, forgetting a peer, the settings, and how the listeners of one capture share it.
  \<^item> ClientRun, ClientStream: the client's attempt, from the hello over pairing and resume to the stream, composed
    with the host's admission; its retry loop; what it reports and what the host makes of it.
  \<^item> Resample, ProcessLoopback, Recording: sample converters and resamplers at the edge of the audio system, the
    mixing of per-process captures, and the WAV file of a recording.
  \<^item> Mobile: the facade of the phone application as a transition system of calls and goroutine steps.
  \<^item> Tray, TrayWindows, CommandLine: the two programs built on the engine.  The tray application as a transition
    system of hosts started, stopped and lost and of settings saved; its two windows; and the flags, checks and
    calls of the command line.
  \<^item> TestTone, Display: the generated test tone with the callbacks of miniaudio, and what is printed of
    names and statistics that come from the network.

  \<^bold>\<open>Correspondence.\<close>  A struct is a record with one field per field of the source, an operation is a
  function that returns the changed record, an error is the left value of a sum or \<open>Some\<close> of an error
  type.  Locks that guard one region make it one step; a contended \<^verbatim>\<open>TryLock\<close> is a Boolean argument.  Time is
  an argument in nanoseconds, the random source, the network, the audio system, libopus and the
  cryptographic primitives are arguments or records of functions.

  \<^bold>\<open>Bounds and fuel.\<close>  No definition has fuel: loops are structural, have a measure, or are partial functions
  whose result is proved to exist (\<open>feed\<close> of HostStream for valid formats, \<open>flush\<close> of ClientMedia, and \<open>resample_linear\<close>,
  \<open>refill\<close> and \<open>fill_frames\<close> of Resample).  The flush of
  a far-away packet conceals up to 2^31 frames, which is a theorem and a finding, not a bound of the model.

  \<^bold>\<open>Not modelled.\<close>  COM and WASAPI calls, miniaudio, the tray's widgets and registry entry, QUIC, the making
  of certificates and the Swift application: they call the modelled parts and systems whose
  code is not here.  Of the mobile bindings, the tray and the command line the state, the decisions and the goroutines
  are modelled, not the JSON or most of what is printed.  Log output and user-interface callbacks are left out; reads that wait
  are events.
\<close>

end
